(* ===== verification/HpuPrelude.thy ===== *)
theory HpuPrelude
  imports Main "HOL-Library.Word"
begin

text \<open>
  Shared ground of the development: the C library's byte and string conventions, the
  status codes of \<^verbatim>\<open>include/hpulogc.h\<close>, little-endian scalar images (what the
  \<^verbatim>\<open>memcpy\<close> of a scalar leaves in memory), reads and writes of byte ranges, and the list
  lemmas the components share.

  A C byte is a \<^typ>\<open>char\<close> (HOL's \<^typ>\<open>char\<close> is exactly eight bits), a byte
  array is a \<^typ>\<open>string\<close>. A NUL-terminated C string is the list of its bytes before
  the terminator.
\<close>

section \<open>Collections\<close>

named_theorems status_simps \<open>values of the status codes\<close>
named_theorems range_simps \<open>reads and writes of byte ranges\<close>

section \<open>Status codes\<close>

type_synonym byte = char

definition HPULOGC_OK :: int where [status_simps]: "HPULOGC_OK = 0"
definition HPULOGC_ERR_INVALID_ARG :: int where [status_simps]: "HPULOGC_ERR_INVALID_ARG = -1"
definition HPULOGC_ERR_NO_MEM :: int where [status_simps]: "HPULOGC_ERR_NO_MEM = -2"
definition HPULOGC_ERR_IO :: int where [status_simps]: "HPULOGC_ERR_IO = -3"
definition HPULOGC_ERR_CONFIG :: int where [status_simps]: "HPULOGC_ERR_CONFIG = -4"
definition HPULOGC_ERR_STATE :: int where [status_simps]: "HPULOGC_ERR_STATE = -5"

section \<open>C strings and trimming\<close>

definition cstr :: "string \<Rightarrow> string" where
  "cstr s = takeWhile (\<lambda>c. c \<noteq> CHR 0x00) s"

definition rtrim :: "(char \<Rightarrow> bool) \<Rightarrow> string \<Rightarrow> string" where
  "rtrim P s = rev (dropWhile P (rev s))"

definition tail_run :: "char \<Rightarrow> string \<Rightarrow> nat" where
  "tail_run c s = length (takeWhile (\<lambda>x. x = c) (rev s))"

lemma cstr_no_nul [simp]: "CHR 0x00 \<notin> set s \<Longrightarrow> cstr s = s"
  by (auto simp: cstr_def takeWhile_eq_all_conv)

lemma nul_not_in_cstr [simp]: "CHR 0x00 \<notin> set (cstr s)"
  by (auto simp: cstr_def dest: set_takeWhileD)

lemma cstr_cstr [simp]: "cstr (cstr s) = cstr s"
  by simp

lemma cstr_append: "CHR 0x00 \<notin> set a \<Longrightarrow> cstr (a @ t) = a @ cstr t"
  by (induction a) (auto simp: cstr_def)

lemma length_cstr_le: "length (cstr s) \<le> length s"
  by (simp add: cstr_def length_takeWhile_le)

lemma rtrim_Nil [simp]: "rtrim P [] = []"
  by (simp add: rtrim_def)

lemma rtrim_snoc [simp]: "rtrim P (s @ [c]) = (if P c then rtrim P s else s @ [c])"
  by (simp add: rtrim_def)

lemma rtrim_last: "rtrim P s \<noteq> [] \<Longrightarrow> \<not> P (last (rtrim P s))"
  by (induction s rule: rev_induct) auto

lemma rtrim_prefix: "\<exists>t. s = rtrim P s @ t \<and> (\<forall>c \<in> set t. P c)"
proof (induction s rule: rev_induct)
  case Nil
  then show ?case by simp
next
  case (snoc c s)
  then show ?case
  proof (cases "P c")
    case True
    from snoc obtain t where "s = rtrim P s @ t" "\<forall>c \<in> set t. P c" by blast
    with True have "s @ [c] = rtrim P (s @ [c]) @ (t @ [c]) \<and> (\<forall>d \<in> set (t @ [c]). P d)"
      by simp
    then show ?thesis by blast
  qed simp
qed

lemma length_rtrim_le: "length (rtrim P s) \<le> length s"
  by (metis rtrim_prefix length_append le_add1)

lemma set_rtrim_subset: "set (rtrim P s) \<subseteq> set s"
  by (metis rtrim_prefix set_append Un_upper1)

lemma rtrim_id: "s = [] \<or> \<not> P (last s) \<Longrightarrow> rtrim P s = s"
  by (induction s rule: rev_induct) auto

lemma rtrim_idem [simp]: "rtrim P (rtrim P s) = rtrim P s"
  using rtrim_last rtrim_id by blast

lemma rtrim_eq_Nil: "rtrim P s = [] \<longleftrightarrow> (\<forall>c \<in> set s. P c)"
  by (auto simp: rtrim_def dropWhile_eq_Nil_conv)

lemma rtrim_append_all: "(\<forall>c \<in> set t. P c) \<Longrightarrow> rtrim P (s @ t) = rtrim P s"
  by (induction t rule: rev_induct) (simp_all flip: append_assoc)

lemma rtrim_weaker: "(\<And>c. P c \<Longrightarrow> Q c) \<Longrightarrow> rtrim Q (rtrim P s) = rtrim Q s"
  by (metis rtrim_append_all rtrim_prefix)

lemma tail_run_le: "tail_run c s \<le> length s"
  unfolding tail_run_def by (metis length_rev length_takeWhile_le)

lemma tail_run_snoc_other [simp]: "x \<noteq> c \<Longrightarrow> tail_run c (s @ [x]) = 0"
  by (simp add: tail_run_def)

lemma tail_run_snoc_same [simp]: "tail_run c (s @ [c]) = Suc (tail_run c s)"
  by (simp add: tail_run_def)

lemma tail_run_Nil [simp]: "tail_run c [] = 0"
  by (simp add: tail_run_def)

lemma tail_run_eq_0: "tail_run c s = 0 \<longleftrightarrow> s = [] \<or> last s \<noteq> c"
  by (cases s rule: rev_cases) (auto simp: tail_run_def)

section \<open>Little-endian images of scalars\<close>

primrec le_enc :: "nat \<Rightarrow> nat \<Rightarrow> byte list" where
  "le_enc 0 n = []"
| "le_enc (Suc k) n = char_of n # le_enc k (n div 256)"

primrec le_dec :: "byte list \<Rightarrow> nat" where
  "le_dec [] = 0"
| "le_dec (b # bs) = of_char b + 256 * le_dec bs"

lemma length_le_enc [simp]: "length (le_enc k n) = k"
  by (induction k arbitrary: n) simp_all

lemma le_dec_enc: "le_dec (le_enc k n) = n mod 256 ^ k"
proof (induction k arbitrary: n)
  case 0
  then show ?case by simp
next
  case (Suc k)
  have "n mod 256 ^ Suc k = n mod 256 + 256 * (n div 256 mod 256 ^ k)"
    by (simp add: mod_mult2_eq)
  then show ?case using Suc by simp
qed

lemma le_dec_enc_small [simp]: "n < 256 ^ k \<Longrightarrow> le_dec (le_enc k n) = n"
  by (simp add: le_dec_enc)

lemma le_dec_less: "le_dec bs < 256 ^ length bs"
proof (induction bs)
  case Nil
  then show ?case by simp
next
  case (Cons b bs)
  have "of_char b < (256::nat)" using nat_of_char_less_256 .
  moreover from Cons have "256 * Suc (le_dec bs) \<le> 256 * 256 ^ length bs"
    by (simp only: Suc_le_eq mult_le_cancel1 zero_less_numeral) simp
  ultimately show ?case by (simp del: nat_of_char_less_256)
qed

section \<open>Byte ranges\<close>

definition bslice :: "nat \<Rightarrow> nat \<Rightarrow> 'a list \<Rightarrow> 'a list" where
  "bslice off n xs = take n (drop off xs)"

definition splice_at :: "nat \<Rightarrow> 'a list \<Rightarrow> 'a list \<Rightarrow> 'a list" where
  "splice_at off ys xs = take off xs @ ys @ drop (off + length ys) xs"

lemma length_splice_at [range_simps]:
  "off + length ys \<le> length xs \<Longrightarrow> length (splice_at off ys xs) = length xs"
  by (simp add: splice_at_def)

lemma bslice_splice_same [range_simps]:
  "off + length ys \<le> length xs \<Longrightarrow> bslice off (length ys) (splice_at off ys xs) = ys"
  by (simp add: bslice_def splice_at_def)

lemma bslice_splice_before [range_simps]:
  "p + n \<le> off \<Longrightarrow> off \<le> length xs \<Longrightarrow> bslice p n (splice_at off ys xs) = bslice p n xs"
  by (simp add: bslice_def splice_at_def take_drop)

lemma bslice_splice_after [range_simps]:
  "off + length ys \<le> p \<Longrightarrow> off \<le> length xs \<Longrightarrow> bslice p n (splice_at off ys xs) = bslice p n xs"
  by (simp add: bslice_def splice_at_def)

lemma bslice_bslice:
  "i + m \<le> n \<Longrightarrow> bslice i m (bslice off n xs) = bslice (off + i) m xs"
  by (simp add: bslice_def drop_take add.commute)

lemma length_bslice [simp]: "length (bslice off n xs) = min n (length xs - off)"
  by (simp add: bslice_def)

lemma bslice_prefix:
  "bslice off (length ys + n) xs = ys @ zs \<Longrightarrow> length zs = n \<Longrightarrow> bslice off (length ys) xs = ys"
  unfolding bslice_def by (metis append_eq_conv_conj le_add1 min_def take_take)

section \<open>Numbers as text\<close>

fun dec_digits :: "nat \<Rightarrow> string" where
  "dec_digits n = (if n < 10 then [char_of (48 + n)] else dec_digits (n div 10) @ [char_of (48 + n mod 10)])"

definition hex_digit :: "nat \<Rightarrow> char" where
  "hex_digit d = (if d < 10 then char_of (48 + d) else char_of (87 + d))"

fun hex_digits :: "nat \<Rightarrow> string" where
  "hex_digits n = (if n < 16 then [hex_digit n] else hex_digits (n div 16) @ [hex_digit (n mod 16)])"

declare dec_digits.simps [simp del] hex_digits.simps [simp del]

definition dec_int :: "int \<Rightarrow> string" where
  "dec_int i = (if i < 0 then CHR ''-'' # dec_digits (nat (- i)) else dec_digits (nat i))"

text \<open>\<^verbatim>\<open>%0*lld\<close>: the sign, then zeros up to the width, then the digits.\<close>

definition dec_int_zero :: "nat \<Rightarrow> int \<Rightarrow> string" where
  "dec_int_zero w i =
     (let sgn = (if i < 0 then ''-'' else []); ds = dec_digits (nat \<bar>i\<bar>)
      in sgn @ replicate (w - length sgn - length ds) (CHR ''0'') @ ds)"

section \<open>Signed division\<close>

text \<open>C's division of signed integers truncates towards zero.\<close>

definition c_div :: "int \<Rightarrow> int \<Rightarrow> int" where
  "c_div a b = sgn a * sgn b * (\<bar>a\<bar> div \<bar>b\<bar>)"

definition c_mod :: "int \<Rightarrow> int \<Rightarrow> int" where
  "c_mod a b = a - b * c_div a b"

lemma c_div_pos [simp]: "0 \<le> a \<Longrightarrow> 0 \<le> b \<Longrightarrow> c_div a b = a div b"
  by (cases "a = 0"; cases "b = 0") (simp_all add: c_div_def)

lemma c_mod_pos [simp]: "0 \<le> a \<Longrightarrow> 0 \<le> b \<Longrightarrow> c_mod a b = a mod b"
  by (simp add: c_mod_def minus_mult_div_eq_mod)

section \<open>Broken-down time\<close>

text \<open>\<^verbatim>\<open>hpu_tm_t\<close> of \<^verbatim>\<open>src/platform/hpu_time.h\<close>: full year, month from 1.\<close>

record hpu_tm =
  tm_year :: int
  tm_mon :: int
  tm_mday :: int
  tm_hour :: int
  tm_min :: int
  tm_sec :: int
  tm_wday :: int
  tm_yday :: int

end
