(* ===== verification/PosixPath.thy ===== *)
theory PosixPath
  imports HpuPrelude
begin

text \<open>
  The lexical path helpers of \<^verbatim>\<open>src/platform/posix/posix_path.c\<close>. Each gets the output
  buffer's size and gives the text written, or \<open>None\<close> where the code returns -1; a NULL path
  is \<open>None\<close>. (Every caller passes a buffer, so the NULL buffer test is not modelled.)
\<close>

section \<open>Directory, base name, stem\<close>

definition HPULOGC_MAX_PATH_LEN :: nat where "HPULOGC_MAX_PATH_LEN = 512"

text \<open>What stands before and after the last occurrence of a character (\<^verbatim>\<open>strrchr\<close>).\<close>

definition before_last :: "char \<Rightarrow> string \<Rightarrow> string" where
  "before_last c s = rev (tl (dropWhile (\<lambda>x. x \<noteq> c) (rev s)))"

definition after_last :: "char \<Rightarrow> string \<Rightarrow> string" where
  "after_last c s = rev (takeWhile (\<lambda>x. x \<noteq> c) (rev s))"

definition hpu_path_dirname :: "string option \<Rightarrow> nat \<Rightarrow> string option" where
  "hpu_path_dirname path outsz =
     (case path of None \<Rightarrow> None
      | Some p \<Rightarrow>
          if outsz = 0 then None
          else if CHR ''/'' \<notin> set p then (if outsz < 2 then None else Some ''.'')
          else let len = length (before_last (CHR ''/'') p); len = (if len = 0 then 1 else len)
               in if len + 1 > outsz then None else Some (take len p))"

definition hpu_path_basename :: "string option \<Rightarrow> nat \<Rightarrow> string option" where
  "hpu_path_basename path outsz =
     (case path of None \<Rightarrow> None
      | Some p \<Rightarrow>
          if outsz = 0 then None
          else let base = (if CHR ''/'' \<notin> set p then p else after_last (CHR ''/'') p)
               in if length base + 1 > outsz then None else Some base)"

definition hpu_path_stem :: "string option \<Rightarrow> nat \<Rightarrow> string option" where
  "hpu_path_stem path outsz =
     (case hpu_path_basename path HPULOGC_MAX_PATH_LEN of None \<Rightarrow> None
      | Some base \<Rightarrow>
          let cut = (if CHR ''.'' \<in> set base \<and> before_last (CHR ''.'') base \<noteq> []
                     then before_last (CHR ''.'') base else base)
          in if length cut + 1 > outsz then None else Some cut)"

section \<open>Normalization\<close>

definition path_push :: "string list \<Rightarrow> string \<Rightarrow> string list option" where
  "path_push comps seg = (if length comps \<ge> 128 then None else Some (comps @ [seg]))"

definition norm_step :: "bool \<Rightarrow> string list \<Rightarrow> string \<Rightarrow> string list option" where
  "norm_step absolute comps seg =
     (if seg = ''.'' then Some comps
      else if seg = ''..'' then
        (if comps \<noteq> [] then Some (butlast comps)
         else if \<not> absolute then path_push comps seg
         else Some comps)
      else path_push comps seg)"

abbreviation slash :: "char \<Rightarrow> bool" where "slash c \<equiv> c = CHR ''/''"

function norm_loop :: "bool \<Rightarrow> string list \<Rightarrow> string \<Rightarrow> string list option" where
  "norm_loop absolute comps src =
     (let s = dropWhile slash src
      in if s = [] then Some comps
         else case norm_step absolute comps (takeWhile (\<lambda>c. \<not> slash c) s) of
                None \<Rightarrow> None
              | Some comps1 \<Rightarrow> norm_loop absolute comps1 (dropWhile (\<lambda>c. \<not> slash c) s))"
  by pat_completeness auto
termination
proof (relation "measure (\<lambda>(a, c, s). length s)")
  fix absolute comps src s comps1
  assume s: "s = dropWhile slash src" "s \<noteq> []"
  then obtain c t where ct: "s = c # t" by (meson neq_Nil_conv)
  have "\<not> slash c" using hd_dropWhile [of slash src] s ct by (metis list.sel(1))
  have "length (dropWhile (\<lambda>c. \<not> slash c) s) < length s"
    using ct \<open>\<not> slash c\<close> by (simp add: less_Suc_eq_le length_dropWhile_le)
  also have "\<dots> \<le> length src" using s(1) by (simp add: length_dropWhile_le)
  finally show "((absolute, comps1, dropWhile (\<lambda>c. \<not> slash c) s), (absolute, comps, src))
      \<in> measure (\<lambda>(a, c, s). length s)" by simp
qed simp

declare norm_loop.simps [simp del]

lemma norm_loop_end: "dropWhile slash src = [] \<Longrightarrow> norm_loop absolute comps src = Some comps"
  by (subst norm_loop.simps) simp

lemma norm_loop_step:
  assumes "dropWhile slash src = s" "s \<noteq> []"
  shows "norm_loop absolute comps src =
     (case norm_step absolute comps (takeWhile (\<lambda>c. \<not> slash c) s) of
        None \<Rightarrow> None | Some comps1 \<Rightarrow> norm_loop absolute comps1 (dropWhile (\<lambda>c. \<not> slash c) s))"
  by (subst norm_loop.simps) (unfold Let_def assms(1) if_not_P [OF assms(2)], rule refl)

fun emit_comps :: "nat \<Rightarrow> bool \<Rightarrow> nat \<Rightarrow> string list \<Rightarrow> string \<Rightarrow> string option" where
  "emit_comps outsz absolute i [] out = Some out"
| "emit_comps outsz absolute i (c # cs) out =
     (let sep = i > 0 \<or> (length out > 0 \<and> \<not> (absolute \<and> length out = 1))
      in if sep \<and> length out + 1 \<ge> outsz then None
         else let out1 = (if sep then out @ ''/'' else out)
              in if length out1 + length c \<ge> outsz then None
                 else emit_comps outsz absolute (Suc i) cs (out1 @ c))"

definition hpu_path_normalize :: "string option \<Rightarrow> nat \<Rightarrow> string option" where
  "hpu_path_normalize path outsz =
     (case path of None \<Rightarrow> None
      | Some p \<Rightarrow>
          if outsz = 0 then None
          else let absolute = (take 1 p = ''/'')
               in case norm_loop absolute [] p of None \<Rightarrow> None
                  | Some comps \<Rightarrow>
                      if absolute \<and> 1 \<ge> outsz then None
                      else case emit_comps outsz absolute 0 comps (if absolute then ''/'' else []) of
                             None \<Rightarrow> None
                           | Some out \<Rightarrow>
                               if out = [] then (if outsz < 2 then None else Some ''.'') else Some out)"

section \<open>Clean components\<close>

text \<open>A component that a normal form may hold, and the text of a list of them.\<close>

definition clean_comp :: "string \<Rightarrow> bool" where
  "clean_comp c \<longleftrightarrow> c \<noteq> [] \<and> c \<noteq> ''.'' \<and> c \<noteq> ''..'' \<and> CHR ''/'' \<notin> set c"

fun join_path :: "string list \<Rightarrow> string" where
  "join_path [] = []"
| "join_path [c] = c"
| "join_path (c # d # cs) = c @ ''/'' @ join_path (d # cs)"

definition tails :: "string list \<Rightarrow> string" where
  "tails cs = concat (map (\<lambda>c. CHR ''/'' # c) cs)"

lemma join_tails: "join_path (c # cs) = c @ tails cs"
proof (induction cs arbitrary: c)
  case (Cons d cs)
  then show ?case by (simp add: tails_def)
qed (simp add: tails_def)

lemma emit_tails:
  "emit_comps outsz absolute (Suc i) cs out =
     (if cs = [] \<or> length (out @ tails cs) < outsz then Some (out @ tails cs) else None)"
proof (induction cs arbitrary: i out)
  case Nil
  then show ?case by (simp add: tails_def)
next
  case (Cons c cs)
  have t: "out @ tails (c # cs) = ((out @ ''/'') @ c) @ tails cs" by (simp add: tails_def)
  have e: "emit_comps outsz absolute (Suc i) (c # cs) out =
      (if length ((out @ ''/'') @ c) \<ge> outsz then None
       else emit_comps outsz absolute (Suc (Suc i)) cs ((out @ ''/'') @ c))"
    by (simp add: Let_def)
  show ?case unfolding e t Cons.IH by (cases cs) (simp_all add: tails_def)
qed

lemma emit_join:
  "emit_comps outsz absolute 0 cs (if absolute then ''/'' else []) =
     (let full = (if absolute then ''/'' else []) @ join_path cs
      in if cs = [] \<or> length full < outsz then Some full else None)"
proof (cases cs)
  case (Cons c ds)
  have "emit_comps outsz absolute 0 (c # ds) (if absolute then ''/'' else []) =
      (if length ((if absolute then ''/'' else []) @ c) \<ge> outsz then None
       else emit_comps outsz absolute (Suc 0) ds ((if absolute then ''/'' else []) @ c))"
    by (simp add: Let_def)
  also have "\<dots> = (if length (((if absolute then ''/'' else []) @ c) @ tails ds) < outsz
      then Some (((if absolute then ''/'' else []) @ c) @ tails ds) else None)"
    unfolding emit_tails by (cases ds) (simp_all add: tails_def)
  finally show ?thesis unfolding Cons Let_def join_tails by simp
qed simp

lemma takeWhile_segment: "CHR ''/'' \<notin> set (takeWhile (\<lambda>c. \<not> slash c) s)"
  by (auto dest: set_takeWhileD)

lemma segment_nonempty: "dropWhile slash s \<noteq> [] \<Longrightarrow> takeWhile (\<lambda>c. \<not> slash c) (dropWhile slash s) \<noteq> []"
  by (metis hd_dropWhile list.exhaust_sel takeWhile.simps(2) list.distinct(1))

lemma norm_step_clean:
  assumes "list_all clean_comp comps" "norm_step True comps seg = Some comps1" "seg \<noteq> []" "CHR ''/'' \<notin> set seg"
  shows "list_all clean_comp comps1"
proof -
  have "comps1 = comps \<or> comps1 = butlast comps \<or> (comps1 = comps @ [seg] \<and> clean_comp seg)"
    using assms(2-4) by (simp add: norm_step_def path_push_def clean_comp_def split: if_splits)
  then show ?thesis using assms(1) by (auto simp: list_all_iff dest: in_set_butlastD)
qed

lemma norm_loop_clean:
  "list_all clean_comp comps \<Longrightarrow> norm_loop True comps src = Some cs \<Longrightarrow> list_all clean_comp cs \<and> (length comps \<le> 128 \<longrightarrow> length cs \<le> 128)"
proof (induction "True" comps src rule: norm_loop.induct)
  case (1 comps src)
  let ?s = "dropWhile slash src"
  let ?seg = "takeWhile (\<lambda>c. \<not> slash c) ?s"
  show ?case
  proof (cases "?s = []")
    case True
    then show ?thesis using 1(2,3) by (simp add: norm_loop_end)
  next
    case False
    then obtain comps1 where st: "norm_step True comps ?seg = Some comps1"
      and rest: "norm_loop True comps1 (dropWhile (\<lambda>c. \<not> slash c) ?s) = Some cs"
      using 1(3) unfolding norm_loop_step [OF refl False] by (auto split: option.splits)
    have "list_all clean_comp comps1"
      by (rule norm_step_clean [OF 1(2) st segment_nonempty [OF False] takeWhile_segment])
    moreover have "length comps \<le> 128 \<longrightarrow> length comps1 \<le> 128"
      using st by (auto simp: norm_step_def path_push_def split: if_splits)
    ultimately show ?thesis using 1(1) [OF refl False st] rest by blast
  qed
qed

lemma takeWhile_clean: "CHR ''/'' \<notin> set c \<Longrightarrow> takeWhile (\<lambda>x. \<not> slash x) (c @ CHR ''/'' # t) = c"
  and dropWhile_clean: "CHR ''/'' \<notin> set c \<Longrightarrow> dropWhile (\<lambda>x. \<not> slash x) (c @ CHR ''/'' # t) = CHR ''/'' # t"
  by (induction c) auto

lemma dropWhile_slash_clean: "clean_comp c \<Longrightarrow> dropWhile slash (c @ t) = c @ t"
  by (cases c) (auto simp: clean_comp_def)

lemma norm_loop_slash: "norm_loop a comps (CHR ''/'' # s) = norm_loop a comps s"
  by (subst (1 2) norm_loop.simps) simp

lemma append_not_Nil: "xs @ y # ys \<noteq> []"
  by simp

lemma norm_loop_join:
  "list_all clean_comp cs \<Longrightarrow> length comps + length cs \<le> 128 \<Longrightarrow> norm_loop a comps (join_path cs) = Some (comps @ cs)"
proof (induction cs arbitrary: comps rule: join_path.induct)
  case 1
  then show ?case by (simp add: norm_loop_end)
next
  case (2 c)
  have c: "clean_comp c" "CHR ''/'' \<notin> set c" "c \<noteq> []" using 2 by (auto simp: clean_comp_def)
  have w: "takeWhile (\<lambda>x. \<not> slash x) c = c" "dropWhile (\<lambda>x. \<not> slash x) c = []"
    using c(2) by (auto simp: takeWhile_eq_all_conv dropWhile_eq_Nil_conv)
  have d: "dropWhile slash (join_path [c]) = c" using dropWhile_slash_clean [OF c(1), of "[]"] by simp
  have "norm_step a comps c = Some (comps @ [c])"
    using 2 c by (simp add: norm_step_def path_push_def clean_comp_def)
  then show ?case unfolding norm_loop_step [OF d c(3)] w by (simp add: norm_loop_end)
next
  case (3 c d cs)
  have c: "clean_comp c" "CHR ''/'' \<notin> set c" using 3(2) by (auto simp: clean_comp_def)
  have j: "join_path (c # d # cs) = c @ CHR ''/'' # join_path (d # cs)" by simp
  have dw: "dropWhile slash (join_path (c # d # cs)) = c @ CHR ''/'' # join_path (d # cs)"
    unfolding j by (rule dropWhile_slash_clean [OF c(1)])
  have st: "norm_step a comps c = Some (comps @ [c])"
    using 3(2,3) c by (simp add: norm_step_def path_push_def clean_comp_def)
  have "norm_loop a (comps @ [c]) (join_path (d # cs)) = Some ((comps @ [c]) @ d # cs)"
    using 3 by simp
  then show ?case
    unfolding norm_loop_step [OF dw append_not_Nil] takeWhile_clean [OF c(2)] dropWhile_clean [OF c(2)] st
    by (simp add: norm_loop_slash)
qed

section \<open>Properties\<close>

text \<open>
  Normal forms of absolute paths. The normal form of an absolute path is a slash and
  components joined by single slashes, none of them empty, \<open>.\<close> or \<open>..\<close>; it fits the
  buffer, and normalizing it again, in the same buffer, changes nothing.
\<close>

theorem normalize_absolute:
  assumes "hpu_path_normalize (Some (CHR ''/'' # p)) outsz = Some out"
  shows "\<exists>cs. out = CHR ''/'' # join_path cs \<and> list_all clean_comp cs \<and> length out < outsz
    \<and> hpu_path_normalize (Some out) outsz = Some out"
proof -
  obtain cs out' where l: "norm_loop True [] (CHR ''/'' # p) = Some cs" and sz: "1 < outsz"
    and e': "emit_comps outsz True 0 cs ''/'' = Some out'" and o: "out = (if out' = [] then ''.'' else out')"
    using assms by (auto simp: hpu_path_normalize_def Let_def split: option.splits if_splits)
  have "out' \<noteq> []" using e' emit_join [of outsz True cs] by (auto simp: Let_def split: if_splits)
  then have e: "emit_comps outsz True 0 cs ''/'' = Some out" using e' o by simp
  have ne: "out \<noteq> []" using e sz emit_join [of outsz True cs] by (auto simp: Let_def split: if_splits)
  have clean: "list_all clean_comp cs" "length cs \<le> 128"
    using norm_loop_clean [OF _ l] by auto
  have out: "out = CHR ''/'' # join_path cs" "length out < outsz"
    using e sz emit_join [of outsz True cs] by (auto simp: Let_def split: if_splits)
  have "norm_loop True [] out = Some cs"
    unfolding out(1) norm_loop_slash using norm_loop_join [OF clean(1), of "[]" True] clean(2) by simp
  then have "hpu_path_normalize (Some out) outsz = Some out"
    using sz e out(1) by (simp add: hpu_path_normalize_def)
  with clean out show ?thesis by blast
qed

lemmas path_eval = hpu_path_normalize_def norm_loop.simps norm_step_def path_push_def

theorem normalize_absolute_witness:
  "hpu_path_normalize (Some ''/var/log/.././run//a.log'') 64 = Some ''/var/run/a.log''
   \<and> (\<exists>cs. ''/var/run/a.log'' = CHR ''/'' # join_path cs \<and> list_all clean_comp cs)"
proof -
  have h: "hpu_path_normalize (Some ''/var/log/.././run//a.log'') 64 = Some ''/var/run/a.log''"
    by (simp add: path_eval)
  from normalize_absolute [OF h] h show ?thesis by blast
qed

text \<open>
  Two leading parents cancel. In a relative path a parent reference that was kept is
  popped by the next one, so \<open>../../x\<close> and \<open>x\<close> have the same normal form although they
  name different files.
\<close>

theorem parents_cancel:
  assumes "take 1 x \<noteq> ''/''"
  shows "hpu_path_normalize (Some (''../../'' @ x)) outsz = hpu_path_normalize (Some x) outsz"
proof -
  have "norm_loop False [] (''../../'' @ x) = norm_loop False [''..''] (''/../'' @ x)"
    by (subst norm_loop_step [OF refl]) (simp_all add: norm_step_def path_push_def)
  also have "\<dots> = norm_loop False [] (''/'' @ x)"
    by (subst norm_loop_step [OF refl]) (simp_all add: norm_step_def path_push_def)
  also have "\<dots> = norm_loop False [] x" using norm_loop_slash by simp
  finally have "norm_loop False [] (''../../'' @ x) = norm_loop False [] x" .
  then show ?thesis using assms by (simp add: hpu_path_normalize_def)
qed

theorem parents_cancel_witness:
  "hpu_path_normalize (Some ''../../app.log'') 64 = Some ''app.log''"
proof -
  have "hpu_path_normalize (Some ''app.log'') 64 = Some ''app.log''"
    by (simp add: hpu_path_normalize_def norm_loop.simps norm_step_def path_push_def)
  then show ?thesis using parents_cancel [of "''app.log''" 64] by simp
qed

end
