(* ===== verification/CivilDate.thy ===== *)
theory CivilDate
  imports HpuPrelude
begin

text \<open>
  The civil calendar of \<^verbatim>\<open>src/output/rotate.c\<close>: the two conversions between days since
  1970-01-01 and dates, and their correctness against the Gregorian calendar, in both
  directions and for all days.
\<close>

section \<open>The civil calendar\<close>

definition days_from_civil :: "int \<Rightarrow> int \<Rightarrow> int \<Rightarrow> int" where
  "days_from_civil y0 m d =
     (let y = y0 - (if m \<le> 2 then 1 else 0);
          era = c_div (if y \<ge> 0 then y else y - 399) 400;
          yoe = y - era * 400;
          m_shift = m + (if m > 2 then - 3 else 9);
          doy = (153 * m_shift + 2) div 5 + d - 1;
          doe = yoe * 365 + yoe div 4 - yoe div 100 + doy
      in era * 146097 + doe - 719468)"

definition civil_from_days :: "int \<Rightarrow> int \<times> int \<times> int" where
  "civil_from_days z0 =
     (let z = z0 + 719468;
          era = c_div (if z \<ge> 0 then z else z - 146096) 146097;
          doe = z - era * 146097;
          yoe = c_div (doe - c_div doe 1460 + c_div doe 36524 - c_div doe 146096) 365;
          yy = yoe + era * 400;
          doy = doe - (365 * yoe + c_div yoe 4 - c_div yoe 100);
          mp = c_div (5 * doy + 2) 153;
          dd = doy - c_div (153 * mp + 2) 5 + 1;
          mm = mp + (if mp < 10 then 3 else - 9)
      in (yy + (if mm \<le> 2 then 1 else 0), mm, dd))"

section \<open>The calendar is right\<close>

text \<open>The Gregorian calendar, as the reference.\<close>

definition leap :: "int \<Rightarrow> bool" where
  "leap y \<longleftrightarrow> 4 dvd y \<and> (\<not> 100 dvd y \<or> 400 dvd y)"

definition days_in_month :: "int \<Rightarrow> int \<Rightarrow> int" where
  "days_in_month y m =
     (if m = 2 then (if leap y then 29 else 28) else if m \<in> {4, 6, 9, 11} then 30 else 31)"

definition valid_date :: "int \<Rightarrow> int \<Rightarrow> int \<Rightarrow> bool" where
  "valid_date y m d \<longleftrightarrow> 1 \<le> m \<and> m \<le> 12 \<and> 1 \<le> d \<and> d \<le> days_in_month y m"

text \<open>Days before March 1 of year \<open>y\<close>, counted from March 1 of year 0.\<close>

definition year_days :: "int \<Rightarrow> int" where
  "year_days y = 365 * y + y div 4 - y div 100 + y div 400"

definition month_start :: "int \<Rightarrow> int" where
  "month_start mp = (153 * mp + 2) div 5"

lemma c_div_floor: "0 < b \<Longrightarrow> k = b - 1 \<Longrightarrow> c_div (if y \<ge> 0 then y else y - k) b = y div b"
proof (cases "y \<ge> 0")
  case False
  assume b: "0 < b" and k: "k = b - 1"
  have "sgn (y - (b - 1)) = - 1" "\<bar>y - (b - 1)\<bar> = - y + (b - 1)" using False b by auto
  then have "c_div (y - (b - 1)) b = - ((- y + (b - 1)) div b)" using b by (simp add: c_div_def)
  also have "(- y + (b - 1)) div b = - (y div b)"
  proof -
    have "- y + (b - 1) = b * (- (y div b)) + (b - 1 - y mod b)"
      by (simp add: algebra_simps minus_mult_div_eq_mod [symmetric])
    then show ?thesis using b pos_mod_bound [OF b, of y] pos_mod_sign [OF b, of y]
      by (intro int_div_pos_eq [where r = "b - 1 - y mod b"]) auto
  qed
  finally show ?thesis using False k by simp
qed simp

lemma days_eq:
  "days_from_civil y m d =
     year_days (y - (if m \<le> 2 then 1 else 0)) + month_start (m + (if m > 2 then - 3 else 9)) + d - 1 - 719468"
proof -
  have "y' div 400 * 146097 + ((y' - y' div 400 * 400) * 365 + (y' - y' div 400 * 400) div 4
      - (y' - y' div 400 * 400) div 100) = year_days y'" for y' :: int
  proof -
    define q r where "q = y' div 400" and "r = y' mod 400"
    have y: "y' = r + 400 * q" by (simp add: q_def r_def)
    have "(r + 400 * q) div 4 = r div 4 + 100 * q" "(r + 400 * q) div 100 = r div 100 + 4 * q"
      using div_mult_self2 [of 4 r "100 * q"] div_mult_self2 [of 100 r "4 * q"] by simp_all
    then show ?thesis unfolding year_days_def q_def [symmetric] unfolding y by simp
  qed
  note e = this
  define y' where "y' = y - (if m \<le> 2 then 1 else 0)"
  have cf: "c_div (if y' \<ge> 0 then y' else y' - 399) 400 = y' div 400"
    by (rule c_div_floor) simp_all
  show ?thesis
    unfolding days_from_civil_def Let_def y'_def [symmetric] cf month_start_def
    using e [of y'] by simp
qed

lemma div_succ:
  fixes k y :: int
  assumes k: "0 < k"
  shows "(y + 1) div k = y div k + (if k dvd y + 1 then 1 else 0)"
proof (cases "y mod k = k - 1")
  case True
  then have e: "y + 1 = k * (y div k + 1)" by (simp add: algebra_simps minus_mult_div_eq_mod [symmetric])
  then have "k dvd y + 1" by (metis dvd_triv_left)
  then show ?thesis using e k by (metis nonzero_mult_div_cancel_left less_irrefl)
next
  case False
  have r: "0 \<le> y mod k + 1" "y mod k + 1 < k" 
    using False pos_mod_bound [OF k, of y] pos_mod_sign [OF k, of y] by linarith+
  have e: "y + 1 = k * (y div k) + (y mod k + 1)" by simp
  have m: "(y + 1) mod k = y mod k + 1" using int_mod_pos_eq [OF e r] .
  have "\<not> k dvd y + 1" using m k by (simp add: dvd_eq_mod_eq_0 add_nonneg_eq_0_iff)
  moreover have "(y + 1) div k = y div k" using int_div_pos_eq [OF e r] .
  ultimately show ?thesis by simp
qed

lemma year_days_step: "year_days (y + 1) = year_days y + (if leap (y + 1) then 366 else 365)"
proof -
  define p4 p100 p400 where "p4 \<longleftrightarrow> 4 dvd y + 1" and "p100 \<longleftrightarrow> 100 dvd y + 1" and "p400 \<longleftrightarrow> 400 dvd y + 1"
  have d: "(y + 1) div 4 = y div 4 + (if p4 then 1 else 0)"
    "(y + 1) div 100 = y div 100 + (if p100 then 1 else 0)"
    "(y + 1) div 400 = y div 400 + (if p400 then 1 else 0)"
    unfolding p4_def p100_def p400_def by (rule div_succ, simp)+
  have i: "p400 \<Longrightarrow> p100" "p100 \<Longrightarrow> p4"
    unfolding p4_def p100_def p400_def
    by (rule dvd_trans [of _ 400], simp_all) (rule dvd_trans [of _ 100], simp_all)
  have l: "leap (y + 1) \<longleftrightarrow> p4 \<and> (\<not> p100 \<or> p400)"
    by (simp only: leap_def p4_def p100_def p400_def)
  show ?thesis
    unfolding year_days_def d l using i by (cases p4; cases p100; cases p400) simp_all
qed

lemma year_days_period: "year_days (y + 400 * k) = year_days y + 146097 * k"
proof -
  have "(y + 400 * k) div 4 = y div 4 + 100 * k" "(y + 400 * k) div 100 = y div 100 + 4 * k"
    "(y + 400 * k) div 400 = y div 400 + k"
    using div_mult_self2 [of 4 y "100 * k"] div_mult_self2 [of 100 y "4 * k"] div_mult_self2 [of 400 y k] by simp_all
  then show ?thesis by (simp add: year_days_def)
qed

text \<open>The code's year of an era, inverse to the days before its years.\<close>

definition yoe_of :: "int \<Rightarrow> int" where
  "yoe_of doe = (doe - doe div 1460 + doe div 36524 - doe div 146096) div 365"

lemma century_parts:
  fixes c p r :: int
  assumes "0 \<le> p" "p < 25" "0 \<le> r" "r < 4" "0 \<le> c" "c < 4"
  shows "year_days (100 * c + 4 * p + r) = 36524 * c + 1461 * p + 365 * r"
proof -
  have "(100 * c + 4 * p + r) div 4 = 25 * c + p"
    using assms by (intro int_div_pos_eq [where r = r]) simp_all
  moreover have "(100 * c + 4 * p + r) div 100 = c"
    using assms by (intro int_div_pos_eq [where r = "4 * p + r"]) simp_all
  moreover have "(100 * c + 4 * p + r) div 400 = 0"
    using assms by (intro div_pos_pos_trivial) simp_all
  ultimately show ?thesis by (simp add: year_days_def)
qed

text \<open>The heart of it: inside a century the correction terms leave 365 days per year.\<close>

lemma yoe_century:
  fixes c p r t :: int
  assumes "0 \<le> p" "p < 25" "0 \<le> r" "r < 4" "0 \<le> c" "c < 4" "0 \<le> t"
    and "t < 365 \<or> t = 365 \<and> r = 3 \<and> p < 24"
  shows "yoe_of (36524 * c + 1461 * p + 365 * r + t) = 100 * c + 4 * p + r"
proof -
  let ?d = "36524 * c + 1461 * p + 365 * r + t"
  define X where "X = (if 24 * c + p + 365 * r + t \<ge> 1460 then 1 else 0 :: int)"
  have "?d div 1460 = 25 * c + p + X"
    using assms by (intro int_div_pos_eq [where r = "24 * c + p + 365 * r + t - 1460 * X"]) (auto simp: X_def)
  moreover have "?d div 36524 = c"
    using assms by (intro int_div_pos_eq [where r = "1461 * p + 365 * r + t"]) auto
  moreover have "?d div 146096 = 0" using assms by (intro div_pos_pos_trivial) auto
  ultimately have "yoe_of ?d = (365 * (100 * c + 4 * p + r) + (t - X)) div 365"
    by (simp add: yoe_of_def algebra_simps)
  also have "\<dots> = 100 * c + 4 * p + r"
    using assms by (intro int_div_pos_eq [where r = "t - X"]) (auto simp: X_def)
  finally show ?thesis .
qed

lemma year_days_mono1: "year_days y < year_days (y + 1)"
  by (simp add: year_days_step)

lemma year_days_mono: "x \<le> y \<Longrightarrow> year_days x \<le> year_days y"
proof (induction y rule: int_ge_induct)
  case (step y)
  then show ?case using year_days_mono1 [of y] by simp
qed simp

lemma year_days_ends: "year_days 0 = 0" "year_days 400 = 146097"
  by (simp_all add: year_days_def)

lemma yoe_interval:
  assumes y: "0 \<le> y" "y < 400" and d: "year_days y \<le> doe" "doe < year_days (y + 1)"
  shows "yoe_of doe = y"
proof -
  define c p r t where "c = y div 100" and "p = y mod 100 div 4" and "r = y mod 4" and "t = doe - year_days y"
  have "0 \<le> y mod 100" "y mod 100 < 100" by simp_all
  then have p: "0 \<le> p" "p < 25" unfolding p_def by linarith+
  have r: "0 \<le> r" "r < 4" by (simp_all add: r_def)
  have c: "0 \<le> c" "c < 4" using y by (simp_all add: c_def)
  have yc: "y = 100 * c + 4 * p + r"
  proof -
    have "y mod 100 mod 4 = y mod 4" by (rule mod_mod_cancel) simp
    then show ?thesis unfolding c_def p_def r_def by (metis mult_div_mod_eq add.assoc)
  qed
  have t: "0 \<le> t" "t < (if leap (y + 1) then 366 else 365)" using d by (simp_all add: t_def year_days_step)
  have doe: "doe = 36524 * c + 1461 * p + 365 * r + t"
    using century_parts [OF p r c] yc by (simp add: t_def)
  show ?thesis
  proof (cases "t < 365")
    case True
    then show ?thesis using yoe_century [OF p r c t(1)] doe yc by simp
  next
    case False
    then have l: "leap (y + 1)" "t = 365" using t(2) by (auto split: if_splits)
    then have "4 dvd y + 1" by (simp add: leap_def)
    then have r3: "r = 3" unfolding r_def by presburger
    show ?thesis
    proof (cases "p = 24")
      case True
      then have y1: "y + 1 = 100 * (c + 1)" using yc r3 by simp
      then have "400 dvd y + 1" using l by (auto simp: leap_def)
      then have "400 dvd 100 * (c + 1)" using y1 by simp
      moreover have "c = 0 \<or> c = 1 \<or> c = 2 \<or> c = 3" using c by presburger
      ultimately have "c = 3" by auto
      then show ?thesis using doe True r3 l(2) yc by (simp add: yoe_of_def)
    next
      case False
      then show ?thesis using yoe_century [OF p r c t(1)] l(2) r3 p doe yc by simp
    qed
  qed
qed

text \<open>The conversion of any day of the year that starts on March 1 of \<open>yy\<close>.\<close>

lemma div_int_le: "0 \<le> (d :: int) \<Longrightarrow> 1 \<le> k \<Longrightarrow> d div k \<le> d"
  using zdiv_mono2 [of d 1 k] by simp

lemma civil_in_year:
  assumes z: "z0 + 719468 = year_days yy + doy" "0 \<le> doy" "doy < year_days (yy + 1) - year_days yy"
  shows "civil_from_days z0 =
     (let mp = (5 * doy + 2) div 153; mm = mp + (if mp < 10 then 3 else - 9)
      in (yy + (if mm \<le> 2 then 1 else 0), mm, doy - month_start mp + 1))"
proof -
  define era yoe doe where "era = yy div 400" and "yoe = yy mod 400" and "doe = year_days yoe + doy"
  have yy: "yy = yoe + 400 * era" by (simp add: era_def yoe_def)
  have yoe: "0 \<le> yoe" "yoe < 400" by (simp_all add: yoe_def)
  have step: "year_days (yy + 1) - year_days yy = year_days (yoe + 1) - year_days yoe"
    using year_days_period [of yoe era] year_days_period [of "yoe + 1" era] yy by (simp add: algebra_simps)
  have doe: "year_days yoe \<le> doe" "doe < year_days (yoe + 1)" using z step by (simp_all add: doe_def)
  have b: "0 \<le> doe" "doe < 146097"
    using doe year_days_mono [of 0 yoe] year_days_mono [of "yoe + 1" 400] yoe year_days_ends by linarith+
  have ze: "z0 + 719468 = 146097 * era + doe"
    using z(1) year_days_period [of yoe era] yy by (simp add: doe_def)
  have era: "(z0 + 719468) div 146097 = era" by (rule int_div_pos_eq [OF ze b])
  have de: "z0 + 719468 - era * 146097 = doe" using ze by simp
  have y: "yoe_of doe = yoe" by (rule yoe_interval [OF yoe doe])
  have "doe div 1460 \<le> doe" "0 \<le> doe div 36524" "doe div 146096 \<le> doe div 36524"
    using b by (simp_all add: zdiv_mono2 div_int_le)
  then have nn: "0 \<le> doe - doe div 1460 + doe div 36524 - doe div 146096" by linarith
  have yd: "year_days yoe = 365 * yoe + yoe div 4 - yoe div 100" using yoe by (simp add: year_days_def)
  have cf: "c_div (if z0 + 719468 \<ge> 0 then z0 + 719468 else z0 + 719468 - 146096) 146097 = era"
    using c_div_floor [of 146097 146096 "z0 + 719468"] era by simp
  have cy: "c_div (doe - c_div doe 1460 + c_div doe 36524 - c_div doe 146096) 365 = yoe"
    using b nn y by (simp add: yoe_of_def)
  have dd: "doe - (365 * yoe + c_div yoe 4 - c_div yoe 100) = doy" using yoe yd by (simp add: doe_def)
  have mp: "c_div (5 * doy + 2) 153 = (5 * doy + 2) div 153" using z(2) by simp
  have mpn: "0 \<le> (5 * doy + 2) div 153" using z(2) by simp
  then have ms: "c_div (153 * ((5 * doy + 2) div 153) + 2) 5 = month_start ((5 * doy + 2) div 153)"
    by (simp add: month_start_def)
  show ?thesis
    unfolding civil_from_days_def Let_def cf de cy dd mp ms using yy by simp
qed

lemma year_of_day: "\<exists>yy doy. z = year_days yy + doy \<and> 0 \<le> doy \<and> doy < year_days (yy + 1) - year_days yy"
proof -
  have ex: "year_days (int n) > d \<Longrightarrow> 0 \<le> d \<Longrightarrow> \<exists>y. year_days y \<le> d \<and> d < year_days (y + 1)" for n d
  proof (induction n)
    case 0
    then show ?case by (simp add: year_days_def)
  next
    case (Suc n)
    show ?case
    proof (cases "d < year_days (int n)")
      case True
      with Suc show ?thesis by blast
    next
      case False
      with Suc.prems show ?thesis by (intro exI [of _ "int n"]) (simp add: add.commute)
    qed
  qed
  have "z mod 146097 < year_days (int 400)" "0 \<le> z mod 146097" by (simp_all add: year_days_def)
  from ex [OF this] obtain y where y: "year_days y \<le> z mod 146097" "z mod 146097 < year_days (y + 1)" by blast
  let ?k = "z div 146097"
  have "year_days (y + 400 * ?k) = year_days y + 146097 * ?k" "year_days (y + 400 * ?k + 1) = year_days (y + 1) + 146097 * ?k"
    using year_days_period [of y ?k] year_days_period [of "y + 1" ?k] by (simp_all add: algebra_simps)
  moreover have "z = 146097 * ?k + z mod 146097" by simp
  ultimately show ?thesis
    using y by (intro exI [of _ "y + 400 * ?k"] exI [of _ "z - year_days (y + 400 * ?k)"]) linarith
qed

lemma month_start_bounds: "5 * month_start mp \<le> 153 * mp + 2" "153 * mp - 2 \<le> 5 * month_start mp"
  unfolding month_start_def by linarith+

lemma fifths:
  fixes ms doy mp :: int
  shows "5 * doy + 2 \<le> 153 * mp + 152 \<Longrightarrow> 153 * (mp + 1) - 2 \<le> 5 * ms \<Longrightarrow> doy < ms"
    and "153 * mp \<le> 5 * doy + 2 \<Longrightarrow> 5 * ms \<le> 153 * mp + 2 \<Longrightarrow> ms \<le> doy"
    and "doy < ms \<Longrightarrow> 5 * ms \<le> 153 * (mp + 1) + 2 \<Longrightarrow> 5 * doy + 2 \<le> 153 * mp + 152"
    and "ms \<le> doy \<Longrightarrow> 153 * mp - 2 \<le> 5 * ms \<Longrightarrow> 153 * mp \<le> 5 * doy + 2"
  by simp_all

lemma month_of_day:
  assumes "0 \<le> doy" "doy < 366"
  shows "0 \<le> (5 * doy + 2) div 153" "(5 * doy + 2) div 153 \<le> 11"
    "month_start ((5 * doy + 2) div 153) \<le> doy" "doy < month_start ((5 * doy + 2) div 153 + 1)"
proof -
  define mp where "mp = (5 * doy + 2) div 153"
  have m: "153 * mp \<le> 5 * doy + 2" "5 * doy + 2 \<le> 153 * mp + 152" unfolding mp_def by linarith+
  show "0 \<le> mp" "mp \<le> 11" using m assms by linarith+
  show "month_start mp \<le> doy" "doy < month_start (mp + 1)"
    by (rule fifths(2) [OF m(1) month_start_bounds(1)], rule fifths(1) [OF m(2) month_start_bounds(2)])
qed

lemma month_unique:
  assumes "month_start mp \<le> doy" "doy < month_start (mp + 1)"
  shows "(5 * doy + 2) div 153 = mp"
proof -
  have "153 * mp \<le> 5 * doy + 2" "5 * doy + 2 \<le> 153 * mp + 152"
    by (rule fifths(4) [OF assms(1) month_start_bounds(2)], rule fifths(3) [OF assms(2) month_start_bounds(1)])
  then show ?thesis by linarith
qed

text \<open>The year that starts in March, the month counted from March.\<close>

definition march_year :: "int \<Rightarrow> int \<Rightarrow> int" where
  "march_year y m = y - (if m \<le> 2 then 1 else 0)"

definition march_month :: "int \<Rightarrow> int" where
  "march_month m = m + (if m > 2 then - 3 else 9)"

lemma month_cases:
  fixes m :: int
  assumes "1 \<le> m" "m \<le> 12"
  obtains "m = 1" | "m = 2" | "m = 3" | "m = 4" | "m = 5" | "m = 6" | "m = 7" | "m = 8" | "m = 9"
    | "m = 10" | "m = 11" | "m = 12"
proof -
  have "m = 1 \<or> m = 2 \<or> m = 3 \<or> m = 4 \<or> m = 5 \<or> m = 6 \<or> m = 7 \<or> m = 8 \<or> m = 9 \<or> m = 10
      \<or> m = 11 \<or> m = 12" using assms by presburger
  then show thesis using that by blast
qed

lemma month_len:
  assumes "1 \<le> m" "m \<le> 12"
  shows "days_in_month y m \<le> month_start (march_month m + 1) - month_start (march_month m)"
    "m \<noteq> 2 \<Longrightarrow> days_in_month y m = month_start (march_month m + 1) - month_start (march_month m)"
    "month_start (march_month m) + days_in_month y m \<le> year_days (march_year y m + 1) - year_days (march_year y m)"
    "0 \<le> month_start (march_month m)"
proof -
  have "(days_in_month y m \<le> month_start (march_month m + 1) - month_start (march_month m)
      \<and> (m \<noteq> 2 \<longrightarrow> days_in_month y m = month_start (march_month m + 1) - month_start (march_month m)))
    \<and> month_start (march_month m) + days_in_month y m \<le> (if m = 2 \<and> leap y then 366 else 365)
    \<and> 0 \<le> month_start (march_month m)"
    using assms by (cases rule: month_cases) (simp_all add: days_in_month_def month_start_def march_month_def)
  moreover have "(if m = 2 \<and> leap y then 366 else 365) \<le> year_days (march_year y m + 1) - year_days (march_year y m)"
    by (simp add: year_days_step march_year_def)
  ultimately show "days_in_month y m \<le> month_start (march_month m + 1) - month_start (march_month m)"
    "m \<noteq> 2 \<Longrightarrow> days_in_month y m = month_start (march_month m + 1) - month_start (march_month m)"
    "month_start (march_month m) + days_in_month y m \<le> year_days (march_year y m + 1) - year_days (march_year y m)"
    "0 \<le> month_start (march_month m)" by simp_all
qed

lemma days_first: "days_from_civil y m d + 719468 = year_days (march_year y m) + (month_start (march_month m) + d - 1)"
  by (simp add: days_eq march_year_def march_month_def)

lemma civil_of_days:
  assumes "valid_date y m d"
  shows "civil_from_days (days_from_civil y m d) = (y, m, d)"
proof -
  let ?mp = "march_month m" and ?yy = "march_year y m"
  define doy where "doy = month_start ?mp + d - 1"
  have m: "1 \<le> m" "m \<le> 12" and d: "1 \<le> d" "d \<le> days_in_month y m" using assms by (auto simp: valid_date_def)
  note l = month_len(1) [OF m, of y] month_len(3) [OF m, of y] month_len(4) [OF m]
  have doy: "0 \<le> doy" "doy < year_days (?yy + 1) - year_days ?yy" "month_start ?mp \<le> doy" "doy < month_start (?mp + 1)"
    using d l by (auto simp: doy_def)
  have "days_from_civil y m d + 719468 = year_days ?yy + doy" using days_first by (simp add: doy_def)
  from civil_in_year [OF this doy(1,2)] month_unique [OF doy(3,4)]
  show ?thesis using m by (auto simp: Let_def doy_def march_month_def march_year_def)
qed

lemma days_of_civil:
  assumes "civil_from_days z = (y, m, d)"
  shows "valid_date y m d \<and> days_from_civil y m d = z"
proof -
  obtain yy doy where z: "z + 719468 = year_days yy + doy" "0 \<le> doy" "doy < year_days (yy + 1) - year_days yy"
    using year_of_day by metis
  define mp where "mp = (5 * doy + 2) div 153"
  have "doy < 366" using z(3) by (simp add: year_days_step split: if_splits)
  note md = month_of_day [OF z(2) this, folded mp_def]
  have r: "m = mp + (if mp < 10 then 3 else - 9)" "y = yy + (if m \<le> 2 then 1 else 0)" "d = doy - month_start mp + 1"
    using civil_in_year [OF z] assms by (auto simp: Let_def mp_def)
  have m: "1 \<le> m" "m \<le> 12" "march_month m = mp" "march_year y m = yy"
    using r md by (auto simp: march_month_def march_year_def)
  have "d \<le> days_in_month y m"
  proof (cases "m = 2")
    case True
    then have "mp = 11" "y = yy + 1" using m by (auto simp: march_month_def march_year_def)
    then show ?thesis using z(3) r(3) True by (simp add: days_in_month_def year_days_step month_start_def split: if_splits)
  next
    case False
    then show ?thesis using month_len(2) [OF m(1,2) False] md(4) r(3) m(3) by simp
  qed
  then have "valid_date y m d" using m md r(3) by (simp add: valid_date_def)
  moreover have "days_from_civil y m d = z" using days_first [of y m d] m(3,4) r(3) z(1) by simp
  ultimately show ?thesis by blast
qed

definition next_month :: "int \<Rightarrow> int \<Rightarrow> int \<times> int" where
  "next_month y m = (if m = 12 then (y + 1, 1) else (y, m + 1))"

lemma days_next_month:
  assumes "1 \<le> m" "m \<le> 12" "next_month y m = (y', m')"
  shows "days_from_civil y' m' 1 = days_from_civil y m 1 + days_in_month y m"
  using assms year_days_step [of "y - 1"]
  by (cases rule: month_cases) (auto simp: next_month_def days_eq month_start_def days_in_month_def)

lemma days_shift: "days_from_civil y m (d + k) = days_from_civil y m d + k"
  by (simp add: days_eq)

section \<open>Properties\<close>

text \<open>
  The calendar conversions are inverse to each other: every day converts to a valid
  Gregorian date that converts back to it, and every valid date to a day that converts back.
\<close>

theorem civil_roundtrip:
  "(case civil_from_days z of (y, m, d) \<Rightarrow> valid_date y m d \<and> days_from_civil y m d = z)
   \<and> (valid_date y m d \<longrightarrow> civil_from_days (days_from_civil y m d) = (y, m, d))"
  using days_of_civil [of z] civil_of_days [of y m d] by (auto split: prod.split)

theorem civil_roundtrip_witness:
  "valid_date 2024 2 29 \<and> civil_from_days (days_from_civil 2024 2 29) = (2024, 2, 29)"
proof -
  have "valid_date 2024 2 29" by (simp add: valid_date_def days_in_month_def leap_def)
  then show ?thesis using civil_roundtrip [of 0 2024 2 29] by simp
qed

end
