(* ===== verification/Rotate.thy ===== *)
theory Rotate
  imports PosixPath CivilDate
begin

text \<open>
  The next time-bucket boundary of \<^verbatim>\<open>src/output/rotate.c\<close>, in UTC (civil arithmetic) and
  in local time (the platform's conversions are parameters), and its correctness in UTC.
\<close>

section \<open>The next time bucket\<close>

datatype time_unit = HPULOGC_TU_HOUR | HPULOGC_TU_DAY | HPULOGC_TU_WEEK | HPULOGC_TU_MONTH

text \<open>
  The search for a Monday after now, in local time: \<open>mktime\<close> is the platform's inverse
  conversion. It ends only when \<open>mktime\<close> moves forward, hence the option.
\<close>

partial_function (option) week_loop :: "(hpu_tm \<Rightarrow> int) \<Rightarrow> int \<Rightarrow> hpu_tm \<Rightarrow> int \<Rightarrow> int option" where
  "week_loop mktime ts_sec tm base =
     (if base \<le> ts_sec
      then let tm1 = tm\<lparr>tm_mday := tm_mday tm + 7\<rparr> in week_loop mktime ts_sec tm1 (mktime tm1)
      else Some base)"

definition hpu_rotate_next_boundary ::
  "(int \<Rightarrow> bool \<Rightarrow> hpu_tm) \<Rightarrow> (hpu_tm \<Rightarrow> int) \<Rightarrow> int \<Rightarrow> time_unit \<Rightarrow> bool \<Rightarrow> int option" where
  "hpu_rotate_next_boundary localtime mktime ts_sec unit use_utc =
     (if use_utc then
        let day = c_div ts_sec 86400
        in case unit of
             HPULOGC_TU_HOUR \<Rightarrow> Some ((c_div ts_sec 3600 + 1) * 3600)
           | HPULOGC_TU_DAY \<Rightarrow> Some ((day + 1) * 86400)
           | HPULOGC_TU_WEEK \<Rightarrow>
               let wday = c_mod (day + 4) 7; days_to_monday = c_mod (1 - wday + 7) 7;
                   boundary = (day + days_to_monday) * 86400
               in Some (if boundary \<le> ts_sec then boundary + 7 * 86400 else boundary)
           | HPULOGC_TU_MONTH \<Rightarrow>
               (case civil_from_days day of (y, m, d) \<Rightarrow>
                  let m1 = m + 1
                  in Some ((if m1 > 12 then days_from_civil (y + 1) 1 1 else days_from_civil y m1 1) * 86400))
      else
        let tm = localtime ts_sec False
        in case unit of
             HPULOGC_TU_HOUR \<Rightarrow> Some (mktime (tm\<lparr>tm_min := 0, tm_sec := 0, tm_hour := tm_hour tm + 1\<rparr>))
           | HPULOGC_TU_DAY \<Rightarrow>
               Some (mktime (tm\<lparr>tm_hour := 0, tm_min := 0, tm_sec := 0, tm_mday := tm_mday tm + 1\<rparr>))
           | HPULOGC_TU_WEEK \<Rightarrow>
               let tm1 = tm\<lparr>tm_hour := 0, tm_min := 0, tm_sec := 0,
                             tm_mday := tm_mday tm + c_mod (1 - tm_wday tm + 7) 7\<rparr>
               in week_loop mktime ts_sec tm1 (mktime tm1)
           | HPULOGC_TU_MONTH \<Rightarrow>
               Some (mktime (tm\<lparr>tm_hour := 0, tm_min := 0, tm_sec := 0, tm_mday := 1, tm_mon := tm_mon tm + 1\<rparr>)))"

section \<open>Boundaries in UTC\<close>

text \<open>The start of the month of a day, and the first day after the month.\<close>

lemma month_bounds:
  assumes "civil_from_days z = (y, m, d)" "next_month y m = (y', m')"
  shows "days_from_civil y m 1 \<le> z \<and> z < days_from_civil y' m' 1
    \<and> (\<forall>x. days_from_civil y m 1 \<le> x \<longrightarrow> x < days_from_civil y' m' 1 \<longrightarrow> fst (civil_from_days x) = y \<and> fst (snd (civil_from_days x)) = m)"
proof -
  have v: "valid_date y m d" "days_from_civil y m d = z" using days_of_civil [OF assms(1)] by auto
  then have m: "1 \<le> m" "m \<le> 12" "1 \<le> d" "d \<le> days_in_month y m" by (auto simp: valid_date_def)
  have n: "days_from_civil y' m' 1 = days_from_civil y m 1 + days_in_month y m"
    using days_next_month [OF m(1,2) assms(2)] .
  have z: "z = days_from_civil y m 1 + (d - 1)" using days_shift [of y m 1 "d - 1"] v(2) by simp
  have "fst (civil_from_days x) = y \<and> fst (snd (civil_from_days x)) = m"
    if "days_from_civil y m 1 \<le> x" "x < days_from_civil y' m' 1" for x
  proof -
    define k where "k = x - days_from_civil y m 1"
    have "valid_date y m (1 + k)" using that n m by (simp add: valid_date_def k_def)
    moreover have "days_from_civil y m (1 + k) = x" using days_shift [of y m 1 k] by (simp add: k_def)
    ultimately show ?thesis using civil_of_days [of y m "1 + k"] by simp
  qed
  then show ?thesis using z n m by auto
qed

text \<open>The bucket of a second: what two seconds share when no rotation lies between them.\<close>

definition bucket :: "time_unit \<Rightarrow> int \<Rightarrow> int \<times> int" where
  "bucket unit t =
     (case unit of
        HPULOGC_TU_HOUR \<Rightarrow> (t div 3600, 0)
      | HPULOGC_TU_DAY \<Rightarrow> (t div 86400, 0)
      | HPULOGC_TU_WEEK \<Rightarrow> ((t div 86400 + 3) div 7, 0)
      | HPULOGC_TU_MONTH \<Rightarrow> (case civil_from_days (t div 86400) of (y, m, d) \<Rightarrow> (y, m)))"

lemma div_same:
  fixes k t ts :: int
  assumes "0 < k" "ts \<le> t" "t < (ts div k + 1) * k"
  shows "t div k = ts div k"
proof -
  have "k * (ts div k) \<le> ts" using mult_div_mod_eq [of k ts] pos_mod_sign [OF assms(1), of ts] by linarith
  then have "0 \<le> t - k * (ts div k)" "t - k * (ts div k) < k"
    using assms(2,3) by (simp_all add: algebra_simps)
  then show ?thesis by (intro int_div_pos_eq [where r = "t - k * (ts div k)"]) simp_all
qed

lemma div_below:
  fixes k t b :: int
  assumes "0 < k" "t < b * k"
  shows "t div k < b"
proof (rule ccontr)
  assume "\<not> t div k < b"
  then have "b * k \<le> t div k * k" using assms(1) by simp
  also have "\<dots> = k * (t div k)" by (rule mult.commute)
  also have "\<dots> \<le> t" using mult_div_mod_eq [of k t] pos_mod_sign [OF assms(1), of t] by linarith
  finally show False using assms(2) by simp
qed

lemma div_above:
  fixes k t :: int
  assumes "0 < k"
  shows "t < (t div k + 1) * k"
proof -
  have "(t div k + 1) * k = k * (t div k) + k" by (simp add: algebra_simps)
  then show ?thesis using mult_div_mod_eq [of k t] pos_mod_bound [OF assms, of t] by linarith
qed

lemma next_monday:
  fixes day k d :: int
  assumes "(day + k + 3) mod 7 = 0" "1 \<le> k" "k \<le> 7"
  shows "day \<le> d \<Longrightarrow> d < day + k \<Longrightarrow> (d + 3) div 7 = (day + 3) div 7" "(day + k + 3) div 7 \<noteq> (day + 3) div 7"
proof -
  define j where "j = (day + k + 3) div 7"
  have j: "day + k + 3 = 7 * j" using assms(1) mult_div_mod_eq [of 7 "day + k + 3"] by (simp only: j_def add_0_right)
  have same: "(d + 3) div 7 = j - 1" if "day \<le> d" "d < day + k" for d
    using that j assms(2,3) by (intro int_div_pos_eq [where r = "d + 3 - 7 * (j - 1)"]) simp_all
  show "day \<le> d \<Longrightarrow> d < day + k \<Longrightarrow> (d + 3) div 7 = (day + 3) div 7" using same [of d] same [of day] assms(2) by simp
  show "(day + k + 3) div 7 \<noteq> (day + 3) div 7" using same [of day] assms(2) by (simp add: j_def [symmetric])
qed

lemma monday_offset:
  fixes day :: int
  defines "dm \<equiv> (1 - (day + 4) mod 7 + 7) mod 7"
  shows "0 \<le> dm" "dm < 7" "(day + dm + 3) mod 7 = 0"
proof -
  show "0 \<le> dm" "dm < 7" by (simp_all add: dm_def)
  have "(day + dm + 3) mod 7 = (day + 3 + dm) mod 7" by (simp add: algebra_simps)
  also have "\<dots> = (day + 3 + (1 - (day + 4) mod 7 + 7)) mod 7" unfolding dm_def by (rule mod_add_right_eq)
  also have "\<dots> = ((day + 4 + 7) - (day + 4) mod 7) mod 7" by (simp add: algebra_simps)
  also have "\<dots> = ((day + 4 + 7) - (day + 4)) mod 7" by (rule mod_diff_right_eq)
  finally show "(day + dm + 3) mod 7 = 0" by simp
qed

section \<open>Properties\<close>

text \<open>
  The next boundary in UTC, from the epoch on. It is the first second after now whose
  hour, day, ISO week (from Monday) or month differs from now's: it lies after now, every
  second before it is in now's bucket, and it is not.
\<close>

theorem utc_boundary_next:
  assumes "0 \<le> ts" "hpu_rotate_next_boundary lt mk ts unit True = Some b"
  shows "ts < b \<and> (\<forall>t. ts \<le> t \<longrightarrow> t < b \<longrightarrow> bucket unit t = bucket unit ts) \<and> bucket unit b \<noteq> bucket unit ts"
proof (cases unit)
  case HPULOGC_TU_HOUR
  then have b: "b = (ts div 3600 + 1) * 3600" using assms by (simp add: hpu_rotate_next_boundary_def)
  have "bucket unit t = bucket unit ts" if "ts \<le> t" "t < b" for t
    using div_same [of 3600 ts t] that b HPULOGC_TU_HOUR by (simp add: bucket_def)
  moreover have "ts < b" using div_above [of 3600 ts] b by simp
  moreover have "bucket unit b \<noteq> bucket unit ts" using b HPULOGC_TU_HOUR by (simp add: bucket_def)
  ultimately show ?thesis by blast
next
  case HPULOGC_TU_DAY
  then have b: "b = (ts div 86400 + 1) * 86400" using assms by (simp add: hpu_rotate_next_boundary_def Let_def)
  have "bucket unit t = bucket unit ts" if "ts \<le> t" "t < b" for t
    using div_same [of 86400 ts t] that b HPULOGC_TU_DAY by (simp add: bucket_def)
  moreover have "ts < b" using div_above [of 86400 ts] b by simp
  moreover have "bucket unit b \<noteq> bucket unit ts" using b HPULOGC_TU_DAY by (simp add: bucket_def)
  ultimately show ?thesis by blast
next
  case HPULOGC_TU_WEEK
  define day where "day = ts div 86400"
  define dm where "dm = (1 - (day + 4) mod 7 + 7) mod 7"
  have day: "0 \<le> day" using assms(1) by (simp add: day_def)
  have ts: "ts < (day + 1) * 86400" "day * 86400 \<le> ts"
    using div_above [of 86400 ts] mult_div_mod_eq [of 86400 ts] pos_mod_sign [of 86400 ts] by (simp_all add: day_def)
  note dm = monday_offset [of day, folded dm_def]
  have "(day + 4) mod 7 < 7" by simp
  then have "0 \<le> 1 - (day + 4) mod 7 + 7" by linarith
  then have "b = (if (day + dm) * 86400 \<le> ts then (day + dm) * 86400 + 7 * 86400 else (day + dm) * 86400)"
  proof -
    assume nn: "0 \<le> 1 - (day + 4) mod 7 + 7"
    have c: "c_div ts 86400 = day" "c_mod (day + 4) 7 = (day + 4) mod 7" "c_mod (1 - (day + 4) mod 7 + 7) 7 = dm"
      using assms(1) day nn by (simp_all add: day_def dm_def)
    show ?thesis
      using assms(2) HPULOGC_TU_WEEK unfolding hpu_rotate_next_boundary_def Let_def c by simp
  qed
  then obtain k where k: "b = (day + k) * 86400" "1 \<le> k" "k \<le> 7" "(day + k + 3) mod 7 = 0"
  proof (cases "(day + dm) * 86400 \<le> ts")
    case True
    then have "dm = 0" using ts(1) dm(1) by simp
    moreover from this have "(day + 7 + 3) mod 7 = 0" using dm(3) by presburger
    ultimately show ?thesis using that [of 7] True \<open>b = _\<close> by simp
  next
    case False
    then have "dm \<noteq> 0" using ts(2) by auto
    then show ?thesis using that [of dm] False dm \<open>b = _\<close> by simp
  qed
  have "(t div 86400 + 3) div 7 = (day + 3) div 7" if "ts \<le> t" "t < b" for t
  proof (rule next_monday(1) [OF k(4,2,3)])
    show "day \<le> t div 86400" using that(1) by (simp add: day_def zdiv_mono1)
    show "t div 86400 < day + k" using that(2) k(1) by (intro div_below) simp_all
  qed
  moreover have "(b div 86400 + 3) div 7 \<noteq> (day + 3) div 7" using next_monday(2) [OF k(4,2,3)] k(1) by simp
  moreover have "ts < b" using ts(1) k(1,2) by simp
  ultimately show ?thesis unfolding HPULOGC_TU_WEEK bucket_def time_unit.case day_def [symmetric] prod.inject by blast
next
  case HPULOGC_TU_MONTH
  define day where "day = ts div 86400"
  obtain y m d where c: "civil_from_days day = (y, m, d)" by (cases "civil_from_days day") auto
  obtain y' m' where n: "next_month y m = (y', m')" by (cases "next_month y m") auto
  have m12: "m \<le> 12" using days_of_civil [OF c] by (simp add: valid_date_def)
  have b: "b = days_from_civil y' m' 1 * 86400"
    using assms HPULOGC_TU_MONTH c n m12
    by (auto simp: hpu_rotate_next_boundary_def Let_def day_def [symmetric] next_month_def split: if_splits)
  note mb = month_bounds [OF c n]
  have "bucket HPULOGC_TU_MONTH t = (y, m)" if "ts \<le> t" "t < b" for t
  proof -
    have "day \<le> t div 86400" using that(1) by (simp add: day_def zdiv_mono1)
    moreover have "t div 86400 < days_from_civil y' m' 1" using that(2) b by (intro div_below) simp_all
    ultimately have "fst (civil_from_days (t div 86400)) = y \<and> fst (snd (civil_from_days (t div 86400))) = m"
      using mb by auto
    then show ?thesis by (auto simp: bucket_def split: prod.split)
  qed
  moreover have "ts < b"
  proof -
    have "(day + 1) * 86400 \<le> b" using mb b by simp
    then show ?thesis using div_above [of 86400 ts] by (simp add: day_def)
  qed
  moreover have "bucket HPULOGC_TU_MONTH b = (y', m')"
  proof -
    have "valid_date y' m' 1" using n m12 days_of_civil [OF c]
      by (auto simp: next_month_def valid_date_def days_in_month_def split: if_splits)
    then show ?thesis using civil_of_days [of y' m' 1] b by (simp add: bucket_def)
  qed
  moreover have "(y', m') \<noteq> (y, m)" using n by (auto simp: next_month_def split: if_splits)
  moreover have "bucket HPULOGC_TU_MONTH ts = (y, m)" using c by (simp add: bucket_def day_def)
  ultimately show ?thesis unfolding HPULOGC_TU_MONTH by metis
qed

theorem utc_boundary_next_witness:
  "hpu_rotate_next_boundary (\<lambda>_ _. undefined) (\<lambda>_. 0) 0 HPULOGC_TU_WEEK True = Some 345600
   \<and> bucket HPULOGC_TU_WEEK 345599 = bucket HPULOGC_TU_WEEK 0"
proof -
  have h: "hpu_rotate_next_boundary (\<lambda>_ _. undefined) (\<lambda>_. 0) 0 HPULOGC_TU_WEEK True = Some 345600"
    by (simp add: hpu_rotate_next_boundary_def Let_def)
  have "bucket HPULOGC_TU_WEEK 345599 = bucket HPULOGC_TU_WEEK 0"
    by (rule utc_boundary_next [OF _ h, THEN conjunct2, THEN conjunct1, rule_format]) simp_all
  with h show ?thesis by simp
qed

end
