(* ===== verification/RotateFiles.thy ===== *)
theory RotateFiles
  imports Rotate
begin

text \<open>
  Archive names, their recognition, pruning and the rotation of the active file
  (\<^verbatim>\<open>src/output/rotate.c\<close>). The operations on the file system are returned as the
  list of calls made, in order; what the file system answers (which names exist, whether
  a call succeeds, what a directory holds, the order \<^verbatim>\<open>qsort\<close> leaves) is a parameter.
\<close>

section \<open>Archive names\<close>

record hpu_rotate_cfg =
  rc_enabled :: bool
  rc_by_size :: bool
  rc_by_time :: bool
  rc_max_size :: nat
  rc_time_unit :: time_unit
  rc_max_files :: int
  rc_naming :: string

definition rotate_base_name :: "string \<Rightarrow> nat \<Rightarrow> string" where
  "rotate_base_name path outsz =
     (case hpu_path_stem (Some path) outsz of Some s \<Rightarrow> s | None \<Rightarrow> take (outsz - 1) ''log'')"

definition stamp_text :: "hpu_tm \<Rightarrow> string" where
  "stamp_text tm = take 31
     (dec_int_zero 4 (tm_year tm) @ dec_int_zero 2 (tm_mon tm) @ dec_int_zero 2 (tm_mday tm) @ ''_''
      @ dec_int_zero 2 (tm_hour tm) @ dec_int_zero 2 (tm_min tm) @ dec_int_zero 2 (tm_sec tm))"

text \<open>The naming loop: what is written while \<open>left\<close> bytes are left.\<close>

function build_loop :: "string \<Rightarrow> string \<Rightarrow> nat \<Rightarrow> nat \<Rightarrow> string \<Rightarrow> string" where
  "build_loop base ts index left p =
     (if p = [] \<or> left = 0 then []
      else if take 6 p = ''{base}'' then
        take left base @ build_loop base ts index (left - min left (length base)) (drop 6 p)
      else if take 11 p = ''{timestamp}'' then
        take left ts @ build_loop base ts index (left - min left (length ts)) (drop 11 p)
      else if take 7 p = ''{index}'' then
        take left (dec_digits index) @ build_loop base ts index (left - min left (length (dec_digits index))) (drop 7 p)
      else hd p # build_loop base ts index (left - 1) (tl p))"
  by pat_completeness auto
termination
  by (relation "measure (\<lambda>(b, t, i, l, p). length p)") auto

declare build_loop.simps [simp del]

definition rotate_build_name ::
  "(int \<Rightarrow> bool \<Rightarrow> hpu_tm) \<Rightarrow> hpu_rotate_cfg \<Rightarrow> string \<Rightarrow> int \<Rightarrow> bool \<Rightarrow> nat \<Rightarrow> nat \<Rightarrow> string" where
  "rotate_build_name localtime cfg path ts_sec use_utc index outsz =
     (let base = rotate_base_name path HPULOGC_MAX_PATH_LEN;
          name_part = build_loop base (stamp_text (localtime ts_sec use_utc)) index (HPULOGC_MAX_PATH_LEN - 1) (rc_naming cfg)
      in case hpu_path_dirname (Some path) HPULOGC_MAX_PATH_LEN of
           Some dir \<Rightarrow> take (outsz - 1) (if dir \<noteq> ''.'' then dir @ ''/'' @ name_part else name_part)
         | None \<Rightarrow> take (outsz - 1) name_part)"

section \<open>Recognizing archives\<close>

definition dec_digit :: "char \<Rightarrow> bool" where
  "dec_digit c \<longleftrightarrow> (48 :: nat) \<le> of_char c \<and> of_char c \<le> (57 :: nat)"

definition digits_val :: "string \<Rightarrow> nat" where
  "digits_val = foldl (\<lambda>n c. n * 10 + (of_char c - 48)) 0"

text \<open>
  The index is accumulated in a \<^verbatim>\<open>long\<close> without a bound: beyond \<open>2^63 - 1\<close> it is taken to wrap
  around, as it does where an overflow does not trap.
\<close>

definition long_digits :: "string \<Rightarrow> int" where
  "long_digits s = sint (foldl (\<lambda>n c. n * 10 + of_nat (of_char c - 48)) (0 :: 64 word) s)"

text \<open>The result is the pair of sort keys, timestamp and index.\<close>

function match_loop :: "string \<Rightarrow> string \<Rightarrow> string \<Rightarrow> nat \<Rightarrow> int \<Rightarrow> (nat \<times> int) option" where
  "match_loop base p n ts idx =
     (if p = [] then (if n = [] then Some (ts, idx) else None)
      else if take 6 p = ''{base}'' then
        (if take (length base) n \<noteq> base then None
         else match_loop base (drop 6 p) (drop (length base) n) ts idx)
      else if take 11 p = ''{timestamp}'' then
        (if length n < 15 \<or> \<not> list_all dec_digit (take 8 n) \<or> n ! 8 \<noteq> CHR ''_''
            \<or> \<not> list_all dec_digit (take 6 (drop 9 n)) then None
         else match_loop base (drop 11 p) (drop 15 n)
                (digits_val (take 8 n) * 1000000 + digits_val (take 6 (drop 9 n))) idx)
      else if take 7 p = ''{index}'' then
        (if n = [] \<or> \<not> dec_digit (hd n) then None
         else match_loop base (drop 7 p) (dropWhile dec_digit n) ts (long_digits (takeWhile dec_digit n)))
      else if n = [] \<or> hd n \<noteq> hd p then None
      else match_loop base (tl p) (tl n) ts idx)"
  by pat_completeness auto
termination
  by (relation "measure (\<lambda>(b, p, n, t, i). length p)") auto

declare match_loop.simps [simp del]

definition rotate_match_archive :: "hpu_rotate_cfg \<Rightarrow> string \<Rightarrow> string \<Rightarrow> (nat \<times> int) option" where
  "rotate_match_archive cfg base name = match_loop base (rc_naming cfg) name 0 0"

record hpu_rotate_key =
  rk_ts :: nat
  rk_index :: int
  rk_name :: string

definition rotate_cmp_desc :: "hpu_rotate_key \<Rightarrow> hpu_rotate_key \<Rightarrow> int" where
  "rotate_cmp_desc ka kb =
     (if rk_ts ka \<noteq> rk_ts kb then (if rk_ts ka > rk_ts kb then - 1 else 1)
      else if rk_index ka > rk_index kb then - 1 else if rk_index ka < rk_index kb then 1 else 0)"

definition archive_keys :: "hpu_rotate_cfg \<Rightarrow> string \<Rightarrow> string \<Rightarrow> string list \<Rightarrow> hpu_rotate_key list" where
  "archive_keys cfg base fname names =
     concat (map (\<lambda>n. if n = fname then []
                      else case rotate_match_archive cfg base n of
                             None \<Rightarrow> []
                           | Some (ts, idx) \<Rightarrow>
                               [\<lparr>rk_ts = ts, rk_index = idx, rk_name = take (HPULOGC_MAX_PATH_LEN - 1) n\<rparr>]) names)"

text \<open>
  \<open>listing\<close> is the directory, \<open>None\<close> when it cannot be read; the result is the code
  returned and the paths unlinked, in order. \<open>unlink_ok\<close> says which unlinks succeed.
\<close>

definition hpu_rotate_prune ::
  "(hpu_rotate_key list \<Rightarrow> hpu_rotate_key list) \<Rightarrow> (string \<Rightarrow> bool) \<Rightarrow> string list option \<Rightarrow> string \<Rightarrow> hpu_rotate_cfg
    \<Rightarrow> int \<times> string list" where
  "hpu_rotate_prune qsort unlink_ok listing path cfg =
     (if rc_max_files cfg \<le> 0 \<or> \<not> rc_enabled cfg then (0, [])
      else case (hpu_path_dirname (Some path) HPULOGC_MAX_PATH_LEN, hpu_path_basename (Some path) HPULOGC_MAX_PATH_LEN,
                 hpu_path_stem (Some path) HPULOGC_MAX_PATH_LEN, listing) of
             (Some dir, Some fname, Some base, Some names) \<Rightarrow>
               let keys = archive_keys cfg base fname names
               in if length keys > nat (rc_max_files cfg)
                  then let doomed = map (\<lambda>k. take (HPULOGC_MAX_PATH_LEN * 2 - 1) (dir @ ''/'' @ rk_name k))
                                        (drop (nat (rc_max_files cfg)) (qsort keys))
                       in (if list_all unlink_ok doomed then 0 else - 1, doomed)
                  else (0, [])
           | _ \<Rightarrow> (- 1, []))"

section \<open>Rotating the active file\<close>

datatype fs_call =
  FsClose int | FsRename string string | FsOpenAppend string nat | FsFchmod nat
| FsUnlink string | FsSymlink string string

text \<open>The search for a free archive name, from an index on.\<close>

function free_name :: "(nat \<Rightarrow> string) \<Rightarrow> (string \<Rightarrow> bool) \<Rightarrow> bool \<Rightarrow> nat \<Rightarrow> string" where
  "free_name name exists has_index index =
     (let archive = name index
      in if \<not> exists archive then archive
         else if \<not> has_index then archive
         else if index + 1 > 999999 then archive
         else free_name name exists has_index (index + 1))"
  by pat_completeness auto
termination
  by (relation "measure (\<lambda>(n, e, h, i). 1000000 - i)") auto

declare free_name.simps [simp del]

fun has_sub :: "string \<Rightarrow> string \<Rightarrow> bool" where
  "has_sub pat [] = (pat = [])"
| "has_sub pat (c # s) = (take (length pat) (c # s) = pat \<or> has_sub pat s)"

definition rotate_update_symlink :: "int \<Rightarrow> bool \<Rightarrow> string \<Rightarrow> fs_call list" where
  "rotate_update_symlink pid symlink_ok path =
     (case (hpu_path_dirname (Some path) HPULOGC_MAX_PATH_LEN, hpu_path_basename (Some path) HPULOGC_MAX_PATH_LEN) of
        (Some dir, Some base) \<Rightarrow>
          let linkpath = dir @ ''/'' @ base @ ''.latest'';
              tmppath = linkpath @ ''.tmp.'' @ dec_int pid
          in [FsUnlink tmppath, FsSymlink base tmppath] @ (if symlink_ok then [FsRename tmppath linkpath] else [])
      | _ \<Rightarrow> [])"

record rotate_world =
  w_localtime :: "int \<Rightarrow> bool \<Rightarrow> hpu_tm"
  w_exists :: "string \<Rightarrow> bool"
  w_open :: int
  w_size :: int
  w_symlink_ok :: bool
  w_pid :: int
  w_listing :: "string list option"
  w_qsort :: "hpu_rotate_key list \<Rightarrow> hpu_rotate_key list"
  w_unlink_ok :: "string \<Rightarrow> bool"

text \<open>The result: the code, the new descriptor, the new size and the calls made.\<close>

definition hpu_rotate_file ::
  "rotate_world \<Rightarrow> string \<Rightarrow> int \<Rightarrow> hpu_rotate_cfg \<Rightarrow> bool \<Rightarrow> int \<Rightarrow> bool \<Rightarrow> nat \<Rightarrow> int \<times> int \<times> int \<times> fs_call list" where
  "hpu_rotate_file w path fd cfg use_utc ts_sec symlink_latest file_mode =
     (let c0 = (if fd \<ge> 0 then [FsClose fd] else []);
          archive = free_name (\<lambda>i. rotate_build_name (w_localtime w) cfg path ts_sec use_utc i (HPULOGC_MAX_PATH_LEN * 2))
                      (w_exists w) (has_sub ''{index}'' (rc_naming cfg)) 1;
          c1 = c0 @ [FsRename path archive, FsOpenAppend path file_mode]
      in if w_open w < 0 then (- 1, w_open w, 0, c1)
         else let c2 = c1 @ (if file_mode \<noteq> 0 then [FsFchmod file_mode] else []);
                  c3 = c2 @ (if symlink_latest then rotate_update_symlink (w_pid w) (w_symlink_ok w) path else [])
              in (0, w_open w, (if w_size w < 0 then 0 else w_size w),
                  c3 @ map FsUnlink (snd (hpu_rotate_prune (w_qsort w) (w_unlink_ok w) (w_listing w) path cfg))))"

section \<open>Templates as tokens\<close>

datatype token = TBase | TStamp | TIndex | TLit char

function tokens :: "string \<Rightarrow> token list" where
  "tokens p =
     (if p = [] then []
      else if take 6 p = ''{base}'' then TBase # tokens (drop 6 p)
      else if take 11 p = ''{timestamp}'' then TStamp # tokens (drop 11 p)
      else if take 7 p = ''{index}'' then TIndex # tokens (drop 7 p)
      else TLit (hd p) # tokens (tl p))"
  by pat_completeness auto
termination
  by (relation "measure length") auto

declare tokens.simps [simp del]

fun token_text :: "string \<Rightarrow> string \<Rightarrow> nat \<Rightarrow> token \<Rightarrow> string" where
  "token_text base ts index TBase = base"
| "token_text base ts index TStamp = ts"
| "token_text base ts index TIndex = dec_digits index"
| "token_text base ts index (TLit c) = [c]"

definition expand :: "string \<Rightarrow> string \<Rightarrow> nat \<Rightarrow> token list \<Rightarrow> string" where
  "expand base ts index toks = concat (map (token_text base ts index) toks)"

lemma expand_simps [simp]:
  "expand base ts index [] = []"
  "expand base ts index (t # toks) = token_text base ts index t @ expand base ts index toks"
  by (simp_all add: expand_def)

lemma diff_min [simp]: "n - min n k = n - (k :: nat)"
  by (simp add: min_def)

lemma build_expand: "build_loop base ts index left p = take left (expand base ts index (tokens p))"
proof (induction base ts index left p rule: build_loop.induct)
  case (1 base ts index left p)
  show ?case
  proof (cases "p = [] \<or> left = 0")
    case True
    then show ?thesis by (subst build_loop.simps, subst tokens.simps) auto
  next
    case False
    note f = False [unfolded de_Morgan_disj]
    consider "take 6 p = ''{base}''" | "take 6 p \<noteq> ''{base}''" "take 11 p = ''{timestamp}''"
      | "take 6 p \<noteq> ''{base}''" "take 11 p \<noteq> ''{timestamp}''" "take 7 p = ''{index}''"
      | "take 6 p \<noteq> ''{base}''" "take 11 p \<noteq> ''{timestamp}''" "take 7 p \<noteq> ''{index}''" by blast
    then show ?thesis
    proof cases
      case 1
      then show ?thesis using "1.IH"(1) [OF False 1] f
        by (subst build_loop.simps, subst tokens.simps) simp
    next
      case 2
      then show ?thesis using "1.IH"(2) [OF False 2] f
        by (subst build_loop.simps, subst tokens.simps) simp
    next
      case 3
      then show ?thesis using "1.IH"(3) [OF False 3] f
        by (subst build_loop.simps, subst tokens.simps) simp
    next
      case 4
      obtain l where "left = Suc l" using f by (cases left) auto
      then show ?thesis using "1.IH"(4) [OF False 4] 4 f
        by (subst build_loop.simps, subst tokens.simps) simp
    qed
  qed
qed

text \<open>The recognizer over tokens, with the reading of an index as a parameter.\<close>

fun match_toks :: "(string \<Rightarrow> int) \<Rightarrow> string \<Rightarrow> token list \<Rightarrow> string \<Rightarrow> nat \<Rightarrow> int \<Rightarrow> (nat \<times> int) option" where
  "match_toks rd base [] n ts idx = (if n = [] then Some (ts, idx) else None)"
| "match_toks rd base (TBase # toks) n ts idx =
     (if take (length base) n \<noteq> base then None else match_toks rd base toks (drop (length base) n) ts idx)"
| "match_toks rd base (TStamp # toks) n ts idx =
     (if length n < 15 \<or> \<not> list_all dec_digit (take 8 n) \<or> n ! 8 \<noteq> CHR ''_''
         \<or> \<not> list_all dec_digit (take 6 (drop 9 n)) then None
      else match_toks rd base toks (drop 15 n)
             (digits_val (take 8 n) * 1000000 + digits_val (take 6 (drop 9 n))) idx)"
| "match_toks rd base (TIndex # toks) n ts idx =
     (if n = [] \<or> \<not> dec_digit (hd n) then None
      else match_toks rd base toks (dropWhile dec_digit n) ts (rd (takeWhile dec_digit n)))"
| "match_toks rd base (TLit c # toks) n ts idx =
     (if n = [] \<or> hd n \<noteq> c then None else match_toks rd base toks (tl n) ts idx)"

lemma match_tokens: "match_loop base p n ts idx = match_toks long_digits base (tokens p) n ts idx"
proof (induction base p n ts idx rule: match_loop.induct)
  case (1 base p n ts idx)
  show ?case
  proof (cases "p = []")
    case True
    then show ?thesis by (subst match_loop.simps, subst tokens.simps) simp
  next
    case False
    consider "take 6 p = ''{base}''" | "take 6 p \<noteq> ''{base}''" "take 11 p = ''{timestamp}''"
      | "take 6 p \<noteq> ''{base}''" "take 11 p \<noteq> ''{timestamp}''" "take 7 p = ''{index}''"
      | "take 6 p \<noteq> ''{base}''" "take 11 p \<noteq> ''{timestamp}''" "take 7 p \<noteq> ''{index}''" by blast
    then show ?thesis
    proof cases
      case 1
      then show ?thesis using "1.IH"(1) [OF False 1] False
        by (subst match_loop.simps, subst tokens.simps) simp
    next
      case 2
      then show ?thesis using "1.IH"(2) [OF False 2] False
        by (subst match_loop.simps, subst tokens.simps) simp
    next
      case 3
      then show ?thesis using "1.IH"(3) [OF False 3] False
        by (subst match_loop.simps, subst tokens.simps) simp
    next
      case 4
      then show ?thesis using "1.IH"(4) [OF False 4] False
        by (subst match_loop.simps, subst tokens.simps) simp
    qed
  qed
qed

definition long_of :: "nat \<Rightarrow> int" where
  "long_of n = sint (of_nat n :: 64 word)"

lemma long_of_small: "n < 2 ^ 63 \<Longrightarrow> long_of n = int n"
  by (simp add: long_of_def signed_of_nat signed_take_bit_int_eq_self)

lemma long_digits_val: "long_digits s = long_of (digits_val s)"
proof -
  have "foldl (\<lambda>n c. n * 10 + of_nat (of_char c - 48)) (of_nat k :: 64 word) s = of_nat (foldl (\<lambda>n c. n * 10 + (of_char c - 48)) k s)" for k
  proof (induction s arbitrary: k)
    case (Cons c s)
    have "(of_nat k * 10 + of_nat (of_char c - 48) :: 64 word) = of_nat (k * 10 + (of_char c - 48))" by simp
    then show ?case using Cons by (simp del: of_nat_add of_nat_mult)
  qed simp
  from this [of 0] show ?thesis by (simp add: long_digits_def long_of_def digits_val_def)
qed

text \<open>The recognizer reads exact indices when no number in the name exceeds a \<^verbatim>\<open>long\<close>.\<close>

definition small_numbers :: "string \<Rightarrow> bool" where
  "small_numbers n \<longleftrightarrow> (\<forall>k < length n. digits_val (takeWhile dec_digit (drop k n)) < 2 ^ 63)"

lemma small_numbers_drop: "small_numbers n \<Longrightarrow> small_numbers (drop k n)"
  by (auto simp: small_numbers_def less_diff_conv add.commute)

lemma match_exact:
  "small_numbers n \<Longrightarrow> match_toks long_digits base toks n ts idx = match_toks (\<lambda>s. int (digits_val s)) base toks n ts idx"
proof (induction toks arbitrary: n ts idx)
  case (Cons t toks)
  show ?case
  proof (cases t)
    case TIndex
    have "digits_val (takeWhile dec_digit n) < 2 ^ 63" if "n \<noteq> []"
      using Cons.prems that by (auto simp: small_numbers_def dest: spec [of _ 0])
    then have "long_digits (takeWhile dec_digit n) = int (digits_val (takeWhile dec_digit n))" if "n \<noteq> []"
      using that by (simp add: long_digits_val long_of_small)
    moreover have "small_numbers (dropWhile dec_digit n)"
      using small_numbers_drop [OF Cons.prems, of "length (takeWhile dec_digit n)"] by (simp add: dropWhile_eq_drop)
    ultimately show ?thesis using TIndex Cons.IH by simp
  next
    case (TLit c)
    then show ?thesis using Cons.IH small_numbers_drop [OF Cons.prems, of 1] by (simp add: drop_Suc)
  qed (use Cons.IH small_numbers_drop [OF Cons.prems] in simp_all)
qed simp

section \<open>Decimal text read back\<close>

lemma digits_val_snoc: "digits_val (s @ [c]) = digits_val s * 10 + (of_char c - 48)"
  by (simp add: digits_val_def)

lemma digit_char: "(d :: nat) < 10 \<Longrightarrow> of_char (char_of (48 + d)) = 48 + d"
  by simp

lemma dec_digit_char: "(d :: nat) < 10 \<Longrightarrow> dec_digit (char_of (48 + d))"
  by (simp add: dec_digit_def)

lemma dec_digits_props: "digits_val (dec_digits n) = n \<and> list_all dec_digit (dec_digits n) \<and> dec_digits n \<noteq> []"
proof (induction n rule: dec_digits.induct)
  case (1 n)
  show ?case
  proof (cases "n < 10")
    case True
    then show ?thesis
      by (subst (1 2 3) dec_digits.simps) (simp add: digits_val_def dec_digit_char)
  next
    case False
    have "n mod 10 < 10" by simp
    then show ?thesis using 1 False
      by (subst (1 2 3) dec_digits.simps)
        (simp add: digits_val_snoc dec_digit_char digit_char del: of_char_of mod_less_divisor)
  qed
qed

lemma digits_val_zeros: "digits_val (replicate k (CHR ''0'') @ s) = digits_val s"
proof -
  have "foldl (\<lambda>n c. n * 10 + (of_char c - 48)) 0 (replicate k (CHR ''0'')) = (0 :: nat)"
    by (induction k) simp_all
  then show ?thesis by (simp add: digits_val_def)
qed

lemma length_dec_digits: "n < 10 ^ k \<Longrightarrow> 0 < k \<Longrightarrow> length (dec_digits n) \<le> k"
proof (induction k arbitrary: n)
  case (Suc k)
  show ?case
  proof (cases "n < 10")
    case True
    then show ?thesis by (subst dec_digits.simps) simp
  next
    case False
    then have "0 < k" using Suc.prems by (cases k) simp_all
    moreover have "n div 10 < 10 ^ k" using Suc.prems(1) by (simp add: less_mult_imp_div_less mult.commute)
    ultimately show ?thesis using Suc.IH False by (subst dec_digits.simps) simp
  qed
qed simp

lemma dec_int_zero_props:
  assumes "0 \<le> i" "i < 10 ^ w" "0 < w"
  shows "length (dec_int_zero w i) = w" "list_all dec_digit (dec_int_zero w i)" "digits_val (dec_int_zero w i) = nat i"
proof -
  have n: "nat i < 10 ^ w" using assms by (simp add: nat_less_iff)
  have e: "dec_int_zero w i = replicate (w - length (dec_digits (nat i))) (CHR ''0'') @ dec_digits (nat i)"
    using assms(1) by (simp add: dec_int_zero_def Let_def)
  have "dec_digit (CHR ''0'')" by (simp add: dec_digit_def)
  then show "length (dec_int_zero w i) = w" "list_all dec_digit (dec_int_zero w i)" "digits_val (dec_int_zero w i) = nat i"
    using length_dec_digits [OF n assms(3)] dec_digits_props [of "nat i"]
    by (auto simp: e digits_val_zeros list_all_iff)
qed

end
