(* ===== verification/ArchiveLaws.thy ===== *)
theory ArchiveLaws
  imports RotateFiles "HOL-Library.Multiset"
begin

text \<open>
  What archive naming, pruning and rotation promise: a name built from the template is
  recognized again with the same sort keys, pruning removes archives only and keeps the
  newest ones, and rotation renames the active file to a name that is not taken.
\<close>

section \<open>Built names are recognized\<close>

text \<open>
  The template must separate \<^verbatim>\<open>{index}\<close> from a following digit, otherwise the digits of
  what follows are read as digits of the index.
\<close>

fun no_digit_next :: "string \<Rightarrow> token list \<Rightarrow> bool" where
  "no_digit_next base [] = True"
| "no_digit_next base (TBase # toks) = (base \<noteq> [] \<and> \<not> dec_digit (hd base))"
| "no_digit_next base (TLit c # toks) = (\<not> dec_digit c)"
| "no_digit_next base (t # toks) = False"

fun index_delimited :: "string \<Rightarrow> token list \<Rightarrow> bool" where
  "index_delimited base [] = True"
| "index_delimited base (TIndex # toks) = (no_digit_next base toks \<and> index_delimited base toks)"
| "index_delimited base (t # toks) = index_delimited base toks"

definition valid_tm :: "hpu_tm \<Rightarrow> bool" where
  "valid_tm tm \<longleftrightarrow> 0 \<le> tm_year tm \<and> tm_year tm < 10000 \<and> 0 \<le> tm_mon tm \<and> tm_mon tm < 100
     \<and> 0 \<le> tm_mday tm \<and> tm_mday tm < 100 \<and> 0 \<le> tm_hour tm \<and> tm_hour tm < 100
     \<and> 0 \<le> tm_min tm \<and> tm_min tm < 100 \<and> 0 \<le> tm_sec tm \<and> tm_sec tm < 100"

definition stamp_key :: "hpu_tm \<Rightarrow> nat" where
  "stamp_key tm = ((nat (tm_year tm) * 100 + nat (tm_mon tm)) * 100 + nat (tm_mday tm)) * 1000000
     + (nat (tm_hour tm) * 100 + nat (tm_min tm)) * 100 + nat (tm_sec tm)"

lemma digits_val_append: "digits_val (a @ b) = digits_val a * 10 ^ length b + digits_val b"
proof (induction b rule: rev_induct)
  case Nil
  then show ?case by (simp add: digits_val_def)
next
  case (snoc c b)
  have "digits_val (a @ b @ [c]) = digits_val (a @ b) * 10 + (of_char c - 48)"
    by (metis append_assoc digits_val_snoc)
  then show ?case by (simp add: snoc digits_val_snoc algebra_simps)
qed

lemma stamp_shape:
  assumes "valid_tm tm"
  obtains d t where "stamp_text tm = d @ ''_'' @ t" "length d = 8" "length t = 6"
    "list_all dec_digit d" "list_all dec_digit t" "digits_val d * 1000000 + digits_val t = stamp_key tm"
proof -
  have y: "0 \<le> tm_year tm" "tm_year tm < 10 ^ 4" "0 < (4 :: nat)" using assms by (simp_all add: valid_tm_def)
  have p: "0 \<le> i \<Longrightarrow> i < 100 \<Longrightarrow> length (dec_int_zero 2 i) = 2 \<and> list_all dec_digit (dec_int_zero 2 i)
      \<and> digits_val (dec_int_zero 2 i) = nat i" for i
    using dec_int_zero_props [of i 2] by simp
  define d where "d = dec_int_zero 4 (tm_year tm) @ dec_int_zero 2 (tm_mon tm) @ dec_int_zero 2 (tm_mday tm)"
  define t where "t = dec_int_zero 2 (tm_hour tm) @ dec_int_zero 2 (tm_min tm) @ dec_int_zero 2 (tm_sec tm)"
  note v = assms [unfolded valid_tm_def]
  note Y = dec_int_zero_props [OF y]
  have d: "length d = 8" "list_all dec_digit d"
      "digits_val d = (nat (tm_year tm) * 100 + nat (tm_mon tm)) * 100 + nat (tm_mday tm)"
    using v p [of "tm_mon tm"] p [of "tm_mday tm"] by (simp_all add: d_def Y digits_val_append)
  have t: "length t = 6" "list_all dec_digit t"
      "digits_val t = (nat (tm_hour tm) * 100 + nat (tm_min tm)) * 100 + nat (tm_sec tm)"
    using v p [of "tm_hour tm"] p [of "tm_min tm"] p [of "tm_sec tm"] by (simp_all add: t_def digits_val_append)
  have "stamp_text tm = take 31 (d @ ''_'' @ t)" by (simp add: stamp_text_def d_def t_def)
  then have "stamp_text tm = d @ ''_'' @ t" using d(1) t(1) by simp
  then show thesis using that d t by (simp add: stamp_key_def)
qed

lemma length_stamp_text: "valid_tm tm \<Longrightarrow> length (stamp_text tm) = 15"
  by (rule stamp_shape [of tm]) simp_all

lemma takeWhile_split:
  "list_all P a \<Longrightarrow> b = [] \<or> \<not> P (hd b) \<Longrightarrow> takeWhile P (a @ b) = a \<and> dropWhile P (a @ b) = b"
  by (induction a) (cases b; auto)+

lemma no_digit_next_hd:
  assumes "no_digit_next base toks"
  shows "expand base ts index toks = [] \<or> \<not> dec_digit (hd (expand base ts index toks))"
  using assms by (cases "(base, toks)" rule: no_digit_next.cases) simp_all

lemma match_expand:
  assumes "index_delimited base toks" "valid_tm tm"
  shows "match_toks long_digits base toks (expand base (stamp_text tm) index toks) ts idx =
    Some (if TStamp \<in> set toks then stamp_key tm else ts,
          if TIndex \<in> set toks then (if index < 2 ^ 63 then int index else long_of index) else idx)"
  using assms(1)
proof (induction toks arbitrary: ts idx)
  case Nil
  then show ?case by simp
next
  case (Cons t toks)
  show ?case
  proof (cases t)
    case TBase
    then show ?thesis using Cons by auto
  next
    case TStamp
    obtain d s where ds: "stamp_text tm = d @ ''_'' @ s" "length d = 8" "length s = 6"
      "list_all dec_digit d" "list_all dec_digit s" "digits_val d * 1000000 + digits_val s = stamp_key tm"
      using stamp_shape [OF assms(2)] .
    have "(d @ CHR ''_'' # s @ r) ! 8 = CHR ''_''" for r using ds(2) nth_append_length [of d "CHR ''_''"] by metis
    moreover have "drop 9 (d @ CHR ''_'' # s @ r) = s @ r" "drop 15 (d @ CHR ''_'' # s @ r) = r"
        "take 8 (d @ CHR ''_'' # s @ r) = d" for r using ds(2,3) by simp_all
    ultimately show ?thesis using Cons TStamp ds by simp
  next
    case TIndex
    let ?r = "expand base (stamp_text tm) index toks"
    have i: "no_digit_next base toks" "index_delimited base toks" using Cons.prems TIndex by simp_all
    have dd: "digits_val (dec_digits index) = index" "list_all dec_digit (dec_digits index)" "dec_digits index \<noteq> []"
      using dec_digits_props [of index] by simp_all
    then have "dec_digit (hd (dec_digits index @ ?r))" by (cases "dec_digits index") simp_all
    then show ?thesis
      using Cons.IH [OF i(2)] TIndex dd takeWhile_split [OF dd(2) no_digit_next_hd [OF i(1)]]
      by (simp add: long_digits_val long_of_small)
  next
    case (TLit c)
    then show ?thesis using Cons by simp
  qed
qed

text \<open>C34. An archive name built from a template is recognized by the pruner, with the timestamp and index it
  was built from as sort keys, whenever it fits the buffer and a non-digit follows the index. The index is read
  into a \<^verbatim>\<open>long\<close>: exactly below \<open>2^63\<close>, and the program numbers archives up to 999999.\<close>

theorem archive_name_recognized:
  assumes "rotate_base_name path HPULOGC_MAX_PATH_LEN = base"
    and "index_delimited base (tokens (rc_naming cfg))" "valid_tm (localtime ts_sec use_utc)"
    and "length (expand base (stamp_text (localtime ts_sec use_utc)) index (tokens (rc_naming cfg))) < HPULOGC_MAX_PATH_LEN"
    and "hpu_path_dirname (Some path) HPULOGC_MAX_PATH_LEN = Some dir"
  shows "\<exists>name.
    rotate_build_name localtime cfg path ts_sec use_utc index (HPULOGC_MAX_PATH_LEN * 2)
       = (if dir = ''.'' then name else dir @ ''/'' @ name)
    \<and> rotate_match_archive cfg base name =
       Some (if TStamp \<in> set (tokens (rc_naming cfg)) then stamp_key (localtime ts_sec use_utc) else 0,
             if TIndex \<in> set (tokens (rc_naming cfg)) then (if index < 2 ^ 63 then int index else long_of index) else 0)"
proof (intro exI conjI)
  let ?n = "expand base (stamp_text (localtime ts_sec use_utc)) index (tokens (rc_naming cfg))"
  have "length dir < HPULOGC_MAX_PATH_LEN"
    using assms(5) by (auto simp: hpu_path_dirname_def Let_def HPULOGC_MAX_PATH_LEN_def split: if_splits)
  then show "rotate_build_name localtime cfg path ts_sec use_utc index (HPULOGC_MAX_PATH_LEN * 2)
       = (if dir = ''.'' then ?n else dir @ ''/'' @ ?n)"
    using assms(1,4,5) by (auto simp: rotate_build_name_def Let_def build_expand)
  show "rotate_match_archive cfg base ?n =
       Some (if TStamp \<in> set (tokens (rc_naming cfg)) then stamp_key (localtime ts_sec use_utc) else 0,
             if TIndex \<in> set (tokens (rc_naming cfg)) then (if index < 2 ^ 63 then int index else long_of index) else 0)"
    by (simp add: rotate_match_archive_def match_tokens match_expand assms(2,3))
qed

definition sample_tm :: hpu_tm where
  "sample_tm = \<lparr>tm_year = 2024, tm_mon = 2, tm_mday = 29, tm_hour = 23, tm_min = 59, tm_sec = 58, tm_wday = 4, tm_yday = 59\<rparr>"

definition sample_cfg :: hpu_rotate_cfg where
  "sample_cfg = \<lparr>rc_enabled = True, rc_by_size = True, rc_by_time = False, rc_max_size = 1024,
     rc_time_unit = HPULOGC_TU_DAY, rc_max_files = 1, rc_naming = ''{base}.{timestamp}.{index}.log''\<rparr>"

lemma sample_tokens: "tokens (rc_naming sample_cfg) =
    [TBase, TLit (CHR ''.''), TStamp, TLit (CHR ''.''), TIndex, TLit (CHR ''.''), TLit (CHR ''l''), TLit (CHR ''o''), TLit (CHR ''g'')]"
  by (simp add: sample_cfg_def tokens.simps)

lemma sample_valid: "valid_tm sample_tm"
  by (simp add: valid_tm_def sample_tm_def)

theorem archive_name_recognized_witness:
  "\<exists>name. rotate_build_name (\<lambda>_ _. sample_tm) sample_cfg ''/var/app.log'' 0 True 7 (HPULOGC_MAX_PATH_LEN * 2)
       = (if ''/var'' = ''.'' then name else ''/var'' @ ''/'' @ name)
    \<and> rotate_match_archive sample_cfg ''app'' name =
       Some (if TStamp \<in> set (tokens (rc_naming sample_cfg)) then stamp_key sample_tm else 0,
             if TIndex \<in> set (tokens (rc_naming sample_cfg)) then (if (7 :: nat) < 2 ^ 63 then int 7 else long_of 7) else 0)"
  by (rule archive_name_recognized)
    (simp_all add: sample_tokens sample_valid length_stamp_text rotate_base_name_def hpu_path_stem_def hpu_path_basename_def hpu_path_dirname_def
      HPULOGC_MAX_PATH_LEN_def before_last_def after_last_def dec_digit_def dec_digits.simps Let_def)

section \<open>Pruning\<close>

text \<open>The sort order of archives, as a linear order.\<close>

datatype archive_rank = Rank (rank_stamp: nat) (rank_index: int)

instantiation archive_rank :: linorder
begin

definition less_archive_rank :: "archive_rank \<Rightarrow> archive_rank \<Rightarrow> bool" where
  "less_archive_rank a b \<longleftrightarrow> rank_stamp a < rank_stamp b \<or> rank_stamp a = rank_stamp b \<and> rank_index a < rank_index b"

definition less_eq_archive_rank :: "archive_rank \<Rightarrow> archive_rank \<Rightarrow> bool" where
  "less_eq_archive_rank a b \<longleftrightarrow> rank_stamp a < rank_stamp b \<or> rank_stamp a = rank_stamp b \<and> rank_index a \<le> rank_index b"

instance
  by standard (auto simp: less_archive_rank_def less_eq_archive_rank_def archive_rank.expand)

end

definition rank_of :: "hpu_rotate_key \<Rightarrow> archive_rank" where
  "rank_of k = Rank (rk_ts k) (rk_index k)"

lemma cmp_desc_rank: "rotate_cmp_desc a b \<le> 0 \<longleftrightarrow> rank_of b \<le> rank_of a"
  by (auto simp: rotate_cmp_desc_def rank_of_def less_eq_archive_rank_def)

text \<open>What the C standard promises of \<^verbatim>\<open>qsort\<close> with \<^verbatim>\<open>rotate_cmp_desc\<close>.\<close>

definition sorts_desc :: "(hpu_rotate_key list \<Rightarrow> hpu_rotate_key list) \<Rightarrow> bool" where
  "sorts_desc q \<longleftrightarrow> (\<forall>ks. mset (q ks) = mset ks \<and> sorted_wrt (\<lambda>a b. rotate_cmp_desc a b \<le> 0) (q ks))"

lemma archive_keys_mem:
  "k \<in> set (archive_keys cfg base fname names) \<longleftrightarrow>
     (\<exists>n \<in> set names. n \<noteq> fname \<and> rotate_match_archive cfg base n = Some (rk_ts k, rk_index k)
        \<and> rk_name k = take (HPULOGC_MAX_PATH_LEN - 1) n)"
proof (induction names)
  case Nil
  then show ?case by (simp add: archive_keys_def)
next
  case (Cons n names)
  have "k \<in> set (archive_keys cfg base fname [n]) \<longleftrightarrow>
      n \<noteq> fname \<and> rotate_match_archive cfg base n = Some (rk_ts k, rk_index k)
        \<and> rk_name k = take (HPULOGC_MAX_PATH_LEN - 1) n"
    by (cases k) (auto simp: archive_keys_def split: option.splits)
  then show ?case using Cons by (auto simp: archive_keys_def)
qed

lemma sorts_desc_parts:
  assumes "sorts_desc q" "n \<le> length ks"
  shows "set (q ks) = set ks" "length (q ks) = length ks"
    "a \<in> set (take n (q ks)) \<Longrightarrow> b \<in> set (drop n (q ks)) \<Longrightarrow> rank_of b \<le> rank_of a"
proof -
  have m: "mset (q ks) = mset ks" and s: "sorted_wrt (\<lambda>a b. rotate_cmp_desc a b \<le> 0) (q ks)"
    using assms(1) by (auto simp: sorts_desc_def)
  show "set (q ks) = set ks" "length (q ks) = length ks"
    using m by (metis set_mset_mset) (use m in \<open>metis size_mset\<close>)
  show "rank_of b \<le> rank_of a" if "a \<in> set (take n (q ks))" "b \<in> set (drop n (q ks))"
    using s that by (metis append_take_drop_id cmp_desc_rank sorted_wrt_append)
qed

definition archive_path :: "string \<Rightarrow> hpu_rotate_key \<Rightarrow> string" where
  "archive_path dir k = dir @ ''/'' @ rk_name k"

lemma dirname_fits: "hpu_path_dirname (Some path) HPULOGC_MAX_PATH_LEN = Some dir \<Longrightarrow> length dir < HPULOGC_MAX_PATH_LEN"
  by (auto simp: hpu_path_dirname_def Let_def HPULOGC_MAX_PATH_LEN_def split: if_splits)

lemma prune_unlinks:
  assumes q: "sorts_desc q" and cfg: "0 < rc_max_files cfg" "rc_enabled cfg"
    and "hpu_path_dirname (Some path) HPULOGC_MAX_PATH_LEN = Some dir"
    and "hpu_path_basename (Some path) HPULOGC_MAX_PATH_LEN = Some fname"
    and "hpu_path_stem (Some path) HPULOGC_MAX_PATH_LEN = Some base"
  shows "snd (hpu_rotate_prune q unlink_ok (Some names) path cfg) =
    map (archive_path dir) (drop (nat (rc_max_files cfg)) (q (archive_keys cfg base fname names)))"
proof -
  let ?ks = "archive_keys cfg base fname names"
  have len: "length (q ?ks) = length ?ks" and set: "set (q ?ks) = set ?ks"
    using sorts_desc_parts [OF q order_refl] by blast+
  have t: "take (HPULOGC_MAX_PATH_LEN * 2 - 1) (dir @ ''/'' @ rk_name k) = archive_path dir k"
    if "k \<in> set (drop n (q ?ks))" for k n
  proof -
    have "k \<in> set ?ks" using that set by (metis in_set_dropD)
    then have "length (rk_name k) < HPULOGC_MAX_PATH_LEN"
      unfolding archive_keys_mem by (auto simp: HPULOGC_MAX_PATH_LEN_def)
    then show ?thesis using dirname_fits [OF assms(4)] by (simp add: archive_path_def)
  qed
  show ?thesis
  proof (cases "nat (rc_max_files cfg) < length ?ks")
    case True
    then show ?thesis using assms t by (simp add: hpu_rotate_prune_def Let_def cong: map_cong)
  next
    case False
    then show ?thesis using assms len by (simp add: hpu_rotate_prune_def Let_def)
  qed
qed

text \<open>Pruning unlinks only listed files that the naming template recognizes, each under the directory of the
  active path, and never the active file.\<close>

theorem prune_only_archives:
  assumes "sorts_desc q" "0 < rc_max_files cfg" "rc_enabled cfg"
    and "hpu_path_dirname (Some path) HPULOGC_MAX_PATH_LEN = Some dir"
    and "hpu_path_basename (Some path) HPULOGC_MAX_PATH_LEN = Some fname"
    and "hpu_path_stem (Some path) HPULOGC_MAX_PATH_LEN = Some base"
    and "\<forall>n \<in> set names. length n < HPULOGC_MAX_PATH_LEN"
    and "p \<in> set (snd (hpu_rotate_prune q unlink_ok (Some names) path cfg))"
  shows "p \<noteq> dir @ ''/'' @ fname
    \<and> (\<exists>n \<in> set names. p = dir @ ''/'' @ n \<and> rotate_match_archive cfg base n \<noteq> None)"
proof -
  let ?ks = "archive_keys cfg base fname names"
  have "p \<in> archive_path dir ` set (drop (nat (rc_max_files cfg)) (q ?ks))"
    using assms(8) unfolding prune_unlinks [OF assms(1-6)] by simp
  then obtain k where k: "k \<in> set ?ks" "p = archive_path dir k"
    using sorts_desc_parts(1) [OF assms(1) order_refl] by (metis image_iff in_set_dropD)
  then obtain n where n: "n \<in> set names" "n \<noteq> fname" "rotate_match_archive cfg base n \<noteq> None"
      "rk_name k = take (HPULOGC_MAX_PATH_LEN - 1) n"
    unfolding archive_keys_mem by blast
  have "length n < HPULOGC_MAX_PATH_LEN" using assms(7) n(1) by blast
  then have "rk_name k = n" using n(4) by simp
  then show ?thesis using n k(2) by (auto simp: archive_path_def)
qed

definition insert_desc :: "hpu_rotate_key \<Rightarrow> hpu_rotate_key list \<Rightarrow> hpu_rotate_key list" where
  "insert_desc k ks = takeWhile (\<lambda>a. rotate_cmp_desc a k < 0) ks @ k # dropWhile (\<lambda>a. rotate_cmp_desc a k < 0) ks"

lemma insert_desc_sorted:
  "sorted_wrt (\<lambda>a b. rotate_cmp_desc a b \<le> 0) ks \<Longrightarrow> sorted_wrt (\<lambda>a b. rotate_cmp_desc a b \<le> 0) (insert_desc k ks)"
  unfolding cmp_desc_rank
proof (induction ks)
  case Nil
  then show ?case by (simp add: insert_desc_def)
next
  case (Cons a ks)
  have c: "rotate_cmp_desc a k < 0 \<longleftrightarrow> rank_of k < rank_of a"
    by (auto simp: rotate_cmp_desc_def rank_of_def less_archive_rank_def)
  show ?case
  proof (cases "rank_of k < rank_of a")
    case True
    have "set (insert_desc k ks) \<subseteq> insert k (set ks)"
      by (auto simp: insert_desc_def dest: set_takeWhileD set_dropWhileD)
    moreover have "insert_desc k (a # ks) = a # insert_desc k ks" using True c by (simp add: insert_desc_def)
    ultimately show ?thesis using Cons True by auto
  next
    case False
    then have "insert_desc k (a # ks) = k # a # ks" using c by (simp add: insert_desc_def)
    then show ?thesis using Cons.prems False by (auto intro: order_trans)
  qed
qed

definition sort_desc :: "hpu_rotate_key list \<Rightarrow> hpu_rotate_key list" where
  "sort_desc ks = foldr insert_desc ks []"

lemma sort_desc_sorts: "sorts_desc sort_desc"
proof -
  have "mset (insert_desc k ks) = add_mset k (mset ks)" for k ks
    by (induction ks) (simp_all add: insert_desc_def)
  then have "mset (sort_desc ks) = mset ks" for ks by (induction ks) (simp_all add: sort_desc_def)
  moreover have "sorted_wrt (\<lambda>a b. rotate_cmp_desc a b \<le> 0) (sort_desc ks)" for ks
    by (induction ks) (simp_all add: sort_desc_def insert_desc_sorted)
  ultimately show ?thesis by (simp add: sorts_desc_def)
qed

definition sample_names :: "string list" where
  "sample_names = [''app.log'', ''app.20240229_235958.1.log'', ''app.20240229_235958.2.log'', ''other.log'']"

lemma sample_paths:
  "hpu_path_dirname (Some ''/var/app.log'') HPULOGC_MAX_PATH_LEN = Some ''/var''"
  "hpu_path_basename (Some ''/var/app.log'') HPULOGC_MAX_PATH_LEN = Some ''app.log''"
  "hpu_path_stem (Some ''/var/app.log'') HPULOGC_MAX_PATH_LEN = Some ''app''"
  by (simp_all add: hpu_path_stem_def hpu_path_basename_def hpu_path_dirname_def HPULOGC_MAX_PATH_LEN_def
      before_last_def after_last_def Let_def)

lemma sample_keys: "archive_keys sample_cfg ''app'' ''app.log'' sample_names =
    [\<lparr>rk_ts = 20240229235958, rk_index = 1, rk_name = ''app.20240229_235958.1.log''\<rparr>,
     \<lparr>rk_ts = 20240229235958, rk_index = 2, rk_name = ''app.20240229_235958.2.log''\<rparr>]"
  by (simp add: archive_keys_def sample_names_def rotate_match_archive_def match_tokens sample_tokens
      HPULOGC_MAX_PATH_LEN_def dec_digit_def digits_val_def long_digits_val long_of_small)

lemma sample_cfg_fields [simp]: "rc_max_files sample_cfg = 1" "rc_enabled sample_cfg"
  by (simp_all add: sample_cfg_def)

lemma sample_unlinks: "snd (hpu_rotate_prune sort_desc (\<lambda>_. True) (Some sample_names) ''/var/app.log'' sample_cfg) =
    [''/var/app.20240229_235958.1.log'']"
  using prune_unlinks [OF sort_desc_sorts _ _ sample_paths, of sample_cfg "\<lambda>_. True" sample_names]
  by (simp add: sample_keys sort_desc_def insert_desc_def rotate_cmp_desc_def archive_path_def)

theorem prune_only_archives_witness:
  "''/var/app.20240229_235958.1.log'' \<noteq> ''/var'' @ ''/'' @ ''app.log''
    \<and> (\<exists>n \<in> set sample_names. ''/var/app.20240229_235958.1.log'' = ''/var'' @ ''/'' @ n
        \<and> rotate_match_archive sample_cfg ''app'' n \<noteq> None)"
  by (rule prune_only_archives [OF sort_desc_sorts _ _ sample_paths, where unlink_ok = "\<lambda>_. True"])
    (simp_all only: sample_unlinks sample_cfg_fields, simp_all add: sample_names_def HPULOGC_MAX_PATH_LEN_def)

text \<open>The keys with the exact indices, and when the pruner has them.\<close>

definition exact_keys :: "hpu_rotate_cfg \<Rightarrow> string \<Rightarrow> string \<Rightarrow> string list \<Rightarrow> hpu_rotate_key list" where
  "exact_keys cfg base fname names =
     concat (map (\<lambda>n. if n = fname then []
                      else case match_toks (\<lambda>s. int (digits_val s)) base (tokens (rc_naming cfg)) n 0 0 of
                             None \<Rightarrow> []
                           | Some (ts, idx) \<Rightarrow>
                               [\<lparr>rk_ts = ts, rk_index = idx, rk_name = take (HPULOGC_MAX_PATH_LEN - 1) n\<rparr>]) names)"

lemma keys_exact: "\<forall>n \<in> set names. small_numbers n \<Longrightarrow> archive_keys cfg base fname names = exact_keys cfg base fname names"
  unfolding archive_keys_def exact_keys_def rotate_match_archive_def match_tokens
  by (intro arg_cong [of _ _ concat] map_cong refl) (simp add: match_exact)

lemma prune_splits:
  assumes "sorts_desc q" "0 < rc_max_files cfg" "rc_enabled cfg"
    and "hpu_path_dirname (Some path) HPULOGC_MAX_PATH_LEN = Some dir"
    and "hpu_path_basename (Some path) HPULOGC_MAX_PATH_LEN = Some fname"
    and "hpu_path_stem (Some path) HPULOGC_MAX_PATH_LEN = Some base"
  shows "\<exists>kept gone. mset (archive_keys cfg base fname names) = mset kept + mset gone
    \<and> snd (hpu_rotate_prune q unlink_ok (Some names) path cfg) = map (archive_path dir) gone
    \<and> length kept = min (nat (rc_max_files cfg)) (length (archive_keys cfg base fname names))
    \<and> (\<forall>k \<in> set kept. \<forall>g \<in> set gone. rank_of g \<le> rank_of k)"
proof (intro exI conjI)
  let ?ks = "archive_keys cfg base fname names" and ?m = "nat (rc_max_files cfg)"
  have len: "length (q ?ks) = length ?ks" using sorts_desc_parts [OF assms(1) order_refl] by blast
  have "mset (q ?ks) = mset ?ks" using assms(1) by (simp add: sorts_desc_def)
  then show "mset ?ks = mset (take ?m (q ?ks)) + mset (drop ?m (q ?ks))"
    by (metis append_take_drop_id mset_append)
  show "snd (hpu_rotate_prune q unlink_ok (Some names) path cfg) = map (archive_path dir) (drop ?m (q ?ks))"
    by (rule prune_unlinks [OF assms])
  show "length (take ?m (q ?ks)) = min ?m (length ?ks)" using len by simp
  have "sorted_wrt (\<lambda>a b. rotate_cmp_desc a b \<le> 0) (take ?m (q ?ks) @ drop ?m (q ?ks))"
    using assms(1) by (simp add: sorts_desc_def)
  then show "\<forall>k \<in> set (take ?m (q ?ks)). \<forall>g \<in> set (drop ?m (q ?ks)). rank_of g \<le> rank_of k"
    unfolding sorted_wrt_append cmp_desc_rank by blast
qed

text \<open>C35. When more than \<^verbatim>\<open>max_files\<close> archives are recognized, exactly the surplus is unlinked, and no archive that is
  kept is older (by timestamp, then index) than one that goes. The indices compared are the numbers in the
  names, provided no listed name has a number beyond \<open>2^63 - 1\<close>, which the pruner cannot read.\<close>

theorem prune_keeps_newest:
  assumes "sorts_desc q" "0 < rc_max_files cfg" "rc_enabled cfg"
    and "hpu_path_dirname (Some path) HPULOGC_MAX_PATH_LEN = Some dir"
    and "hpu_path_basename (Some path) HPULOGC_MAX_PATH_LEN = Some fname"
    and "hpu_path_stem (Some path) HPULOGC_MAX_PATH_LEN = Some base" "\<forall>n \<in> set names. small_numbers n"
  shows "\<exists>kept gone. mset (exact_keys cfg base fname names) = mset kept + mset gone
    \<and> snd (hpu_rotate_prune q unlink_ok (Some names) path cfg) = map (archive_path dir) gone
    \<and> length kept = min (nat (rc_max_files cfg)) (length (exact_keys cfg base fname names))
    \<and> (\<forall>k \<in> set kept. \<forall>g \<in> set gone. rank_of g \<le> rank_of k)"
  using prune_splits [OF assms(1-6), of names unlink_ok] keys_exact [OF assms(7)] by simp

lemma sample_small: "\<forall>n \<in> set sample_names. small_numbers n"
  by (simp add: sample_names_def small_numbers_def dec_digit_def digits_val_def All_less_Suc)

theorem prune_keeps_newest_witness:
  "\<exists>kept gone. mset (exact_keys sample_cfg ''app'' ''app.log'' sample_names) = mset kept + mset gone
    \<and> snd (hpu_rotate_prune sort_desc (\<lambda>_. True) (Some sample_names) ''/var/app.log'' sample_cfg)
        = map (archive_path ''/var'') gone
    \<and> length kept = min (nat (rc_max_files sample_cfg)) (length (exact_keys sample_cfg ''app'' ''app.log'' sample_names))
    \<and> (\<forall>k \<in> set kept. \<forall>g \<in> set gone. rank_of g \<le> rank_of k)"
  by (rule prune_keeps_newest [OF sort_desc_sorts _ _ sample_paths]) (simp_all add: sample_small)

text \<open>Beyond, an archive with a higher index counts as an older one.\<close>

lemma huge_index_oldest:
  "snd (hpu_rotate_prune sort_desc (\<lambda>_. True)
      (Some [''app.20240229_235958.9223372036854775808.log'', ''app.20240229_235958.1.log'']) ''/var/app.log'' sample_cfg)
    = [''/var/app.20240229_235958.9223372036854775808.log'']"
proof -
  have "long_digits ''9223372036854775808'' = - 9223372036854775808" "long_digits ''1'' = 1" by (simp_all add: long_digits_def)
  then have "archive_keys sample_cfg ''app'' ''app.log'' [''app.20240229_235958.9223372036854775808.log'', ''app.20240229_235958.1.log''] =
    [\<lparr>rk_ts = 20240229235958, rk_index = - 9223372036854775808, rk_name = ''app.20240229_235958.9223372036854775808.log''\<rparr>,
     \<lparr>rk_ts = 20240229235958, rk_index = 1, rk_name = ''app.20240229_235958.1.log''\<rparr>]"
    by (simp add: archive_keys_def rotate_match_archive_def match_tokens sample_tokens HPULOGC_MAX_PATH_LEN_def dec_digit_def digits_val_def)
  then show ?thesis
    using prune_unlinks [OF sort_desc_sorts _ _ sample_paths, of sample_cfg "\<lambda>_. True"]
    by (simp add: sort_desc_def insert_desc_def rotate_cmp_desc_def archive_path_def)
qed

section \<open>Rotation\<close>

lemma free_name_search:
  assumes "\<not> exists (name i)" "index \<le> i" "i \<le> 999999"
  obtains j where "index \<le> j" "j \<le> i" "free_name name exists True index = name j" "\<not> exists (name j)"
    "\<forall>k. index \<le> k \<and> k < j \<longrightarrow> exists (name k)"
  using assms(2)
proof (induction "i - index" arbitrary: index thesis rule: less_induct)
  case less
  show ?case
  proof (cases "exists (name index)")
    case False
    then have "free_name name exists True index = name index" by (subst free_name.simps) (simp add: Let_def)
    then show ?thesis using less.prems(1) [of index] less.prems(2) False by fastforce
  next
    case True
    then have ne: "index \<noteq> i" using assms(1) by auto
    then have "i - Suc index < i - index" "Suc index \<le> i" using less.prems(2) by simp_all
    then obtain j where j: "Suc index \<le> j" "j \<le> i" "free_name name exists True (Suc index) = name j"
      "\<not> exists (name j)" "\<forall>k. Suc index \<le> k \<and> k < j \<longrightarrow> exists (name k)" using less.hyps by blast
    have "free_name name exists True index = name j"
      using True j(3) ne less.prems(2) assms(3) by (subst free_name.simps) simp
    moreover have "\<forall>k. index \<le> k \<and> k < j \<longrightarrow> exists (name k)" using True j(5) by (metis Suc_leI le_eq_less_or_eq)
    moreover have "index \<le> j" using j(1) by simp
    ultimately show ?thesis using less.prems(1) [of j] j(2,4) by blast
  qed
qed

text \<open>C38. With an index in the template and a free index up to 999999, rotation closes the active file, renames it to the
  first archive name that does not exist, so no archive is overwritten, and then opens the active path again.\<close>

theorem rotate_never_overwrites:
  assumes "has_sub ''{index}'' (rc_naming cfg)" "1 \<le> i" "i \<le> 999999"
    and "\<not> w_exists w (rotate_build_name (w_localtime w) cfg path ts_sec use_utc i (HPULOGC_MAX_PATH_LEN * 2))"
  shows "\<exists>j rest. let name = (\<lambda>k. rotate_build_name (w_localtime w) cfg path ts_sec use_utc k (HPULOGC_MAX_PATH_LEN * 2)) in
    1 \<le> j \<and> j \<le> i \<and> \<not> w_exists w (name j) \<and> (\<forall>k. 1 \<le> k \<and> k < j \<longrightarrow> w_exists w (name k))
    \<and> snd (snd (snd (hpu_rotate_file w path fd cfg use_utc ts_sec symlink_latest file_mode)))
        = (if 0 \<le> fd then [FsClose fd] else []) @ [FsRename path (name j), FsOpenAppend path file_mode] @ rest"
proof -
  let ?name = "\<lambda>k. rotate_build_name (w_localtime w) cfg path ts_sec use_utc k (HPULOGC_MAX_PATH_LEN * 2)"
  obtain j where j: "1 \<le> j" "j \<le> i" "free_name ?name (w_exists w) True 1 = ?name j" "\<not> w_exists w (?name j)"
    "\<forall>k. 1 \<le> k \<and> k < j \<longrightarrow> w_exists w (?name k)"
    using free_name_search [of "w_exists w" ?name i 1] assms(2-4) by blast
  have "\<exists>rest. snd (snd (snd (hpu_rotate_file w path fd cfg use_utc ts_sec symlink_latest file_mode)))
        = (if 0 \<le> fd then [FsClose fd] else []) @ [FsRename path (?name j), FsOpenAppend path file_mode] @ rest"
    using j(3) assms(1) by (auto simp: hpu_rotate_file_def Let_def)
  then show ?thesis using j unfolding Let_def by blast
qed

definition sample_world :: rotate_world where
  "sample_world = \<lparr>w_localtime = \<lambda>_ _. sample_tm, w_exists = (\<lambda>p. p = ''/var/app.20240229_235958.1.log''), w_open = 5,
     w_size = 0, w_symlink_ok = True, w_pid = 1, w_listing = Some sample_names, w_qsort = sort_desc, w_unlink_ok = (\<lambda>_. True)\<rparr>"

lemma sample_stamp: "stamp_text sample_tm = ''20240229_235958''"
  by code_simp

lemma sample_index: "dec_digits 2 = ''2''"
  by code_simp

lemma sample_second: "rotate_build_name (\<lambda>_ _. sample_tm) sample_cfg ''/var/app.log'' 0 True 2 (HPULOGC_MAX_PATH_LEN * 2)
    = ''/var/app.20240229_235958.2.log''"
  by (simp add: rotate_build_name_def Let_def build_expand sample_tokens sample_stamp sample_paths rotate_base_name_def)
    (simp add: HPULOGC_MAX_PATH_LEN_def sample_index)

theorem rotate_never_overwrites_witness:
  "\<exists>j rest. let name = (\<lambda>k. rotate_build_name (w_localtime sample_world) sample_cfg ''/var/app.log'' 0 True k (HPULOGC_MAX_PATH_LEN * 2)) in
    1 \<le> j \<and> j \<le> 2 \<and> \<not> w_exists sample_world (name j) \<and> (\<forall>k. 1 \<le> k \<and> k < j \<longrightarrow> w_exists sample_world (name k))
    \<and> snd (snd (snd (hpu_rotate_file sample_world ''/var/app.log'' 3 sample_cfg True 0 True 0)))
        = (if 0 \<le> (3 :: int) then [FsClose 3] else []) @ [FsRename ''/var/app.log'' (name j), FsOpenAppend ''/var/app.log'' 0] @ rest"
  by (rule rotate_never_overwrites)
    (simp_all add: sample_world_def sample_second, simp_all add: sample_cfg_def)

end
