(* ===== verification/FormatCompile.thy ===== *)
theory FormatCompile
  imports HpuPrelude
begin

text \<open>
  Format templates of \<^verbatim>\<open>src/format/format.c\<close>, compile side: the placeholder tables, the
  modifier parser, \<^verbatim>\<open>hpu_format_compile\<close> with its literal pool, and
  \<^verbatim>\<open>json_splice_fields_action\<close>. Allocation is taken to succeed, so the
  \<^verbatim>\<open>HPULOGC_ERR_NO_MEM\<close> of a failed \<^verbatim>\<open>realloc\<close> is not a branch of the model.
\<close>

section \<open>Actions\<close>

datatype hpu_fmt_action_type =
  HPU_FA_LITERAL | HPU_FA_LEVEL | HPU_FA_TIME | HPU_FA_PID | HPU_FA_TID | HPU_FA_FILE
| HPU_FA_LINE | HPU_FA_FUNC | HPU_FA_MSG | HPU_FA_CATEGORY | HPU_FA_NEWLINE | HPU_FA_FIELDS
| HPU_FA_TIME_UTC

definition HPU_FMT_MOD_LIMIT :: nat where "HPU_FMT_MOD_LIMIT = 128"
definition HPULOGC_MAX_NAME_LEN :: nat where "HPULOGC_MAX_NAME_LEN = 64"
definition HPULOGC_MAX_FMT_LEN :: nat where "HPULOGC_MAX_FMT_LEN = 256"

text \<open>The two modifier flags of the \<^verbatim>\<open>flags\<close> byte are the two booleans.\<close>

record hpu_fmt_action =
  a_type :: hpu_fmt_action_type
  a_left :: bool
  a_prec :: bool
  a_width :: nat
  a_precision :: nat
  lit_off :: nat
  lit_len :: nat

record hpu_format =
  fmt_name :: string
  is_json :: bool
  actions :: "hpu_fmt_action list"
  pool :: "byte list"

section \<open>Placeholders\<close>

definition placeholder_type :: "char \<Rightarrow> hpu_fmt_action_type option" where
  "placeholder_type c =
     (if c = CHR ''l'' then Some HPU_FA_LEVEL
      else if c = CHR ''t'' then Some HPU_FA_TIME
      else if c = CHR ''g'' then Some HPU_FA_TIME_UTC
      else if c = CHR ''p'' then Some HPU_FA_PID
      else if c = CHR ''i'' then Some HPU_FA_TID
      else if c = CHR ''f'' then Some HPU_FA_FILE
      else if c = CHR ''n'' then Some HPU_FA_NEWLINE
      else if c = CHR ''c'' then Some HPU_FA_CATEGORY
      else if c = CHR ''m'' then Some HPU_FA_MSG
      else if c = CHR ''v'' then Some HPU_FA_FIELDS
      else None)"

definition long_table :: "(string \<times> hpu_fmt_action_type) list" where
  "long_table =
     [(''level'', HPU_FA_LEVEL), (''time'', HPU_FA_TIME), (''pid'', HPU_FA_PID),
      (''tid'', HPU_FA_TID), (''file'', HPU_FA_FILE), (''line'', HPU_FA_LINE),
      (''func'', HPU_FA_FUNC), (''msg'', HPU_FA_MSG), (''category'', HPU_FA_CATEGORY),
      (''n'', HPU_FA_NEWLINE)]"

text \<open>\<^verbatim>\<open>strncmp(s, name, strlen(name)) == 0\<close>\<close>

definition starts_with :: "string \<Rightarrow> string \<Rightarrow> bool" where
  "starts_with s name \<longleftrightarrow> take (length name) s = name"

definition match_long_placeholder :: "string \<Rightarrow> (hpu_fmt_action_type \<times> nat) option" where
  "match_long_placeholder s =
     map_option (\<lambda>(name, ty). (ty, length name)) (find (\<lambda>(name, ty). starts_with s name) long_table)"

record fmt_modifier =
  m_left :: bool
  m_overflow :: bool
  m_width :: nat
  m_has_prec :: bool
  m_prec :: nat

definition is_digit :: "char \<Rightarrow> bool" where
  "is_digit c \<longleftrightarrow> of_char c \<ge> (48 :: nat) \<and> of_char c \<le> (57 :: nat)"

text \<open>
  The digit loops: value, the sticky overflow flag and the rest. The C \<^verbatim>\<open>int\<close> may wrap on
  very long digit strings; by then the sticky flag is set and the caller rejects the
  modifier, so the value is not used and the model keeps it unbounded.
\<close>

fun read_digits :: "nat \<Rightarrow> bool \<Rightarrow> string \<Rightarrow> nat \<times> bool \<times> string" where
  "read_digits n ov [] = (n, ov, [])"
| "read_digits n ov (c # cs) =
     (if is_digit c
      then let n' = n * 10 + (of_char c - 48)
           in read_digits n' (ov \<or> n' > HPU_FMT_MOD_LIMIT) cs
      else (n, ov, c # cs))"

text \<open>Returns the modifier and the text after it (the caller's \<open>body\<close>).\<close>

definition parse_modifier :: "string \<Rightarrow> fmt_modifier \<times> string" where
  "parse_modifier s =
     (let left = (s \<noteq> [] \<and> hd s = CHR ''-'');
          s1 = (if left then tl s else s);
          (w, ov1, s2) = read_digits 0 False s1
      in if s2 \<noteq> [] \<and> hd s2 = CHR ''.''
         then (case read_digits 0 ov1 (tl s2) of (p, ov2, s3) \<Rightarrow>
                 (\<lparr>m_left = left, m_overflow = ov2, m_width = w, m_has_prec = True, m_prec = p\<rparr>, s3))
         else (\<lparr>m_left = left, m_overflow = ov1, m_width = w, m_has_prec = False, m_prec = 0\<rparr>, s2))"

definition modifier_supported :: "hpu_fmt_action_type \<Rightarrow> bool" where
  "modifier_supported t \<longleftrightarrow> t \<in> {HPU_FA_LEVEL, HPU_FA_TIME, HPU_FA_TIME_UTC, HPU_FA_PID, HPU_FA_TID,
     HPU_FA_FILE, HPU_FA_LINE, HPU_FA_FUNC, HPU_FA_MSG, HPU_FA_CATEGORY}"

section \<open>Compilation\<close>

definition push_action ::
  "hpu_format \<Rightarrow> hpu_fmt_action_type \<Rightarrow> nat \<Rightarrow> nat \<Rightarrow> fmt_modifier option \<Rightarrow> hpu_format" where
  "push_action fmt ty off len md =
     fmt\<lparr>actions := actions fmt @
       [case md of
          None \<Rightarrow> \<lparr>a_type = ty, a_left = False, a_prec = False, a_width = 0, a_precision = 0,
                    lit_off = off, lit_len = len\<rparr>
        | Some m \<Rightarrow> \<lparr>a_type = ty, a_left = m_left m, a_prec = m_has_prec m,
                      a_width = m_width m mod 65536, a_precision = m_prec m mod 65536,
                      lit_off = off, lit_len = len\<rparr>]\<rparr>"

text \<open>Flush the pending literal (the bytes between \<open>lit_start\<close> and \<open>p\<close>) as its own action.\<close>

definition flush_literal :: "hpu_format \<Rightarrow> string \<Rightarrow> hpu_format" where
  "flush_literal fmt lit =
     (if lit = [] then fmt
      else push_action (fmt\<lparr>pool := pool fmt @ lit\<rparr>) HPU_FA_LITERAL (length (pool fmt)) (length lit) None)"

definition find_placeholder :: "string \<Rightarrow> (hpu_fmt_action_type \<times> nat) option" where
  "find_placeholder body =
     (case match_long_placeholder body of
        Some r \<Rightarrow> Some r
      | None \<Rightarrow>
          if body \<noteq> [] \<and> hd body \<noteq> CHR ''%''
          then map_option (\<lambda>t. (t, 1)) (placeholder_type (hd body)) else None)"

lemma read_digits_suffix: "read_digits n ov s = (m, ov', r) \<Longrightarrow> \<exists>d. s = d @ r \<and> list_all is_digit d"
proof (induction n ov s rule: read_digits.induct)
  case (2 n ov c cs)
  show ?case
  proof (cases "is_digit c")
    case True
    with 2 obtain d where "cs = d @ r" "list_all is_digit d"
      by (auto simp: Let_def)
    with True show ?thesis by (intro exI [of _ "c # d"]) simp
  qed (use 2 in auto)
qed simp

lemma parse_modifier_suffix: "parse_modifier s = (m, r) \<Longrightarrow> \<exists>d. s = d @ r"
proof -
  assume pm: "parse_modifier s = (m, r)"
  let ?l = "s \<noteq> [] \<and> hd s = CHR ''-''"
  let ?s1 = "if ?l then tl s else s"
  obtain w ov1 s2 where r1: "read_digits 0 False ?s1 = (w, ov1, s2)" by (cases "read_digits 0 False ?s1")
  obtain p ov2 s3 where r2: "read_digits 0 ov1 (tl s2) = (p, ov2, s3)" by (cases "read_digits 0 ov1 (tl s2)")
  obtain d1 where d1: "?s1 = d1 @ s2" using read_digits_suffix [OF r1] by blast
  obtain d2 where d2: "tl s2 = d2 @ s3" using read_digits_suffix [OF r2] by blast
  have s: "\<exists>d0. s = d0 @ s2"
  proof (cases ?l)
    case True
    with d1 have "s = (hd s # d1) @ s2" by (cases s) auto
    then show ?thesis by blast
  qed (use d1 in auto)
  show ?thesis
  proof (cases "s2 \<noteq> [] \<and> hd s2 = CHR ''.''")
    case True
    with pm r1 r2 have "r = s3" by (simp add: parse_modifier_def Let_def)
    moreover from True d2 have "s2 = (hd s2 # d2) @ s3" by (cases s2) auto
    ultimately show ?thesis using s by (metis append_assoc)
  next
    case False
    with pm r1 have "r = s2" by (auto simp: parse_modifier_def Let_def)
    with s show ?thesis by simp
  qed
qed

lemma length_parse_modifier: "length (snd (parse_modifier s)) \<le> length s"
  using parse_modifier_suffix [of s "fst (parse_modifier s)" "snd (parse_modifier s)"]
  by (metis le_add2 length_append prod.collapse)

lemma parse_modifier_shrinks: "length (snd (parse_modifier s)) - n < Suc (length s)"
  using length_parse_modifier [of s] by linarith

text \<open>
  The main loop: \<open>lit\<close> is the pending literal, \<open>p\<close> the unread template. The result is
  the format, or the error code.
\<close>

function compile_loop :: "hpu_format \<Rightarrow> string \<Rightarrow> string \<Rightarrow> int + hpu_format" where
  "compile_loop fmt lit [] = Inr (flush_literal fmt lit)"
| "compile_loop fmt lit (c # q) =
     (if c = CHR ''%'' then
        let m = fst (parse_modifier q); body = snd (parse_modifier q);
            mod_len = length q - length body
        in case find_placeholder body of
             None \<Rightarrow>
               if mod_len = 0 \<and> body \<noteq> [] \<and> hd body = CHR ''%''
               then compile_loop fmt (lit @ [c, hd body]) (tl body)
               else Inl HPULOGC_ERR_CONFIG
           | Some (ty, ph_len) \<Rightarrow>
               if mod_len > 0 \<and> (\<not> modifier_supported ty \<or> m_overflow m)
               then Inl HPULOGC_ERR_CONFIG
               else compile_loop
                      (push_action (flush_literal fmt lit) ty 0 0 (if mod_len > 0 then Some m else None))
                      [] (drop ph_len body)
      else compile_loop fmt (lit @ [c]) q)"
  by pat_completeness auto
termination
  by (relation "measure (\<lambda>(fmt, lit, p). length p)") (auto simp: parse_modifier_shrinks)

definition fmt_empty :: "string \<Rightarrow> hpu_format" where
  "fmt_empty name = \<lparr>fmt_name = name, is_json = (name = ''json''), actions = [], pool = []\<rparr>"


definition action_lit :: "byte list \<Rightarrow> hpu_fmt_action \<Rightarrow> string" where
  "action_lit pl a = bslice (lit_off a) (lit_len a) pl"

definition has_brace :: "byte list \<Rightarrow> hpu_fmt_action \<Rightarrow> bool" where
  "has_brace pl a \<longleftrightarrow> a_type a = HPU_FA_LITERAL \<and> CHR ''}'' \<in> set (action_lit pl a)"

definition last_brace :: "string \<Rightarrow> nat" where
  "last_brace s = length s - 1 - length (takeWhile (\<lambda>c. c \<noteq> CHR ''}'') (rev s))"

definition plain_action :: "hpu_fmt_action_type \<Rightarrow> nat \<Rightarrow> nat \<Rightarrow> hpu_fmt_action" where
  "plain_action ty off len =
     \<lparr>a_type = ty, a_left = False, a_prec = False, a_width = 0, a_precision = 0,
      lit_off = off, lit_len = len\<rparr>"

text \<open>
  Scan the actions from the last to the first for a literal with a closing brace and split
  it at its last brace; the suffix is copied to the end of the pool. \<open>None\<close>: the suffix
  does not fit the 256-byte scratch array.
\<close>

definition json_splice_fields_action :: "hpu_format \<Rightarrow> hpu_format option" where
  "json_splice_fields_action fmt =
     (case find (\<lambda>i. has_brace (pool fmt) (actions fmt ! i)) (rev [0..<length (actions fmt)]) of
        None \<Rightarrow> Some fmt
      | Some i \<Rightarrow>
          let a = actions fmt ! i; bytes = action_lit (pool fmt) a; k = last_brace bytes;
              suffix = drop k bytes
          in if length suffix > HPULOGC_MAX_FMT_LEN then None
             else Some (fmt\<lparr>pool := pool fmt @ suffix,
                    actions := take i (actions fmt)
                      @ [a\<lparr>lit_len := k\<rparr>, plain_action HPU_FA_FIELDS 0 0,
                         plain_action HPU_FA_LITERAL (length (pool fmt)) (length suffix)]
                      @ drop (Suc i) (actions fmt)\<rparr>))"

definition hpu_format_compile :: "string \<Rightarrow> string \<Rightarrow> int + hpu_format" where
  "hpu_format_compile name template =
     (if length name \<ge> HPULOGC_MAX_NAME_LEN then Inl HPULOGC_ERR_INVALID_ARG
      else case compile_loop (fmt_empty name) [] template of
             Inl e \<Rightarrow> Inl e
           | Inr fmt \<Rightarrow>
               if is_json fmt
               then (case json_splice_fields_action fmt of
                       None \<Rightarrow> Inl HPULOGC_ERR_NO_MEM | Some fmt' \<Rightarrow> Inr fmt')
               else Inr fmt)"

definition hpu_builtin_formats :: "(string \<times> string) list" where
  "hpu_builtin_formats =
     [(''minimal'', ''%level: %msg%n''),
      (''standard'', ''%time [%level] %msg%n''),
      (''categorized'', ''%time [%level] [%category] %msg%n''),
      (''detailed'', ''%time [%level] [pid:%pid tid:%tid] [%file:%line %func] [%category] %msg%n''),
      (''json'', ''{\"time\":\"%time\",\"level\":\"%level\",\"category\":\"%category\",\"pid\":%pid,\"tid\":%tid,\"file\":\"%file\",\"line\":%line,\"msg\":\"%msg\"}%n'')]"

section \<open>Spellings\<close>

text \<open>What a piece of a template must be for an action to stand for it.\<close>

definition type_name :: "hpu_fmt_action_type \<Rightarrow> string \<Rightarrow> bool" where
  "type_name ty name \<longleftrightarrow> (name, ty) \<in> set long_table
     \<or> length name = 1 \<and> placeholder_type (hd name) = Some ty"

definition modifier_of :: "string \<Rightarrow> hpu_fmt_action \<Rightarrow> bool" where
  "modifier_of md a \<longleftrightarrow>
     (if md = [] then \<not> a_left a \<and> \<not> a_prec a \<and> a_width a = 0 \<and> a_precision a = 0
      else modifier_supported (a_type a)
        \<and> parse_modifier md = (\<lparr>m_left = a_left a, m_overflow = False, m_width = a_width a,
             m_has_prec = a_prec a, m_prec = a_precision a\<rparr>, []))"

definition action_ok :: "byte list \<Rightarrow> hpu_fmt_action \<Rightarrow> bool" where
  "action_ok pl a \<longleftrightarrow>
     (a_type a = HPU_FA_LITERAL \<longrightarrow> lit_off a + lit_len a \<le> length pl)
     \<and> a_width a \<le> HPU_FMT_MOD_LIMIT \<and> a_precision a \<le> HPU_FMT_MOD_LIMIT
     \<and> ((a_left a \<or> a_prec a \<or> a_width a \<noteq> 0) \<longrightarrow> modifier_supported (a_type a))"

text \<open>A literal has every percent sign doubled.\<close>

fun literal_text :: "string \<Rightarrow> bool" where
  "literal_text [] = True"
| "literal_text [c] = (c \<noteq> CHR ''%'')"
| "literal_text (c # d # cs) = (if c = CHR ''%'' then d = CHR ''%'' \<and> literal_text cs else literal_text (d # cs))"

text \<open>The name is the longest one, of any type, that the text continues with.\<close>

definition longest_name :: "string \<Rightarrow> string \<Rightarrow> bool" where
  "longest_name name rest \<longleftrightarrow> (\<forall>ty name'. type_name ty name' \<longrightarrow> starts_with (name @ rest) name' \<longrightarrow> length name' \<le> length name)"

definition piece_of :: "byte list \<Rightarrow> string \<Rightarrow> string \<Rightarrow> hpu_fmt_action \<Rightarrow> bool" where
  "piece_of pl rest piece a \<longleftrightarrow> action_ok pl a \<and>
     (if a_type a = HPU_FA_LITERAL then piece \<noteq> [] \<and> literal_text piece \<and> action_lit pl a = piece \<and> modifier_of [] a
      else \<exists>md name. piece = ''%'' @ md @ name \<and> modifier_of md a \<and> type_name (a_type a) name \<and> longest_name name rest)"

text \<open>The pieces of a template, in order: each before the text that follows it, and no literal after a literal.\<close>

fun reads_as :: "byte list \<Rightarrow> string list \<Rightarrow> hpu_fmt_action list \<Rightarrow> bool" where
  "reads_as pl [] [] = True"
| "reads_as pl (p # ps) (a # as) = (piece_of pl (concat ps) p a \<and> reads_as pl ps as
     \<and> (a_type a = HPU_FA_LITERAL \<and> as \<noteq> [] \<longrightarrow> a_type (hd as) \<noteq> HPU_FA_LITERAL))"
| "reads_as pl _ _ = False"

lemma literal_text_plain: "literal_text lit \<Longrightarrow> c \<noteq> CHR ''%'' \<Longrightarrow> literal_text (lit @ [c])"
  by (induction lit rule: literal_text.induct) auto

lemma literal_text_double: "literal_text lit \<Longrightarrow> literal_text (lit @ ''%%'')"
  by (induction lit rule: literal_text.induct) auto

lemma reads_as_ok: "reads_as pl ps as \<Longrightarrow> list_all (action_ok pl) as"
  by (induction pl ps as rule: reads_as.induct) (simp_all add: piece_of_def)

lemma read_digits_split:
  "read_digits n ov s = (m, ov', r) \<Longrightarrow> \<exists>d. s = d @ r \<and> read_digits n ov d = (m, ov', [])
     \<and> (ov \<longrightarrow> ov') \<and> (n \<le> HPU_FMT_MOD_LIMIT \<longrightarrow> \<not> ov' \<longrightarrow> m \<le> HPU_FMT_MOD_LIMIT)"
proof (induction n ov s rule: read_digits.induct)
  case (2 n ov c cs)
  show ?case
  proof (cases "is_digit c")
    case True
    let ?n = "n * 10 + (of_char c - 48)"
    from True 2 obtain d where "cs = d @ r" "read_digits ?n (ov \<or> ?n > HPU_FMT_MOD_LIMIT) d = (m, ov', [])"
      "ov \<or> ?n > HPU_FMT_MOD_LIMIT \<longrightarrow> ov'" "?n \<le> HPU_FMT_MOD_LIMIT \<longrightarrow> \<not> ov' \<longrightarrow> m \<le> HPU_FMT_MOD_LIMIT"
      by (auto simp: Let_def)
    with True show ?thesis by (intro exI [of _ "c # d"]) (auto simp: Let_def)
  qed (use 2 in auto)
qed simp

lemma read_digits_stop:
  "read_digits n ov d = (m, ov', []) \<Longrightarrow> x = [] \<or> \<not> is_digit (hd x) \<Longrightarrow>
     read_digits n ov (d @ x) = (m, ov', x)"
proof (induction n ov d rule: read_digits.induct)
  case (1 n ov)
  then show ?case by (cases x) auto
next
  case (2 n ov c cs)
  then show ?case by (auto simp: Let_def split: if_splits)
qed

lemma parse_modifier_split:
  assumes "parse_modifier s = (m, r)"
  shows "\<exists>d. s = d @ r \<and> parse_modifier d = (m, [])"
    and "\<not> m_overflow m \<Longrightarrow> m_width m \<le> HPU_FMT_MOD_LIMIT \<and> m_prec m \<le> HPU_FMT_MOD_LIMIT"
proof -
  let ?l = "s \<noteq> [] \<and> hd s = CHR ''-''"
  let ?s1 = "if ?l then tl s else s"
  obtain w ov1 s2 where r1: "read_digits 0 False ?s1 = (w, ov1, s2)" by (cases "read_digits 0 False ?s1")
  obtain p ov2 s3 where r2: "read_digits 0 ov1 (tl s2) = (p, ov2, s3)" by (cases "read_digits 0 ov1 (tl s2)")
  obtain d1 where d1: "?s1 = d1 @ s2" "read_digits 0 False d1 = (w, ov1, [])"
    and b1: "\<not> ov1 \<longrightarrow> w \<le> HPU_FMT_MOD_LIMIT"
    using read_digits_split [OF r1] by auto
  obtain d2 where d2: "tl s2 = d2 @ s3" "read_digits 0 ov1 d2 = (p, ov2, [])"
    and b2: "ov1 \<longrightarrow> ov2" "\<not> ov2 \<longrightarrow> p \<le> HPU_FMT_MOD_LIMIT"
    using read_digits_split [OF r2] by auto
  let ?dot = "s2 \<noteq> [] \<and> hd s2 = CHR ''.''"
  show "m_width m \<le> HPU_FMT_MOD_LIMIT \<and> m_prec m \<le> HPU_FMT_MOD_LIMIT" if "\<not> m_overflow m"
    using assms that r1 r2 b1 b2 by (cases ?dot) (auto simp: parse_modifier_def Let_def)
  show "\<exists>d. s = d @ r \<and> parse_modifier d = (m, [])"
  proof -
    let ?h = "if ?l then ''-'' else []"
    let ?t = "if ?dot then CHR ''.'' # d2 else []"
    let ?d = "?h @ d1 @ ?t"
    have r: "r = (if ?dot then s3 else s2)"
      and m: "m = (if ?dot then \<lparr>m_left = ?l, m_overflow = ov2, m_width = w, m_has_prec = True, m_prec = p\<rparr>
        else \<lparr>m_left = ?l, m_overflow = ov1, m_width = w, m_has_prec = False, m_prec = 0\<rparr>)"
      using assms r1 r2 by (auto simp: parse_modifier_def Let_def split: if_splits)
    have s1: "s = ?h @ ?s1" by (cases s) auto
    have s2: "s2 = ?t @ r" using d2(1) r by (cases s2) auto
    have "s = ?d @ r" using s1 d1(1) s2 by simp
    moreover have left: "(?d \<noteq> [] \<and> hd ?d = CHR ''-'') = ?l"
      using d1(1) by (cases d1) (auto split: if_splits)
    moreover have tl: "(if ?l then tl ?d else ?d) = d1 @ ?t" by simp
    moreover have "\<not> is_digit (CHR ''.'')" by (simp add: is_digit_def)
    then have "read_digits 0 False (d1 @ ?t) = (w, ov1, ?t)"
      by (intro read_digits_stop [OF d1(2)]) auto
    ultimately have "parse_modifier ?d = (m, [])"
      unfolding parse_modifier_def Let_def left tl using d2(2) m by auto
    with \<open>s = ?d @ r\<close> show ?thesis by blast
  qed
qed


lemma type_name_starts:
  "type_name ty name \<Longrightarrow> starts_with s name \<Longrightarrow>
    length name = 1 \<and> s \<noteq> [] \<and> placeholder_type (hd s) = Some ty \<or> find (\<lambda>(name, ty). starts_with s name) long_table = Some (name, ty)"
proof -
  assume n: "type_name ty name" "starts_with s name"
  then obtain r where s: "s = name @ r" by (metis append_take_drop_id starts_with_def)
  show ?thesis
  proof (cases "(name, ty) \<in> set long_table")
    case True
    moreover have "list_all (\<lambda>(name, ty). find (\<lambda>(nm, t). starts_with (name @ r) nm) long_table = Some (name, ty)) long_table"
      by (simp add: long_table_def starts_with_def)
    ultimately show ?thesis unfolding s by (auto simp: list_all_iff)
  next
    case False
    then have "length name = 1" "placeholder_type (hd name) = Some ty" using n(1) by (auto simp: type_name_def)
    then show ?thesis unfolding s by (cases name) simp_all
  qed
qed

lemma find_placeholder_spelling:
  assumes "find_placeholder body = Some (ty, n)"
  shows "type_name ty (take n body) \<and> n \<le> length body \<and> ty \<noteq> HPU_FA_LITERAL \<and> longest_name (take n body) (drop n body)"
proof (cases "match_long_placeholder body")
  case None
  then have "find (\<lambda>(name, ty). starts_with body name) long_table = None" by (simp add: match_long_placeholder_def)
  then have "length name' = 1" if "type_name ty' name'" "starts_with body name'" for ty' name'
    using type_name_starts [OF that] by auto
  then have "longest_name (take 1 body) (drop 1 body)" if "body \<noteq> []"
    unfolding longest_name_def append_take_drop_id using that by (cases body) force+
  with None assms show ?thesis
    by (cases body)
      (auto simp: find_placeholder_def type_name_def placeholder_type_def split: if_splits)
next
  case (Some r)
  with assms obtain name where name: "find (\<lambda>(name, ty). starts_with body name) long_table = Some (name, ty)"
    and n: "n = length name"
    by (auto simp: find_placeholder_def match_long_placeholder_def)
  then have m: "(name, ty) \<in> set long_table" "starts_with body name"
    by (auto simp: find_Some_iff in_set_conv_nth)
  then have t: "take n body = name" using n by (simp add: starts_with_def)
  then have l: "n \<le> length body" using n by (metis length_take min.cobounded1)
  have "0 < length name" using m(1) by (auto simp: long_table_def)
  then have "length name' \<le> length name" if "type_name ty' name'" "starts_with body name'" for ty' name'
    using type_name_starts [OF that] name by (cases name) auto
  then have "longest_name (take n body) (drop n body)" using t by (auto simp: longest_name_def)
  then show ?thesis using m t l by (auto simp: type_name_def long_table_def)
qed

lemma action_lit_append:
  "lit_off a + lit_len a \<le> length pl \<Longrightarrow> action_lit (pl @ x) a = action_lit pl a"
  by (simp add: action_lit_def bslice_def)

definition extends :: "hpu_format \<Rightarrow> string \<Rightarrow> hpu_format \<Rightarrow> bool" where
  "extends fmt txt f \<longleftrightarrow> (\<exists>pieces acts extra.
     actions f = actions fmt @ acts \<and> pool f = pool fmt @ extra
     \<and> is_json f = is_json fmt \<and> fmt_name f = fmt_name fmt
     \<and> txt = concat pieces \<and> reads_as (pool f) pieces acts)"

lemma literal_piece:
  "lit \<noteq> [] \<Longrightarrow> literal_text lit \<Longrightarrow> piece_of ((pl @ lit) @ x) rest lit (plain_action HPU_FA_LITERAL (length pl) (length lit))"
  by (simp add: piece_of_def action_ok_def action_lit_def bslice_def modifier_of_def plain_action_def)

text \<open>The action of a placeholder, after the pending literal.\<close>

lemma extends_placeholder:
  assumes pm: "parse_modifier q = (m, body)" and q: "q = d @ body" "parse_modifier d = (m, [])"
    and ph: "find_placeholder body = Some (ty, n)" and ok: "d = [] \<or> modifier_supported ty \<and> \<not> m_overflow m"
    and lit: "literal_text lit"
    and rest: "extends (push_action (flush_literal fmt lit) ty 0 0 (if d \<noteq> [] then Some m else None)) (drop n body) f"
  shows "extends fmt (lit @ ''%'' @ q) f"
proof -
  have name: "type_name ty (take n body)" "ty \<noteq> HPU_FA_LITERAL" "longest_name (take n body) (drop n body)"
    using find_placeholder_spelling [OF ph] by auto
  have bounds: "\<not> m_overflow m \<Longrightarrow> m_width m \<le> HPU_FMT_MOD_LIMIT \<and> m_prec m \<le> HPU_FMT_MOD_LIMIT"
    using parse_modifier_split(2) [OF pm] .
  let ?g = "push_action (flush_literal fmt lit) ty 0 0 (if d \<noteq> [] then Some m else None)"
  let ?a = "last (actions ?g)" and ?l = "plain_action HPU_FA_LITERAL (length (pool fmt)) (length lit)"
  let ?ls = "if lit = [] then [] else [?l]"
  obtain ps acts x where r: "actions f = actions ?g @ acts" "pool f = pool ?g @ x" "is_json f = is_json ?g"
    "fmt_name f = fmt_name ?g" "drop n body = concat ps" "reads_as (pool f) ps acts" using rest by (auto simp: extends_def)
  have g: "actions ?g = actions fmt @ ?ls @ [?a]" "pool ?g = pool fmt @ lit" "is_json ?g = is_json fmt" "fmt_name ?g = fmt_name fmt"
    by (simp_all add: push_action_def flush_literal_def plain_action_def)
  have md: "modifier_of d ?a"
    using ok bounds q(2) by (auto simp: push_action_def modifier_of_def HPU_FMT_MOD_LIMIT_def)
  have a: "action_ok (pool f) ?a" "a_type ?a = ty"
    using name(2) ok bounds by (auto simp: push_action_def action_ok_def HPU_FMT_MOD_LIMIT_def)
  have "piece_of (pool f) (concat ps) (''%'' @ d @ take n body) ?a"
    unfolding piece_of_def using md a name r(5) by (metis (no_types))
  then have one: "reads_as (pool f) ((''%'' @ d @ take n body) # ps) (?a # acts)" using a(2) name(2) r(6) by simp
  have pl: "pool f = (pool fmt @ lit) @ x" using r(2) g(2) by simp
  let ?pieces = "(if lit = [] then [] else [lit]) @ (''%'' @ d @ take n body) # ps"
  have "reads_as (pool f) ?pieces (?ls @ ?a # acts)"
  proof (cases "lit = []")
    case False
    then show ?thesis using one literal_piece [OF False lit, of "pool fmt" x] a(2) name(2) unfolding pl by simp
  qed (use one in simp)
  moreover have "lit @ ''%'' @ q = concat ?pieces" using q(1) r(5) by (simp add: append_take_drop_id [symmetric] del: append_take_drop_id) (metis append_take_drop_id)
  moreover have "actions f = actions fmt @ ?ls @ ?a # acts" using r(1) g(1) by simp
  ultimately show ?thesis unfolding extends_def using r(3,4) g(3,4) pl
    by (intro exI [of _ ?pieces] exI [of _ "?ls @ ?a # acts"] exI [of _ "lit @ x"]) simp
qed

lemma compile_loop_reads: "compile_loop fmt lit p = Inr f \<Longrightarrow> literal_text lit \<Longrightarrow> extends fmt (lit @ p) f"
proof (induction fmt lit p rule: compile_loop.induct)
  case (1 fmt lit)
  show ?case
  proof (cases "lit = []")
    case True
    then show ?thesis using 1 by (auto simp: extends_def flush_literal_def intro: exI [of _ "[]"])
  next
    case False
    then show ?thesis using 1 literal_piece [OF False 1(2), of "pool fmt" "[]" "[]"] unfolding extends_def
      by (intro exI [of _ "[lit]"] exI [of _ "[plain_action HPU_FA_LITERAL (length (pool fmt)) (length lit)]"] exI [of _ lit])
        (auto simp: flush_literal_def push_action_def plain_action_def)
  qed
next
  case (2 fmt lit c q)
  obtain m body where pm: "parse_modifier q = (m, body)" by (cases "parse_modifier q")
  obtain d where q: "q = d @ body" "parse_modifier d = (m, [])"
    using parse_modifier_split(1) [OF pm] by blast
  have md: "length q - length body = length d" using q(1) by simp
  show ?case
  proof (cases "c = CHR ''%''")
    case False
    with 2 show ?thesis by (simp add: literal_text_plain)
  next
    case c: True
    show ?thesis
    proof (cases "find_placeholder body")
      case None
      then have b: "d = []" "body \<noteq> []" "hd body = CHR ''%''"
        and next1: "compile_loop fmt (lit @ [c, hd body]) (tl body) = Inr f"
        using 2(4) c pm md by (auto simp: Let_def split: if_splits)
      with 2(1) [OF c refl refl refl, unfolded pm] None md literal_text_double [OF 2(5)] c
      have "extends fmt ((lit @ [c, hd body]) @ tl body) f" by simp
      then show ?thesis using b q(1) by (cases body) simp_all
    next
      case (Some r)
      obtain ty n where r: "r = (ty, n)" by (cases r)
      let ?g = "push_action (flush_literal fmt lit) ty 0 0 (if d \<noteq> [] then Some m else None)"
      have ok: "d = [] \<or> modifier_supported ty \<and> \<not> m_overflow m"
        and next2: "compile_loop ?g [] (drop n body) = Inr f"
        using 2(4) c pm md Some r by (auto simp: Let_def split: if_splits)
      have "extends ?g (drop n body) f"
        using 2(2) [OF c refl refl refl, unfolded pm snd_conv md, OF Some r [symmetric]] ok next2
        by (cases "d = []") simp_all
      from extends_placeholder [OF pm q Some [unfolded r] ok 2(5) this] c show ?thesis by simp
    qed
  qed
qed

lemma compile_loop_extends: "compile_loop fmt [] p = Inr f \<Longrightarrow> extends fmt p f"
  using compile_loop_reads [of fmt "[]"] by simp

section \<open>The json injection point\<close>

definition lit_text :: "byte list \<Rightarrow> hpu_fmt_action list \<Rightarrow> string" where
  "lit_text pl as = concat (map (\<lambda>a. if a_type a = HPU_FA_LITERAL then action_lit pl a else []) as)"

lemma lit_text_append [simp]: "lit_text pl (as @ bs) = lit_text pl as @ lit_text pl bs"
  by (simp add: lit_text_def)

lemma lit_text_Nil [simp]: "lit_text pl [] = []"
  by (simp add: lit_text_def)

lemma lit_text_Cons [simp]:
  "lit_text pl (a # as) = (if a_type a = HPU_FA_LITERAL then action_lit pl a else []) @ lit_text pl as"
  by (simp add: lit_text_def)

lemma lit_text_pool_append:
  "list_all (action_ok pl) as \<Longrightarrow> lit_text (pl @ x) as = lit_text pl as"
  by (induction as) (auto simp: action_ok_def action_lit_append)

lemma last_brace_split:
  assumes "CHR ''}'' \<in> set s"
  shows "\<exists>t. drop (last_brace s) s = CHR ''}'' # t \<and> CHR ''}'' \<notin> set t \<and> last_brace s < length s"
proof -
  let ?P = "\<lambda>c. c \<noteq> CHR ''}''"
  obtain ys zs where s: "s = ys @ CHR ''}'' # zs" "CHR ''}'' \<notin> set zs"
    using split_list_last [OF assms] by blast
  have "takeWhile ?P (rev zs @ CHR ''}'' # rev ys) = rev zs @ takeWhile ?P (CHR ''}'' # rev ys)"
    by (rule takeWhile_append2) (use s(2) in auto)
  then have "takeWhile ?P (rev s) = rev zs" using s(1) by simp
  then have "last_brace s = length ys" unfolding last_brace_def using s by simp
  then show ?thesis using s by simp
qed

lemma find_last:
  assumes "find P (rev [0..<n]) = Some i"
  shows "i < n \<and> P i \<and> (\<forall>j. i < j \<and> j < n \<longrightarrow> \<not> P j)"
  using assms
proof (induction n)
  case (Suc n)
  then show ?case by (cases "P n") (auto simp: less_Suc_eq)
qed simp

lemma find_last_None: "find P (rev [0..<n]) = None \<Longrightarrow> j < n \<Longrightarrow> \<not> P j"
  by (auto simp: find_None_iff)

lemma no_brace_lit_text:
  "(\<forall>j < length as. \<not> has_brace pl (as ! j)) \<Longrightarrow> CHR ''}'' \<notin> set (lit_text pl as)"
proof (induction as)
  case (Cons a as)
  have "\<not> has_brace pl a" using Cons.prems by force
  moreover have "\<forall>j < length as. \<not> has_brace pl (as ! j)" using Cons.prems by force
  ultimately show ?case using Cons.IH by (auto simp: has_brace_def)
qed simp

definition one_last_brace :: "string \<Rightarrow> bool" where
  "one_last_brace s \<longleftrightarrow> (\<exists>t. s = CHR ''}'' # t \<and> CHR ''}'' \<notin> set t)"

lemma json_splice_spec:
  assumes "list_all (action_ok (pool fmt)) (actions fmt)"
    and "json_splice_fields_action fmt = Some f"
  shows "lit_text (pool f) (actions f) = lit_text (pool fmt) (actions fmt)
    \<and> list_all (action_ok (pool f)) (actions f)
    \<and> (if CHR ''}'' \<in> set (lit_text (pool fmt) (actions fmt))
       then \<exists>pre post. actions f = pre @ plain_action HPU_FA_FIELDS 0 0 # post
              \<and> one_last_brace (lit_text (pool f) post)
       else f = fmt)"
proof (cases "find (\<lambda>i. has_brace (pool fmt) (actions fmt ! i)) (rev [0..<length (actions fmt)])")
  case None
  then have "CHR ''}'' \<notin> set (lit_text (pool fmt) (actions fmt))"
    using no_brace_lit_text find_last_None [OF None] by blast
  moreover have "f = fmt" using assms(2) None by (simp add: json_splice_fields_action_def)
  ultimately show ?thesis using assms(1) by simp
next
  case (Some i)
  let ?as = "actions fmt" let ?pl = "pool fmt"
  let ?a = "?as ! i" let ?bytes = "action_lit ?pl ?a" let ?k = "last_brace ?bytes"
  let ?suf = "drop ?k ?bytes"
  from find_last [OF Some] have i: "i < length ?as" "has_brace ?pl ?a"
    and later: "\<forall>j. i < j \<and> j < length ?as \<longrightarrow> \<not> has_brace ?pl (?as ! j)" by auto
  then obtain t where t: "?suf = CHR ''}'' # t" "CHR ''}'' \<notin> set t" "?k < length ?bytes"
    using last_brace_split by (auto simp: has_brace_def)
  have f: "pool f = ?pl @ ?suf"
    "actions f = take i ?as @ [?a\<lparr>lit_len := ?k\<rparr>, plain_action HPU_FA_FIELDS 0 0,
       plain_action HPU_FA_LITERAL (length ?pl) (length ?suf)] @ drop (Suc i) ?as"
    using assms(2) Some by (auto simp: json_splice_fields_action_def Let_def split: if_splits)
  have as: "?as = take i ?as @ ?a # drop (Suc i) ?as" using i(1) by (rule id_take_nth_drop)
  have ok: "list_all (action_ok ?pl) (take i ?as)" "action_ok ?pl ?a" "list_all (action_ok ?pl) (drop (Suc i) ?as)"
    using assms(1) by (subst (asm) as, simp)+
  have lit: "a_type ?a = HPU_FA_LITERAL" using i(2) by (simp add: has_brace_def)
  have pre: "action_lit (pool f) (?a\<lparr>lit_len := ?k\<rparr>) = take ?k ?bytes"
    using t(3) ok(2) lit f(1) by (simp add: action_lit_def bslice_def action_ok_def min_absorb1)
  have post: "action_lit (pool f) (plain_action HPU_FA_LITERAL (length ?pl) (length ?suf)) = ?suf"
    unfolding f(1) by (simp add: action_lit_def plain_action_def bslice_def)
  have rest: "CHR ''}'' \<notin> set (lit_text (pool f) (drop (Suc i) ?as))"
    unfolding f(1) lit_text_pool_append [OF ok(3)]
    using later by (intro no_brace_lit_text) auto
  have fields: "a_type (plain_action HPU_FA_FIELDS 0 0) \<noteq> HPU_FA_LITERAL"
    and lit2: "a_type (plain_action HPU_FA_LITERAL n m) = HPU_FA_LITERAL" for n m
    by (simp_all add: plain_action_def)
  have split_text: "lit_text ?pl ?as = lit_text ?pl (take i ?as) @ ?bytes @ lit_text ?pl (drop (Suc i) ?as)"
    using arg_cong [OF as, of "lit_text ?pl"] lit by simp
  have "lit_text (pool f) (actions f)
      = lit_text (pool f) (take i ?as) @ (take ?k ?bytes @ ?suf) @ lit_text (pool f) (drop (Suc i) ?as)"
    unfolding f(2) using pre post lit fields lit2 by simp
  also have "\<dots> = lit_text ?pl (take i ?as) @ ?bytes @ lit_text ?pl (drop (Suc i) ?as)"
    unfolding f(1) lit_text_pool_append [OF ok(1)] lit_text_pool_append [OF ok(3)] by simp
  also have "\<dots> = lit_text ?pl ?as"
    by (rule split_text [symmetric])
  finally have same: "lit_text (pool f) (actions f) = lit_text ?pl ?as" .
  have ok_mono: "action_ok ?pl a \<Longrightarrow> action_ok (pool f) a" for a
    unfolding f(1) by (auto simp: action_ok_def)
  have kept: "list_all (action_ok (pool f)) as" if "list_all (action_ok ?pl) as" for as
    using that ok_mono by (auto simp: list_all_iff)
  have "?k \<le> lit_len ?a" using t(3) by (simp add: action_lit_def)
  then have "action_ok (pool f) (?a\<lparr>lit_len := ?k\<rparr>)"
    using ok_mono [OF ok(2)] lit by (simp add: action_ok_def)
  moreover have "action_ok (pool f) (plain_action HPU_FA_FIELDS 0 0)"
    "action_ok (pool f) (plain_action HPU_FA_LITERAL (length ?pl) (length ?suf))"
    unfolding f(1) by (simp_all add: action_ok_def plain_action_def)
  ultimately have "list_all (action_ok (pool f)) (actions f)"
    unfolding f(2) using kept [OF ok(1)] kept [OF ok(3)] by simp
  moreover have "CHR ''}'' \<in> set (lit_text ?pl ?as)"
    using i(2) unfolding split_text by (simp add: has_brace_def)
  moreover have "\<exists>pre post. actions f = pre @ plain_action HPU_FA_FIELDS 0 0 # post
              \<and> one_last_brace (lit_text (pool f) post)"
    using f(2) post rest t(1,2) lit2
    by (intro exI [of _ "take i ?as @ [?a\<lparr>lit_len := ?k\<rparr>]"]
        exI [of _ "plain_action HPU_FA_LITERAL (length ?pl) (length ?suf) # drop (Suc i) ?as"])
      (simp add: one_last_brace_def)
  ultimately show ?thesis using same by simp
qed


lemmas compile_eval = hpu_format_compile_def fmt_empty_def flush_literal_def push_action_def
  find_placeholder_def match_long_placeholder_def long_table_def starts_with_def
  parse_modifier_def is_digit_def placeholder_type_def modifier_supported_def
  HPU_FMT_MOD_LIMIT_def plain_action_def HPULOGC_MAX_NAME_LEN_def

lemmas splice_eval = json_splice_fields_action_def has_brace_def action_lit_def bslice_def
  last_brace_def HPULOGC_MAX_FMT_LEN_def

section \<open>Properties\<close>

text \<open>
  C32. Compilation reads the template as documented: when a template (of a format not named json) compiles, the
  template is the concatenation of one piece per action, in order. The piece of a literal action is exactly
  the bytes the action has in the pool, and every percent sign in it is doubled; no literal follows a literal.
  The piece of any other action is a percent sign, a modifier the action carries exactly, and the long or
  one-letter name of the action's type that is the longest of all names the template continues with there.
  Modifiers occur on value placeholders only, widths and precisions are at most 128, and every literal lies
  inside the pool.
\<close>

theorem compile_reads_template:
  assumes "hpu_format_compile name template = Inr f" and "name \<noteq> ''json''"
  shows "fmt_name f = name \<and> length name < HPULOGC_MAX_NAME_LEN \<and>
    (\<exists>pieces. template = concat pieces \<and> reads_as (pool f) pieces (actions f))"
proof -
  have "compile_loop (fmt_empty name) [] template = Inr f" "length name < HPULOGC_MAX_NAME_LEN"
    using assms compile_loop_extends [of "fmt_empty name" template]
    by (auto simp: hpu_format_compile_def extends_def fmt_empty_def split: if_splits sum.splits)
  with compile_loop_extends [OF this(1)] show ?thesis
    by (auto simp: extends_def fmt_empty_def)
qed

theorem compile_reads_template_witness:
  "\<exists>pieces. ''[%-5level] %m%n'' = concat pieces
     \<and> reads_as ''[] '' pieces
       [plain_action HPU_FA_LITERAL 0 1,
        (plain_action HPU_FA_LEVEL 0 0)\<lparr>a_left := True, a_width := 5\<rparr>,
        plain_action HPU_FA_LITERAL 1 2, plain_action HPU_FA_MSG 0 0, plain_action HPU_FA_NEWLINE 0 0]"
proof -
  have "hpu_format_compile ''t'' ''[%-5level] %m%n'' = Inr \<lparr>fmt_name = ''t'', is_json = False, actions =
       [plain_action HPU_FA_LITERAL 0 1,
        (plain_action HPU_FA_LEVEL 0 0)\<lparr>a_left := True, a_width := 5\<rparr>,
        plain_action HPU_FA_LITERAL 1 2, plain_action HPU_FA_MSG 0 0, plain_action HPU_FA_NEWLINE 0 0],
       pool = ''[] ''\<rparr>"
    by (simp add: compile_eval)
  from compile_reads_template [OF this] show ?thesis by simp
qed

text \<open>
  The json injection point: compiling a json template gives a format whose literal
  bytes are those of the template's literals unchanged, whose literals lie in the pool, and
  in which, when the template has a closing brace in a literal, the structured-fields action
  stands so that the literal text after it starts with the template's last closing brace.
\<close>

theorem json_fields_before_last_brace:
  assumes "hpu_format_compile ''json'' template = Inr f"
  shows "\<exists>g. compile_loop (fmt_empty ''json'') [] template = Inr g
    \<and> lit_text (pool f) (actions f) = lit_text (pool g) (actions g)
    \<and> list_all (action_ok (pool f)) (actions f)
    \<and> (CHR ''}'' \<in> set (lit_text (pool g) (actions g)) \<longrightarrow>
        (\<exists>pre post. actions f = pre @ plain_action HPU_FA_FIELDS 0 0 # post
           \<and> one_last_brace (lit_text (pool f) post)))"
proof -
  obtain g where g: "compile_loop (fmt_empty ''json'') [] template = Inr g"
    and f: "(if is_json g then json_splice_fields_action g = Some f else f = g)"
    using assms by (auto simp: hpu_format_compile_def split: if_splits sum.splits option.splits)
  from compile_loop_extends [OF g] have json: "is_json g"
    and "\<exists>pieces. reads_as (pool g) pieces (actions g)"
    by (auto simp: extends_def fmt_empty_def)
  then have "list_all (action_ok (pool g)) (actions g)" using reads_as_ok by blast
  from json_splice_spec [OF this] f json g show ?thesis by (auto split: if_splits)
qed

theorem json_fields_before_last_brace_witness:
  "\<exists>g. compile_loop (fmt_empty ''json'') [] ''{%m}%n'' = Inr g
    \<and> (CHR ''}'' \<in> set (lit_text (pool g) (actions g)) \<longrightarrow>
        (\<exists>pre post.
           [plain_action HPU_FA_LITERAL 0 1, plain_action HPU_FA_MSG 0 0, plain_action HPU_FA_LITERAL 1 0,
            plain_action HPU_FA_FIELDS 0 0, plain_action HPU_FA_LITERAL 2 1, plain_action HPU_FA_NEWLINE 0 0]
           = pre @ plain_action HPU_FA_FIELDS 0 0 # post \<and> one_last_brace (lit_text ''{}}'' post)))"
proof -
  have "hpu_format_compile ''json'' ''{%m}%n'' = Inr \<lparr>fmt_name = ''json'', is_json = True, actions =
       [plain_action HPU_FA_LITERAL 0 1, plain_action HPU_FA_MSG 0 0, plain_action HPU_FA_LITERAL 1 0,
        plain_action HPU_FA_FIELDS 0 0, plain_action HPU_FA_LITERAL 2 1, plain_action HPU_FA_NEWLINE 0 0],
       pool = ''{}}''\<rparr>"
    by (simp add: compile_eval splice_eval)
  from json_fields_before_last_brace [OF this] show ?thesis by auto
qed

text \<open>
  A doubled percent sign is kept as two bytes: the loop skips both without cutting the
  pending literal, so the line shows two percent signs, not one.
\<close>

theorem percent_percent_kept:
  "compile_loop fmt lit (''%%'' @ q) = compile_loop fmt (lit @ ''%%'') q"
proof -
  have "parse_modifier (CHR ''%'' # q) =
      (\<lparr>m_left = False, m_overflow = False, m_width = 0, m_has_prec = False, m_prec = 0\<rparr>, CHR ''%'' # q)"
    by (simp add: parse_modifier_def is_digit_def)
  moreover have "find_placeholder (CHR ''%'' # q) = None"
    by (simp add: find_placeholder_def match_long_placeholder_def long_table_def starts_with_def)
  ultimately show ?thesis by simp
qed

end
