(* ===== verification/ConfText.thy ===== *)
theory ConfText
  imports FormatCompile
begin

unbundle bit_operations_syntax

text \<open>
  The value parsers of \<^verbatim>\<open>src/conf/conf_file.c\<close>: booleans, levels, sizes with suffixes,
  quotes, comma-separated lists, blanks, and rule levels; with them the parts of the C library they
  use (\<^verbatim>\<open>strcasecmp\<close>, \<^verbatim>\<open>strtol\<close> and \<^verbatim>\<open>strtoull\<close> in the C locale, with
  64-bit \<^verbatim>\<open>long\<close>).
\<close>

section \<open>The C library's part\<close>

definition tolower :: "char \<Rightarrow> char" where
  "tolower c = (if (65 :: nat) \<le> of_char c \<and> of_char c \<le> (90 :: nat) then char_of (of_char c + 32 :: nat) else c)"

definition eqcase :: "string \<Rightarrow> string \<Rightarrow> bool" where
  "eqcase a b \<longleftrightarrow> map tolower a = map tolower b"

definition isspace :: "char \<Rightarrow> bool" where
  "isspace c \<longleftrightarrow> c = CHR '' '' \<or> (9 :: nat) \<le> of_char c \<and> of_char c \<le> (13 :: nat)"

definition base_digit :: "nat \<Rightarrow> char \<Rightarrow> bool" where
  "base_digit base c \<longleftrightarrow> (48 :: nat) \<le> of_char c \<and> of_char c < 48 + base"

definition base_val :: "nat \<Rightarrow> string \<Rightarrow> nat" where
  "base_val base = foldl (\<lambda>n c. n * base + (of_char c - 48)) 0"

text \<open>Blanks, sign and digits: the sign, the digits and what follows them.\<close>

definition scan_number :: "nat \<Rightarrow> string \<Rightarrow> bool \<times> string \<times> string" where
  "scan_number base s =
     (let t = dropWhile isspace s;
          neg = (t \<noteq> [] \<and> hd t = CHR ''-'');
          u = (if t \<noteq> [] \<and> (hd t = CHR ''-'' \<or> hd t = CHR ''+'') then tl t else t)
      in (neg, takeWhile (base_digit base) u, dropWhile (base_digit base) u))"

definition strtol :: "nat \<Rightarrow> string \<Rightarrow> int" where
  "strtol base s =
     (case scan_number base s of (neg, ds, _) \<Rightarrow>
        let v = int (base_val base ds) in
        if neg then max (- (2 ^ 63)) (- v) else min (2 ^ 63 - 1) v)"

text \<open>The value and the rest, or nothing when there is no number (\<^verbatim>\<open>end == v\<close>).\<close>

definition strtoull :: "string \<Rightarrow> (nat \<times> string) option" where
  "strtoull s =
     (case scan_number 10 s of (neg, ds, rest) \<Rightarrow>
        if ds = [] then None
        else let v = base_val 10 ds in
          Some (if v \<ge> 2 ^ 64 then 2 ^ 64 - 1 else if neg then (2 ^ 64 - v) mod 2 ^ 64 else v, rest))"

section \<open>Values\<close>

definition parse_bool :: "string \<Rightarrow> bool option" where
  "parse_bool v = (if eqcase v ''true'' then Some True else if eqcase v ''false'' then Some False else None)"

text \<open>A chain of \<^verbatim>\<open>eqcase\<close> tests, first match wins.\<close>

definition eq_lookup :: "(string \<times> int) list \<Rightarrow> string \<Rightarrow> int option" where
  "eq_lookup tbl v = map_option snd (find (\<lambda>(n, _). eqcase v n) tbl)"

definition level_names :: "(string \<times> int) list" where
  "level_names = [(''trace'', 0), (''debug'', 1), (''info'', 2), (''warn'', 3), (''error'', 4), (''fatal'', 5), (''off'', 6)]"

definition parse_level :: "string \<Rightarrow> int option" where
  "parse_level v = eq_lookup level_names v"

definition size_suffixes :: "(string \<times> nat) list" where
  "size_suffixes = [(''k'', 1000), (''kb'', 1024), (''m'', 1000000), (''mb'', 1048576), (''g'', 1000000000), (''gb'', 1073741824)]"

definition parse_size :: "string \<Rightarrow> nat option" where
  "parse_size v =
     (case strtoull v of None \<Rightarrow> None
      | Some (n, rest) \<Rightarrow>
          if rest = [] then Some n
          else if length rest > 2 then None
          else map_option (\<lambda>k. n * k mod 2 ^ 64) (map_of size_suffixes (map tolower rest)))"

text \<open>The other size parser, of \<^verbatim>\<open>src/output/output.c\<close>: no sign, blanks around the digits, wrapping.\<close>

definition lower_bit :: "char \<Rightarrow> nat" where
  "lower_bit c = of_char c OR 32"

definition hpu_parse_size_str :: "string \<Rightarrow> nat option" where
  "hpu_parse_size_str s0 =
     (let blank = (\<lambda>c. c = CHR '' '' \<or> c = CHR 0x09);
          s = dropWhile blank s0;
          ds = takeWhile (base_digit 10) s;
          v = base_val 10 ds mod 2 ^ 64;
          rest = dropWhile blank (dropWhile (base_digit 10) s)
      in if ds = [] then None
         else case rest of
                [] \<Rightarrow> Some v
              | c # t \<Rightarrow>
                  let scale = (\<lambda>m1 m2. if t = [] then Some (v * m1 mod 2 ^ 64)
                                       else if lower_bit (hd t) = 98 \<and> tl t = [] then Some (v * m2 mod 2 ^ 64) else None)
                  in if lower_bit c = 107 then scale 1000 1024
                     else if lower_bit c = 109 then scale 1000000 1048576
                     else if lower_bit c = 103 then scale 1000000000 1073741824
                     else None)"

definition strip_quotes :: "string \<Rightarrow> string" where
  "strip_quotes v = (if length v \<ge> 2 \<and> hd v = CHR ''\"'' \<and> last v = CHR ''\"'' then butlast (tl v) else v)"

text \<open>
  \<open>csv_loop k\<close> has room for \<open>k\<close> more parts; when there is none the part under way runs to
  the end of the string.
\<close>

fun csv_loop :: "nat \<Rightarrow> bool \<Rightarrow> string \<Rightarrow> string \<Rightarrow> string list" where
  "csv_loop k q cur [] = [cur]"
| "csv_loop 0 q cur (c # s) = [cur @ c # s]"
| "csv_loop (Suc k) q cur (c # s) =
     (if c = CHR ''\"'' then csv_loop (Suc k) (\<not> q) (cur @ [c]) s
      else if c = CHR '','' \<and> \<not> q then cur # csv_loop k q [] s
      else csv_loop (Suc k) q (cur @ [c]) s)"

definition split_csv :: "string \<Rightarrow> nat \<Rightarrow> string list" where
  "split_csv s maxn = (if s = [] then [] else csv_loop (maxn - 1) False [] s)"

definition is_blank :: "char \<Rightarrow> bool" where
  "is_blank c \<longleftrightarrow> c = CHR '' '' \<or> c = CHR 0x09"

definition trim :: "string \<Rightarrow> string" where
  "trim s = rtrim is_blank (dropWhile is_blank s)"

text \<open>\<^verbatim>\<open>key = value\<close>: the texts before and after the first equals sign.\<close>

definition split_eq :: "string \<Rightarrow> (string \<times> string) option" where
  "split_eq s = (if CHR ''='' \<in> set s
     then Some (takeWhile (\<lambda>c. c \<noteq> CHR ''='') s, tl (dropWhile (\<lambda>c. c \<noteq> CHR ''='') s)) else None)"

section \<open>Rule levels\<close>

text \<open>
  Whether the text is valid, and the minimum, maximum and negation as they are left: also an invalid
  text may have set some of them.
\<close>

definition parse_rule_levels :: "string \<Rightarrow> bool \<times> int \<times> int \<times> bool" where
  "parse_rule_levels part =
     (let negate = (part \<noteq> [] \<and> hd part = CHR ''!'');
          body = (if negate then tl part else part)
      in if negate \<and> (body = [] \<or> hd body = CHR ''*'' \<or> CHR ''~'' \<in> set body) then (False, 0, 0, False)
         else if body = ''*'' then (True, 0, 5, negate)
         else if CHR ''~'' \<notin> set body
              then (case parse_level body of None \<Rightarrow> (False, 0, 0, negate) | Some l \<Rightarrow> (True, l, l, negate))
         else let lo = takeWhile (\<lambda>c. c \<noteq> CHR ''~'') body in
              if length lo \<ge> HPULOGC_MAX_NAME_LEN then (False, 0, 0, negate)
              else case parse_level lo of
                     None \<Rightarrow> (False, 0, 0, negate)
                   | Some l \<Rightarrow>
                       (case parse_level (tl (dropWhile (\<lambda>c. c \<noteq> CHR ''~'') body)) of
                          None \<Rightarrow> (False, l, 0, negate) | Some h \<Rightarrow> (True, l, h, negate)))"

section \<open>Case folding\<close>

lemma eqcase_refl [simp]: "eqcase s s"
  by (simp add: eqcase_def)

lemma eqcase_sym: "eqcase a b \<longleftrightarrow> eqcase b a"
  by (auto simp: eqcase_def)

lemma eqcase_trans: "eqcase a b \<Longrightarrow> eqcase b c \<Longrightarrow> eqcase a c"
  by (simp add: eqcase_def)

lemma eqcase_Nil [simp]: "eqcase [] b \<longleftrightarrow> b = []"
  by (auto simp: eqcase_def)

lemma eq_lookup_in: "eq_lookup tbl v = Some x \<Longrightarrow> x \<in> snd ` set tbl"
  by (induction tbl) (auto simp: eq_lookup_def split: if_splits)

lemma parse_level_range: "parse_level v = Some x \<Longrightarrow> 0 \<le> x \<and> x \<le> 6"
  unfolding parse_level_def by (drule eq_lookup_in) (auto simp: level_names_def)

lemma parse_rule_levels_range:
  "parse_rule_levels part = (ok, lo, hi, neg) \<Longrightarrow>
    0 \<le> lo \<and> lo \<le> 6 \<and> 0 \<le> hi \<and> hi \<le> 6 \<and> (ok \<longrightarrow> neg \<longrightarrow> lo = hi)"
  by (auto simp: parse_rule_levels_def Let_def dest!: parse_level_range split: if_splits option.splits)

section \<open>Comma-separated lists\<close>

fun join_commas :: "string list \<Rightarrow> string" where
  "join_commas [] = []"
| "join_commas [p] = p"
| "join_commas (p # ps) = p @ CHR '','' # join_commas ps"

lemma csv_loop_ne [simp]: "csv_loop k q cur s \<noteq> []"
  by (induction k q cur s rule: csv_loop.induct) auto

lemma join_Cons: "ps \<noteq> [] \<Longrightarrow> join_commas (p # ps) = p @ CHR '','' # join_commas ps"
  by (cases ps) simp_all

lemma csv_loop_join: "join_commas (csv_loop k q cur s) = cur @ s"
  by (induction k q cur s rule: csv_loop.induct) (simp_all add: join_Cons)

lemma csv_loop_length: "length (csv_loop k q cur s) \<le> Suc k"
  by (induction k q cur s rule: csv_loop.induct) auto

text \<open>The archive naming of an entry that gives none.\<close>

definition HPU_ROTATE_DEFAULT_NAMING :: string where
  "HPU_ROTATE_DEFAULT_NAMING = ''{base}.{timestamp}.{index}.log''"

end
