(* ===== verification/WireFields.thy ===== *)
theory WireFields
  imports HpuPrelude
begin

text \<open>
  The structured-field wire format of \<^verbatim>\<open>src/format/format.c\<close>
  (\<^verbatim>\<open>hpu_fields_serialize\<close>, \<^verbatim>\<open>hpu_fields_iterate\<close>, \<^verbatim>\<open>hpu_fields_unpack\<close>). A
  region is a flat sequence of spans \<open>{u16 key_len; u8 type; u8 pad; u16 val_len; key; val}\<close>
  followed by zero bytes up to a multiple of eight. Scalars are written by \<^verbatim>\<open>memcpy\<close> in
  host order; the model fixes a little-endian host, as every platform of the build is.
\<close>

section \<open>Fields\<close>

definition HPULOGC_MAX_FIELDS :: nat where "HPULOGC_MAX_FIELDS = 16"
definition HPULOGC_MAX_FIELD_STR_LEN :: nat where "HPULOGC_MAX_FIELD_STR_LEN = 256"
definition HPULOGC_MAX_FIELD_KEY_LEN :: nat where "HPULOGC_MAX_FIELD_KEY_LEN = 64"

definition HPULOGC_FIELD_I64 :: nat where "HPULOGC_FIELD_I64 = 0"
definition HPULOGC_FIELD_U64 :: nat where "HPULOGC_FIELD_U64 = 1"
definition HPULOGC_FIELD_F64 :: nat where "HPULOGC_FIELD_F64 = 2"
definition HPULOGC_FIELD_BOOL :: nat where "HPULOGC_FIELD_BOOL = 3"
definition HPULOGC_FIELD_STR :: nat where "HPULOGC_FIELD_STR = 4"

lemmas field_tags = HPULOGC_FIELD_I64_def HPULOGC_FIELD_U64_def HPULOGC_FIELD_F64_def
  HPULOGC_FIELD_BOOL_def HPULOGC_FIELD_STR_def

lemmas field_limits = HPULOGC_MAX_FIELDS_def HPULOGC_MAX_FIELD_STR_LEN_def
  HPULOGC_MAX_FIELD_KEY_LEN_def

text \<open>
  The tagged union \<^verbatim>\<open>hpulogc_field_value_t\<close>. A \<^verbatim>\<open>double\<close> is its 64-bit pattern, a
  string is the bytes its pointer and length designate (\<open>None\<close>: NULL pointer), and
  \<open>FInvalid t\<close> is a value whose tag \<open>t\<close> is none of the five.
\<close>

datatype field_value =
  FI64 "64 word" | FU64 "64 word" | FF64 "64 word" | FBool "32 word"
| FStr "byte list option" | FInvalid nat

record hpulogc_field =
  fkey :: "string option"
  fvalue :: field_value

section \<open>Serialization\<close>

text \<open>
  The \<^verbatim>\<open>switch\<close> over the type tag: the tag, the value bytes copied to the region and how
  many fields it adds to the dropped counter; \<open>None\<close> for an invalid tag.
\<close>

fun encode_value :: "field_value \<Rightarrow> (nat \<times> byte list \<times> nat) option" where
  "encode_value (FI64 w) = Some (HPULOGC_FIELD_I64, le_enc 8 (unat w), 0)"
| "encode_value (FU64 w) = Some (HPULOGC_FIELD_U64, le_enc 8 (unat w), 0)"
| "encode_value (FF64 w) = Some (HPULOGC_FIELD_F64, le_enc 8 (unat w), 0)"
| "encode_value (FBool b) = Some (HPULOGC_FIELD_BOOL, take 1 (le_enc 4 (unat b)), 0)"
| "encode_value (FStr None) = Some (HPULOGC_FIELD_STR, [], 0)"
| "encode_value (FStr (Some s)) =
     (if length s > HPULOGC_MAX_FIELD_STR_LEN
      then Some (HPULOGC_FIELD_STR, take HPULOGC_MAX_FIELD_STR_LEN s, 1)
      else Some (HPULOGC_FIELD_STR, s, 0))"
| "encode_value (FInvalid t) = None"

definition encode_span :: "string \<Rightarrow> nat \<Rightarrow> byte list \<Rightarrow> byte list" where
  "encode_span key ty val =
     le_enc 2 (length key) @ [char_of ty, CHR 0x00] @ le_enc 2 (length val) @ key @ val"

record ser_state =
  s_out :: "byte list"
  s_cnt :: nat
  s_drop :: nat
  s_budget_hit :: bool

definition serialize_step :: "nat \<Rightarrow> nat \<Rightarrow> ser_state \<Rightarrow> hpulogc_field \<Rightarrow> ser_state" where
  "serialize_step budget cap st f =
     (if s_cnt st \<ge> HPULOGC_MAX_FIELDS \<or> s_budget_hit st then st\<lparr>s_drop := s_drop st + 1\<rparr>
      else case fkey f of
        None \<Rightarrow> st\<lparr>s_drop := s_drop st + 1\<rparr>
      | Some key \<Rightarrow>
          if length key > HPULOGC_MAX_FIELD_KEY_LEN then st\<lparr>s_drop := s_drop st + 1\<rparr>
          else case encode_value (fvalue f) of
            None \<Rightarrow> st\<lparr>s_drop := s_drop st + 1\<rparr>
          | Some (ty, val, trunc) \<Rightarrow>
              let need = 6 + length key + length val
              in if length (s_out st) + need > budget \<or> length (s_out st) + need > cap
                 then st\<lparr>s_budget_hit := True, s_drop := s_drop st + trunc + 1\<rparr>
                 else st\<lparr>s_out := s_out st @ encode_span key ty val, s_cnt := s_cnt st + 1,
                         s_drop := s_drop st + trunc\<rparr>)"

function pad_region :: "nat \<Rightarrow> byte list \<Rightarrow> byte list" where
  "pad_region cap out =
     (if length out mod 8 \<noteq> 0 \<and> length out < cap then pad_region cap (out @ [CHR 0x00]) else out)"
  by pat_completeness auto
termination
  by (relation "measure (\<lambda>(cap, out). cap - length out)") auto

declare pad_region.simps [simp del]

definition serialize_loop :: "nat \<Rightarrow> nat \<Rightarrow> hpulogc_field list \<Rightarrow> ser_state" where
  "serialize_loop budget cap fs =
     foldl (serialize_step budget cap)
       \<lparr>s_out = [], s_cnt = 0, s_drop = 0, s_budget_hit = False\<rparr> fs"

text \<open>
  \<open>Inr (region, field count, dropped)\<close>, or the error code. A NULL field array behaves as
  the empty list; \<open>out = NULL\<close> is \<open>has_out = False\<close>.
\<close>

definition hpu_fields_serialize ::
  "hpulogc_field list \<Rightarrow> nat \<Rightarrow> bool \<Rightarrow> nat \<Rightarrow> int + (byte list \<times> nat \<times> nat)" where
  "hpu_fields_serialize fs budget has_out cap =
     (if \<not> has_out \<or> cap = 0 then Inl HPULOGC_ERR_INVALID_ARG
      else let st = serialize_loop budget cap fs
           in Inr (pad_region cap (s_out st), s_cnt st, s_drop st))"

section \<open>Reading a region\<close>

definition rd_u16 :: "byte list \<Rightarrow> nat \<Rightarrow> nat" where
  "rd_u16 wire off = le_dec (bslice off 2 wire)"

definition rd_u8 :: "byte list \<Rightarrow> nat \<Rightarrow> nat" where
  "rd_u8 wire off = le_dec (bslice off 1 wire)"

text \<open>
  The visitor gets the key bytes, the type tag and the value bytes; it returns whether to
  stop, and its new state. The region length is \<open>length wire\<close>; NULL is the empty region.
\<close>

type_synonym 'u fields_iter_cb = "'u \<Rightarrow> byte list \<Rightarrow> nat \<Rightarrow> byte list \<Rightarrow> bool \<times> 'u"

fun iterate_loop :: "'u fields_iter_cb \<Rightarrow> byte list \<Rightarrow> nat \<Rightarrow> nat \<Rightarrow> 'u \<Rightarrow> 'u" where
  "iterate_loop cb wire 0 off ud = ud"
| "iterate_loop cb wire (Suc i) off ud =
     (if off + 6 > length wire then ud
      else let key_len = rd_u16 wire off; ty = rd_u8 wire (off + 2);
               val_len = rd_u16 wire (off + 4); off' = off + 6
           in if off' + key_len + val_len > length wire then ud
              else case cb ud (bslice off' key_len wire) ty (bslice (off' + key_len) val_len wire) of
                     (stop, ud') \<Rightarrow>
                       if stop then ud'
                       else iterate_loop cb wire i (off' + key_len + val_len) ud')"

definition hpu_fields_iterate :: "byte list \<Rightarrow> nat \<Rightarrow> 'u fields_iter_cb \<Rightarrow> 'u \<Rightarrow> 'u" where
  "hpu_fields_iterate wire count cb ud = (if wire = [] then ud else iterate_loop cb wire count 0 ud)"

text \<open>
  An unpacked field: the key is a pointer into the region (an offset; the length is not
  kept), a string value is a borrowed offset and length, a scalar is decoded from the
  zeroed 16-byte union the value bytes were copied over.
\<close>

datatype unpacked_value =
  UI64 "64 word" | UU64 "64 word" | UF64 "64 word" | UBool "32 word" | UStr nat nat | UOther nat

definition union_bytes :: "byte list \<Rightarrow> byte list" where
  "union_bytes val = val @ replicate (16 - length val) (CHR 0x00)"

definition decode_value :: "nat \<Rightarrow> byte list \<Rightarrow> nat \<Rightarrow> nat \<Rightarrow> unpacked_value" where
  "decode_value ty wire off val_len =
     (let u = union_bytes (bslice off val_len wire)
      in if ty = HPULOGC_FIELD_STR then UStr off val_len
         else if ty = HPULOGC_FIELD_I64 then UI64 (of_nat (le_dec (take 8 u)))
         else if ty = HPULOGC_FIELD_U64 then UU64 (of_nat (le_dec (take 8 u)))
         else if ty = HPULOGC_FIELD_F64 then UF64 (of_nat (le_dec (take 8 u)))
         else if ty = HPULOGC_FIELD_BOOL then UBool (of_nat (le_dec (take 4 u)))
         else UOther ty)"

fun unpack_loop :: "byte list \<Rightarrow> nat \<Rightarrow> nat \<Rightarrow> nat \<Rightarrow> (nat \<times> unpacked_value) list" where
  "unpack_loop wire 0 room off = []"
| "unpack_loop wire (Suc i) room off =
     (if room = 0 \<or> off + 6 > length wire then []
      else let key_len = rd_u16 wire off; ty = rd_u8 wire (off + 2);
               val_len = rd_u16 wire (off + 4); off' = off + 6
           in if off' + key_len + val_len > length wire then []
              else (off', decode_value ty wire (off' + key_len) val_len)
                   # unpack_loop wire i (room - 1) (off' + key_len + val_len))"

definition hpu_fields_unpack :: "byte list \<Rightarrow> nat \<Rightarrow> nat \<Rightarrow> (nat \<times> unpacked_value) list" where
  "hpu_fields_unpack wire count max_out =
     (if wire = [] then [] else unpack_loop wire count max_out 0)"

section \<open>The spans of a region\<close>

text \<open>
  The reference all readers are compared with: the spans (key offset, key length, tag,
  value length) of a region, up to the first one that does not fit.
\<close>

fun spans :: "byte list \<Rightarrow> nat \<Rightarrow> nat \<Rightarrow> (nat \<times> nat \<times> nat \<times> nat) list" where
  "spans wire 0 off = []"
| "spans wire (Suc i) off =
     (if off + 6 > length wire
         \<or> off + 6 + rd_u16 wire off + rd_u16 wire (off + 4) > length wire then []
      else (off + 6, rd_u16 wire off, rd_u8 wire (off + 2), rd_u16 wire (off + 4))
           # spans wire i (off + 6 + rd_u16 wire off + rd_u16 wire (off + 4)))"

text \<open>A triple (key, tag, value bytes) that one span can carry.\<close>

definition span_ok :: "string \<times> nat \<times> byte list \<Rightarrow> bool" where
  "span_ok = (\<lambda>(k, t, v). length k < 65536 \<and> t < 256 \<and> length v < 65536)"

definition enc :: "string \<times> nat \<times> byte list \<Rightarrow> byte list" where
  "enc = (\<lambda>(k, t, v). encode_span k t v)"

lemma length_encode_span [simp]: "length (encode_span k t v) = 6 + length k + length v"
  by (simp add: encode_span_def)

lemma bslice_append_right: "bslice (length pre + i) n (pre @ xs) = bslice i n xs"
  by (simp add: bslice_def)

lemma bslice_append_right0: "bslice (length pre) n (pre @ xs) = take n xs"
  by (simp add: bslice_def)

lemma le_enc_2: "le_enc 2 n = [char_of n, char_of (n div 256)]"
  by (simp add: numeral_2_eq_2)

lemma rd_at_span:
  assumes "span_ok (k, t, v)"
  shows "rd_u16 (pre @ encode_span k t v @ post) (length pre) = length k"
    and "rd_u8 (pre @ encode_span k t v @ post) (length pre + 2) = t"
    and "rd_u16 (pre @ encode_span k t v @ post) (length pre + 4) = length v"
proof -
  have "length k < 256 ^ 2" "t < 256" "length v < 256 ^ 2"
    using assms by (auto simp: span_ok_def)
  then have "le_dec (le_enc 2 (length k)) = length k" "le_dec [char_of t] = t"
    "le_dec (le_enc 2 (length v)) = length v"
    by (simp_all only: le_dec_enc_small) simp
  then show "rd_u16 (pre @ encode_span k t v @ post) (length pre) = length k"
    and "rd_u8 (pre @ encode_span k t v @ post) (length pre + 2) = t"
    and "rd_u16 (pre @ encode_span k t v @ post) (length pre + 4) = length v"
    by (simp_all add: rd_u16_def rd_u8_def encode_span_def bslice_def le_enc_2)
qed

lemma bytes_at_span:
  shows "bslice (length pre + 6) (length k) (pre @ encode_span k t v @ post) = k"
    and "bslice (length pre + 6 + length k) (length v) (pre @ encode_span k t v @ post) = v"
proof -
  define h where "h = le_enc 2 (length k) @ [char_of t, CHR 0x00] @ le_enc 2 (length v)"
  have h: "length h = 6" by (simp add: h_def)
  have 1: "pre @ encode_span k t v @ post = (pre @ h) @ (k @ v @ post)"
    and 2: "pre @ encode_span k t v @ post = (pre @ h @ k) @ (v @ post)"
    by (simp_all add: encode_span_def h_def)
  show "bslice (length pre + 6) (length k) (pre @ encode_span k t v @ post) = k"
    using bslice_append_right0 [of "pre @ h" "length k" "k @ v @ post"] unfolding 1 by (simp add: h)
  show "bslice (length pre + 6 + length k) (length v) (pre @ encode_span k t v @ post) = v"
    using bslice_append_right0 [of "pre @ h @ k" "length v" "v @ post"] unfolding 2
    by (simp add: h add.assoc)
qed

lemma span_fits:
  "length pre + 6 + length k + length v \<le> length (pre @ encode_span k t v @ post)"
  by simp

fun visit :: "'u fields_iter_cb \<Rightarrow> (string \<times> nat \<times> byte list) list \<Rightarrow> 'u \<Rightarrow> 'u" where
  "visit cb [] ud = ud"
| "visit cb ((k, t, v) # ts) ud =
     (case cb ud k t v of (stop, ud') \<Rightarrow> if stop then ud' else visit cb ts ud')"

lemma iterate_region:
  "list_all span_ok ts \<Longrightarrow> n = length pre \<Longrightarrow>
     iterate_loop cb (pre @ concat (map enc ts) @ post) (length ts) n ud = visit cb ts ud"
proof (induction ts arbitrary: pre n ud)
  case Nil
  then show ?case by simp
next
  case (Cons x ts)
  obtain k t v where x: "x = (k, t, v)" by (cases x)
  let ?w = "pre @ encode_span k t v @ (concat (map enc ts) @ post)"
  have ok: "span_ok (k, t, v)" using Cons.prems x by simp
  have w: "pre @ concat (map enc (x # ts)) @ post = ?w" by (simp add: x enc_def)
  have ih: "iterate_loop cb ?w (length ts) (length pre + 6 + length k + length v) ud' = visit cb ts ud'" for ud'
    using Cons.IH [of "length pre + 6 + length k + length v" "pre @ encode_span k t v" ud'] Cons.prems by simp
  show ?case
    unfolding w using Cons.prems(2) x
    by (simp add: Let_def rd_at_span [OF ok] bytes_at_span ih del: add_2_eq_Suc' split: prod.split)
qed

lemma unpack_region:
  "list_all span_ok ts \<Longrightarrow> n = length pre \<Longrightarrow> length ts \<le> room \<Longrightarrow>
     unpack_loop (pre @ concat (map enc ts) @ post) (length ts) room n
     = map (\<lambda>(ko, kl, t, vl). (ko, decode_value t (pre @ concat (map enc ts) @ post) (ko + kl) vl))
         (spans (pre @ concat (map enc ts) @ post) (length ts) n)"
proof (induction ts arbitrary: pre n room)
  case Nil
  then show ?case by simp
next
  case (Cons x ts)
  obtain k t v where x: "x = (k, t, v)" by (cases x)
  let ?w = "pre @ encode_span k t v @ (concat (map enc ts) @ post)"
  have ok: "span_ok (k, t, v)" using Cons.prems x by simp
  have w: "pre @ concat (map enc (x # ts)) @ post = ?w" by (simp add: x enc_def)
  have ih: "unpack_loop ?w (length ts) (room - 1) (length pre + 6 + length k + length v)
      = map (\<lambda>(ko, kl, t, vl). (ko, decode_value t ?w (ko + kl) vl))
          (spans ?w (length ts) (length pre + 6 + length k + length v))"
    using Cons.IH [of "length pre + 6 + length k + length v" "pre @ encode_span k t v" "room - 1"] Cons.prems
    by simp
  show ?case
    unfolding w using Cons.prems(2,3) x ih
    by (simp add: Let_def rd_at_span [OF ok] del: add_2_eq_Suc')
qed

fun span_list :: "nat \<Rightarrow> (string \<times> nat \<times> byte list) list \<Rightarrow> (nat \<times> nat \<times> nat \<times> nat) list" where
  "span_list off [] = []"
| "span_list off ((k, t, v) # ts) =
     (off + 6, length k, t, length v) # span_list (off + 6 + length k + length v) ts"

lemma spans_region:
  "list_all span_ok ts \<Longrightarrow> n = length pre \<Longrightarrow>
     spans (pre @ concat (map enc ts) @ post) (length ts) n = span_list n ts"
proof (induction ts arbitrary: pre n)
  case Nil
  then show ?case by simp
next
  case (Cons x ts)
  obtain k t v where x: "x = (k, t, v)" by (cases x)
  let ?w = "pre @ encode_span k t v @ (concat (map enc ts) @ post)"
  have ok: "span_ok (k, t, v)" using Cons.prems x by simp
  have w: "pre @ concat (map enc (x # ts)) @ post = ?w" by (simp add: x enc_def)
  have ih: "spans ?w (length ts) (length pre + 6 + length k + length v)
      = span_list (length pre + 6 + length k + length v) ts"
    using Cons.IH [of "length pre + 6 + length k + length v" "pre @ encode_span k t v"] Cons.prems
    by simp
  show ?case
    unfolding w using Cons.prems(2) x ih
    by (simp add: rd_at_span [OF ok] del: add_2_eq_Suc')
qed

section \<open>What serialization keeps\<close>

text \<open>The field as the wire can carry it: \<open>None\<close> where the code drops it whatever the budget.\<close>

definition candidate :: "hpulogc_field \<Rightarrow> (string \<times> nat \<times> byte list) option" where
  "candidate f =
     (case fkey f of None \<Rightarrow> None
      | Some k \<Rightarrow>
          if length k > HPULOGC_MAX_FIELD_KEY_LEN then None
          else map_option (\<lambda>(t, v, _). (k, t, v)) (encode_value (fvalue f)))"

definition candidates :: "hpulogc_field list \<Rightarrow> (string \<times> nat \<times> byte list) list" where
  "candidates fs = concat (map (\<lambda>f. case candidate f of None \<Rightarrow> [] | Some c \<Rightarrow> [c]) fs)"

lemma encode_value_bounds:
  "encode_value v = Some (t, bs, d) \<Longrightarrow> t < 5 \<and> length bs \<le> 256 \<and> d \<le> 1"
  by (cases v rule: encode_value.cases) (auto simp: field_tags field_limits split: if_splits)

lemma candidate_ok: "candidate f = Some c \<Longrightarrow> span_ok c \<and> length (enc c) \<le> 326"
  using encode_value_bounds
  by (fastforce simp: candidate_def span_ok_def enc_def field_limits split: option.splits if_splits)

lemma candidate_SomeE:
  assumes "candidate f \<noteq> None"
  obtains k t v d where "candidate f = Some (k, t, v)" "fkey f = Some k"
    "encode_value (fvalue f) = Some (t, v, d)" "length k \<le> HPULOGC_MAX_FIELD_KEY_LEN"
proof -
  from assms obtain k where k: "fkey f = Some k" "length k \<le> HPULOGC_MAX_FIELD_KEY_LEN"
    by (auto simp: candidate_def split: option.splits if_splits)
  with assms obtain t v d where "encode_value (fvalue f) = Some (t, v, d)"
    by (cases "encode_value (fvalue f)") (auto simp: candidate_def)
  with k that show thesis by (simp add: candidate_def)
qed

lemma candidates_ok: "list_all span_ok (candidates fs)"
  by (auto simp: candidates_def list_all_iff split: option.splits dest!: sym [of "Some _"] candidate_ok)

lemma candidates_snoc [simp]:
  "candidates (fs @ [f]) = candidates fs @ (case candidate f of None \<Rightarrow> [] | Some c \<Rightarrow> [c])"
  by (simp add: candidates_def)

definition ser_inv :: "nat \<Rightarrow> nat \<Rightarrow> hpulogc_field list \<Rightarrow> ser_state \<Rightarrow> bool" where
  "ser_inv budget cap fs st \<longleftrightarrow>
     s_out st = concat (map enc (take (s_cnt st) (candidates fs)))
     \<and> s_cnt st \<le> length (candidates fs) \<and> s_cnt st \<le> HPULOGC_MAX_FIELDS
     \<and> length (s_out st) \<le> budget \<and> length (s_out st) \<le> cap
     \<and> (s_cnt st < length (candidates fs) \<longrightarrow>
          s_cnt st = HPULOGC_MAX_FIELDS
          \<or> s_budget_hit st \<and> length (concat (map enc (take (Suc (s_cnt st)) (candidates fs)))) > min budget cap)
     \<and> (s_budget_hit st \<longrightarrow> s_cnt st < length (candidates fs))
     \<and> length fs \<le> s_cnt st + s_drop st"

lemma ser_inv_step:
  assumes "ser_inv budget cap fs st"
  shows "ser_inv budget cap (fs @ [f]) (serialize_step budget cap st f)"
proof (cases "s_cnt st \<ge> HPULOGC_MAX_FIELDS \<or> s_budget_hit st")
  case True
  then show ?thesis
    using assms by (auto simp: ser_inv_def serialize_step_def split: option.splits)
next
  case False
  then have all: "s_cnt st = length (candidates fs)"
    using assms by (auto simp: ser_inv_def)
  then have out: "s_out st = concat (map enc (candidates fs))"
    using assms by (auto simp: ser_inv_def)
  show ?thesis
  proof (cases "candidate f")
    case None
    then show ?thesis
      using False assms
      by (auto simp: ser_inv_def serialize_step_def candidate_def split: option.splits)
  next
    case (Some c)
    then obtain k t v d where c: "c = (k, t, v)" "fkey f = Some k"
      "length k \<le> HPULOGC_MAX_FIELD_KEY_LEN" "encode_value (fvalue f) = Some (t, v, d)"
      by (auto simp: candidate_def split: option.splits if_splits)
    then show ?thesis
      using False assms Some all out
      by (auto simp: ser_inv_def serialize_step_def Let_def enc_def min_def)
  qed
qed

lemma ser_inv_loop: "ser_inv budget cap fs (serialize_loop budget cap fs)"
proof (induction fs rule: rev_induct)
  case Nil
  then show ?case by (simp add: ser_inv_def serialize_loop_def candidates_def)
next
  case (snoc f fs)
  then show ?case using ser_inv_step by (simp add: serialize_loop_def)
qed

definition pad_count :: "nat \<Rightarrow> nat" where
  "pad_count n = (8 - n mod 8) mod 8"

lemma pad_count_0 [simp]: "n mod 8 = 0 \<Longrightarrow> pad_count n = 0"
  by (simp add: pad_count_def)

lemma pad_count_Suc:
  assumes "n mod 8 \<noteq> 0"
  shows "pad_count n = Suc (pad_count (Suc n))"
proof -
  obtain m where m: "n mod 8 = m" "m < 8" "m \<noteq> 0" using assms by fastforce
  then show ?thesis by (auto simp: pad_count_def mod_Suc)
qed

lemma pad_count_less: "pad_count n < 8"
  by (simp add: pad_count_def)

lemma pad_count_dvd: "8 dvd n + pad_count n"
proof (cases "n mod 8 = 0")
  case True
  then show ?thesis by (simp add: mod_eq_0_iff_dvd)
next
  case False
  then obtain m where m: "n mod 8 = m" "m < 8" "m \<noteq> 0" by fastforce
  moreover have "n = 8 * (n div 8) + n mod 8" by simp
  ultimately have "n + pad_count n = 8 * (n div 8) + 8"
    unfolding pad_count_def m(1) using m(2,3) by simp
  then show ?thesis by simp
qed

lemma pad_count_fits: "8 dvd cap \<Longrightarrow> n \<le> cap \<Longrightarrow> n + pad_count n \<le> cap"
proof -
  assume "8 dvd cap" "n \<le> cap"
  then obtain c where c: "cap = 8 * c" by (auto elim: dvdE)
  obtain m where m: "n + pad_count n = 8 * m" using pad_count_dvd by (auto elim: dvdE)
  with \<open>n \<le> cap\<close> c pad_count_less [of n] have "8 * m < 8 * c + 8" by linarith
  then have "m \<le> c" by simp
  then show ?thesis using m c by simp
qed

lemma pad_region_eq:
  "pad_region cap out
   = out @ replicate (min (pad_count (length out)) (cap - length out)) (CHR 0x00)"
proof (induction cap out rule: pad_region.induct)
  case (1 cap out)
  show ?case
  proof (cases "length out mod 8 \<noteq> 0 \<and> length out < cap")
    case True
    then have "cap - length out = Suc (cap - Suc (length out))" by linarith
    with True have "min (pad_count (length out)) (cap - length out)
        = Suc (min (pad_count (Suc (length out))) (cap - Suc (length out)))"
      using pad_count_Suc [of "length out"] by simp
    then show ?thesis
      using True 1 by (subst pad_region.simps) simp
  next
    case False
    then show ?thesis
      by (subst pad_region.simps) auto
  qed
qed

lemma pad_to_eight:
  "8 dvd cap \<Longrightarrow> n \<le> cap \<Longrightarrow> 8 dvd n + min (pad_count n) (cap - n)"
  using pad_count_fits [of cap n] pad_count_dvd [of n] by (simp add: min_absorb1)

section \<open>Decoding what was encoded\<close>

lemma union_scalar:
  "n \<le> 16 \<Longrightarrow> length bs = n \<Longrightarrow> take n (union_bytes bs) = bs"
  by (simp add: union_bytes_def)

lemma le_dec_append: "le_dec (a @ b) = le_dec a + 256 ^ length a * le_dec b"
  by (induction a) (simp_all add: algebra_simps)

lemma le_dec_zeros [simp]: "le_dec (replicate n (CHR 0x00)) = 0"
  by (induction n) simp_all

lemma word64_roundtrip: "of_nat (le_dec (take 8 (union_bytes (le_enc 8 (unat (w :: 64 word)))))) = w"
proof -
  have "unat w < 256 ^ 8" using unsigned_less [of w] by simp
  then have "le_dec (le_enc 8 (unat w)) = unat w" by (rule le_dec_enc_small)
  then show ?thesis by (simp add: union_scalar)
qed

lemma bool_byte_decoded:
  "le_dec (take 4 (union_bytes (take (Suc 0) (le_enc 4 n)))) = n mod 256"
proof -
  have "le_enc (Suc 3) n = char_of n # le_enc 3 (n div 256)" by (rule le_enc.simps(2))
  then show ?thesis by (simp add: union_bytes_def take_Cons')
qed

text \<open>What a decoded field must be for the field it came from.\<close>

definition value_matches :: "byte list \<Rightarrow> field_value \<Rightarrow> unpacked_value \<Rightarrow> bool" where
  "value_matches wire v u =
     (case v of
        FI64 w \<Rightarrow> u = UI64 w | FU64 w \<Rightarrow> u = UU64 w | FF64 w \<Rightarrow> u = UF64 w
      | FBool b \<Rightarrow> u = UBool (of_nat (unat b mod 256))
      | FStr s \<Rightarrow> (case u of UStr off n \<Rightarrow>
            bslice off n wire = take HPULOGC_MAX_FIELD_STR_LEN (case s of None \<Rightarrow> [] | Some x \<Rightarrow> x)
          | _ \<Rightarrow> False)
      | FInvalid t \<Rightarrow> False)"

definition field_matches :: "byte list \<Rightarrow> hpulogc_field \<Rightarrow> nat \<times> unpacked_value \<Rightarrow> bool" where
  "field_matches wire f = (\<lambda>(ko, u).
     (case fkey f of None \<Rightarrow> False | Some k \<Rightarrow> bslice ko (length k) wire = k)
     \<and> value_matches wire (fvalue f) u)"

lemma decode_encoded:
  assumes "encode_value v = Some (t, bs, d)" "bslice off (length bs) wire = bs"
  shows "value_matches wire v (decode_value t wire off (length bs))"
  using assms
  by (cases v rule: encode_value.cases)
    (auto simp: value_matches_def decode_value_def Let_def field_tags word64_roundtrip
      bool_byte_decoded split: if_splits)

definition keepable :: "hpulogc_field list \<Rightarrow> hpulogc_field list" where
  "keepable fs = filter (\<lambda>f. candidate f \<noteq> None) fs"

lemma candidates_keepable: "candidates fs = map (\<lambda>f. the (candidate f)) (keepable fs)"
  by (induction fs) (auto simp: candidates_def keepable_def split: option.splits)

lemma matches_region:
  "\<forall>f \<in> set ks. candidate f \<noteq> None \<Longrightarrow> ts = map (\<lambda>f. the (candidate f)) ks \<Longrightarrow>
     w = pre @ concat (map enc ts) @ post \<Longrightarrow>
     list_all2 (field_matches w) ks
       (map (\<lambda>(ko, kl, t, vl). (ko, decode_value t w (ko + kl) vl)) (span_list (length pre) ts))"
proof (induction ks arbitrary: pre ts)
  case Nil
  then show ?case by simp
next
  case (Cons f ks)
  have "candidate f \<noteq> None" using Cons.prems(1) by simp
  then obtain k t v d where f: "candidate f = Some (k, t, v)" "fkey f = Some k"
    "encode_value (fvalue f) = Some (t, v, d)" "length k \<le> HPULOGC_MAX_FIELD_KEY_LEN"
    by (rule candidate_SomeE)
  let ?ts = "map (\<lambda>f. the (candidate f)) ks"
  have w: "w = pre @ encode_span k t v @ (concat (map enc ?ts) @ post)"
    using Cons.prems f by (simp add: enc_def)
  have head: "field_matches w f (length pre + 6, decode_value t w (length pre + 6 + length k) (length v))"
    using f decode_encoded [OF f(3), of "length pre + 6 + length k" w] unfolding w
    by (simp only: field_matches_def bytes_at_span prod.case option.case simp_thms)
  have "list_all2 (field_matches w) ks
      (map (\<lambda>(ko, kl, t, vl). (ko, decode_value t w (ko + kl) vl))
        (span_list (length (pre @ encode_span k t v)) ?ts))"
    by (rule Cons.IH) (use Cons.prems w in auto)
  then show ?case using head Cons.prems(2) f by (simp add: add.assoc)
qed

lemma keepable_prefix_matches:
  assumes "w = concat (map enc (take n (candidates fs))) @ post"
  shows "list_all2 (field_matches w) (take n (keepable fs))
     (unpack_loop w (length (take n (candidates fs))) (length (take n (candidates fs))) 0)"
proof -
  let ?ts = "take n (candidates fs)"
  have ok: "list_all span_ok ?ts"
    using candidates_ok [of fs] by (auto simp: list_all_iff dest: in_set_takeD)
  have "unpack_loop w (length ?ts) (length ?ts) 0
      = map (\<lambda>(ko, kl, t, vl). (ko, decode_value t w (ko + kl) vl)) (spans w (length ?ts) 0)"
    using unpack_region [OF ok, of 0 "[]"] assms by simp
  also have "spans w (length ?ts) 0 = span_list 0 ?ts"
    using spans_region [OF ok, of 0 "[]"] assms by simp
  finally have "unpack_loop w (length ?ts) (length ?ts) 0
      = map (\<lambda>(ko, kl, t, vl). (ko, decode_value t w (ko + kl) vl)) (span_list (length ([]::byte list)) ?ts)"
    by simp
  moreover have "\<forall>f \<in> set (take n (keepable fs)). candidate f \<noteq> None"
    by (auto simp: keepable_def dest: in_set_takeD)
  moreover have "?ts = map (\<lambda>f. the (candidate f)) (take n (keepable fs))"
    by (simp add: candidates_keepable take_map)
  ultimately show ?thesis
    using matches_region [of "take n (keepable fs)" ?ts w "[]" post] assms by simp
qed

lemma serialize_image:
  assumes "hpu_fields_serialize fs budget has_out cap = Inr (wire, cnt, lost)"
  obtains z where "z < 8" "wire = concat (map enc (take cnt (candidates fs))) @ replicate z (CHR 0x00)"
    "cnt \<le> length (candidates fs)" "cnt = s_cnt (serialize_loop budget cap fs)"
    "lost = s_drop (serialize_loop budget cap fs)"
    "length (concat (map enc (take cnt (candidates fs)))) \<le> cap"
    "z = min (pad_count (length (concat (map enc (take cnt (candidates fs))))))
           (cap - length (concat (map enc (take cnt (candidates fs)))))"
proof -
  let ?st = "serialize_loop budget cap fs"
  let ?out = "s_out ?st"
  let ?z = "min (pad_count (length ?out)) (cap - length ?out)"
  from assms have eqs: "wire = pad_region cap ?out" "cnt = s_cnt ?st" "lost = s_drop ?st"
    by (auto simp: hpu_fields_serialize_def Let_def split: if_splits)
  have inv: "ser_inv budget cap fs ?st" by (rule ser_inv_loop)
  then have out: "?out = concat (map enc (take cnt (candidates fs)))" "length ?out \<le> cap"
    "cnt \<le> length (candidates fs)"
    unfolding ser_inv_def eqs by auto
  have "wire = ?out @ replicate ?z (CHR 0x00)"
    unfolding eqs by (rule pad_region_eq)
  moreover have "?z < 8" using pad_count_less [of "length ?out"] by simp
  ultimately show thesis using that [of ?z] out eqs(2,3) by simp
qed

section \<open>Properties\<close>

text \<open>
  C22. The budget rules. Whatever the fields, a successful serialization keeps a prefix of
  the fields that the wire can carry, never more than 16 and never more bytes than the budget and the
  buffer allow, and the longest such prefix: the next field would break one of the three limits. It pads to
  a multiple of eight when the buffer is one, and reports a count that with the dropped counter accounts
  for every input field.
\<close>

theorem serialize_budget:
  assumes "hpu_fields_serialize fs budget has_out cap = Inr (wire, cnt, lost)"
  shows "(\<exists>z < 8. wire = concat (map enc (take cnt (candidates fs))) @ replicate z (CHR 0x00))
    \<and> cnt \<le> HPULOGC_MAX_FIELDS \<and> cnt \<le> length (candidates fs) \<and> length wire \<le> cap
    \<and> (8 dvd cap \<longrightarrow> 8 dvd length wire)
    \<and> length fs \<le> cnt + lost
    \<and> length (concat (map enc (take cnt (candidates fs)))) \<le> min budget cap
    \<and> (cnt < length (candidates fs) \<longrightarrow>
        cnt = HPULOGC_MAX_FIELDS \<or> length (concat (map enc (take (Suc cnt) (candidates fs)))) > min budget cap)"
proof -
  let ?ts = "take cnt (candidates fs)"
  from assms obtain z where z: "z < 8" "wire = concat (map enc ?ts) @ replicate z (CHR 0x00)"
    and c: "cnt = s_cnt (serialize_loop budget cap fs)" "lost = s_drop (serialize_loop budget cap fs)"
    and out: "length (concat (map enc ?ts)) \<le> cap"
    and zd: "z = min (pad_count (length (concat (map enc ?ts)))) (cap - length (concat (map enc ?ts)))"
    by (rule serialize_image)
  have inv: "ser_inv budget cap fs (serialize_loop budget cap fs)" by (rule ser_inv_loop)
  have "\<exists>z < 8. wire = concat (map enc ?ts) @ replicate z (CHR 0x00)"
    using z by blast
  moreover have "length wire \<le> cap" using z(2) out zd by simp
  moreover have "8 dvd length wire" if "8 dvd cap"
    using pad_to_eight [OF that out] z(2) zd by simp
  moreover have "length (concat (map enc ?ts)) \<le> min budget cap"
    using inv unfolding ser_inv_def c(1) by (metis min.boundedI)
  moreover have "cnt < length (candidates fs) \<longrightarrow>
      cnt = HPULOGC_MAX_FIELDS \<or> length (concat (map enc (take (Suc cnt) (candidates fs)))) > min budget cap"
    using inv unfolding ser_inv_def c(1) by blast
  ultimately show ?thesis
    using inv unfolding ser_inv_def c by blast
qed

theorem serialize_budget_witness:
  "hpu_fields_serialize [\<lparr>fkey = Some ''k'', fvalue = FStr (Some ''ab'')\<rparr>, \<lparr>fkey = None, fvalue = FI64 1\<rparr>]
      100 True 64
     = Inr (encode_span ''k'' 4 ''ab'' @ replicate 7 (CHR 0x00), 1, 1)
   \<and> 2 \<le> (1::nat) + 1 \<and> length (encode_span ''k'' 4 ''ab'' @ replicate 7 (CHR 0x00)) \<le> 64"
proof -
  have h: "hpu_fields_serialize [\<lparr>fkey = Some ''k'', fvalue = FStr (Some ''ab'')\<rparr>, \<lparr>fkey = None, fvalue = FI64 1\<rparr>]
      100 True 64 = Inr (encode_span ''k'' 4 ''ab'' @ replicate 7 (CHR 0x00), 1, 1)"
    by (simp add: hpu_fields_serialize_def serialize_loop_def serialize_step_def field_limits
        field_tags pad_region_eq pad_count_def)
  from serialize_budget [OF h] h show ?thesis by simp
qed

text \<open>
  Round trip through the visitor: iterating over a serialized region with the count the
  serializer reported calls the visitor once per kept field, in order, with the key, the
  type tag and the value bytes that were written, until the visitor asks to stop.
\<close>

theorem iterate_serialized:
  assumes "hpu_fields_serialize fs budget has_out cap = Inr (wire, cnt, lost)"
  shows "hpu_fields_iterate wire cnt cb ud = visit cb (take cnt (candidates fs)) ud"
proof -
  let ?ts = "take cnt (candidates fs)"
  from assms obtain z where
    w: "wire = concat (map enc ?ts) @ replicate z (CHR 0x00)" and c': "cnt \<le> length (candidates fs)"
    by (rule serialize_image)
  have c: "length ?ts = cnt" using c' by simp
  have "list_all span_ok ?ts"
    using candidates_ok [of fs] by (auto simp: list_all_iff dest: in_set_takeD)
  from iterate_region [OF this, of 0 "[]"] w c
  have "iterate_loop cb wire cnt 0 ud = visit cb ?ts ud" by simp
  moreover have "visit cb ?ts ud = ud" if "wire = []"
    using that w by (cases ?ts) (auto simp: enc_def encode_span_def numeral_2_eq_2 split: prod.splits)
  ultimately show ?thesis by (simp add: hpu_fields_iterate_def)
qed

theorem iterate_serialized_witness:
  "hpu_fields_iterate (encode_span ''k'' 4 ''ab'' @ replicate 7 (CHR 0x00)) 1
     (\<lambda>u k t v. (False, u @ [(k, t, v)])) [] = [(''k'', 4, ''ab'')]"
proof -
  have h: "hpu_fields_serialize [\<lparr>fkey = Some ''k'', fvalue = FStr (Some ''ab'')\<rparr>] 100 True 64
      = Inr (encode_span ''k'' 4 ''ab'' @ replicate 7 (CHR 0x00), 1, 0)"
    by (simp add: hpu_fields_serialize_def serialize_loop_def serialize_step_def field_limits
        field_tags pad_region_eq pad_count_def)
  from iterate_serialized [OF h, of "\<lambda>u k t v. (False, u @ [(k, t, v)])" "[]"]
  show ?thesis by (simp add: candidates_def candidate_def field_limits field_tags)
qed

text \<open>
  C23. Round trip through the field array: unpacking a serialized region (with room for the
  reported count) gives one entry per kept field, in order, whose key pointer leads to the
  key and whose value is the one serialized: scalars bit for bit, a boolean by its low
  byte, a string cut to 256 bytes.
\<close>

theorem unpack_serialized:
  assumes "hpu_fields_serialize fs budget has_out cap = Inr (wire, cnt, lost)"
  shows "list_all2 (field_matches wire) (take cnt (keepable fs)) (hpu_fields_unpack wire cnt cnt)"
proof -
  let ?ts = "take cnt (candidates fs)"
  from assms obtain z where
    w: "wire = concat (map enc ?ts) @ replicate z (CHR 0x00)" and c': "cnt \<le> length (candidates fs)"
    by (rule serialize_image)
  have c: "length ?ts = cnt" using c' by simp
  from keepable_prefix_matches [OF w] c
  have m: "list_all2 (field_matches wire) (take cnt (keepable fs)) (unpack_loop wire cnt cnt 0)"
    by simp
  show ?thesis
  proof (cases "wire = []")
    case True
    with w have "cnt = 0"
      using c by (cases ?ts) (auto simp: enc_def encode_span_def numeral_2_eq_2 split: prod.splits)
    then show ?thesis by (simp add: hpu_fields_unpack_def)
  next
    case False
    then show ?thesis using m by (simp add: hpu_fields_unpack_def)
  qed
qed

theorem unpack_serialized_witness:
  "list_all2 (field_matches (encode_span ''k'' 4 ''ab'' @ replicate 7 (CHR 0x00)))
     [\<lparr>fkey = Some ''k'', fvalue = FStr (Some ''ab'')\<rparr>]
     (hpu_fields_unpack (encode_span ''k'' 4 ''ab'' @ replicate 7 (CHR 0x00)) 1 1)"
proof -
  have h: "hpu_fields_serialize [\<lparr>fkey = Some ''k'', fvalue = FStr (Some ''ab'')\<rparr>] 100 True 64
      = Inr (encode_span ''k'' 4 ''ab'' @ replicate 7 (CHR 0x00), 1, 0)"
    by (simp add: hpu_fields_serialize_def serialize_loop_def serialize_step_def field_limits
        field_tags pad_region_eq pad_count_def)
  from unpack_serialized [OF h] show ?thesis by (simp add: keepable_def candidate_def field_limits field_tags)
qed

end
