(* ===== verification/FormatRender.thy ===== *)
theory FormatRender
  imports WireFields FormatCompile
begin

text \<open>
  Format templates of \<^verbatim>\<open>src/format/format.c\<close>, render side: the bounded line buffer, the
  injection and JSON escapes, the per-second time cache, structured fields, the
  width/precision modifiers and \<^verbatim>\<open>hpu_format_render\<close> with its truncation rule.

  Parameters of the model, in the environment record: the platform's time conversion
  (\<^verbatim>\<open>hpu_localtime\<close>), \<^verbatim>\<open>strftime\<close>, the \<^verbatim>\<open>%.17g\<close> rendering of a double, whether the
  build is for Windows, and the bytes that lie in memory after two buffers the code may read
  past (the time format and the field region).
\<close>

section \<open>Environment and record\<close>

datatype newline_style = NEWLINE_AUTO | NEWLINE_LF | NEWLINE_CRLF

record hpu_fmt_env =
  time_format :: "string option"
  use_utc :: bool
  ts_monotonic :: bool
  newline_style :: newline_style
  pid_fmt :: nat
  tid_fmt :: nat
  source_loc_enabled :: bool
  mono_base_us :: int
  pid :: int
  on_windows :: bool
  localtime :: "int \<Rightarrow> bool \<Rightarrow> hpu_tm"
  strftime :: "string \<Rightarrow> hpu_tm \<Rightarrow> string"
  fmt_g17 :: "nat \<Rightarrow> string"
  after_time_format :: "byte list"

record hpu_log_record =
  r_level :: int
  category :: "string option"
  r_file :: "string option"
  r_func :: "string option"
  r_line :: int
  msg :: string
  realtime_ns :: int
  mono_us :: int
  tid :: "64 word"
  fields_wire :: "byte list option"
  field_count :: nat
  after_wire :: "byte list"

section \<open>The bounded line buffer\<close>

record render_buf =
  rb_text :: string
  rb_limit :: nat
  rb_trunc :: bool

definition rb_append :: "render_buf \<Rightarrow> string \<Rightarrow> render_buf" where
  "rb_append b bytes =
     (let space = rb_limit b - length (rb_text b)
      in if length bytes > space
         then b\<lparr>rb_text := rb_text b @ take space bytes, rb_trunc := True\<rparr>
         else b\<lparr>rb_text := rb_text b @ bytes\<rparr>)"

definition rb_append_ch :: "render_buf \<Rightarrow> char \<Rightarrow> render_buf" where
  "rb_append_ch b c =
     (if length (rb_text b) < rb_limit b then b\<lparr>rb_text := rb_text b @ [c]\<rparr>
      else b\<lparr>rb_trunc := True\<rparr>)"

definition rb_append_num :: "render_buf \<Rightarrow> nat \<Rightarrow> bool \<Rightarrow> render_buf" where
  "rb_append_num b v hex_mode = rb_append b (if hex_mode then ''0x'' @ hex_digits v else dec_digits v)"

fun rb_append_escaped_injection :: "render_buf \<Rightarrow> string \<Rightarrow> render_buf" where
  "rb_append_escaped_injection b [] = b"
| "rb_append_escaped_injection b (c # cs) =
     rb_append_escaped_injection
       (if c = CHR 0x0A \<or> c = CHR 0x0D then rb_append b [CHR 0x5C, CHR ''n'']
        else if c = CHR 0x1B then rb_append b (CHR 0x5C # ''x1b'')
        else rb_append_ch b c) cs"

text \<open>\<^verbatim>\<open>\u%04x\<close> of a byte below 0x20.\<close>

definition u_escape :: "char \<Rightarrow> string" where
  "u_escape c = CHR 0x5C # ''u00'' @ [hex_digit (of_char c div 16), hex_digit (of_char c mod 16)]"

fun rb_append_escaped_json :: "render_buf \<Rightarrow> string \<Rightarrow> render_buf" where
  "rb_append_escaped_json b [] = b"
| "rb_append_escaped_json b (c # cs) =
     rb_append_escaped_json
       (if c = CHR 0x22 then rb_append b [CHR 0x5C, CHR 0x22]
        else if c = CHR 0x5C then rb_append b [CHR 0x5C, CHR 0x5C]
        else if c = CHR 0x0A then rb_append b [CHR 0x5C, CHR ''n'']
        else if c = CHR 0x0D then rb_append b [CHR 0x5C, CHR ''r'']
        else if c = CHR 0x09 then rb_append b [CHR 0x5C, CHR ''t'']
        else if c = CHR 0x08 then rb_append b [CHR 0x5C, CHR ''b'']
        else if c = CHR 0x0C then rb_append b [CHR 0x5C, CHR ''f'']
        else if of_char c < (0x20 :: nat) then rb_append b (u_escape c)
        else rb_append_ch b c) cs"

definition newline_bytes :: "hpu_fmt_env \<Rightarrow> string" where
  "newline_bytes env =
     (if newline_style env = NEWLINE_CRLF \<or> (on_windows env \<and> newline_style env = NEWLINE_AUTO)
      then [CHR 0x0D, CHR 0x0A] else [CHR 0x0A])"

section \<open>Time\<close>

text \<open>The digit \<open>1\<close> to \<open>6\<close> at the front of some bytes, or 0.\<close>

definition frac_digit :: "byte list \<Rightarrow> nat" where
  "frac_digit r =
     (case r of [] \<Rightarrow> 0
      | d # _ \<Rightarrow> if 49 \<le> (of_char d :: nat) \<and> of_char d \<le> (54 :: nat) then of_char d - 48 else 0)"

text \<open>
  The scan of the time format, over the memory from its first byte on (the format, its NUL
  and what follows): a percent sign always consumes two bytes, so one at the very end steps
  over the terminator. The result is the index and the number of digits of the fraction.
\<close>

fun find_frac_spec :: "byte list \<Rightarrow> nat \<Rightarrow> (nat \<times> nat) option" where
  "find_frac_spec [] idx = None"
| "find_frac_spec (c # r) idx =
     (if c = CHR 0x00 then None
      else if c = CHR ''%'' then
        (if take 1 r = ''%'' then find_frac_spec (drop 1 r) (idx + 2)
         else if take 1 r = ''f'' then Some (idx, 6)
         else if take 1 r = ''F'' \<and> frac_digit (drop 1 r) \<noteq> 0 then Some (idx, frac_digit (drop 1 r))
         else find_frac_spec (drop 1 r) (idx + 2))
      else find_frac_spec r (idx + 1))"

definition render_frac :: "render_buf \<Rightarrow> int \<Rightarrow> nat \<Rightarrow> render_buf" where
  "render_frac b sub_ns digits =
     rb_append b (dec_int_zero digits (c_div (c_div sub_ns 1000) (10 ^ (6 - digits))))"

record fmt_cache_slot =
  cached_sec :: int
  slot_prefix :: string
  slot_suffix :: string
  slot_valid :: bool

text \<open>Slot \<open>False\<close> is the local-time slot 0, slot \<open>True\<close> the UTC slot 1.\<close>

type_synonym hpu_fmt_cache = "bool \<Rightarrow> fmt_cache_slot"

definition hpu_fmt_cache_init :: hpu_fmt_cache where
  "hpu_fmt_cache_init = (\<lambda>_. \<lparr>cached_sec = 0, slot_prefix = [], slot_suffix = [], slot_valid = False\<rparr>)"

definition time_format_of :: "hpu_fmt_env \<Rightarrow> string" where
  "time_format_of env = (case time_format env of Some tf \<Rightarrow> tf | None \<Rightarrow> ''%Y-%m-%d %H:%M:%S.%f'')"

definition frac_of :: "hpu_fmt_env \<Rightarrow> (nat \<times> nat) option" where
  "frac_of env = find_frac_spec (time_format_of env @ CHR 0x00 # after_time_format env) 0"

text \<open>\<^verbatim>\<open>strftime\<close> into a 256-byte array: nothing when the text and its NUL do not fit.\<close>

definition strftime_256 :: "hpu_fmt_env \<Rightarrow> string \<Rightarrow> hpu_tm \<Rightarrow> string" where
  "strftime_256 env f tm =
     (let s = strftime env f tm in if length s < HPULOGC_MAX_FMT_LEN then s else [])"

definition c_tm :: "hpu_tm \<Rightarrow> hpu_tm" where
  "c_tm h = h\<lparr>tm_year := tm_year h - 1900, tm_mon := tm_mon h - 1\<rparr>"

definition fill_slot :: "hpu_fmt_env \<Rightarrow> int \<Rightarrow> bool \<Rightarrow> fmt_cache_slot \<Rightarrow> fmt_cache_slot" where
  "fill_slot env sec utc slot =
     (let tf = time_format_of env; tm = c_tm (localtime env sec utc)
      in case frac_of env of
           Some (pre, digits) \<Rightarrow>
             let mem = tf @ CHR 0x00 # after_time_format env;
                 spec_len = (if take 1 (drop (pre + 1) mem) = ''f'' then 2 else 3);
                 suf = length tf - pre - spec_len
             in if pre < HPULOGC_MAX_FMT_LEN \<and> pre + spec_len \<le> length tf \<and> suf < HPULOGC_MAX_FMT_LEN
                then \<lparr>cached_sec = sec, slot_prefix = strftime_256 env (take pre tf) tm,
                      slot_suffix = strftime_256 env (drop (pre + spec_len) tf) tm, slot_valid = True\<rparr>
                else \<lparr>cached_sec = sec, slot_prefix = [], slot_suffix = [], slot_valid = True\<rparr>
         | None \<Rightarrow> \<lparr>cached_sec = sec, slot_prefix = strftime_256 env tf tm, slot_suffix = [], slot_valid = True\<rparr>)"

definition render_time ::
  "render_buf \<Rightarrow> hpu_log_record \<Rightarrow> hpu_fmt_env \<Rightarrow> hpu_fmt_cache \<Rightarrow> bool \<Rightarrow> render_buf \<times> hpu_fmt_cache" where
  "render_time b rec env cache utc =
     (if ts_monotonic env then
        let rel_us = max 0 (mono_us rec - mono_base_us env)
        in (rb_append b (dec_int (c_div rel_us 1000000) @ ''.'' @ dec_int_zero 6 (c_mod rel_us 1000000)), cache)
      else
        let sec = c_div (realtime_ns rec) 1000000000;
            sub_ns = c_mod (realtime_ns rec) 1000000000;
            slot = (if \<not> slot_valid (cache utc) \<or> cached_sec (cache utc) \<noteq> sec
                    then fill_slot env sec utc (cache utc) else cache utc);
            b1 = rb_append b (slot_prefix slot)
        in (case frac_of env of
              Some (_, digits) \<Rightarrow> rb_append (render_frac b1 sub_ns (if digits > 0 then digits else 6)) (slot_suffix slot)
            | None \<Rightarrow> b1, cache(utc := slot)))"

section \<open>Structured fields\<close>

text \<open>
  The value pointer is an offset into the memory that starts with the region: a boolean is
  read as a whole \<^verbatim>\<open>int\<close>, four bytes, although the wire holds one.
\<close>

definition render_value :: "hpu_fmt_env \<Rightarrow> bool \<Rightarrow> bool \<Rightarrow> byte list \<Rightarrow> nat \<Rightarrow> nat \<Rightarrow> nat \<Rightarrow> render_buf \<Rightarrow> render_buf" where
  "render_value env json esc mem ty off val_len b =
     (if ty = HPULOGC_FIELD_I64 then
        rb_append b (dec_int (sint (of_nat (le_dec (bslice off 8 mem)) :: 64 word)))
      else if ty = HPULOGC_FIELD_U64 then rb_append b (dec_digits (le_dec (bslice off 8 mem)))
      else if ty = HPULOGC_FIELD_F64 then rb_append b (take 39 (fmt_g17 env (le_dec (bslice off 8 mem))))
      else if ty = HPULOGC_FIELD_BOOL then
        rb_append b (if le_dec (bslice off 4 mem) \<noteq> 0 then ''true'' else ''false'')
      else if ty = HPULOGC_FIELD_STR then
        (if json then
           rb_append (rb_append_escaped_json (rb_append b [CHR 0x22]) (bslice off val_len mem)) [CHR 0x22]
         else if esc then rb_append_escaped_injection b (bslice off val_len mem)
         else rb_append b (bslice off val_len mem))
      else b)"

definition fields_render_one ::
  "hpu_fmt_env \<Rightarrow> bool \<Rightarrow> bool \<Rightarrow> byte list \<Rightarrow> nat \<Rightarrow> nat \<Rightarrow> nat \<Rightarrow> nat \<Rightarrow> bool \<Rightarrow> render_buf \<Rightarrow> render_buf" where
  "fields_render_one env json esc mem off key_len ty val_len first b =
     (let key = bslice off key_len mem;
          b1 = (if json then
                  rb_append (rb_append_escaped_json
                    (rb_append (if first then b else rb_append b '','') [CHR 0x22]) key) [CHR 0x22, CHR '':'']
                else
                  let b0 = (if first then b else rb_append b '' '')
                  in rb_append (if esc then rb_append_escaped_injection b0 key else rb_append b0 key) ''='')
      in render_value env json esc mem ty (off + key_len) val_len b1)"

fun fields_loop ::
  "hpu_fmt_env \<Rightarrow> bool \<Rightarrow> bool \<Rightarrow> byte list \<Rightarrow> byte list \<Rightarrow> nat \<Rightarrow> nat \<Rightarrow> bool \<Rightarrow> render_buf \<Rightarrow> render_buf" where
  "fields_loop env json esc wire mem 0 off first b = b"
| "fields_loop env json esc wire mem (Suc i) off first b =
     (if off + 6 > length wire then b
      else let key_len = rd_u16 wire off; ty = rd_u8 wire (off + 2);
               val_len = rd_u16 wire (off + 4); off' = off + 6
           in if off' + key_len + val_len > length wire then b
              else fields_loop env json esc wire mem i (off' + key_len + val_len) False
                     (fields_render_one env json esc mem off' key_len ty val_len first b))"

definition fields_render :: "hpu_fmt_env \<Rightarrow> hpu_log_record \<Rightarrow> bool \<Rightarrow> bool \<Rightarrow> render_buf \<Rightarrow> render_buf" where
  "fields_render env rec json esc b =
     (let b1 = (if json then rb_append b ('','' @ [CHR 0x22] @ ''fields'' @ [CHR 0x22] @ '':{'') else b);
          b2 = (case fields_wire rec of
                  None \<Rightarrow> b1
                | Some w \<Rightarrow> fields_loop env json esc w (w @ after_wire rec) (field_count rec) 0 True b1)
      in if json then rb_append b2 ''}'' else b2)"

section \<open>One action, one line\<close>

definition level_tags :: "string list" where
  "level_tags = [''TRACE'', ''DEBUG'', ''INFO'', ''WARN'', ''ERROR'', ''FATAL'']"

definition append_opt :: "bool \<Rightarrow> render_buf \<Rightarrow> string option \<Rightarrow> render_buf" where
  "append_opt json b s =
     (case s of None \<Rightarrow> b | Some t \<Rightarrow> if json then rb_append_escaped_json b t else rb_append b t)"

definition render_action ::
  "hpu_format \<Rightarrow> hpu_log_record \<Rightarrow> hpu_fmt_env \<Rightarrow> bool \<Rightarrow> hpu_fmt_action \<Rightarrow> render_buf \<times> hpu_fmt_cache
    \<Rightarrow> render_buf \<times> hpu_fmt_cache" where
  "render_action fmt rec env esc a bc =
     (case bc of (b, cache) \<Rightarrow>
       (case a_type a of
          HPU_FA_LITERAL \<Rightarrow> (rb_append b (action_lit (pool fmt) a), cache)
        | HPU_FA_LEVEL \<Rightarrow>
            (if 0 \<le> r_level rec \<and> r_level rec \<le> 5 then rb_append b (level_tags ! nat (r_level rec)) else b, cache)
        | HPU_FA_TIME \<Rightarrow> render_time b rec env cache (use_utc env)
        | HPU_FA_TIME_UTC \<Rightarrow> render_time b rec env cache True
        | HPU_FA_PID \<Rightarrow>
            (if is_json fmt then rb_append_num b (nat (pid env mod 2 ^ 64)) False
             else if pid_fmt env \<noteq> 2 then rb_append_num b (nat (pid env mod 2 ^ 64)) (pid_fmt env = 1) else b, cache)
        | HPU_FA_TID \<Rightarrow>
            (if is_json fmt then rb_append_num b (unat (tid rec)) False
             else if tid_fmt env \<noteq> 2 then rb_append_num b (unat (tid rec)) (tid_fmt env = 1) else b, cache)
        | HPU_FA_FILE \<Rightarrow> (if source_loc_enabled env then append_opt (is_json fmt) b (r_file rec) else b, cache)
        | HPU_FA_LINE \<Rightarrow>
            (if source_loc_enabled env then rb_append_num b (nat (r_line rec)) False else b, cache)
        | HPU_FA_FUNC \<Rightarrow> (if source_loc_enabled env then append_opt (is_json fmt) b (r_func rec) else b, cache)
        | HPU_FA_MSG \<Rightarrow>
            (if is_json fmt then rb_append_escaped_json b (msg rec)
             else if esc then rb_append_escaped_injection b (msg rec) else rb_append b (msg rec), cache)
        | HPU_FA_CATEGORY \<Rightarrow>
            (if category rec \<noteq> None \<and> the (category rec) \<noteq> [] then append_opt (is_json fmt) b (category rec) else b, cache)
        | HPU_FA_FIELDS \<Rightarrow>
            (if field_count rec > 0 \<and> fields_wire rec \<noteq> None then fields_render env rec (is_json fmt) esc b else b, cache)
        | HPU_FA_NEWLINE \<Rightarrow> (rb_append b (newline_bytes env), cache)))"

definition modifier_finish :: "render_buf \<Rightarrow> nat \<Rightarrow> bool \<Rightarrow> hpu_fmt_action \<Rightarrow> render_buf" where
  "modifier_finish b start pre_trunc a =
     (let written = length (rb_text b) - start;
          cut = (a_prec a \<and> written > a_precision a);
          b1 = (if cut then b\<lparr>rb_text := take (start + a_precision a) (rb_text b), rb_trunc := pre_trunc\<rparr> else b);
          written1 = (if cut then a_precision a else written);
          pad = a_width a - written1
      in if a_width a \<noteq> 0 \<and> written1 < a_width a then
           (if a_left a then
              (if length (rb_text b1) + pad \<le> rb_limit b1
               then b1\<lparr>rb_text := rb_text b1 @ replicate pad (CHR '' '')\<rparr> else b1)
            else if start + written1 + pad \<le> rb_limit b1
            then b1\<lparr>rb_text := take start (rb_text b1) @ replicate pad (CHR '' '') @ drop start (rb_text b1)\<rparr>
            else b1)
         else b1)"

definition action_step ::
  "hpu_format \<Rightarrow> hpu_log_record \<Rightarrow> hpu_fmt_env \<Rightarrow> bool \<Rightarrow> render_buf \<times> hpu_fmt_cache \<Rightarrow> hpu_fmt_action
    \<Rightarrow> render_buf \<times> hpu_fmt_cache" where
  "action_step fmt rec env esc bc a =
     (let start = length (rb_text (fst bc)); pre_trunc = rb_trunc (fst bc);
          r = render_action fmt rec env esc a bc
      in if a_left a \<or> a_prec a \<or> a_width a \<noteq> 0
         then (modifier_finish (fst r) start pre_trunc a, snd r) else r)"

definition finish_line :: "nat \<Rightarrow> string \<Rightarrow> string \<Rightarrow> render_buf \<Rightarrow> string" where
  "finish_line max_line marker nl b =
     (if rb_trunc b \<and> length (rb_text b) \<ge> max_line
      then (if max_line > length marker + length nl
            then take (max_line - (length marker + length nl)) (rb_text b) @ marker @ nl
            else nl)
      else rb_text b)"

text \<open>\<open>out = NULL\<close> is \<open>out_size = None\<close>.\<close>

definition hpu_format_render ::
  "hpu_format \<Rightarrow> hpu_log_record \<Rightarrow> hpu_fmt_env \<Rightarrow> hpu_fmt_cache \<Rightarrow> bool \<Rightarrow> nat \<Rightarrow> string option
    \<Rightarrow> nat option \<Rightarrow> int + (string \<times> hpu_fmt_cache)" where
  "hpu_format_render fmt rec env cache esc max_line marker out_size =
     (if out_size = None \<or> the out_size < max_line + 1 then Inl HPULOGC_ERR_INVALID_ARG
      else let r = foldl (action_step fmt rec env esc)
                     (\<lparr>rb_text = [], rb_limit = max_line, rb_trunc = False\<rparr>, cache) (actions fmt)
           in Inr (finish_line max_line (case marker of None \<Rightarrow> [] | Some m \<Rightarrow> m) (newline_bytes env) (fst r),
                   snd r))"

end
