(* ===== verification/ConfState.thy ===== *)
theory ConfState
  imports ConfText PosixPath FormatRender Complex_Main
begin

text \<open>
  The configuration snapshot of \<^verbatim>\<open>src/conf/conf_model.h\<close>: outputs, rules, throttle
  parameters and the snapshot itself, with the enum values of \<^verbatim>\<open>include/hpulogc.h\<close> as
  integers (the code range-checks them), and the flags of the build.
\<close>

section \<open>Enum values\<close>

abbreviation (input) HPULOGC_LEVEL_TRACE :: int where "HPULOGC_LEVEL_TRACE \<equiv> 0"
abbreviation (input) HPULOGC_LEVEL_INFO :: int where "HPULOGC_LEVEL_INFO \<equiv> 2"
abbreviation (input) HPULOGC_LEVEL_FATAL :: int where "HPULOGC_LEVEL_FATAL \<equiv> 5"
abbreviation (input) HPULOGC_LEVEL_OFF :: int where "HPULOGC_LEVEL_OFF \<equiv> 6"
abbreviation (input) HPULOGC_OUT_CONSOLE :: int where "HPULOGC_OUT_CONSOLE \<equiv> 0"
abbreviation (input) HPULOGC_OUT_FILE :: int where "HPULOGC_OUT_FILE \<equiv> 1"
abbreviation (input) HPULOGC_ROTATE_NONE :: int where "HPULOGC_ROTATE_NONE \<equiv> 0"
abbreviation (input) HPULOGC_ROTATE_SIZE :: int where "HPULOGC_ROTATE_SIZE \<equiv> 1"
abbreviation (input) HPULOGC_ROTATE_TIME :: int where "HPULOGC_ROTATE_TIME \<equiv> 2"
abbreviation (input) HPULOGC_ROTATE_BOTH :: int where "HPULOGC_ROTATE_BOTH \<equiv> 3"
abbreviation (input) HPULOGC_OVERFLOW_DISCARD :: int where "HPULOGC_OVERFLOW_DISCARD \<equiv> 0"
abbreviation (input) HPULOGC_OVERFLOW_OVERWRITE :: int where "HPULOGC_OVERFLOW_OVERWRITE \<equiv> 1"
abbreviation (input) HPULOGC_OVERFLOW_WAIT :: int where "HPULOGC_OVERFLOW_WAIT \<equiv> 2"
abbreviation (input) HPULOGC_TS_REALTIME :: int where "HPULOGC_TS_REALTIME \<equiv> 0"
abbreviation (input) HPULOGC_TS_MONOTONIC :: int where "HPULOGC_TS_MONOTONIC \<equiv> 1"
abbreviation (input) HPULOGC_NEWLINE_AUTO :: int where "HPULOGC_NEWLINE_AUTO \<equiv> 0"
abbreviation (input) HPULOGC_CRASH_NONE :: int where "HPULOGC_CRASH_NONE \<equiv> 0"
abbreviation (input) HPULOGC_CRASH_SHUTDOWN :: int where "HPULOGC_CRASH_SHUTDOWN \<equiv> 3"
abbreviation (input) HPU_FORK_REINIT :: int where "HPU_FORK_REINIT \<equiv> 0"
abbreviation (input) HPU_ID_FMT_DECIMAL :: int where "HPU_ID_FMT_DECIMAL \<equiv> 0"

definition HPULOGC_MAX_OUTPUTS :: nat where "HPULOGC_MAX_OUTPUTS = 16"
definition HPULOGC_MAX_RULES :: nat where "HPULOGC_MAX_RULES = 64"
definition HPU_MAX_CONSUMERS :: int where "HPU_MAX_CONSUMERS = 16"
definition HPU_CONF_MAX_SINK_KV :: nat where "HPU_CONF_MAX_SINK_KV = 32"
definition HPU_CONF_SINK_KV_POOL :: nat where "HPU_CONF_SINK_KV_POOL = 8192"

lemmas conf_limits = HPULOGC_MAX_OUTPUTS_def HPULOGC_MAX_RULES_def HPU_MAX_CONSUMERS_def
  HPU_CONF_MAX_SINK_KV_def HPU_CONF_SINK_KV_POOL_def HPULOGC_MAX_NAME_LEN_def HPULOGC_MAX_FMT_LEN_def
  HPULOGC_MAX_PATH_LEN_def

section \<open>The snapshot\<close>

record hpulogc_output =
  out_type :: int
  out_stream :: int
  out_color :: bool
  out_path :: "string option"
  out_rotate :: int
  out_max_size :: nat
  out_time_unit :: int
  out_max_files :: int
  out_fsync :: bool
  out_symlink_latest :: bool
  out_rotate_naming :: "string option"
  out_file_mode :: nat
  out_dir_mode :: nat

text \<open>
  The key/value pool is the used bytes of \<^verbatim>\<open>kv_pool\<close>; the offsets are lists, so
  \<^verbatim>\<open>kv_count\<close> is their length. \<open>o_handle\<close> is the opened backend, as a number.
\<close>

record hpu_conf_output =
  o_pub :: hpulogc_output
  o_name :: string
  o_path_buf :: string
  o_naming_buf :: string
  o_handle :: "nat option"
  o_is_generic :: bool
  o_type_name :: string
  o_kv_key_off :: "nat list"
  o_kv_val_off :: "nat list"
  o_kv_pool :: string
  o_enabled :: bool
  o_async :: bool
  o_queue_size :: nat

record hpu_conf_rule =
  ru_category :: string
  ru_min :: int
  ru_max :: int
  ru_negate :: bool
  ru_format :: string
  ru_outputs :: "int list"

text \<open>
  The values of a double: the finite ones as rationals, the infinities and the NaN. A comparison with a NaN
  is false.
\<close>

datatype double = Dbl rat | Dbl_inf | Dbl_neg_inf | Dbl_nan

fun dbl_less :: "double \<Rightarrow> double \<Rightarrow> bool" where
  "dbl_less (Dbl x) (Dbl y) = (x < y)"
| "dbl_less (Dbl x) Dbl_inf = True"
| "dbl_less Dbl_neg_inf (Dbl y) = True"
| "dbl_less Dbl_neg_inf Dbl_inf = True"
| "dbl_less _ _ = False"

definition dbl_le :: "double \<Rightarrow> double \<Rightarrow> bool" where
  "dbl_le x y \<longleftrightarrow> dbl_less x y \<or> x = y \<and> x \<noteq> Dbl_nan"

record hpu_throttle_cfg =
  th_global_rate :: int
  th_per_category_rate :: int
  th_burst :: int
  th_sampling_rate :: double
  th_sampling_n :: int

record hpu_conf =
  c_level :: int
  c_default_format :: string
  c_default_names :: "string list"
  c_default_idx :: "int list"
  c_use_utc :: bool
  c_timestamp_source :: int
  c_time_format :: string
  c_newline_style :: int
  c_pid_fmt :: int
  c_tid_fmt :: int
  c_capture_source_loc :: bool
  c_strict_init :: bool
  c_hot_reload_interval :: int
  c_signal_reload :: bool
  c_formats :: "hpu_format list"
  c_outputs :: "hpu_conf_output list"
  c_rules :: "hpu_conf_rule list"
  c_buffer_size :: nat
  c_overflow_policy :: int
  c_batch_size :: int
  c_flush_interval_ms :: int
  c_shutdown_timeout_ms :: int
  c_consumer_threads :: int
  c_throttle :: hpu_throttle_cfg
  c_escape_injection :: bool
  c_max_log_length :: nat
  c_truncation_marker :: string
  c_fork_behavior :: int
  c_signal_safe :: bool
  c_crash_safety :: int
  c_stats_interval :: int
  c_stats_output_file :: bool
  c_stats_file :: string
  c_env :: hpu_fmt_env
  c_source_path :: string

section \<open>Private keys of a sink\<close>

text \<open>Storing a private key and value: the pool gets both with their terminators.\<close>

definition kv_store :: "hpu_conf_output \<Rightarrow> string \<Rightarrow> string \<Rightarrow> hpu_conf_output" where
  "kv_store o1 k v =
     (let p = length (o_kv_pool o1)
      in o1\<lparr>o_kv_key_off := o_kv_key_off o1 @ [p],
            o_kv_val_off := o_kv_val_off o1 @ [p + length k + 1],
            o_kv_pool := o_kv_pool o1 @ k @ [CHR 0x00] @ v @ [CHR 0x00]\<rparr>)"

definition kv_pairs :: "hpu_conf_output \<Rightarrow> (string \<times> string) list" where
  "kv_pairs o1 = map (\<lambda>(k, v). (cstr (drop k (o_kv_pool o1)), cstr (drop v (o_kv_pool o1)))) (zip (o_kv_key_off o1) (o_kv_val_off o1))"

section \<open>The build\<close>

text \<open>
  The flags of the build, and what the program is linked with: the C library's \<^verbatim>\<open>strtod\<close>,
  which may give any double, the registry of sink types (\<^verbatim>\<open>hpu_sink_registry_find\<close>), the
  rounding of an operation on finite doubles (which may overflow to an infinity), and what the platform makes
  of the conversion of a NaN, an infinity or a value out of range to a 32-bit integer, which C leaves open.
\<close>

datatype concurrency = CONC_SPSC | CONC_MPSC | CONC_MPMC

record build_flags =
  b_async :: bool
  b_color :: bool
  b_rotate :: bool
  b_hot_reload :: bool
  b_category :: bool
  b_throttle :: bool
  b_ini :: bool
  b_source_loc :: bool
  b_lockfree :: bool
  b_concurrency :: concurrency
  b_version_name :: string
  b_strtod :: "string \<Rightarrow> double"
  b_round :: "rat \<Rightarrow> double"
  b_bad_int :: "double \<Rightarrow> 32 word"
  b_registered :: "string \<Rightarrow> bool"

text \<open>A build with every feature, for the examples.\<close>

definition full_build :: build_flags where
  "full_build =
     \<lparr>b_async = True, b_color = True, b_rotate = True, b_hot_reload = True, b_category = True, b_throttle = True, b_ini = True,
      b_source_loc = True, b_lockfree = True, b_concurrency = CONC_MPSC, b_version_name = ''full'',
      b_strtod = (\<lambda>_. Dbl (1 / 2)), b_round = Dbl, b_bad_int = (\<lambda>_. 2 ^ 31), b_registered = (\<lambda>_. False)\<rparr>"

text \<open>The conversion of a double to \<^verbatim>\<open>int\<close> drops the fraction.\<close>

definition dbl_to_int :: "build_flags \<Rightarrow> double \<Rightarrow> int" where
  "dbl_to_int B d =
     (case d of
        Dbl x \<Rightarrow> let k = (if x < 0 then \<lceil>x\<rceil> else \<lfloor>x\<rfloor>)
                 in if - (2 ^ 31) \<le> k \<and> k < 2 ^ 31 then k else sint (b_bad_int B d)
      | _ \<Rightarrow> sint (b_bad_int B d))"

text \<open>\<^verbatim>\<open>1.0 / d + 0.5\<close> for a rate that is neither at most 0 nor at least 1.\<close>

definition dbl_inverse_half :: "build_flags \<Rightarrow> double \<Rightarrow> double" where
  "dbl_inverse_half B d =
     (case d of
        Dbl x \<Rightarrow> (case b_round B (1 / x) of Dbl y \<Rightarrow> b_round B (y + 1 / 2) | special \<Rightarrow> special)
      | Dbl_nan \<Rightarrow> Dbl_nan
      | _ \<Rightarrow> Dbl (1 / 2))"

section \<open>Lookups\<close>

fun find_index :: "nat \<Rightarrow> ('a \<Rightarrow> bool) \<Rightarrow> 'a list \<Rightarrow> int" where
  "find_index i P [] = - 1"
| "find_index i P (x # xs) = (if P x then int i else find_index (Suc i) P xs)"

definition hpu_conf_find_output :: "hpu_conf \<Rightarrow> string \<Rightarrow> int" where
  "hpu_conf_find_output c name = find_index 0 (\<lambda>o1. o_name o1 = name) (c_outputs c)"

definition hpu_conf_find_format :: "hpu_conf \<Rightarrow> string \<Rightarrow> hpu_format option" where
  "hpu_conf_find_format c name = find (\<lambda>f. fmt_name f = name) (c_formats c)"

definition hpu_conf_rule_level_match :: "hpu_conf_rule \<Rightarrow> int \<Rightarrow> bool" where
  "hpu_conf_rule_level_match rule level =
     (if ru_negate rule then level \<noteq> ru_min rule else ru_min rule \<le> level \<and> level \<le> ru_max rule)"

lemma find_index_cases:
  "find_index i P xs = - 1 \<and> (\<forall>x \<in> set xs. \<not> P x) \<or>
    (\<exists>k. find_index i P xs = int (i + k) \<and> k < length xs \<and> P (xs ! k) \<and> (\<forall>j < k. \<not> P (xs ! j)))"
proof (induction i P xs rule: find_index.induct)
  case (2 i P x xs)
  show ?case
  proof (cases "P x")
    case True
    then show ?thesis by (intro disjI2 exI [of _ 0]) simp
  next
    case False
    from 2 [OF False] show ?thesis
    proof (elim disjE exE)
      assume "find_index (Suc i) P xs = - 1 \<and> (\<forall>x \<in> set xs. \<not> P x)"
      then show ?thesis using False by simp
    next
      fix k
      assume "find_index (Suc i) P xs = int (Suc i + k) \<and> k < length xs \<and> P (xs ! k) \<and> (\<forall>j < k. \<not> P (xs ! j))"
      then show ?thesis using False
        by (intro disjI2 exI [of _ "Suc k"]) (auto simp: less_Suc_eq_0_disj)
    qed
  qed
qed simp

lemma find_index_bounds: "- 1 \<le> find_index 0 P xs \<and> find_index 0 P xs < int (length xs)"
  using find_index_cases [of 0 P xs] by auto

lemma find_index_hit:
  "0 \<le> find_index 0 P xs \<Longrightarrow> nat (find_index 0 P xs) < length xs \<and> P (xs ! nat (find_index 0 P xs))"
  using find_index_cases [of 0 P xs] by auto

lemma find_index_miss: "find_index 0 P xs < 0 \<longleftrightarrow> (\<forall>x \<in> set xs. \<not> P x)"
  using find_index_cases [of 0 P xs] nth_mem [of _ xs] by fastforce

end
