(* ===== verification/IniLexer.thy ===== *)
theory IniLexer
  imports HpuPrelude
begin

text \<open>
  The line lexer of \<^verbatim>\<open>src/conf/ini.c\<close>: comment stripping that respects double
  quotes, backslash continuation, the physical and logical line limits, and the two entry
  points \<^verbatim>\<open>hpu_ini_parse_buffer\<close> and \<^verbatim>\<open>hpu_ini_parse_file\<close>. The callback of the
  C code is a state-passing function: it takes the user data, the logical line and its
  line number and returns the abort code and the new user data.
\<close>

section \<open>State\<close>

definition HPU_INI_MAX_LINE :: nat where "HPU_INI_MAX_LINE = 1024"
definition HPU_INI_MAX_LOGICAL :: nat where "HPU_INI_MAX_LOGICAL = 4 * HPU_INI_MAX_LINE"

type_synonym 'u ini_line_fn = "'u \<Rightarrow> string \<Rightarrow> nat \<Rightarrow> int \<times> 'u"

text \<open>
  \<open>logical_len\<close> of the C struct is the length of \<open>logical\<close>; \<open>err_line\<close> is the
  last value written through the \<^verbatim>\<open>err_line\<close> pointer (\<open>None\<close>: never written).
\<close>

record 'u ini_lexer =
  logical :: string
  logical_start :: nat
  userdata :: 'u
  err_line :: "nat option"

definition ini_lexer_init :: "'u \<Rightarrow> 'u ini_lexer" where
  "ini_lexer_init u = \<lparr>logical = [], logical_start = 0, userdata = u, err_line = None\<rparr>"

section \<open>Comments and trimming\<close>

fun cut_comment :: "bool \<Rightarrow> string \<Rightarrow> string" where
  "cut_comment q [] = []"
| "cut_comment q (c # cs) =
     (if c = CHR 0x22 then c # cut_comment (\<not> q) cs
      else if c = CHR ''#'' \<and> \<not> q then []
      else c # cut_comment q cs)"

definition is_phys_blank :: "char \<Rightarrow> bool" where
  "is_phys_blank c \<longleftrightarrow> c = CHR '' '' \<or> c = CHR 0x09 \<or> c = CHR 0x0D"

definition is_line_blank :: "char \<Rightarrow> bool" where
  "is_line_blank c \<longleftrightarrow> is_phys_blank c \<or> c = CHR 0x0A"

definition strip_comment_and_trim :: "string \<Rightarrow> string" where
  "strip_comment_and_trim line = rtrim is_line_blank (cut_comment False line)"

definition strip_physical :: "string \<Rightarrow> string" where
  "strip_physical phys = rtrim is_phys_blank (cut_comment False phys)"

section \<open>Logical lines\<close>

definition deliver :: "'u ini_line_fn \<Rightarrow> 'u ini_lexer \<Rightarrow> int \<times> 'u ini_lexer" where
  "deliver cb lx =
     (if logical lx = [] then (0, lx)
      else let line = strip_comment_and_trim (logical lx);
               lx0 = lx\<lparr>logical := [], logical_start := 0\<rparr>
           in if line = [] then (0, lx0)
              else case cb (userdata lx) line (logical_start lx) of
                     (rc, u) \<Rightarrow> (rc, lx0\<lparr>userdata := u\<rparr>))"

definition drop_backslash :: "string \<Rightarrow> string" where
  "drop_backslash s =
     (let bs = tail_run (CHR 0x5C) s
      in if odd bs then butlast s else if bs \<ge> 2 then butlast s else s)"

definition process_line ::
  "'u ini_line_fn \<Rightarrow> 'u ini_lexer \<Rightarrow> string \<Rightarrow> nat \<Rightarrow> bool \<Rightarrow> int \<times> 'u ini_lexer" where
  "process_line cb lx phys0 line_no is_last =
     (let phys = cstr phys0
      in if length phys \<ge> HPU_INI_MAX_LINE
         then (HPULOGC_ERR_CONFIG, lx\<lparr>err_line := Some line_no\<rparr>)
         else
           let s = strip_physical phys;
               bs = tail_run (CHR 0x5C) s;
               is_continuation = (odd bs \<and> \<not> is_last);
               s' = drop_backslash s
           in if length (logical lx) + length s' + 1 \<ge> HPU_INI_MAX_LOGICAL
              then (HPULOGC_ERR_CONFIG,
                    lx\<lparr>err_line := Some (if logical_start lx \<noteq> 0 then logical_start lx
                                          else line_no)\<rparr>)
              else
                let start = (if s' \<noteq> [] \<and> logical lx = [] \<and> logical_start lx = 0
                             then line_no else logical_start lx);
                    lx' = lx\<lparr>logical := logical lx @ s', logical_start := start\<rparr>
                in if is_continuation then (0, lx') else deliver cb lx')"

section \<open>The buffer entry point\<close>

text \<open>One physical line of a buffer and what is left after its newline.\<close>

definition buf_line :: "string \<Rightarrow> string" where
  "buf_line p = takeWhile (\<lambda>c. c \<noteq> CHR 0x0A) p"

definition buf_rest :: "string \<Rightarrow> string" where
  "buf_rest p = drop (Suc (length (buf_line p))) p"

lemma length_buf_rest: "p \<noteq> [] \<Longrightarrow> length (buf_rest p) < length p"
  by (cases p) (auto simp: buf_rest_def)

function parse_buffer_loop ::
  "'u ini_line_fn \<Rightarrow> 'u ini_lexer \<Rightarrow> string \<Rightarrow> nat \<Rightarrow> int \<times> 'u ini_lexer" where
  "parse_buffer_loop cb lx p line_no =
     (if p = [] then deliver cb lx
      else if length (buf_line p) \<ge> HPU_INI_MAX_LINE
      then (HPULOGC_ERR_CONFIG, lx\<lparr>err_line := Some (Suc line_no)\<rparr>)
      else case process_line cb lx (buf_line p) (Suc line_no) (buf_rest p = []) of
             (rc, lx') \<Rightarrow>
               if rc \<noteq> 0 then (rc, lx')
               else parse_buffer_loop cb lx' (buf_rest p) (Suc line_no))"
  by pat_completeness auto
termination
  by (relation "measure (\<lambda>(cb, lx, p, n). length p)") (auto simp: length_buf_rest)

declare parse_buffer_loop.simps [simp del]

definition hpu_ini_parse_buffer :: "string \<Rightarrow> 'u ini_line_fn \<Rightarrow> 'u \<Rightarrow> int \<times> 'u ini_lexer" where
  "hpu_ini_parse_buffer text cb u = parse_buffer_loop cb (ini_lexer_init u) (cstr text) 0"

section \<open>The file entry point\<close>

text \<open>
  \<^verbatim>\<open>fgets(line, n, fp)\<close> of the C standard library on the unread bytes of the stream:
  at most \<open>n - 1\<close> bytes, up to and including a newline; the end-of-file flag is set when
  the read ran into the end of the stream. \<open>None\<close> is the NULL it returns there.
\<close>

definition fgets :: "nat \<Rightarrow> string \<Rightarrow> (string \<times> bool \<times> string) option" where
  "fgets n s =
     (if s = [] then None
      else let l = takeWhile (\<lambda>c. c \<noteq> CHR 0x0A) s
           in if length l < n - 1
              then (if length l = length s then Some (s, True, [])
                    else Some (l @ [CHR 0x0A], False, drop (Suc (length l)) s))
              else Some (take (n - 1) s, False, drop (n - 1) s))"

lemma fgets_decreases:
  "fgets n s = Some (l, eof, rest) \<Longrightarrow> 1 < n \<Longrightarrow> length rest < length s"
  by (cases s) (auto simp: fgets_def Let_def split: if_splits)

function parse_file_loop ::
  "'u ini_line_fn \<Rightarrow> 'u ini_lexer \<Rightarrow> string \<Rightarrow> nat \<Rightarrow> int \<times> 'u ini_lexer" where
  "parse_file_loop cb lx s line_no =
     (case fgets HPU_INI_MAX_LINE s of
        None \<Rightarrow> deliver cb lx
      | Some (raw, is_last, rest) \<Rightarrow>
          let line = cstr raw
          in if line \<noteq> [] \<and> last line \<noteq> CHR 0x0A \<and> \<not> is_last
             then (HPULOGC_ERR_CONFIG, lx\<lparr>err_line := Some (Suc line_no)\<rparr>)
             else case process_line cb lx line (Suc line_no) is_last of
                    (rc, lx') \<Rightarrow>
                      if rc \<noteq> 0 then (rc, lx')
                      else parse_file_loop cb lx' rest (Suc line_no))"
  by pat_completeness auto
termination
  by (relation "measure (\<lambda>(cb, lx, s, n). length s)")
    (auto simp: HPU_INI_MAX_LINE_def dest!: sym [of "Some _"] fgets_decreases)

declare parse_file_loop.simps [simp del]

text \<open>
  The file system answers are parameters: whether the path names a regular file
  (\<^verbatim>\<open>hpu_fs_stat_kind\<close>) and what \<^verbatim>\<open>fopen\<close> gives (\<open>None\<close> for NULL, else the bytes
  of the stream). A NULL path is \<open>None\<close>.
\<close>

definition hpu_ini_parse_file ::
  "(string \<Rightarrow> bool) \<Rightarrow> (string \<Rightarrow> string option) \<Rightarrow> string option \<Rightarrow> 'u ini_line_fn \<Rightarrow> 'u
    \<Rightarrow> int \<times> 'u ini_lexer" where
  "hpu_ini_parse_file is_regular open_file path cb u =
     (case path of
        None \<Rightarrow> (HPULOGC_ERR_INVALID_ARG, ini_lexer_init u)
      | Some f \<Rightarrow>
          if \<not> is_regular f then (HPULOGC_ERR_CONFIG, ini_lexer_init u)
          else case open_file f of
                 None \<Rightarrow> (HPULOGC_ERR_CONFIG, ini_lexer_init u)
               | Some content \<Rightarrow> parse_file_loop cb (ini_lexer_init u) content 0)"

section \<open>Comment stripping\<close>

lemma cut_comment_prefix: "\<exists>t. s = cut_comment q s @ t"
  by (induction q s rule: cut_comment.induct) auto

lemma length_cut_comment_le: "length (cut_comment q s) \<le> length s"
  by (metis cut_comment_prefix length_append le_add1)

lemma cut_comment_idem [simp]: "cut_comment q (cut_comment q s) = cut_comment q s"
  by (induction q s rule: cut_comment.induct) auto

lemma cut_comment_of_prefix: "cut_comment q (s @ t) = s @ t \<Longrightarrow> cut_comment q s = s"
  by (induction q s rule: cut_comment.induct) (auto split: if_splits)

lemma cut_comment_snoc:
  "cut_comment q s = s \<Longrightarrow> c \<noteq> CHR ''#'' \<Longrightarrow> cut_comment q (s @ [c]) = s @ [c]"
  by (induction q s rule: cut_comment.induct) (auto split: if_splits)

lemma cut_comment_no_hash: "CHR ''#'' \<notin> set s \<Longrightarrow> cut_comment q s = s"
  by (induction q s rule: cut_comment.induct) auto

lemma cut_comment_rtrim:
  "cut_comment q s = s \<Longrightarrow> cut_comment q (rtrim P s) = rtrim P s"
  by (metis cut_comment_of_prefix rtrim_prefix)

lemma blank_phys_line: "is_phys_blank c \<Longrightarrow> is_line_blank c"
  by (simp add: is_line_blank_def)

lemma strip_comment_and_trim_plain:
  "cut_comment False s = s \<Longrightarrow> strip_comment_and_trim (rtrim is_phys_blank s) = strip_comment_and_trim s"
  by (simp add: strip_comment_and_trim_def cut_comment_rtrim rtrim_weaker blank_phys_line)

lemma strip_comment_and_trim_newline:
  "cut_comment False s = s \<Longrightarrow> strip_comment_and_trim (s @ [CHR 0x0A]) = strip_comment_and_trim s"
  by (simp add: strip_comment_and_trim_def cut_comment_snoc is_line_blank_def)

lemma length_strip_le: "length (strip_comment_and_trim s) \<le> length s"
  unfolding strip_comment_and_trim_def
  using length_cut_comment_le length_rtrim_le le_trans by blast

section \<open>Delivered lines\<close>

text \<open>
  The reference: what a lexer without continuation does with a list of physical lines.
  Every line is stripped; a line that is not blank goes to the callback with its number.
\<close>

definition emit :: "'u ini_line_fn \<Rightarrow> 'u ini_lexer \<Rightarrow> string \<Rightarrow> nat \<Rightarrow> int \<times> 'u ini_lexer" where
  "emit cb lx line n =
     (if line = [] then (0, lx)
      else case cb (userdata lx) line n of (rc, u) \<Rightarrow> (rc, lx\<lparr>userdata := u\<rparr>))"

fun run_lines ::
  "'u ini_line_fn \<Rightarrow> 'u ini_lexer \<Rightarrow> nat \<Rightarrow> string list \<Rightarrow> int \<times> 'u ini_lexer" where
  "run_lines cb lx n [] = (0, lx)"
| "run_lines cb lx n (l # ls) =
     (case emit cb lx (strip_comment_and_trim l) (Suc n) of
        (rc, lx') \<Rightarrow> if rc \<noteq> 0 then (rc, lx') else run_lines cb lx' (Suc n) ls)"

definition lines_text :: "string list \<Rightarrow> string" where
  "lines_text ls = concat (map (\<lambda>l. l @ [CHR 0x0A]) ls)"

definition plain_line :: "string \<Rightarrow> bool" where
  "plain_line l \<longleftrightarrow> length l + 1 < HPU_INI_MAX_LINE \<and> CHR 0x0A \<notin> set l \<and> CHR 0x00 \<notin> set l
     \<and> cut_comment False l = l"

definition idle :: "'u ini_lexer \<Rightarrow> bool" where
  "idle lx \<longleftrightarrow> logical lx = [] \<and> logical_start lx = 0"

lemma emit_idle: "idle lx \<Longrightarrow> idle (snd (emit cb lx s n))"
  by (auto simp: emit_def idle_def split: prod.splits)

lemma deliver_idle [simp]: "idle lx \<Longrightarrow> deliver cb lx = (0, lx)"
  by (simp add: deliver_def idle_def)

lemma deliver_emit:
  "idle lx \<Longrightarrow> deliver cb (lx\<lparr>logical := s, logical_start := if s = [] then 0 else n\<rparr>)
     = emit cb lx (strip_comment_and_trim s) n"
  by (auto simp: deliver_def emit_def idle_def Let_def strip_comment_and_trim_def split: prod.splits)

lemma takeWhile_line: "CHR 0x0A \<notin> set l \<Longrightarrow> takeWhile (\<lambda>c. c \<noteq> CHR 0x0A) (l @ CHR 0x0A # r) = l"
  by (induction l) auto

lemma plain_not_continued:
  "plain_line l \<Longrightarrow> strip_physical (l @ [CHR 0x0A]) = l @ [CHR 0x0A]"
  by (simp add: plain_line_def strip_physical_def cut_comment_snoc is_phys_blank_def)

lemma process_line_file:
  assumes "idle lx" "plain_line l"
  shows "process_line cb lx (l @ [CHR 0x0A]) n fin = emit cb lx (strip_comment_and_trim l) n"
proof -
  let ?s = "l @ [CHR 0x0A]"
  have "cstr ?s = ?s" using assms(2) by (simp add: plain_line_def)
  moreover have "drop_backslash ?s = ?s"
    by (simp add: drop_backslash_def)
  moreover have "logical lx = []" "logical_start lx = 0" "length ?s < HPU_INI_MAX_LINE"
    using assms by (auto simp: idle_def plain_line_def)
  ultimately have "process_line cb lx ?s n fin
      = deliver cb (lx\<lparr>logical := ?s, logical_start := if ?s = [] then 0 else n\<rparr>)"
    using plain_not_continued [OF assms(2)]
    by (simp add: process_line_def Let_def HPU_INI_MAX_LOGICAL_def)
  also have "\<dots> = emit cb lx (strip_comment_and_trim ?s) n"
    by (rule deliver_emit [OF assms(1)])
  also have "strip_comment_and_trim ?s = strip_comment_and_trim l"
    using assms(2) by (simp add: strip_comment_and_trim_newline plain_line_def)
  finally show ?thesis .
qed

lemma process_line_buffer:
  assumes "idle lx" "plain_line l" "tail_run (CHR 0x5C) (rtrim is_phys_blank l) = 0"
  shows "process_line cb lx l n fin = emit cb lx (strip_comment_and_trim l) n"
proof -
  let ?s = "rtrim is_phys_blank l"
  have "strip_physical l = ?s" "cstr l = l"
    using assms(2) by (auto simp: plain_line_def strip_physical_def)
  moreover have "drop_backslash ?s = ?s"
    by (simp add: drop_backslash_def assms(3))
  moreover have "logical lx = []" "logical_start lx = 0" "length l < HPU_INI_MAX_LINE"
    using assms by (auto simp: idle_def plain_line_def)
  moreover have "length ?s \<le> length l" by (rule length_rtrim_le)
  ultimately have "process_line cb lx l n fin
      = deliver cb (lx\<lparr>logical := ?s, logical_start := if ?s = [] then 0 else n\<rparr>)"
    using assms(3) by (simp add: process_line_def Let_def HPU_INI_MAX_LOGICAL_def)
  also have "\<dots> = emit cb lx (strip_comment_and_trim ?s) n"
    by (rule deliver_emit [OF assms(1)])
  also have "strip_comment_and_trim ?s = strip_comment_and_trim l"
    using assms(2) by (simp add: strip_comment_and_trim_plain plain_line_def)
  finally show ?thesis .
qed

lemma lines_text_Cons [simp]: "lines_text (l # ls) = l @ CHR 0x0A # lines_text ls"
  by (simp add: lines_text_def)

lemma lines_text_Nil [simp]: "lines_text [] = []"
  by (simp add: lines_text_def)

lemma fgets_line:
  assumes "plain_line l"
  shows "fgets HPU_INI_MAX_LINE (l @ CHR 0x0A # r) = Some (l @ [CHR 0x0A], False, r)"
  using assms by (simp add: fgets_def plain_line_def takeWhile_line HPU_INI_MAX_LINE_def)

lemma parse_file_loop_line:
  assumes "plain_line l"
  shows "parse_file_loop cb lx (l @ CHR 0x0A # r) n =
    (case process_line cb lx (l @ [CHR 0x0A]) (Suc n) False of
       (rc, lx') \<Rightarrow> if rc \<noteq> 0 then (rc, lx') else parse_file_loop cb lx' r (Suc n))"
  using assms
  by (subst parse_file_loop.simps) (simp add: fgets_line Let_def plain_line_def)

lemma parse_buffer_loop_line:
  assumes "plain_line l"
  shows "parse_buffer_loop cb lx (l @ CHR 0x0A # r) n =
    (case process_line cb lx l (Suc n) (r = []) of
       (rc, lx') \<Rightarrow> if rc \<noteq> 0 then (rc, lx') else parse_buffer_loop cb lx' r (Suc n))"
  using assms
  by (subst parse_buffer_loop.simps)
    (simp add: buf_line_def buf_rest_def takeWhile_line plain_line_def HPU_INI_MAX_LINE_def
      split: prod.split)

lemma parse_file_run_lines:
  "idle lx \<Longrightarrow> \<forall>l \<in> set ls. plain_line l \<Longrightarrow>
     parse_file_loop cb lx (lines_text ls) n = run_lines cb lx n ls"
proof (induction ls arbitrary: lx n)
  case Nil
  then show ?case by (subst parse_file_loop.simps) (simp add: fgets_def)
next
  case (Cons l ls)
  obtain rc lx' where e: "emit cb lx (strip_comment_and_trim l) (Suc n) = (rc, lx')"
    by fastforce
  with Cons.prems(1) have "idle lx'" using emit_idle [of lx cb] by (metis snd_conv)
  with Cons e show ?case
    by (simp add: parse_file_loop_line process_line_file)
qed

lemma parse_buffer_run_lines:
  "idle lx \<Longrightarrow> \<forall>l \<in> set ls. plain_line l \<and> tail_run (CHR 0x5C) (rtrim is_phys_blank l) = 0 \<Longrightarrow>
     parse_buffer_loop cb lx (lines_text ls) n = run_lines cb lx n ls"
proof (induction ls arbitrary: lx n)
  case Nil
  then show ?case by (subst parse_buffer_loop.simps) simp
next
  case (Cons l ls)
  obtain rc lx' where e: "emit cb lx (strip_comment_and_trim l) (Suc n) = (rc, lx')"
    by fastforce
  with Cons.prems(1) have "idle lx'" using emit_idle [of lx cb] by (metis snd_conv)
  with Cons e show ?case
    by (simp add: parse_buffer_loop_line process_line_buffer)
qed

lemma idle_init [simp]: "idle (ini_lexer_init u)"
  by (simp add: idle_def ini_lexer_init_def)

lemma cstr_lines_text: "\<forall>l \<in> set ls. plain_line l \<Longrightarrow> cstr (lines_text ls) = lines_text ls"
  by (rule cstr_no_nul) (auto simp: lines_text_def plain_line_def)



section \<open>What a whole run delivers\<close>

text \<open>The callback that records the lines it is given and never aborts.\<close>

definition collect :: "(string \<times> nat) list ini_line_fn" where
  "collect u line n = (0, u @ [(line, n)])"

text \<open>
  The invariant of the lexer between two physical lines, after \<open>n\<close> of them: the joined
  line leaves room for its terminator in \<^verbatim>\<open>char logical[HPU_INI_MAX_LOGICAL]\<close>, a start
  line is recorded exactly while a line is under construction, and the lines delivered so
  far are not blank, fit the buffer and carry strictly increasing line numbers.
\<close>

definition line_ok :: "nat \<Rightarrow> string \<times> nat \<Rightarrow> bool" where
  "line_ok n = (\<lambda>(l, k). l \<noteq> [] \<and> length l < HPU_INI_MAX_LOGICAL \<and> \<not> is_line_blank (last l)
     \<and> 0 < k \<and> k \<le> n)"

definition lex_wf :: "nat \<Rightarrow> (string \<times> nat) list ini_lexer \<Rightarrow> bool" where
  "lex_wf n lx \<longleftrightarrow>
     length (logical lx) + 1 < HPU_INI_MAX_LOGICAL
     \<and> (logical lx = [] \<longleftrightarrow> logical_start lx = 0) \<and> logical_start lx \<le> n
     \<and> list_all (line_ok n) (userdata lx)
     \<and> (logical lx \<noteq> [] \<longrightarrow> list_all (\<lambda>(l, k). k < logical_start lx) (userdata lx))
     \<and> sorted_wrt (<) (map snd (userdata lx))"

lemma line_ok_mono: "line_ok n x \<Longrightarrow> n \<le> m \<Longrightarrow> line_ok m x"
  by (auto simp: line_ok_def)

lemma list_all_line_ok_mono: "list_all (line_ok n) xs \<Longrightarrow> n \<le> m \<Longrightarrow> list_all (line_ok m) xs"
  by (auto simp: list_all_iff intro: line_ok_mono)

lemma lex_wf_mono: "lex_wf n lx \<Longrightarrow> n \<le> m \<Longrightarrow> lex_wf m lx"
  unfolding lex_wf_def by (auto intro: list_all_line_ok_mono)

lemma lex_wf_init: "lex_wf n (ini_lexer_init [])"
  by (simp add: lex_wf_def ini_lexer_init_def HPU_INI_MAX_LOGICAL_def HPU_INI_MAX_LINE_def)

lemma lex_wf_err_line [simp]: "lex_wf n (lx\<lparr>err_line := e\<rparr>) = lex_wf n lx"
  by (simp add: lex_wf_def)

lemma lex_wf_reset: "lex_wf n lx \<Longrightarrow> lex_wf n (lx\<lparr>logical := [], logical_start := 0\<rparr>)"
  by (simp add: lex_wf_def)

lemma lex_wf_deliver:
  assumes "lex_wf n lx"
  shows "lex_wf n (snd (deliver collect lx))"
proof (cases "logical lx = [] \<or> strip_comment_and_trim (logical lx) = []")
  case True
  then show ?thesis using assms lex_wf_reset [OF assms] by (auto simp: deliver_def Let_def)
next
  case False
  let ?l = "strip_comment_and_trim (logical lx)"
  have "length ?l < HPU_INI_MAX_LOGICAL"
    using assms length_strip_le [of "logical lx"] by (simp add: lex_wf_def)
  moreover have "\<not> is_line_blank (last ?l)"
    using False rtrim_last unfolding strip_comment_and_trim_def by blast
  ultimately have "line_ok n (?l, logical_start lx)"
    using False assms by (auto simp: line_ok_def lex_wf_def)
  then show ?thesis
    using False assms
    by (auto simp: deliver_def Let_def collect_def lex_wf_def sorted_wrt_append list_all_iff)
qed

lemma lex_wf_extend:
  assumes "lex_wf n lx" "length (logical lx) + length s + 1 < HPU_INI_MAX_LOGICAL"
  shows "lex_wf (Suc n) (lx\<lparr>logical := logical lx @ s,
           logical_start := if s \<noteq> [] \<and> logical lx = [] \<and> logical_start lx = 0 then Suc n
                            else logical_start lx\<rparr>)"
proof -
  have "list_all (\<lambda>(l, k). k < Suc n) (userdata lx)"
    using assms(1) by (auto simp: lex_wf_def line_ok_def list_all_iff)
  then show ?thesis
    using assms list_all_line_ok_mono [of n _ "Suc n"] unfolding lex_wf_def by auto
qed

lemma lex_wf_process_line:
  assumes "lex_wf n lx"
  shows "lex_wf (Suc n) (snd (process_line collect lx phys (Suc n) fin))"
proof -
  have "lex_wf (Suc n) lx" using assms by (rule lex_wf_mono) simp
  then show ?thesis
    unfolding process_line_def Let_def
    using lex_wf_extend [OF assms] lex_wf_deliver
    by (auto simp: not_le)
qed

definition lines_left :: "string \<Rightarrow> nat" where
  "lines_left p = (if p = [] then 0 else Suc (count_list p (CHR 0x0A)))"

lemma buf_line_split:
  obtains (no_newline) "p = buf_line p" "buf_rest p = []"
  | (newline) "p = buf_line p @ CHR 0x0A # buf_rest p"
proof (cases "dropWhile (\<lambda>c. c \<noteq> CHR 0x0A) p")
  case Nil
  then have "p = buf_line p"
    by (metis append_Nil2 buf_line_def takeWhile_dropWhile_id)
  with no_newline show ?thesis by (metis buf_rest_def drop_all le_Suc_eq order_refl)
next
  case (Cons c r)
  then have "c = CHR 0x0A" using hd_dropWhile [of "\<lambda>c. c \<noteq> CHR 0x0A" p] by simp
  with Cons have p: "p = buf_line p @ CHR 0x0A # r"
    by (metis buf_line_def takeWhile_dropWhile_id)
  then have "buf_rest p = r"
    unfolding buf_rest_def by (metis append_Cons append_Nil append_assoc append_eq_conv_conj length_append_singleton)
  with newline p show ?thesis by metis
qed

lemma lines_left_buf_rest:
  assumes "p \<noteq> []"
  shows "Suc (lines_left (buf_rest p)) \<le> lines_left p"
proof (cases p rule: buf_line_split)
  case no_newline
  then show ?thesis using assms by (simp add: lines_left_def)
next
  case newline
  then have "count_list p (CHR 0x0A) = count_list (buf_line p) (CHR 0x0A) + Suc (count_list (buf_rest p) (CHR 0x0A))"
    by (metis count_list_append count_list.simps(2) One_nat_def Suc_eq_plus1)
  then show ?thesis using assms by (simp add: lines_left_def)
qed

lemma parse_buffer_loop_wf:
  "lex_wf n lx \<Longrightarrow> n + lines_left p \<le> m \<Longrightarrow> lex_wf m (snd (parse_buffer_loop collect lx p n))"
proof (induction "collect :: (string \<times> nat) list ini_line_fn" lx p n rule: parse_buffer_loop.induct)
  case (1 lx p n)
  show ?case
  proof (cases "p = []")
    case True
    then show ?thesis
      using 1 lex_wf_deliver lex_wf_mono
      by (subst parse_buffer_loop.simps) (auto simp: lines_left_def)
  next
    case False
    have m: "Suc n + lines_left (buf_rest p) \<le> m"
      using lines_left_buf_rest [OF False] 1 by linarith
    obtain rc lx' where st: "process_line collect lx (buf_line p) (Suc n) (buf_rest p = []) = (rc, lx')"
      by fastforce
    have wf: "lex_wf (Suc n) lx'"
      using lex_wf_process_line [OF \<open>lex_wf n lx\<close>] st by (metis snd_conv)
    then have "lex_wf m lx'" using m lex_wf_mono by auto
    moreover have "lex_wf m lx" using 1 lex_wf_mono by (metis le_add1 order_trans)
    ultimately show ?thesis
      using False m wf st 1(1) [OF False]
      by (subst parse_buffer_loop.simps) auto
  qed
qed

section \<open>Properties\<close>

text \<open>
  Whatever text the buffer entry point is given, the logical lines it hands to the
  callback are not blank, end in a byte that is not white space, fit the 4096-byte line
  buffer, and carry 1-based physical line numbers that exist in the text and strictly
  increase; and the line buffer keeps room for its terminating NUL.
\<close>

theorem parse_buffer_lines_wf:
  "let r = snd (hpu_ini_parse_buffer text collect [])
   in list_all (line_ok (lines_left (cstr text))) (userdata r)
      \<and> sorted_wrt (<) (map snd (userdata r))
      \<and> length (logical r) + 1 < HPU_INI_MAX_LOGICAL"
  using parse_buffer_loop_wf [OF lex_wf_init, of 0 "cstr text" "lines_left (cstr text)"]
  by (simp add: hpu_ini_parse_buffer_def lex_wf_def Let_def)


text \<open>The parts of the two entry points that the properties share.\<close>

lemma parse_buffer_plain:
  "\<forall>l \<in> set ls. plain_line l \<Longrightarrow>
     hpu_ini_parse_buffer (lines_text ls @ t) cb u =
     parse_buffer_loop cb (ini_lexer_init u) (lines_text ls @ cstr t) 0"
proof -
  assume "\<forall>l \<in> set ls. plain_line l"
  then have "CHR 0x00 \<notin> set (lines_text ls)"
    by (auto simp: lines_text_def plain_line_def)
  then show ?thesis by (simp add: hpu_ini_parse_buffer_def cstr_append)
qed

fun no_trailing_backslash :: "string list \<Rightarrow> bool" where
  "no_trailing_backslash ls =
     list_all (\<lambda>l. tail_run (CHR 0x5C) (rtrim is_phys_blank l) = 0) ls"

lemma run_lines_then_buffer:
  "idle lx \<Longrightarrow> \<forall>l \<in> set ls. plain_line l \<Longrightarrow> no_trailing_backslash ls \<Longrightarrow>
     run_lines cb lx n ls = (0, lx') \<Longrightarrow>
     parse_buffer_loop cb lx (lines_text ls @ t) n = parse_buffer_loop cb lx' t (n + length ls)"
proof (induction ls arbitrary: lx n)
  case Nil
  then show ?case by simp
next
  case (Cons l ls)
  obtain rc lx1 where e: "emit cb lx (strip_comment_and_trim l) (Suc n) = (rc, lx1)"
    by fastforce
  with Cons.prems have "rc = 0" "run_lines cb lx1 (Suc n) ls = (0, lx')"
    by (auto split: if_splits)
  moreover have "idle lx1" using e Cons.prems(1) emit_idle [of lx cb] by (metis snd_conv)
  ultimately show ?case
    using Cons e by (simp add: parse_buffer_loop_line process_line_buffer)
qed

lemma run_lines_then_file:
  "idle lx \<Longrightarrow> \<forall>l \<in> set ls. plain_line l \<Longrightarrow> run_lines cb lx n ls = (0, lx') \<Longrightarrow>
     parse_file_loop cb lx (lines_text ls @ t) n = parse_file_loop cb lx' t (n + length ls)"
proof (induction ls arbitrary: lx n)
  case Nil
  then show ?case by simp
next
  case (Cons l ls)
  obtain rc lx1 where e: "emit cb lx (strip_comment_and_trim l) (Suc n) = (rc, lx1)"
    by fastforce
  with Cons.prems have "rc = 0" "run_lines cb lx1 (Suc n) ls = (0, lx')"
    by (auto split: if_splits)
  moreover have "idle lx1" using e Cons.prems(1) emit_idle [of lx cb] by (metis snd_conv)
  ultimately show ?case
    using Cons e by (simp add: parse_file_loop_line process_line_file)
qed

lemma run_lines_collect: "\<exists>lx'. run_lines collect lx n ls = (0, lx')"
proof (induction ls arbitrary: lx n)
  case Nil
  then show ?case by simp
next
  case (Cons l ls)
  then show ?case by (simp add: emit_def collect_def)
qed

text \<open>
  An invariant of the user data that the callback keeps while it returns 0, and what holds when it
  stops the reading.
\<close>

definition cb_keeps :: "'u ini_line_fn \<Rightarrow> ('u \<Rightarrow> bool) \<Rightarrow> (int \<Rightarrow> 'u \<Rightarrow> bool) \<Rightarrow> bool" where
  "cb_keeps cb I J \<longleftrightarrow> (\<forall>u line n. I u \<longrightarrow> (case cb u line n of (rc, u1) \<Rightarrow> if rc = 0 then I u1 else J rc u1))"

definition kept :: "('u \<Rightarrow> bool) \<Rightarrow> (int \<Rightarrow> 'u \<Rightarrow> bool) \<Rightarrow> int \<times> 'u ini_lexer \<Rightarrow> bool" where
  "kept I J r \<longleftrightarrow> (if fst r = 0 then I (userdata (snd r))
     else J (fst r) (userdata (snd r)) \<or> fst r = HPULOGC_ERR_CONFIG \<and> I (userdata (snd r)))"

lemma deliver_kept:
  assumes "cb_keeps cb I J" "I (userdata lx)"
  shows "kept I J (deliver cb lx)"
proof -
  obtain rc u where cb: "cb (userdata lx) (strip_comment_and_trim (logical lx)) (logical_start lx) = (rc, u)" by fastforce
  have "case cb (userdata lx) (strip_comment_and_trim (logical lx)) (logical_start lx) of
      (rc, u) \<Rightarrow> if rc = 0 then I u else J rc u" using assms by (simp add: cb_keeps_def)
  then have "if rc = 0 then I u else J rc u" by (simp only: cb prod.case)
  then show ?thesis using assms(2) by (simp add: deliver_def Let_def cb kept_def split: if_splits)
qed

lemma kept_if: "(P \<Longrightarrow> kept I J a) \<Longrightarrow> (\<not> P \<Longrightarrow> kept I J b) \<Longrightarrow> kept I J (if P then a else b)"
  by simp

lemma kept_stop: "I (userdata lx) \<Longrightarrow> kept I J (HPULOGC_ERR_CONFIG, lx)"
  by (simp add: kept_def status_simps)

lemma kept_go: "I (userdata lx) \<Longrightarrow> kept I J (0, lx)"
  by (simp add: kept_def)

lemma process_line_kept:
  "cb_keeps cb I J \<Longrightarrow> I (userdata lx) \<Longrightarrow> kept I J (process_line cb lx phys n fin)"
  unfolding process_line_def Let_def
  by (intro kept_if kept_stop kept_go deliver_kept) simp_all

lemma parse_file_loop_kept:
  "cb_keeps cb I J \<Longrightarrow> I (userdata lx) \<Longrightarrow> kept I J (parse_file_loop cb lx s n)"
proof (induction cb lx s n rule: parse_file_loop.induct)
  case (1 cb lx s n)
  show ?case
  proof (cases "fgets HPU_INI_MAX_LINE s")
    case None
    then show ?thesis using 1 deliver_kept by (subst parse_file_loop.simps) simp
  next
    case (Some r)
    obtain raw fin rest where r: "r = (raw, fin, rest)" by (cases r) auto
    obtain rc lx1 where p: "process_line cb lx (cstr raw) (Suc n) fin = (rc, lx1)" by fastforce
    have k: "kept I J (rc, lx1)" using process_line_kept [OF 1(2,3), of "cstr raw" "Suc n" fin] p by simp
    show ?thesis
    proof (cases "cstr raw \<noteq> [] \<and> last (cstr raw) \<noteq> CHR 0x0A \<and> \<not> fin")
      case True
      then show ?thesis using Some r 1(3)
        by (subst parse_file_loop.simps) (simp add: Let_def kept_def status_simps)
    next
      case go: False
      show ?thesis
      proof (cases "rc = 0")
        case False
        then show ?thesis using Some r go p k by (subst parse_file_loop.simps) (auto simp: Let_def)
      next
        case True
        then have "I (userdata lx1)" using k by (simp add: kept_def)
        then have "kept I J (parse_file_loop cb lx1 rest (Suc n))"
          using 1(1) [OF Some r [symmetric] refl refl go p [symmetric] _ 1(2)] True by simp
        then show ?thesis using Some r go p True by (subst parse_file_loop.simps) (auto simp: Let_def)
      qed
    qed
  qed
qed

lemma parse_file_kept:
  "cb_keeps cb I J \<Longrightarrow> I u \<Longrightarrow> kept I J (hpu_ini_parse_file is_regular open_file (Some f) cb u)"
  using parse_file_loop_kept [of cb I J "ini_lexer_init u"] kept_stop [of I "ini_lexer_init u" J]
  by (auto simp: hpu_ini_parse_file_def ini_lexer_init_def split: option.split)

text \<open>The interface of a callback: what a reader of a file may rely on.\<close>

locale line_callback =
  fixes cb :: "'u ini_line_fn" and I :: "'u \<Rightarrow> bool" and J :: "int \<Rightarrow> 'u \<Rightarrow> bool"
  assumes keeps: "cb_keeps cb I J"
begin

lemma file_kept: "I u \<Longrightarrow> kept I J (hpu_ini_parse_file is_regular open_file (Some f) cb u)"
  by (rule parse_file_kept [OF keeps])

lemma file_done:
  assumes "I u" "hpu_ini_parse_file is_regular open_file (Some f) cb u = (0, lx)"
  shows "I (userdata lx)"
  using file_kept [OF assms(1), of is_regular open_file f] assms(2) by (simp add: kept_def)

lemma file_stopped:
  assumes "I u" "hpu_ini_parse_file is_regular open_file (Some f) cb u = (rc, lx)" "rc \<noteq> 0"
  shows "J rc (userdata lx) \<or> rc = HPULOGC_ERR_CONFIG \<and> I (userdata lx)"
  using file_kept [OF assms(1), of is_regular open_file f] assms(2,3) by (simp add: kept_def)

end

text \<open>
  The two entry points agree on every text of newline-terminated physical lines (each
  below the 1024-byte limit, without a comment) in which no line ends in a backslash: for
  every callback they make the same calls with the same line numbers and return the same
  code and the same lexer, which is what a lexer without continuation does with the lines.
\<close>

theorem parse_file_equals_buffer:
  assumes "list_all plain_line ls" and "no_trailing_backslash ls"
    and "is_regular f" and "open_file f = Some (lines_text ls)"
  shows "hpu_ini_parse_file is_regular open_file (Some f) cb u = run_lines cb (ini_lexer_init u) 0 ls
    \<and> hpu_ini_parse_buffer (lines_text ls) cb u = run_lines cb (ini_lexer_init u) 0 ls"
  using assms parse_buffer_plain [of ls "[]" cb u]
  by (auto simp: hpu_ini_parse_file_def parse_file_run_lines parse_buffer_run_lines list_all_iff cstr_def)

theorem parse_file_equals_buffer_witness:
  "hpu_ini_parse_buffer ''a = 1\<newline>b=2 \<newline>'' collect [] = run_lines collect (ini_lexer_init []) 0 [''a = 1'', ''b=2 '']
   \<and> userdata (snd (run_lines collect (ini_lexer_init []) 0 [''a = 1'', ''b=2 '']))
     = [(''a = 1'', 1), (''b=2'', 2)]"
proof -
  let ?ls = "[''a = 1'', ''b=2 '']"
  have "list_all plain_line ?ls" "no_trailing_backslash ?ls"
    by (simp_all add: plain_line_def HPU_INI_MAX_LINE_def rtrim_def tail_run_def is_phys_blank_def)
  from parse_file_equals_buffer [of ?ls "\<lambda>_. True" f "\<lambda>_. Some (lines_text ?ls)" collect "[]", OF this]
  show ?thesis
    by (simp add: emit_def collect_def strip_comment_and_trim_def rtrim_def is_line_blank_def
        is_phys_blank_def ini_lexer_init_def)
qed

text \<open>
  A backslash at the end of a physical line continues it for the buffer entry point but
  not for the file entry point: \<^verbatim>\<open>fgets\<close> leaves the newline at the end of the line, which
  the trailing-blank trim of \<^verbatim>\<open>process_line\<close> does not remove, so the backslash is never the
  last byte. The same two lines are one joined logical line (at line 1) for the buffer, and
  two logical lines, the first with its backslash, for the file.
\<close>

theorem continuation_only_in_buffers:
  assumes "plain_line (a @ [CHR 0x5C])" and "plain_line b"
    and "a \<noteq> [] \<and> last a \<noteq> CHR 0x5C" and "no_trailing_backslash [b]"
    and "cut_comment False (a @ b) = a @ b"
    and "strip_comment_and_trim b \<noteq> []"
    and "is_regular f" and "open_file f = Some (lines_text [a @ [CHR 0x5C], b])"
  shows "userdata (snd (hpu_ini_parse_buffer (lines_text [a @ [CHR 0x5C], b]) collect []))
           = [(strip_comment_and_trim (a @ b), 1)]
    \<and> userdata (snd (hpu_ini_parse_file is_regular open_file (Some f) collect []))
           = [(a @ [CHR 0x5C], 1), (strip_comment_and_trim b, 2)]"
proof -
  let ?l = "a @ [CHR 0x5C]"
  have lens: "length a < 1022" "length b < 1023"
    using assms(1,2) by (auto simp: plain_line_def HPU_INI_MAX_LINE_def)
  have strip_l: "strip_physical ?l = ?l" "strip_comment_and_trim ?l = ?l"
    using assms(1) by (auto simp: plain_line_def strip_physical_def strip_comment_and_trim_def
        is_phys_blank_def is_line_blank_def)
  have run1: "tail_run (CHR 0x5C) ?l = 1"
    using assms(3) by (simp add: tail_run_eq_0)
  have first: "process_line collect (ini_lexer_init []) ?l 1 False
      = (0, (ini_lexer_init [])\<lparr>logical := a, logical_start := 1\<rparr>)"
    using assms(1,3) lens run1 strip_l
    by (simp add: process_line_def Let_def drop_backslash_def plain_line_def HPU_INI_MAX_LOGICAL_def
        HPU_INI_MAX_LINE_def ini_lexer_init_def)
  let ?b = "rtrim is_phys_blank b"
  have strip_b: "strip_physical b = ?b"
    using assms(2) by (simp add: plain_line_def strip_physical_def)
  have ab: "strip_comment_and_trim (a @ ?b) = strip_comment_and_trim (a @ b)"
  proof -
    obtain t where t: "b = ?b @ t" "\<forall>c \<in> set t. is_phys_blank c" using rtrim_prefix by metis
    then have "cut_comment False (a @ ?b) = a @ ?b"
      using assms(5) cut_comment_of_prefix by (metis append_assoc)
    moreover have "rtrim is_line_blank ((a @ ?b) @ t) = rtrim is_line_blank (a @ ?b)"
      using t(2) by (intro rtrim_append_all) (simp add: blank_phys_line)
    ultimately show ?thesis
      using assms(5) t(1) by (metis append_assoc strip_comment_and_trim_def)
  qed
  have ne: "strip_comment_and_trim (a @ b) \<noteq> []"
  proof -
    have "\<exists>c \<in> set b. \<not> is_line_blank c"
      using assms(2,6) by (auto simp: strip_comment_and_trim_def rtrim_eq_Nil plain_line_def)
    then show ?thesis using assms(5) by (auto simp: strip_comment_and_trim_def rtrim_eq_Nil)
  qed
  have "cstr b = b" using assms(2) by (simp add: plain_line_def)
  then have second: "process_line collect ((ini_lexer_init [])\<lparr>logical := a, logical_start := 1\<rparr>) b 2 True
      = (0, (ini_lexer_init [])\<lparr>userdata := [(strip_comment_and_trim (a @ b), 1)]\<rparr>)"
    using assms(3,4) lens strip_b ab ne length_rtrim_le [of is_phys_blank b]
    by (simp add: process_line_def Let_def drop_backslash_def deliver_def collect_def
        HPU_INI_MAX_LOGICAL_def HPU_INI_MAX_LINE_def ini_lexer_init_def)
  have "hpu_ini_parse_buffer (lines_text [?l, b]) collect []
      = parse_buffer_loop collect (ini_lexer_init []) (lines_text [?l, b]) 0"
    using parse_buffer_plain [of "[?l, b]" "[]"] assms(1,2) by (simp add: cstr_def)
  also have "\<dots> = (0, (ini_lexer_init [])\<lparr>userdata := [(strip_comment_and_trim (a @ b), 1)]\<rparr>)"
    using first second parse_buffer_loop_line [OF assms(1), of collect _ "b @ [CHR 0x0A]" 0]
      parse_buffer_loop_line [OF assms(2), of collect _ "[]" 1]
    by (simp add: parse_buffer_loop.simps [of _ _ "[]"] deliver_def ini_lexer_init_def numeral_2_eq_2)
  finally have "userdata (snd (hpu_ini_parse_buffer (lines_text [?l, b]) collect []))
           = [(strip_comment_and_trim (a @ b), 1)]" by simp
  moreover have "userdata (snd (hpu_ini_parse_file is_regular open_file (Some f) collect []))
           = [(?l, 1), (strip_comment_and_trim b, 2)]"
    using assms strip_l parse_file_run_lines [OF idle_init, of "[?l, b]" collect "[]" 0]
    by (simp add: hpu_ini_parse_file_def emit_def collect_def ini_lexer_init_def)
  ultimately show ?thesis ..
qed

theorem continuation_only_in_buffers_witness:
  "userdata (snd (hpu_ini_parse_buffer (lines_text [''k = one '' @ [CHR 0x5C], ''two'']) collect []))
     = [(''k = one two'', 1)]
   \<and> userdata (snd (hpu_ini_parse_file (\<lambda>_. True)
        (\<lambda>_. Some (lines_text [''k = one '' @ [CHR 0x5C], ''two''])) (Some ''h.conf'') collect []))
     = [(''k = one '' @ [CHR 0x5C], 1), (''two'', 2)]"
proof -
  have "plain_line (''k = one '' @ [CHR 0x5C])" "plain_line ''two''" "no_trailing_backslash [''two'']"
    "cut_comment False (''k = one '' @ ''two'') = ''k = one '' @ ''two''"
    "strip_comment_and_trim ''two'' = ''two''"
    "strip_comment_and_trim (''k = one '' @ ''two'') = ''k = one two''"
    "''k = one '' \<noteq> [] \<and> last ''k = one '' \<noteq> CHR 0x5C"
    by (simp_all add: plain_line_def HPU_INI_MAX_LINE_def rtrim_def tail_run_def is_phys_blank_def
        is_line_blank_def strip_comment_and_trim_def)
  with continuation_only_in_buffers [of "''k = one ''" "''two''" "\<lambda>_. True" "''h.conf''"
      "\<lambda>_. Some (lines_text [''k = one '' @ [CHR 0x5C], ''two''])"]
  show ?thesis by simp
qed

text \<open>
  A physical line over the limit stops both entry points with
  \<^verbatim>\<open>HPULOGC_ERR_CONFIG\<close> and its own 1-based line number, after the lines before it were
  delivered; the file entry point already refuses a line of 1023 bytes.
\<close>

theorem long_line_rejected:
  assumes "list_all plain_line ls" and "no_trailing_backslash ls"
    and "CHR 0x0A \<notin> set l" and "CHR 0x00 \<notin> set l"
    and "is_regular f" and "open_file f = Some (lines_text ls @ l @ t)"
  shows "(length l \<ge> 1024 \<longrightarrow>
      hpu_ini_parse_buffer (lines_text ls @ l @ CHR 0x0A # t) collect []
        = (HPULOGC_ERR_CONFIG, (snd (run_lines collect (ini_lexer_init []) 0 ls))\<lparr>err_line := Some (length ls + 1)\<rparr>))
    \<and> (length l \<ge> 1023 \<longrightarrow>
      hpu_ini_parse_file is_regular open_file (Some f) collect []
        = (HPULOGC_ERR_CONFIG, (snd (run_lines collect (ini_lexer_init []) 0 ls))\<lparr>err_line := Some (length ls + 1)\<rparr>))"
proof -
  obtain lx where lx: "run_lines collect (ini_lexer_init []) 0 ls = (0, lx)"
    using run_lines_collect by blast
  have plain: "\<forall>l \<in> set ls. plain_line l" using assms(1) by (simp add: list_all_iff)
  have "hpu_ini_parse_buffer (lines_text ls @ l @ CHR 0x0A # t) collect []
        = (HPULOGC_ERR_CONFIG, (snd (run_lines collect (ini_lexer_init []) 0 ls))\<lparr>err_line := Some (length ls + 1)\<rparr>)"
    if "length l \<ge> 1024"
  proof -
    have c: "cstr (l @ CHR 0x0A # t) = l @ CHR 0x0A # cstr t"
      using assms(4) by (induction l) (auto simp: cstr_def)
    have "buf_line (l @ CHR 0x0A # cstr t) = l"
      using assms(3) by (simp add: buf_line_def takeWhile_line)
    then have "parse_buffer_loop collect lx (l @ CHR 0x0A # cstr t) (length ls)
       = (HPULOGC_ERR_CONFIG, lx\<lparr>err_line := Some (length ls + 1)\<rparr>)"
      using that by (subst parse_buffer_loop.simps) (simp add: HPU_INI_MAX_LINE_def)
    then show ?thesis
      using run_lines_then_buffer [OF idle_init plain assms(2) lx, of "l @ CHR 0x0A # cstr t"]
        parse_buffer_plain [OF plain, of "l @ CHR 0x0A # t" collect "[]"] lx c by simp
  qed
  moreover have "hpu_ini_parse_file is_regular open_file (Some f) collect []
        = (HPULOGC_ERR_CONFIG, (snd (run_lines collect (ini_lexer_init []) 0 ls))\<lparr>err_line := Some (length ls + 1)\<rparr>)"
    if len: "length l \<ge> 1023"
  proof -
    have tw: "length (takeWhile (\<lambda>c. c \<noteq> CHR 0x0A) (l @ t)) \<ge> 1023"
      using len assms(3) by (subst takeWhile_append2) auto
    have raw: "take 1023 (l @ t) = take 1023 l" using len by simp
    then have g: "fgets HPU_INI_MAX_LINE (l @ t) = Some (take 1023 l, False, drop 1023 (l @ t))"
      using tw len by (auto simp: fgets_def Let_def HPU_INI_MAX_LINE_def)
    have "cstr (take 1023 l) = take 1023 l"
      using assms(4) by (meson cstr_no_nul in_set_takeD)
    moreover have ne: "take 1023 l \<noteq> []" using len by auto
    moreover have "last (take 1023 l) \<noteq> CHR 0x0A"
      using assms(3) last_in_set [OF ne] by (metis in_set_takeD)
    ultimately have "parse_file_loop collect lx (l @ t) (length ls)
       = (HPULOGC_ERR_CONFIG, lx\<lparr>err_line := Some (length ls + 1)\<rparr>)"
      using g by (subst parse_file_loop.simps) simp
    then show ?thesis
      using run_lines_then_file [OF idle_init plain lx, of "l @ t"] assms(5,6) lx
      by (simp add: hpu_ini_parse_file_def)
  qed
  ultimately show ?thesis by blast
qed

theorem long_line_rejected_witness:
  "fst (hpu_ini_parse_buffer (lines_text [''a=1''] @ replicate 1024 (CHR ''x'') @ ''\<newline>'') collect []) = HPULOGC_ERR_CONFIG
   \<and> err_line (snd (hpu_ini_parse_buffer (lines_text [''a=1''] @ replicate 1024 (CHR ''x'') @ ''\<newline>'') collect [])) = Some 2"
proof -
  have "list_all plain_line [''a=1'']" "no_trailing_backslash [''a=1'']"
    by (simp_all add: plain_line_def HPU_INI_MAX_LINE_def rtrim_def tail_run_def is_phys_blank_def)
  from long_line_rejected [OF this, of "replicate 1024 (CHR ''x'')" "\<lambda>_. True" f
      "\<lambda>_. Some (lines_text [''a=1''] @ replicate 1024 (CHR ''x'') @ [])" "[]"]
  show ?thesis by simp
qed

end
