(* ===== verification/ConfFile.thy ===== *)
theory ConfFile
  imports ConfState IniLexer
begin

text \<open>
  The configuration file parser, \<^verbatim>\<open>src/conf/conf_file.c\<close>: one definition per section
  parser, the line callback with its section order check, the pre-scan for \<^verbatim>\<open>strict init\<close> and
  \<^verbatim>\<open>hpu_conf_load_file\<close> over the line reader of IniLexer. A parser's
  return value is always the \<^verbatim>\<open>err\<close> field it leaves (0 at entry), so each definition returns
  the parser context. Diagnostics are collected in order. Allocation succeeds. The flags of the
  build, \<^verbatim>\<open>strtod\<close> and the sink registry are parameters.
\<close>

section \<open>The parser context\<close>

datatype conf_section =
  SEC_BUILD | SEC_GLOBAL | SEC_FORMATS | SEC_OUTPUTS | SEC_BUFFER | SEC_ASYNC | SEC_THROTTLE | SEC_RULES | SEC_ADVANCED

definition g_section_names :: "(string \<times> conf_section) list" where
  "g_section_names =
     [(''build'', SEC_BUILD), (''global'', SEC_GLOBAL), (''formats'', SEC_FORMATS), (''outputs'', SEC_OUTPUTS),
      (''buffer'', SEC_BUFFER), (''async'', SEC_ASYNC), (''throttle'', SEC_THROTTLE), (''rules'', SEC_RULES),
      (''advanced'', SEC_ADVANCED)]"

fun sec_rank :: "conf_section \<Rightarrow> nat" where
  "sec_rank SEC_BUILD = 0" | "sec_rank SEC_GLOBAL = 1" | "sec_rank SEC_FORMATS = 2" | "sec_rank SEC_OUTPUTS = 3"
| "sec_rank SEC_BUFFER = 4" | "sec_rank SEC_ASYNC = 5" | "sec_rank SEC_THROTTLE = 6" | "sec_rank SEC_RULES = 7"
| "sec_rank SEC_ADVANCED = 8"

instantiation conf_section :: linorder
begin

definition less_conf_section :: "conf_section \<Rightarrow> conf_section \<Rightarrow> bool" where
  "less_conf_section a b \<longleftrightarrow> sec_rank a < sec_rank b"

definition less_eq_conf_section :: "conf_section \<Rightarrow> conf_section \<Rightarrow> bool" where
  "less_eq_conf_section a b \<longleftrightarrow> sec_rank a \<le> sec_rank b"

lemma sec_rank_inj: "sec_rank a = sec_rank b \<longleftrightarrow> a = b"
  by (cases a; cases b) simp_all

instance
  by standard (auto simp: less_conf_section_def less_eq_conf_section_def sec_rank_inj)

end

datatype diag =
  D_fail nat string | D_clamp nat string int int | D_note nat string | D_unknown nat string | D_mismatch nat string

text \<open>\<open>ps_seen\<close> lists the sections entered, newest first.\<close>

record conf_parser =
  ps_conf :: hpu_conf
  ps_strict :: bool
  ps_cur_section :: "conf_section option"
  ps_seen :: "conf_section list"
  ps_err :: int
  ps_diag :: "diag list"

definition parse_fail :: "conf_parser \<Rightarrow> nat \<Rightarrow> string \<Rightarrow> conf_parser" where
  "parse_fail ps line_no m = ps\<lparr>ps_err := HPULOGC_ERR_CONFIG, ps_diag := ps_diag ps @ [D_fail line_no m]\<rparr>"

definition warn :: "conf_parser \<Rightarrow> diag \<Rightarrow> conf_parser" where
  "warn ps d = ps\<lparr>ps_diag := ps_diag ps @ [d]\<rparr>"

definition put :: "(hpu_conf \<Rightarrow> hpu_conf) \<Rightarrow> conf_parser \<Rightarrow> conf_parser" where
  "put f ps = ps\<lparr>ps_conf := f (ps_conf ps)\<rparr>"

definition clamp_long :: "conf_parser \<Rightarrow> nat \<Rightarrow> int \<Rightarrow> int \<Rightarrow> int \<Rightarrow> string \<Rightarrow> int \<times> conf_parser" where
  "clamp_long ps line_no v lo hi key =
     (if v < lo \<or> v > hi
      then let clamped = (if v < lo then lo else hi) in (clamped, warn ps (D_clamp line_no key v clamped))
      else (v, ps))"

definition put_clamped ::
  "(int \<Rightarrow> hpu_conf \<Rightarrow> hpu_conf) \<Rightarrow> conf_parser \<Rightarrow> nat \<Rightarrow> string \<Rightarrow> int \<Rightarrow> int \<Rightarrow> string \<Rightarrow> conf_parser" where
  "put_clamped f ps line_no v lo hi key =
     (case clamp_long ps line_no (strtol 10 v) lo hi key of (n, ps1) \<Rightarrow> put (f n) ps1)"

definition put_bool :: "(bool \<Rightarrow> hpu_conf \<Rightarrow> hpu_conf) \<Rightarrow> conf_parser \<Rightarrow> nat \<Rightarrow> string \<Rightarrow> string \<Rightarrow> conf_parser" where
  "put_bool f ps line_no v m =
     (case parse_bool v of Some b \<Rightarrow> put (f b) ps | None \<Rightarrow> parse_fail ps line_no m)"

definition put_enum ::
  "(int \<Rightarrow> hpu_conf \<Rightarrow> hpu_conf) \<Rightarrow> (string \<times> int) list \<Rightarrow> conf_parser \<Rightarrow> nat \<Rightarrow> string \<Rightarrow> string \<Rightarrow> conf_parser" where
  "put_enum f tbl ps line_no v m =
     (case eq_lookup tbl v of Some x \<Rightarrow> put (f x) ps | None \<Rightarrow> parse_fail ps line_no m)"

definition unknown_key :: "conf_parser \<Rightarrow> nat \<Rightarrow> string \<Rightarrow> string \<Rightarrow> conf_parser" where
  "unknown_key ps line_no key m =
     (if ps_strict ps then parse_fail ps line_no m else warn ps (D_unknown line_no key))"

section \<open>The global section\<close>

fun add_default_outputs :: "conf_parser \<Rightarrow> nat \<Rightarrow> string list \<Rightarrow> conf_parser" where
  "add_default_outputs ps line_no [] = ps"
| "add_default_outputs ps line_no (p # parts) =
     (let name = strip_quotes (trim p)
      in if name = [] then add_default_outputs ps line_no parts
         else if length (c_default_names (ps_conf ps)) \<ge> HPULOGC_MAX_OUTPUTS
              then parse_fail ps line_no ''too many default outputs''
         else add_default_outputs
                (put (\<lambda>c. c\<lparr>c_default_names := c_default_names c @ [take (HPULOGC_MAX_NAME_LEN - 1) name]\<rparr>) ps)
                line_no parts)"

definition id_formats :: "(string \<times> int) list" where
  "id_formats = [(''decimal'', 0), (''hex'', 1), (''none'', 2)]"

definition parse_global :: "build_flags \<Rightarrow> conf_parser \<Rightarrow> string \<Rightarrow> string \<Rightarrow> nat \<Rightarrow> conf_parser" where
  "parse_global B ps key v lno =
     (if key = ''strict init'' then put_bool (\<lambda>b c. c\<lparr>c_strict_init := b\<rparr>) ps lno v ''invalid boolean for 'strict init' ''
      else if key = ''level'' then put_enum (\<lambda>x c. c\<lparr>c_level := x\<rparr>) level_names ps lno v ''invalid level''
      else if key = ''default format'' then put (\<lambda>c. c\<lparr>c_default_format := take (HPULOGC_MAX_NAME_LEN - 1) v\<rparr>) ps
      else if key = ''default outputs'' then add_default_outputs ps lno (split_csv v HPULOGC_MAX_OUTPUTS)
      else if key = ''timezone'' then
        put_enum (\<lambda>x c. c\<lparr>c_use_utc := (x = 1)\<rparr>) [(''utc'', 1), (''local'', 0)] ps lno v ''invalid timezone (local|utc)''
      else if key = ''timestamp source'' then
        put_enum (\<lambda>x c. c\<lparr>c_timestamp_source := x\<rparr>) [(''realtime'', HPULOGC_TS_REALTIME), (''monotonic'', HPULOGC_TS_MONOTONIC)]
          ps lno v ''invalid timestamp source''
      else if key = ''time format'' then put (\<lambda>c. c\<lparr>c_time_format := take (HPULOGC_MAX_FMT_LEN - 1) v\<rparr>) ps
      else if key = ''encoding'' then
        (if \<not> eqcase v ''utf-8'' \<and> \<not> eqcase v ''utf8'' then parse_fail ps lno ''unsupported encoding (only utf-8)'' else ps)
      else if key = ''capture source loc'' then
        (if b_source_loc B then put_bool (\<lambda>b c. c\<lparr>c_capture_source_loc := b\<rparr>) ps lno v ''invalid boolean'' else ps)
      else if key = ''newline'' then
        put_enum (\<lambda>x c. c\<lparr>c_newline_style := x\<rparr>) [(''auto'', 0), (''lf'', 1), (''crlf'', 2)] ps lno v ''invalid newline style''
      else if key = ''pid format'' then put_enum (\<lambda>x c. c\<lparr>c_pid_fmt := x\<rparr>) id_formats ps lno v ''invalid pid format''
      else if key = ''tid format'' then put_enum (\<lambda>x c. c\<lparr>c_tid_fmt := x\<rparr>) id_formats ps lno v ''invalid tid format''
      else if key = ''hot reload interval'' then
        put_clamped (\<lambda>n c. c\<lparr>c_hot_reload_interval := n\<rparr>) ps lno v 0 86400 ''hot reload interval''
      else if key = ''signal reload'' then
        (if b_hot_reload B then put_bool (\<lambda>b c. c\<lparr>c_signal_reload := b\<rparr>) ps lno v ''invalid boolean'' else ps)
      else unknown_key ps lno key ''unknown key in [global]'')"

section \<open>Formats\<close>

definition parse_formats :: "conf_parser \<Rightarrow> string \<Rightarrow> string \<Rightarrow> nat \<Rightarrow> conf_parser" where
  "parse_formats ps key v lno =
     (if length key \<ge> HPULOGC_MAX_NAME_LEN then parse_fail ps lno ''format name too long''
      else if \<exists>f \<in> set (c_formats (ps_conf ps)). fmt_name f = key then parse_fail ps lno ''duplicate format definition''
      else if length v \<ge> HPULOGC_MAX_FMT_LEN then parse_fail ps lno ''format template too long (256 max)''
      else case hpu_format_compile key v of
             Inl e \<Rightarrow> parse_fail ps lno ''invalid format template''
           | Inr f \<Rightarrow> put (\<lambda>c. c\<lparr>c_formats := c_formats c @ [f]\<rparr>) ps)"

section \<open>Buffer, async, throttle\<close>

definition parse_buffer :: "conf_parser \<Rightarrow> string \<Rightarrow> string \<Rightarrow> nat \<Rightarrow> conf_parser" where
  "parse_buffer ps key v lno =
     (if key = ''buffer size'' then
        (case parse_size v of
           None \<Rightarrow> parse_fail ps lno ''invalid size''
         | Some sz \<Rightarrow>
             let ps1 = (if sz < 4096 then warn ps (D_note lno ''buffer size below 4KB, clamped'') else ps);
                 sz1 = (if sz < 4096 then 4096 else sz);
                 ps2 = (if sz1 > 1073741824 then warn ps1 (D_note lno ''buffer size above 1GB, clamped'') else ps1);
                 sz2 = (if sz1 > 1073741824 then 1073741824 else sz1)
             in put (\<lambda>c. c\<lparr>c_buffer_size := sz2\<rparr>) ps2)
      else if key = ''overflow policy'' then
        put_enum (\<lambda>x c. c\<lparr>c_overflow_policy := x\<rparr>)
          [(''discard'', HPULOGC_OVERFLOW_DISCARD), (''overwrite'', HPULOGC_OVERFLOW_OVERWRITE), (''wait'', HPULOGC_OVERFLOW_WAIT)]
          ps lno v ''invalid overflow policy''
      else unknown_key ps lno key ''unknown key in [buffer]'')"

definition parse_async :: "conf_parser \<Rightarrow> string \<Rightarrow> string \<Rightarrow> nat \<Rightarrow> conf_parser" where
  "parse_async ps key v lno =
     (if key = ''batch size'' then put_clamped (\<lambda>n c. c\<lparr>c_batch_size := n\<rparr>) ps lno v 1 65535 ''batch size''
      else if key = ''flush interval'' then
        put_clamped (\<lambda>n c. c\<lparr>c_flush_interval_ms := n\<rparr>) ps lno v 1 60000 ''flush interval''
      else if key = ''shutdown timeout'' then
        put_clamped (\<lambda>n c. c\<lparr>c_shutdown_timeout_ms := n\<rparr>) ps lno v 0 3600000 ''shutdown timeout''
      else if key = ''consumer threads'' then
        put_clamped (\<lambda>n c. c\<lparr>c_consumer_threads := n\<rparr>) ps lno v 1 HPU_MAX_CONSUMERS ''consumer threads''
      else unknown_key ps lno key ''unknown key in [async]'')"

definition put_throttle :: "(hpu_throttle_cfg \<Rightarrow> hpu_throttle_cfg) \<Rightarrow> hpu_conf \<Rightarrow> hpu_conf" where
  "put_throttle f c = c\<lparr>c_throttle := f (c_throttle c)\<rparr>"

definition parse_throttle :: "build_flags \<Rightarrow> conf_parser \<Rightarrow> string \<Rightarrow> string \<Rightarrow> nat \<Rightarrow> conf_parser" where
  "parse_throttle B ps key v lno =
     (if key = ''global rate limit'' then
        put_clamped (\<lambda>n. put_throttle (\<lambda>t. t\<lparr>th_global_rate := n\<rparr>)) ps lno v 0 1000000000 ''global rate limit''
      else if key = ''per category rate limit'' then
        put_clamped (\<lambda>n. put_throttle (\<lambda>t. t\<lparr>th_per_category_rate := n\<rparr>)) ps lno v 0 1000000000 ''per category rate limit''
      else if key = ''sampling rate'' then
        let d0 = b_strtod B v;
            out = (dbl_less d0 (Dbl 0) \<or> dbl_less (Dbl 1) d0);
            d = (if out then (if dbl_less d0 (Dbl 0) then Dbl 0 else Dbl 1) else d0);
            ps1 = (if out then warn ps (D_note lno ''sampling rate out of range, clamped'') else ps);
            n = (if dbl_le d (Dbl 0) then 0 else if dbl_le (Dbl 1) d then 1
                 else let k = dbl_to_int B (dbl_inverse_half B d) in if k < 1 then 1 else k)
        in put (put_throttle (\<lambda>t. t\<lparr>th_sampling_rate := d, th_sampling_n := n\<rparr>)) ps1
      else if key = ''burst size'' then
        put_clamped (\<lambda>n. put_throttle (\<lambda>t. t\<lparr>th_burst := n\<rparr>)) ps lno v 1 1000000000 ''burst size''
      else unknown_key ps lno key ''unknown key in [throttle]'')"

section \<open>Outputs\<close>

definition output_zero :: "string \<Rightarrow> hpu_conf_output" where
  "output_zero key =
     \<lparr>o_pub = \<lparr>out_type = HPULOGC_OUT_CONSOLE, out_stream = 0, out_color = False, out_path = None,
                out_rotate = HPULOGC_ROTATE_NONE, out_max_size = 0, out_time_unit = 0, out_max_files = 0,
                out_fsync = False, out_symlink_latest = False, out_rotate_naming = None,
                out_file_mode = 420, out_dir_mode = 493\<rparr>,
      o_name = key, o_path_buf = [], o_naming_buf = [], o_handle = None, o_is_generic = False, o_type_name = [],
      o_kv_key_off = [], o_kv_val_off = [], o_kv_pool = [], o_enabled = True, o_async = False, o_queue_size = 0\<rparr>"

definition pub :: "(hpulogc_output \<Rightarrow> hpulogc_output) \<Rightarrow> hpu_conf_output \<Rightarrow> hpu_conf_output" where
  "pub f o1 = o1\<lparr>o_pub := f (o_pub o1)\<rparr>"

definition o_enum ::
  "(int \<Rightarrow> hpulogc_output \<Rightarrow> hpulogc_output) \<Rightarrow> (string \<times> int) list \<Rightarrow> conf_parser \<Rightarrow> hpu_conf_output \<Rightarrow> nat \<Rightarrow> string \<Rightarrow> string
    \<Rightarrow> conf_parser \<times> hpu_conf_output" where
  "o_enum f tbl ps o1 lno v m =
     (case eq_lookup tbl v of Some x \<Rightarrow> (ps, pub (f x) o1) | None \<Rightarrow> (parse_fail ps lno m, o1))"

definition o_bool ::
  "(bool \<Rightarrow> hpu_conf_output \<Rightarrow> hpu_conf_output) \<Rightarrow> conf_parser \<Rightarrow> hpu_conf_output \<Rightarrow> nat \<Rightarrow> string \<Rightarrow> conf_parser \<times> hpu_conf_output" where
  "o_bool f ps o1 lno v =
     (case parse_bool v of Some b \<Rightarrow> (ps, f b o1) | None \<Rightarrow> (parse_fail ps lno ''invalid boolean'', o1))"

definition queue_param :: "conf_parser \<Rightarrow> hpu_conf_output \<Rightarrow> nat \<Rightarrow> string \<Rightarrow> conf_parser \<times> hpu_conf_output" where
  "queue_param ps o1 lno v =
     (case parse_size v of
        None \<Rightarrow> (parse_fail ps lno ''invalid size'', o1)
      | Some sz \<Rightarrow>
          let ps1 = (if sz < 65536 then warn ps (D_note lno ''queue size below 64KB, clamped'') else ps);
              sz1 = (if sz < 65536 then 65536 else sz);
              ps2 = (if sz1 > 16777216 then warn ps1 (D_note lno ''queue size above 16MB, clamped'') else ps1);
              sz2 = (if sz1 > 16777216 then 16777216 else sz1)
          in (ps2, o1\<lparr>o_queue_size := sz2\<rparr>))"

definition generic_param :: "conf_parser \<Rightarrow> hpu_conf_output \<Rightarrow> nat \<Rightarrow> string \<Rightarrow> string \<Rightarrow> conf_parser \<times> hpu_conf_output" where
  "generic_param ps o1 lno k v =
     (if length (o_kv_key_off o1) \<ge> HPU_CONF_MAX_SINK_KV then (parse_fail ps lno ''too many sink parameters (32 max)'', o1)
      else if length (o_kv_pool o1) + length k + length v + 2 > HPU_CONF_SINK_KV_POOL
           then (parse_fail ps lno ''sink parameters too long'', o1)
      else (ps, kv_store o1 k v))"

definition flat_param :: "conf_parser \<Rightarrow> hpu_conf_output \<Rightarrow> nat \<Rightarrow> string \<Rightarrow> string \<Rightarrow> conf_parser \<times> hpu_conf_output" where
  "flat_param ps o1 lno k v =
     (if k = ''stream'' then
        o_enum (\<lambda>x p. p\<lparr>out_stream := x\<rparr>) [(''stdout'', 0), (''stderr'', 1)] ps o1 lno v ''invalid stream''
      else if k = ''color'' then o_bool (\<lambda>b. pub (\<lambda>p. p\<lparr>out_color := b\<rparr>)) ps o1 lno v
      else if k = ''path'' then
        (if length v \<ge> HPULOGC_MAX_PATH_LEN then (parse_fail ps lno ''path too long (512 max)'', o1)
         else (ps, pub (\<lambda>p. p\<lparr>out_path := Some v\<rparr>) (o1\<lparr>o_path_buf := v\<rparr>)))
      else if k = ''rotate'' then
        o_enum (\<lambda>x p. p\<lparr>out_rotate := x\<rparr>)
          [(''none'', HPULOGC_ROTATE_NONE), (''size'', HPULOGC_ROTATE_SIZE), (''time'', HPULOGC_ROTATE_TIME), (''both'', HPULOGC_ROTATE_BOTH)]
          ps o1 lno v ''invalid rotate policy''
      else if k = ''max size'' then
        (case parse_size v of None \<Rightarrow> (parse_fail ps lno ''invalid size'', o1)
         | Some sz \<Rightarrow> (ps, pub (\<lambda>p. p\<lparr>out_max_size := sz\<rparr>) o1))
      else if k = ''time unit'' then
        o_enum (\<lambda>x p. p\<lparr>out_time_unit := x\<rparr>) [(''hour'', 0), (''day'', 1), (''week'', 2), (''month'', 3)]
          ps o1 lno v ''invalid time unit''
      else if k = ''max files'' then
        (case clamp_long ps lno (strtol 10 v) 0 100000 ''max files'' of
           (n, ps1) \<Rightarrow> (ps1, pub (\<lambda>p. p\<lparr>out_max_files := n\<rparr>) o1))
      else if k = ''fsync'' then o_bool (\<lambda>b. pub (\<lambda>p. p\<lparr>out_fsync := b\<rparr>)) ps o1 lno v
      else if k = ''symlink latest'' then o_bool (\<lambda>b. pub (\<lambda>p. p\<lparr>out_symlink_latest := b\<rparr>)) ps o1 lno v
      else if k = ''rotate naming'' then
        (if length v \<ge> HPULOGC_MAX_FMT_LEN then (parse_fail ps lno ''rotate naming too long'', o1)
         else (ps, pub (\<lambda>p. p\<lparr>out_rotate_naming := Some v\<rparr>) (o1\<lparr>o_naming_buf := v\<rparr>)))
      else if k = ''file perms'' then (ps, pub (\<lambda>p. p\<lparr>out_file_mode := nat (strtol 8 v mod 4096)\<rparr>) o1)
      else if k = ''dir perms'' then (ps, pub (\<lambda>p. p\<lparr>out_dir_mode := nat (strtol 8 v mod 4096)\<rparr>) o1)
      else (unknown_key ps lno k ''unknown output parameter'', o1))"

definition output_param :: "conf_parser \<Rightarrow> hpu_conf_output \<Rightarrow> nat \<Rightarrow> string \<Rightarrow> conf_parser \<times> hpu_conf_output" where
  "output_param ps o1 lno kv =
     (case split_eq kv of
        None \<Rightarrow> (parse_fail ps lno ''output parameter missing '=' '', o1)
      | Some (k0, v0) \<Rightarrow>
          let k = trim k0; v = strip_quotes (trim v0)
          in if k = ''enabled'' then o_bool (\<lambda>b o2. o2\<lparr>o_enabled := b\<rparr>) ps o1 lno v
             else if k = ''async'' then
               (if eqcase v ''on'' then (ps, o1\<lparr>o_async := True\<rparr>)
                else if eqcase v ''off'' then (ps, o1\<lparr>o_async := False\<rparr>)
                else (parse_fail ps lno ''async must be on or off'', o1))
             else if k = ''queue size'' then queue_param ps o1 lno v
             else if o_is_generic o1 then generic_param ps o1 lno k v
             else flat_param ps o1 lno k v)"

fun output_params :: "conf_parser \<Rightarrow> hpu_conf_output \<Rightarrow> nat \<Rightarrow> string list \<Rightarrow> conf_parser \<times> hpu_conf_output" where
  "output_params ps o1 lno [] = (ps, o1)"
| "output_params ps o1 lno (p # parts) =
     (case output_param ps o1 lno p of
        (ps1, o2) \<Rightarrow> if ps_err ps1 \<noteq> 0 then (ps1, o2) else output_params ps1 o2 lno parts)"

definition output_type :: "build_flags \<Rightarrow> conf_parser \<Rightarrow> hpu_conf_output \<Rightarrow> nat \<Rightarrow> string \<Rightarrow> conf_parser \<times> hpu_conf_output" where
  "output_type B ps o1 lno t =
     (if eqcase t ''console'' then (ps, pub (\<lambda>p. p\<lparr>out_type := HPULOGC_OUT_CONSOLE\<rparr>) o1)
      else if eqcase t ''file'' then (ps, pub (\<lambda>p. p\<lparr>out_type := HPULOGC_OUT_FILE\<rparr>) o1)
      else if eqcase t ''syslog'' \<or> eqcase t ''null'' \<or> b_registered B t
           then (ps, o1\<lparr>o_is_generic := True, o_type_name := take (HPULOGC_MAX_NAME_LEN - 1) t\<rparr>)
      else (parse_fail ps lno ''unknown or unregistered sink type'', o1))"

definition output_finish :: "conf_parser \<Rightarrow> hpu_conf_output \<Rightarrow> nat \<Rightarrow> conf_parser \<times> hpu_conf_output" where
  "output_finish ps o1 lno =
     (if o_is_generic o1 then (ps, o1)
      else if out_type (o_pub o1) = HPULOGC_OUT_FILE \<and> out_path (o_pub o1) = None
           then (parse_fail ps lno ''file output requires 'path' '', o1)
      else if out_rotate_naming (o_pub o1) = None
           then (ps, pub (\<lambda>p. p\<lparr>out_rotate_naming := Some HPU_ROTATE_DEFAULT_NAMING\<rparr>)
                       (o1\<lparr>o_naming_buf := HPU_ROTATE_DEFAULT_NAMING\<rparr>))
      else (ps, o1))"

text \<open>The new output stays in the table, also when its line turns out to be wrong.\<close>

definition output_line :: "build_flags \<Rightarrow> conf_parser \<Rightarrow> string \<Rightarrow> string \<Rightarrow> nat \<Rightarrow> conf_parser \<times> hpu_conf_output" where
  "output_line B ps key v lno =
     (case split_csv v 32 of
        [] \<Rightarrow> (parse_fail ps lno ''output type missing'', output_zero key)
      | t # parts \<Rightarrow>
          (case output_type B ps (output_zero key) lno (trim t) of
             (ps1, o1) \<Rightarrow>
               if ps_err ps1 \<noteq> 0 then (ps1, o1)
               else case output_params ps1 o1 lno parts of
                      (ps2, o2) \<Rightarrow> if ps_err ps2 \<noteq> 0 then (ps2, o2) else output_finish ps2 o2 lno))"

definition parse_outputs :: "build_flags \<Rightarrow> conf_parser \<Rightarrow> string \<Rightarrow> string \<Rightarrow> nat \<Rightarrow> conf_parser" where
  "parse_outputs B ps key v lno =
     (if hpu_conf_find_output (ps_conf ps) key \<ge> 0 then parse_fail ps lno ''duplicate output definition''
      else if length key \<ge> HPULOGC_MAX_NAME_LEN then parse_fail ps lno ''output name too long''
      else if length (c_outputs (ps_conf ps)) \<ge> HPULOGC_MAX_OUTPUTS then parse_fail ps lno ''too many outputs (16 max)''
      else case output_line B ps key v lno of
             (ps1, o1) \<Rightarrow> put (\<lambda>c. c\<lparr>c_outputs := c_outputs c @ [o1]\<rparr>) ps1)"

section \<open>Rules\<close>

fun rule_outputs :: "conf_parser \<Rightarrow> hpu_conf_rule \<Rightarrow> nat \<Rightarrow> string list \<Rightarrow> conf_parser \<times> hpu_conf_rule" where
  "rule_outputs ps r lno [] = (ps, r)"
| "rule_outputs ps r lno (p # parts) =
     (let name = strip_quotes (trim p)
      in if name = [] then rule_outputs ps r lno parts
         else if length (ru_outputs r) \<ge> HPULOGC_MAX_OUTPUTS then (parse_fail ps lno ''too many outputs in rule'', r)
         else rule_outputs ps (r\<lparr>ru_outputs := ru_outputs r @ [hpu_conf_find_output (ps_conf ps) name]\<rparr>) lno parts)"

definition rule_line :: "conf_parser \<Rightarrow> string \<Rightarrow> string \<Rightarrow> string \<Rightarrow> nat \<Rightarrow> conf_parser \<times> hpu_conf_rule" where
  "rule_line ps sel level_part v lno =
     (case parse_rule_levels level_part of (ok, lo, hi, neg) \<Rightarrow>
        let r = \<lparr>ru_category = sel, ru_min = lo, ru_max = hi, ru_negate = neg, ru_format = [], ru_outputs = []\<rparr>
        in if \<not> ok
           then (parse_fail ps lno (if level_part \<noteq> [] \<and> hd level_part = CHR ''!''
                   then ''invalid rule level: '!' must prefix a single level name (no '*', '~' or empty)''
                   else ''invalid rule level''), r)
           else if lo > hi then (parse_fail ps lno ''rule min level > max level'', r)
           else case split_csv v (HPULOGC_MAX_OUTPUTS + 1) of
                  [] \<Rightarrow> (parse_fail ps lno ''rule needs a format name'', r)
                | p # parts \<Rightarrow>
                    let f = strip_quotes (trim p)
                    in if length f \<ge> HPULOGC_MAX_NAME_LEN then (parse_fail ps lno ''format name too long'', r)
                       else rule_outputs ps (r\<lparr>ru_format := f\<rparr>) lno parts)"

definition parse_rules :: "conf_parser \<Rightarrow> string \<Rightarrow> string \<Rightarrow> nat \<Rightarrow> conf_parser" where
  "parse_rules ps key v lno =
     (if length (c_rules (ps_conf ps)) \<ge> HPULOGC_MAX_RULES then parse_fail ps lno ''too many rules (64 max)''
      else if CHR ''.'' \<notin> set key then parse_fail ps lno ''rule key must be category.level''
      else let sel = before_last (CHR ''.'') key
           in if sel = [] \<or> length sel \<ge> HPULOGC_MAX_NAME_LEN then parse_fail ps lno ''invalid rule selector''
              else case rule_line ps sel (take (HPULOGC_MAX_NAME_LEN - 1) (after_last (CHR ''.'') key)) v lno of
                     (ps1, r) \<Rightarrow> put (\<lambda>c. c\<lparr>c_rules := c_rules c @ [r]\<rparr>) ps1)"

section \<open>Advanced\<close>

definition parse_advanced :: "conf_parser \<Rightarrow> string \<Rightarrow> string \<Rightarrow> nat \<Rightarrow> conf_parser" where
  "parse_advanced ps key v lno =
     (if key = ''escape injection'' then put_bool (\<lambda>b c. c\<lparr>c_escape_injection := b\<rparr>) ps lno v ''invalid boolean''
      else if key = ''max log length'' then
        put_clamped (\<lambda>n c. c\<lparr>c_max_log_length := nat n\<rparr>) ps lno v 256 65536 ''max log length''
      else if key = ''truncation marker'' then
        (if length v \<ge> HPULOGC_MAX_FMT_LEN then parse_fail ps lno ''truncation marker too long''
         else put (\<lambda>c. c\<lparr>c_truncation_marker := v\<rparr>) ps)
      else if key = ''fork behavior'' then
        put_enum (\<lambda>x c. c\<lparr>c_fork_behavior := x\<rparr>) [(''reinit'', 0), (''disable'', 1), (''inherit'', 2)] ps lno v ''invalid fork behavior''
      else if key = ''signal safe'' then put_bool (\<lambda>b c. c\<lparr>c_signal_safe := b\<rparr>) ps lno v ''invalid boolean''
      else if key = ''crash safety'' then
        put_enum (\<lambda>x c. c\<lparr>c_crash_safety := x\<rparr>) [(''none'', 0), (''periodic'', 1), (''entry'', 2), (''shutdown'', 3)]
          ps lno v ''invalid crash safety''
      else if key = ''stats interval'' then
        put_clamped (\<lambda>n c. c\<lparr>c_stats_interval := n\<rparr>) ps lno v 0 86400 ''stats interval''
      else if key = ''stats output'' then
        put_enum (\<lambda>x c. c\<lparr>c_stats_output_file := (x = 1)\<rparr>) [(''stderr'', 0), (''file'', 1)] ps lno v ''invalid stats output''
      else if key = ''stats file'' then
        (if length v \<ge> HPULOGC_MAX_PATH_LEN then parse_fail ps lno ''stats file path too long''
         else put (\<lambda>c. c\<lparr>c_stats_file := v\<rparr>) ps)
      else unknown_key ps lno key ''unknown key in [advanced]'')"

section \<open>The build section\<close>

definition build_bool :: "conf_parser \<Rightarrow> bool \<Rightarrow> string \<Rightarrow> string \<Rightarrow> nat \<Rightarrow> conf_parser" where
  "build_bool ps actual key v lno =
     (case parse_bool v of
        None \<Rightarrow> parse_fail ps lno ''invalid boolean''
      | Some b \<Rightarrow> if b \<noteq> actual then warn ps (D_mismatch lno key) else ps)"

definition build_text :: "conf_parser \<Rightarrow> string \<Rightarrow> string \<Rightarrow> string \<Rightarrow> nat \<Rightarrow> conf_parser" where
  "build_text ps actual key v lno = (if eqcase v actual then ps else warn ps (D_mismatch lno key))"

definition concurrency_name :: "concurrency \<Rightarrow> string" where
  "concurrency_name k = (case k of CONC_SPSC \<Rightarrow> ''spsc'' | CONC_MPMC \<Rightarrow> ''mpmc'' | CONC_MPSC \<Rightarrow> ''mpsc'')"

definition parse_build :: "build_flags \<Rightarrow> conf_parser \<Rightarrow> string \<Rightarrow> string \<Rightarrow> nat \<Rightarrow> conf_parser" where
  "parse_build B ps key v lno =
     (if key = ''build version'' then build_text ps (b_version_name B) key v lno
      else if key = ''concurrency'' then build_text ps (concurrency_name (b_concurrency B)) key v lno
      else if key = ''lockfree'' then build_bool ps (b_lockfree B) key v lno
      else if key = ''has async'' then build_bool ps (b_async B) key v lno
      else if key = ''has color'' then build_bool ps (b_color B) key v lno
      else if key = ''has rotate'' then build_bool ps (b_rotate B) key v lno
      else if key = ''has hot reload'' then build_bool ps (b_hot_reload B) key v lno
      else if key = ''has category'' then build_bool ps (b_category B) key v lno
      else if key = ''has throttle'' then build_bool ps (b_throttle B) key v lno
      else if key = ''has ini'' then build_bool ps (b_ini B) key v lno
      else ps)"

section \<open>Lines\<close>

definition parse_key_value :: "build_flags \<Rightarrow> conf_parser \<Rightarrow> string \<Rightarrow> string \<Rightarrow> nat \<Rightarrow> conf_parser" where
  "parse_key_value B ps key v lno =
     (case ps_cur_section ps of
        Some SEC_BUILD \<Rightarrow> parse_build B ps key v lno
      | Some SEC_GLOBAL \<Rightarrow> parse_global B ps key v lno
      | Some SEC_FORMATS \<Rightarrow> parse_formats ps key v lno
      | Some SEC_OUTPUTS \<Rightarrow> parse_outputs B ps key v lno
      | Some SEC_BUFFER \<Rightarrow> parse_buffer ps key v lno
      | Some SEC_ASYNC \<Rightarrow> if b_async B then parse_async ps key v lno else ps
      | Some SEC_THROTTLE \<Rightarrow> if b_throttle B then parse_throttle B ps key v lno else ps
      | Some SEC_RULES \<Rightarrow> parse_rules ps key v lno
      | Some SEC_ADVANCED \<Rightarrow> parse_advanced ps key v lno
      | None \<Rightarrow> parse_fail ps lno ''key outside of any section'')"

definition section_of :: "string \<Rightarrow> conf_section option" where
  "section_of name = map_option snd (find (\<lambda>(n, _). eqcase name n) g_section_names)"

definition section_header :: "conf_parser \<Rightarrow> string \<Rightarrow> nat \<Rightarrow> conf_parser" where
  "section_header ps line lno =
     (let name = takeWhile (\<lambda>c. c \<noteq> CHR '']'') (tl line); rest = dropWhile (\<lambda>c. c \<noteq> CHR '']'') (tl line)
      in if rest = [] \<or> name = [] \<or> length name \<ge> HPULOGC_MAX_NAME_LEN \<or> tl rest \<noteq> []
         then parse_fail ps lno ''malformed section header''
         else case section_of name of
                None \<Rightarrow> parse_fail ps lno ''unknown section''
              | Some sec \<Rightarrow>
                  if sec \<in> set (ps_seen ps) then parse_fail ps lno ''section appears out of order''
                  else if (case ps_cur_section ps of None \<Rightarrow> False | Some cur \<Rightarrow> sec \<le> cur)
                  then parse_fail ps lno ''section appears out of order''
                  else ps\<lparr>ps_cur_section := Some sec, ps_seen := sec # ps_seen ps\<rparr>)"

definition conf_line :: "build_flags \<Rightarrow> conf_parser \<Rightarrow> string \<Rightarrow> nat \<Rightarrow> conf_parser" where
  "conf_line B ps line lno =
     (if ps_err ps \<noteq> 0 then ps
      else if line \<noteq> [] \<and> hd line = CHR ''['' then section_header ps line lno
      else case split_eq (take (HPU_INI_MAX_LINE * 2 - 1) line) of
             None \<Rightarrow> parse_fail ps lno ''missing '=' ''
           | Some (k0, v0) \<Rightarrow>
               let key = trim k0; v = strip_quotes (trim v0)
               in if key = [] then parse_fail ps lno ''empty key''
                  else if v = [] \<and> key \<noteq> ''default outputs'' then parse_fail ps lno ''missing value''
                  else parse_key_value B ps key v lno)"

definition conf_line_cb :: "build_flags \<Rightarrow> conf_parser ini_line_fn" where
  "conf_line_cb B ps line lno = (let ps1 = conf_line B ps line lno in (ps_err ps1, ps1))"

definition strict_scan_cb :: "bool ini_line_fn" where
  "strict_scan_cb strict_out line lno =
     (if line \<noteq> [] \<and> hd line = CHR ''['' then (0, strict_out)
      else case split_eq (take (HPU_INI_MAX_LINE * 2 - 1) line) of
             None \<Rightarrow> (0, strict_out)
           | Some (k0, v0) \<Rightarrow>
               (case parse_bool (strip_quotes (trim v0)) of
                  Some b \<Rightarrow> if trim k0 = ''strict init'' then (1, b) else (0, strict_out)
                | None \<Rightarrow> (0, strict_out)))"

section \<open>Loading a file\<close>

definition parser_start :: "hpu_conf \<Rightarrow> bool \<Rightarrow> conf_parser" where
  "parser_start c strict =
     \<lparr>ps_conf = c, ps_strict = strict, ps_cur_section = None, ps_seen = [], ps_err = 0, ps_diag = []\<rparr>"

definition rederive :: "hpu_conf_output \<Rightarrow> hpu_conf_output" where
  "rederive o1 =
     pub (\<lambda>p. p\<lparr>out_path := (if o_path_buf o1 \<noteq> [] then Some (o_path_buf o1) else None),
               out_rotate_naming := (if o_is_generic o1 then None else Some (o_naming_buf o1))\<rparr>) o1"

text \<open>A negative \<open>strict\<close> asks for the file's own value; an unreadable file leaves it negative, which counts as strict.\<close>

definition effective_strict :: "(string \<Rightarrow> bool) \<Rightarrow> (string \<Rightarrow> string option) \<Rightarrow> string \<Rightarrow> int \<Rightarrow> bool" where
  "effective_strict is_regular open_file path strict =
     (if strict < 0
      then case hpu_ini_parse_file is_regular open_file (Some path) strict_scan_cb True of
             (rc, l) \<Rightarrow> if rc = 0 \<or> rc = 1 then userdata l else True
      else strict \<noteq> 0)"

text \<open>The result: the code, the snapshot and the diagnostics.\<close>

definition hpu_conf_load_file ::
  "build_flags \<Rightarrow> (string \<Rightarrow> bool) \<Rightarrow> (string \<Rightarrow> string option) \<Rightarrow> hpu_conf \<Rightarrow> string \<Rightarrow> int \<Rightarrow> int \<times> hpu_conf \<times> diag list" where
  "hpu_conf_load_file B is_regular open_file c path strict =
     (case hpu_ini_parse_file is_regular open_file (Some path) (conf_line_cb B)
             (parser_start c (effective_strict is_regular open_file path strict)) of
        (rc, l) \<Rightarrow>
          let ps = userdata l;
              c1 = (ps_conf ps)\<lparr>c_outputs := map rederive (c_outputs (ps_conf ps))\<rparr>;
              note_at = (case err_line l of None \<Rightarrow> 0 | Some k \<Rightarrow> k)
          in if rc \<noteq> 0
             then (HPULOGC_ERR_CONFIG, c1,
                   ps_diag ps @ (if rc = HPULOGC_ERR_CONFIG
                                 then [if note_at > 0 then D_fail note_at ''configuration parse error''
                                       else D_fail 0 ''cannot read configuration file''] else []))
             else if ps_err ps \<noteq> 0 then (ps_err ps, c1, ps_diag ps)
             else (0, c1\<lparr>c_source_path := take (HPULOGC_MAX_PATH_LEN - 1) path\<rparr>, ps_diag ps))"

end
