(* ===== verification/ConfModel.thy ===== *)
theory ConfModel
  imports ConfState
begin

text \<open>
  The configuration model, \<^verbatim>\<open>src/conf/conf_model.c\<close>: defaults, the code configuration,
  the checks and resolutions of finalization, the opening of the outputs, and the hot-reload variant
  with its plan of handles to reuse. Opening a backend (\<^verbatim>\<open>hpu_output_open_from_conf\<close>) is a
  parameter: the error, or a handle. Allocation succeeds. What a refused code configuration leaves in
  the snapshot is not modelled: its callers free it.
\<close>

section \<open>Results\<close>

fun res_bind :: "int + 'a \<Rightarrow> ('a \<Rightarrow> int + 'b) \<Rightarrow> int + 'b" where
  "res_bind (Inl e) f = Inl e"
| "res_bind (Inr x) f = f x"

fun res_map :: "('a \<Rightarrow> int + 'b) \<Rightarrow> 'a list \<Rightarrow> int + 'b list" where
  "res_map f [] = Inr []"
| "res_map f (x # xs) = res_bind (f x) (\<lambda>y. res_bind (res_map f xs) (\<lambda>ys. Inr (y # ys)))"

section \<open>Defaults\<close>

definition conf_base :: "hpu_fmt_env \<Rightarrow> hpu_format list \<Rightarrow> hpu_conf" where
  "conf_base env0 fs =
     \<lparr>c_level = HPULOGC_LEVEL_INFO, c_default_format = ''standard'', c_default_names = [], c_default_idx = [],
      c_use_utc = False, c_timestamp_source = HPULOGC_TS_REALTIME, c_time_format = ''%Y-%m-%d %H:%M:%S.%f'',
      c_newline_style = HPULOGC_NEWLINE_AUTO, c_pid_fmt = HPU_ID_FMT_DECIMAL, c_tid_fmt = HPU_ID_FMT_DECIMAL,
      c_capture_source_loc = True, c_strict_init = True, c_hot_reload_interval = 5, c_signal_reload = False,
      c_formats = fs, c_outputs = [], c_rules = [],
      c_buffer_size = 1048576, c_overflow_policy = HPULOGC_OVERFLOW_DISCARD,
      c_batch_size = 64, c_flush_interval_ms = 100, c_shutdown_timeout_ms = 5000, c_consumer_threads = 1,
      c_throttle = \<lparr>th_global_rate = 0, th_per_category_rate = 0, th_burst = 100, th_sampling_rate = Dbl 1, th_sampling_n = 1\<rparr>,
      c_escape_injection = True, c_max_log_length = 4096, c_truncation_marker = ''...[TRUNCATED]'',
      c_fork_behavior = HPU_FORK_REINIT, c_signal_safe = False, c_crash_safety = HPULOGC_CRASH_SHUTDOWN,
      c_stats_interval = 0, c_stats_output_file = False, c_stats_file = [], c_env = env0, c_source_path = []\<rparr>"

definition hpu_conf_defaults :: "hpu_fmt_env \<Rightarrow> int + hpu_conf" where
  "hpu_conf_defaults env0 =
     (case res_map (\<lambda>(n, t). hpu_format_compile n t) hpu_builtin_formats of
        Inl e \<Rightarrow> Inl HPULOGC_ERR_NO_MEM
      | Inr fs \<Rightarrow> Inr (conf_base env0 fs))"

section \<open>The code configuration\<close>

text \<open>Strings that may be NULL are options; an array with its count is a list.\<close>

record hpulogc_rule =
  cr_category :: "string option"
  cr_min :: int
  cr_max :: int
  cr_format :: "string option"
  cr_outputs :: "string option list"

record hpulogc_sink_decl =
  sd_name :: "string option"
  sd_type :: "string option"
  sd_kvs :: "(string option \<times> string option) list"

record hpulogc_config =
  cfg_level :: int
  cfg_default_format :: "string option"
  cfg_default_outputs :: "string option list"
  cfg_outputs :: "hpulogc_output list"
  cfg_rules :: "hpulogc_rule list"
  cfg_buffer_size :: nat
  cfg_overflow_policy :: int
  cfg_batch_size :: nat
  cfg_flush_interval_ms :: nat
  cfg_shutdown_timeout_ms :: nat
  cfg_escape_injection :: bool
  cfg_max_log_length :: nat
  cfg_truncation_marker :: "string option"
  cfg_crash_safety :: int
  cfg_signal_safe :: bool
  cfg_consumer_threads :: nat
  cfg_sinks :: "hpulogc_sink_decl list"

definition bad_name :: "string option \<Rightarrow> bool" where
  "bad_name s = (case s of None \<Rightarrow> True | Some n \<Rightarrow> n = [] \<or> length n \<ge> HPULOGC_MAX_NAME_LEN)"

definition max_record_size :: "nat \<Rightarrow> nat" where
  "max_record_size mll = 8 * 4 + 4 * 4 + 2 * 4 + mll + 256 + 512 + 256 + 8"

definition code_level :: "hpulogc_config \<Rightarrow> hpu_conf \<Rightarrow> int + hpu_conf" where
  "code_level cfg c =
     (if cfg_level cfg < HPULOGC_LEVEL_TRACE \<or> cfg_level cfg > HPULOGC_LEVEL_OFF then Inl HPULOGC_ERR_INVALID_ARG
      else let c1 = c\<lparr>c_level := cfg_level cfg\<rparr>
           in case cfg_default_format cfg of
                None \<Rightarrow> Inr c1
              | Some f \<Rightarrow> if length f \<ge> HPULOGC_MAX_NAME_LEN then Inl HPULOGC_ERR_INVALID_ARG
                          else Inr (c1\<lparr>c_default_format := f\<rparr>))"

definition code_default_outputs :: "hpulogc_config \<Rightarrow> hpu_conf \<Rightarrow> int + hpu_conf" where
  "code_default_outputs cfg c =
     (if length (cfg_default_outputs cfg) > HPULOGC_MAX_OUTPUTS \<or> list_ex bad_name (cfg_default_outputs cfg)
      then Inl HPULOGC_ERR_INVALID_ARG
      else Inr (c\<lparr>c_default_names := map the (cfg_default_outputs cfg)\<rparr>))"

definition code_output_zero :: "hpu_conf_output" where
  "code_output_zero =
     \<lparr>o_pub = \<lparr>out_type = 0, out_stream = 0, out_color = False, out_path = None, out_rotate = 0, out_max_size = 0,
                out_time_unit = 0, out_max_files = 0, out_fsync = False, out_symlink_latest = False,
                out_rotate_naming = None, out_file_mode = 0, out_dir_mode = 0\<rparr>,
      o_name = [], o_path_buf = [], o_naming_buf = [], o_handle = None, o_is_generic = False, o_type_name = [],
      o_kv_key_off = [], o_kv_val_off = [], o_kv_pool = [], o_enabled = False, o_async = False, o_queue_size = 0\<rparr>"

definition code_output :: "nat \<Rightarrow> hpulogc_output \<Rightarrow> int + hpu_conf_output" where
  "code_output i src =
     (let dst = code_output_zero\<lparr>o_pub := src\<lparr>out_rotate_naming := None\<rparr>, o_enabled := True, o_name := ''out'' @ dec_digits i\<rparr>
      in if out_type src = HPULOGC_OUT_FILE then
           (case out_path src of
              None \<Rightarrow> Inl HPULOGC_ERR_CONFIG
            | Some p \<Rightarrow>
                if length p \<ge> HPULOGC_MAX_PATH_LEN then Inl HPULOGC_ERR_CONFIG
                else let dst1 = dst\<lparr>o_path_buf := p\<rparr>
                     in res_bind
                          (case out_rotate_naming src of
                             None \<Rightarrow> Inr dst1
                           | Some nm \<Rightarrow>
                               if length nm \<ge> HPULOGC_MAX_FMT_LEN then Inl HPULOGC_ERR_CONFIG
                               else Inr (dst1\<lparr>o_naming_buf := nm, o_pub := (o_pub dst1)\<lparr>out_rotate_naming := Some nm\<rparr>\<rparr>))
                          (\<lambda>dst2.
                             if (out_rotate src = HPULOGC_ROTATE_SIZE \<or> out_rotate src = HPULOGC_ROTATE_BOTH) \<and> out_max_size src = 0
                             then Inl HPULOGC_ERR_CONFIG
                             else if out_time_unit src < 0 \<or> out_time_unit src > 3 then Inl HPULOGC_ERR_CONFIG
                             else Inr dst2))
         else if out_type src = HPULOGC_OUT_CONSOLE then
           (if out_stream src \<noteq> 0 \<and> out_stream src \<noteq> 1 then Inl HPULOGC_ERR_CONFIG else Inr dst)
         else Inl HPULOGC_ERR_CONFIG)"

fun code_outputs_from :: "nat \<Rightarrow> hpulogc_output list \<Rightarrow> int + hpu_conf_output list" where
  "code_outputs_from i [] = Inr []"
| "code_outputs_from i (o1 # os) =
     res_bind (code_output i o1) (\<lambda>d. res_bind (code_outputs_from (Suc i) os) (\<lambda>ds. Inr (d # ds)))"

definition code_outputs :: "hpulogc_config \<Rightarrow> hpu_conf \<Rightarrow> int + hpu_conf" where
  "code_outputs cfg c =
     (if length (cfg_outputs cfg) > HPULOGC_MAX_OUTPUTS then Inl HPULOGC_ERR_INVALID_ARG
      else if cfg_outputs cfg = [] then Inr c
      else res_bind (code_outputs_from 0 (cfg_outputs cfg)) (\<lambda>os. Inr (c\<lparr>c_outputs := os\<rparr>)))"

text \<open>The search keeps the last output with the name.\<close>

fun last_index :: "nat \<Rightarrow> int \<Rightarrow> string \<Rightarrow> hpu_conf_output list \<Rightarrow> int" where
  "last_index i found name [] = found"
| "last_index i found name (o1 # os) = last_index (Suc i) (if o_name o1 = name then int i else found) name os"

definition code_rule_output :: "hpu_conf_output list \<Rightarrow> string option \<Rightarrow> int + int" where
  "code_rule_output outs name =
     (case name of
        None \<Rightarrow> Inl HPULOGC_ERR_CONFIG
      | Some n \<Rightarrow> let found = last_index 0 (- 1) n outs in if found < 0 then Inl HPULOGC_ERR_CONFIG else Inr found)"

definition code_rule :: "hpu_conf_output list \<Rightarrow> hpulogc_rule \<Rightarrow> int + hpu_conf_rule" where
  "code_rule outs src =
     (if cr_min src > cr_max src \<or> cr_min src < HPULOGC_LEVEL_TRACE \<or> cr_max src > HPULOGC_LEVEL_OFF then Inl HPULOGC_ERR_CONFIG
      else case cr_format src of
             None \<Rightarrow> Inl HPULOGC_ERR_CONFIG
           | Some f \<Rightarrow>
               if f \<notin> fst ` set hpu_builtin_formats then Inl HPULOGC_ERR_CONFIG
               else let cat = (case cr_category src of None \<Rightarrow> ''*'' | Some s \<Rightarrow> if s = [] then ''*'' else s)
                    in if length cat \<ge> HPULOGC_MAX_NAME_LEN then Inl HPULOGC_ERR_CONFIG
                       else if length (cr_outputs src) > HPULOGC_MAX_OUTPUTS then Inl HPULOGC_ERR_CONFIG
                       else res_bind (res_map (code_rule_output outs) (cr_outputs src))
                              (\<lambda>idx. Inr \<lparr>ru_category = cat, ru_min = cr_min src, ru_max = cr_max src, ru_negate = False,
                                          ru_format = f, ru_outputs = idx\<rparr>))"

definition code_rules :: "hpulogc_config \<Rightarrow> hpu_conf \<Rightarrow> int + hpu_conf" where
  "code_rules cfg c =
     (if length (cfg_rules cfg) > HPULOGC_MAX_RULES then Inl HPULOGC_ERR_INVALID_ARG
      else if cfg_rules cfg = [] then Inr c
      else res_bind (res_map (code_rule (c_outputs c)) (cfg_rules cfg)) (\<lambda>rs. Inr (c\<lparr>c_rules := rs\<rparr>)))"

definition code_buffer :: "hpulogc_config \<Rightarrow> hpu_conf \<Rightarrow> int + hpu_conf" where
  "code_buffer cfg c =
     (let size0 = (if cfg_buffer_size cfg \<noteq> 0 then cfg_buffer_size cfg else c_buffer_size c);
          need = max_record_size (c_max_log_length c) * 2;
          size1 = (if size0 < need \<or> size0 < 4096 then (if need > 4096 then need else 4096) else size0)
      in if size1 > 1073741824 then Inl HPULOGC_ERR_INVALID_ARG
         else if cfg_overflow_policy cfg \<notin> {HPULOGC_OVERFLOW_DISCARD, HPULOGC_OVERFLOW_OVERWRITE, HPULOGC_OVERFLOW_WAIT}
         then Inl HPULOGC_ERR_INVALID_ARG
         else if cfg_batch_size cfg < 1 \<or> cfg_batch_size cfg > 65535 then Inl HPULOGC_ERR_INVALID_ARG
         else if cfg_flush_interval_ms cfg < 1 \<or> cfg_flush_interval_ms cfg > 60000 then Inl HPULOGC_ERR_INVALID_ARG
         else Inr (c\<lparr>c_buffer_size := size1, c_overflow_policy := cfg_overflow_policy cfg\<rparr>))"

fun code_kvs :: "hpu_conf_output \<Rightarrow> (string option \<times> string option) list \<Rightarrow> int + hpu_conf_output" where
  "code_kvs o1 [] = Inr o1"
| "code_kvs o1 ((ko, vo) # kvs) =
     (case (ko, vo) of
        (Some k, Some v) \<Rightarrow>
          if k = ''enabled'' then code_kvs (o1\<lparr>o_enabled := (v = ''true'' \<or> v = ''on'')\<rparr>) kvs
          else if k = ''async'' then code_kvs (o1\<lparr>o_async := (v = ''on'' \<or> v = ''true'')\<rparr>) kvs
          else if k = ''queue size'' then
            (case hpu_parse_size_str v of None \<Rightarrow> Inl HPULOGC_ERR_INVALID_ARG
             | Some sz \<Rightarrow> code_kvs (o1\<lparr>o_queue_size := sz\<rparr>) kvs)
          else if length (o_kv_pool o1) + length k + length v + 2 > HPU_CONF_SINK_KV_POOL then Inl HPULOGC_ERR_INVALID_ARG
          else code_kvs (kv_store o1 k v) kvs
      | _ \<Rightarrow> Inl HPULOGC_ERR_INVALID_ARG)"

definition code_sink :: "hpulogc_sink_decl \<Rightarrow> int + hpu_conf_output" where
  "code_sink d =
     (if bad_name (sd_name d) \<or> bad_name (sd_type d) then Inl HPULOGC_ERR_INVALID_ARG
      else if length (sd_kvs d) > HPU_CONF_MAX_SINK_KV then Inl HPULOGC_ERR_INVALID_ARG
      else code_kvs (code_output_zero\<lparr>o_name := the (sd_name d), o_is_generic := True, o_type_name := the (sd_type d),
                                      o_enabled := True, o_async := False\<rparr>) (sd_kvs d))"

definition code_sinks :: "hpulogc_config \<Rightarrow> hpu_conf \<Rightarrow> int + hpu_conf" where
  "code_sinks cfg c =
     (if cfg_sinks cfg = [] then Inr c
      else if length (cfg_outputs cfg) + length (cfg_sinks cfg) > HPULOGC_MAX_OUTPUTS then Inl HPULOGC_ERR_INVALID_ARG
      else res_bind (res_map code_sink (cfg_sinks cfg)) (\<lambda>ss. Inr (c\<lparr>c_outputs := c_outputs c @ ss\<rparr>)))"

definition code_advanced :: "hpulogc_config \<Rightarrow> hpu_conf \<Rightarrow> int + hpu_conf" where
  "code_advanced cfg c =
     (let c1 = c\<lparr>c_batch_size := int (cfg_batch_size cfg), c_flush_interval_ms := int (cfg_flush_interval_ms cfg),
                c_shutdown_timeout_ms := int (cfg_shutdown_timeout_ms cfg)\<rparr>
      in if cfg_consumer_threads cfg < 1 \<or> int (cfg_consumer_threads cfg) > HPU_MAX_CONSUMERS then Inl HPULOGC_ERR_INVALID_ARG
         else if cfg_max_log_length cfg \<noteq> 0 \<and> (cfg_max_log_length cfg < 256 \<or> cfg_max_log_length cfg > 65536)
         then Inl HPULOGC_ERR_INVALID_ARG
         else if (case cfg_truncation_marker cfg of None \<Rightarrow> False | Some m \<Rightarrow> length m \<ge> HPULOGC_MAX_FMT_LEN)
         then Inl HPULOGC_ERR_INVALID_ARG
         else if cfg_crash_safety cfg < HPULOGC_CRASH_NONE \<or> cfg_crash_safety cfg > HPULOGC_CRASH_SHUTDOWN
         then Inl HPULOGC_ERR_INVALID_ARG
         else let c2 = c1\<lparr>c_consumer_threads := int (cfg_consumer_threads cfg), c_escape_injection := cfg_escape_injection cfg,
                         c_max_log_length := (if cfg_max_log_length cfg \<noteq> 0 then cfg_max_log_length cfg else c_max_log_length c),
                         c_truncation_marker := (case cfg_truncation_marker cfg of None \<Rightarrow> c_truncation_marker c | Some m \<Rightarrow> m),
                         c_crash_safety := cfg_crash_safety cfg, c_signal_safe := cfg_signal_safe cfg\<rparr>;
                  need = max_record_size (c_max_log_length c2) * 2
              in Inr (if c_buffer_size c2 < need then c2\<lparr>c_buffer_size := need\<rparr> else c2))"

definition hpu_conf_from_code :: "hpu_conf \<Rightarrow> hpulogc_config option \<Rightarrow> int + hpu_conf" where
  "hpu_conf_from_code c cfg0 =
     (case cfg0 of None \<Rightarrow> Inr c
      | Some cfg \<Rightarrow>
          res_bind (code_level cfg c) (\<lambda>c1.
          res_bind (code_default_outputs cfg c1) (\<lambda>c2.
          res_bind (code_outputs cfg c2) (\<lambda>c3.
          res_bind (code_rules cfg c3) (\<lambda>c4.
          res_bind (code_buffer cfg c4) (\<lambda>c5.
          res_bind (code_sinks cfg c5) (\<lambda>c6. code_advanced cfg c6)))))))"

section \<open>Checks and resolutions\<close>

text \<open>The indices found before a name that is not an output are stored in any case.\<close>

definition resolve_default_outputs :: "hpu_conf \<Rightarrow> int \<times> hpu_conf" where
  "resolve_default_outputs c =
     (let idx = takeWhile (\<lambda>i. 0 \<le> i) (map (hpu_conf_find_output c) (c_default_names c))
      in (if length idx < length (c_default_names c) then HPULOGC_ERR_CONFIG else 0, c\<lparr>c_default_idx := idx\<rparr>))"

definition resolve_rules :: "hpu_conf \<Rightarrow> int" where
  "resolve_rules c =
     (if list_ex (\<lambda>r. hpu_conf_find_format c (ru_format r) = None
                    \<or> list_ex (\<lambda>i. i < 0 \<or> i \<ge> int (length (c_outputs c))) (ru_outputs r)) (c_rules c)
      then HPULOGC_ERR_CONFIG else 0)"

definition is_file :: "hpu_conf_output \<Rightarrow> bool" where
  "is_file o1 \<longleftrightarrow> out_type (o_pub o1) = HPULOGC_OUT_FILE"

text \<open>Every pair is compared; any path that cannot be normalized is refused.\<close>

fun check_dup_paths_from :: "hpu_conf_output list \<Rightarrow> int" where
  "check_dup_paths_from [] = 0"
| "check_dup_paths_from (o1 # os) =
     (if \<not> is_file o1 then check_dup_paths_from os
      else case hpu_path_normalize (Some (o_path_buf o1)) HPULOGC_MAX_PATH_LEN of
             None \<Rightarrow> HPULOGC_ERR_CONFIG
           | Some na \<Rightarrow>
               if list_ex (\<lambda>o2. is_file o2 \<and> (case hpu_path_normalize (Some (o_path_buf o2)) HPULOGC_MAX_PATH_LEN of
                                              None \<Rightarrow> True | Some nb \<Rightarrow> na = nb)) os
               then HPULOGC_ERR_CONFIG else check_dup_paths_from os)"

definition check_dup_paths :: "hpu_conf \<Rightarrow> int" where
  "check_dup_paths c = check_dup_paths_from (c_outputs c)"

fun has_text :: "string \<Rightarrow> string \<Rightarrow> bool" where
  "has_text pat [] = (pat = [])"
| "has_text pat (c # s) = (take (length pat) (c # s) = pat \<or> has_text pat s)"

definition check_naming :: "hpu_conf \<Rightarrow> int" where
  "check_naming c =
     (if list_ex (\<lambda>o1. case out_rotate_naming (o_pub o1) of
                        None \<Rightarrow> False
                      | Some nm \<Rightarrow> \<not> has_text ''{index}'' nm \<and> \<not> has_text ''{timestamp}'' nm) (c_outputs c)
      then HPULOGC_ERR_CONFIG else 0)"

definition check_consumer_threads :: "build_flags \<Rightarrow> hpu_conf \<Rightarrow> int" where
  "check_consumer_threads B c =
     (if c_consumer_threads c \<le> 1 then 0
      else if \<not> b_async B then HPULOGC_ERR_CONFIG
      else if b_concurrency B \<noteq> CONC_MPMC then HPULOGC_ERR_CONFIG
      else 0)"

definition check_overflow_policy :: "build_flags \<Rightarrow> hpu_conf \<Rightarrow> int" where
  "check_overflow_policy B c =
     (if \<not> b_async B then 0
      else if b_lockfree B \<and> c_overflow_policy c = HPULOGC_OVERFLOW_WAIT then HPULOGC_ERR_CONFIG
      else if b_lockfree B \<and> b_concurrency B \<noteq> CONC_SPSC \<and> c_overflow_policy c = HPULOGC_OVERFLOW_OVERWRITE
      then HPULOGC_ERR_CONFIG
      else 0)"

text \<open>The checks both finalizations run first, in their order.\<close>

definition conf_checks :: "build_flags \<Rightarrow> hpu_conf \<Rightarrow> int \<times> hpu_conf" where
  "conf_checks B c =
     (if hpu_conf_find_format c (c_default_format c) = None then (HPULOGC_ERR_CONFIG, c)
      else if check_overflow_policy B c \<noteq> 0 then (check_overflow_policy B c, c)
      else if check_consumer_threads B c \<noteq> 0 then (check_consumer_threads B c, c)
      else if check_dup_paths c \<noteq> 0 then (check_dup_paths c, c)
      else if check_naming c \<noteq> 0 then (check_naming c, c)
      else case resolve_default_outputs c of (rc, c1) \<Rightarrow> if rc \<noteq> 0 then (rc, c1) else (resolve_rules c1, c1))"

section \<open>Opening the outputs\<close>

text \<open>\<open>opener\<close> is \<^verbatim>\<open>hpu_output_open_from_conf\<close> on an output of the snapshot, by index and severity.\<close>

type_synonym opener = "hpu_conf \<Rightarrow> nat \<Rightarrow> int \<Rightarrow> int + nat"

definition hpu_fsync_severity :: "int \<Rightarrow> int" where
  "hpu_fsync_severity cs = (if cs = 0 then 0 else if cs = 3 then 1 else if cs = 1 then 2 else if cs = 2 then 3 else 0)"

definition output_severity :: "hpu_conf \<Rightarrow> hpu_conf_output \<Rightarrow> int" where
  "output_severity c o1 = (if is_file o1 \<and> out_fsync (o_pub o1) then 3 else hpu_fsync_severity (c_crash_safety c))"

definition set_handle :: "nat \<Rightarrow> nat option \<Rightarrow> hpu_conf \<Rightarrow> hpu_conf" where
  "set_handle i h c = c\<lparr>c_outputs := (c_outputs c)[i := (c_outputs c ! i)\<lparr>o_handle := h\<rparr>]\<rparr>"

fun open_outputs :: "opener \<Rightarrow> hpu_conf \<Rightarrow> nat list \<Rightarrow> int \<times> hpu_conf" where
  "open_outputs opener c [] = (0, c)"
| "open_outputs opener c (i # is) =
     (let o1 = c_outputs c ! i
      in if o_handle o1 \<noteq> None then open_outputs opener c is
         else case opener c i (output_severity c o1) of
                Inr h \<Rightarrow> open_outputs opener (set_handle i (Some h) c) is
              | Inl e \<Rightarrow>
                  if e = HPULOGC_ERR_CONFIG
                  then (if \<not> c_strict_init c then open_outputs opener c is else (HPULOGC_ERR_CONFIG, c))
                  else (if e \<noteq> HPULOGC_OK then e else HPULOGC_ERR_IO, c))"

text \<open>The result: the snapshot without handles and the handles closed, in order.\<close>

definition hpu_conf_close_outputs :: "hpu_conf \<Rightarrow> hpu_conf \<times> nat list" where
  "hpu_conf_close_outputs c =
     (c\<lparr>c_outputs := map (\<lambda>o1. o1\<lparr>o_handle := None\<rparr>) (c_outputs c)\<rparr>,
      concat (map (\<lambda>o1. case o_handle o1 of None \<Rightarrow> [] | Some h \<Rightarrow> [h]) (c_outputs c)))"

definition hpu_conf_free :: "hpu_conf \<Rightarrow> hpu_conf \<times> nat list" where
  "hpu_conf_free c =
     (case hpu_conf_close_outputs c of (c1, shut) \<Rightarrow> (c1\<lparr>c_formats := [], c_outputs := [], c_rules := []\<rparr>, shut))"

section \<open>Finalization\<close>

definition newline_of :: "int \<Rightarrow> newline_style" where
  "newline_of x = (if x = 1 then NEWLINE_LF else if x = 2 then NEWLINE_CRLF else NEWLINE_AUTO)"

text \<open>The fields both finalizations copy into the renderer's environment.\<close>

definition derive_env :: "hpu_conf \<Rightarrow> hpu_fmt_env \<Rightarrow> hpu_fmt_env" where
  "derive_env c env = env\<lparr>time_format := Some (c_time_format c), use_utc := c_use_utc c,
     ts_monotonic := (c_timestamp_source c = HPULOGC_TS_MONOTONIC), newline_style := newline_of (c_newline_style c),
     pid_fmt := nat (c_pid_fmt c), tid_fmt := nat (c_tid_fmt c), source_loc_enabled := c_capture_source_loc c\<rparr>"

text \<open>The result: the code, the snapshot and the handles closed. \<open>mono_us\<close> and \<open>mypid\<close> are the clock and the process.\<close>

definition hpu_conf_finalize_impl ::
  "build_flags \<Rightarrow> opener \<Rightarrow> int \<Rightarrow> int \<Rightarrow> hpu_conf \<Rightarrow> bool \<Rightarrow> int \<times> hpu_conf \<times> nat list" where
  "hpu_conf_finalize_impl B opener now_us mypid c dry_run =
     (case conf_checks B c of (rc0, c1) \<Rightarrow>
        if rc0 \<noteq> 0 then (rc0, c1, [])
        else
          let c2 = c1\<lparr>c_env := (derive_env c1 (c_env c1))\<lparr>mono_base_us := now_us, pid := mypid\<rparr>\<rparr>
          in if dry_run then (0, c2, [])
             else case open_outputs opener c2 [0..<length (c_outputs c2)] of
                    (rc, c3) \<Rightarrow>
                      if rc \<noteq> 0 then (case hpu_conf_close_outputs c3 of (c4, shut) \<Rightarrow> (rc, c4, shut)) else (0, c3, []))"

section \<open>Finalization for a reload\<close>

definition conf_kv_equal :: "hpu_conf_output \<Rightarrow> hpu_conf_output \<Rightarrow> bool" where
  "conf_kv_equal a b \<longleftrightarrow> kv_pairs a = kv_pairs b"

definition same_file :: "hpu_conf_output \<Rightarrow> hpu_conf_output \<Rightarrow> bool" where
  "same_file oo fo \<longleftrightarrow>
     o_path_buf oo = o_path_buf fo \<and> out_rotate (o_pub oo) = out_rotate (o_pub fo)
     \<and> out_max_size (o_pub oo) = out_max_size (o_pub fo) \<and> out_time_unit (o_pub oo) = out_time_unit (o_pub fo)
     \<and> out_max_files (o_pub oo) = out_max_files (o_pub fo) \<and> out_fsync (o_pub oo) = out_fsync (o_pub fo)
     \<and> out_symlink_latest (o_pub oo) = out_symlink_latest (o_pub fo)
     \<and> out_file_mode (o_pub oo) = out_file_mode (o_pub fo) \<and> out_dir_mode (o_pub oo) = out_dir_mode (o_pub fo)
     \<and> out_rotate_naming (o_pub oo) = out_rotate_naming (o_pub fo) \<and> conf_kv_equal oo fo"

definition reuse_index :: "hpu_conf \<Rightarrow> hpu_conf_output \<Rightarrow> int" where
  "reuse_index old fo =
     (if \<not> is_file fo then - 1
      else find_index 0 (\<lambda>oo. o_handle oo \<noteq> None \<and> is_file oo \<and> same_file oo fo) (c_outputs old))"

fun open_fresh :: "opener \<Rightarrow> hpu_conf \<Rightarrow> int list \<Rightarrow> nat list \<Rightarrow> nat list \<Rightarrow> int \<times> hpu_conf \<times> nat list" where
  "open_fresh opener c reuse opened [] = (0, c, opened)"
| "open_fresh opener c reuse opened (i # is) =
     (if reuse ! i \<ge> 0 then open_fresh opener c reuse opened is
      else case opener c i (output_severity c (c_outputs c ! i)) of
             Inr h \<Rightarrow> open_fresh opener (set_handle i (Some h) c) reuse (opened @ [i]) is
           | Inl e \<Rightarrow> (if e = HPULOGC_ERR_CONFIG then HPULOGC_ERR_CONFIG else HPULOGC_ERR_IO, c, opened))"

text \<open>Closing what this call opened, newest first.\<close>

fun rollback :: "hpu_conf \<Rightarrow> nat list \<Rightarrow> hpu_conf \<times> nat list" where
  "rollback c [] = (c, [])"
| "rollback c (i # is) =
     (case rollback (set_handle i None c) is of
        (c1, shut) \<Rightarrow> (c1, (case o_handle (c_outputs c ! i) of None \<Rightarrow> shut | Some h \<Rightarrow> h # shut)))"

text \<open>The result: the code, the new snapshot, the reuse plan and the handles closed.\<close>

definition hpu_conf_finalize_reload ::
  "build_flags \<Rightarrow> opener \<Rightarrow> hpu_conf \<Rightarrow> hpu_conf \<Rightarrow> int \<times> hpu_conf \<times> int list \<times> nat list" where
  "hpu_conf_finalize_reload B opener fresh old =
     (case conf_checks B fresh of (rc0, c1) \<Rightarrow>
        if rc0 \<noteq> 0 then (rc0, c1, [], [])
        else
          let c2 = c1\<lparr>c_env := derive_env c1 (c_env old)\<rparr>;
              reuse = map (reuse_index old) (c_outputs c2)
          in case open_fresh opener c2 reuse [] [0..<length (c_outputs c2)] of
               (rc, c3, opened) \<Rightarrow>
                 if rc \<noteq> 0 then (case rollback c3 (rev opened) of (c4, shut) \<Rightarrow> (rc, c4, reuse, shut))
                 else (0, c3, reuse, []))"

end
