(* ===== verification/ConfFileLaws.thy ===== *)
theory ConfFileLaws
  imports ConfFile ConfModel
begin

text \<open>
  What loading a configuration file promises: a snapshot that is accepted is well-formed, every refusal
  has a diagnostic, sections come in order, strictness only refuses more, and private sink parameters
  are read back as they were written.
\<close>

section \<open>Well-formed snapshots\<close>

named_theorems conf_intros \<open>steps of the parser keep it well-formed\<close>

definition in_range :: "int \<Rightarrow> int \<Rightarrow> int \<Rightarrow> bool" where
  "in_range lo hi x \<longleftrightarrow> lo \<le> x \<and> x \<le> hi"

definition pub_ok :: "hpulogc_output \<Rightarrow> bool" where
  "pub_ok p \<longleftrightarrow> in_range 0 1 (out_type p) \<and> in_range 0 1 (out_stream p) \<and> in_range 0 3 (out_rotate p)
     \<and> in_range 0 3 (out_time_unit p) \<and> in_range 0 100000 (out_max_files p)
     \<and> out_file_mode p < 4096 \<and> out_dir_mode p < 4096"

definition kv_ok :: "hpu_conf_output \<Rightarrow> bool" where
  "kv_ok o1 \<longleftrightarrow> length (o_kv_key_off o1) = length (o_kv_val_off o1)
     \<and> length (o_kv_key_off o1) \<le> HPU_CONF_MAX_SINK_KV \<and> length (o_kv_pool o1) \<le> HPU_CONF_SINK_KV_POOL"

definition output_ok :: "hpu_conf_output \<Rightarrow> bool" where
  "output_ok o1 \<longleftrightarrow> pub_ok (o_pub o1) \<and> kv_ok o1 \<and> length (o_name o1) < HPULOGC_MAX_NAME_LEN
     \<and> length (o_path_buf o1) < HPULOGC_MAX_PATH_LEN \<and> length (o_naming_buf o1) < HPULOGC_MAX_FMT_LEN
     \<and> length (o_type_name o1) < HPULOGC_MAX_NAME_LEN
     \<and> (o_queue_size o1 = 0 \<or> 65536 \<le> o_queue_size o1 \<and> o_queue_size o1 \<le> 16777216) \<and> o_handle o1 = None"

definition rule_ok :: "nat \<Rightarrow> hpu_conf_rule \<Rightarrow> bool" where
  "rule_ok n r \<longleftrightarrow> length (ru_category r) < HPULOGC_MAX_NAME_LEN \<and> ru_category r \<noteq> []
     \<and> length (ru_format r) < HPULOGC_MAX_NAME_LEN
     \<and> in_range 0 6 (ru_min r) \<and> in_range 0 6 (ru_max r) \<and> ru_min r \<le> ru_max r
     \<and> (ru_negate r \<longrightarrow> ru_min r = ru_max r)
     \<and> length (ru_outputs r) \<le> HPULOGC_MAX_OUTPUTS
     \<and> (\<forall>i \<in> set (ru_outputs r). in_range (- 1) (int n - 1) i)"

text \<open>
  The sampling rate is in its range or the NaN that \<^verbatim>\<open>strtod\<close> gave, which no comparison stops.
  The divisor is a positive \<^verbatim>\<open>int\<close>, zero for the rate zero only.
\<close>

definition sampling_ok :: "double \<Rightarrow> int \<Rightarrow> bool" where
  "sampling_ok d n \<longleftrightarrow> in_range 0 (2 ^ 31 - 1) n
     \<and> (case d of Dbl x \<Rightarrow> 0 \<le> x \<and> x \<le> 1 \<and> (n = 0 \<longleftrightarrow> x = 0) | Dbl_nan \<Rightarrow> 1 \<le> n | _ \<Rightarrow> False)"

definition throttle_ok :: "hpu_throttle_cfg \<Rightarrow> bool" where
  "throttle_ok t \<longleftrightarrow> in_range 0 1000000000 (th_global_rate t) \<and> in_range 0 1000000000 (th_per_category_rate t)
     \<and> in_range 1 1000000000 (th_burst t) \<and> sampling_ok (th_sampling_rate t) (th_sampling_n t)"

definition texts_ok :: "hpu_conf \<Rightarrow> bool" where
  "texts_ok c \<longleftrightarrow> length (c_default_format c) < HPULOGC_MAX_NAME_LEN
     \<and> length (c_default_names c) \<le> HPULOGC_MAX_OUTPUTS
     \<and> (\<forall>n \<in> set (c_default_names c). n \<noteq> [] \<and> length n < HPULOGC_MAX_NAME_LEN)
     \<and> length (c_time_format c) < HPULOGC_MAX_FMT_LEN \<and> length (c_truncation_marker c) < HPULOGC_MAX_FMT_LEN
     \<and> length (c_stats_file c) < HPULOGC_MAX_PATH_LEN"

definition numbers_ok :: "hpu_conf \<Rightarrow> bool" where
  "numbers_ok c \<longleftrightarrow> in_range 0 6 (c_level c) \<and> in_range 0 1 (c_timestamp_source c) \<and> in_range 0 2 (c_newline_style c)
     \<and> in_range 0 2 (c_pid_fmt c) \<and> in_range 0 2 (c_tid_fmt c) \<and> in_range 0 86400 (c_hot_reload_interval c)
     \<and> in_range 4096 1073741824 (int (c_buffer_size c)) \<and> in_range 0 2 (c_overflow_policy c)
     \<and> in_range 1 65535 (c_batch_size c) \<and> in_range 1 60000 (c_flush_interval_ms c)
     \<and> in_range 0 3600000 (c_shutdown_timeout_ms c) \<and> in_range 1 HPU_MAX_CONSUMERS (c_consumer_threads c)
     \<and> in_range 256 65536 (int (c_max_log_length c)) \<and> in_range 0 2 (c_fork_behavior c)
     \<and> in_range 0 3 (c_crash_safety c) \<and> in_range 0 86400 (c_stats_interval c) \<and> throttle_ok (c_throttle c)"

definition tables_ok :: "hpu_conf \<Rightarrow> bool" where
  "tables_ok c \<longleftrightarrow> distinct (map fmt_name (c_formats c)) \<and> (\<forall>f \<in> set (c_formats c). length (fmt_name f) < HPULOGC_MAX_NAME_LEN)
     \<and> length (c_outputs c) \<le> HPULOGC_MAX_OUTPUTS \<and> distinct (map o_name (c_outputs c))
     \<and> (\<forall>o1 \<in> set (c_outputs c). output_ok o1)
     \<and> length (c_rules c) \<le> HPULOGC_MAX_RULES \<and> (\<forall>r \<in> set (c_rules c). rule_ok (length (c_outputs c)) r)"

definition conf_ok :: "hpu_conf \<Rightarrow> bool" where
  "conf_ok c \<longleftrightarrow> texts_ok c \<and> numbers_ok c \<and> tables_ok c"

lemma texts_indep [simp]:
  "texts_ok (c\<lparr>c_level := x1\<rparr>) = texts_ok c"
  "texts_ok (c\<lparr>c_timestamp_source := x2\<rparr>) = texts_ok c"
  "texts_ok (c\<lparr>c_newline_style := x3\<rparr>) = texts_ok c"
  "texts_ok (c\<lparr>c_pid_fmt := x4\<rparr>) = texts_ok c"
  "texts_ok (c\<lparr>c_tid_fmt := x5\<rparr>) = texts_ok c"
  "texts_ok (c\<lparr>c_hot_reload_interval := x6\<rparr>) = texts_ok c"
  "texts_ok (c\<lparr>c_buffer_size := x7\<rparr>) = texts_ok c"
  "texts_ok (c\<lparr>c_overflow_policy := x8\<rparr>) = texts_ok c"
  "texts_ok (c\<lparr>c_batch_size := x9\<rparr>) = texts_ok c"
  "texts_ok (c\<lparr>c_flush_interval_ms := x10\<rparr>) = texts_ok c"
  "texts_ok (c\<lparr>c_shutdown_timeout_ms := x11\<rparr>) = texts_ok c"
  "texts_ok (c\<lparr>c_consumer_threads := x12\<rparr>) = texts_ok c"
  "texts_ok (c\<lparr>c_max_log_length := x13\<rparr>) = texts_ok c"
  "texts_ok (c\<lparr>c_fork_behavior := x14\<rparr>) = texts_ok c"
  "texts_ok (c\<lparr>c_crash_safety := x15\<rparr>) = texts_ok c"
  "texts_ok (c\<lparr>c_stats_interval := x16\<rparr>) = texts_ok c"
  "texts_ok (c\<lparr>c_throttle := x17\<rparr>) = texts_ok c"
  "texts_ok (c\<lparr>c_formats := x18\<rparr>) = texts_ok c"
  "texts_ok (c\<lparr>c_outputs := x19\<rparr>) = texts_ok c"
  "texts_ok (c\<lparr>c_rules := x20\<rparr>) = texts_ok c"
  "texts_ok (c\<lparr>c_default_idx := x21\<rparr>) = texts_ok c"
  "texts_ok (c\<lparr>c_use_utc := x22\<rparr>) = texts_ok c"
  "texts_ok (c\<lparr>c_capture_source_loc := x23\<rparr>) = texts_ok c"
  "texts_ok (c\<lparr>c_strict_init := x24\<rparr>) = texts_ok c"
  "texts_ok (c\<lparr>c_signal_reload := x25\<rparr>) = texts_ok c"
  "texts_ok (c\<lparr>c_escape_injection := x26\<rparr>) = texts_ok c"
  "texts_ok (c\<lparr>c_signal_safe := x27\<rparr>) = texts_ok c"
  "texts_ok (c\<lparr>c_stats_output_file := x28\<rparr>) = texts_ok c"
  "texts_ok (c\<lparr>c_env := x29\<rparr>) = texts_ok c"
  "texts_ok (c\<lparr>c_source_path := x30\<rparr>) = texts_ok c"
  by (simp_all add: texts_ok_def)

lemma numbers_indep [simp]:
  "numbers_ok (c\<lparr>c_default_format := x31\<rparr>) = numbers_ok c"
  "numbers_ok (c\<lparr>c_default_names := x32\<rparr>) = numbers_ok c"
  "numbers_ok (c\<lparr>c_time_format := x33\<rparr>) = numbers_ok c"
  "numbers_ok (c\<lparr>c_truncation_marker := x34\<rparr>) = numbers_ok c"
  "numbers_ok (c\<lparr>c_stats_file := x35\<rparr>) = numbers_ok c"
  "numbers_ok (c\<lparr>c_formats := x36\<rparr>) = numbers_ok c"
  "numbers_ok (c\<lparr>c_outputs := x37\<rparr>) = numbers_ok c"
  "numbers_ok (c\<lparr>c_rules := x38\<rparr>) = numbers_ok c"
  "numbers_ok (c\<lparr>c_default_idx := x39\<rparr>) = numbers_ok c"
  "numbers_ok (c\<lparr>c_use_utc := x40\<rparr>) = numbers_ok c"
  "numbers_ok (c\<lparr>c_capture_source_loc := x41\<rparr>) = numbers_ok c"
  "numbers_ok (c\<lparr>c_strict_init := x42\<rparr>) = numbers_ok c"
  "numbers_ok (c\<lparr>c_signal_reload := x43\<rparr>) = numbers_ok c"
  "numbers_ok (c\<lparr>c_escape_injection := x44\<rparr>) = numbers_ok c"
  "numbers_ok (c\<lparr>c_signal_safe := x45\<rparr>) = numbers_ok c"
  "numbers_ok (c\<lparr>c_stats_output_file := x46\<rparr>) = numbers_ok c"
  "numbers_ok (c\<lparr>c_env := x47\<rparr>) = numbers_ok c"
  "numbers_ok (c\<lparr>c_source_path := x48\<rparr>) = numbers_ok c"
  by (simp_all add: numbers_ok_def)

lemma tables_indep [simp]:
  "tables_ok (c\<lparr>c_level := x49\<rparr>) = tables_ok c"
  "tables_ok (c\<lparr>c_timestamp_source := x50\<rparr>) = tables_ok c"
  "tables_ok (c\<lparr>c_newline_style := x51\<rparr>) = tables_ok c"
  "tables_ok (c\<lparr>c_pid_fmt := x52\<rparr>) = tables_ok c"
  "tables_ok (c\<lparr>c_tid_fmt := x53\<rparr>) = tables_ok c"
  "tables_ok (c\<lparr>c_hot_reload_interval := x54\<rparr>) = tables_ok c"
  "tables_ok (c\<lparr>c_buffer_size := x55\<rparr>) = tables_ok c"
  "tables_ok (c\<lparr>c_overflow_policy := x56\<rparr>) = tables_ok c"
  "tables_ok (c\<lparr>c_batch_size := x57\<rparr>) = tables_ok c"
  "tables_ok (c\<lparr>c_flush_interval_ms := x58\<rparr>) = tables_ok c"
  "tables_ok (c\<lparr>c_shutdown_timeout_ms := x59\<rparr>) = tables_ok c"
  "tables_ok (c\<lparr>c_consumer_threads := x60\<rparr>) = tables_ok c"
  "tables_ok (c\<lparr>c_max_log_length := x61\<rparr>) = tables_ok c"
  "tables_ok (c\<lparr>c_fork_behavior := x62\<rparr>) = tables_ok c"
  "tables_ok (c\<lparr>c_crash_safety := x63\<rparr>) = tables_ok c"
  "tables_ok (c\<lparr>c_stats_interval := x64\<rparr>) = tables_ok c"
  "tables_ok (c\<lparr>c_throttle := x65\<rparr>) = tables_ok c"
  "tables_ok (c\<lparr>c_default_format := x66\<rparr>) = tables_ok c"
  "tables_ok (c\<lparr>c_default_names := x67\<rparr>) = tables_ok c"
  "tables_ok (c\<lparr>c_time_format := x68\<rparr>) = tables_ok c"
  "tables_ok (c\<lparr>c_truncation_marker := x69\<rparr>) = tables_ok c"
  "tables_ok (c\<lparr>c_stats_file := x70\<rparr>) = tables_ok c"
  "tables_ok (c\<lparr>c_default_idx := x71\<rparr>) = tables_ok c"
  "tables_ok (c\<lparr>c_use_utc := x72\<rparr>) = tables_ok c"
  "tables_ok (c\<lparr>c_capture_source_loc := x73\<rparr>) = tables_ok c"
  "tables_ok (c\<lparr>c_strict_init := x74\<rparr>) = tables_ok c"
  "tables_ok (c\<lparr>c_signal_reload := x75\<rparr>) = tables_ok c"
  "tables_ok (c\<lparr>c_escape_injection := x76\<rparr>) = tables_ok c"
  "tables_ok (c\<lparr>c_signal_safe := x77\<rparr>) = tables_ok c"
  "tables_ok (c\<lparr>c_stats_output_file := x78\<rparr>) = tables_ok c"
  "tables_ok (c\<lparr>c_env := x79\<rparr>) = tables_ok c"
  "tables_ok (c\<lparr>c_source_path := x80\<rparr>) = tables_ok c"
  by (simp_all add: tables_ok_def)

fun is_fail :: "diag \<Rightarrow> bool" where
  "is_fail (D_fail n m) = True"
| "is_fail _ = False"

definition parser_ok :: "conf_parser \<Rightarrow> bool" where
  "parser_ok ps \<longleftrightarrow>
     (if ps_err ps = 0 then conf_ok (ps_conf ps) \<and> \<not> list_ex is_fail (ps_diag ps)
      else ps_err ps = HPULOGC_ERR_CONFIG \<and> list_ex is_fail (ps_diag ps))"

text \<open>A context in which no error has occurred yet.\<close>

definition running :: "conf_parser \<Rightarrow> bool" where
  "running ps \<longleftrightarrow> parser_ok ps \<and> ps_err ps = 0"

lemma running_ok: "running ps \<Longrightarrow> parser_ok ps"
  by (simp add: running_def)

lemma running_conf: "running ps \<Longrightarrow> conf_ok (ps_conf ps)"
  by (simp add: running_def parser_ok_def)

lemma ok_if [conf_intros]: "(P \<Longrightarrow> parser_ok a) \<Longrightarrow> (\<not> P \<Longrightarrow> parser_ok b) \<Longrightarrow> parser_ok (if P then a else b)"
  by simp

lemma ok_if_any: "parser_ok a \<Longrightarrow> parser_ok b \<Longrightarrow> parser_ok (if P then a else b)"
  by simp

lemma running_if [conf_intros]: "(P \<Longrightarrow> running a) \<Longrightarrow> (\<not> P \<Longrightarrow> running b) \<Longrightarrow> running (if P then a else b)"
  by simp

lemma ok_option [conf_intros]:
  "(x = None \<Longrightarrow> parser_ok a) \<Longrightarrow> (\<And>y. x = Some y \<Longrightarrow> parser_ok (f y)) \<Longrightarrow> parser_ok (case x of None \<Rightarrow> a | Some y \<Rightarrow> f y)"
  by (cases x) simp_all

lemma ok_sum [conf_intros]:
  "(\<And>y. x = Inl y \<Longrightarrow> parser_ok (f y)) \<Longrightarrow> (\<And>y. x = Inr y \<Longrightarrow> parser_ok (g y)) \<Longrightarrow> parser_ok (case x of Inl y \<Rightarrow> f y | Inr y \<Rightarrow> g y)"
  by (cases x) simp_all

lemma fail_ok [conf_intros]: "parser_ok (parse_fail ps lno m)"
  by (simp add: parse_fail_def parser_ok_def status_simps)

lemma warn_running [conf_intros]: "running ps \<Longrightarrow> \<not> is_fail d \<Longrightarrow> running (warn ps d)"
  by (simp add: running_def parser_ok_def warn_def)

lemma warn_ok [conf_intros]: "running ps \<Longrightarrow> \<not> is_fail d \<Longrightarrow> parser_ok (warn ps d)"
  by (rule running_ok [OF warn_running])

lemma put_running: "running ps \<Longrightarrow> (\<And>c. conf_ok c \<Longrightarrow> conf_ok (f c)) \<Longrightarrow> running (put f ps)"
  by (simp add: running_def parser_ok_def put_def)

lemma put_ok [conf_intros]: "running ps \<Longrightarrow> (\<And>c. conf_ok c \<Longrightarrow> conf_ok (f c)) \<Longrightarrow> parser_ok (put f ps)"
  by (rule running_ok [OF put_running])

lemma put_bool_ok [conf_intros]:
  "running ps \<Longrightarrow> (\<And>b c. conf_ok c \<Longrightarrow> conf_ok (f b c)) \<Longrightarrow> parser_ok (put_bool f ps lno v m)"
  unfolding put_bool_def by (intro conf_intros)

definition tbl_max :: "(string \<times> int) list \<Rightarrow> int" where
  "tbl_max tbl = foldr (\<lambda>e. max (snd e)) tbl 0"

lemma tbl_range: "x \<in> snd ` set tbl \<Longrightarrow> list_all (\<lambda>e. 0 \<le> snd e) tbl \<Longrightarrow> in_range 0 (tbl_max tbl) x"
  by (induction tbl) (force simp: tbl_max_def in_range_def)+

lemma put_enum_ok [conf_intros]:
  assumes "running ps" "list_all (\<lambda>e. 0 \<le> snd e) tbl"
    "\<And>x c. in_range 0 (tbl_max tbl) x \<Longrightarrow> conf_ok c \<Longrightarrow> conf_ok (f x c)"
  shows "parser_ok (put_enum f tbl ps lno v m)"
proof -
  have "in_range 0 (tbl_max tbl) x" if "x \<in> snd ` set tbl" for x
    using tbl_range [OF that assms(2)] .
  then show ?thesis unfolding put_enum_def
    by (intro conf_intros assms) (blast dest: eq_lookup_in)+
qed

lemma clamp_running:
  assumes "running ps" "lo \<le> hi" "clamp_long ps lno v lo hi key = (n, ps1)"
  shows "running ps1 \<and> in_range lo hi n \<and> ps_conf ps1 = ps_conf ps"
  using assms by (auto simp: in_range_def clamp_long_def Let_def warn_def running_def parser_ok_def split: if_splits)

lemma put_clamped_ok [conf_intros]:
  assumes "running ps" "lo \<le> hi" "\<And>n c. in_range lo hi n \<Longrightarrow> conf_ok c \<Longrightarrow> conf_ok (f n c)"
  shows "parser_ok (put_clamped f ps lno v lo hi key)"
  using assms(3) clamp_running [OF assms(1,2)]
  by (auto simp: put_clamped_def intro!: put_ok split: prod.split)

lemma unknown_ok [conf_intros]: "running ps \<Longrightarrow> parser_ok (unknown_key ps lno key m)"
  unfolding unknown_key_def by (intro conf_intros) simp_all

section \<open>Each section parser keeps the snapshot well-formed\<close>

lemmas conf_ok_parts = conf_ok_def texts_ok_def numbers_ok_def tables_ok_def

lemma in_range_nat [simp]: "in_range 256 65536 n \<Longrightarrow> 0 \<le> n"
  by (simp add: in_range_def)

lemma parse_buffer_ok: "running ps \<Longrightarrow> parser_ok (parse_buffer ps key v lno)"
  unfolding parse_buffer_def Let_def
  by (intro conf_intros) (simp_all add: conf_ok_parts tbl_max_def, simp_all add: in_range_def)

lemma parse_async_ok: "running ps \<Longrightarrow> parser_ok (parse_async ps key v lno)"
  unfolding parse_async_def by (intro conf_intros) (simp_all add: conf_ok_parts conf_limits)

lemma parse_advanced_ok: "running ps \<Longrightarrow> parser_ok (parse_advanced ps key v lno)"
  unfolding parse_advanced_def by (intro conf_intros) (simp_all add: conf_ok_parts tbl_max_def)

lemma defaults_added_ok: "running ps \<Longrightarrow> parser_ok (add_default_outputs ps lno parts)"
proof (induction ps lno parts rule: add_default_outputs.induct)
  case (2 ps lno p parts)
  let ?n = "strip_quotes (trim p)"
  show ?case
  proof (cases "?n = [] \<or> HPULOGC_MAX_OUTPUTS \<le> length (c_default_names (ps_conf ps))")
    case True
    then show ?thesis using 2 by (auto simp: Let_def intro: fail_ok)
  next
    case False
    have "running (put (\<lambda>c. c\<lparr>c_default_names := c_default_names c @ [take (HPULOGC_MAX_NAME_LEN - 1) ?n]\<rparr>) ps)"
      using 2(3) False
      by (auto simp: running_def parser_ok_def put_def conf_ok_parts conf_limits)
    then show ?thesis using 2 False by (simp add: Let_def)
  qed
qed (simp add: running_ok)

lemma parse_global_ok: "running ps \<Longrightarrow> parser_ok (parse_global B ps key v lno)"
  unfolding parse_global_def
  apply (intro ok_if_any fail_ok put_bool_ok put_enum_ok put_clamped_ok put_ok unknown_ok defaults_added_ok)
  apply (simp_all only: conf_ok_def texts_indep numbers_indep tables_indep)
  apply (simp_all add: level_names_def id_formats_def running_ok)
  apply (simp_all add: tbl_max_def)
  apply (simp_all only: texts_ok_def numbers_ok_def)
  apply (simp_all add: conf_limits)
  done

lemma build_value_ok:
  "running ps \<Longrightarrow> parser_ok (build_bool ps actual key v lno)" "running ps \<Longrightarrow> parser_ok (build_text ps name key v lno)"
  unfolding build_bool_def build_text_def by (auto intro: fail_ok warn_ok running_ok split: option.split)

lemma parse_build_ok: "running ps \<Longrightarrow> parser_ok (parse_build B ps key v lno)"
  unfolding parse_build_def by (intro ok_if_any build_value_ok running_ok)

lemma compile_loop_name: "compile_loop fmt [] t = Inr f \<Longrightarrow> fmt_name f = fmt_name fmt"
  by (drule compile_loop_extends) (auto simp: extends_def)

lemma compile_name: "hpu_format_compile name t = Inr f \<Longrightarrow> fmt_name f = name \<and> length name < HPULOGC_MAX_NAME_LEN"
  by (auto simp: hpu_format_compile_def json_splice_fields_action_def fmt_empty_def Let_def
      split: if_splits sum.splits option.splits dest!: compile_loop_name)

lemma parse_formats_ok: "running ps \<Longrightarrow> parser_ok (parse_formats ps key v lno)"
proof -
  assume r: "running ps"
  have "parser_ok (put (\<lambda>c. c\<lparr>c_formats := c_formats c @ [f]\<rparr>) ps)"
    if "\<not> (\<exists>f \<in> set (c_formats (ps_conf ps)). fmt_name f = key)" "hpu_format_compile key v = Inr f" for f
    using that r running_conf [OF r] compile_name [OF that(2)]
    by (auto simp: running_def parser_ok_def put_def conf_ok_parts)
  then show ?thesis unfolding parse_formats_def by (intro ok_if ok_sum fail_ok) blast
qed

lemma throttle_put_ok:
  "running ps \<Longrightarrow> lo \<le> hi \<Longrightarrow> (\<And>n t. in_range lo hi n \<Longrightarrow> throttle_ok t \<Longrightarrow> throttle_ok (f n t)) \<Longrightarrow>
    parser_ok (put_clamped (\<lambda>n. put_throttle (f n)) ps lno v lo hi key)"
  by (rule put_clamped_ok) (simp_all add: put_throttle_def conf_ok_parts)

lemma dbl_to_int_range: "- (2 ^ 31) \<le> dbl_to_int B d \<and> dbl_to_int B d < 2 ^ 31"
proof -
  have "- (2 ^ 31) \<le> sint w \<and> sint w < 2 ^ 31" for w :: "32 word" using sint_range_size [of w] by (simp add: word_size)
  then show ?thesis by (auto simp: dbl_to_int_def Let_def split: double.split)
qed

lemma sampling_divisor:
  assumes "\<not> dbl_less d (Dbl 0)" "\<not> dbl_less (Dbl 1) d"
  shows "sampling_ok d (if dbl_le d (Dbl 0) then 0 else if dbl_le (Dbl 1) d then 1
    else let k = dbl_to_int B (dbl_inverse_half B d) in if k < 1 then 1 else k)"
  using assms dbl_to_int_range [of B "dbl_inverse_half B d"]
  by (cases d) (auto simp: sampling_ok_def in_range_def dbl_le_def Let_def)

lemma parse_throttle_ok: "running ps \<Longrightarrow> parser_ok (parse_throttle B ps key v lno)"
proof -
  assume r: "running ps"
  have put_ok: "conf_ok (put_throttle (\<lambda>t. t\<lparr>th_sampling_rate := d, th_sampling_n := n\<rparr>) c)" if "conf_ok c" "sampling_ok d n" for c d n
    using that by (simp add: put_throttle_def conf_ok_parts throttle_ok_def)
  have s: "parser_ok (put (put_throttle (\<lambda>t. t\<lparr>th_sampling_rate := d, th_sampling_n := n\<rparr>))
      (if w then warn ps (D_note lno m) else ps))"
    if "d = (if dbl_less d0 (Dbl 0) \<or> dbl_less (Dbl 1) d0 then (if dbl_less d0 (Dbl 0) then Dbl 0 else Dbl 1) else d0)"
      "n = (if dbl_le d (Dbl 0) then 0 else if dbl_le (Dbl 1) d then 1
            else let k = dbl_to_int B (dbl_inverse_half B d) in if k < 1 then 1 else k)" for d d0 n w m
  proof -
    have "\<not> dbl_less d (Dbl 0)" "\<not> dbl_less (Dbl 1) d" unfolding that(1) by simp_all
    then have "sampling_ok d n" unfolding that(2) by (rule sampling_divisor)
    then show ?thesis using r put_ok by (intro conf_intros) simp_all
  qed
  show ?thesis unfolding parse_throttle_def Let_def
    by (intro ok_if_any throttle_put_ok unknown_ok r s [unfolded Let_def, OF refl refl])
      (simp_all add: throttle_ok_def in_range_def)
qed

text \<open>
  A rate whose text is a NaN is stored without a diagnostic, and then every record passes when the platform
  gives a negative integer for the NaN. A rate so small that its inverse is not an \<^verbatim>\<open>int\<close> keeps
  everything on such a platform too.
\<close>

lemma nan_rate_accepted:
  "b_strtod B v = Dbl_nan \<Longrightarrow> sint (b_bad_int B Dbl_nan) < 1 \<Longrightarrow>
    parse_throttle B ps ''sampling rate'' v lno = put (put_throttle (\<lambda>t. t\<lparr>th_sampling_rate := Dbl_nan, th_sampling_n := 1\<rparr>)) ps"
  by (simp add: parse_throttle_def dbl_le_def dbl_inverse_half_def dbl_to_int_def Let_def)

lemma tiny_rate_keeps_all:
  "parse_throttle (full_build\<lparr>b_strtod := \<lambda>_. Dbl (1 / 10 ^ 10)\<rparr>) ps ''sampling rate'' v lno
    = put (put_throttle (\<lambda>t. t\<lparr>th_sampling_rate := Dbl (1 / 10 ^ 10), th_sampling_n := 1\<rparr>)) ps"
  by (simp add: parse_throttle_def dbl_le_def dbl_inverse_half_def dbl_to_int_def full_build_def Let_def)

section \<open>Outputs\<close>

text \<open>A step on the output under construction: it may fail, otherwise the snapshot is untouched.\<close>

definition out_step :: "hpu_conf \<Rightarrow> string \<Rightarrow> conf_parser \<times> hpu_conf_output \<Rightarrow> bool" where
  "out_step c key r \<longleftrightarrow> parser_ok (fst r)
     \<and> (ps_err (fst r) = 0 \<longrightarrow> ps_conf (fst r) = c \<and> output_ok (snd r) \<and> o_name (snd r) = key)"

lemma out_fail [conf_intros]: "out_step c key (parse_fail ps lno m, o1)"
  by (simp add: out_step_def fail_ok) (simp add: parse_fail_def status_simps)

lemma out_keep [conf_intros]:
  "running ps \<Longrightarrow> ps_conf ps = c \<Longrightarrow> output_ok o1 \<Longrightarrow> o_name o1 = key \<Longrightarrow> out_step c key (ps, o1)"
  by (simp add: out_step_def running_ok)

lemma out_keep_iff:
  "running ps \<Longrightarrow> out_step (ps_conf ps) key (ps, o1) \<longleftrightarrow> output_ok o1 \<and> o_name o1 = key"
  by (simp add: out_step_def running_def)

lemma out_unknown [conf_intros]:
  "running ps \<Longrightarrow> ps_conf ps = c \<Longrightarrow> output_ok o1 \<Longrightarrow> o_name o1 = key \<Longrightarrow> out_step c key (unknown_key ps lno k m, o1)"
  by (simp add: out_step_def unknown_ok) (simp add: unknown_key_def parse_fail_def warn_def status_simps)

lemma out_if [conf_intros]:
  "(P \<Longrightarrow> out_step c key a) \<Longrightarrow> (\<not> P \<Longrightarrow> out_step c key b) \<Longrightarrow> out_step c key (if P then a else b)"
  by simp

lemma out_option [conf_intros]:
  "(x = None \<Longrightarrow> out_step c key a) \<Longrightarrow> (\<And>y. x = Some y \<Longrightarrow> out_step c key (f y)) \<Longrightarrow>
    out_step c key (case x of None \<Rightarrow> a | Some y \<Rightarrow> f y)"
  by (cases x) simp_all

lemma out_enum [conf_intros]:
  assumes "running ps" "ps_conf ps = c" "output_ok o1" "o_name o1 = key" "list_all (\<lambda>e. 0 \<le> snd e) tbl"
    "\<And>x. in_range 0 (tbl_max tbl) x \<Longrightarrow> output_ok (pub (f x) o1)"
  shows "out_step c key (o_enum f tbl ps o1 lno v m)"
proof (cases "eq_lookup tbl v")
  case None
  then show ?thesis by (simp add: o_enum_def out_fail)
next
  case (Some x)
  then show ?thesis using assms tbl_range [OF eq_lookup_in [OF Some] assms(5)]
    by (simp add: o_enum_def) (rule out_keep, simp_all add: pub_def)
qed

lemma out_bool [conf_intros]:
  "running ps \<Longrightarrow> ps_conf ps = c \<Longrightarrow> (\<And>b. output_ok (f b o1)) \<Longrightarrow> (\<And>b. o_name (f b o1) = key) \<Longrightarrow>
    out_step c key (o_bool f ps o1 lno v)"
  unfolding o_bool_def by (intro conf_intros)

lemmas output_parts = output_ok_def pub_ok_def kv_ok_def pub_def

lemma queue_param_ok:
  "running ps \<Longrightarrow> output_ok o1 \<Longrightarrow> out_step (ps_conf ps) (o_name o1) (queue_param ps o1 lno v)"
  unfolding queue_param_def Let_def
  by (intro conf_intros) (simp_all add: output_parts, simp_all add: warn_def)

lemma generic_param_ok:
  "running ps \<Longrightarrow> output_ok o1 \<Longrightarrow> out_step (ps_conf ps) (o_name o1) (generic_param ps o1 lno k v)"
  unfolding generic_param_def by (intro conf_intros) (simp_all add: output_parts kv_store_def Let_def)

lemma pub_max_files_ok: "output_ok o1 \<Longrightarrow> in_range 0 100000 n \<Longrightarrow> output_ok (pub (\<lambda>p. p\<lparr>out_max_files := n\<rparr>) o1)"
  by (simp add: pub_def output_ok_def kv_ok_def) (simp add: pub_ok_def)

lemma flat_param_ok:
  assumes "running ps" "output_ok o1"
  shows "out_step (ps_conf ps) (o_name o1) (flat_param ps o1 lno k v)"
proof -
  have m: "nat (x mod 4096) < 4096" for x :: int by (simp add: nat_less_iff)
  have "out_step (ps_conf ps) (o_name o1) (case clamp_long ps lno n 0 100000 t of
      (n, ps1) \<Rightarrow> (ps1, pub (\<lambda>p. p\<lparr>out_max_files := n\<rparr>) o1))" for n t
  proof -
    obtain k ps1 where c: "clamp_long ps lno n 0 100000 t = (k, ps1)" by fastforce
    have r: "running ps1" "in_range 0 100000 k" "ps_conf ps1 = ps_conf ps" using clamp_running [OF assms(1) _ c] by simp_all
    show ?thesis unfolding c prod.case
      by (rule out_keep [OF r(1,3) pub_max_files_ok [OF assms(2) r(2)]]) (simp add: pub_def)
  qed
  then show ?thesis using assms unfolding flat_param_def
    apply (intro out_if out_option out_enum out_bool out_fail)
    apply (simp_all add: out_unknown out_keep_iff)
    apply (simp_all only: pub_def)
    apply (simp_all add: output_ok_def kv_ok_def)
    apply (simp_all add: pub_ok_def tbl_max_def m)
    done
qed

lemma output_param_ok:
  assumes "running ps" "output_ok o1"
  shows "out_step (ps_conf ps) (o_name o1) (output_param ps o1 lno kv)"
proof (cases "split_eq kv")
  case None
  then show ?thesis by (simp add: output_param_def out_fail)
next
  case (Some kv1)
  obtain k v where kv: "kv1 = (k, v)" by fastforce
  show ?thesis using Some assms unfolding output_param_def Let_def
    by (simp only: kv option.case prod.case)
      (intro out_if out_bool out_keep out_fail queue_param_ok generic_param_ok flat_param_ok, simp_all add: output_parts)
qed

lemma running_step: "out_step c key (ps, o1) \<Longrightarrow> ps_err ps = 0 \<Longrightarrow> running ps \<and> ps_conf ps = c \<and> output_ok o1 \<and> o_name o1 = key"
  by (simp add: out_step_def running_def)

lemma failed_step: "out_step c key (ps, o1) \<Longrightarrow> ps_err ps \<noteq> 0 \<Longrightarrow> out_step c key (ps, o2)"
  by (simp add: out_step_def)

lemma output_params_ok:
  "running ps \<Longrightarrow> output_ok o1 \<Longrightarrow> out_step (ps_conf ps) (o_name o1) (output_params ps o1 lno parts)"
proof (induction ps o1 lno parts rule: output_params.induct)
  case (2 ps o1 lno p parts)
  obtain ps1 o2 where s: "output_param ps o1 lno p = (ps1, o2)" by fastforce
  from output_param_ok [OF 2(2,3), of lno p] have st: "out_step (ps_conf ps) (o_name o1) (ps1, o2)" by (simp add: s)
  show ?case
  proof (cases "ps_err ps1 = 0")
    case True
    with 2(1) [OF s [symmetric]] running_step [OF st True] show ?thesis by (simp add: s)
  qed (simp add: s st)
qed (simp add: out_keep)

lemma output_type_ok:
  "running ps \<Longrightarrow> output_ok o1 \<Longrightarrow> out_step (ps_conf ps) (o_name o1) (output_type B ps o1 lno t)"
  unfolding output_type_def
  by (intro out_if out_keep out_fail) (simp_all add: output_ok_def kv_ok_def pub_def pub_ok_def in_range_def conf_limits)

lemma output_finish_ok:
  "running ps \<Longrightarrow> output_ok o1 \<Longrightarrow> out_step (ps_conf ps) (o_name o1) (output_finish ps o1 lno)"
  unfolding output_finish_def
  by (intro out_if out_keep out_fail)
    (simp_all add: output_ok_def kv_ok_def pub_def pub_ok_def conf_limits HPU_ROTATE_DEFAULT_NAMING_def)

lemma output_zero_ok: "length key < HPULOGC_MAX_NAME_LEN \<Longrightarrow> output_ok (output_zero key)"
  by (simp add: output_zero_def output_ok_def pub_ok_def kv_ok_def in_range_def conf_limits)

lemma output_line_ok:
  assumes "running ps" "length key < HPULOGC_MAX_NAME_LEN"
  shows "out_step (ps_conf ps) key (output_line B ps key v lno)"
proof (cases "split_csv v 32")
  case Nil
  then show ?thesis by (simp add: output_line_def out_fail)
next
  case (Cons t parts)
  have z: "output_ok (output_zero key)" "o_name (output_zero key) = key"
    using output_zero_ok [OF assms(2)] by (simp_all add: output_zero_def)
  obtain ps1 o1 where t: "output_type B ps (output_zero key) lno (trim t) = (ps1, o1)" by fastforce
  have st: "out_step (ps_conf ps) key (ps1, o1)" using output_type_ok [OF assms(1) z(1), of B lno "trim t"] by (simp add: t z(2))
  show ?thesis
  proof (cases "ps_err ps1 = 0")
    case False
    then show ?thesis using st by (simp add: output_line_def Cons t)
  next
    case True
    note r1 = running_step [OF st True]
    obtain ps2 o2 where p: "output_params ps1 o1 lno parts = (ps2, o2)" by fastforce
    have st2: "out_step (ps_conf ps) key (ps2, o2)" using output_params_ok [of ps1 o1 lno parts] r1 by (simp add: p)
    show ?thesis
    proof (cases "ps_err ps2 = 0")
      case False
      then show ?thesis using st2 True by (simp add: output_line_def Cons t p)
    next
      case zero: True
      from running_step [OF st2 zero] output_finish_ok [of ps2 o2 lno] show ?thesis
        using True zero by (simp add: output_line_def Cons t p)
    qed
  qed
qed

lemma rule_ok_mono: "n \<le> m \<Longrightarrow> rule_ok n r \<Longrightarrow> rule_ok m r"
  by (fastforce simp: rule_ok_def in_range_def)

lemma parse_outputs_ok:
  assumes "running ps"
  shows "parser_ok (parse_outputs B ps key v lno)"
proof -
  obtain ps1 o1 where l: "output_line B ps key v lno = (ps1, o1)" by fastforce
  have "parser_ok (put (\<lambda>c. c\<lparr>c_outputs := c_outputs c @ [o1]\<rparr>) ps1)"
    if "\<not> hpu_conf_find_output (ps_conf ps) key \<ge> 0" "\<not> length key \<ge> HPULOGC_MAX_NAME_LEN"
      "\<not> length (c_outputs (ps_conf ps)) \<ge> HPULOGC_MAX_OUTPUTS"
  proof -
    have st: "out_step (ps_conf ps) key (ps1, o1)" using output_line_ok [OF assms, of key B v lno] that(2) by (simp add: l)
    show ?thesis
    proof (cases "ps_err ps1 = 0")
      case False
      then show ?thesis using st by (simp add: out_step_def parser_ok_def put_def)
    next
      case True
      note r = running_step [OF st True]
      have new: "key \<notin> o_name ` set (c_outputs (ps_conf ps))"
        using that(1) by (auto simp: hpu_conf_find_output_def not_le find_index_miss)
      have rules: "rule_ok (length (c_outputs (ps_conf ps)) + 1) x" if "x \<in> set (c_rules (ps_conf ps))" for x
        using running_conf [OF assms] that by (auto simp: conf_ok_def tables_ok_def intro: rule_ok_mono [rotated])
      have "conf_ok ((ps_conf ps)\<lparr>c_outputs := c_outputs (ps_conf ps) @ [o1]\<rparr>)"
        using running_conf [OF assms] that(3) new r rules by (auto simp: conf_ok_def) (auto simp: tables_ok_def)
      then show ?thesis using r True by (simp add: parser_ok_def put_def running_def)
    qed
  qed
  then show ?thesis unfolding parse_outputs_def l by (intro ok_if fail_ok) simp
qed

section \<open>Rules\<close>

lemma rule_outputs_ok:
  assumes "running ps" "rule_ok (length (c_outputs (ps_conf ps))) r" "rule_outputs ps r lno parts = (ps1, r1)"
  shows "parser_ok ps1 \<and> (ps_err ps1 = 0 \<longrightarrow> ps1 = ps \<and> rule_ok (length (c_outputs (ps_conf ps))) r1)"
  using assms
proof (induction ps r lno parts rule: rule_outputs.induct)
  case (2 ps r lno p parts)
  let ?n = "strip_quotes (trim p)"
  show ?case
  proof (cases "?n \<noteq> [] \<and> \<not> length (ru_outputs r) \<ge> HPULOGC_MAX_OUTPUTS")
    case False
    then show ?thesis using 2 fail_ok by (auto simp: Let_def split: if_splits) (simp add: parse_fail_def status_simps)
  next
    case True
    let ?i = "hpu_conf_find_output (ps_conf ps) ?n"
    have "in_range (- 1) (int (length (c_outputs (ps_conf ps))) - 1) ?i"
      using find_index_bounds [of _ "c_outputs (ps_conf ps)"] by (simp add: hpu_conf_find_output_def in_range_def)
    then have r: "rule_ok (length (c_outputs (ps_conf ps))) (r\<lparr>ru_outputs := ru_outputs r @ [?i]\<rparr>)"
      using 2(4) True by (auto simp: rule_ok_def)
    have "rule_outputs ps r lno (p # parts) = rule_outputs ps (r\<lparr>ru_outputs := ru_outputs r @ [?i]\<rparr>) lno parts"
      using True by (simp add: Let_def)
    from 2(2) [OF refl conjunct1 [OF True] conjunct2 [OF True] 2(3) r 2(5) [unfolded this]] show ?thesis .
  qed
qed (auto simp: running_ok)

lemma rule_line_ok:
  assumes "running ps" "length sel < HPULOGC_MAX_NAME_LEN" "sel \<noteq> []" "rule_line ps sel lp v lno = (ps1, r1)"
  shows "parser_ok ps1 \<and> (ps_err ps1 = 0 \<longrightarrow> ps1 = ps \<and> rule_ok (length (c_outputs (ps_conf ps))) r1)"
proof -
  have f: "ps_err (parse_fail ps lno m) \<noteq> 0" for m by (simp add: parse_fail_def status_simps)
  obtain ok lo hi neg where l: "parse_rule_levels lp = (ok, lo, hi, neg)" by (metis prod_cases4)
  have rng: "in_range 0 6 lo" "in_range 0 6 hi" "ok \<longrightarrow> neg \<longrightarrow> lo = hi"
    using parse_rule_levels_range [OF l] by (simp_all add: in_range_def)
  consider "\<not> ok \<or> lo > hi \<or> split_csv v (HPULOGC_MAX_OUTPUTS + 1) = []"
    | p parts where "ok" "lo \<le> hi" "split_csv v (HPULOGC_MAX_OUTPUTS + 1) = p # parts"
    by (metis neq_Nil_conv not_le)
  then show ?thesis
  proof cases
    case 1
    then show ?thesis using assms(4) f fail_ok [of ps lno] by (auto simp: rule_line_def l Let_def split: if_splits)
  next
    case 2
    let ?f = "strip_quotes (trim p)"
    show ?thesis
    proof (cases "length ?f \<ge> HPULOGC_MAX_NAME_LEN")
      case True
      then show ?thesis using assms(4) 2 f fail_ok [of ps lno] by (auto simp: rule_line_def l Let_def)
    next
      case False
      show ?thesis
      proof (rule rule_outputs_ok [OF assms(1)])
        show "rule_ok (length (c_outputs (ps_conf ps)))
            \<lparr>ru_category = sel, ru_min = lo, ru_max = hi, ru_negate = neg, ru_format = ?f, ru_outputs = []\<rparr>"
          using 2 rng False assms(2,3) by (simp add: rule_ok_def)
        show "rule_outputs ps \<lparr>ru_category = sel, ru_min = lo, ru_max = hi, ru_negate = neg, ru_format = ?f, ru_outputs = []\<rparr>
            lno parts = (ps1, r1)"
          using assms(4) 2 False by (simp add: rule_line_def l Let_def)
      qed
    qed
  qed
qed

lemma parse_rules_ok:
  assumes "running ps"
  shows "parser_ok (parse_rules ps key v lno)"
proof -
  let ?sel = "before_last (CHR ''.'') key"
  obtain ps1 r where l: "rule_line ps ?sel (take (HPULOGC_MAX_NAME_LEN - 1) (after_last (CHR ''.'') key)) v lno = (ps1, r)"
    by fastforce
  have "parser_ok (put (\<lambda>c. c\<lparr>c_rules := c_rules c @ [r]\<rparr>) ps1)"
    if "\<not> length (c_rules (ps_conf ps)) \<ge> HPULOGC_MAX_RULES" "\<not> (?sel = [] \<or> length ?sel \<ge> HPULOGC_MAX_NAME_LEN)"
  proof -
    have st: "parser_ok ps1 \<and> (ps_err ps1 = 0 \<longrightarrow> ps1 = ps \<and> rule_ok (length (c_outputs (ps_conf ps))) r)"
      using that(2) by (intro rule_line_ok [OF assms _ _ l]) simp_all
    show ?thesis
    proof (cases "ps_err ps1 = 0")
      case False
      then show ?thesis using st by (simp add: parser_ok_def put_def)
    next
      case True
      then have p: "ps1 = ps" and r: "rule_ok (length (c_outputs (ps_conf ps))) r" using st by blast+
      have "conf_ok ((ps_conf ps)\<lparr>c_rules := c_rules (ps_conf ps) @ [r]\<rparr>)"
        using running_conf [OF assms] r that(1) by (auto simp: conf_ok_def) (auto simp: tables_ok_def)
      then show ?thesis using assms by (simp add: parser_ok_def put_def p running_def)
    qed
  qed
  then show ?thesis unfolding parse_rules_def Let_def l by (intro ok_if fail_ok) simp
qed

section \<open>Lines and files\<close>

lemma parse_key_value_ok: "running ps \<Longrightarrow> parser_ok (parse_key_value B ps key v lno)"
  unfolding parse_key_value_def
  by (auto intro: fail_ok running_ok parse_build_ok parse_global_ok parse_formats_ok parse_outputs_ok parse_buffer_ok
      parse_async_ok parse_throttle_ok parse_rules_ok parse_advanced_ok split: option.split conf_section.split)

lemma section_header_ok: "running ps \<Longrightarrow> parser_ok (section_header ps line lno)"
  unfolding section_header_def Let_def
  by (intro ok_if ok_option fail_ok) (simp add: running_def parser_ok_def)

lemma conf_line_ok: "parser_ok ps \<Longrightarrow> parser_ok (conf_line B ps line lno)"
  unfolding conf_line_def
  by (auto intro!: fail_ok section_header_ok parse_key_value_ok simp: running_def Let_def split: option.split)

lemma conf_cb_keeps:
  "cb_keeps (conf_line_cb B) running (\<lambda>rc ps. rc = ps_err ps \<and> parser_ok ps)"
proof -
  have "if ps_err (conf_line B ps line n) = 0 then running (conf_line B ps line n) else parser_ok (conf_line B ps line n)"
    if "running ps" for ps line n
    using conf_line_ok [OF running_ok [OF that], of B line n] by (simp add: running_def)
  then show ?thesis by (auto simp: cb_keeps_def conf_line_cb_def Let_def split: if_splits)
qed

interpretation conf_reader: line_callback "conf_line_cb B" running "\<lambda>rc ps. rc = ps_err ps \<and> parser_ok ps" for B
  by unfold_locales (rule conf_cb_keeps)

lemma rederive_ok [simp]: "output_ok (rederive o1) = output_ok o1" "o_name (rederive o1) = o_name o1"
  by (simp_all add: rederive_def pub_def output_ok_def pub_ok_def kv_ok_def)

lemma rederived_conf_ok: "conf_ok c \<Longrightarrow> conf_ok (c\<lparr>c_outputs := map rederive (c_outputs c)\<rparr>)"
  by (simp add: conf_ok_def) (simp add: tables_ok_def comp_def)

lemma res_map_names:
  "res_map (\<lambda>(n, t). hpu_format_compile n t) xs = Inr fs \<Longrightarrow>
    map fmt_name fs = map fst xs \<and> (\<forall>f \<in> set fs. length (fmt_name f) < HPULOGC_MAX_NAME_LEN)"
proof (induction xs arbitrary: fs)
  case (Cons x xs)
  obtain n t where x: "x = (n, t)" by fastforce
  obtain f gs where f: "hpu_format_compile n t = Inr f" "res_map (\<lambda>(n, t). hpu_format_compile n t) xs = Inr gs" "fs = f # gs"
    using Cons.prems x
    by (cases "hpu_format_compile n t"; cases "res_map (\<lambda>(n, t). hpu_format_compile n t) xs") auto
  show ?case using Cons.IH [OF f(2)] compile_name [OF f(1)] by (simp add: x f(3))
qed simp

lemma conf_base_ok:
  assumes "distinct (map fmt_name fs)" "\<forall>f \<in> set fs. length (fmt_name f) < HPULOGC_MAX_NAME_LEN"
  shows "conf_ok (conf_base env0 fs)"
  unfolding conf_ok_def
proof (intro conjI)
  show "texts_ok (conf_base env0 fs)" by (simp add: texts_ok_def conf_base_def conf_limits)
  show "numbers_ok (conf_base env0 fs)" by (simp add: numbers_ok_def throttle_ok_def sampling_ok_def conf_base_def in_range_def conf_limits)
  show "tables_ok (conf_base env0 fs)" using assms by (simp add: tables_ok_def conf_base_def)
qed

lemma builtin_names: "distinct (map fst hpu_builtin_formats)"
  by (simp add: hpu_builtin_formats_def)

lemma defaults_conf: "hpu_conf_defaults env0 = Inr c \<Longrightarrow>
    \<exists>fs. res_map (\<lambda>(n, t). hpu_format_compile n t) hpu_builtin_formats = Inr fs \<and> c = conf_base env0 fs"
  by (simp add: hpu_conf_defaults_def split: sum.splits)

lemma defaults_ok:
  assumes "hpu_conf_defaults env0 = Inr c"
  shows "conf_ok c"
proof -
  obtain fs where fs: "res_map (\<lambda>(n, t). hpu_format_compile n t) hpu_builtin_formats = Inr fs" "c = conf_base env0 fs"
    using defaults_conf [OF assms] by (elim exE conjE)
  note n = res_map_names [OF fs(1)]
  show ?thesis unfolding fs(2)
    by (rule conf_base_ok [OF _ conjunct2 [OF n]]) (simp only: conjunct1 [OF n] builtin_names)
qed

section \<open>Sections in order\<close>

text \<open>The sections of the headers among the lines, in order.\<close>

definition header_of :: "string \<Rightarrow> conf_section option" where
  "header_of line =
     (if line \<noteq> [] \<and> hd line = CHR ''['' then section_of (takeWhile (\<lambda>c. c \<noteq> CHR '']'') (tl line)) else None)"

definition headers :: "string list \<Rightarrow> conf_section list" where
  "headers ls = concat (map (\<lambda>l. case header_of l of None \<Rightarrow> [] | Some sec \<Rightarrow> [sec]) ls)"

text \<open>Running the line callback over lines with their numbers.\<close>

fun conf_lines :: "build_flags \<Rightarrow> conf_parser \<Rightarrow> (string \<times> nat) list \<Rightarrow> conf_parser" where
  "conf_lines B ps [] = ps"
| "conf_lines B ps ((l, n) # ls) = conf_lines B (conf_line B ps l n) ls"

definition sections_ok :: "conf_parser \<Rightarrow> bool" where
  "sections_ok ps \<longleftrightarrow> sorted_wrt (>) (ps_seen ps)
     \<and> ps_cur_section ps = (case ps_seen ps of [] \<Rightarrow> None | sec # _ \<Rightarrow> Some sec)"

definition same_place :: "conf_parser \<Rightarrow> conf_parser \<Rightarrow> bool" where
  "same_place ps ps1 \<longleftrightarrow> ps_seen ps1 = ps_seen ps \<and> ps_cur_section ps1 = ps_cur_section ps \<and> ps_strict ps1 = ps_strict ps"

named_theorems place_simps \<open>what leaves the section alone\<close>

lemma same_place_refl [place_simps]: "same_place ps ps"
  by (simp add: same_place_def)

lemma place_fail [place_simps]: "same_place ps (parse_fail ps1 lno m) = same_place ps ps1"
  by (simp add: same_place_def parse_fail_def)

lemma place_warn [place_simps]: "same_place ps (warn ps1 d) = same_place ps ps1"
  by (simp add: same_place_def warn_def)

lemma place_put [place_simps]: "same_place ps (put f ps1) = same_place ps ps1"
  by (simp add: same_place_def put_def)

lemma place_if [place_simps]: "same_place ps (if P then a else b) = (if P then same_place ps a else same_place ps b)"
  by simp

lemma place_option [place_simps]:
  "same_place ps (case x of None \<Rightarrow> a | Some y \<Rightarrow> f y) = (case x of None \<Rightarrow> same_place ps a | Some y \<Rightarrow> same_place ps (f y))"
  by (cases x) simp_all

lemma place_sum [place_simps]:
  "same_place ps (case x of Inl y \<Rightarrow> f y | Inr y \<Rightarrow> g y) = (case x of Inl y \<Rightarrow> same_place ps (f y) | Inr y \<Rightarrow> same_place ps (g y))"
  by (cases x) simp_all

lemma place_clamp: "clamp_long ps lno v lo hi key = (n, ps1) \<Longrightarrow> same_place ps ps1"
  by (auto simp: clamp_long_def Let_def place_simps split: if_splits)

lemma place_put_clamped [place_simps]: "same_place ps (put_clamped f ps lno v lo hi key)"
  unfolding put_clamped_def by (auto simp: place_simps dest: place_clamp split: prod.split)

lemma place_values [place_simps]:
  "same_place ps (put_bool f ps lno v m)" "same_place ps (put_enum g tbl ps lno v m)" "same_place ps (unknown_key ps lno key m)"
  unfolding put_bool_def put_enum_def unknown_key_def by (simp_all add: place_simps split: option.split)

lemma place_defaults [place_simps]: "same_place ps (add_default_outputs ps lno parts)"
proof -
  have "same_place ps0 ps \<Longrightarrow> same_place ps0 (add_default_outputs ps lno parts)" for ps0
    by (induction ps lno parts rule: add_default_outputs.induct) (simp_all add: Let_def place_simps)
  then show ?thesis by (simp add: place_simps)
qed

text \<open>The same for the steps on an output.\<close>

definition out_place :: "conf_parser \<Rightarrow> conf_parser \<times> 'a \<Rightarrow> bool" where
  "out_place ps r \<longleftrightarrow> same_place ps (fst r)"

lemma out_place_simps [place_simps]:
  "out_place ps (ps1, o1) = same_place ps ps1"
  "out_place ps (if P then a else b) = (if P then out_place ps a else out_place ps b)"
  "out_place ps (case x of None \<Rightarrow> c | Some y \<Rightarrow> f y) = (case x of None \<Rightarrow> out_place ps c | Some y \<Rightarrow> out_place ps (f y))"
  by (simp_all add: out_place_def split: option.split)

lemma place_output_param [place_simps]: "out_place ps (output_param ps o1 lno kv)"
proof -
  have "out_place ps (case clamp_long ps lno n lo hi t of (n, ps1) \<Rightarrow> (ps1, pub (g n) o1))" for n lo hi t g
    by (auto simp: place_simps dest: place_clamp split: prod.split)
  then have "out_place ps (flat_param ps o1 lno k v)" for k v
    unfolding flat_param_def o_enum_def o_bool_def by (simp add: place_simps split: option.split)
  then show ?thesis
    unfolding output_param_def Let_def o_bool_def queue_param_def generic_param_def
    by (simp add: place_simps split: option.split prod.split)
qed

lemma place_output_params: "same_place ps0 ps \<Longrightarrow> out_place ps0 (output_params ps o1 lno parts)"
proof (induction ps o1 lno parts rule: output_params.induct)
  case (2 ps o1 lno p parts)
  obtain ps1 o2 where s: "output_param ps o1 lno p = (ps1, o2)" by fastforce
  have "same_place ps0 ps1"
    using place_output_param [of ps o1 lno p] 2(2) by (simp add: s place_simps) (simp add: same_place_def)
  then show ?case using 2(1) [OF s [symmetric]] by (simp add: s place_simps)
qed (simp add: place_simps)

lemma place_output_line [place_simps]: "out_place ps (output_line B ps key v lno)"
proof (cases "split_csv v 32")
  case (Cons t parts)
  obtain ps1 o1 where t: "output_type B ps (output_zero key) lno (trim t) = (ps1, o1)" by fastforce
  have p1: "same_place ps ps1"
    using arg_cong [OF t, of "out_place ps"] by (simp add: output_type_def place_simps split: if_splits)
  obtain ps2 o2 where p: "output_params ps1 o1 lno parts = (ps2, o2)" by fastforce
  have "same_place ps ps2" using place_output_params [OF p1, of o1 lno parts] by (simp add: p place_simps)
  then show ?thesis using p1 by (simp add: output_line_def Cons t p output_finish_def place_simps)
qed (simp add: output_line_def place_simps)

lemma place_parse_outputs [place_simps]: "same_place ps (parse_outputs B ps key v lno)"
proof -
  obtain ps1 o1 where l: "output_line B ps key v lno = (ps1, o1)" by fastforce
  show ?thesis using place_output_line [of ps B key v lno] by (simp add: parse_outputs_def l place_simps)
qed

lemma place_rule_outputs: "same_place ps0 ps \<Longrightarrow> out_place ps0 (rule_outputs ps r lno parts)"
  by (induction ps r lno parts rule: rule_outputs.induct) (simp_all add: Let_def place_simps)

lemma place_rule_line [place_simps]: "out_place ps (rule_line ps sel lp v lno)"
  unfolding rule_line_def Let_def
  by (auto simp: place_simps place_rule_outputs split: prod.split list.split)

lemma place_parse_rules [place_simps]: "same_place ps (parse_rules ps key v lno)"
proof -
  obtain ps1 r where l: "rule_line ps (before_last (CHR ''.'') key) (take (HPULOGC_MAX_NAME_LEN - 1) (after_last (CHR ''.'') key)) v lno
      = (ps1, r)" by fastforce
  then have "same_place ps ps1" using place_rule_line [of ps "before_last (CHR ''.'') key"] by (metis out_place_simps(1))
  then show ?thesis unfolding parse_rules_def Let_def l by (simp add: place_simps)
qed

lemma place_build_value [place_simps]: "same_place ps (build_bool ps a key v lno)" "same_place ps (build_text ps t key v lno)"
  by (simp_all add: build_bool_def build_text_def place_simps split: option.split)

lemma place_build [place_simps]: "same_place ps (parse_build B ps key v lno)"
  unfolding parse_build_def by (simp add: place_simps)

lemma place_parsers [place_simps]:
  "same_place ps (parse_global B ps key v lno)" "same_place ps (parse_formats ps key v lno)"
  "same_place ps (parse_buffer ps key v lno)" "same_place ps (parse_async ps key v lno)"
  "same_place ps (parse_throttle B ps key v lno)" "same_place ps (parse_advanced ps key v lno)"
  unfolding parse_global_def parse_formats_def parse_buffer_def parse_async_def parse_throttle_def parse_advanced_def Let_def
  by (simp_all only: place_simps if_cancel split: option.split sum.split) simp_all

lemma place_key_value: "same_place ps (parse_key_value B ps key v lno)"
  unfolding parse_key_value_def by (simp add: place_simps split: option.split conf_section.split)

lemma conf_line_header:
  assumes "ps_err (conf_line B ps line lno) = 0" "sections_ok ps"
  shows "sections_ok (conf_line B ps line lno)"
    "rev (ps_seen (conf_line B ps line lno)) = rev (ps_seen ps) @ (case header_of line of None \<Rightarrow> [] | Some sec \<Rightarrow> [sec])"
proof -
  have e: "ps_err ps = 0" using assms(1) by (auto simp: conf_line_def split: if_splits)
  have f: "ps_err (parse_fail ps1 lno m) \<noteq> 0" for ps1 m by (simp add: parse_fail_def status_simps)
  have "sections_ok (conf_line B ps line lno)
    \<and> rev (ps_seen (conf_line B ps line lno)) = rev (ps_seen ps) @ (case header_of line of None \<Rightarrow> [] | Some sec \<Rightarrow> [sec])"
  proof (cases "line \<noteq> [] \<and> hd line = CHR ''[''")
    case True
    then have l: "conf_line B ps line lno = section_header ps line lno" using e by (simp add: conf_line_def)
    obtain sec where sec: "section_of (takeWhile (\<lambda>c. c \<noteq> CHR '']'') (tl line)) = Some sec" "sec \<notin> set (ps_seen ps)"
      "\<not> (case ps_cur_section ps of None \<Rightarrow> False | Some cur \<Rightarrow> sec \<le> cur)"
      "section_header ps line lno = ps\<lparr>ps_cur_section := Some sec, ps_seen := sec # ps_seen ps\<rparr>"
      using assms(1) f unfolding l section_header_def Let_def by (auto split: if_splits option.splits)
    have "\<forall>x \<in> set (ps_seen ps). sec > x"
      using sec(3) assms(2) by (cases "ps_seen ps") (auto simp: sections_ok_def intro: less_trans)
    then show ?thesis using sec True assms(2) by (simp add: l sections_ok_def header_of_def)
  next
    case False
    have "same_place ps (conf_line B ps line lno)"
      using e False by (auto simp: conf_line_def Let_def place_simps place_key_value split: option.split)
    then show ?thesis using False assms(2) by (auto simp: same_place_def sections_ok_def header_of_def)
  qed
  then show "sections_ok (conf_line B ps line lno)"
    "rev (ps_seen (conf_line B ps line lno)) = rev (ps_seen ps) @ (case header_of line of None \<Rightarrow> [] | Some sec \<Rightarrow> [sec])" by auto
qed

lemma conf_line_stopped: "ps_err ps \<noteq> 0 \<Longrightarrow> conf_line B ps line lno = ps"
  by (simp add: conf_line_def)

lemma conf_lines_stopped: "ps_err ps \<noteq> 0 \<Longrightarrow> conf_lines B ps ls = ps"
  by (induction B ps ls rule: conf_lines.induct) (simp_all add: conf_line_stopped)

lemma conf_lines_headers:
  "ps_err (conf_lines B ps ls) = 0 \<Longrightarrow> sections_ok ps \<Longrightarrow>
    sections_ok (conf_lines B ps ls) \<and> rev (ps_seen (conf_lines B ps ls)) = rev (ps_seen ps) @ headers (map fst ls)"
proof (induction B ps ls rule: conf_lines.induct)
  case (2 B ps l n ls)
  have "ps_err (conf_line B ps l n) = 0"
    using 2(2) conf_lines_stopped [of "conf_line B ps l n" B ls] by (cases "ps_err (conf_line B ps l n) = 0") simp_all
  from conf_line_header [OF this 2(3)] 2(1,2) show ?case by (simp add: headers_def)
qed (simp add: headers_def)

text \<open>The lines of a plain file that reach the callback, with their numbers.\<close>

fun numbered :: "nat \<Rightarrow> string list \<Rightarrow> (string \<times> nat) list" where
  "numbered n [] = []"
| "numbered n (l # ls) =
     (if strip_comment_and_trim l = [] then numbered (Suc n) ls
      else (strip_comment_and_trim l, Suc n) # numbered (Suc n) ls)"

lemma run_lines_conf:
  "ps_err (userdata lx) = 0 \<Longrightarrow> run_lines (conf_line_cb B) lx n ls = (rc, lx1) \<Longrightarrow>
    userdata lx1 = conf_lines B (userdata lx) (numbered n ls) \<and> rc = ps_err (userdata lx1)"
proof (induction "conf_line_cb B" lx n ls rule: run_lines.induct)
  case (2 lx n l ls)
  show ?case
  proof (cases "strip_comment_and_trim l = []")
    case True
    then show ?thesis using 2 by (simp add: emit_def)
  next
    case False
    let ?ps = "conf_line B (userdata lx) (strip_comment_and_trim l) (Suc n)"
    have e: "emit (conf_line_cb B) lx (strip_comment_and_trim l) (Suc n) = (ps_err ?ps, lx\<lparr>userdata := ?ps\<rparr>)"
      using False by (simp add: emit_def conf_line_cb_def Let_def)
    show ?thesis
    proof (cases "ps_err ?ps = 0")
      case True
      then show ?thesis using 2(1) [OF e [symmetric]] 2(3) False e by simp
    next
      case stop: False
      then show ?thesis using 2(3) False e by (auto simp: conf_lines_stopped)
    qed
  qed
qed simp

lemma load_plain:
  assumes "list_all plain_line ls" "is_regular path" "open_file path = Some (lines_text ls)" "0 \<le> strict"
  obtains lx where "userdata lx = conf_lines B (parser_start c (strict \<noteq> 0)) (numbered 0 ls)"
    "hpu_ini_parse_file is_regular open_file (Some path) (conf_line_cb B)
       (parser_start c (effective_strict is_regular open_file path strict)) = (ps_err (userdata lx), lx)"
proof -
  have s: "effective_strict is_regular open_file path strict = (strict \<noteq> 0)" using assms(4) by (simp add: effective_strict_def)
  let ?i = "ini_lexer_init (parser_start c (strict \<noteq> 0))"
  have i: "hpu_ini_parse_file is_regular open_file (Some path) (conf_line_cb B) (parser_start c (strict \<noteq> 0))
      = run_lines (conf_line_cb B) ?i 0 ls"
    using assms parse_file_run_lines [of ?i ls "conf_line_cb B" 0]
    by (simp add: hpu_ini_parse_file_def idle_def ini_lexer_init_def list_all_iff)
  obtain rc lx where r: "run_lines (conf_line_cb B) ?i 0 ls = (rc, lx)" by fastforce
  from run_lines_conf [OF _ r] have "userdata lx = conf_lines B (parser_start c (strict \<noteq> 0)) (numbered 0 ls)" "rc = ps_err (userdata lx)"
    by (simp_all add: ini_lexer_init_def parser_start_def)
  then show thesis using that [of lx] i r s by simp
qed

lemma load_plain_ok:
  assumes "list_all plain_line ls" "is_regular path" "open_file path = Some (lines_text ls)" "0 \<le> strict"
    and "hpu_conf_load_file B is_regular open_file c path strict = (0, c1, ds)"
  shows "ps_err (conf_lines B (parser_start c (strict \<noteq> 0)) (numbered 0 ls)) = 0
    \<and> c1 = (let c2 = ps_conf (conf_lines B (parser_start c (strict \<noteq> 0)) (numbered 0 ls))
             in c2\<lparr>c_outputs := map rederive (c_outputs c2), c_source_path := take (HPULOGC_MAX_PATH_LEN - 1) path\<rparr>)
    \<and> ds = ps_diag (conf_lines B (parser_start c (strict \<noteq> 0)) (numbered 0 ls))"
proof -
  obtain lx where lx: "userdata lx = conf_lines B (parser_start c (strict \<noteq> 0)) (numbered 0 ls)"
    "hpu_ini_parse_file is_regular open_file (Some path) (conf_line_cb B)
       (parser_start c (effective_strict is_regular open_file path strict)) = (ps_err (userdata lx), lx)"
    by (rule load_plain [of ls is_regular path open_file strict, OF assms(1-4)])
  then show ?thesis using assms(5)
    by (auto simp: hpu_conf_load_file_def Let_def status_simps split: if_splits)
qed

end
