(* ===== verification/ConfStrict.thy ===== *)
theory ConfStrict
  imports ConfFileLaws
begin

text \<open>
  Strict and lenient loading compared: strictness only refuses more. What a strict parse accepts, the
  lenient parse of the same lines reads in the same way.
\<close>

section \<open>The two parses side by side\<close>

named_theorems lax_simps \<open>steps that strict and lenient parsing share\<close>

definition unstrict :: "conf_parser \<Rightarrow> conf_parser" where
  "unstrict ps = ps\<lparr>ps_strict := False\<rparr>"

text \<open>\<open>lax a b\<close>: \<open>a\<close> is the lenient run where \<open>b\<close> is the given one, unless that failed.\<close>

definition lax :: "conf_parser \<Rightarrow> conf_parser \<Rightarrow> bool" where
  "lax a b \<longleftrightarrow> (ps_err b = 0 \<longrightarrow> a = unstrict b)"

lemma unstrict_fields [simp]: "ps_conf (unstrict ps) = ps_conf ps" "ps_err (unstrict ps) = ps_err ps"
  "ps_cur_section (unstrict ps) = ps_cur_section ps" "ps_seen (unstrict ps) = ps_seen ps" "ps_strict (unstrict ps) = False"
  by (simp_all add: unstrict_def)

lemma lax_refl [lax_simps]: "lax (unstrict ps) ps"
  by (simp add: lax_def)

lemma lax_fail [lax_simps]: "lax a (parse_fail ps lno m)"
  by (simp add: lax_def parse_fail_def status_simps)

lemma lax_warn [lax_simps]: "lax a b \<Longrightarrow> lax (warn a d) (warn b d)"
  by (auto simp: lax_def warn_def unstrict_def)

lemma lax_put [lax_simps]: "lax a b \<Longrightarrow> lax (put f a) (put f b)"
  by (auto simp: lax_def put_def unstrict_def)

lemma lax_if [lax_simps]: "lax (if P then a else b) (if P then c else d) = (if P then lax a c else lax b d)"
  by simp

lemma lax_option [lax_simps]:
  "lax (case x of None \<Rightarrow> a | Some y \<Rightarrow> f y) (case x of None \<Rightarrow> b | Some y \<Rightarrow> g y)
    = (case x of None \<Rightarrow> lax a b | Some y \<Rightarrow> lax (f y) (g y))"
  by (cases x) simp_all

lemma lax_sum [lax_simps]:
  "lax (case x of Inl y \<Rightarrow> f y | Inr y \<Rightarrow> g y) (case x of Inl y \<Rightarrow> f1 y | Inr y \<Rightarrow> g1 y)
    = (case x of Inl y \<Rightarrow> lax (f y) (f1 y) | Inr y \<Rightarrow> lax (g y) (g1 y))"
  by (cases x) simp_all

lemma lax_unknown [lax_simps]: "lax (unknown_key (unstrict ps) lno key m) (unknown_key ps lno key m)"
  by (simp add: unknown_key_def lax_simps)

lemma clamp_unstrict:
  "clamp_long (unstrict ps) lno v lo hi key = (fst (clamp_long ps lno v lo hi key), unstrict (snd (clamp_long ps lno v lo hi key)))"
  by (simp add: clamp_long_def Let_def warn_def unstrict_def)

lemma lax_values [lax_simps]:
  "lax (put_clamped f (unstrict ps) lno v lo hi key) (put_clamped f ps lno v lo hi key)"
  "lax (put_bool g (unstrict ps) lno v m) (put_bool g ps lno v m)"
  "lax (put_enum h tbl (unstrict ps) lno v m) (put_enum h tbl ps lno v m)"
  unfolding put_clamped_def put_bool_def put_enum_def
  by (simp_all add: clamp_unstrict lax_simps split: prod.split option.split)

lemma lax_build [lax_simps]:
  "lax (build_bool (unstrict ps) a key v lno) (build_bool ps a key v lno)"
  "lax (build_text (unstrict ps) t key v lno) (build_text ps t key v lno)"
  unfolding build_bool_def build_text_def by (simp_all add: lax_simps split: option.split)

lemma put_unstrict: "put f (unstrict ps) = unstrict (put f ps)"
  by (simp add: put_def unstrict_def)

lemma lax_defaults [lax_simps]: "lax (add_default_outputs (unstrict ps) lno parts) (add_default_outputs ps lno parts)"
  by (induction ps lno parts rule: add_default_outputs.induct) (simp_all add: Let_def put_unstrict lax_simps)

section \<open>Outputs and rules\<close>

text \<open>The same with the item under construction, which must agree.\<close>

definition lax2 :: "conf_parser \<times> 'a \<Rightarrow> conf_parser \<times> 'a \<Rightarrow> bool" where
  "lax2 a b \<longleftrightarrow> (ps_err (fst b) = 0 \<longrightarrow> a = (unstrict (fst b), snd b))"

lemma lax2_simps [lax_simps]:
  "lax2 (unstrict ps, o1) (ps, o1)"
  "lax2 a (parse_fail ps lno m, o1)"
  "lax2 (if P then a else b) (if P then c else d) = (if P then lax2 a c else lax2 b d)"
  "lax2 (case x of None \<Rightarrow> a | Some y \<Rightarrow> f y) (case x of None \<Rightarrow> b | Some y \<Rightarrow> g y)
    = (case x of None \<Rightarrow> lax2 a b | Some y \<Rightarrow> lax2 (f y) (g y))"
  by (simp_all add: lax2_def parse_fail_def status_simps split: option.split)

lemma lax2_unknown [lax_simps]: "lax2 (unknown_key (unstrict ps) lno k m, o1) (unknown_key ps lno k m, o1)"
  using lax_unknown [of ps lno k m] by (simp add: lax2_def lax_def)

lemma lax2_values [lax_simps]:
  "lax2 (o_bool f (unstrict ps) o1 lno v) (o_bool f ps o1 lno v)"
  "lax2 (o_enum g tbl (unstrict ps) o1 lno v m) (o_enum g tbl ps o1 lno v m)"
  "lax2 (queue_param (unstrict ps) o1 lno v) (queue_param ps o1 lno v)"
  "lax2 (generic_param (unstrict ps) o1 lno k v) (generic_param ps o1 lno k v)"
  unfolding o_bool_def o_enum_def queue_param_def generic_param_def Let_def
  by (simp_all add: lax_simps split: option.split) (simp_all add: lax2_def warn_def unstrict_def)

lemma lax2_clamp [lax_simps]:
  "lax2 (case clamp_long (unstrict ps) lno n lo hi t of (n, ps1) \<Rightarrow> (ps1, f n))
        (case clamp_long ps lno n lo hi t of (n, ps1) \<Rightarrow> (ps1, f n))"
  by (simp add: clamp_unstrict lax_simps split: prod.split)

lemma lax2_flat [lax_simps]: "lax2 (flat_param (unstrict ps) o1 lno k v) (flat_param ps o1 lno k v)"
  unfolding flat_param_def by (simp add: lax_simps split: option.split)

lemma lax2_param [lax_simps]: "lax2 (output_param (unstrict ps) o1 lno kv) (output_param ps o1 lno kv)"
  unfolding output_param_def Let_def by (simp add: lax_simps split: option.split prod.split)

lemma lax2_then:
  assumes "lax2 a b" "\<And>ps x. lax2 (F (unstrict ps) x) (F ps x)"
  shows "lax2 (case a of (ps, x) \<Rightarrow> if ps_err ps \<noteq> 0 then (ps, x) else F ps x)
              (case b of (ps, x) \<Rightarrow> if ps_err ps \<noteq> 0 then (ps, x) else F ps x)"
proof -
  obtain ps x where b: "b = (ps, x)" by (cases b)
  show ?thesis
  proof (cases "ps_err ps = 0")
    case True
    then have "a = (unstrict ps, x)" using assms(1) b by (simp add: lax2_def)
    then show ?thesis using True assms(2) b by simp
  qed (simp add: lax2_def b)
qed

lemma lax2_params: "lax2 (output_params (unstrict ps) o1 lno parts) (output_params ps o1 lno parts)"
proof (induction parts arbitrary: ps o1)
  case (Cons p parts)
  show ?case
    using lax2_then [OF lax2_param [of ps o1 lno p], of "\<lambda>ps o1. output_params ps o1 lno parts"] Cons by simp
qed (simp add: lax_simps)

lemma lax2_type: "lax2 (output_type B (unstrict ps) o1 lno t) (output_type B ps o1 lno t)"
  unfolding output_type_def by (simp add: lax_simps)

lemma lax2_finish: "lax2 (output_finish (unstrict ps) o1 lno) (output_finish ps o1 lno)"
  unfolding output_finish_def by (simp add: lax_simps)

lemma lax2_line: "lax2 (output_line B (unstrict ps) key v lno) (output_line B ps key v lno)"
proof (cases "split_csv v 32")
  case (Cons t parts)
  let ?F = "\<lambda>ps o1. case output_params ps o1 lno parts of
    (ps2, o2) \<Rightarrow> if ps_err ps2 \<noteq> 0 then (ps2, o2) else output_finish ps2 o2 lno"
  have "lax2 (?F (unstrict ps1) x) (?F ps1 x)" for ps1 x
    using lax2_then [OF lax2_params, of "\<lambda>ps2 o2. output_finish ps2 o2 lno" ps1 x lno parts, OF lax2_finish] .
  from lax2_then [OF lax2_type [of B ps "output_zero key" lno "trim t"], of ?F, OF this]
  show ?thesis by (simp add: output_line_def Cons)
qed (simp add: output_line_def lax_simps)

lemma lax2_put: "lax2 a b \<Longrightarrow> lax (case a of (ps, x) \<Rightarrow> put (f x) ps) (case b of (ps, x) \<Rightarrow> put (f x) ps)"
  by (auto simp: lax2_def lax_def put_def unstrict_def split: prod.split)

lemma lax_outputs [lax_simps]: "lax (parse_outputs B (unstrict ps) key v lno) (parse_outputs B ps key v lno)"
  unfolding parse_outputs_def by (simp add: lax_simps lax2_put [OF lax2_line])

lemma lax2_rule_outputs [lax_simps]: "lax2 (rule_outputs (unstrict ps) r lno parts) (rule_outputs ps r lno parts)"
  by (induction ps r lno parts rule: rule_outputs.induct) (simp_all add: Let_def lax_simps)

lemma lax2_rule_line: "lax2 (rule_line (unstrict ps) sel lp v lno) (rule_line ps sel lp v lno)"
  unfolding rule_line_def Let_def by (simp add: lax_simps split: prod.split list.split)

lemma lax_rules [lax_simps]: "lax (parse_rules (unstrict ps) key v lno) (parse_rules ps key v lno)"
  unfolding parse_rules_def Let_def by (simp add: lax_simps lax2_put [OF lax2_rule_line])

section \<open>Lines\<close>

lemma lax_sections [lax_simps]:
  "lax (parse_build B (unstrict ps) key v lno) (parse_build B ps key v lno)"
  "lax (parse_global B (unstrict ps) key v lno) (parse_global B ps key v lno)"
  "lax (parse_formats (unstrict ps) key v lno) (parse_formats ps key v lno)"
  "lax (parse_buffer (unstrict ps) key v lno) (parse_buffer ps key v lno)"
  "lax (parse_async (unstrict ps) key v lno) (parse_async ps key v lno)"
  "lax (parse_throttle B (unstrict ps) key v lno) (parse_throttle B ps key v lno)"
  "lax (parse_advanced (unstrict ps) key v lno) (parse_advanced ps key v lno)"
  unfolding parse_build_def parse_global_def parse_formats_def parse_buffer_def parse_async_def parse_throttle_def parse_advanced_def Let_def
  by (simp_all add: lax_simps split: option.split sum.split)

lemma lax_key_value [lax_simps]: "lax (parse_key_value B (unstrict ps) key v lno) (parse_key_value B ps key v lno)"
  unfolding parse_key_value_def by (simp add: lax_simps split: option.split conf_section.split)

lemma lax_header [lax_simps]: "lax (section_header (unstrict ps) line lno) (section_header ps line lno)"
proof -
  have "(unstrict ps)\<lparr>ps_cur_section := x, ps_seen := y\<rparr> = unstrict (ps\<lparr>ps_cur_section := x, ps_seen := y\<rparr>)" for x y
    by (simp add: unstrict_def)
  then show ?thesis unfolding section_header_def Let_def by (simp add: lax_simps split: option.split)
qed

lemma lax_line: "lax (conf_line B (unstrict ps) line lno) (conf_line B ps line lno)"
  unfolding conf_line_def by (auto simp: lax_simps Let_def split: option.split prod.split)

lemma lax_lines: "ps_err (conf_lines B ps ls) = 0 \<Longrightarrow> conf_lines B (unstrict ps) ls = unstrict (conf_lines B ps ls)"
proof (induction B ps ls rule: conf_lines.induct)
  case (2 B ps l n ls)
  have "ps_err (conf_line B ps l n) = 0"
    using 2(2) conf_lines_stopped [of "conf_line B ps l n" B ls] by (cases "ps_err (conf_line B ps l n) = 0") simp_all
  then show ?case using 2 lax_line [of B ps l n] by (simp add: lax_def)
qed simp

end
