(* ===== verification/ConfLoad.thy ===== *)
theory ConfLoad
  imports ConfStrict
begin

text \<open>
  What loading a configuration file guarantees: a well-formed snapshot or an error with a diagnostic,
  sections in their order, strictness that only refuses more, and numbers and private sink parameters
  that come back as they were written.
\<close>

section \<open>Numbers read back\<close>

lemma dec_digits_step: "dec_digits n = (if n < 10 then [char_of (48 + n)] else dec_digits (n div 10) @ [char_of (48 + n mod 10)])"
  by (rule dec_digits.simps)

lemma base_digit_digit [simp]: "d < 10 \<Longrightarrow> base_digit 10 (char_of (48 + d :: nat))"
  by (simp add: base_digit_def)

lemma dec_digits_base: "\<forall>c \<in> set (dec_digits n). base_digit 10 c"
proof (induction n rule: dec_digits.induct)
  case (1 n)
  then show ?case using dec_digits_step [of n] by simp
qed

lemma dec_digits_ne [simp]: "dec_digits n \<noteq> []"
  using dec_digits_step [of n] by simp

lemma dec_digits_ends: "base_digit 10 (hd (dec_digits n))" "base_digit 10 (last (dec_digits n))"
  using dec_digits_base [of n] hd_in_set [of "dec_digits n"] last_in_set [of "dec_digits n"] by simp_all

lemma base_val_snoc: "base_val b (s @ [c]) = base_val b s * b + (of_char c - 48)"
  by (simp add: base_val_def)

lemma base_val_digits [simp]: "base_val 10 (dec_digits n) = n"
proof (induction n rule: dec_digits.induct)
  case (1 n)
  show ?case
  proof (cases "n < 10")
    case True
    then show ?thesis using dec_digits_step [of n] by (simp add: base_val_def)
  next
    case False
    then show ?thesis using dec_digits_step [of n] 1 by (simp add: base_val_snoc)
  qed
qed

lemma digit_not_blank: "base_digit 10 c \<Longrightarrow> \<not> isspace c \<and> \<not> is_blank c \<and> c \<notin> {CHR ''-'', CHR ''+'', CHR ''='', CHR ''\"'', CHR ''#'', CHR '','', CHR 0x0A, CHR 0x0D, CHR 0x00}"
  by (auto simp: base_digit_def isspace_def is_blank_def)

lemma scan_digits: "scan_number 10 (dec_digits n) = (False, dec_digits n, [])"
proof -
  note h = dec_digits_ends(1) [of n]
  then have "dropWhile isspace (dec_digits n) = dec_digits n"
    using digit_not_blank by (cases "dec_digits n") auto
  then show ?thesis using h digit_not_blank [of "hd (dec_digits n)"] dec_digits_base [of n]
    by (auto simp: scan_number_def Let_def takeWhile_eq_all_conv dropWhile_eq_Nil_conv)
qed

lemma strtol_digits: "int n < 2 ^ 63 \<Longrightarrow> strtol 10 (dec_digits n) = int n"
  by (simp add: strtol_def scan_digits)

lemma dec_digits_short: "n < 10 ^ k \<Longrightarrow> 0 < k \<Longrightarrow> length (dec_digits n) \<le> k"
proof (induction k arbitrary: n)
  case (Suc k)
  show ?case
  proof (cases "n < 10")
    case True
    then show ?thesis using dec_digits_step [of n] by simp
  next
    case False
    then have "n div 10 < 10 ^ k" "0 < k" using Suc.prems by (auto intro: ccontr)
    then show ?thesis using Suc.IH [of "n div 10"] dec_digits_step [of n] False by simp
  qed
qed simp
 
section \<open>A key and a value\<close>

text \<open>A text that trimming and unquoting leave alone.\<close>

definition bare :: "string \<Rightarrow> bool" where
  "bare s \<longleftrightarrow> s \<noteq> [] \<and> \<not> is_blank (hd s) \<and> \<not> is_blank (last s) \<and> CHR ''='' \<notin> set s \<and> CHR ''\"'' \<notin> set s \<and> CHR ''#'' \<notin> set s
     \<and> CHR 0x0A \<notin> set s \<and> CHR 0x00 \<notin> set s"

definition kv_line :: "string \<Rightarrow> string \<Rightarrow> string" where
  "kv_line k v = k @ '' = '' @ v"

lemma bare_digits: "bare (dec_digits n)"
  using dec_digits_ends [of n] dec_digits_base [of n] digit_not_blank unfolding bare_def by auto

lemma trim_id: "s \<noteq> [] \<Longrightarrow> \<not> is_blank (hd s) \<Longrightarrow> \<not> is_blank (last s) \<Longrightarrow> trim s = s"
  by (cases s) (auto simp: trim_def intro: rtrim_id)

lemma trim_pad:
  assumes "s \<noteq> []" "\<not> is_blank (hd s)" "\<not> is_blank (last s)"
  shows "trim (s @ '' '') = s" "trim ('' '' @ s) = s"
proof -
  have d: "dropWhile is_blank (s @ t) = s @ t" for t using assms by (cases s) simp_all
  have "rtrim is_blank (s @ '' '') = rtrim is_blank s" by (simp add: is_blank_def)
  then show "trim (s @ '' '') = s" using d [of "'' ''"] assms by (simp add: trim_def rtrim_id)
  show "trim ('' '' @ s) = s" using d [of "[]"] assms by (simp add: trim_def is_blank_def [of "CHR '' ''"] rtrim_id)
qed

lemma until_first:
  "x \<notin> set a \<Longrightarrow> takeWhile (\<lambda>c. c \<noteq> x) (a @ x # b) = a \<and> dropWhile (\<lambda>c. c \<noteq> x) (a @ x # b) = x # b"
  by (induction a) auto

lemma split_eq_kv: "CHR ''='' \<notin> set k \<Longrightarrow> split_eq (kv_line k v) = Some (k @ '' '', '' '' @ v)"
  using until_first [of "CHR ''=''" "k @ '' ''" "'' '' @ v"] by (simp add: split_eq_def kv_line_def)

lemma conf_line_kv:
  assumes "bare k" "bare v" "length (kv_line k v) < HPU_INI_MAX_LINE" "hd k \<noteq> CHR ''[''"
  shows "conf_line B ps (kv_line k v) lno = (if ps_err ps \<noteq> 0 then ps else parse_key_value B ps k v lno)"
proof -
  have "trim (k @ '' '') = k" "trim ('' '' @ v) = v" using assms(1,2) trim_pad by (simp_all add: bare_def)
  moreover have "hd v \<noteq> CHR ''\"''" using assms(2) hd_in_set [of v] unfolding bare_def by metis
  then have "strip_quotes v = v" by (simp add: strip_quotes_def)
  moreover have "hd (kv_line k v) \<noteq> CHR ''[''" using assms(1,4) by (simp add: kv_line_def bare_def)
  moreover have "take (HPU_INI_MAX_LINE * 2 - 1) (kv_line k v) = kv_line k v" using assms(3) by simp
  ultimately show ?thesis using assms(1,2) split_eq_kv [of k v]
    by (simp add: conf_line_def Let_def bare_def)
qed

lemma plain_kv: "bare k \<Longrightarrow> bare v \<Longrightarrow> length (kv_line k v) + 1 < HPU_INI_MAX_LINE \<Longrightarrow> plain_line (kv_line k v)"
  by (auto simp: plain_line_def kv_line_def bare_def intro: cut_comment_no_hash)

text \<open>A file for the examples: a number above its range, and an empty section.\<close>

definition demo_file :: "string list" where
  "demo_file = [''[async]'', kv_line ''batch size'' (dec_digits 70000), ''[advanced]'']"

section \<open>Properties of a load\<close>

text \<open>The asynchronous section with its four numbers.\<close>

definition async_section :: "nat \<Rightarrow> nat \<Rightarrow> nat \<Rightarrow> nat \<Rightarrow> string list" where
  "async_section batch flush shutdown consumers =
     [''[async]'', kv_line ''batch size'' (dec_digits batch), kv_line ''flush interval'' (dec_digits flush),
      kv_line ''shutdown timeout'' (dec_digits shutdown), kv_line ''consumer threads'' (dec_digits consumers)]"

lemma number_line:
  assumes "n < 10 ^ 7" "bare k" "length k < 100" "hd k \<noteq> CHR ''[''"
  shows "plain_line (kv_line k (dec_digits n))"
    "conf_line B ps (kv_line k (dec_digits n)) lno = (if ps_err ps \<noteq> 0 then ps else parse_key_value B ps k (dec_digits n) lno)"
    "strip_comment_and_trim (kv_line k (dec_digits n)) = kv_line k (dec_digits n)"
proof -
  have l: "length (kv_line k (dec_digits n)) < 200" using dec_digits_short [OF assms(1)] assms(3) by (simp add: kv_line_def)
  then show "plain_line (kv_line k (dec_digits n))" using plain_kv [OF assms(2) bare_digits] by (simp add: HPU_INI_MAX_LINE_def)
  show "conf_line B ps (kv_line k (dec_digits n)) lno = (if ps_err ps \<noteq> 0 then ps else parse_key_value B ps k (dec_digits n) lno)"
    using l conf_line_kv [OF assms(2) bare_digits _ assms(4)] by (simp add: HPU_INI_MAX_LINE_def)
  have "CHR ''#'' \<notin> set (kv_line k (dec_digits n))" using assms(2) bare_digits [of n] by (auto simp: kv_line_def bare_def)
  then show "strip_comment_and_trim (kv_line k (dec_digits n)) = kv_line k (dec_digits n)"
    using dec_digits_ends(2) [of n] digit_not_blank
    by (auto simp: strip_comment_and_trim_def cut_comment_no_hash kv_line_def is_line_blank_def is_phys_blank_def is_blank_def intro!: rtrim_id)
qed

lemma put_number:
  assumes "lo \<le> int n" "int n \<le> hi" "hi < 2 ^ 63"
  shows "put_clamped f ps lno (dec_digits n) lo hi key = put (f (int n)) ps"
  using assms by (simp add: put_clamped_def clamp_long_def strtol_digits)

lemma conf_line_async: "ps_err ps = 0 \<Longrightarrow> ps_seen ps = [] \<Longrightarrow> ps_cur_section ps = None \<Longrightarrow>
    conf_line B ps ''[async]'' lno = ps\<lparr>ps_cur_section := Some SEC_ASYNC, ps_seen := [SEC_ASYNC]\<rparr>"
  by (simp add: conf_line_def section_header_def section_of_def g_section_names_def eqcase_def tolower_def HPULOGC_MAX_NAME_LEN_def)

lemmas async_keys = number_line [of _ "''batch size''", unfolded bare_def] number_line [of _ "''flush interval''", unfolded bare_def]
  number_line [of _ "''shutdown timeout''", unfolded bare_def] number_line [of _ "''consumer threads''", unfolded bare_def]

lemma async_section_plain:
  "b < 10 ^ 7 \<Longrightarrow> f < 10 ^ 7 \<Longrightarrow> s < 10 ^ 7 \<Longrightarrow> k < 10 ^ 7 \<Longrightarrow> list_all plain_line (async_section b f s k)"
  unfolding async_section_def
  by (simp add: async_keys is_blank_def) (simp add: plain_line_def HPU_INI_MAX_LINE_def cut_comment_no_hash)

lemma async_section_numbered:
  "b < 10 ^ 7 \<Longrightarrow> f < 10 ^ 7 \<Longrightarrow> s < 10 ^ 7 \<Longrightarrow> k < 10 ^ 7 \<Longrightarrow>
    numbered 0 (async_section b f s k) = zip (async_section b f s k) [1, 2, 3, 4, 5]"
  unfolding async_section_def
  by (simp add: async_keys is_blank_def)
     (simp add: kv_line_def strip_comment_and_trim_def cut_comment_no_hash is_line_blank_def is_phys_blank_def rtrim_def)

text \<open>
  What an asynchronous section says is what a load makes of it: the four numbers, printed in decimal and
  within their documented ranges, come back through the line reader, the section and key parsing and the
  number scan exactly, and nothing else changes but the source path.
\<close>

theorem async_section_roundtrip:
  assumes "b_async B" "is_regular path" "open_file path = Some (lines_text (async_section b f s k))"
    and "1 \<le> b" "b \<le> 65535" "1 \<le> f" "f \<le> 60000" "s \<le> 3600000" "1 \<le> k" "k \<le> 16" "c_outputs c = []" "0 \<le> strict"
  shows "hpu_conf_load_file B is_regular open_file c path strict =
    (0, c\<lparr>c_batch_size := int b, c_flush_interval_ms := int f, c_shutdown_timeout_ms := int s, c_consumer_threads := int k,
         c_source_path := take (HPULOGC_MAX_PATH_LEN - 1) path\<rparr>, [])"
proof -
  have r: "b < 10 ^ 7" "f < 10 ^ 7" "s < 10 ^ 7" "k < 10 ^ 7" using assms by simp_all
  let ?p = "parser_start c (strict \<noteq> 0)"
  have run: "conf_lines B ?p (numbered 0 (async_section b f s k)) =
      put (\<lambda>c. c\<lparr>c_batch_size := int b, c_flush_interval_ms := int f, c_shutdown_timeout_ms := int s, c_consumer_threads := int k\<rparr>)
        (?p\<lparr>ps_cur_section := Some SEC_ASYNC, ps_seen := [SEC_ASYNC]\<rparr>)"
    using assms r
    by (simp add: async_section_numbered) (simp add: async_section_def conf_line_async async_keys is_blank_def
        parse_key_value_def parse_async_def put_number HPU_MAX_CONSUMERS_def parser_start_def put_def)
  obtain lx where "userdata lx = conf_lines B ?p (numbered 0 (async_section b f s k))"
    "hpu_ini_parse_file is_regular open_file (Some path) (conf_line_cb B)
       (parser_start c (effective_strict is_regular open_file path strict)) = (ps_err (userdata lx), lx)"
    by (rule load_plain [of "async_section b f s k" is_regular path open_file strict, OF async_section_plain [OF r] assms(2,3,12)])
  then show ?thesis using run assms(11) by (simp add: hpu_conf_load_file_def put_def parser_start_def Let_def)
qed

theorem async_section_roundtrip_witness:
  "\<forall>e. hpu_conf_load_file full_build (\<lambda>_. True) (\<lambda>_. Some (lines_text (async_section 64 100 5000 16))) (conf_base e []) ''hpu.ini'' 1
    = (0, (conf_base e [])\<lparr>c_batch_size := 64, c_flush_interval_ms := 100, c_shutdown_timeout_ms := 5000,
         c_consumer_threads := 16, c_source_path := ''hpu.ini''\<rparr>, [])"
  using async_section_roundtrip [of full_build "\<lambda>_. True" "''hpu.ini''" "\<lambda>_. Some (lines_text (async_section 64 100 5000 16))"
      64 100 5000 16 "conf_base _ []" 1]
  by (simp add: full_build_def conf_base_def HPULOGC_MAX_PATH_LEN_def)

section \<open>Any file\<close>

lemma demo_numbered: "numbered 0 demo_file = zip demo_file [1, 2, 3]"
  by (simp add: demo_file_def async_keys is_blank_def)
     (simp add: kv_line_def strip_comment_and_trim_def cut_comment_no_hash is_line_blank_def is_phys_blank_def rtrim_def)

lemma demo_plain: "list_all plain_line demo_file"
  by (simp add: demo_file_def async_keys is_blank_def) (simp add: plain_line_def HPU_INI_MAX_LINE_def cut_comment_no_hash)

lemma conf_line_advanced: "ps_err ps = 0 \<Longrightarrow> ps_seen ps = [SEC_ASYNC] \<Longrightarrow> ps_cur_section ps = Some SEC_ASYNC \<Longrightarrow>
    conf_line B ps ''[advanced]'' lno = ps\<lparr>ps_cur_section := Some SEC_ADVANCED, ps_seen := [SEC_ADVANCED, SEC_ASYNC]\<rparr>"
  by (simp add: conf_line_def section_header_def section_of_def g_section_names_def eqcase_def tolower_def HPULOGC_MAX_NAME_LEN_def
      less_eq_conf_section_def)

lemma demo_load:
  assumes "c_outputs c = []" "0 \<le> strict"
  shows "hpu_conf_load_file full_build (\<lambda>_. True) (\<lambda>_. Some (lines_text demo_file)) c ''hpu.ini'' strict =
    (0, c\<lparr>c_batch_size := 65535, c_source_path := ''hpu.ini''\<rparr>, [D_clamp 2 ''batch size'' 70000 65535])"
proof -
  let ?p = "parser_start c (strict \<noteq> 0)"
  have run: "conf_lines full_build ?p (numbered 0 demo_file) =
      (put (\<lambda>c. c\<lparr>c_batch_size := 65535\<rparr>) (warn ?p (D_clamp 2 ''batch size'' 70000 65535)))
        \<lparr>ps_cur_section := Some SEC_ADVANCED, ps_seen := [SEC_ADVANCED, SEC_ASYNC]\<rparr>"
    by (simp add: demo_numbered)
       (simp add: demo_file_def conf_line_async conf_line_advanced async_keys is_blank_def parse_key_value_def parse_async_def
        put_clamped_def clamp_long_def strtol_digits parser_start_def put_def warn_def full_build_def)
  obtain lx where "userdata lx = conf_lines full_build ?p (numbered 0 demo_file)"
    "hpu_ini_parse_file (\<lambda>_. True) (\<lambda>_. Some (lines_text demo_file)) (Some ''hpu.ini'') (conf_line_cb full_build)
       (parser_start c (effective_strict (\<lambda>_. True) (\<lambda>_. Some (lines_text demo_file)) ''hpu.ini'' strict)) = (ps_err (userdata lx), lx)"
    by (rule load_plain [of demo_file "\<lambda>_. True" "''hpu.ini''" "\<lambda>_. Some (lines_text demo_file)" strict, OF demo_plain TrueI refl assms(2)])
  then show ?thesis using run assms
    by (simp add: hpu_conf_load_file_def put_def warn_def parser_start_def Let_def HPULOGC_MAX_PATH_LEN_def)
qed

lemmas placeholder_eval = find_placeholder_def match_long_placeholder_def long_table_def starts_with_def
  parse_modifier_def is_digit_def placeholder_type_def

lemma loop_compiles:
  assumes "\<exists>g. compile_loop (fmt_empty n) [] t = Inr g" "length n < 64" "n \<noteq> ''json''"
  shows "\<exists>f. hpu_format_compile n t = Inr f"
proof -
  obtain g where g: "compile_loop (fmt_empty n) [] t = Inr g" using assms(1) by blast
  then have "\<not> is_json g" using compile_loop_extends [OF g] assms(3) by (simp add: extends_def fmt_empty_def)
  then show ?thesis using g assms(2) by (simp add: hpu_format_compile_def HPULOGC_MAX_NAME_LEN_def)
qed

lemma builtins_loop:
  "\<exists>g. compile_loop fmt lit ''%level: %msg%n'' = Inr g"
  "\<exists>g. compile_loop fmt lit ''%time [%level] %msg%n'' = Inr g"
  "\<exists>g. compile_loop fmt lit ''%time [%level] [%category] %msg%n'' = Inr g"
  "\<exists>g. compile_loop fmt lit ''%time [%level] [pid:%pid tid:%tid] [%file:%line %func] [%category] %msg%n'' = Inr g"
  by (simp_all add: placeholder_eval)

lemma builtins_compile: "\<forall>(n, t) \<in> set hpu_builtin_formats. \<exists>f. hpu_format_compile n t = Inr f"
proof -
  have "\<exists>f. hpu_format_compile ''json'' (snd (last hpu_builtin_formats)) = Inr f"
    by (simp add: hpu_builtin_formats_def) (simp add: compile_eval splice_eval)
  moreover have "\<exists>f. hpu_format_compile ''minimal'' ''%level: %msg%n'' = Inr f"
    "\<exists>f. hpu_format_compile ''standard'' ''%time [%level] %msg%n'' = Inr f"
    "\<exists>f. hpu_format_compile ''categorized'' ''%time [%level] [%category] %msg%n'' = Inr f"
    "\<exists>f. hpu_format_compile ''detailed'' ''%time [%level] [pid:%pid tid:%tid] [%file:%line %func] [%category] %msg%n'' = Inr f"
    by (rule loop_compiles [OF builtins_loop(1)] loop_compiles [OF builtins_loop(2)] loop_compiles [OF builtins_loop(3)]
        loop_compiles [OF builtins_loop(4)]; simp)+
  ultimately show ?thesis unfolding hpu_builtin_formats_def by (simp del: compile_loop.simps)
qed

lemma res_map_total: "\<forall>x \<in> set xs. \<exists>y. f x = Inr y \<Longrightarrow> \<exists>ys. res_map f xs = Inr ys"
  by (induction xs) fastforce+

lemma defaults_exist: "\<exists>fs. hpu_conf_defaults e = Inr (conf_base e fs)"
proof -
  have "\<exists>fs. res_map (\<lambda>(n, t). hpu_format_compile n t) hpu_builtin_formats = Inr fs"
    by (rule res_map_total) (use builtins_compile in auto)
  then show ?thesis by (auto simp: hpu_conf_defaults_def)
qed

text \<open>Loading over any well-formed snapshot.\<close>

lemma load_outcome:
  assumes "conf_ok c0"
    and "hpu_conf_load_file B is_regular open_file c0 path strict = (rc, c, ds)"
  shows "if rc = 0 then conf_ok c \<and> \<not> list_ex is_fail ds else rc = HPULOGC_ERR_CONFIG \<and> list_ex is_fail ds"
proof -
  let ?s = "effective_strict is_regular open_file path strict"
  have start: "running (parser_start c0 ?s)"
    using assms(1) by (simp add: running_def parser_ok_def parser_start_def)
  obtain rc0 l where p: "hpu_ini_parse_file is_regular open_file (Some path) (conf_line_cb B) (parser_start c0 ?s) = (rc0, l)"
    by fastforce
  show ?thesis
  proof (cases "rc0 = 0")
    case True
    then have r: "running (userdata l)" using conf_reader.file_done [OF start] p by blast
    then have "conf_ok ((ps_conf (userdata l))\<lparr>c_outputs := map rederive (c_outputs (ps_conf (userdata l)))\<rparr>)"
      by (intro rederived_conf_ok running_conf)
    then have "conf_ok ((ps_conf (userdata l))\<lparr>c_outputs := map rederive (c_outputs (ps_conf (userdata l))),
        c_source_path := take (HPULOGC_MAX_PATH_LEN - 1) path\<rparr>)"
      by (simp add: conf_ok_def)
    then show ?thesis using assms(2) True r
      by (auto simp: hpu_conf_load_file_def p Let_def running_def parser_ok_def)
  next
    case False
    then have "rc0 = HPULOGC_ERR_CONFIG"
      using conf_reader.file_stopped [OF start p] by (auto simp: parser_ok_def split: if_splits)
    then show ?thesis using assms(2) by (auto simp: hpu_conf_load_file_def p Let_def status_simps)
  qed
qed

text \<open>
  C24. Whatever a file holds: loading it over the defaults either succeeds, with a well-formed snapshot
  (every integer in its documented range, every text in its buffer, every table within its limits, distinct
  output and format names, rules whose outputs exist or are marked unresolved) and without an error
  diagnostic, or fails with the configuration error and at least one error diagnostic. The sampling rate is
  the exception to the ranges: it is between 0 and 1, or the NaN that \<^verbatim>\<open>strtod\<close> made of its
  text, which passes both comparisons of the parser; the divisor derived from it is a positive 32-bit integer
  in that case, and always 0 exactly for the rate 0.
\<close>

theorem load_conf_ok:
  assumes "hpu_conf_defaults env0 = Inr c0"
    and "hpu_conf_load_file B is_regular open_file c0 path strict = (rc, c, ds)"
  shows "if rc = 0 then conf_ok c \<and> \<not> list_ex is_fail ds else rc = HPULOGC_ERR_CONFIG \<and> list_ex is_fail ds"
  by (rule load_outcome [OF defaults_ok [OF assms(1)] assms(2)])

theorem load_conf_ok_witness:
  "\<forall>e. \<exists>c. hpu_conf_defaults e = Inr c \<and>
    conf_ok (c\<lparr>c_batch_size := 65535, c_source_path := ''hpu.ini''\<rparr>)"
proof
  fix e
  obtain fs where d: "hpu_conf_defaults e = Inr (conf_base e fs)" using defaults_exist by blast
  have "c_outputs (conf_base e fs) = []" by (simp add: conf_base_def)
  from load_conf_ok [OF d demo_load [OF this, of 1]] d
  show "\<exists>c. hpu_conf_defaults e = Inr c \<and> conf_ok (c\<lparr>c_batch_size := 65535, c_source_path := ''hpu.ini''\<rparr>)" by simp
qed

text \<open>
  The lines of an accepted file name their sections in the documented order: the sections of its headers
  are strictly increasing, so none comes twice.
\<close>

theorem sections_in_order:
  assumes "list_all plain_line ls" "is_regular path" "open_file path = Some (lines_text ls)" "0 \<le> strict"
    and "hpu_conf_load_file B is_regular open_file c path strict = (0, c1, ds)"
  shows "sorted_wrt (<) (headers (map fst (numbered 0 ls)))"
proof -
  let ?ps = "conf_lines B (parser_start c (strict \<noteq> 0)) (numbered 0 ls)"
  have "sections_ok (parser_start c (strict \<noteq> 0))" by (simp add: parser_start_def sections_ok_def)
  with load_plain_ok [OF assms] have "sections_ok ?ps" "headers (map fst (numbered 0 ls)) = rev (ps_seen ?ps)"
    using conf_lines_headers [of B "parser_start c (strict \<noteq> 0)" "numbered 0 ls"] by (simp_all add: parser_start_def)
  then show ?thesis by (simp add: sections_ok_def sorted_wrt_rev)
qed

theorem sections_in_order_witness:
  "headers (map fst (numbered 0 demo_file)) = [SEC_ASYNC, SEC_ADVANCED]
    \<and> sorted_wrt (<) (headers (map fst (numbered 0 demo_file)))"
proof
  show "sorted_wrt (<) (headers (map fst (numbered 0 demo_file)))"
    by (rule sections_in_order [OF demo_plain _ _ _ demo_load [of "conf_base undefined []" 1]]) (simp_all add: conf_base_def)
  show "headers (map fst (numbered 0 demo_file)) = [SEC_ASYNC, SEC_ADVANCED]"
    by (simp add: demo_numbered) (simp add: demo_file_def headers_def header_of_def kv_line_def section_of_def g_section_names_def eqcase_def tolower_def)
qed

text \<open>
  Strictness only refuses more: when a plain file loads strictly, the lenient load of the same file
  succeeds with the same snapshot and the same diagnostics.
\<close>

theorem strict_load_is_lenient_load:
  assumes "list_all plain_line ls" "is_regular path" "open_file path = Some (lines_text ls)"
    and "hpu_conf_load_file B is_regular open_file c path 1 = (0, c1, ds)"
  shows "hpu_conf_load_file B is_regular open_file c path 0 = (0, c1, ds)"
proof -
  let ?s = "conf_lines B (parser_start c True) (numbered 0 ls)"
  let ?l = "conf_lines B (parser_start c False) (numbered 0 ls)"
  have s: "ps_err ?s = 0" "ds = ps_diag ?s"
    "c1 = (let c2 = ps_conf ?s in c2\<lparr>c_outputs := map rederive (c_outputs c2), c_source_path := take (HPULOGC_MAX_PATH_LEN - 1) path\<rparr>)"
    using load_plain_ok [OF assms(1-3) _ assms(4)] by simp_all
  have "parser_start c False = unstrict (parser_start c True)" by (simp add: parser_start_def unstrict_def)
  then have l: "?l = unstrict ?s" using lax_lines [OF s(1)] by simp
  obtain lx where lx: "userdata lx = ?l" "hpu_ini_parse_file is_regular open_file (Some path) (conf_line_cb B)
       (parser_start c (effective_strict is_regular open_file path 0)) = (ps_err (userdata lx), lx)"
    by (rule load_plain [of ls is_regular path open_file 0 B c, OF assms(1-3)]) simp_all
  have "ps_diag ?l = ps_diag ?s" by (simp add: l) (simp add: unstrict_def)
  then show ?thesis using lx s l by (simp add: hpu_conf_load_file_def Let_def)
qed

theorem strict_load_is_lenient_load_witness:
  "\<forall>e. hpu_conf_load_file full_build (\<lambda>_. True) (\<lambda>_. Some (lines_text demo_file)) (conf_base e []) ''hpu.ini'' 0
    = (0, (conf_base e [])\<lparr>c_batch_size := 65535, c_source_path := ''hpu.ini''\<rparr>, [D_clamp 2 ''batch size'' 70000 65535])"
proof
  fix e
  have "c_outputs (conf_base e []) = []" by (simp add: conf_base_def)
  from strict_load_is_lenient_load [OF demo_plain _ _ demo_load [OF this, of 1]]
  show "hpu_conf_load_file full_build (\<lambda>_. True) (\<lambda>_. Some (lines_text demo_file)) (conf_base e []) ''hpu.ini'' 0
    = (0, (conf_base e [])\<lparr>c_batch_size := 65535, c_source_path := ''hpu.ini''\<rparr>, [D_clamp 2 ''batch size'' 70000 65535])" by simp
qed

end
