(* ===== verification/ConfParams.thy ===== *)
theory ConfParams
  imports ConfLoad
begin

text \<open>
  The private parameters of a sink declaration: stored in the pool of the output, read back as pairs.
\<close>

section \<open>Private sink parameters\<close>

text \<open>The private parameters of a declaration, and a pool whose offsets point at terminated texts.\<close>

fun private_params :: "string list \<Rightarrow> (string \<times> string) list" where
  "private_params [] = []"
| "private_params (p # parts) =
     (case split_eq p of
        None \<Rightarrow> private_params parts
      | Some (k, v) \<Rightarrow> if trim k \<in> {''enabled'', ''async'', ''queue size''} then private_params parts
                      else (trim k, strip_quotes (trim v)) # private_params parts)"

definition kv_wf :: "hpu_conf_output \<Rightarrow> bool" where
  "kv_wf o1 \<longleftrightarrow> length (o_kv_key_off o1) = length (o_kv_val_off o1) \<and> (o_kv_pool o1 \<noteq> [] \<longrightarrow> last (o_kv_pool o1) = CHR 0x00)
     \<and> (\<forall>i \<in> set (o_kv_key_off o1) \<union> set (o_kv_val_off o1). i < length (o_kv_pool o1))"

lemma cstr_nul: "cstr (CHR 0x00 # t) = []"
  by (simp add: cstr_def)

lemma cstr_stop [simp]: "CHR 0x00 \<in> set a \<Longrightarrow> cstr (a @ t) = cstr a"
  by (induction a) (auto simp: cstr_def)

lemma drop_terminated: "i < length p \<Longrightarrow> p \<noteq> [] \<longrightarrow> last p = CHR 0x00 \<Longrightarrow> CHR 0x00 \<in> set (drop i p)"
  by (metis drop_eq_Nil last_drop last_in_set leD length_0_conv less_nat_zero_code)

lemma kv_store_pairs:
  assumes "kv_wf o1" "CHR 0x00 \<notin> set k" "CHR 0x00 \<notin> set v"
  shows "kv_pairs (kv_store o1 k v) = kv_pairs o1 @ [(k, v)]" "kv_wf (kv_store o1 k v)"
proof -
  have old: "cstr (drop i (o_kv_pool o1 @ t)) = cstr (drop i (o_kv_pool o1))"
    if "i \<in> set (o_kv_key_off o1) \<union> set (o_kv_val_off o1)" for i t
    using assms(1) that drop_terminated [of i "o_kv_pool o1"] by (auto simp: kv_wf_def)
  then have same: "map (\<lambda>(a, b). (cstr (drop a (o_kv_pool o1 @ t)), cstr (drop b (o_kv_pool o1 @ t)))) (zip (o_kv_key_off o1) (o_kv_val_off o1))
      = kv_pairs o1" for t
    unfolding kv_pairs_def by (auto dest: set_zip_leftD set_zip_rightD simp del: drop_append)
  let ?p = "o_kv_pool o1" and ?t = "k @ [CHR 0x00] @ v @ [CHR 0x00]"
  have "cstr (k @ CHR 0x00 # x) = k" "cstr (v @ CHR 0x00 # x) = v" for x using assms(2,3) by (simp_all add: cstr_append cstr_nul)
  then have new: "cstr (drop (length ?p) (?p @ ?t)) = k" "cstr (drop (length ?p + length k + 1) (?p @ ?t)) = v" by simp_all
  have "kv_pairs (kv_store o1 k v) = map (\<lambda>(a, b). (cstr (drop a (?p @ ?t)), cstr (drop b (?p @ ?t))))
      (zip (o_kv_key_off o1 @ [length ?p]) (o_kv_val_off o1 @ [length ?p + length k + 1]))"
    by (simp add: kv_pairs_def kv_store_def Let_def del: drop_append)
  then show "kv_pairs (kv_store o1 k v) = kv_pairs o1 @ [(k, v)]"
    using assms(1) same [of ?t] new by (simp add: kv_wf_def del: drop_append)
  show "kv_wf (kv_store o1 k v)" using assms(1) unfolding kv_wf_def kv_store_def Let_def by (simp add: ball_Un) fastforce
qed

lemma trim_set: "set (trim s) \<subseteq> set s"
  unfolding trim_def using set_rtrim_subset [of is_blank "dropWhile is_blank s"] set_dropWhileD by fastforce

lemma unquote_set: "set (strip_quotes v) \<subseteq> set v"
  using in_set_butlastD [of _ "tl v"] list.set_sel(2) [of v] by (cases v) (auto simp: strip_quotes_def)

lemma split_eq_set:
  assumes "split_eq s = Some (k, v)"
  shows "set k \<subseteq> set s" "set v \<subseteq> set s"
proof -
  have kv: "k = takeWhile (\<lambda>c. c \<noteq> CHR ''='') s" "v = tl (dropWhile (\<lambda>c. c \<noteq> CHR ''='') s)"
    using assms by (simp_all add: split_eq_def split: if_splits)
  show "set k \<subseteq> set s" unfolding kv(1) by (auto dest: set_takeWhileD)
  have "set (tl t) \<subseteq> set t" for t :: string by (cases t) auto
  then show "set v \<subseteq> set s" unfolding kv(2) using set_dropWhileD by fastforce
qed

lemma generic_step:
  assumes "o_is_generic o1" "kv_wf o1" "CHR 0x00 \<notin> set p" "output_param ps o1 lno p = (ps1, o2)" "ps_err ps1 = 0"
  shows "o_is_generic o2 \<and> kv_wf o2 \<and> kv_pairs o2 = kv_pairs o1 @ private_params [p]"
proof (cases "split_eq p")
  case None
  then show ?thesis using assms by (auto simp: output_param_def parse_fail_def status_simps)
next
  case (Some kv)
  obtain k0 v0 where kv: "split_eq p = Some (k0, v0)" using Some by (cases kv) simp
  have n: "CHR 0x00 \<notin> set (trim k0)" "CHR 0x00 \<notin> set (strip_quotes (trim v0))"
    using split_eq_set [OF kv] trim_set [of k0] trim_set [of v0] unquote_set [of "trim v0"] assms(3) by blast+
  show ?thesis
  proof (cases "trim k0 \<in> {''enabled'', ''async'', ''queue size''}")
    case True
    then have "o_is_generic o2 = o_is_generic o1 \<and> kv_pairs o2 = kv_pairs o1 \<and> kv_wf o2 = kv_wf o1"
      using assms(4) kv
      by (auto simp: output_param_def o_bool_def queue_param_def kv_pairs_def kv_wf_def Let_def split: if_splits option.splits)
    then show ?thesis using True assms kv by simp
  next
    case False
    then have "o2 = kv_store o1 (trim k0) (strip_quotes (trim v0))"
      using assms(1,4,5) kv by (auto simp: output_param_def generic_param_def parse_fail_def Let_def status_simps split: if_splits)
    then show ?thesis using False assms kv kv_store_pairs [OF assms(2) n] by (simp add: kv_store_def Let_def)
  qed
qed

lemma generic_kept: "output_params ps o1 lno parts = (ps1, o2) \<Longrightarrow> o_is_generic o2 = o_is_generic o1"
proof (induction parts arbitrary: ps o1)
  case (Cons p parts)
  obtain ps2 o3 where s: "output_param ps o1 lno p = (ps2, o3)" by fastforce
  have "o_is_generic o3 = o_is_generic o1"
    using s by (auto simp: output_param_def o_bool_def queue_param_def generic_param_def kv_store_def flat_param_def o_enum_def pub_def
        Let_def split: if_splits option.splits prod.splits)
  then show ?case using Cons s by (auto split: if_splits)
qed simp

lemma generic_steps:
  assumes "o_is_generic o1" "kv_wf o1" "\<forall>p \<in> set parts. CHR 0x00 \<notin> set p" "output_params ps o1 lno parts = (ps1, o2)" "ps_err ps1 = 0"
  shows "o_is_generic o2 \<and> kv_pairs o2 = kv_pairs o1 @ private_params parts"
  using assms
proof (induction parts arbitrary: ps o1)
  case (Cons p parts)
  obtain ps2 o3 where s: "output_param ps o1 lno p = (ps2, o3)" by fastforce
  with Cons.prems(4,5) have e: "ps_err ps2 = 0" "output_params ps2 o3 lno parts = (ps1, o2)" by (auto split: if_splits)
  have "private_params (p # parts) = private_params [p] @ private_params parts" by (simp split: option.split)
  then show ?case
    using generic_step [OF Cons.prems(1,2) _ s e(1)] Cons.IH [OF _ _ _ e(2)] Cons.prems(3,5) by simp
qed simp

lemma type_keeps_pool:
  "output_type B ps o1 lno t = (ps2, o2) \<Longrightarrow>
    o_kv_key_off o2 = o_kv_key_off o1 \<and> o_kv_val_off o2 = o_kv_val_off o1 \<and> o_kv_pool o2 = o_kv_pool o1"
  by (auto simp: output_type_def pub_def split: if_splits)

lemma private_csv: "CHR 0x00 \<notin> set s \<Longrightarrow> CHR 0x00 \<notin> set cur \<Longrightarrow> \<forall>p \<in> set (csv_loop k q cur s). CHR 0x00 \<notin> set p"
  by (induction k q cur s rule: csv_loop.induct) (auto split: if_splits)

text \<open>
  The private parameters of a sink declaration reach the sink: when an output line of a registered type
  is accepted, the key and value pairs stored for its sink are exactly the line's parameters that are not
  common ones, trimmed and unquoted, in their order.
\<close>

theorem sink_params_kept:
  assumes "output_line B ps key v lno = (ps1, o1)" "ps_err ps1 = 0" "ps_err ps = 0" "o_is_generic o1" "CHR 0x00 \<notin> set v"
  shows "kv_pairs o1 = private_params (tl (split_csv v 32))"
proof (cases "split_csv v 32")
  case Nil
  then show ?thesis using assms by (auto simp: output_line_def parse_fail_def status_simps)
next
  case (Cons t parts)
  obtain ps2 o2 where ty: "output_type B ps (output_zero key) lno (trim t) = (ps2, o2)" by fastforce
  obtain ps3 o3 where pa: "output_params ps2 o2 lno parts = (ps3, o3)" by fastforce
  have fin: "(ps1, o1) = (if ps_err ps2 \<noteq> 0 then (ps2, o2) else if ps_err ps3 \<noteq> 0 then (ps3, o3) else output_finish ps3 o3 lno)"
    using assms(1) [symmetric] unfolding output_line_def Cons list.case ty prod.case pa .
  then have e: "ps_err ps2 = 0" "ps_err ps3 = 0" using assms(2) by (auto split: if_splits)
  have n: "\<forall>p \<in> set parts. CHR 0x00 \<notin> set p"
    using private_csv [of v "[]" 31 False] assms(5) Cons by (auto simp: split_csv_def split: if_splits)
  have keep: "o_is_generic o3 = o_is_generic o1" "o_is_generic o3 \<Longrightarrow> o1 = o3"
    using fin e by (auto simp: output_finish_def pub_def split: if_splits)
  have "kv_wf o2 \<and> kv_pairs o2 = []"
    using type_keeps_pool [OF ty] by (simp add: kv_wf_def kv_pairs_def) (simp add: output_zero_def)
  moreover have g3: "o_is_generic o3" using keep(1) assms(4) by simp
  moreover have g: "o_is_generic o2" using generic_kept [OF pa] g3 by simp
  ultimately have "kv_pairs o3 = private_params parts" using generic_steps [OF g _ n pa e(2)] by simp
  then show ?thesis unfolding keep(2) [OF g3] Cons list.sel .
qed

lemma csv_step:
  "0 < k \<Longrightarrow> csv_loop k q cur (c # s) =
     (if c = CHR ''\"'' then csv_loop k (\<not> q) (cur @ [c]) s
      else if c = CHR '','' \<and> \<not> q then cur # csv_loop (k - 1) q [] s else csv_loop k q (cur @ [c]) s)"
  by (cases k) simp_all

theorem sink_params_kept_witness:
  "kv_pairs (snd (output_line full_build (parser_start (conf_base undefined []) True) ''net''
      ''syslog, host = \"a b\", enabled = true, port = 514'' 7)) = [(''host'', ''a b''), (''port'', ''514'')]"
proof -
  let ?v = "''syslog, host = \"a b\", enabled = true, port = 514''" and ?p = "parser_start (conf_base undefined []) True"
  have csv: "split_csv ?v 32 = [''syslog'', '' host = \"a b\"'', '' enabled = true'', '' port = 514'']"
    by (simp add: split_csv_def csv_step)
  obtain ps1 o1 where r: "output_line full_build ?p ''net'' ?v 7 = (ps1, o1)" by fastforce
  have "ps_err ps1 = 0 \<and> o_is_generic o1"
    using r unfolding output_line_def csv
    by (auto simp: output_type_def eqcase_def tolower_def trim_def is_blank_def rtrim_def output_param_def split_eq_def strip_quotes_def
        o_bool_def parse_bool_def generic_param_def output_finish_def conf_limits kv_store_def parser_start_def output_zero_def)
  moreover have "private_params (tl (split_csv ?v 32)) = [(''host'', ''a b''), (''port'', ''514'')]"
    unfolding csv by (simp add: split_eq_def trim_def is_blank_def rtrim_def strip_quotes_def)
  moreover have "ps_err ?p = 0" by (simp add: parser_start_def)
  ultimately show ?thesis using sink_params_kept [OF r] by (simp add: r)
qed

end
