(* ===== verification/ConfModelLaws.thy ===== *)
theory ConfModelLaws
  imports ConfModel "HOL-Library.Sublist"
begin

text \<open>
  What finalization guarantees: every reference of an accepted snapshot is valid and its file paths differ,
  a reload moves no handle twice, and a failure closes what was opened. And what a code configuration
  that is accepted has established.
\<close>

section \<open>References\<close>

definition outputs_resolved :: "hpu_conf \<Rightarrow> bool" where
  "outputs_resolved c \<longleftrightarrow>
     list_all2 (\<lambda>n i. 0 \<le> i \<and> nat i < length (c_outputs c) \<and> o_name (c_outputs c ! nat i) = n) (c_default_names c) (c_default_idx c)"

definition rules_resolved :: "hpu_conf \<Rightarrow> bool" where
  "rules_resolved c \<longleftrightarrow>
     (\<forall>r \<in> set (c_rules c). hpu_conf_find_format c (ru_format r) \<noteq> None
        \<and> (\<forall>i \<in> set (ru_outputs r). 0 \<le> i \<and> nat i < length (c_outputs c)))"

definition normal_path :: "hpu_conf_output \<Rightarrow> string option" where
  "normal_path o1 = hpu_path_normalize (Some (o_path_buf o1)) HPULOGC_MAX_PATH_LEN"

definition file_paths :: "hpu_conf_output list \<Rightarrow> string option list" where
  "file_paths os = map normal_path (filter is_file os)"

definition paths_distinct :: "hpu_conf_output list \<Rightarrow> bool" where
  "paths_distinct os \<longleftrightarrow> distinct (file_paths os) \<and> None \<notin> set (file_paths os)"

definition naming_ok :: "hpu_conf_output \<Rightarrow> bool" where
  "naming_ok o1 \<longleftrightarrow>
     (case out_rotate_naming (o_pub o1) of None \<Rightarrow> True | Some nm \<Rightarrow> has_text ''{index}'' nm \<or> has_text ''{timestamp}'' nm)"

definition conf_checked :: "hpu_conf \<Rightarrow> bool" where
  "conf_checked c \<longleftrightarrow>
     hpu_conf_find_format c (c_default_format c) \<noteq> None \<and> outputs_resolved c \<and> rules_resolved c
     \<and> paths_distinct (c_outputs c) \<and> list_all naming_ok (c_outputs c)"

lemma dup_paths_sound: "check_dup_paths_from os = 0 \<Longrightarrow> paths_distinct os"
proof (induction os)
  case (Cons o1 os)
  show ?case
  proof (cases "is_file o1")
    case False
    then show ?thesis using Cons by (simp add: paths_distinct_def file_paths_def)
  next
    case True
    let ?D = "\<lambda>na. list_ex (\<lambda>o2. is_file o2 \<and> (case normal_path o2 of None \<Rightarrow> True | Some nb \<Rightarrow> na = nb)) os"
    have e: "check_dup_paths_from (o1 # os) =
        (case normal_path o1 of None \<Rightarrow> HPULOGC_ERR_CONFIG | Some na \<Rightarrow> if ?D na then HPULOGC_ERR_CONFIG else check_dup_paths_from os)"
      by (simp only: check_dup_paths_from.simps normal_path_def True not_True_eq_False if_False)
    obtain na where n: "normal_path o1 = Some na"
      using Cons.prems e by (cases "normal_path o1") (simp_all add: status_simps)
    have na: "\<not> ?D na" "check_dup_paths_from os = 0"
      using Cons.prems unfolding e n by (cases "?D na"; simp add: status_simps)+
    have "\<forall>o2 \<in> set os. is_file o2 \<longrightarrow> normal_path o2 \<noteq> Some na"
      using na(1) by (auto simp: list_ex_iff)
    then show ?thesis using Cons.IH [OF na(2)] n True by (auto simp: paths_distinct_def file_paths_def)
  qed
qed (simp add: paths_distinct_def file_paths_def)

lemma find_output_hit:
  "0 \<le> hpu_conf_find_output c n \<Longrightarrow>
    nat (hpu_conf_find_output c n) < length (c_outputs c) \<and> o_name (c_outputs c ! nat (hpu_conf_find_output c n)) = n"
  unfolding hpu_conf_find_output_def by (rule find_index_hit)

lemma resolve_outputs_sound:
  assumes "resolve_default_outputs c = (rc, c1)"
  shows "\<exists>idx. c1 = c\<lparr>c_default_idx := idx\<rparr>" "rc = 0 \<Longrightarrow> outputs_resolved c1"
proof -
  let ?idx = "takeWhile (\<lambda>i. 0 \<le> i) (map (hpu_conf_find_output c) (c_default_names c))"
  have c1: "c1 = c\<lparr>c_default_idx := ?idx\<rparr>" using assms by (auto simp: resolve_default_outputs_def Let_def)
  then show "\<exists>idx. c1 = c\<lparr>c_default_idx := idx\<rparr>" by blast
  assume "rc = 0"
  then have "length ?idx = length (c_default_names c)"
    using assms length_takeWhile_le [of "\<lambda>i. 0 \<le> i" "map (hpu_conf_find_output c) (c_default_names c)"]
    by (auto simp: resolve_default_outputs_def Let_def status_simps split: if_splits)
  then have all: "?idx = map (hpu_conf_find_output c) (c_default_names c)"
    by (metis length_map takeWhile_eq_take take_all_iff order_refl)
  then have "\<forall>i \<in> set (map (hpu_conf_find_output c) (c_default_names c)). 0 \<le> i" by (metis takeWhile_eq_all_conv)
  then show "outputs_resolved c1" unfolding c1 all using find_output_hit [of c]
    by (auto simp: outputs_resolved_def list_all2_conv_all_nth)
qed

lemma checks_frame: "conf_checks B c = (rc, c1) \<Longrightarrow> \<exists>idx. c1 = c\<lparr>c_default_idx := idx\<rparr>"
proof -
  have "\<exists>idx. c = c\<lparr>c_default_idx := idx\<rparr>" by (rule exI [of _ "c_default_idx c"]) simp
  then show "conf_checks B c = (rc, c1) \<Longrightarrow> \<exists>idx. c1 = c\<lparr>c_default_idx := idx\<rparr>"
    using resolve_outputs_sound(1) [of c] by (auto simp: conf_checks_def split: if_splits prod.splits)
qed

lemma checks_sound:
  assumes "conf_checks B c = (0, c1)"
  shows "conf_checked c1"
proof -
  have chk: "hpu_conf_find_format c (c_default_format c) \<noteq> None" "check_dup_paths c = 0" "check_naming c = 0"
    using assms unfolding conf_checks_def by (auto simp: status_simps split: if_splits)
  obtain rc c2 where r2: "resolve_default_outputs c = (rc, c2)" by fastforce
  then have r3: "rc = 0" "c2 = c1" "resolve_rules c1 = 0"
    using assms unfolding conf_checks_def by (auto simp: status_simps split: if_splits)
  obtain idx where r: "c1 = c\<lparr>c_default_idx := idx\<rparr>" using checks_frame [OF assms] by blast
  have "\<forall>r \<in> set (c_rules c1). hpu_conf_find_format c1 (ru_format r) \<noteq> None
      \<and> (\<forall>i \<in> set (ru_outputs r). 0 \<le> i \<and> i < int (length (c_outputs c1)))"
    using r3(3) by (simp add: resolve_rules_def list_ex_iff status_simps not_less not_le split: if_splits)
  then have "rules_resolved c1" by (fastforce simp: rules_resolved_def nat_less_iff)
  moreover have "paths_distinct (c_outputs c)" using chk(2) dup_paths_sound by (simp add: check_dup_paths_def)
  moreover have "list_all naming_ok (c_outputs c)" using chk(3)
    by (auto simp: check_naming_def naming_ok_def list_ex_iff list_all_iff status_simps split: if_splits option.splits)
  moreover have "outputs_resolved c1" using resolve_outputs_sound(2) [OF r2] r3 by simp
  ultimately show ?thesis using chk(1) r by (auto simp: conf_checked_def hpu_conf_find_format_def)
qed

section \<open>Handles\<close>

text \<open>The snapshot with other handles.\<close>

definition with_handles :: "hpu_conf \<Rightarrow> nat option list \<Rightarrow> hpu_conf" where
  "with_handles c hs = c\<lparr>c_outputs := map2 (\<lambda>o1 h. o1\<lparr>o_handle := h\<rparr>) (c_outputs c) hs\<rparr>"

definition handles :: "hpu_conf \<Rightarrow> nat option list" where
  "handles c = map o_handle (c_outputs c)"

definition live :: "nat option list \<Rightarrow> nat list" where
  "live hs = concat (map (\<lambda>h. case h of None \<Rightarrow> [] | Some x \<Rightarrow> [x]) hs)"

lemma map2_handles:
  "length hs = length os \<Longrightarrow> map o_handle (map2 (\<lambda>o1 h. o1\<lparr>o_handle := h\<rparr>) os hs) = hs"
  "map2 (\<lambda>o1 h. o1\<lparr>o_handle := h\<rparr>) os (map o_handle os) = os"
  "map2 (\<lambda>o1 h. o1\<lparr>o_handle := h\<rparr>) os (replicate (length os) None) = map (\<lambda>o1. o1\<lparr>o_handle := None\<rparr>) os"
proof -
  show "length hs = length os \<Longrightarrow> map o_handle (map2 (\<lambda>o1 h. o1\<lparr>o_handle := h\<rparr>) os hs) = hs"
    by (induction hs os rule: list_induct2) simp_all
qed (induction os; simp)+

lemma handles_with [simp]: "length hs = length (c_outputs c) \<Longrightarrow> handles (with_handles c hs) = hs"
  using map2_handles(1) by (simp add: handles_def with_handles_def)

lemma length_handles [simp]: "length (handles c) = length (c_outputs c)"
  by (simp add: handles_def)

lemma length_with [simp]: "length hs = length (c_outputs c) \<Longrightarrow> length (c_outputs (with_handles c hs)) = length hs"
  by (simp add: with_handles_def)

lemma with_own [simp]: "with_handles c (handles c) = c"
  by (simp only: with_handles_def handles_def map2_handles(2)) simp

lemma set_handle_with:
  assumes "length hs = length (c_outputs c)" "i < length hs"
  shows "set_handle i h (with_handles c hs) = with_handles c (hs[i := h])"
proof -
  have "(map2 (\<lambda>o1 h. o1\<lparr>o_handle := h\<rparr>) (c_outputs c) hs)[i := (c_outputs c ! i)\<lparr>o_handle := h\<rparr>]
      = map2 (\<lambda>o1 h. o1\<lparr>o_handle := h\<rparr>) (c_outputs c) (hs[i := h])"
    using assms by (intro nth_equalityI) (auto simp: nth_list_update)
  then show ?thesis using assms by (simp add: set_handle_def with_handles_def)
qed

lemma close_all: "hpu_conf_close_outputs c = (with_handles c (replicate (length (c_outputs c)) None), live (handles c))"
  unfolding hpu_conf_close_outputs_def with_handles_def map2_handles(3) by (simp add: live_def handles_def comp_def)

text \<open>
  Opening output after output. \<open>hs\<close> are the handles when the first \<open>m\<close> outputs have been gone through: an
  output that is skipped keeps what it had, any other one has what the opener gave it, called on the snapshot
  with the handles of that moment, or nothing when the error is tolerated.
\<close>

definition opening_call :: "opener \<Rightarrow> hpu_conf \<Rightarrow> nat option list \<Rightarrow> nat \<Rightarrow> int + nat" where
  "opening_call opener c hs i = opener (with_handles c (take i hs @ drop i (handles c))) i (output_severity c (c_outputs c ! i))"

lemma filter_upt_below: "m \<le> n \<Longrightarrow> filter P (filter (\<lambda>i. i < m) [0..<n]) = filter P [0..<m]"
proof -
  assume "m \<le> n"
  then have "[0..<n] = [0..<m] @ [m..<n]" using upt_add_eq_append [of 0 m "n - m"] by simp
  then show ?thesis by (simp add: filter_empty_conv)
qed

definition opened_so_far :: "opener \<Rightarrow> hpu_conf \<Rightarrow> (nat \<Rightarrow> bool) \<Rightarrow> (int \<Rightarrow> bool) \<Rightarrow> nat option list \<Rightarrow> nat \<Rightarrow> bool" where
  "opened_so_far opener c skip tol hs m \<longleftrightarrow> length hs = length (c_outputs c) \<and> m \<le> length hs \<and> drop m hs = drop m (handles c)
     \<and> (\<forall>i < m. if skip i then hs ! i = handles c ! i
          else (case opening_call opener c hs i of Inr h \<Rightarrow> hs ! i = Some h | Inl e \<Rightarrow> tol e \<and> hs ! i = None))"

lemma opened_at:
  "opened_so_far opener c skip tol hs m \<Longrightarrow> i < m \<Longrightarrow> if skip i then hs ! i = handles c ! i
     else (case opening_call opener c hs i of Inr h \<Rightarrow> hs ! i = Some h | Inl e \<Rightarrow> tol e \<and> hs ! i = None)"
  unfolding opened_so_far_def by blast

lemma opening_start: "opened_so_far opener c skip tol (handles c) 0"
  by (simp add: opened_so_far_def)

lemma opening_now:
  assumes "opened_so_far opener c skip tol hs m" "m < length hs"
  shows "take m hs @ drop m (handles c) = hs" "hs ! m = handles c ! m"
proof -
  show "take m hs @ drop m (handles c) = hs" using assms(1) by (metis append_take_drop_id opened_so_far_def)
  have "drop m hs ! 0 = drop m (handles c) ! 0" using assms(1) by (simp add: opened_so_far_def)
  then show "hs ! m = handles c ! m" using assms by (simp add: opened_so_far_def)
qed

lemma opening_drop: "opened_so_far opener c skip tol hs m \<Longrightarrow> drop (Suc m) hs = drop (Suc m) (handles c)"
  by (metis drop_drop opened_so_far_def plus_1_eq_Suc)

lemma opening_skip:
  assumes "opened_so_far opener c skip tol hs m" "m < length hs" "skip m"
  shows "opened_so_far opener c skip tol hs (Suc m)"
  using assms opening_now(2) [OF assms(1,2)] opening_drop [OF assms(1)] by (auto simp: opened_so_far_def less_Suc_eq)

lemma opening_none:
  assumes "opened_so_far opener c skip tol hs m" "m < length hs" "\<not> skip m" "opening_call opener c hs m = Inl e" "tol e" "handles c ! m = None"
  shows "opened_so_far opener c skip tol hs (Suc m)"
  using assms opening_now(2) [OF assms(1,2)] opening_drop [OF assms(1)] by (auto simp: opened_so_far_def less_Suc_eq)

lemma opening_call_cong: "take i hs = take i hs1 \<Longrightarrow> opening_call opener c hs i = opening_call opener c hs1 i"
  by (simp add: opening_call_def)

lemma opening_some:
  assumes "opened_so_far opener c skip tol hs m" "m < length hs" "\<not> skip m" "opening_call opener c hs m = Inr h"
  shows "opened_so_far opener c skip tol (hs[m := Some h]) (Suc m)"
proof -
  have calls: "opening_call opener c (hs[m := Some h]) i = opening_call opener c hs i" if "i \<le> m" for i
    using that by (intro opening_call_cong) simp
  have "if skip i then hs[m := Some h] ! i = handles c ! i
      else (case opening_call opener c (hs[m := Some h]) i of Inr h1 \<Rightarrow> hs[m := Some h] ! i = Some h1 | Inl e \<Rightarrow> tol e \<and> hs[m := Some h] ! i = None)"
    if "i < Suc m" for i
  proof (cases "i = m")
    case True
    then show ?thesis using assms that calls by (simp add: opened_so_far_def)
  next
    case False
    then have i: "i < m" and "hs[m := Some h] ! i = hs ! i" using that by simp_all
    moreover have "opening_call opener c (hs[m := Some h]) i = opening_call opener c hs i" using calls that by simp
    moreover note opened_at [OF assms(1) i]
    ultimately show ?thesis by (simp only:)
  qed
  moreover have "drop (Suc m) (hs[m := Some h]) = drop (Suc m) (handles c)" using opening_drop [OF assms(1)] by simp
  ultimately show ?thesis using assms(1,2) by (simp add: opened_so_far_def)
qed

lemma severity_with: "i < length hs \<Longrightarrow> length hs = length (c_outputs c) \<Longrightarrow>
    output_severity (with_handles c hs) (c_outputs (with_handles c hs) ! i) = output_severity c (c_outputs c ! i)"
  by (simp add: output_severity_def with_handles_def is_file_def)

lemma open_call_now:
  assumes "opened_so_far opener c skip tol hs m" "m < length hs"
  shows "opener (with_handles c hs) m (output_severity (with_handles c hs) (c_outputs (with_handles c hs) ! m)) = opening_call opener c hs m"
proof -
  have "length hs = length (c_outputs c)" using assms(1) by (simp add: opened_so_far_def)
  then show ?thesis using opening_now(1) [OF assms] severity_with [of m hs c] assms(2) by (simp add: opening_call_def)
qed

text \<open>The errors a lenient opening tolerates, and the code of the others.\<close>

definition tolerated :: "hpu_conf \<Rightarrow> int \<Rightarrow> bool" where
  "tolerated c e \<longleftrightarrow> e = HPULOGC_ERR_CONFIG \<and> \<not> c_strict_init c"

definition open_error :: "int \<Rightarrow> int" where
  "open_error e = (if e = HPULOGC_ERR_CONFIG then e else if e \<noteq> HPULOGC_OK then e else HPULOGC_ERR_IO)"

abbreviation held :: "hpu_conf \<Rightarrow> nat \<Rightarrow> bool" where
  "held c i \<equiv> handles c ! i \<noteq> None"

lemma open_outputs_spec:
  assumes "open_outputs opener (with_handles c hs) [k..<length hs] = (rc, c3)" "opened_so_far opener c (held c) (tolerated c) hs k"
  shows "\<exists>hs1 m. c3 = with_handles c hs1 \<and> opened_so_far opener c (held c) (tolerated c) hs1 m
    \<and> (if rc = 0 then m = length hs1
       else m < length hs1 \<and> \<not> held c m \<and> (\<exists>e. opening_call opener c hs1 m = Inl e \<and> \<not> tolerated c e \<and> rc = open_error e))"
  using assms
proof (induction "length hs - k" arbitrary: hs k)
  case 0
  then have "length hs = k" by (simp add: opened_so_far_def)
  then show ?case using 0 by (intro exI [of _ hs] exI [of _ k]) simp
next
  case (Suc d)
  then have k: "k < length hs" and l: "length hs = length (c_outputs c)" by (simp_all add: opened_so_far_def)
  then have u: "[k..<length hs] = k # [Suc k..<length hs]" by (simp add: upt_conv_Cons)
  note op = Suc.prems(2)
  let ?c = "with_handles c hs"
  have h: "o_handle (c_outputs ?c ! k) = handles c ! k" using opening_now(2) [OF op k] k l by (simp add: with_handles_def)
  have s: "c_strict_init ?c = c_strict_init c" by (simp add: with_handles_def)
  note call = open_call_now [OF op k]
  show ?case
  proof (cases "held c k")
    case True
    then have "open_outputs opener ?c [Suc k..<length hs] = (rc, c3)" using Suc.prems(1) h unfolding u by (simp add: Let_def)
    from Suc.hyps(1) [OF _ this opening_skip [OF op k True]] Suc.hyps(2) show ?thesis by simp
  next
    case new: False
    show ?thesis
    proof (cases "opening_call opener c hs k")
      case (Inr x)
      have "open_outputs opener (with_handles c (hs[k := Some x])) [Suc k..<length (hs[k := Some x])] = (rc, c3)"
        using Suc.prems(1) h new Inr call k l unfolding u by (simp add: Let_def set_handle_with)
      from Suc.hyps(1) [OF _ this opening_some [OF op k new Inr]] Suc.hyps(2) show ?thesis by simp
    next
      case (Inl e)
      show ?thesis
      proof (cases "tolerated c e")
        case True
        then have "open_outputs opener ?c [Suc k..<length hs] = (rc, c3)"
          using Suc.prems(1) h new Inl call s unfolding u by (simp add: Let_def tolerated_def)
        from Suc.hyps(1) [OF _ this opening_none [OF op k new Inl True]] Suc.hyps(2) new show ?thesis by simp
      next
        case False
        then have "rc = open_error e \<and> c3 = ?c"
          using Suc.prems(1) h new Inl call s unfolding u by (auto simp: Let_def tolerated_def open_error_def split: if_splits)
        moreover have "open_error e \<noteq> 0" by (simp add: open_error_def status_simps)
        ultimately show ?thesis using op k new Inl False by (intro exI [of _ hs] exI [of _ k]) simp
      qed
    qed
  qed
qed

section \<open>Finalization\<close>

lemma checked_handles:
  assumes "length hs = length (c_outputs c)"
  shows "conf_checked (with_handles c hs) = conf_checked c"
proof -
  let ?f = "\<lambda>os hs. map2 (\<lambda>o1 h. o1\<lparr>o_handle := h\<rparr>) os hs"
  have "file_paths (?f os hs) = file_paths os \<and> list_all naming_ok (?f os hs) = list_all naming_ok os \<and> map o_name (?f os hs) = map o_name os"
    if "length hs = length os" for os and hs :: "nat option list"
    using that by (induction hs os rule: list_induct2) (simp_all add: file_paths_def is_file_def normal_path_def naming_ok_def)
  from this [OF assms] have f: "file_paths (?f (c_outputs c) hs) = file_paths (c_outputs c)"
    "list_all naming_ok (?f (c_outputs c) hs) = list_all naming_ok (c_outputs c)" by simp_all
  have n: "\<forall>i < length (c_outputs c). o_name (?f (c_outputs c) hs ! i) = o_name (c_outputs c ! i)" using assms by simp
  have "outputs_resolved (with_handles c hs) = outputs_resolved c"
    unfolding outputs_resolved_def list_all2_conv_all_nth using assms n by (auto simp: with_handles_def nat_less_iff)
  moreover have "rules_resolved (with_handles c hs) = rules_resolved c"
    using assms by (simp add: rules_resolved_def with_handles_def hpu_conf_find_format_def)
  ultimately show ?thesis using f by (simp add: conf_checked_def paths_distinct_def) (simp add: with_handles_def hpu_conf_find_format_def)
qed

lemma checked_env: "conf_checked (c\<lparr>c_env := e\<rparr>) = conf_checked c"
  by (simp add: conf_checked_def outputs_resolved_def rules_resolved_def hpu_conf_find_format_def)

text \<open>The snapshot whose outputs are opened: checked, and with the environment of the renderer.\<close>

definition ready_conf :: "build_flags \<Rightarrow> int \<Rightarrow> int \<Rightarrow> hpu_conf \<Rightarrow> hpu_conf" where
  "ready_conf B now_us mypid c =
     (let c1 = snd (conf_checks B c) in c1\<lparr>c_env := (derive_env c1 (c_env c1))\<lparr>mono_base_us := now_us, pid := mypid\<rparr>\<rparr>)"

lemma ready_facts:
  assumes "fst (conf_checks B c) = 0"
  shows "conf_checked (ready_conf B now_us mypid c)" "c_outputs (ready_conf B now_us mypid c) = c_outputs c"
    "handles (ready_conf B now_us mypid c) = handles c" "c_strict_init (ready_conf B now_us mypid c) = c_strict_init c"
proof -
  obtain c1 where c: "conf_checks B c = (0, c1)" using assms by (metis prod.collapse)
  obtain idx where "c1 = c\<lparr>c_default_idx := idx\<rparr>" using checks_frame [OF c] by blast
  then show "c_outputs (ready_conf B now_us mypid c) = c_outputs c" "handles (ready_conf B now_us mypid c) = handles c"
    "c_strict_init (ready_conf B now_us mypid c) = c_strict_init c" by (simp_all add: ready_conf_def c Let_def handles_def)
  show "conf_checked (ready_conf B now_us mypid c)" using checks_sound [OF c] by (simp add: ready_conf_def c Let_def checked_env)
qed

lemma finalize_unfold:
  "hpu_conf_finalize_impl B opener now_us mypid c dry =
     (let c1 = snd (conf_checks B c); c2 = ready_conf B now_us mypid c
      in if fst (conf_checks B c) \<noteq> 0 then (fst (conf_checks B c), c1, [])
         else if dry then (0, c2, [])
         else case open_outputs opener c2 [0..<length (c_outputs c2)] of
           (rc, c3) \<Rightarrow> if rc \<noteq> 0 then (case hpu_conf_close_outputs c3 of (c4, shut) \<Rightarrow> (rc, c4, shut)) else (0, c3, []))"
  by (simp add: hpu_conf_finalize_impl_def ready_conf_def Let_def split: prod.split)

lemma finalize_opened:
  assumes "fst (conf_checks B c) = 0" "\<not> dry" "hpu_conf_finalize_impl B opener now_us mypid c dry = (rc, c1, shut)"
  shows "\<exists>hs m. opened_so_far opener (ready_conf B now_us mypid c) (held c) (tolerated c) hs m
    \<and> (if rc = 0 then m = length hs \<and> c1 = with_handles (ready_conf B now_us mypid c) hs \<and> shut = []
       else m < length hs \<and> \<not> held c m \<and> (\<exists>e. opening_call opener (ready_conf B now_us mypid c) hs m = Inl e \<and> \<not> tolerated c e \<and> rc = open_error e)
         \<and> shut = live hs \<and> set (handles c1) \<subseteq> {None} \<and> conf_checked c1)"
proof -
  let ?c = "ready_conf B now_us mypid c"
  note f = ready_facts [OF assms(1), of now_us mypid]
  obtain rc1 c3 where o: "open_outputs opener ?c [0..<length (c_outputs ?c)] = (rc1, c3)" by fastforce
  have "open_outputs opener (with_handles ?c (handles ?c)) [0..<length (handles ?c)] = (rc1, c3)" using o by simp
  from open_outputs_spec [OF this opening_start] obtain hs m where h: "c3 = with_handles ?c hs"
    "opened_so_far opener ?c (held c) (tolerated c) hs m"
    "if rc1 = 0 then m = length hs
     else m < length hs \<and> \<not> held c m \<and> (\<exists>e. opening_call opener ?c hs m = Inl e \<and> \<not> tolerated c e \<and> rc1 = open_error e)"
    unfolding f(3) tolerated_def f(4) by blast
  have l: "length hs = length (c_outputs ?c)" using h(2) by (simp add: opened_so_far_def)
  have r: "rc = rc1 \<and> (if rc1 = 0 then c1 = c3 \<and> shut = [] else (c1, shut) = hpu_conf_close_outputs c3)"
    using assms(3) by (auto simp: finalize_unfold assms(1,2) o Let_def split: prod.splits if_splits)
  show ?thesis
  proof (cases "rc = 0")
    case True
    then show ?thesis using h r by auto
  next
    case False
    then have e: "c1 = with_handles c3 (replicate (length (c_outputs c3)) None)" "shut = live (handles c3)" using r by (simp_all add: close_all)
    have "set (handles c1) \<subseteq> {None}" unfolding e(1) by (subst handles_with) auto
    moreover have "conf_checked c1" unfolding e(1) using f(1) l by (simp add: checked_handles h(1))
    ultimately show ?thesis using False h e l r by (intro exI [of _ hs] exI [of _ m]) simp
  qed
qed

section \<open>Reloading\<close>



abbreviation reused :: "int list \<Rightarrow> nat \<Rightarrow> bool" where
  "reused plan i \<equiv> 0 \<le> plan ! i"

lemma open_fresh_spec:
  assumes "open_fresh opener (with_handles c hs) plan done_is [k..<length hs] = (rc, c3, opened1)"
    "opened_so_far opener c (reused plan) (\<lambda>e. False) hs k"
  shows "\<exists>hs1 m. c3 = with_handles c hs1 \<and> opened_so_far opener c (reused plan) (\<lambda>e. False) hs1 m \<and> k \<le> m
    \<and> opened1 = done_is @ filter (\<lambda>i. \<not> reused plan i) [k..<m]
    \<and> (if rc = 0 then m = length hs1
       else m < length hs1 \<and> \<not> reused plan m
         \<and> (\<exists>e. opening_call opener c hs1 m = Inl e \<and> rc = (if e = HPULOGC_ERR_CONFIG then HPULOGC_ERR_CONFIG else HPULOGC_ERR_IO)))"
  using assms
proof (induction "length hs - k" arbitrary: hs k done_is)
  case 0
  then have "length hs = k" by (simp add: opened_so_far_def)
  then show ?case using 0 by (intro exI [of _ hs] exI [of _ k]) simp
next
  case (Suc d)
  then have k: "k < length hs" and l: "length hs = length (c_outputs c)" by (simp_all add: opened_so_far_def)
  then have u: "[k..<length hs] = k # [Suc k..<length hs]" by (simp add: upt_conv_Cons)
  note op = Suc.prems(2)
  note call = open_call_now [OF op k]
  have new: "filter (\<lambda>i. \<not> reused plan i) [k..<m] = (if reused plan k then [] else [k]) @ filter (\<lambda>i. \<not> reused plan i) [Suc k..<m]"
    if "Suc k \<le> m" for m using that by (simp add: upt_conv_Cons)
  show ?case
  proof (cases "reused plan k")
    case True
    then have "open_fresh opener (with_handles c hs) plan done_is [Suc k..<length hs] = (rc, c3, opened1)"
      using Suc.prems(1) unfolding u by simp
    moreover have "d = length hs - Suc k" using Suc.hyps(2) by simp
    ultimately obtain hs1 m where h: "c3 = with_handles c hs1"
      "opened_so_far opener c (reused plan) (\<lambda>e. False) hs1 m" "Suc k \<le> m" "opened1 = done_is @ filter (\<lambda>i. \<not> reused plan i) [Suc k..<m]"
      "if rc = 0 then m = length hs1
       else m < length hs1 \<and> \<not> reused plan m
         \<and> (\<exists>e. opening_call opener c hs1 m = Inl e \<and> rc = (if e = HPULOGC_ERR_CONFIG then HPULOGC_ERR_CONFIG else HPULOGC_ERR_IO))"
      using Suc.hyps(1) [OF _ _ opening_skip [where skip = "reused plan", OF op k True]] by blast
    then show ?thesis using new [OF h(3)] True by (intro exI [of _ hs1] exI [of _ m]) simp
  next
    case fresh: False
    show ?thesis
    proof (cases "opening_call opener c hs k")
      case (Inr x)
      let ?hs = "hs[k := Some x]"
      have "open_fresh opener (with_handles c ?hs) plan (done_is @ [k]) [Suc k..<length ?hs] = (rc, c3, opened1)"
        using Suc.prems(1) fresh Inr call k l unfolding u by (simp add: set_handle_with)
      moreover have "d = length ?hs - Suc k" using Suc.hyps(2) by simp
      ultimately obtain hs1 m where h: "c3 = with_handles c hs1"
        "opened_so_far opener c (reused plan) (\<lambda>e. False) hs1 m" "Suc k \<le> m" "opened1 = (done_is @ [k]) @ filter (\<lambda>i. \<not> reused plan i) [Suc k..<m]"
        "if rc = 0 then m = length hs1
         else m < length hs1 \<and> \<not> reused plan m
           \<and> (\<exists>e. opening_call opener c hs1 m = Inl e \<and> rc = (if e = HPULOGC_ERR_CONFIG then HPULOGC_ERR_CONFIG else HPULOGC_ERR_IO))"
        using Suc.hyps(1) [OF _ _ opening_some [OF op k fresh Inr]] by blast
      then show ?thesis using new [OF h(3)] fresh by (intro exI [of _ hs1] exI [of _ m]) simp
    next
      case (Inl e)
      then have "rc = (if e = HPULOGC_ERR_CONFIG then HPULOGC_ERR_CONFIG else HPULOGC_ERR_IO) \<and> c3 = with_handles c hs \<and> opened1 = done_is"
        using Suc.prems(1) fresh call unfolding u by simp
      then show ?thesis using op k fresh Inl by (intro exI [of _ hs] exI [of _ k]) (simp add: status_simps)
    qed
  qed
qed

lemma live_Cons: "live (h # hs) = (case h of None \<Rightarrow> live hs | Some x \<Rightarrow> x # live hs)"
  by (simp add: live_def split: option.split)

lemma rollback_spec:
  "distinct js \<Longrightarrow> \<forall>i \<in> set js. i < length hs \<Longrightarrow> length hs = length (c_outputs c) \<Longrightarrow>
    rollback (with_handles c hs) js = (with_handles c (fold (\<lambda>i h. h[i := None]) js hs), live (map ((!) hs) js))"
proof (induction js arbitrary: hs)
  case (Cons j js)
  have "o_handle (c_outputs (with_handles c hs) ! j) = hs ! j" using Cons.prems by (simp add: with_handles_def)
  moreover have "live (map ((!) (hs[j := None])) js) = live (map ((!) hs) js)"
    using Cons.prems(1) by (auto intro!: arg_cong [of _ _ live] nth_list_update_neq)
  ultimately show ?case using Cons by (simp add: set_handle_with live_Cons split: option.split)
qed (simp add: live_def)

lemma reset_nth:
  "i < length hs \<Longrightarrow> fold (\<lambda>i h. h[i := None]) js hs ! i = (if i \<in> set js then None else hs ! i)"
  by (induction js arbitrary: hs) (auto simp: nth_list_update)

lemma reset_length [simp]: "length (fold (\<lambda>i h. h[i := None]) js hs) = length hs"
  by (induction js arbitrary: hs) simp_all

lemma live_indices: "live hs = live (map ((!) hs) (filter (\<lambda>i. hs ! i \<noteq> None) [0..<length hs]))"
proof -
  have "live (filter (\<lambda>h. h \<noteq> None) hs) = live hs" by (induction hs) (auto simp: live_def)
  moreover have "filter (\<lambda>h. h \<noteq> None) hs = map ((!) hs) (filter (\<lambda>i. hs ! i \<noteq> None) [0..<length hs])"
    using filter_map [of "\<lambda>h. h \<noteq> None" "(!) hs" "[0..<length hs]"] by (simp add: map_nth comp_def)
  ultimately show ?thesis by simp
qed

lemma live_rev: "live (rev hs) = rev (live hs)"
  by (induction hs) (auto simp: live_def split: option.split)

text \<open>The snapshot whose outputs are opened for a reload.\<close>

definition reload_conf :: "build_flags \<Rightarrow> hpu_conf \<Rightarrow> hpu_conf \<Rightarrow> hpu_conf" where
  "reload_conf B fresh old = (let c1 = snd (conf_checks B fresh) in c1\<lparr>c_env := derive_env c1 (c_env old)\<rparr>)"

lemma reload_conf_facts:
  assumes "fst (conf_checks B fresh) = 0"
  shows "conf_checked (reload_conf B fresh old)" "c_outputs (reload_conf B fresh old) = c_outputs fresh" "handles (reload_conf B fresh old) = handles fresh"
proof -
  obtain c1 where c: "conf_checks B fresh = (0, c1)" using assms by (metis prod.collapse)
  obtain idx where "c1 = fresh\<lparr>c_default_idx := idx\<rparr>" using checks_frame [OF c] by blast
  then show "c_outputs (reload_conf B fresh old) = c_outputs fresh" "handles (reload_conf B fresh old) = handles fresh"
    by (simp_all add: reload_conf_def c Let_def handles_def)
  show "conf_checked (reload_conf B fresh old)" using checks_sound [OF c] by (simp add: reload_conf_def c Let_def checked_env)
qed

lemma no_handle: "set (handles c) \<subseteq> {None} \<Longrightarrow> i < length (c_outputs c) \<Longrightarrow> handles c ! i = None"
  using subsetD [OF _ nth_mem [of i "handles c"]] by (metis length_handles singletonD)

text \<open>Before the stop, exactly the outputs that are not reused have a handle.\<close>

lemma opened_live:
  assumes "opened_so_far opener c (reused plan) (\<lambda>e. False) hs m" "set (handles c) \<subseteq> {None}" "i < length hs"
  shows "hs ! i \<noteq> None \<longleftrightarrow> i < m \<and> \<not> reused plan i"
proof (cases "i < m")
  case True
  note opened_at [OF assms(1) True]
  moreover have "handles c ! i = None" using assms(1,3) no_handle [OF assms(2), of i] by (simp add: opened_so_far_def)
  ultimately show ?thesis using True by (cases "opening_call opener c hs i") (simp_all split: if_splits)
next
  case False
  then have "hs ! i = drop m hs ! (i - m)" using assms(3) by simp
  also have "\<dots> = handles c ! i" using assms False by (simp add: opened_so_far_def)
  finally show ?thesis using False no_handle [OF assms(2), of i] assms by (simp add: opened_so_far_def)
qed

text \<open>The steps of a reload after its checks.\<close>

lemma reload_steps:
  assumes "hpu_conf_finalize_reload B opener fresh old = (rc, c, plan, shut)" "set (handles fresh) \<subseteq> {None}" "fst (conf_checks B fresh) = 0"
  shows "plan = map (reuse_index old) (c_outputs fresh) \<and> (\<exists>hs m. opened_so_far opener (reload_conf B fresh old) (reused plan) (\<lambda>e. False) hs m
    \<and> (if rc = 0 then m = length hs \<and> c = with_handles (reload_conf B fresh old) hs \<and> shut = []
       else m < length hs \<and> \<not> reused plan m
         \<and> (\<exists>e. opening_call opener (reload_conf B fresh old) hs m = Inl e \<and> rc = (if e = HPULOGC_ERR_CONFIG then HPULOGC_ERR_CONFIG else HPULOGC_ERR_IO))
         \<and> c = reload_conf B fresh old \<and> shut = rev (live hs)))"
proof -
  let ?c = "reload_conf B fresh old"
  let ?r = "map (reuse_index old) (c_outputs fresh)"
  note f = reload_conf_facts [OF assms(3), of old]
  obtain rc1 c3 new where o: "open_fresh opener ?c ?r [] [0..<length (c_outputs ?c)] = (rc1, c3, new)" by (metis prod_cases3)
  have "open_fresh opener (with_handles ?c (handles ?c)) ?r [] [0..<length (handles ?c)] = (rc1, c3, new)" using o by simp
  from open_fresh_spec [OF this opening_start] obtain hs m where h: "c3 = with_handles ?c hs"
    "opened_so_far opener ?c (reused ?r) (\<lambda>e. False) hs m" "new = filter (\<lambda>i. \<not> reused ?r i) [0..<m]"
    "if rc1 = 0 then m = length hs
     else m < length hs \<and> \<not> reused ?r m
       \<and> (\<exists>e. opening_call opener ?c hs m = Inl e \<and> rc1 = (if e = HPULOGC_ERR_CONFIG then HPULOGC_ERR_CONFIG else HPULOGC_ERR_IO))"
    by auto
  have l: "length hs = length (c_outputs ?c)" "m \<le> length hs" using h(2) by (simp_all add: opened_so_far_def)
  obtain c1 where k: "conf_checks B fresh = (0, c1)" using assms(3) by (metis prod.collapse)
  have fo: "c_outputs c1 = c_outputs fresh" using checks_frame [OF k] by auto
  have e: "?c = c1\<lparr>c_env := derive_env c1 (c_env old)\<rparr>" by (simp add: reload_conf_def k Let_def)
  have r: "rc = rc1 \<and> plan = ?r \<and> (if rc = 0 then c = c3 \<and> shut = [] else (c, shut) = rollback c3 (rev new))"
    using assms(1) o f(2) fo by (auto simp: hpu_conf_finalize_reload_def k Let_def e [symmetric] split: if_splits prod.splits)
  have nh: "set (handles ?c) \<subseteq> {None}" using assms(2) f(3) by simp
  have "filter (\<lambda>i. hs ! i \<noteq> None) [0..<length hs] = filter (\<lambda>i. i < m \<and> \<not> reused ?r i) [0..<length hs]"
    using opened_live [OF h(2) nh] by (intro filter_cong) auto
  also have "\<dots> = new" unfolding h(3) using l(2) by (metis filter_filter filter_upt_below)
  finally have new: "new = filter (\<lambda>i. hs ! i \<noteq> None) [0..<length hs]" ..
  show ?thesis
  proof (cases "rc = 0")
    case True
    then show ?thesis using h r by auto
  next
    case False
    have "distinct (rev new)" "\<forall>i \<in> set (rev new). i < length hs" unfolding new by simp_all
    note rb = rollback_spec [OF this l(1)]
    let ?none = "fold (\<lambda>i h. h[i := None]) (rev new) hs"
    have "c = with_handles ?c ?none" "shut = live (map ((!) hs) (rev new))" using r False rb h(1) by simp_all
    moreover have "?none = handles ?c"
      using l no_handle [OF nh] by (intro nth_equalityI) (auto simp: reset_nth new)
    moreover have "live (map ((!) hs) (rev new)) = rev (live hs)"
      using live_indices [of hs] new by (simp add: rev_map [symmetric] live_rev)
    ultimately show ?thesis using False h r by (intro conjI exI [of _ hs] exI [of _ m]) auto
  qed
qed


section \<open>The code configuration\<close>




























section \<open>Properties of finalization\<close>

text \<open>
  C25. Finalization is all or nothing. When it succeeds, every reference of the snapshot is valid (the default
  format and every rule's format exist, the default outputs resolve to the outputs of their names, rule
  outputs exist), no two file outputs have the same normalized path, every rotation name has a placeholder,
  and nothing was closed; a dry run opened nothing, otherwise every output has the handle it held or what the
  opener gave it, none only when a lenient opening met an invalid definition. When a check fails, the
  snapshot is as it was but for the indices of the default outputs that had been resolved. When an opening
  fails, every handle held or obtained until then, and no other, is closed in the order of the outputs, and
  none is left.
\<close>

theorem finalize_all_or_nothing:
  assumes "hpu_conf_finalize_impl B opener now_us mypid c dry = (rc, c1, shut)"
  shows "if rc = 0
    then conf_checked c1 \<and> shut = [] \<and> (\<not> dry \<and> c_strict_init c \<longrightarrow> None \<notin> set (handles c1))
      \<and> (if dry then handles c1 = handles c
         else opened_so_far opener (ready_conf B now_us mypid c) (held c) (tolerated c) (handles c1) (length (c_outputs c)))
    else (rc = fst (conf_checks B c) \<and> shut = [] \<and> (\<exists>idx. c1 = c\<lparr>c_default_idx := idx\<rparr>))
      \<or> (\<not> dry \<and> conf_checked c1 \<and> set (handles c1) \<subseteq> {None}
          \<and> (\<exists>hs m e. opened_so_far opener (ready_conf B now_us mypid c) (held c) (tolerated c) hs m
              \<and> m < length hs \<and> \<not> held c m \<and> opening_call opener (ready_conf B now_us mypid c) hs m = Inl e \<and> \<not> tolerated c e
              \<and> rc = open_error e \<and> shut = live hs))"
proof (cases "fst (conf_checks B c) = 0")
  case False
  obtain e c2 where e: "conf_checks B c = (e, c2)" by fastforce
  then have "rc = e" "c1 = c2" "shut = []" "e \<noteq> 0" using assms False by (auto simp: finalize_unfold Let_def)
  then show ?thesis using e checks_frame [OF e] by auto
next
  case True
  note f = ready_facts [OF True, of now_us mypid]
  show ?thesis
  proof (cases dry)
    case d: True
    then show ?thesis using assms True f by (auto simp: finalize_unfold Let_def)
  next
    case d: False
    let ?c = "ready_conf B now_us mypid c"
    from finalize_opened [OF True d assms] obtain hs m where h: "opened_so_far opener ?c (held c) (tolerated c) hs m"
      "if rc = 0 then m = length hs \<and> c1 = with_handles ?c hs \<and> shut = []
       else m < length hs \<and> \<not> held c m \<and> (\<exists>e. opening_call opener ?c hs m = Inl e \<and> \<not> tolerated c e \<and> rc = open_error e)
         \<and> shut = live hs \<and> set (handles c1) \<subseteq> {None} \<and> conf_checked c1" by blast
    have l: "length hs = length (c_outputs ?c)" using h(1) by (simp add: opened_so_far_def)
    show ?thesis
    proof (cases "rc = 0")
      case rc: True
      then have c1: "handles c1 = hs" "conf_checked c1" "shut = []" "m = length hs" using h(2) l f(1) by (simp_all add: checked_handles)
      have "hs ! i \<noteq> None" if "c_strict_init c" "i < length hs" for i
        using opened_at [OF h(1), of i] c1(4) that f(3) by (auto simp: tolerated_def split: sum.splits if_splits)
      then have "c_strict_init c \<longrightarrow> None \<notin> set (handles c1)" using c1(1) by (metis in_set_conv_nth)
      then show ?thesis using rc d h(1) c1 l f(2) by simp
    next
      case False
      then obtain e where "m < length hs" "\<not> held c m" "opening_call opener ?c hs m = Inl e" "\<not> tolerated c e" "rc = open_error e"
        "shut = live hs" "set (handles c1) \<subseteq> {None}" "conf_checked c1" using h(2) by auto
      then have "\<not> dry \<and> conf_checked c1 \<and> set (handles c1) \<subseteq> {None}
          \<and> (\<exists>hs m e. opened_so_far opener ?c (held c) (tolerated c) hs m \<and> m < length hs \<and> \<not> held c m
              \<and> opening_call opener ?c hs m = Inl e \<and> \<not> tolerated c e \<and> rc = open_error e \<and> shut = live hs)"
        using h(1) d by blast
      then show ?thesis using False by (simp only: if_False simp_thms)
    qed
  qed
qed

text \<open>A snapshot with file outputs at the given paths.\<close>

definition file_output :: "string \<Rightarrow> hpu_conf_output" where
  "file_output p = code_output_zero\<lparr>o_pub := (o_pub code_output_zero)\<lparr>out_type := HPULOGC_OUT_FILE, out_path := Some p\<rparr>, o_path_buf := p,
     o_name := p\<rparr>"

definition files_conf :: "string list \<Rightarrow> hpu_conf" where
  "files_conf ps = (conf_base undefined [fmt_empty ''standard''])\<lparr>c_outputs := map file_output ps\<rparr>"

lemma files_checks:
  assumes "check_dup_paths_from (map file_output ps) = 0"
  shows "conf_checks full_build (files_conf ps) = (0, files_conf ps)"
  using assms
  by (simp add: conf_checks_def files_conf_def conf_base_def hpu_conf_find_format_def fmt_empty_def check_overflow_policy_def
      check_consumer_threads_def full_build_def check_dup_paths_def check_naming_def list_ex_iff file_output_def code_output_zero_def
      resolve_default_outputs_def resolve_rules_def)

lemma two_paths: "check_dup_paths_from (map file_output [''a.log'', ''b.log'']) = 0"
proof -
  have "hpu_path_normalize (Some ''a.log'') 512 = Some ''a.log''" "hpu_path_normalize (Some ''b.log'') 512 = Some ''b.log''"
    by (simp_all add: path_eval)
  then show ?thesis by (simp add: file_output_def is_file_def code_output_zero_def HPULOGC_MAX_PATH_LEN_def)
qed

theorem finalize_all_or_nothing_witness:
  "\<exists>rc c1 shut. hpu_conf_finalize_impl full_build (\<lambda>c i sev. if i = 0 then Inr 7 else Inl HPULOGC_ERR_IO) 0 1
      (files_conf [''a.log'', ''b.log'']) False = (rc, c1, shut)
     \<and> rc = HPULOGC_ERR_IO \<and> shut = [7] \<and> set (handles c1) \<subseteq> {None}"
proof -
  let ?c = "files_conf [''a.log'', ''b.log'']" and ?o = "\<lambda>c i sev. if i = 0 then Inr 7 else Inl HPULOGC_ERR_IO"
  obtain rc c1 shut where r: "hpu_conf_finalize_impl full_build ?o 0 1 ?c False = (rc, c1, shut)" by (metis prod_cases3)
  have e: "rc = HPULOGC_ERR_IO \<and> shut = [7]" using r
    by (simp add: hpu_conf_finalize_impl_def files_checks [OF two_paths])
       (simp add: files_conf_def file_output_def code_output_zero_def set_handle_def hpu_conf_close_outputs_def Let_def status_simps conf_base_def
         upt_rec split: prod.splits)
  then show ?thesis using finalize_all_or_nothing [OF r] r by (auto simp: status_simps)
qed


text \<open>
  C27. A reload that fails leaves nothing behind. When a check fails, nothing has been opened or closed. When
  the opening of an output fails, that output is not a reused one, all others before it that are not reused
  have been opened, with the handles the opener gave, and exactly these handles have been closed, newest
  first. The outputs of the fresh snapshot are as they were, without handles; the old snapshot is not part of
  the result at all.
\<close>

theorem reload_failure_restores:
  assumes "hpu_conf_finalize_reload B opener fresh old = (rc, c, plan, shut)" "set (handles fresh) \<subseteq> {None}" "rc \<noteq> 0"
  shows "c_outputs c = c_outputs fresh
    \<and> (if fst (conf_checks B fresh) \<noteq> 0 then rc = fst (conf_checks B fresh) \<and> shut = []
       else \<exists>hs m e. opened_so_far opener (reload_conf B fresh old) (reused plan) (\<lambda>e. False) hs m
         \<and> m < length hs \<and> \<not> reused plan m \<and> opening_call opener (reload_conf B fresh old) hs m = Inl e
         \<and> rc = (if e = HPULOGC_ERR_CONFIG then HPULOGC_ERR_CONFIG else HPULOGC_ERR_IO)
         \<and> (\<forall>i < length hs. hs ! i \<noteq> None \<longleftrightarrow> i < m \<and> \<not> reused plan i) \<and> shut = rev (live hs))"
proof (cases "fst (conf_checks B fresh) = 0")
  case False
  obtain e c2 where e: "conf_checks B fresh = (e, c2)" by fastforce
  then have "rc = e" "c = c2" "shut = []" using assms False by (auto simp: hpu_conf_finalize_reload_def)
  then show ?thesis using e False checks_frame [OF e] by auto
next
  case True
  note f = reload_conf_facts [OF True, of old]
  have nh: "set (handles (reload_conf B fresh old)) \<subseteq> {None}" using assms(2) f(3) by simp
  from reload_steps [OF assms(1,2) True] assms(3) obtain hs m e where h: "opened_so_far opener (reload_conf B fresh old) (reused plan) (\<lambda>e. False) hs m"
    "m < length hs" "\<not> reused plan m" "opening_call opener (reload_conf B fresh old) hs m = Inl e" "c = reload_conf B fresh old" "shut = rev (live hs)"
    "rc = (if e = HPULOGC_ERR_CONFIG then HPULOGC_ERR_CONFIG else HPULOGC_ERR_IO)"
    by auto
  have "\<forall>i < length hs. hs ! i \<noteq> None \<longleftrightarrow> i < m \<and> \<not> reused plan i" using opened_live [OF h(1) nh] by blast
  then have "\<exists>hs m e. opened_so_far opener (reload_conf B fresh old) (reused plan) (\<lambda>e. False) hs m
         \<and> m < length hs \<and> \<not> reused plan m \<and> opening_call opener (reload_conf B fresh old) hs m = Inl e
         \<and> rc = (if e = HPULOGC_ERR_CONFIG then HPULOGC_ERR_CONFIG else HPULOGC_ERR_IO)
         \<and> (\<forall>i < length hs. hs ! i \<noteq> None \<longleftrightarrow> i < m \<and> \<not> reused plan i) \<and> shut = rev (live hs)"
    using h by blast
  moreover have "c_outputs c = c_outputs fresh" using h(5) f(2) by simp
  ultimately show ?thesis using True by (simp only: if_False not_not simp_thms)
qed

lemma files_no_handles: "set (handles (files_conf ps)) \<subseteq> {None}"
  by (auto simp: files_conf_def handles_def file_output_def code_output_zero_def)


theorem reload_failure_restores_witness:
  "\<exists>c hs. hpu_conf_finalize_reload full_build (\<lambda>c i sev. if i = 0 then Inr 7 else Inl HPULOGC_ERR_IO) (files_conf [''a.log'', ''b.log''])
      (files_conf []) = (HPULOGC_ERR_IO, c, [- 1, - 1], [7])
     \<and> c_outputs c = c_outputs (files_conf [''a.log'', ''b.log'']) \<and> [7] = rev (live hs)"
proof -
  let ?f = "files_conf [''a.log'', ''b.log'']" and ?p = "\<lambda>c i sev. if i = 0 then Inr 7 else Inl HPULOGC_ERR_IO"
  obtain rc c reuse shut where r: "hpu_conf_finalize_reload full_build ?p ?f (files_conf []) = (rc, c, reuse, shut)" by (metis prod_cases4)
  have e: "rc = HPULOGC_ERR_IO \<and> shut = [7] \<and> reuse = [- 1, - 1]" using r
    by (simp add: hpu_conf_finalize_reload_def files_checks [OF two_paths])
       (simp add: files_conf_def file_output_def code_output_zero_def set_handle_def Let_def reuse_index_def
         is_file_def conf_base_def upt_rec status_simps split: prod.splits)
  have n: "set (handles ?f) \<subseteq> {None}" by (rule files_no_handles)
  have z: "rc \<noteq> 0" using e by (simp add: status_simps)
  have k: "fst (conf_checks full_build ?f) = 0" by (simp add: files_checks [OF two_paths])
  obtain hs where h: "c_outputs c = c_outputs ?f" "shut = rev (live hs)" using reload_failure_restores [OF r n z] k by auto
  show ?thesis using r e h by (intro exI [of _ c] exI [of _ hs]) simp
qed

text \<open>An output that becomes asynchronous keeps its old instance.\<close>

lemma reuse_ignores_queue:
  "reuse_index (with_handles (files_conf [''a.log'']) [Some 4]) ((file_output ''a.log'')\<lparr>o_async := x, o_queue_size := n\<rparr>) = 0"
  by (simp add: reuse_index_def files_conf_def with_handles_def same_file_def is_file_def file_output_def code_output_zero_def conf_kv_equal_def kv_pairs_def conf_base_def)

end
