(* ===== verification/OutputState.thy ===== *)
theory OutputState
  imports WireFields ConfText
begin

text \<open>
  The data of the output layer: the delivery event and the sink vtable of
  \<^verbatim>\<open>include/hpulogc.h\<close>, the common part of a sink instance of \<^verbatim>\<open>src/output/output.h\<close> and
  the second-level queue of \<^verbatim>\<open>src/output/sink_queue.c\<close>. Counters are naturals (2^64 records are
  never logged).
\<close>

section \<open>Events\<close>

text \<open>
  A pointer with its length is the bytes it designates, \<open>None\<close> the NULL pointer; a NULL pointer
  always comes with length zero. \<open>ev_fields\<close> is the decoded view, \<open>[]\<close> for NULL.
\<close>

record hpulogc_event =
  ev_level :: int
  ev_category :: "string option"
  ev_file :: "string option"
  ev_func :: "string option"
  ev_src_line :: int
  ev_msg :: string
  ev_tid :: "64 word"
  ev_realtime_ns :: int
  ev_mono_us :: int
  ev_line :: string
  ev_fields :: "(nat \<times> unpacked_value) list"
  ev_field_count :: nat
  ev_wire :: "byte list option"

text \<open>The bytes behind a pointer that may be NULL.\<close>

definition obytes :: "string option \<Rightarrow> string" where
  "obytes p = (case p of None \<Rightarrow> [] | Some s \<Rightarrow> s)"

lemma obytes_simps [simp]: "obytes None = []" "obytes (Some s) = s"
  by (simp_all add: obytes_def)

text \<open>\<^verbatim>\<open>len > 0 ? p : NULL\<close>\<close>

definition null_if_empty :: "string \<Rightarrow> string option" where
  "null_if_empty s = (if s = [] then None else Some s)"

lemma obytes_null_if_empty [simp]: "obytes (null_if_empty s) = s"
  by (simp add: null_if_empty_def)

section \<open>Limits\<close>

definition HPULOGC_MAX_SINK_TYPES :: nat where "HPULOGC_MAX_SINK_TYPES = 32"
definition HPULOGC_MAX_SINK_FILTER_KEYS :: nat where "HPULOGC_MAX_SINK_FILTER_KEYS = 8"
definition HPULOGC_SINK_ABI_VERSION :: nat where "HPULOGC_SINK_ABI_VERSION = 1"

section \<open>The vtable of a sink type\<close>

text \<open>
  A callback works on the private state \<open>'p\<close> of its instance (the world a sink writes to is part of
  it). The last component of a result is how many lines the callback books as failed through
  \<^verbatim>\<open>hpu_sink_account_failed\<close>. A NULL callback is \<open>None\<close>.
\<close>

record 'p sink_ops =
  so_type :: "string option"
  so_abi_version :: nat
  so_cap_async :: bool
  so_priv0 :: 'p
  so_configure :: "('p \<Rightarrow> string \<Rightarrow> string option \<Rightarrow> int \<times> 'p) option"
  so_init :: "('p \<Rightarrow> int \<times> 'p) option"
  so_start :: "('p \<Rightarrow> int \<times> 'p) option"
  so_emit :: "('p \<Rightarrow> hpulogc_event \<Rightarrow> 'p \<times> nat) option"
  so_emit_batch :: "('p \<Rightarrow> hpulogc_event list \<Rightarrow> int \<times> 'p \<times> nat) option"
  so_flush :: "('p \<Rightarrow> int \<times> 'p \<times> nat) option"
  so_sync :: "('p \<Rightarrow> int \<times> 'p \<times> nat) option"
  so_periodic :: "('p \<Rightarrow> nat \<Rightarrow> nat \<Rightarrow> int \<times> 'p \<times> nat) option"
  so_destroy :: "('p \<Rightarrow> 'p) option"
  so_reserved :: "bool list"

section \<open>The second-level queue\<close>

text \<open>
  The worker's context, and the fields under the queue's mutex; the offsets are monotonic byte
  counts. The worker's scratch buffer for filtered regions is its bytes.
\<close>

record sq_worker_ctx =
  wc_sweep :: "byte list"
  wc_batch_max :: nat
  wc_flush_interval :: nat
  wc_last_flush_ms :: nat
  wc_wire :: "byte list"

record hpu_sink_queue =
  sq_buf :: "byte list"
  sq_cap :: nat
  sq_head :: nat
  sq_tail :: nat
  sq_stop :: bool
  sq_exited :: bool
  sq_ctx :: sq_worker_ctx

section \<open>The common part of an instance\<close>

text \<open>
  The key pool of the field filter with its offset and length tables, as stored; the scratch
  buffer of the synchronous filter is its bytes (its capacity is their number).
\<close>

record 'p output_base =
  ob_ops :: "'p sink_ops"
  ob_priv :: 'p
  ob_name :: string
  ob_fsync_sev :: int
  ob_use_utc :: bool
  ob_enabled :: bool
  ob_async :: bool
  ob_queue_size :: nat
  ob_queue :: "hpu_sink_queue option"
  ob_written :: nat
  ob_dropped :: nat
  ob_failed :: nat
  ob_st_fields :: nat
  ob_bytes :: nat
  ob_filter_pool :: string
  ob_filter_off :: "nat list"
  ob_filter_len :: "nat list"
  ob_filter_count :: nat
  ob_filter_wire :: "byte list"

definition hpu_sink_account_failed :: "nat \<Rightarrow> 'p output_base \<Rightarrow> 'p output_base" where
  "hpu_sink_account_failed n b = b\<lparr>ob_failed := ob_failed b + n\<rparr>"

text \<open>The flush of an instance: its callback, when it has one. The status is 0 on success.\<close>

definition hpu_output_flush :: "'p output_base \<Rightarrow> int \<times> 'p output_base" where
  "hpu_output_flush b =
     (case so_flush (ob_ops b) of
        Some f \<Rightarrow> (case f (ob_priv b) of (rc, p, n) \<Rightarrow> (rc, hpu_sink_account_failed n (b\<lparr>ob_priv := p\<rparr>)))
      | None \<Rightarrow> (0, b))"

end
