(* ===== verification/SinkFilter.thy ===== *)
theory SinkFilter
  imports OutputState
begin

text \<open>
  The field filter of a sink instance (\<^verbatim>\<open>src/output/output.c\<close>): parsing of the
  \<^verbatim>\<open>filter keys\<close> value into the instance's key pool, the membership test on wire keys and
  \<^verbatim>\<open>hpu_output_filter_apply\<close>, which rebuilds the field region and view of an event. A filtered
  region holds exactly the spans with a listed key, in order, and is padded to eight bytes; the scratch
  buffer it is written to is sized without that padding.
\<close>

section \<open>Parsing\<close>

datatype filter_tok = FtToken string string | FtEnd | FtEmpty

definition filter_next_token :: "string \<Rightarrow> filter_tok" where
  "filter_next_token p =
     (case dropWhile is_blank p of
        [] \<Rightarrow> FtEnd
      | c # q \<Rightarrow>
          if c = CHR '','' then FtEmpty
          else let body = takeWhile (\<lambda>x. x \<noteq> CHR '','') (c # q);
                   after = dropWhile (\<lambda>x. x \<noteq> CHR '','') (c # q)
               in FtToken (rtrim is_blank body) (case after of [] \<Rightarrow> [] | _ # r \<Rightarrow> r))"

lemma filter_next_token_shorter: "filter_next_token p = FtToken t r \<Longrightarrow> length r < length p"
proof -
  assume h: "filter_next_token p = FtToken t r"
  then obtain c q where q: "dropWhile is_blank p = c # q" "c \<noteq> CHR '',''"
    and r: "r = (case dropWhile (\<lambda>x. x \<noteq> CHR '','') (c # q) of [] \<Rightarrow> [] | _ # r \<Rightarrow> r)"
    by (auto simp: filter_next_token_def Let_def split: list.splits if_splits)
  have "length (dropWhile (\<lambda>x. x \<noteq> CHR '','') (c # q)) \<le> length q"
    using q(2) by (simp add: length_dropWhile_le)
  then have "length r \<le> length q" using r by (auto split: list.splits)
  moreover have "length (dropWhile is_blank p) \<le> length p" by (rule length_dropWhile_le)
  ultimately show ?thesis using q(1) by simp
qed

text \<open>
  The first pass: the offset and length tables, from the number of keys and bytes so far; \<open>None\<close>
  is the malformed value. The second pass: the bytes of the pool.
\<close>

function filter_measure_keys :: "nat \<Rightarrow> nat \<Rightarrow> string \<Rightarrow> (nat list \<times> nat list) option" where
  "filter_measure_keys n tot p =
     (case filter_next_token p of
        FtEnd \<Rightarrow> Some ([], [])
      | FtEmpty \<Rightarrow> None
      | FtToken t r \<Rightarrow>
          if n \<ge> HPULOGC_MAX_SINK_FILTER_KEYS \<or> length t > HPULOGC_MAX_FIELD_KEY_LEN then None
          else map_option (\<lambda>(os, ls). (tot mod 2 ^ 16 # os, length t mod 2 ^ 8 # ls))
                 (filter_measure_keys (n + 1) (tot + length t) r))"
  by pat_completeness auto
termination
  by (relation "measure (\<lambda>(n, tot, p). length p)") (auto dest: filter_next_token_shorter)

function filter_copy_keys :: "string \<Rightarrow> string" where
  "filter_copy_keys p =
     (case filter_next_token p of FtToken t r \<Rightarrow> t @ filter_copy_keys r | _ \<Rightarrow> [])"
  by pat_completeness auto
termination
  by (relation "measure length") (auto dest: filter_next_token_shorter)

declare filter_measure_keys.simps [simp del] filter_copy_keys.simps [simp del]

text \<open>\<open>None\<close> is the return value -1.\<close>

definition parse_filter_keys :: "'p output_base \<Rightarrow> string option \<Rightarrow> 'p output_base option" where
  "parse_filter_keys b val =
     (case val of None \<Rightarrow> None
      | Some v \<Rightarrow>
         (case filter_measure_keys 0 0 v of None \<Rightarrow> None
          | Some (os, ls) \<Rightarrow>
              if os = [] then Some b
              else Some (b\<lparr>ob_filter_off := os, ob_filter_len := ls, ob_filter_pool := filter_copy_keys v,
                           ob_filter_count := length os\<rparr>)))"

section \<open>The membership test\<close>

definition filter_key_match :: "'p output_base \<Rightarrow> byte list \<Rightarrow> bool" where
  "filter_key_match b key =
     list_ex (\<lambda>i. ob_filter_len b ! i = length key mod 2 ^ 8
                  \<and> bslice (ob_filter_off b ! i) (length key) (ob_filter_pool b) = key)
       [0..<ob_filter_count b]"

text \<open>The keys the tables of an instance stand for.\<close>

definition filter_keys :: "'p output_base \<Rightarrow> string list" where
  "filter_keys b = map (\<lambda>i. bslice (ob_filter_off b ! i) (ob_filter_len b ! i) (ob_filter_pool b))
     [0..<ob_filter_count b]"

section \<open>Filtering a region\<close>

text \<open>
  The two walks over the spans of the region. The first gives the bytes kept and the number of
  spans removed, the second the bytes copied.
\<close>

fun filter_measure :: "(byte list \<Rightarrow> bool) \<Rightarrow> byte list \<Rightarrow> nat \<Rightarrow> nat \<Rightarrow> nat \<times> nat" where
  "filter_measure keep wire 0 off = (0, 0)"
| "filter_measure keep wire (Suc i) off =
     (if off + 6 > length wire then (0, 0)
      else let key_len = rd_u16 wire off; val_len = rd_u16 wire (off + 4); span = 6 + key_len + val_len
           in if off + span > length wire then (0, 0)
              else case filter_measure keep wire i (off + span) of (wlen, removed) \<Rightarrow>
                     if keep (bslice (off + 6) key_len wire) then (wlen + span, removed) else (wlen, removed + 1))"

fun filter_copy :: "(byte list \<Rightarrow> bool) \<Rightarrow> byte list \<Rightarrow> nat \<Rightarrow> nat \<Rightarrow> byte list" where
  "filter_copy keep wire 0 off = []"
| "filter_copy keep wire (Suc i) off =
     (if off + 6 > length wire then []
      else let key_len = rd_u16 wire off; val_len = rd_u16 wire (off + 4); span = 6 + key_len + val_len
           in if off + span > length wire then []
              else (if keep (bslice (off + 6) key_len wire) then bslice off span wire else [])
                   @ filter_copy keep wire i (off + span))"

text \<open>
  The result: the number of spans removed, the view, the scratch buffer and how many bytes were
  written past its end. \<open>grow\<close> is what \<^verbatim>\<open>realloc\<close> gives (\<open>None\<close>: no memory); the empty
  scratch is the NULL pointer.
\<close>

record filter_result =
  fr_removed :: nat
  fr_view :: hpulogc_event
  fr_scratch :: "byte list"
  fr_overrun :: nat

definition hpu_output_filter_apply ::
  "(byte list \<Rightarrow> nat \<Rightarrow> byte list option) \<Rightarrow> 'p output_base \<Rightarrow> hpulogc_event \<Rightarrow> nat \<Rightarrow> byte list \<Rightarrow> filter_result" where
  "hpu_output_filter_apply grow b view out_max scratch =
     (let wire = obytes (ev_wire view); cnt = ev_field_count view mod 2 ^ 16;
          same = \<lparr>fr_removed = 0, fr_view = view, fr_scratch = scratch, fr_overrun = 0\<rparr>
      in if ob_filter_count b = 0 \<or> ev_wire view = None \<or> wire = [] \<or> cnt = 0 then same
         else case filter_measure (filter_key_match b) wire cnt 0 of (wlen, removed) \<Rightarrow>
           if removed = 0 then same
           else case (if length scratch < wlen then grow scratch wlen else Some scratch) of
             None \<Rightarrow> same
           | Some dst \<Rightarrow>
               let kept = filter_copy (filter_key_match b) wire cnt 0;
                   region = kept @ replicate (pad_count (length kept)) (CHR 0x00);
                   row = hpu_fields_unpack region ((cnt - removed) mod 2 ^ 16) out_max
               in \<lparr>fr_removed = removed,
                   fr_view = view\<lparr>ev_wire := (if dst = [] then None else Some region),
                                  ev_field_count := length row mod 2 ^ 16, ev_fields := row\<rparr>,
                   fr_scratch = take (length dst) (splice_at 0 region dst),
                   fr_overrun = length region - length dst\<rparr>)"

section \<open>Parsing gives the listed keys\<close>

text \<open>A key a list can name, and the list as it is written: the keys with a comma and a blank between.\<close>

definition key_text :: "string \<Rightarrow> bool" where
  "key_text k \<longleftrightarrow> k \<noteq> [] \<and> CHR '','' \<notin> set k \<and> \<not> is_blank (hd k) \<and> \<not> is_blank (last k)
     \<and> length k \<le> HPULOGC_MAX_FIELD_KEY_LEN"

fun show_keys :: "string list \<Rightarrow> string" where
  "show_keys [] = []"
| "show_keys [k] = k"
| "show_keys (k # ks) = k @ '', '' @ show_keys ks"

lemma comma_not_blank: "\<not> is_blank (CHR '','')"
  by (simp add: is_blank_def)

lemma next_token_at:
  assumes "dropWhile is_blank p = q" "q \<noteq> []" "hd q \<noteq> CHR '',''"
  shows "filter_next_token p
     = FtToken (rtrim is_blank (takeWhile (\<lambda>x. x \<noteq> CHR '','') q))
         (case dropWhile (\<lambda>x. x \<noteq> CHR '','') q of [] \<Rightarrow> [] | _ # r \<Rightarrow> r)"
  using assms by (cases q) (simp_all add: filter_next_token_def Let_def del: takeWhile.simps dropWhile.simps)

lemma until_comma:
  assumes "CHR '','' \<notin> set k"
  shows "takeWhile (\<lambda>x. x \<noteq> CHR '','') (k @ CHR '','' # s) = k" "takeWhile (\<lambda>x. x \<noteq> CHR '','') k = k"
    and "dropWhile (\<lambda>x. x \<noteq> CHR '','') (k @ CHR '','' # s) = CHR '','' # s" "dropWhile (\<lambda>x. x \<noteq> CHR '','') k = []"
  using assms by (induction k) auto

lemma key_text_front:
  assumes "key_text k"
  shows "dropWhile is_blank (k @ s) = k @ s" "dropWhile is_blank (CHR '' '' # k @ s) = k @ s" "hd (k @ s) \<noteq> CHR '',''"
    "rtrim is_blank k = k"
  using assms by (cases k; auto simp: key_text_def is_blank_def intro!: rtrim_id; fail)+

lemma next_token_key:
  assumes "key_text k"
  shows "filter_next_token (k @ '','' @ s) = FtToken k s"
    and "filter_next_token (CHR '' '' # k @ '','' @ s) = FtToken k s"
    and "filter_next_token k = FtToken k []"
    and "filter_next_token (CHR '' '' # k) = FtToken k []"
proof -
  have ne: "k \<noteq> []" and nc: "CHR '','' \<notin> set k" using assms by (auto simp: key_text_def)
  note f = key_text_front [OF assms]
  show "filter_next_token (k @ '','' @ s) = FtToken k s"
    and "filter_next_token (CHR '' '' # k @ '','' @ s) = FtToken k s"
    and "filter_next_token k = FtToken k []"
    and "filter_next_token (CHR '' '' # k) = FtToken k []"
    using next_token_at [OF f(1) [of "'','' @ s"]] next_token_at [OF f(2) [of "'','' @ s"]]
      next_token_at [OF f(1) [of "[]"]] next_token_at [OF f(2) [of "[]"]] f(3) f(3) [of "[]"] ne f(4)
    by (simp_all add: until_comma [OF nc])
qed

text \<open>The tables of a key list whose first key starts at byte \<open>o1\<close> of the pool.\<close>

fun key_offsets :: "nat \<Rightarrow> string list \<Rightarrow> nat list" where
  "key_offsets o1 [] = []"
| "key_offsets o1 (k # ks) = o1 # key_offsets (o1 + length k) ks"

lemma length_key_offsets [simp]: "length (key_offsets o1 ks) = length ks"
  by (induction ks arbitrary: o1) simp_all

lemma nth_key_offsets: "i < length ks \<Longrightarrow> key_offsets o1 ks ! i = o1 + length (concat (take i ks))"
  by (induction ks arbitrary: o1 i) (auto simp: nth_Cons' take_Cons')

lemma key_slice: "i < length ks \<Longrightarrow> bslice (length (concat (take i ks))) (length (ks ! i)) (concat ks) = ks ! i"
proof -
  assume i: "i < length ks"
  then have "concat ks = concat (take i ks) @ ks ! i @ concat (drop (Suc i) ks)"
    using id_take_nth_drop [OF i] by (metis concat.simps(2) concat_append)
  then show ?thesis by (metis append_eq_conv_conj bslice_append_right0)
qed

lemma key_in_pool: "i < length ks \<Longrightarrow> length (concat (take i ks)) + length (ks ! i) \<le> length (concat ks)"
proof -
  assume i: "i < length ks"
  have "concat ks = concat (take i ks @ ks ! i # drop (Suc i) ks)" using id_take_nth_drop [OF i] by simp
  then show ?thesis by simp
qed

lemma key_text_length: "key_text k \<Longrightarrow> length k \<le> 64"
  by (simp add: key_text_def HPULOGC_MAX_FIELD_KEY_LEN_def)

lemma measure_copy_keys:
  "list_all key_text ks \<Longrightarrow> n + length ks \<le> HPULOGC_MAX_SINK_FILTER_KEYS \<Longrightarrow> tot + length (concat ks) < 2 ^ 16 \<Longrightarrow>
     p = show_keys ks \<or> p = CHR '' '' # show_keys ks \<Longrightarrow>
     filter_measure_keys n tot p = Some (key_offsets tot ks, map length ks) \<and> filter_copy_keys p = concat ks"
proof (induction ks arbitrary: n tot p rule: show_keys.induct)
  case 1
  then have "filter_next_token p = FtEnd" by (auto simp: filter_next_token_def is_blank_def)
  then show ?case by (simp add: filter_measure_keys.simps [of n tot p] filter_copy_keys.simps [of p])
next
  case (2 k)
  then have t: "filter_next_token p = FtToken k []" using next_token_key [of k] by auto
  moreover have "filter_next_token [] = FtEnd" by (simp add: filter_next_token_def)
  moreover have "length k \<le> 64" "length k < 256" using 2 key_text_length [of k] by auto
  ultimately show ?case using 2
    by (simp add: filter_measure_keys.simps [of n tot p] filter_measure_keys.simps [of _ _ "[]"]
        filter_copy_keys.simps [of p] filter_copy_keys.simps [of "[]"] HPULOGC_MAX_FIELD_KEY_LEN_def)
next
  case (3 k v va)
  let ?r = "CHR '' '' # show_keys (v # va)"
  have t: "filter_next_token p = FtToken k ?r" using 3 next_token_key [of k] by auto
  have l: "length k \<le> 64" "length k < 256" using 3 key_text_length [of k] by auto
  have "filter_measure_keys (n + 1) (tot + length k) ?r = Some (key_offsets (tot + length k) (v # va), map length (v # va))
      \<and> filter_copy_keys ?r = concat (v # va)"
    by (rule "3.IH") (use "3.prems" in auto)
  then show ?case using 3 t l
    by (simp add: filter_measure_keys.simps [of n tot p] filter_copy_keys.simps [of p] HPULOGC_MAX_FIELD_KEY_LEN_def)
qed

section \<open>The membership test decides the listed keys\<close>

definition filter_wf :: "'p output_base \<Rightarrow> bool" where
  "filter_wf b \<longleftrightarrow> (\<forall>i < ob_filter_count b. ob_filter_len b ! i < 256
     \<and> ob_filter_off b ! i + ob_filter_len b ! i \<le> length (ob_filter_pool b))"

lemma filter_key_match_iff:
  assumes wf: "filter_wf b" and key: "length key < 256"
  shows "filter_key_match b key \<longleftrightarrow> key \<in> set (filter_keys b)"
proof -
  have "ob_filter_len b ! i = length key \<and> bslice (ob_filter_off b ! i) (length key) (ob_filter_pool b) = key
      \<longleftrightarrow> bslice (ob_filter_off b ! i) (ob_filter_len b ! i) (ob_filter_pool b) = key" if "i < ob_filter_count b" for i
  proof -
    have "length (bslice (ob_filter_off b ! i) (ob_filter_len b ! i) (ob_filter_pool b)) = ob_filter_len b ! i"
      using wf that by (auto simp: filter_wf_def)
    then show ?thesis by auto
  qed
  then show ?thesis using key by (auto simp: filter_key_match_def filter_keys_def list_ex_iff)
qed

lemma parse_filter_keys_list:
  assumes ks: "list_all key_text ks" "length ks \<le> HPULOGC_MAX_SINK_FILTER_KEYS" "ks \<noteq> []"
  obtains b' where "parse_filter_keys b (Some (show_keys ks)) = Some b'" "filter_keys b' = ks" "filter_wf b'"
    "ob_filter_count b' = length ks"
proof -
  have all: "length k \<le> 64" if "k \<in> set ks" for k using ks(1) that key_text_length by (auto simp: list_all_iff)
  then have "length (concat ks) \<le> length ks * 64"
    by (induction ks) fastforce+
  then have room: "length (concat ks) < 2 ^ 16" using ks(2) by (simp add: HPULOGC_MAX_SINK_FILTER_KEYS_def)
  let ?b = "b\<lparr>ob_filter_off := key_offsets 0 ks, ob_filter_len := map length ks, ob_filter_pool := concat ks,
              ob_filter_count := length ks\<rparr>"
  have "filter_measure_keys 0 0 (show_keys ks) = Some (key_offsets 0 ks, map length ks) \<and> filter_copy_keys (show_keys ks) = concat ks"
    by (rule measure_copy_keys) (use ks room in auto)
  moreover have "key_offsets 0 ks \<noteq> []" using ks(3) by (cases ks) auto
  ultimately have "parse_filter_keys b (Some (show_keys ks)) = Some ?b"
    by (simp add: parse_filter_keys_def)
  moreover have "filter_keys ?b = ks"
    by (rule nth_equalityI) (simp_all add: filter_keys_def nth_key_offsets key_slice)
  moreover have "filter_wf ?b"
    unfolding filter_wf_def
  proof (intro allI impI)
    fix i
    assume "i < ob_filter_count ?b"
    then have i: "i < length ks" by simp
    then show "ob_filter_len ?b ! i < 256 \<and> ob_filter_off ?b ! i + ob_filter_len ?b ! i \<le> length (ob_filter_pool ?b)"
      using all [of "ks ! i"] key_in_pool [OF i] by (simp add: nth_key_offsets)
  qed
  ultimately show thesis using that by simp
qed

section \<open>A filtered region holds exactly the listed spans\<close>

lemma span_slice: "bslice (length pre) (length (enc x)) (pre @ enc x @ post) = enc x"
  by (simp add: bslice_append_right0)

lemma length_enc: "length (enc (k, t, v)) = 6 + length k + length v"
  by (simp add: enc_def)

lemma filter_walks:
  "list_all span_ok ts \<Longrightarrow> n = length pre \<Longrightarrow> w = pre @ concat (map enc ts) @ post \<Longrightarrow>
     filter_copy keep w (length ts) n = concat (map enc (filter (\<lambda>(k, _). keep k) ts))
     \<and> filter_measure keep w (length ts) n
        = (length (concat (map enc (filter (\<lambda>(k, _). keep k) ts))), length (filter (\<lambda>(k, _). \<not> keep k) ts))"
proof (induction ts arbitrary: pre n)
  case Nil
  then show ?case by simp
next
  case (Cons x ts)
  obtain k t v where x: "x = (k, t, v)" by (cases x)
  have ok: "span_ok (k, t, v)" using Cons.prems x by simp
  have w: "w = pre @ encode_span k t v @ (concat (map enc ts) @ post)"
    using Cons.prems(3) by (simp add: x enc_def)
  let ?n = "length pre + (6 + length k + length v)"
  have ih: "filter_copy keep w (length ts) ?n = concat (map enc (filter (\<lambda>(k, _). keep k) ts))"
    "filter_measure keep w (length ts) ?n
      = (length (concat (map enc (filter (\<lambda>(k, _). keep k) ts))), length (filter (\<lambda>(k, _). \<not> keep k) ts))"
    using Cons.IH [of ?n "pre @ encode_span k t v"] Cons.prems(1) w by simp_all
  have rd: "rd_u16 w (length pre) = length k" "rd_u16 w (length pre + 4) = length v"
    "bslice (length pre + 6) (length k) w = k" "bslice (length pre) (6 + length k + length v) w = encode_span k t v"
    and fits: "length pre + (6 + length k + length v) \<le> length w"
    unfolding w using rd_at_span [OF ok] bytes_at_span span_slice [of pre "(k, t, v)"] by (simp_all add: enc_def)
  show ?case
    using fits Cons.prems(2) x
    by (simp add: Let_def rd ih enc_def split: prod.split del: add_2_eq_Suc')
qed

lemma unpack_keepables:
  assumes gs: "\<forall>f \<in> set gs. candidate f \<noteq> None" and room: "length gs \<le> room"
    and w: "w = concat (map enc (map (\<lambda>f. the (candidate f)) gs)) @ post"
  shows "list_all2 (field_matches w) gs (unpack_loop w (length gs) room 0)"
proof -
  let ?ts = "map (\<lambda>f. the (candidate f)) gs"
  have ok: "list_all span_ok ?ts"
    using gs candidate_ok by (fastforce simp: list_all_iff)
  have "unpack_loop w (length ?ts) room 0
      = map (\<lambda>(ko, kl, t, vl). (ko, decode_value t w (ko + kl) vl)) (spans w (length ?ts) 0)"
    using unpack_region [OF ok, of 0 "[]" room post] w room by simp
  also have "spans w (length ?ts) 0 = span_list 0 ?ts"
    using spans_region [OF ok, of 0 "[]" post] w by simp
  finally show ?thesis
    using matches_region [OF gs refl, of w "[]" post] w by simp
qed

text \<open>The keys of the candidates of some keepable fields are the keys of the fields.\<close>

lemma candidate_key: "candidate f = Some (k, t, v) \<Longrightarrow> fkey f = Some k"
  by (auto simp: candidate_def split: option.splits if_splits)

lemma filter_candidates:
  "\<forall>f \<in> set gs. candidate f \<noteq> None \<Longrightarrow>
     filter (\<lambda>(k, _). P k) (map (\<lambda>f. the (candidate f)) gs)
     = map (\<lambda>f. the (candidate f)) (filter (\<lambda>f. P (the (fkey f))) gs)"
proof (induction gs)
  case (Cons g gs)
  then obtain k t v where "candidate g = Some (k, t, v)" by (auto simp: candidate_def split: option.splits if_splits)
  with Cons candidate_key [OF this] show ?case by simp
qed simp

lemma keepable_keys_short:
  assumes "f \<in> set (keepable fs)"
  shows "length (the (fkey f)) < 256"
proof -
  from assms have "candidate f \<noteq> None" by (simp add: keepable_def)
  then obtain k t v d where "fkey f = Some k" "length k \<le> HPULOGC_MAX_FIELD_KEY_LEN" by (rule candidate_SomeE)
  then show ?thesis by (simp add: field_limits)
qed

lemma replicate_pad_eq_Nil: "kept = [] \<Longrightarrow> kept @ replicate (pad_count (length kept)) z = []"
  by simp

lemma filter_apply_cases:
  fixes grow b view out_max scratch
  defines "r \<equiv> hpu_output_filter_apply grow b view out_max scratch"
  assumes wire: "ev_wire view = Some wire" "wire \<noteq> []" and cnt: "ev_field_count view = cnt" "0 < cnt" "cnt \<le> 16"
    and active: "ob_filter_count b \<noteq> 0"
    and walk: "filter_measure (filter_key_match b) wire cnt 0 = (length kept, removed)"
      "filter_copy (filter_key_match b) wire cnt 0 = kept"
    and le: "removed \<le> cnt"
    and mem: "\<And>n. length scratch < n \<Longrightarrow> \<exists>d. grow scratch n = Some d \<and> length d = n"
  obtains (same) "removed = 0" "fr_view r = view" "fr_removed r = 0" "fr_overrun r = 0"
  | (rebuilt) region where "removed \<noteq> 0" "fr_removed r = removed"
      "region = kept @ replicate (pad_count (length kept)) (CHR 0x00)"
      "obytes (ev_wire (fr_view r)) = region"
      "ev_fields (fr_view r) = hpu_fields_unpack region (cnt - removed) out_max"
      "ev_field_count (fr_view r) = length (ev_fields (fr_view r)) mod 2 ^ 16"
      "fr_overrun r = length region - max (length scratch) (length kept)"
proof (cases "removed = 0")
  case True
  then have "r = \<lparr>fr_removed = 0, fr_view = view, fr_scratch = scratch, fr_overrun = 0\<rparr>"
    using assms by (simp add: r_def hpu_output_filter_apply_def Let_def)
  then show thesis using True same by simp
next
  case False
  obtain dst where dst: "(if length scratch < length kept then grow scratch (length kept) else Some scratch) = Some dst"
    "length dst = max (length scratch) (length kept)"
    using mem [of "length kept"] by (cases "length scratch < length kept") auto
  let ?region = "kept @ replicate (pad_count (length kept)) (CHR 0x00)"
  have c: "cnt mod 2 ^ 16 = cnt" "(cnt - removed) mod 2 ^ 16 = cnt - removed" using cnt(3) by simp_all
  have r: "r = \<lparr>fr_removed = removed,
      fr_view = view\<lparr>ev_wire := (if dst = [] then None else Some ?region),
         ev_field_count := length (hpu_fields_unpack ?region (cnt - removed) out_max) mod 2 ^ 16,
         ev_fields := hpu_fields_unpack ?region (cnt - removed) out_max\<rparr>,
      fr_scratch = take (length dst) (splice_at 0 ?region dst),
      fr_overrun = length ?region - length dst\<rparr>"
    using False wire cnt active walk dst(1) c
    by (simp add: r_def hpu_output_filter_apply_def Let_def)
  have "obytes (ev_wire (fr_view r)) = ?region"
    using dst(2) unfolding r by (cases "dst = []") auto
  then show thesis using rebuilt [of ?region] False dst(2) unfolding r by simp
qed

section \<open>Properties\<close>

text \<open>
  Reading a filter list. A comma-separated list of at most eight keys is read back as exactly these
  keys, and from then on the membership test accepts exactly the keys of the list.
\<close>

theorem filter_list_roundtrip:
  assumes "list_all key_text ks" "length ks \<le> HPULOGC_MAX_SINK_FILTER_KEYS" "ks \<noteq> []"
  shows "\<exists>b'. parse_filter_keys b (Some (show_keys ks)) = Some b' \<and> filter_keys b' = ks
    \<and> (\<forall>key. length key < 256 \<longrightarrow> filter_key_match b' key = (key \<in> set ks))"
  using parse_filter_keys_list [OF assms] filter_key_match_iff by metis

theorem filter_list_roundtrip_witness:
  "\<forall>b :: nat output_base. \<exists>b'. parse_filter_keys b (Some ''user, trace id'') = Some b' \<and> filter_keys b' = [''user'', ''trace id'']
    \<and> (\<forall>key. length key < 256 \<longrightarrow> filter_key_match b' key = (key \<in> {''user'', ''trace id''}))"
proof
  fix b :: "nat output_base"
  show "\<exists>b'. parse_filter_keys b (Some ''user, trace id'') = Some b' \<and> filter_keys b' = [''user'', ''trace id'']
    \<and> (\<forall>key. length key < 256 \<longrightarrow> filter_key_match b' key = (key \<in> {''user'', ''trace id''}))"
    using filter_list_roundtrip [of "[''user'', ''trace id'']" b]
    by (simp add: key_text_def is_blank_def HPULOGC_MAX_SINK_FILTER_KEYS_def HPULOGC_MAX_FIELD_KEY_LEN_def)
qed

text \<open>
  C29. What a filter leaves. Filtering the region of a serialized record leaves exactly the fields whose
  key is listed, in their order: the region is their spans padded to eight bytes, the decoded view
  matches them one by one, and the number of removed fields is reported.
\<close>

theorem filter_keeps_listed:
  assumes ser: "hpu_fields_serialize fs budget True cap = Inr (wire, cnt, lost)" "0 < cnt"
    and view: "ev_wire view = Some wire" "ev_field_count view = cnt"
    and b: "filter_wf b" "filter_keys b = ks" "ks \<noteq> []"
    and mem: "\<And>n. \<exists>d. grow scratch n = Some d \<and> length d = n"
  shows "let r = hpu_output_filter_apply grow b view HPULOGC_MAX_FIELDS scratch;
             kept = filter (\<lambda>f. the (fkey f) \<in> set ks) (take cnt (keepable fs))
         in fr_removed r + length kept = cnt
            \<and> (fr_removed r = 0 \<longrightarrow> fr_view r = view)
            \<and> (fr_removed r \<noteq> 0 \<longrightarrow>
                 (\<exists>z < 8. obytes (ev_wire (fr_view r))
                     = concat (map (\<lambda>f. enc (the (candidate f))) kept) @ replicate z (CHR 0x00))
                 \<and> list_all2 (field_matches (obytes (ev_wire (fr_view r)))) kept (ev_fields (fr_view r))
                 \<and> ev_field_count (fr_view r) = length kept)"
proof -
  let ?gs = "take cnt (keepable fs)"
  let ?P = "\<lambda>f. the (fkey f) \<in> set ks"
  let ?kept = "filter ?P ?gs"
  let ?region = "concat (map enc (map (\<lambda>f. the (candidate f)) ?kept))"
  from ser(1) obtain z where w: "wire = concat (map enc (take cnt (candidates fs))) @ replicate z (CHR 0x00)"
    and cl: "cnt \<le> length (candidates fs)" and cs: "cnt = s_cnt (serialize_loop budget cap fs)"
    by (rule serialize_image)
  have c16: "cnt \<le> 16"
    using ser_inv_loop [of budget cap fs] cs by (simp add: ser_inv_def HPULOGC_MAX_FIELDS_def)
  have gsK: "\<forall>f \<in> set ?gs. candidate f \<noteq> None \<and> length (the (fkey f)) < 256"
    using keepable_keys_short by (fastforce simp: keepable_def dest: in_set_takeD)
  have ts: "take cnt (candidates fs) = map (\<lambda>f. the (candidate f)) ?gs"
    by (simp add: candidates_keepable take_map)
  have ok: "list_all span_ok (take cnt (candidates fs))"
    using candidates_ok [of fs] by (auto simp: list_all_iff dest: in_set_takeD)
  have len: "length (take cnt (candidates fs)) = cnt" "length ?gs = cnt" using cl arg_cong [OF candidates_keepable [of fs], of length] by simp_all
  have match: "filter (\<lambda>f. filter_key_match b (the (fkey f))) ?gs = ?kept"
    "filter (\<lambda>f. \<not> filter_key_match b (the (fkey f))) ?gs = filter (\<lambda>f. \<not> ?P f) ?gs"
    using gsK filter_key_match_iff [OF b(1)] b(2) by (auto intro!: filter_cong)
  from filter_walks [OF ok, of 0 "[]" wire "replicate z (CHR 0x00)" "filter_key_match b"] w len
  have walk: "filter_copy (filter_key_match b) wire cnt 0 = ?region"
    "filter_measure (filter_key_match b) wire cnt 0 = (length ?region, length (filter (\<lambda>f. \<not> ?P f) ?gs))"
    unfolding ts using gsK match by (simp_all add: filter_candidates [of ?gs "filter_key_match b"] filter_candidates [of ?gs "\<lambda>k. \<not> filter_key_match b k"])
  have ne: "wire \<noteq> []" using w len(1) ser(2) by (cases "take cnt (candidates fs)") (auto simp: enc_def encode_span_def numeral_2_eq_2 split: prod.splits)
  have act: "ob_filter_count b \<noteq> 0" using b(2,3) by (auto simp: filter_keys_def)
  have sum: "length (filter (\<lambda>f. \<not> ?P f) ?gs) + length ?kept = cnt"
    using sum_length_filter_compl [of ?P ?gs] len(2) by simp
  then have le: "length (filter (\<lambda>f. \<not> ?P f) ?gs) \<le> cnt" by simp
  show ?thesis
  proof (rule filter_apply_cases [OF view(1) ne view(2) ser(2) c16 act walk(2,1) le, of scratch grow HPULOGC_MAX_FIELDS])
    show "\<exists>d. grow scratch n = Some d \<and> length d = n" for n by (rule mem)
  next
    assume "length (filter (\<lambda>f. \<not> ?P f) ?gs) = 0"
      "fr_view (hpu_output_filter_apply grow b view HPULOGC_MAX_FIELDS scratch) = view"
      "fr_removed (hpu_output_filter_apply grow b view HPULOGC_MAX_FIELDS scratch) = 0"
    then show ?thesis using sum by (simp add: Let_def)
  next
    fix region
    assume removed: "length (filter (\<lambda>f. \<not> ?P f) ?gs) \<noteq> 0"
    assume rb: "fr_removed (hpu_output_filter_apply grow b view HPULOGC_MAX_FIELDS scratch) = length (filter (\<lambda>f. \<not> ?P f) ?gs)"
      "region = ?region @ replicate (pad_count (length ?region)) (CHR 0x00)"
      "obytes (ev_wire (fr_view (hpu_output_filter_apply grow b view HPULOGC_MAX_FIELDS scratch))) = region"
      "ev_fields (fr_view (hpu_output_filter_apply grow b view HPULOGC_MAX_FIELDS scratch))
        = hpu_fields_unpack region (cnt - length (filter (\<lambda>f. \<not> ?P f) ?gs)) HPULOGC_MAX_FIELDS"
      "ev_field_count (fr_view (hpu_output_filter_apply grow b view HPULOGC_MAX_FIELDS scratch))
        = length (ev_fields (fr_view (hpu_output_filter_apply grow b view HPULOGC_MAX_FIELDS scratch))) mod 2 ^ 16"
    have n: "cnt - length (filter (\<lambda>f. \<not> ?P f) ?gs) = length ?kept" using sum by simp
    have k16: "length ?kept \<le> HPULOGC_MAX_FIELDS" using sum c16 by (simp add: HPULOGC_MAX_FIELDS_def)
    have "list_all2 (field_matches region) ?kept (unpack_loop region (length ?kept) HPULOGC_MAX_FIELDS 0)"
      by (rule unpack_keepables [OF _ k16 rb(2)]) (use gsK in auto)
    moreover have "?kept = []" if "region = []"
    proof (rule ccontr)
      assume "?kept \<noteq> []"
      then obtain g gs' where "?kept = g # gs'" by (cases ?kept) auto
      then have "length ?region \<ge> 6" by (cases "the (candidate g)") (simp add: length_enc)
      then have "?region \<noteq> []" by (metis list.size(3) not_numeral_le_zero)
      then show False using that rb(2) by (metis append_is_Nil_conv)
    qed
    ultimately have m: "list_all2 (field_matches region) ?kept (ev_fields (fr_view (hpu_output_filter_apply grow b view HPULOGC_MAX_FIELDS scratch)))"
      unfolding rb(4) n by (auto simp: hpu_fields_unpack_def)
    then have l: "length (ev_fields (fr_view (hpu_output_filter_apply grow b view HPULOGC_MAX_FIELDS scratch))) = length ?kept"
      by (simp only: list_all2_lengthD)
    have s16: "length ?kept mod 2 ^ 16 = length ?kept" using k16 by (simp add: HPULOGC_MAX_FIELDS_def)
    have img: "concat (map (\<lambda>f. enc (the (candidate f))) ?kept) = ?region" by (simp add: comp_def)
    have sum': "fr_removed (hpu_output_filter_apply grow b view HPULOGC_MAX_FIELDS scratch) + length ?kept = cnt"
      using sum rb(1) by simp
    have "filter (\<lambda>f. \<not> ?P f) ?gs \<noteq> []" using removed by (metis length_0_conv)
    then have nz: "fr_removed (hpu_output_filter_apply grow b view HPULOGC_MAX_FIELDS scratch) \<noteq> 0" using rb(1) by (metis length_0_conv)
    have ex: "\<exists>z < 8. obytes (ev_wire (fr_view (hpu_output_filter_apply grow b view HPULOGC_MAX_FIELDS scratch)))
        = ?region @ replicate z (CHR 0x00)"
      using rb(2,3) pad_count_less [of "length ?region"] by (intro exI [of _ "pad_count (length ?region)"]) (simp only: simp_thms)
    have n: "ev_field_count (fr_view (hpu_output_filter_apply grow b view HPULOGC_MAX_FIELDS scratch)) = length ?kept"
      by (simp only: rb(5) l s16)
    show ?thesis
      unfolding Let_def img rb(3) [symmetric]
      using sum' nz ex m [folded rb(3)] n by (intro conjI impI; (assumption | simp only: simp_thms))
  qed
qed

theorem filter_keeps_listed_witness:
  "\<forall>(b0 :: nat output_base) ev. let b = b0\<lparr>ob_filter_pool := ''k'', ob_filter_off := [0], ob_filter_len := [1], ob_filter_count := 1\<rparr>;
       fs = [\<lparr>fkey = Some ''k'', fvalue = FStr (Some ''ab'')\<rparr>, \<lparr>fkey = Some ''z'', fvalue = FStr (Some ''c'')\<rparr>];
       wire = encode_span ''k'' 4 ''ab'' @ encode_span ''z'' 4 ''c'' @ replicate 7 (CHR 0x00);
       r = hpu_output_filter_apply (\<lambda>s n. Some (replicate n (CHR 0x00))) b
             (ev\<lparr>ev_wire := Some wire, ev_field_count := 2\<rparr>) HPULOGC_MAX_FIELDS []
   in fr_removed r = 1 \<and> ev_field_count (fr_view r) = 1
      \<and> list_all2 (field_matches (obytes (ev_wire (fr_view r)))) [hd fs] (ev_fields (fr_view r))"
proof (intro allI)
  fix b0 :: "nat output_base" and ev
  let ?fs = "[\<lparr>fkey = Some ''k'', fvalue = FStr (Some ''ab'')\<rparr>, \<lparr>fkey = Some ''z'', fvalue = FStr (Some ''c'')\<rparr>]"
  let ?wire = "encode_span ''k'' 4 ''ab'' @ encode_span ''z'' 4 ''c'' @ replicate 7 (CHR 0x00)"
  let ?b = "b0\<lparr>ob_filter_pool := ''k'', ob_filter_off := [0], ob_filter_len := [1], ob_filter_count := 1\<rparr>"
  have ser: "hpu_fields_serialize ?fs 100 True 64 = Inr (?wire, 2, 0)"
    by (simp add: hpu_fields_serialize_def serialize_loop_def serialize_step_def field_limits
        field_tags pad_region_eq pad_count_def)
  have wf: "filter_wf ?b" and ks: "filter_keys ?b = [''k'']"
    by (simp_all add: filter_wf_def filter_keys_def bslice_def)
  have kept: "filter (\<lambda>f. the (fkey f) \<in> set [''k'']) (take 2 (keepable ?fs)) = [hd ?fs]"
    by (simp add: keepable_def candidate_def field_limits field_tags)
  have "(0::nat) < 2" by simp
  show "let b = ?b; fs = ?fs; wire = ?wire;
       r = hpu_output_filter_apply (\<lambda>s n. Some (replicate n (CHR 0x00))) b
             (ev\<lparr>ev_wire := Some wire, ev_field_count := 2\<rparr>) HPULOGC_MAX_FIELDS []
   in fr_removed r = 1 \<and> ev_field_count (fr_view r) = 1
      \<and> list_all2 (field_matches (obytes (ev_wire (fr_view r)))) [hd fs] (ev_fields (fr_view r))"
    using filter_keeps_listed [OF ser \<open>0 < 2\<close> _ _ wf ks, of "ev\<lparr>ev_wire := Some ?wire, ev_field_count := 2\<rparr>"
        "\<lambda>s n. Some (replicate n (CHR 0x00))" "[]"]
    unfolding kept Let_def by simp
qed

text \<open>
  The scratch buffer is sized to the kept spans, but the region is padded in it: with a fresh buffer
  the padding is written past its end.
\<close>

lemma filter_overruns_scratch:
  assumes "ev_wire view = Some wire" "wire \<noteq> []" "ev_field_count view = cnt" "0 < cnt" "cnt \<le> 16"
    and "ob_filter_count b \<noteq> 0"
    and "filter_measure (filter_key_match b) wire cnt 0 = (length kept, removed)"
    and "filter_copy (filter_key_match b) wire cnt 0 = kept" and "removed \<le> cnt" "removed \<noteq> 0"
    and mem: "\<And>n. length scratch < n \<Longrightarrow> \<exists>d. grow scratch n = Some d \<and> length d = n"
    and "length scratch \<le> length kept"
  shows "fr_overrun (hpu_output_filter_apply grow b view out_max scratch) = pad_count (length kept)"
proof (rule filter_apply_cases [OF assms(1-9), of scratch grow out_max])
  show "\<exists>d. grow scratch n = Some d \<and> length d = n" if "length scratch < n" for n using mem that by blast
qed (use assms(10,12) in auto)

end
