(* ===== verification/SinkQueue.thy ===== *)
theory SinkQueue
  imports SinkFilter
begin

text \<open>
  The second-level delivery queue of an asynchronous sink (\<^verbatim>\<open>src/output/sink_queue.c\<close>): the
  packed record, the push that never blocks, and the worker that sweeps the pending bytes, decodes
  them in batches and emits them. The push and the sweep run under the queue's mutex; the worker
  decodes and emits its private copy outside it.
\<close>

section \<open>The packed record\<close>

definition SQ_HDR :: nat where "SQ_HDR = 56"

definition ev_payload :: "hpulogc_event \<Rightarrow> byte list" where
  "ev_payload ev = ev_line ev @ ev_msg ev @ obytes (ev_category ev) @ obytes (ev_file ev) @ obytes (ev_func ev)
     @ obytes (ev_wire ev)"

definition sq_packed_size :: "hpulogc_event \<Rightarrow> nat" where
  "sq_packed_size ev = SQ_HDR + length (ev_payload ev)"

text \<open>A signed 64-bit value as it lies in memory, and back.\<close>

definition i64_enc :: "int \<Rightarrow> byte list" where
  "i64_enc i = le_enc 8 (nat (i mod 2 ^ 64))"

definition i64_dec :: "byte list \<Rightarrow> int" where
  "i64_dec bs = (let n = int (le_dec bs) in if n < 2 ^ 63 then n else n - 2 ^ 64)"

text \<open>The header: the 16-bit fields keep the low two bytes of their value.\<close>

definition sq_header :: "hpulogc_event \<Rightarrow> byte list" where
  "sq_header ev =
     le_enc 4 (sq_packed_size ev) @ [char_of (nat (ev_level ev mod 256))] @ replicate 3 (CHR 0x00)
     @ le_enc 2 (length (ev_line ev)) @ le_enc 2 (length (ev_msg ev)) @ le_enc 2 (length (obytes (ev_category ev)))
     @ le_enc 2 (length (obytes (ev_file ev))) @ le_enc 2 (length (obytes (ev_func ev))) @ le_enc 2 (ev_field_count ev)
     @ le_enc 2 (length (obytes (ev_wire ev))) @ le_enc 2 (nat (ev_src_line ev)) @ replicate 8 (CHR 0x00)
     @ i64_enc (ev_realtime_ns ev) @ i64_enc (ev_mono_us ev) @ le_enc 8 (unat (ev_tid ev))"

definition sq_record :: "hpulogc_event \<Rightarrow> byte list" where
  "sq_record ev = sq_header ev @ ev_payload ev"

section \<open>Pushing\<close>

text \<open>
  The zero word before the end of the buffer; \<open>None\<close> when there is no room up to the end. The write
  offset moves by the four bytes of the word, not to the end of the buffer.
\<close>

definition sq_bridge :: "hpu_sink_queue \<Rightarrow> nat \<Rightarrow> hpu_sink_queue option" where
  "sq_bridge q need =
     (let pos = sq_tail q mod sq_cap q; contig = sq_cap q - pos
      in if contig < need + 4 then
           (if sq_cap q - (sq_tail q - sq_head q) < contig then None
            else if contig \<ge> 4
            then Some (q\<lparr>sq_buf := splice_at pos (replicate 4 (CHR 0x00)) (sq_buf q), sq_tail := sq_tail q + 4\<rparr>)
            else Some q)
         else Some q)"

text \<open>The result is 0 for queued, 1 for a full queue and -1 for a stopped one.\<close>

definition hpu_sink_queue_push :: "hpu_sink_queue \<Rightarrow> hpulogc_event \<Rightarrow> hpu_sink_queue \<times> int" where
  "hpu_sink_queue_push q ev =
     (let need = sq_packed_size ev
      in if sq_stop q then (q, -1)
         else case sq_bridge q need of
           None \<Rightarrow> (q, 1)
         | Some q1 \<Rightarrow>
             if sq_cap q1 - (sq_tail q1 - sq_head q1) < need then (q1, 1)
             else if sq_tail q1 mod sq_cap q1 + need > sq_cap q1 then (q1, 1)
             else (q1\<lparr>sq_buf := splice_at (sq_tail q1 mod sq_cap q1) (sq_record ev) (sq_buf q1),
                      sq_tail := sq_tail q1 + need\<rparr>, 0))"

section \<open>Decoding\<close>

text \<open>The record at an offset of the sweep area; \<open>None\<close> is the length 0 of a corrupt record.\<close>

definition sq_decode :: "byte list \<Rightarrow> nat \<Rightarrow> nat \<Rightarrow> (nat \<times> hpulogc_event) option" where
  "sq_decode base cap off =
     (if off + SQ_HDR > cap then None
      else let rec_len = le_dec (bslice off 4 base)
           in if rec_len < SQ_HDR \<or> off + rec_len > cap then None
              else let line_len = rd_u16 base (off + 8); body_len = rd_u16 base (off + 10);
                       cat_len = rd_u16 base (off + 12); flen = rd_u16 base (off + 14);
                       fnlen = rd_u16 base (off + 16); fcount = rd_u16 base (off + 18);
                       fields_len = rd_u16 base (off + 20);
                       p0 = off + SQ_HDR; p1 = p0 + line_len; p2 = p1 + body_len; p3 = p2 + cat_len;
                       p4 = p3 + flen; p5 = p4 + fnlen;
                       lev = le_dec (bslice (off + 4) 1 base);
                       wire = bslice p5 fields_len base;
                       row = hpu_fields_unpack wire fcount HPULOGC_MAX_FIELDS
                   in Some (rec_len,
                        \<lparr>ev_level = (if lev < 128 then int lev else int lev - 256),
                         ev_category = null_if_empty (bslice p2 cat_len base), ev_file = null_if_empty (bslice p3 flen base),
                         ev_func = null_if_empty (bslice p4 fnlen base), ev_src_line = int (rd_u16 base (off + 22)),
                         ev_msg = bslice p1 body_len base, ev_tid = of_nat (le_dec (bslice (off + 48) 8 base)),
                         ev_realtime_ns = i64_dec (bslice (off + 32) 8 base), ev_mono_us = i64_dec (bslice (off + 40) 8 base),
                         ev_line = bslice p0 line_len base, ev_fields = row, ev_field_count = length row,
                         ev_wire = null_if_empty wire\<rparr>))"

section \<open>The worker\<close>

text \<open>
  Under the mutex: copy the pending bytes, in two parts when they wrap, and release their space. The
  flag says whether the worker ends; it then drops what it has just copied.
\<close>

definition sq_worker_take :: "hpu_sink_queue \<Rightarrow> hpu_sink_queue \<times> nat \<times> bool" where
  "sq_worker_take q =
     (let avail = min (sq_tail q - sq_head q) (sq_cap q);
          start = sq_head q mod sq_cap q; first = sq_cap q - start;
          copied = (if start + avail > sq_cap q
                    then bslice start first (sq_buf q) @ bslice 0 (avail - first) (sq_buf q)
                    else bslice start avail (sq_buf q));
          c = sq_ctx q;
          q1 = q\<lparr>sq_head := sq_head q + avail, sq_ctx := c\<lparr>wc_sweep := splice_at 0 copied (wc_sweep c)\<rparr>\<rparr>
      in if sq_stop q1 \<and> sq_tail q1 = sq_head q1 then (q1\<lparr>sq_exited := True\<rparr>, avail, True) else (q1, avail, False))"

text \<open>
  The filter of the instance on a decoded event. The filtered view points into the worker's one
  scratch buffer: the flag marks an event whose region is read there when the batch is emitted.
\<close>

definition sq_filter_event ::
  "(byte list \<Rightarrow> nat \<Rightarrow> byte list option) \<Rightarrow> 'p output_base \<Rightarrow> byte list \<Rightarrow> hpulogc_event
    \<Rightarrow> 'p output_base \<times> byte list \<times> hpulogc_event \<times> bool" where
  "sq_filter_event grow b scratch ev =
     (if ob_filter_count b > 0 \<and> ev_field_count ev > 0 \<and> ev_wire ev \<noteq> None then
        let r = hpu_output_filter_apply grow b ev HPULOGC_MAX_FIELDS scratch
        in (b\<lparr>ob_st_fields := ob_st_fields b + fr_removed r\<rparr>, fr_scratch r, fr_view r, fr_removed r > 0)
      else (b, scratch, ev, False))"

text \<open>What the sink sees of a batch: the marked events read the scratch as it is then.\<close>

definition sq_batch_views :: "byte list \<Rightarrow> (hpulogc_event \<times> bool) list \<Rightarrow> hpulogc_event list" where
  "sq_batch_views scratch batch =
     map (\<lambda>(ev, shared). if shared \<and> ev_wire ev \<noteq> None
          then ev\<lparr>ev_wire := Some (take (length (obytes (ev_wire ev))) scratch)\<rparr> else ev) batch"

text \<open>The inner loop: fill a batch from the offset, with room for \<open>room\<close> more events.\<close>

record 'p sq_collected =
  co_base :: "'p output_base"
  co_scratch :: "byte list"
  co_batch :: "(hpulogc_event \<times> bool) list"
  co_off :: nat

function sq_worker_collect ::
  "(byte list \<Rightarrow> nat \<Rightarrow> byte list option) \<Rightarrow> byte list \<Rightarrow> nat \<Rightarrow> nat \<Rightarrow> nat \<Rightarrow> 'p sq_collected \<Rightarrow> 'p sq_collected" where
  "sq_worker_collect grow sweep cap avail room c =
     (if room = 0 \<or> co_off c + SQ_HDR > avail then c
      else if le_dec (bslice (co_off c) 4 sweep) = 0
      then sq_worker_collect grow sweep cap avail room (c\<lparr>co_off := co_off c + 4\<rparr>)
      else case sq_decode sweep cap (co_off c) of
        None \<Rightarrow> c
      | Some (rec_len, ev) \<Rightarrow>
          (case sq_filter_event grow (co_base c) (co_scratch c) ev of (b1, scratch1, ev1, shared) \<Rightarrow>
             sq_worker_collect grow sweep cap avail (room - 1)
               \<lparr>co_base = b1, co_scratch = scratch1, co_batch = co_batch c @ [(ev1, shared)],
                co_off = co_off c + rec_len\<rparr>))"
  by pat_completeness auto
termination
  by (relation "measures [\<lambda>(grow, sweep, cap, avail, room, c). room,
        \<lambda>(grow, sweep, cap, avail, room, c). avail - co_off c]") (auto simp: SQ_HDR_def)

declare sq_worker_collect.simps [simp del]

text \<open>
  Handing a batch to the sink: \<^verbatim>\<open>emit_batch\<close>, or \<^verbatim>\<open>emit\<close> per event, and the failures
  booked. The log of what was handed over is the last component.
\<close>

fun emit_each :: "('p \<Rightarrow> hpulogc_event \<Rightarrow> 'p \<times> nat) \<Rightarrow> hpulogc_event list \<Rightarrow> 'p output_base \<Rightarrow> 'p output_base" where
  "emit_each f [] b = b"
| "emit_each f (ev # evs) b =
     (case f (ob_priv b) ev of (p, n) \<Rightarrow> emit_each f evs (hpu_sink_account_failed n (b\<lparr>ob_priv := p\<rparr>)))"

definition sq_emit_batch :: "hpulogc_event list \<Rightarrow> 'p output_base \<Rightarrow> 'p output_base" where
  "sq_emit_batch evs b =
     (case so_emit_batch (ob_ops b) of
        Some f \<Rightarrow>
          (case f (ob_priv b) evs of (done_n, p, n) \<Rightarrow>
             let b1 = hpu_sink_account_failed n (b\<lparr>ob_priv := p\<rparr>)
             in if done_n < 0 then hpu_sink_account_failed (length evs) b1
                else if nat done_n < length evs then hpu_sink_account_failed (length evs - nat done_n) b1
                else b1)
      | None \<Rightarrow> (case so_emit (ob_ops b) of Some f \<Rightarrow> emit_each f evs b | None \<Rightarrow> b))"

lemma collect_off:
  "co_off c \<le> co_off (sq_worker_collect grow sweep cap avail room c)
   \<and> length (co_batch c) \<le> length (co_batch (sq_worker_collect grow sweep cap avail room c))
   \<and> (length (co_batch c) < length (co_batch (sq_worker_collect grow sweep cap avail room c))
        \<longrightarrow> co_off c < co_off (sq_worker_collect grow sweep cap avail room c) \<and> co_off c < avail)"
proof (induction grow sweep cap avail room c rule: sq_worker_collect.induct)
  case (1 grow sweep cap avail room c)
  show ?case
  proof (cases "room = 0 \<or> co_off c + SQ_HDR > avail")
    case True
    then show ?thesis by (simp add: sq_worker_collect.simps [of grow sweep cap avail room c])
  next
    case A: False
    then have lt: "co_off c < avail" by (simp add: SQ_HDR_def)
    show ?thesis
    proof (cases "le_dec (bslice (co_off c) 4 sweep) = 0")
      case True
      then have eq: "sq_worker_collect grow sweep cap avail room c
          = sq_worker_collect grow sweep cap avail room (c\<lparr>co_off := co_off c + 4\<rparr>)"
        using A by (subst sq_worker_collect.simps) simp
      show ?thesis using "1.IH"(1) [OF A True] lt unfolding eq by auto
    next
      case B: False
      show ?thesis
      proof (cases "sq_decode sweep cap (co_off c)")
        case None
        then show ?thesis using A B by (simp add: sq_worker_collect.simps [of grow sweep cap avail room c])
      next
        case (Some d)
        obtain rec_len ev where d: "d = (rec_len, ev)" by (cases d)
        obtain b1 scratch1 ev1 shared where f:
          "sq_filter_event grow (co_base c) (co_scratch c) ev = (b1, scratch1, ev1, shared)"
          by (metis prod_cases4)
        have r: "rec_len \<ge> SQ_HDR" using Some d by (auto simp: sq_decode_def Let_def split: if_splits)
        have eq: "sq_worker_collect grow sweep cap avail room c
            = sq_worker_collect grow sweep cap avail (room - 1)
               \<lparr>co_base = b1, co_scratch = scratch1, co_batch = co_batch c @ [(ev1, shared)], co_off = co_off c + rec_len\<rparr>"
          using A B Some d f by (subst sq_worker_collect.simps) simp
        show ?thesis
          using "1.IH"(2) [OF A B Some d [symmetric] f [symmetric] refl refl] r lt unfolding eq by (simp add: SQ_HDR_def)
      qed
    qed
  qed
qed

text \<open>The outer loop over the swept bytes: batch after batch, until one is empty.\<close>

function sq_worker_drain ::
  "(byte list \<Rightarrow> nat \<Rightarrow> byte list option) \<Rightarrow> byte list \<Rightarrow> nat \<Rightarrow> nat \<Rightarrow> nat \<Rightarrow> nat \<Rightarrow> 'p output_base \<times> byte list \<times> hpulogc_event list
    \<Rightarrow> 'p output_base \<times> byte list \<times> hpulogc_event list" where
  "sq_worker_drain grow sweep cap avail batch_max off (b, scratch, seen) =
     (if off + SQ_HDR > avail then (b, scratch, seen)
      else let c = sq_worker_collect grow sweep cap avail batch_max
                     \<lparr>co_base = b, co_scratch = scratch, co_batch = [], co_off = off\<rparr>
           in if co_batch c = [] then (co_base c, co_scratch c, seen)
              else let evs = sq_batch_views (co_scratch c) (co_batch c)
                   in sq_worker_drain grow sweep cap avail batch_max (co_off c)
                        (sq_emit_batch evs (co_base c), co_scratch c, seen @ evs))"
  by pat_completeness auto
termination
proof (relation "measure (\<lambda>(grow, sweep, cap, avail, batch_max, off, s). avail - off)", goal_cases)
  case (2 grow sweep cap avail batch_max off b scratch seen c evs)
  then show ?case
    using collect_off [of "\<lparr>co_base = b, co_scratch = scratch, co_batch = [], co_off = off\<rparr>" grow sweep cap avail batch_max]
    by (cases "co_batch c") (auto simp: SQ_HDR_def)
qed simp

declare sq_worker_drain.simps [simp del]

text \<open>
  One round of the worker: take, drain, and the periodic flush at its cadence. The last component
  says whether the worker goes on.
\<close>

definition sq_worker_round ::
  "(byte list \<Rightarrow> nat \<Rightarrow> byte list option) \<Rightarrow> nat \<Rightarrow> 'p output_base \<times> hpu_sink_queue
    \<Rightarrow> 'p output_base \<times> hpu_sink_queue \<times> hpulogc_event list \<times> bool" where
  "sq_worker_round grow now_ms = (\<lambda>(b, q).
     (case sq_worker_take q of (q1, avail, ended) \<Rightarrow>
        if ended then (b, q1, [], False)
        else case sq_worker_drain grow (wc_sweep (sq_ctx q1)) (sq_cap q1) avail (wc_batch_max (sq_ctx q1)) 0
                    (b, wc_wire (sq_ctx q1), []) of
          (b1, wire1, seen) \<Rightarrow>
            let c = (sq_ctx q1)\<lparr>wc_wire := wire1\<rparr>
            in if now_ms - wc_last_flush_ms c \<ge> wc_flush_interval c
               then (snd (hpu_output_flush b1), q1\<lparr>sq_ctx := c\<lparr>wc_last_flush_ms := now_ms\<rparr>\<rparr>, seen, True)
               else (b1, q1\<lparr>sq_ctx := c\<rparr>, seen, True)))"

section \<open>Creation and stop\<close>

text \<open>\<open>mem\<close> is what \<^verbatim>\<open>malloc\<close> leaves in the buffers; \<open>ok\<close> whether every allocation and the worker succeeded.\<close>

definition hpu_sink_queue_create ::
  "(nat \<Rightarrow> byte) \<Rightarrow> bool \<Rightarrow> nat \<Rightarrow> nat \<Rightarrow> nat \<Rightarrow> nat \<Rightarrow> hpu_sink_queue option" where
  "hpu_sink_queue_create mem ok now_ms capacity flush_interval_ms batch_max =
     (if \<not> ok then None
      else Some \<lparr>sq_buf = map mem [0..<capacity], sq_cap = capacity, sq_head = 0, sq_tail = 0, sq_stop = False,
                 sq_exited = False,
                 sq_ctx = \<lparr>wc_sweep = map mem [0..<capacity],
                           wc_batch_max = (if batch_max > 0 then batch_max else capacity div SQ_HDR + 1),
                           wc_flush_interval = (if flush_interval_ms > 0 then flush_interval_ms else 100),
                           wc_last_flush_ms = now_ms, wc_wire = []\<rparr>\<rparr>)"

definition sq_request_stop :: "hpu_sink_queue \<Rightarrow> hpu_sink_queue" where
  "sq_request_stop q = q\<lparr>sq_stop := True\<rparr>"

end
