(* ===== verification/OutputCore.thy ===== *)
theory OutputCore
  imports SinkQueue ConfState
begin

text \<open>
  The sink type registry, the life cycle of an instance and the dispatch over its vtable
  (\<^verbatim>\<open>src/output/output.c\<close>), with the mapping of a configuration entry to the key/value pairs
  an instance is created from.
\<close>

section \<open>The type registry\<close>

text \<open>The built-in types, in the order they are registered, depend on the build: a parameter.\<close>

record 'p sink_registry =
  sr_types :: "'p sink_ops list"
  sr_ready :: bool
  sr_frozen :: bool

definition hpu_sink_registry_init :: "'p sink_ops list \<Rightarrow> 'p sink_registry \<Rightarrow> 'p sink_registry" where
  "hpu_sink_registry_init builtins r =
     (if sr_ready r then r else r\<lparr>sr_ready := True, sr_types := sr_types r @ builtins\<rparr>)"

definition hpu_sink_registry_freeze :: "'p sink_registry \<Rightarrow> 'p sink_registry" where
  "hpu_sink_registry_freeze r = r\<lparr>sr_frozen := True\<rparr>"

definition hpu_sink_registry_unfreeze :: "'p sink_registry \<Rightarrow> 'p sink_registry" where
  "hpu_sink_registry_unfreeze r = r\<lparr>sr_frozen := False\<rparr>"

definition hpu_sink_registry_find ::
  "'p sink_ops list \<Rightarrow> 'p sink_registry \<Rightarrow> string option \<Rightarrow> 'p sink_ops option \<times> 'p sink_registry" where
  "hpu_sink_registry_find builtins r ty =
     (case ty of None \<Rightarrow> (None, r)
      | Some t \<Rightarrow> let r1 = hpu_sink_registry_init builtins r in (find (\<lambda>o1. so_type o1 = Some t) (sr_types r1), r1))"

definition hpulogc_sink_register ::
  "'p sink_ops list \<Rightarrow> 'p sink_registry \<Rightarrow> 'p sink_ops option \<Rightarrow> int \<times> 'p sink_registry" where
  "hpulogc_sink_register builtins r ops =
     (if sr_frozen r then (HPULOGC_ERR_STATE, r)
      else case ops of None \<Rightarrow> (HPULOGC_ERR_INVALID_ARG, r)
      | Some o1 \<Rightarrow>
          if so_type o1 = None \<or> so_type o1 = Some [] \<or> length (the (so_type o1)) \<ge> HPULOGC_MAX_NAME_LEN
             \<or> so_abi_version o1 \<noteq> HPULOGC_SINK_ABI_VERSION \<or> (so_emit o1 = None \<and> so_emit_batch o1 = None)
          then (HPULOGC_ERR_INVALID_ARG, r)
          else if list_ex (\<lambda>x. x) (take 4 (so_reserved o1)) then (HPULOGC_ERR_INVALID_ARG, r)
          else case hpu_sink_registry_find builtins r (so_type o1) of (hit, r1) \<Rightarrow>
            if hit \<noteq> None \<or> length (sr_types r1) \<ge> HPULOGC_MAX_SINK_TYPES then (HPULOGC_ERR_CONFIG, r1)
            else let r2 = hpu_sink_registry_init builtins r1
                 in (HPULOGC_OK, r2\<lparr>sr_types := sr_types r2 @ [o1]\<rparr>))"

section \<open>Creating an instance\<close>

type_synonym hpu_kv = "string \<times> string option"

definition is_common_key :: "string \<Rightarrow> bool" where
  "is_common_key key \<longleftrightarrow> key = ''enabled'' \<or> key = ''async'' \<or> key = ''queue size'' \<or> key = ''filter keys''"

definition parse_bool_str :: "string option \<Rightarrow> int" where
  "parse_bool_str v =
     (case v of None \<Rightarrow> -1
      | Some s \<Rightarrow> if s \<in> set [''true'', ''TRUE'', ''True'', ''on'', ''1''] then 1
                 else if s \<in> set [''false'', ''FALSE'', ''False'', ''off'', ''0''] then 0 else -1)"

text \<open>One pair of the list; \<open>None\<close> is the jump to \<^verbatim>\<open>config_err\<close>, with the private state reached.\<close>

definition apply_kv :: "'p output_base \<Rightarrow> hpu_kv \<Rightarrow> 'p + 'p output_base" where
  "apply_kv b kv =
     (case kv of (key, val) \<Rightarrow>
        if is_common_key key then
          (if key = ''enabled'' then
             (let en = parse_bool_str val in if en < 0 then Inl (ob_priv b) else Inr (b\<lparr>ob_enabled := (en \<noteq> 0)\<rparr>))
           else if key = ''async'' then
             (let as = parse_bool_str val in if as < 0 then Inl (ob_priv b) else Inr (b\<lparr>ob_async := (as \<noteq> 0)\<rparr>))
           else if key = ''filter keys'' then
             (case parse_filter_keys b val of None \<Rightarrow> Inl (ob_priv b) | Some b1 \<Rightarrow> Inr b1)
           else case val of None \<Rightarrow> Inl (ob_priv b)
             | Some s \<Rightarrow>
                 (case hpu_parse_size_str s of None \<Rightarrow> Inl (ob_priv b)
                  | Some sz \<Rightarrow> if sz < 64 * 1024 \<or> sz > 16 * 1024 * 1024 then Inl (ob_priv b)
                              else Inr (b\<lparr>ob_queue_size := sz\<rparr>)))
        else case so_configure (ob_ops b) of None \<Rightarrow> Inl (ob_priv b)
          | Some f \<Rightarrow> (case f (ob_priv b) key val of (rc, p) \<Rightarrow> if rc \<noteq> 0 then Inl p else Inr (b\<lparr>ob_priv := p\<rparr>)))"

fun apply_kvs :: "hpu_kv list \<Rightarrow> 'p output_base \<Rightarrow> 'p + 'p output_base" where
  "apply_kvs [] b = Inr b"
| "apply_kvs (kv # kvs) b = (case apply_kv b kv of Inl p \<Rightarrow> Inl p | Inr b1 \<Rightarrow> apply_kvs kvs b1)"

definition new_output :: "'p sink_ops \<Rightarrow> string option \<Rightarrow> int \<Rightarrow> bool \<Rightarrow> 'p output_base" where
  "new_output ops name fsync_sev utc =
     \<lparr>ob_ops = ops, ob_priv = so_priv0 ops, ob_name = take (HPULOGC_MAX_NAME_LEN - 1) (case name of None \<Rightarrow> [] | Some n \<Rightarrow> n),
      ob_fsync_sev = fsync_sev, ob_use_utc = utc, ob_enabled = True, ob_async = False, ob_queue_size = 0,
      ob_queue = None, ob_written = 0, ob_dropped = 0, ob_failed = 0, ob_st_fields = 0, ob_bytes = 0,
      ob_filter_pool = [], ob_filter_off = [], ob_filter_len = [], ob_filter_count = 0, ob_filter_wire = []\<rparr>"

definition run_destroy :: "'p sink_ops \<Rightarrow> 'p \<Rightarrow> 'p" where
  "run_destroy ops p = (case so_destroy ops of None \<Rightarrow> p | Some f \<Rightarrow> f p)"

text \<open>
  What \<^verbatim>\<open>hpu_sink_queue_create\<close> is given by the platform: the memory, whether it succeeds and
  the time. The result is the instance, or the error code and the private state left behind.
\<close>

record platform_init =
  pi_mem :: "nat \<Rightarrow> byte"
  pi_ok :: bool
  pi_now_ms :: nat

definition hpu_output_create ::
  "platform_init \<Rightarrow> 'p sink_ops option \<Rightarrow> hpu_kv list \<Rightarrow> string option \<Rightarrow> int \<Rightarrow> bool \<Rightarrow> nat \<Rightarrow> nat
    \<Rightarrow> (int \<times> 'p option) + 'p output_base" where
  "hpu_output_create pl type_ops kvs name fsync_sev utc flush_interval_ms batch_max =
     (case type_ops of None \<Rightarrow> Inl (HPULOGC_ERR_CONFIG, None)
      | Some ops \<Rightarrow>
        (case apply_kvs kvs (new_output ops name fsync_sev utc) of
           Inl p \<Rightarrow> Inl (HPULOGC_ERR_CONFIG, Some (run_destroy ops p))
         | Inr b \<Rightarrow>
           if ob_async b \<and> \<not> so_cap_async ops then Inl (HPULOGC_ERR_CONFIG, Some (ob_priv b))
           else case (case so_init ops of None \<Rightarrow> (0, ob_priv b) | Some f \<Rightarrow> f (ob_priv b)) of (rc1, p1) \<Rightarrow>
             if rc1 \<noteq> 0 then Inl (HPULOGC_ERR_CONFIG, Some p1)
             else case (case so_start ops of None \<Rightarrow> (0, p1) | Some f \<Rightarrow> f p1) of (rc2, p2) \<Rightarrow>
               if rc2 \<noteq> 0 then Inl (HPULOGC_ERR_IO, Some (run_destroy ops p2))
               else let b2 = b\<lparr>ob_priv := p2\<rparr>
                    in if ob_async b2 then
                         (let size = (if ob_queue_size b2 = 0 then 256 * 1024 else ob_queue_size b2); b3 = b2\<lparr>ob_queue_size := size\<rparr>
                          in case hpu_sink_queue_create (pi_mem pl) (pi_ok pl) (pi_now_ms pl) size flush_interval_ms batch_max of
                               None \<Rightarrow> Inl (HPULOGC_ERR_NO_MEM, Some (run_destroy ops p2))
                             | Some q \<Rightarrow> Inr (b3\<lparr>ob_queue := Some q\<rparr>))
                       else Inr b2))"

section \<open>Dispatch\<close>

text \<open>\<open>None\<close> is a call through a NULL pointer: a synchronous delivery to a type without \<^verbatim>\<open>emit\<close>.\<close>

definition hpu_output_deliver ::
  "(byte list \<Rightarrow> nat \<Rightarrow> byte list option) \<Rightarrow> 'p output_base \<Rightarrow> hpulogc_event \<Rightarrow> (int \<times> 'p output_base) option" where
  "hpu_output_deliver grow b ev =
     (if ev_line ev = [] \<or> \<not> ob_enabled b then Some (-1, b)
      else let counted = (\<lambda>b1. b1\<lparr>ob_written := ob_written b1 + 1, ob_bytes := ob_bytes b1 + length (ev_line ev)\<rparr>)
           in case ob_queue b of
             Some q \<Rightarrow>
               (case hpu_sink_queue_push q ev of (q1, rc) \<Rightarrow>
                  let b1 = b\<lparr>ob_queue := Some q1\<rparr>
                  in if rc \<noteq> 0 then Some (-1, b1\<lparr>ob_dropped := ob_dropped b1 + 1\<rparr>) else Some (0, counted b1))
           | None \<Rightarrow>
               let filtered = (ob_filter_count b > 0 \<and> ev_field_count ev > 0 \<and> ev_wire ev \<noteq> None);
                   r = hpu_output_filter_apply grow b ev HPULOGC_MAX_FIELDS (ob_filter_wire b);
                   b1 = (if filtered then b\<lparr>ob_filter_wire := fr_scratch r, ob_st_fields := ob_st_fields b + fr_removed r\<rparr> else b);
                   seen = (if filtered \<and> fr_removed r > 0 then fr_view r else ev)
               in (case so_emit (ob_ops b) of None \<Rightarrow> None
                   | Some f \<Rightarrow> (case f (ob_priv b1) seen of (p, n) \<Rightarrow>
                       Some (0, counted (hpu_sink_account_failed n (b1\<lparr>ob_priv := p\<rparr>))))))"

definition hpu_output_sync :: "'p output_base \<Rightarrow> int \<times> 'p output_base" where
  "hpu_output_sync b =
     (case hpu_output_flush b of (rc, b1) \<Rightarrow>
        if rc \<noteq> 0 then (-1, b1)
        else case so_sync (ob_ops b1) of
          Some f \<Rightarrow> (case f (ob_priv b1) of (rc2, p, n) \<Rightarrow> (rc2, hpu_sink_account_failed n (b1\<lparr>ob_priv := p\<rparr>)))
        | None \<Rightarrow> (0, b1))"

definition hpu_output_periodic :: "nat \<Rightarrow> nat \<Rightarrow> 'p output_base \<Rightarrow> int \<times> 'p output_base" where
  "hpu_output_periodic now_ns interval_ns b =
     (case so_periodic (ob_ops b) of
        Some f \<Rightarrow> (case f (ob_priv b) now_ns interval_ns of (rc, p, n) \<Rightarrow> (rc, hpu_sink_account_failed n (b\<lparr>ob_priv := p\<rparr>)))
      | None \<Rightarrow> (0, b))"

definition hpu_output_lost_total :: "'p output_base \<Rightarrow> nat" where
  "hpu_output_lost_total b = ob_failed b"

record hpulogc_sink_stats =
  ss_written :: nat
  ss_dropped :: nat
  ss_failed :: nat
  ss_fields_dropped :: nat
  ss_bytes_written :: nat

definition hpu_output_get_stats :: "'p output_base \<Rightarrow> hpulogc_sink_stats" where
  "hpu_output_get_stats b =
     \<lparr>ss_written = ob_written b, ss_dropped = ob_dropped b, ss_failed = ob_failed b, ss_fields_dropped = ob_st_fields b,
      ss_bytes_written = ob_bytes b\<rparr>"

text \<open>
  Closing: wait until the queue is drained or the time is up, stop the worker, flush and destroy.
  \<open>rounds\<close> are the times of the worker's rounds during the wait; the round after the stop ends it.
  The result is the private state left.
\<close>

fun worker_rounds :: "(byte list \<Rightarrow> nat \<Rightarrow> byte list option) \<Rightarrow> nat list \<Rightarrow> 'p output_base \<times> hpu_sink_queue
    \<Rightarrow> 'p output_base \<times> hpu_sink_queue" where
  "worker_rounds grow [] s = s"
| "worker_rounds grow (t # ts) s =
     (case sq_worker_round grow t s of (b1, q1, _, go) \<Rightarrow> if go then worker_rounds grow ts (b1, q1) else (b1, q1))"

definition hpu_output_close :: "(byte list \<Rightarrow> nat \<Rightarrow> byte list option) \<Rightarrow> nat list \<Rightarrow> nat \<Rightarrow> 'p output_base \<Rightarrow> 'p" where
  "hpu_output_close grow rounds t_end b =
     (let b1 = (case ob_queue b of None \<Rightarrow> b
                | Some q \<Rightarrow>
                    (case worker_rounds grow rounds (b, q) of (b1, q1) \<Rightarrow>
                       (case sq_worker_round grow t_end (b1, sq_request_stop q1) of (b2, _) \<Rightarrow> b2\<lparr>ob_queue := None\<rparr>)));
          b3 = snd (hpu_output_flush b1)
      in run_destroy (ob_ops b3) (ob_priv b3))"

section \<open>From a configuration entry\<close>

fun oct_digits :: "nat \<Rightarrow> string" where
  "oct_digits n = (if n < 8 then [char_of (48 + n)] else oct_digits (n div 8) @ [char_of (48 + n mod 8)])"

declare oct_digits.simps [simp del]

definition rotate_names :: "string list" where
  "rotate_names = [''none'', ''size'', ''time'', ''both'']"

definition unit_names :: "string list" where
  "unit_names = [''hour'', ''day'', ''week'', ''month'']"

definition flat_file_kvs :: "hpulogc_output \<Rightarrow> hpu_kv list" where
  "flat_file_kvs p =
     [(''path'', Some (case out_path p of None \<Rightarrow> [] | Some s \<Rightarrow> s)),
      (''rotate'', Some (rotate_names ! nat (out_rotate p mod 4)))]
     @ (if out_max_size p > 0 then [(''max size'', Some (dec_digits (out_max_size p)))] else [])
     @ [(''time unit'', Some (unit_names ! nat (out_time_unit p mod 4))),
        (''max files'', Some (dec_int (out_max_files p)))]
     @ (if out_fsync p then [(''fsync'', Some ''true'')] else [])
     @ (if out_symlink_latest p then [(''symlink latest'', Some ''true'')] else [])
     @ (case out_rotate_naming p of None \<Rightarrow> [] | Some n \<Rightarrow> [(''rotate naming'', Some n)])
     @ [(''file perms'', Some (oct_digits (if out_file_mode p \<noteq> 0 then out_file_mode p else 420))),
        (''dir perms'', Some (oct_digits (if out_dir_mode p \<noteq> 0 then out_dir_mode p else 493)))]"

definition flat_console_kvs :: "hpulogc_output \<Rightarrow> hpu_kv list" where
  "flat_console_kvs p =
     [(''stream'', Some (if out_stream p = 1 then ''stderr'' else ''stdout'')),
      (''color'', Some (if out_color p then ''true'' else ''false''))]"

definition common_kvs :: "hpu_conf_output \<Rightarrow> hpu_kv list" where
  "common_kvs def =
     (if \<not> o_enabled def then [(''enabled'', Some ''false'')] else [])
     @ (if o_async def then [(''async'', Some ''on'')] else [])
     @ (if o_queue_size def > 0 then [(''queue size'', Some (dec_digits (o_queue_size def)))] else [])"

definition conf_sink_type :: "hpu_conf_output \<Rightarrow> string" where
  "conf_sink_type def =
     (if o_is_generic def then o_type_name def
      else if out_type (o_pub def) = HPULOGC_OUT_FILE then ''rollingfile'' else ''console'')"

definition conf_kvs :: "hpu_conf_output \<Rightarrow> hpu_kv list" where
  "conf_kvs def =
     (if o_is_generic def then map (\<lambda>(k, v). (k, Some v)) (kv_pairs def)
      else if out_type (o_pub def) = HPULOGC_OUT_FILE then flat_file_kvs (o_pub def)
      else flat_console_kvs (o_pub def))
     @ common_kvs def"

definition hpu_output_open_from_conf ::
  "platform_init \<Rightarrow> (string \<Rightarrow> 'p sink_ops option) \<Rightarrow> hpu_conf_output option \<Rightarrow> int \<Rightarrow> bool \<Rightarrow> nat \<Rightarrow> nat
    \<Rightarrow> (int \<times> 'p option) + 'p output_base" where
  "hpu_output_open_from_conf pl lookup def effective_fsync utc flush_interval_ms batch_max =
     (case def of None \<Rightarrow> Inl (HPULOGC_ERR_INVALID_ARG, None)
      | Some d \<Rightarrow>
          (case hpu_output_create pl (lookup (conf_sink_type d)) (conf_kvs d) (Some (o_name d)) effective_fsync utc
                  flush_interval_ms batch_max of
             Inl (err, p) \<Rightarrow>
               Inl (if err = HPULOGC_ERR_CONFIG \<and> out_type (o_pub d) = HPULOGC_OUT_FILE \<and> \<not> o_is_generic d
                    then HPULOGC_ERR_IO else err, p)
           | Inr b \<Rightarrow> Inr b))"

end
