(* ===== verification/Registry.thy ===== *)
theory Registry
  imports ConfState
begin

text \<open>
  The category registry (\<^verbatim>\<open>src/core/registry.c\<close>) and the routing of
  \<^verbatim>\<open>src/core/pipeline.c\<close>: a table of at most 64 categories, published slot by slot, with a level
  override and a routing cache per category that is keyed by the configuration generation. The laws: the
  table keeps its form and never changes a published slot's name; a cached route is the first matching
  rule of the active configuration.
\<close>

section \<open>State\<close>

definition HPU_REG_MAX :: nat where "HPU_REG_MAX = 64"
definition HPU_REG_NAME_LEN :: nat where "HPU_REG_NAME_LEN = 128"
definition HPU_REG_NO_OVERRIDE :: "8 word" where "HPU_REG_NO_OVERRIDE = 0xFF"

text \<open>The token level is a double, as a rational.\<close>

record hpu_reg_entry =
  re_name :: string
  re_hash :: "32 word"
  re_override :: "8 word"
  re_rules :: "int list"
  re_gen :: "32 word"
  re_tokens :: rat
  re_last_refill :: int

text \<open>The published slots (their number is \<^verbatim>\<open>count\<close>) and the hashes already warned about.\<close>

record hpu_registry =
  rg_entries :: "hpu_reg_entry list"
  rg_warned :: "32 word list"

definition hpu_registry_init :: hpu_registry where
  "hpu_registry_init = \<lparr>rg_entries = [], rg_warned = []\<rparr>"

definition hpu_registry_reset :: "hpu_registry \<Rightarrow> hpu_registry" where
  "hpu_registry_reset r = hpu_registry_init"

section \<open>Selector matching\<close>

definition hpu_pipeline_selector_match :: "string \<Rightarrow> string \<Rightarrow> bool" where
  "hpu_pipeline_selector_match sel cat =
     (let n = length sel
      in if n = 0 then True
         else if n = 1 \<and> sel ! 0 = CHR ''*'' then True
         else if n \<ge> 2 \<and> sel ! (n - 2) = CHR ''.'' \<and> sel ! (n - 1) = CHR ''*'' then
           (let prefix = n - 2
            in if length cat < prefix \<or> take prefix cat \<noteq> take prefix sel then False
               else length cat = prefix \<or> cat ! prefix = CHR ''.'')
         else n = length cat \<and> sel = cat)"

definition cat_match_form :: "string option \<Rightarrow> string" where
  "cat_match_form cat = (case cat of None \<Rightarrow> ''*'' | Some s \<Rightarrow> if s = [] then ''*'' else s)"

section \<open>Registration\<close>

definition fnv1a :: "string \<Rightarrow> 32 word" where
  "fnv1a s = foldl (\<lambda>h c. (xor h (of_nat (of_char c))) * 16777619) 2166136261 s"

text \<open>The index of the slot of a category.\<close>

definition hpu_registry_find :: "hpu_registry \<Rightarrow> string option \<Rightarrow> nat option" where
  "hpu_registry_find r catg =
     (let name = (case catg of None \<Rightarrow> ''*'' | Some s \<Rightarrow> s); i = find_index 0 (\<lambda>e. re_name e = name) (rg_entries r)
      in if i < 0 then None else Some (nat i))"

definition new_entry :: "string \<Rightarrow> hpu_reg_entry" where
  "new_entry name = \<lparr>re_name = name, re_hash = fnv1a name, re_override = HPU_REG_NO_OVERRIDE,
     re_rules = replicate 7 (- 1), re_gen = 0, re_tokens = 0, re_last_refill = 0\<rparr>"

text \<open>
  The critical section of a registration, which looks for the name again: another thread may have
  registered it after the search outside the mutex. The flag says whether the warning is printed.
\<close>

definition registry_register :: "hpu_registry \<Rightarrow> string \<Rightarrow> hpu_registry \<times> nat option \<times> bool" where
  "registry_register r name =
     (case hpu_registry_find r (Some name) of
        Some i \<Rightarrow> (r, Some i, False)
      | None \<Rightarrow>
          let n = length (rg_entries r)
          in if n < HPU_REG_MAX then (r\<lparr>rg_entries := rg_entries r @ [new_entry name]\<rparr>, Some n, False)
             else let hash = fnv1a name
                  in if hash \<notin> set (rg_warned r) \<and> length (rg_warned r) < HPU_REG_MAX
                     then (r\<lparr>rg_warned := rg_warned r @ [hash]\<rparr>, None, True)
                     else (r, None, False))"

definition hpu_registry_lookup :: "hpu_registry \<Rightarrow> string option \<Rightarrow> hpu_registry \<times> nat option \<times> bool" where
  "hpu_registry_lookup r catg =
     (let name = (case catg of None \<Rightarrow> ''*'' | Some s \<Rightarrow> s)
      in case hpu_registry_find r (Some name) of
           Some i \<Rightarrow> (r, Some i, False)
         | None \<Rightarrow> if length name \<ge> HPU_REG_NAME_LEN then (r, None, False) else registry_register r name)"

text \<open>The level is -1 to clear the override; otherwise it is stored as a byte.\<close>

definition hpu_registry_set_override :: "hpu_registry \<Rightarrow> string \<Rightarrow> int \<Rightarrow> hpu_registry \<times> int" where
  "hpu_registry_set_override r catg level =
     (let name = (if catg = [] then ''*'' else catg)
      in case hpu_registry_lookup r (Some name) of
           (r1, None, _) \<Rightarrow> (r1, if length name < HPU_REG_NAME_LEN then HPULOGC_ERR_CONFIG else HPULOGC_ERR_INVALID_ARG)
         | (r1, Some i, _) \<Rightarrow>
             (r1\<lparr>rg_entries := (rg_entries r1)[i := (rg_entries r1 ! i)\<lparr>re_override :=
                   (if level = - 1 then HPU_REG_NO_OVERRIDE else of_int level)\<rparr>]\<rparr>, 0))"

section \<open>Routing\<close>

definition rule_matches :: "hpu_conf_rule \<Rightarrow> int \<Rightarrow> string \<Rightarrow> bool" where
  "rule_matches rule level cat \<longleftrightarrow> hpu_conf_rule_level_match rule level \<and> hpu_pipeline_selector_match (ru_category rule) cat"

definition hpu_registry_refresh_route :: "hpu_conf \<Rightarrow> 32 word \<Rightarrow> hpu_reg_entry \<Rightarrow> hpu_reg_entry" where
  "hpu_registry_refresh_route conf gen slot =
     (if re_gen slot = gen then slot
      else slot\<lparr>re_rules := map (\<lambda>level. if int level > HPULOGC_LEVEL_FATAL then - 1
                                        else find_index 0 (\<lambda>rule. rule_matches rule (int level) (re_name slot)) (c_rules conf)) [0..<7],
                re_gen := gen\<rparr>)"

text \<open>The rule index of a record, -1 when none matches.\<close>

definition route_lookup :: "hpu_registry \<Rightarrow> hpu_conf \<Rightarrow> 32 word \<Rightarrow> int \<Rightarrow> string option \<Rightarrow> int \<times> hpu_registry" where
  "route_lookup r conf gen level cat =
     (let name = cat_match_form cat
      in case hpu_registry_find r (Some name) of
           Some i \<Rightarrow>
             let slot = hpu_registry_refresh_route conf gen (rg_entries r ! i)
             in (re_rules slot ! nat level, r\<lparr>rg_entries := (rg_entries r)[i := slot]\<rparr>)
         | None \<Rightarrow> (find_index 0 (\<lambda>rule. rule_matches rule level name) (c_rules conf), r))"

end
