(* ===== verification/RegistryLaws.thy ===== *)
theory RegistryLaws
  imports Registry
begin

text \<open>
  The laws of the category registry and of routing: the form of the table in every reachable state, what
  a selector matches, and that the per-level cache of a category never changes which rule a record is
  routed by, whatever lookups, overrides, bucket updates and configuration swaps went before.
\<close>

section \<open>Selectors\<close>

text \<open>
  What a selector matches: everything if it is empty or a star; with a trailing dot and star the name
  before it and everything below that name; otherwise the name itself.
\<close>

theorem selector_matches_hierarchy:
  "hpu_pipeline_selector_match sel cat \<longleftrightarrow>
     sel = [] \<or> sel = ''*'' \<or> (\<exists>p. sel = p @ ''.*'' \<and> (cat = p \<or> (\<exists>t. cat = p @ ''.'' @ t))) \<or> sel = cat \<and> (\<nexists>p. sel = p @ ''.*'')"
proof (cases "\<exists>p. sel = p @ ''.*''")
  case True
  then obtain p where p: "sel = p @ ''.*''" by blast
  have n: "length sel = length p + 2" "sel ! length p = CHR ''.''" "sel ! (length p + 1) = CHR ''*''" "take (length p) sel = p"
    by (simp_all add: p nth_append)
  have "hpu_pipeline_selector_match sel cat \<longleftrightarrow>
      \<not> (length cat < length p \<or> take (length p) cat \<noteq> p) \<and> (length cat = length p \<or> cat ! length p = CHR ''.'')"
    unfolding hpu_pipeline_selector_match_def Let_def using n by simp (metis less_irrefl)
  also have "\<dots> \<longleftrightarrow> cat = p \<or> (\<exists>t. cat = p @ ''.'' @ t)"
  proof
    assume h: "\<not> (length cat < length p \<or> take (length p) cat \<noteq> p) \<and> (length cat = length p \<or> cat ! length p = CHR ''.'')"
    then have c: "cat = p @ drop (length p) cat" by (metis append_take_drop_id)
    show "cat = p \<or> (\<exists>t. cat = p @ ''.'' @ t)"
    proof (cases "drop (length p) cat")
      case Nil
      then show ?thesis using c by simp
    next
      case (Cons x t)
      with h c have "x = CHR ''.''" by (metis append.right_neutral length_append nth_append_length list.distinct(1) append_eq_conv_conj drop_all le_refl)
      then show ?thesis using c Cons by auto
    qed
  next
    assume "cat = p \<or> (\<exists>t. cat = p @ ''.'' @ t)"
    then show "\<not> (length cat < length p \<or> take (length p) cat \<noteq> p) \<and> (length cat = length p \<or> cat ! length p = CHR ''.'')"
      by (auto simp: nth_append)
  qed
  finally show ?thesis using p by auto
next
  case False
  have nw: "\<not> (length sel \<ge> 2 \<and> sel ! (length sel - 2) = CHR ''.'' \<and> sel ! (length sel - 1) = CHR ''*'')"
  proof
    assume h: "length sel \<ge> 2 \<and> sel ! (length sel - 2) = CHR ''.'' \<and> sel ! (length sel - 1) = CHR ''*''"
    then have "sel \<noteq> []" by auto
    then obtain s1 b where s1: "sel = s1 @ [b]" by (metis append_butlast_last_id)
    then have "s1 \<noteq> []" using h by auto
    then obtain p a where "s1 = p @ [a]" by (metis append_butlast_last_id)
    with s1 have "sel = p @ [a, b]" by simp
    with h False show False by (auto simp: nth_append)
  qed
  show ?thesis
    unfolding hpu_pipeline_selector_match_def Let_def
    using False nw by (cases sel; cases "tl sel") auto
qed

section \<open>The form of the table\<close>

definition reg_wf :: "hpu_registry \<Rightarrow> bool" where
  "reg_wf r \<longleftrightarrow> distinct (map re_name (rg_entries r)) \<and> length (rg_entries r) \<le> HPU_REG_MAX
     \<and> distinct (rg_warned r) \<and> length (rg_warned r) \<le> HPU_REG_MAX
     \<and> (\<forall>e \<in> set (rg_entries r). length (re_name e) < HPU_REG_NAME_LEN \<and> re_hash e = fnv1a (re_name e) \<and> length (re_rules e) = 7)"

lemma find_cases:
  "hpu_registry_find r (Some name) = None \<and> name \<notin> re_name ` set (rg_entries r)
   \<or> (\<exists>i. hpu_registry_find r (Some name) = Some i \<and> i < length (rg_entries r) \<and> re_name (rg_entries r ! i) = name)"
  using find_index_cases [of 0 "\<lambda>e. re_name e = name" "rg_entries r"]
  by (auto simp: hpu_registry_find_def Let_def)

lemma register_cases:
  assumes "registry_register r name = (r', hit, warn)"
  obtains (found) i where "hit = Some i" "r' = r" "i < length (rg_entries r)" "re_name (rg_entries r ! i) = name"
  | (fresh) "hit = Some (length (rg_entries r))" "r' = r\<lparr>rg_entries := rg_entries r @ [new_entry name]\<rparr>"
      "name \<notin> re_name ` set (rg_entries r)" "length (rg_entries r) < HPU_REG_MAX" "\<not> warn"
  | (full) "hit = None" "rg_entries r' = rg_entries r" "name \<notin> re_name ` set (rg_entries r)" "HPU_REG_MAX \<le> length (rg_entries r)"
      "rg_warned r' = rg_warned r @ (if warn then [fnv1a name] else [])"
      "warn \<longleftrightarrow> fnv1a name \<notin> set (rg_warned r) \<and> length (rg_warned r) < HPU_REG_MAX"
proof (cases "hpu_registry_find r (Some name)")
  case None
  then have n: "name \<notin> re_name ` set (rg_entries r)" using find_cases [of r name] by auto
  show thesis
  proof (cases "length (rg_entries r) < HPU_REG_MAX")
    case True
    then show thesis using assms None n fresh by (auto simp: registry_register_def Let_def)
  next
    case False
    then show thesis using assms None n full by (auto simp: registry_register_def Let_def split: if_splits)
  qed
next
  case (Some i)
  then show thesis using assms found [of i] find_cases [of r name] by (auto simp: registry_register_def)
qed

lemma register_wf:
  assumes wf: "reg_wf r" and short: "length name < HPU_REG_NAME_LEN" and reg: "registry_register r name = (r', hit, warn)"
  shows "reg_wf r'" "\<exists>new. rg_entries r' = rg_entries r @ new"
    "hit = Some i \<Longrightarrow> i < length (rg_entries r') \<and> re_name (rg_entries r' ! i) = name"
    "hit = None \<Longrightarrow> rg_entries r' = rg_entries r \<and> HPU_REG_MAX \<le> length (rg_entries r)"
proof -
  have "reg_wf r' \<and> (\<exists>new. rg_entries r' = rg_entries r @ new)
      \<and> (hit = Some i \<longrightarrow> i < length (rg_entries r') \<and> re_name (rg_entries r' ! i) = name)
      \<and> (hit = None \<longrightarrow> rg_entries r' = rg_entries r \<and> HPU_REG_MAX \<le> length (rg_entries r))"
    using reg
  proof (cases rule: register_cases)
    case found
    then show ?thesis using wf by auto
  next
    case fresh
    then show ?thesis using wf short by (auto simp: reg_wf_def new_entry_def)
  next
    case full
    then show ?thesis using wf by (auto simp: reg_wf_def)
  qed
  then show "reg_wf r'" "\<exists>new. rg_entries r' = rg_entries r @ new"
    "hit = Some i \<Longrightarrow> i < length (rg_entries r') \<and> re_name (rg_entries r' ! i) = name"
    "hit = None \<Longrightarrow> rg_entries r' = rg_entries r \<and> HPU_REG_MAX \<le> length (rg_entries r)" by simp_all
qed

section \<open>The other operations keep it\<close>

lemma lookup_wf:
  assumes wf: "reg_wf r" and look: "hpu_registry_lookup r catg = (r', hit, warn)"
  defines "name \<equiv> (case catg of None \<Rightarrow> ''*'' | Some s \<Rightarrow> s)"
  shows "reg_wf r' \<and> (\<exists>new. rg_entries r' = rg_entries r @ new)
    \<and> (hit = Some i \<longrightarrow> i < length (rg_entries r') \<and> re_name (rg_entries r' ! i) = name)
    \<and> (hit = None \<longrightarrow> rg_entries r' = rg_entries r \<and> name \<notin> re_name ` set (rg_entries r)
         \<and> (HPU_REG_NAME_LEN \<le> length name \<or> HPU_REG_MAX \<le> length (rg_entries r)))"
proof (cases "hpu_registry_find r (Some name)")
  case (Some j)
  then have "r' = r" "hit = Some j" "j < length (rg_entries r)" "re_name (rg_entries r ! j) = name"
    using look find_cases [of r name] by (auto simp: hpu_registry_lookup_def Let_def name_def)
  then show ?thesis using wf by auto
next
  case None
  then have n: "name \<notin> re_name ` set (rg_entries r)" using find_cases [of r name] by auto
  show ?thesis
  proof (cases "length name \<ge> HPU_REG_NAME_LEN")
    case True
    then have "r' = r" "hit = None" using look None by (auto simp: hpu_registry_lookup_def Let_def name_def)
    then show ?thesis using wf True n by simp
  next
    case False
    then have reg: "registry_register r name = (r', hit, warn)"
      using look None by (auto simp: hpu_registry_lookup_def Let_def name_def)
    note w = register_wf [OF wf _ reg]
    show ?thesis using w n False by (auto simp: not_le)
  qed
qed

lemma update_wf:
  assumes "reg_wf r" "i < length (rg_entries r)" "re_name e = re_name (rg_entries r ! i)"
    "re_hash e = re_hash (rg_entries r ! i)" "length (re_rules e) = 7"
  shows "reg_wf (r\<lparr>rg_entries := (rg_entries r)[i := e]\<rparr>)"
proof -
  have "map re_name ((rg_entries r)[i := e]) = map re_name (rg_entries r)"
    using assms(2,3) by (metis list_update_id map_update nth_map)
  moreover have "length (re_name x) < HPU_REG_NAME_LEN \<and> re_hash x = fnv1a (re_name x) \<and> length (re_rules x) = 7"
    if "x \<in> set ((rg_entries r)[i := e])" for x
  proof -
    have "x = e \<or> x \<in> set (rg_entries r)" using that set_update_subset_insert by fastforce
    then show ?thesis
    proof
      assume "x = e"
      then show ?thesis using assms nth_mem [OF assms(2)] unfolding reg_wf_def by auto
    qed (use assms(1) in \<open>auto simp: reg_wf_def\<close>)
  qed
  ultimately show ?thesis using assms(1) by (auto simp: reg_wf_def)
qed

section \<open>The routing state and its steps\<close>

text \<open>
  The registry beside the active configuration and its generation. Steps: a lookup of a producer, an
  override, a bucket update, the routing of a record, and a configuration swap, which bumps the
  generation; its wrap after 2^32 swaps is excluded.
\<close>

record route_state =
  rs_reg :: hpu_registry
  rs_conf :: hpu_conf
  rs_gen :: "32 word"

inductive rs_step :: "route_state \<Rightarrow> route_state \<Rightarrow> bool" where
  rs_lookup: "hpu_registry_lookup (rs_reg s) catg = (r', hit, warn) \<Longrightarrow> rs_step s (s\<lparr>rs_reg := r'\<rparr>)"
| rs_register: "length name < HPU_REG_NAME_LEN \<Longrightarrow> registry_register (rs_reg s) name = (r', hit, warn) \<Longrightarrow>
     rs_step s (s\<lparr>rs_reg := r'\<rparr>)"
| rs_override: "hpu_registry_set_override (rs_reg s) name level = (r', rc) \<Longrightarrow> rs_step s (s\<lparr>rs_reg := r'\<rparr>)"
| rs_bucket: "i < length (rg_entries (rs_reg s)) \<Longrightarrow>
     rs_step s (s\<lparr>rs_reg := (rs_reg s)\<lparr>rg_entries := (rg_entries (rs_reg s))[i :=
        (rg_entries (rs_reg s) ! i)\<lparr>re_tokens := tk, re_last_refill := t\<rparr>]\<rparr>\<rparr>)"
| rs_route: "route_lookup (rs_reg s) (rs_conf s) (rs_gen s) level cat = (idx, r') \<Longrightarrow> rs_step s (s\<lparr>rs_reg := r'\<rparr>)"
| rs_swap: "rs_gen s \<noteq> - 1 \<Longrightarrow> rs_step s (s\<lparr>rs_conf := c, rs_gen := rs_gen s + 1\<rparr>)"

inductive rs_reachable :: "hpu_conf \<Rightarrow> route_state \<Rightarrow> bool" for c0 where
  rs_start: "rs_reachable c0 \<lparr>rs_reg = hpu_registry_init, rs_conf = c0, rs_gen = 1\<rparr>"
| rs_more: "rs_reachable c0 s \<Longrightarrow> rs_step s t \<Longrightarrow> rs_reachable c0 t"

text \<open>The reference: the first rule of the configuration that matches.\<close>

definition first_rule :: "hpu_conf \<Rightarrow> int \<Rightarrow> string \<Rightarrow> int" where
  "first_rule c level name = find_index 0 (\<lambda>rule. rule_matches rule level name) (c_rules c)"

definition route_cache_ok :: "hpu_conf \<Rightarrow> 32 word \<Rightarrow> hpu_reg_entry \<Rightarrow> bool" where
  "route_cache_ok c gen e \<longleftrightarrow> re_gen e \<le> gen
     \<and> (re_gen e = gen \<longrightarrow> (\<forall>level < 6. re_rules e ! level = first_rule c (int level) (re_name e)))"

definition rs_inv :: "route_state \<Rightarrow> bool" where
  "rs_inv s \<longleftrightarrow> reg_wf (rs_reg s) \<and> 0 < rs_gen s \<and> (\<forall>e \<in> set (rg_entries (rs_reg s)). route_cache_ok (rs_conf s) (rs_gen s) e)"

lemma new_entry_ok: "0 < gen \<Longrightarrow> route_cache_ok c gen (new_entry name)"
  by (auto simp: route_cache_ok_def new_entry_def)

lemma appended_ok:
  assumes "\<forall>e \<in> set es. route_cache_ok c gen e" "es' = es \<or> es' = es @ [new_entry name]" "0 < gen"
  shows "\<forall>e \<in> set es'. route_cache_ok c gen e"
  using assms new_entry_ok by auto

lemma register_entries: "registry_register r name = (r', hit, warn) \<Longrightarrow>
    rg_entries r' = rg_entries r \<or> rg_entries r' = rg_entries r @ [new_entry name]"
  by (erule register_cases) auto

lemma lookup_entries: "hpu_registry_lookup r catg = (r', hit, warn) \<Longrightarrow>
    rg_entries r' = rg_entries r \<or> (\<exists>name. rg_entries r' = rg_entries r @ [new_entry name])"
  by (auto simp: hpu_registry_lookup_def Let_def dest!: register_entries split: option.splits if_splits)

lemma update_route_ok:
  assumes "\<forall>e \<in> set es. route_cache_ok c gen e" "i < length es"
    "re_gen e = re_gen (es ! i)" "re_rules e = re_rules (es ! i)" "re_name e = re_name (es ! i)"
  shows "\<forall>x \<in> set (es[i := e]). route_cache_ok c gen x"
proof
  fix x
  assume "x \<in> set (es[i := e])"
  then have "x = e \<or> x \<in> set es" using set_update_subset_insert by fastforce
  moreover have "route_cache_ok c gen (es ! i)" using assms(1,2) by simp
  then have "route_cache_ok c gen e" using assms(3-5) by (simp add: route_cache_ok_def)
  ultimately show "route_cache_ok c gen x" using assms(1) by auto
qed

lemma refresh_props:
  assumes "route_cache_ok c gen e"
  defines "e' \<equiv> hpu_registry_refresh_route c gen e"
  shows "re_name e' = re_name e" "re_hash e' = re_hash e" "re_gen e' = gen" "route_cache_ok c gen e'"
    "length (re_rules e) = 7 \<Longrightarrow> length (re_rules e') = 7"
proof -
  show n: "re_name e' = re_name e" "re_hash e' = re_hash e" and g: "re_gen e' = gen"
    by (simp_all add: e'_def hpu_registry_refresh_route_def)
  show "length (re_rules e) = 7 \<Longrightarrow> length (re_rules e') = 7"
    by (simp add: e'_def hpu_registry_refresh_route_def)
  show "route_cache_ok c gen e'"
  proof (cases "re_gen e = gen")
    case True
    then show ?thesis using assms by (simp add: hpu_registry_refresh_route_def)
  next
    case False
    have "re_rules e' ! level = first_rule c (int level) (re_name e)" if "level < 6" for level
      using False that by (simp add: e'_def hpu_registry_refresh_route_def first_rule_def del: upt.simps)
    then show ?thesis using n g by (simp add: route_cache_ok_def)
  qed
qed

lemma route_result:
  assumes inv: "rs_inv s" and level: "0 \<le> level" "level < 6"
    and look: "route_lookup (rs_reg s) (rs_conf s) (rs_gen s) level cat = (idx, r')"
  shows "idx = first_rule (rs_conf s) level (cat_match_form cat)"
proof (cases "hpu_registry_find (rs_reg s) (Some (cat_match_form cat))")
  case None
  then show ?thesis using look by (simp add: route_lookup_def Let_def first_rule_def)
next
  case (Some i)
  let ?e = "rg_entries (rs_reg s) ! i"
  have i: "i < length (rg_entries (rs_reg s))" "re_name ?e = cat_match_form cat"
    using find_cases [of "rs_reg s" "cat_match_form cat"] Some by auto
  have "route_cache_ok (rs_conf s) (rs_gen s) ?e" using inv i(1) by (simp add: rs_inv_def)
  note p = refresh_props [OF this]
  have "re_rules (hpu_registry_refresh_route (rs_conf s) (rs_gen s) ?e) ! nat level = first_rule (rs_conf s) level (re_name ?e)"
    using p(1,3,4) level unfolding route_cache_ok_def by (metis int_nat_eq nat_less_iff of_nat_numeral)
  then show ?thesis using look Some i(2) by (simp add: route_lookup_def Let_def)
qed

lemma route_keeps:
  assumes inv: "rs_inv s" and look: "route_lookup (rs_reg s) (rs_conf s) (rs_gen s) level cat = (idx, r')"
  shows "rs_inv (s\<lparr>rs_reg := r'\<rparr>)"
proof (cases "hpu_registry_find (rs_reg s) (Some (cat_match_form cat))")
  case None
  then have "r' = rs_reg s" using look by (simp add: route_lookup_def Let_def)
  then show ?thesis using inv by (cases s) simp
next
  case (Some i)
  let ?es = "rg_entries (rs_reg s)"
  let ?e = "hpu_registry_refresh_route (rs_conf s) (rs_gen s) (?es ! i)"
  have i: "i < length ?es" using find_cases [of "rs_reg s" "cat_match_form cat"] Some by auto
  then have m: "?es ! i \<in> set ?es" by simp
  then have ok: "route_cache_ok (rs_conf s) (rs_gen s) (?es ! i)" using inv by (simp add: rs_inv_def)
  note p = refresh_props [OF ok]
  have r': "r' = (rs_reg s)\<lparr>rg_entries := ?es[i := ?e]\<rparr>" using look Some by (simp add: route_lookup_def Let_def)
  have "reg_wf r'" unfolding r'
    by (rule update_wf [OF _ i p(1,2)]) (use inv m p(5) in \<open>auto simp: rs_inv_def reg_wf_def\<close>)
  moreover have "route_cache_ok (rs_conf s) (rs_gen s) x" if "x \<in> set (?es[i := ?e])" for x
  proof -
    have "x = ?e \<or> x \<in> set ?es" using that set_update_subset_insert by fastforce
    then show ?thesis using p(4) inv by (auto simp: rs_inv_def)
  qed
  ultimately show ?thesis using inv unfolding rs_inv_def r' by simp
qed

lemma override_shape:
  assumes "hpu_registry_set_override r name level = (r', rc)"
  obtains r1 hit warn where "hpu_registry_lookup r (Some (if name = [] then ''*'' else name)) = (r1, hit, warn)"
    "hit = None \<Longrightarrow> r' = r1"
    "\<And>i. hit = Some i \<Longrightarrow> \<exists>v. r' = r1\<lparr>rg_entries := (rg_entries r1)[i := (rg_entries r1 ! i)\<lparr>re_override := v\<rparr>]\<rparr>"
proof -
  obtain r1 hit warn where l: "hpu_registry_lookup r (Some (if name = [] then ''*'' else name)) = (r1, hit, warn)"
    by (metis prod_cases3)
  show thesis using assms l by (intro that [OF l]) (auto simp: hpu_registry_set_override_def Let_def)
qed

lemma lookup_keeps:
  assumes "rs_inv s" "hpu_registry_lookup (rs_reg s) catg = (r', hit, warn)"
  shows "rs_inv (s\<lparr>rs_reg := r'\<rparr>)"
proof -
  have "\<forall>e \<in> set (rg_entries r'). route_cache_ok (rs_conf s) (rs_gen s) e"
    using lookup_entries [OF assms(2)] appended_ok assms(1) unfolding rs_inv_def by blast
  then show ?thesis using lookup_wf [OF _ assms(2)] assms(1) by (simp add: rs_inv_def)
qed

lemma step_keeps: "rs_step s t \<Longrightarrow> rs_inv s \<Longrightarrow> rs_inv t"
proof (induction rule: rs_step.induct)
  case (rs_lookup s catg r' hit warn)
  then show ?case by (rule lookup_keeps [rotated])
next
  case (rs_register name s r' hit warn)
  have "\<forall>e \<in> set (rg_entries r'). route_cache_ok (rs_conf s) (rs_gen s) e"
    using register_entries [OF rs_register(2)] appended_ok rs_register(3) unfolding rs_inv_def by blast
  then show ?case using register_wf(1) [OF _ rs_register(1,2)] rs_register(3) by (simp add: rs_inv_def)
next
  case (rs_override s name level r' rc)
  obtain r1 hit warn where o1: "hpu_registry_lookup (rs_reg s) (Some (if name = [] then ''*'' else name)) = (r1, hit, warn)"
    "hit = None \<Longrightarrow> r' = r1"
    "\<And>i. hit = Some i \<Longrightarrow> \<exists>v. r' = r1\<lparr>rg_entries := (rg_entries r1)[i := (rg_entries r1 ! i)\<lparr>re_override := v\<rparr>]\<rparr>"
    using override_shape [OF rs_override(1)] by metis
  have inv1: "rs_inv (s\<lparr>rs_reg := r1\<rparr>)" by (rule lookup_keeps [OF rs_override(2) o1(1)])
  show ?case
  proof (cases hit)
    case None
    then show ?thesis using o1(2) inv1 by simp
  next
    case (Some i)
    then obtain v where r': "r' = r1\<lparr>rg_entries := (rg_entries r1)[i := (rg_entries r1 ! i)\<lparr>re_override := v\<rparr>]\<rparr>"
      using o1(3) by blast
    have "reg_wf (rs_reg s)" using rs_override(2) by (simp add: rs_inv_def)
    then have i: "i < length (rg_entries r1)" using lookup_wf [OF _ o1(1), of i] Some by simp
    have w1: "reg_wf r1" and c1: "\<forall>e \<in> set (rg_entries r1). route_cache_ok (rs_conf s) (rs_gen s) e"
      using inv1 by (simp_all add: rs_inv_def)
    have "length (re_rules (rg_entries r1 ! i)) = 7" using w1 i by (simp add: reg_wf_def)
    then show ?thesis
      using update_wf [OF w1 i, of "(rg_entries r1 ! i)\<lparr>re_override := v\<rparr>"]
        update_route_ok [OF c1 i, of "(rg_entries r1 ! i)\<lparr>re_override := v\<rparr>"] inv1
      unfolding rs_inv_def r' by simp
  qed
next
  case (rs_bucket i s t tk)
  let ?es = "rg_entries (rs_reg s)"
  let ?e = "(?es ! i)\<lparr>re_tokens := tk, re_last_refill := t\<rparr>"
  have w: "reg_wf (rs_reg s)" and c: "\<forall>e \<in> set ?es. route_cache_ok (rs_conf s) (rs_gen s) e" "0 < rs_gen s"
    using rs_bucket(2) by (simp_all add: rs_inv_def)
  have "length (re_rules (?es ! i)) = 7" using w rs_bucket(1) by (simp add: reg_wf_def)
  then have "reg_wf ((rs_reg s)\<lparr>rg_entries := ?es[i := ?e]\<rparr>)" by (intro update_wf [OF w rs_bucket(1)]) simp_all
  moreover have "\<forall>x \<in> set (?es[i := ?e]). route_cache_ok (rs_conf s) (rs_gen s) x"
    by (rule update_route_ok [OF c(1) rs_bucket(1)]) simp_all
  ultimately show ?case using c(2) by (simp add: rs_inv_def)
next
  case (rs_route s level cat idx r')
  then show ?case by (rule route_keeps [rotated])
next
  case (rs_swap s c)
  have ne: "1 + rs_gen s \<noteq> 0" using rs_swap(1) by (metis add.commute add_eq_0_iff)
  have lt: "rs_gen s < rs_gen s + 1"
    using unatSuc [OF ne] by (simp add: word_less_nat_alt add.commute)
  have "route_cache_ok c (rs_gen s + 1) e" if "e \<in> set (rg_entries (rs_reg s))" for e
  proof -
    have "re_gen e \<le> rs_gen s" using that rs_swap(2) by (simp add: rs_inv_def route_cache_ok_def)
    then show ?thesis using lt by (auto simp: route_cache_ok_def)
  qed
  then show ?case using rs_swap(2) lt by (auto simp: rs_inv_def)
qed

lemma reachable_inv: "rs_reachable c0 s \<Longrightarrow> rs_inv s"
proof (induction rule: rs_reachable.induct)
  case rs_start
  then show ?case by (simp add: rs_inv_def reg_wf_def hpu_registry_init_def)
next
  case (rs_more s t)
  then show ?case using step_keeps by blast
qed

section \<open>Properties\<close>

text \<open>
  C5. The routing cache is transparent. In every state reachable by producer lookups, overrides, bucket
  updates, routings and configuration swaps, a record of a valid level is routed by the first rule of
  the active configuration whose levels and selector match it, or by none.
\<close>

theorem cached_route_first_match:
  assumes "rs_reachable c0 s" "0 \<le> level" "level \<le> 5"
  shows "fst (route_lookup (rs_reg s) (rs_conf s) (rs_gen s) level cat)
     = find_index 0 (\<lambda>rule. hpu_conf_rule_level_match rule level
         \<and> hpu_pipeline_selector_match (ru_category rule) (cat_match_form cat)) (c_rules (rs_conf s))"
proof -
  obtain idx r' where l: "route_lookup (rs_reg s) (rs_conf s) (rs_gen s) level cat = (idx, r')"
    by (cases "route_lookup (rs_reg s) (rs_conf s) (rs_gen s) level cat")
  from route_result [OF reachable_inv [OF assms(1)] assms(2) _ l] assms(3)
  show ?thesis unfolding l by (simp add: first_rule_def rule_matches_def)
qed

theorem cached_route_first_match_witness:
  "\<forall>c. let c1 = c\<lparr>c_rules := [\<lparr>ru_category = ''net.*'', ru_min = 3, ru_max = 5, ru_negate = False, ru_format = ''f'', ru_outputs = []\<rparr>]\<rparr>;
        r1 = fst (hpu_registry_lookup hpu_registry_init (Some ''net.http''))
    in fst (route_lookup r1 c1 1 4 (Some ''net.http'')) = 0"
proof
  fix c :: hpu_conf
  let ?c1 = "c\<lparr>c_rules := [\<lparr>ru_category = ''net.*'', ru_min = 3, ru_max = 5, ru_negate = False, ru_format = ''f'', ru_outputs = []\<rparr>]\<rparr>"
  let ?s0 = "\<lparr>rs_reg = hpu_registry_init, rs_conf = ?c1, rs_gen = 1\<rparr>"
  obtain r1 hit warn where l: "hpu_registry_lookup (rs_reg ?s0) (Some ''net.http'') = (r1, hit, warn)" by (metis prod_cases3)
  have "rs_reachable ?c1 (?s0\<lparr>rs_reg := r1\<rparr>)"
    by (rule rs_reachable.rs_more [OF rs_reachable.rs_start rs_step.rs_lookup [OF l]])
  from cached_route_first_match [OF this, of 4 "Some ''net.http''"] l
  show "let c1 = ?c1; r1 = fst (hpu_registry_lookup hpu_registry_init (Some ''net.http''))
    in fst (route_lookup r1 c1 1 4 (Some ''net.http'')) = 0"
    by (simp add: Let_def hpu_conf_rule_level_match_def cat_match_form_def hpu_pipeline_selector_match_def)
qed

text \<open>
  Registration. In every reachable state the table holds at most 64 distinct names, each shorter
  than the slot; a lookup answers a slot that bears the name, never changes a published slot, and fails
  only for a name that is too long or when the table is full; so racing registrations cannot create a
  second slot for a name.
\<close>

theorem registry_keeps_form:
  assumes "rs_reachable c0 s" "hpu_registry_lookup (rs_reg s) (Some name) = (r', hit, warn)"
  shows "distinct (map re_name (rg_entries r')) \<and> length (rg_entries r') \<le> 64
    \<and> (\<exists>new. rg_entries r' = rg_entries (rs_reg s) @ new)
    \<and> (case hit of
         Some i \<Rightarrow> i < length (rg_entries r') \<and> re_name (rg_entries r' ! i) = name
       | None \<Rightarrow> name \<notin> re_name ` set (rg_entries r') \<and> (128 \<le> length name \<or> length (rg_entries r') = 64))"
proof -
  have wf: "reg_wf (rs_reg s)" using reachable_inv [OF assms(1)] by (simp add: rs_inv_def)
  have l: "reg_wf r' \<and> (\<exists>new. rg_entries r' = rg_entries (rs_reg s) @ new)
    \<and> (hit = Some i \<longrightarrow> i < length (rg_entries r') \<and> re_name (rg_entries r' ! i) = name)
    \<and> (hit = None \<longrightarrow> rg_entries r' = rg_entries (rs_reg s) \<and> name \<notin> re_name ` set (rg_entries (rs_reg s))
         \<and> (HPU_REG_NAME_LEN \<le> length name \<or> HPU_REG_MAX \<le> length (rg_entries (rs_reg s))))" for i
    using lookup_wf [OF wf assms(2), of i] by simp
  then have "distinct (map re_name (rg_entries r'))" "length (rg_entries r') \<le> 64"
    by (simp_all add: reg_wf_def HPU_REG_MAX_def)
  then show ?thesis
    using l by (cases hit) (auto simp: HPU_REG_NAME_LEN_def HPU_REG_MAX_def)
qed

theorem registry_keeps_form_witness:
  "\<forall>c. \<exists>r' warn. hpu_registry_lookup hpu_registry_init (Some ''db'') = (r', Some 0, warn)
     \<and> map re_name (rg_entries r') = [''db'']"
proof
  fix c :: hpu_conf
  let ?s0 = "\<lparr>rs_reg = hpu_registry_init, rs_conf = c, rs_gen = 1\<rparr>"
  have l: "hpu_registry_lookup (rs_reg ?s0) (Some ''db'') = (hpu_registry_init\<lparr>rg_entries := [new_entry ''db'']\<rparr>, Some 0, False)"
    by (simp add: hpu_registry_lookup_def registry_register_def hpu_registry_find_def hpu_registry_init_def HPU_REG_NAME_LEN_def
        HPU_REG_MAX_def)
  from registry_keeps_form [OF rs_reachable.rs_start l]
  show "\<exists>r' warn. hpu_registry_lookup hpu_registry_init (Some ''db'') = (r', Some 0, warn) \<and> map re_name (rg_entries r') = [''db'']"
    using l by (auto simp: hpu_registry_init_def)
qed

end
