(* ===== verification/Throttle.thy ===== *)
theory Throttle
  imports RegistryLaws
begin

text \<open>
  The throttle of \<^verbatim>\<open>src/core/pipeline.c\<close>: token buckets and deterministic sampling. The
  arithmetic on doubles is rational arithmetic with a rounding function after every operation; what the
  laws need of it holds for rounding to nearest with 53 bits (\<open>rounds_double\<close>). Shown: the level of
  a bucket stays between zero and its burst, the number of records a bucket lets pass in a time span is
  bounded by burst and rate, sampling passes one of every N, and the global rate has no effect.
\<close>

section \<open>A token bucket\<close>

text \<open>The level, the time of the last refill and whether a token was taken.\<close>

definition throttle_bucket :: "(rat \<Rightarrow> rat) \<Rightarrow> rat \<Rightarrow> int \<Rightarrow> int \<Rightarrow> int \<Rightarrow> int \<Rightarrow> rat \<times> int \<times> bool" where
  "throttle_bucket fl tokens last_ns now rate burst =
     (if rate \<le> 0 then (tokens, last_ns, True)
      else let (tokens1, last1) =
             (if last_ns = 0 then (fl (of_int burst), now)
              else if now > last_ns then
                (let t = fl (tokens + fl (fl (fl (of_int rate) * fl (of_int (now - last_ns))) / 1000000000))
                 in (if t > fl (of_int burst) then fl (of_int burst) else t, now))
              else (tokens, last_ns))
           in if tokens1 \<ge> 1 then (fl (tokens1 - 1), last1, True) else (tokens1, last1, False))"

section \<open>The throttle\<close>

text \<open>The bucket of the category, which is looked up (and registered) when the caller has no slot.\<close>

definition throttle_category :: "(rat \<Rightarrow> rat) \<Rightarrow> hpu_throttle_cfg \<Rightarrow> nat option \<Rightarrow> string \<Rightarrow> int \<Rightarrow> hpu_registry \<Rightarrow> bool \<times> hpu_registry" where
  "throttle_category fl th slot cat now2 r =
     (if th_per_category_rate th > 0 then
        (let (r1, slot1) = (case slot of Some i \<Rightarrow> (r, Some i)
                            | None \<Rightarrow> (case hpu_registry_lookup r (Some cat) of (r1, s1, _) \<Rightarrow> (r1, s1)))
         in case slot1 of None \<Rightarrow> (True, r1)
           | Some i \<Rightarrow>
               let e = rg_entries r1 ! i
               in case throttle_bucket fl (re_tokens e) (re_last_refill e) now2 (th_per_category_rate th) (th_burst th) of
                    (tk, t, ok) \<Rightarrow> (ok, r1\<lparr>rg_entries := (rg_entries r1)[i := e\<lparr>re_tokens := tk, re_last_refill := t\<rparr>]\<rparr>))
      else (True, r))"

text \<open>
  The clock is read once per bucket: \<open>now1\<close> and \<open>now2\<close>. \<open>seq\<close> is the sampling counter. The
  global bucket works on two local variables, zero at every call.
\<close>

definition throttle_pass ::
  "(rat \<Rightarrow> rat) \<Rightarrow> hpu_conf option \<Rightarrow> nat option \<Rightarrow> string \<Rightarrow> int \<Rightarrow> int \<Rightarrow> hpu_registry \<Rightarrow> 32 word
    \<Rightarrow> bool \<times> hpu_registry \<times> 32 word" where
  "throttle_pass fl conf slot match_cat now1 now2 r seq =
     (case conf of None \<Rightarrow> (True, r, seq)
      | Some c \<Rightarrow>
        let th = c_throttle c;
            global_ok = (if th_global_rate th > 0
                         then (case throttle_bucket fl 0 0 now1 (th_global_rate th) (th_burst th) of (_, _, ok) \<Rightarrow> ok) else True)
        in if \<not> global_ok then (False, r, seq)
           else case throttle_category fl th slot match_cat now2 r of (cat_ok, r2) \<Rightarrow>
             if \<not> cat_ok then (False, r2, seq)
             else if dbl_le (th_sampling_rate th) (Dbl 0) then (False, r2, seq)
             else if th_sampling_n th > 1
             then (seq mod (of_int (th_sampling_n th)) = 0, r2, seq + 1)
             else (True, r2, seq))"

section \<open>Bounds of a bucket\<close>

text \<open>What is used of the rounding of doubles, with \<open>u\<close> the unit roundoff \<open>2^-53\<close>.\<close>

definition rounds_double :: "(rat \<Rightarrow> rat) \<Rightarrow> bool" where
  "rounds_double fl \<longleftrightarrow> mono fl \<and> (\<forall>x. fl (fl x) = fl x)
     \<and> (\<forall>i :: int. \<bar>i\<bar> \<le> 2 ^ 53 \<longrightarrow> fl (of_int i) = of_int i)
     \<and> (\<forall>x. fl x = x \<longrightarrow> 1 \<le> x \<longrightarrow> x \<le> 2 ^ 53 \<longrightarrow> fl (x - 1) = x - 1)
     \<and> (\<forall>k \<le> 1022. fl (1 / 2 ^ k) = 1 / 2 ^ k)
     \<and> (\<forall>x. 1 / 2 ^ 1022 \<le> x \<longrightarrow> fl x \<le> x * (1 + 1 / 2 ^ 53))"

lemma rounds_id: "rounds_double (\<lambda>x. x)"
proof -
  have "x \<le> x * (1 + 1 / 2 ^ 53)" if "1 / 2 ^ 1022 \<le> x" for x :: rat
  proof -
    have "(0 :: rat) < 1 / 2 ^ 1022" by (rule divide_pos_pos) (rule zero_less_one, rule zero_less_power, rule zero_less_numeral)
    then have "0 \<le> x" using that by (rule order.strict_trans2 [THEN less_imp_le])
    then show ?thesis by (simp add: field_simps)
  qed
  then show ?thesis unfolding rounds_double_def mono_def by (intro conjI allI impI) (assumption | rule refl)+
qed

lemma rounds_facts:
  assumes "rounds_double fl"
  shows "x \<le> y \<Longrightarrow> fl x \<le> fl y" "fl (fl x) = fl x" "fl 0 = 0" "\<bar>i\<bar> \<le> 2 ^ 53 \<Longrightarrow> fl (of_int i) = of_int i"
    "fl x = x \<Longrightarrow> 1 \<le> x \<Longrightarrow> x \<le> 2 ^ 53 \<Longrightarrow> fl (x - 1) = x - 1" "1 / 2 ^ 30 \<le> x \<Longrightarrow> fl x \<le> x * (1 + 1 / 2 ^ 53)"
    "0 \<le> x \<Longrightarrow> 0 \<le> fl x" "1 / 2 ^ 30 \<le> x \<Longrightarrow> 1 / 2 ^ 30 \<le> fl x" "1 \<le> x \<Longrightarrow> 1 \<le> fl x"
proof -
  show m: "x \<le> y \<Longrightarrow> fl x \<le> fl y" for x y using assms by (simp add: rounds_double_def mono_def)
  have i: "\<bar>i\<bar> \<le> 2 ^ 53 \<Longrightarrow> fl (of_int i) = of_int i" for i :: int
    using assms by (simp add: rounds_double_def)
  from i [of 0] show z: "fl 0 = 0" by simp
  show "0 \<le> x \<Longrightarrow> 0 \<le> fl x" using m [of 0 x] z by simp
  show "1 \<le> x \<Longrightarrow> 1 \<le> fl x" using m [of 1 x] i [of 1] by simp
  have p: "\<forall>k \<le> 1022. fl (1 / 2 ^ k) = 1 / 2 ^ k" and q: "\<forall>x. 1 / 2 ^ 1022 \<le> x \<longrightarrow> fl x \<le> x * (1 + 1 / 2 ^ 53)"
    using assms unfolding rounds_double_def by blast+
  have "fl (1 / 2 ^ 30) = 1 / 2 ^ 30" using p by (rule allE [of _ 30]) simp
  then show "1 / 2 ^ 30 \<le> x \<Longrightarrow> 1 / 2 ^ 30 \<le> fl x" using m [of "1 / 2 ^ 30" x] by simp
  have "(1 :: rat) / 2 ^ 1022 \<le> 1 / 2 ^ 30"
    by (rule divide_left_mono, rule power_increasing) (rule zero_le_one zero_less_power mult_pos_pos zero_less_numeral | simp only: numeral_le_iff one_le_numeral le_num_simps)+
  then show "1 / 2 ^ 30 \<le> x \<Longrightarrow> fl x \<le> x * (1 + 1 / 2 ^ 53)" using q by (meson order_trans)
qed (use assms in \<open>auto simp: rounds_double_def\<close>)

text \<open>The amount a refill adds, with its rounding.\<close>

abbreviation (input) roundoff :: rat where "roundoff \<equiv> 1 + 1 / 2 ^ 53"

lemma refill_le:
  assumes fl: "rounds_double fl" and tk: "0 \<le> tk" "tk \<le> B" and rate: "0 < rate" and d: "0 < d"
  shows "fl (tk + fl (fl (fl (of_int rate) * fl (of_int d)) / 1000000000))
      \<le> tk + B / 2 ^ 53 + of_int rate * of_int d * roundoff ^ 5 / 1000000000"
proof -
  note f = rounds_facts [OF fl]
  let ?r = "fl (of_int rate)" and ?d = "fl (of_int d)"
  have small: "1 / 2 ^ 30 \<le> x" if "1 \<le> x" for x :: rat using that by simp
  have "1 \<le> (of_int rate :: rat)" "1 \<le> (of_int d :: rat)" using rate d by simp_all
  then have r1: "1 \<le> ?r" "?r \<le> of_int rate * roundoff" and d1: "1 \<le> ?d" "?d \<le> of_int d * roundoff"
    using f(6) [OF small] f(9) by blast+
  then have r: "0 \<le> ?r" "?r \<le> of_int rate * roundoff" and dd: "0 \<le> ?d" "?d \<le> of_int d * roundoff" by simp_all
  have p1: "1 \<le> ?r * ?d" using mult_mono [OF r1(1) d1(1)] r by simp
  have "?r * ?d \<le> (of_int rate * roundoff) * (of_int d * roundoff)" by (rule mult_mono) (use r dd rate in simp_all)
  then have p: "?r * ?d \<le> of_int rate * of_int d * roundoff ^ 2" "0 \<le> ?r * ?d" using r dd by (simp_all add: power2_eq_square mult_ac)
  have "fl (?r * ?d) \<le> (?r * ?d) * roundoff" by (rule f(6) [OF small]) (rule p1)
  also have "\<dots> \<le> of_int rate * of_int d * roundoff ^ 2 * roundoff" by (rule mult_right_mono [OF p(1)]) simp
  finally have q: "fl (?r * ?d) \<le> of_int rate * of_int d * roundoff ^ 3" by (simp add: eval_nat_numeral mult_ac)
  have q0: "0 \<le> fl (?r * ?d)" using f(7) p(2) by simp
  let ?a = "fl (?r * ?d) / 1000000000"
  have a1: "1 / 2 ^ 30 \<le> ?a" using f(9) [OF p1] by simp
  have "fl ?a \<le> ?a * roundoff" by (rule f(6) [OF a1])
  also have "\<dots> \<le> (of_int rate * of_int d * roundoff ^ 3 / 1000000000) * roundoff"
    by (rule mult_right_mono) (use q in \<open>simp_all add: divide_right_mono\<close>)
  finally have a: "fl ?a \<le> of_int rate * of_int d * roundoff ^ 4 / 1000000000" by (simp add: eval_nat_numeral mult_ac)
  have a0: "0 \<le> fl ?a" using f(7) q0 by simp
  have "fl (tk + fl ?a) \<le> (tk + fl ?a) * roundoff" by (rule f(6)) (use tk f(8) [OF a1] in linarith)
  also have "\<dots> = tk + tk / 2 ^ 53 + fl ?a * roundoff" by (simp add: algebra_simps)
  also have "\<dots> \<le> tk + B / 2 ^ 53 + (of_int rate * of_int d * roundoff ^ 4 / 1000000000) * roundoff"
    by (intro add_mono mult_right_mono a) (use tk in \<open>simp_all add: divide_right_mono\<close>)
  finally show ?thesis by (simp add: eval_nat_numeral mult_ac)
qed

section \<open>Runs of a bucket\<close>

text \<open>The level, the last refill and the number of records passed, over calls at the given times.\<close>

fun bucket_run :: "(rat \<Rightarrow> rat) \<Rightarrow> int \<Rightarrow> int \<Rightarrow> int list \<Rightarrow> rat \<times> int \<Rightarrow> rat \<times> int \<times> nat" where
  "bucket_run fl rate burst [] s = (fst s, snd s, 0)"
| "bucket_run fl rate burst (t # ts) s =
     (case throttle_bucket fl (fst s) (snd s) t rate burst of (tk, l, ok) \<Rightarrow>
        case bucket_run fl rate burst ts (tk, l) of (tk', l', n) \<Rightarrow> (tk', l', n + (if ok then 1 else 0)))"

definition bucket_ok :: "(rat \<Rightarrow> rat) \<Rightarrow> int \<Rightarrow> rat \<Rightarrow> bool" where
  "bucket_ok fl burst tk \<longleftrightarrow> 0 \<le> tk \<and> tk \<le> of_int burst \<and> fl tk = tk"

lemma bucket_step:
  assumes fl: "rounds_double fl" and rate: "0 < rate" and burst: "0 \<le> burst" "burst \<le> 2 ^ 53"
    and ok: "bucket_ok fl burst tk" and l: "0 < l"
    and step: "throttle_bucket fl tk l t rate burst = (tk', l', pass)"
  shows "bucket_ok fl burst tk'" "l' = max l t"
    "tk' + (if pass then 1 else 0) \<le> tk + of_int burst / 2 ^ 53 + of_int rate * of_int (l' - l) * roundoff ^ 5 / 1000000000"
    "pass = (1 \<le> tk' + (if pass then 1 else 0))"
proof -
  note f = rounds_facts [OF fl]
  have fb: "fl (of_int burst) = of_int burst" using f(4) burst by simp
  let ?t = "fl (tk + fl (fl (fl (of_int rate) * fl (of_int (t - l))) / 1000000000))"
  define r where "r = (if t > l then (if ?t > of_int burst then of_int burst else ?t) else tk)"
  have tk: "0 \<le> tk" "tk \<le> of_int burst" "fl tk = tk" using ok by (simp_all add: bucket_ok_def)
  have r: "0 \<le> r" "r \<le> of_int burst" "fl r = r"
  proof -
    have "0 \<le> ?t" if "t > l"
    proof -
      have "0 \<le> fl (of_int rate) * fl (of_int (t - l))" using f(7) rate that by simp
      then have "0 \<le> fl (fl (fl (of_int rate) * fl (of_int (t - l))) / 1000000000)" using f(7) by simp
      then show ?thesis using f(7) tk(1) by simp
    qed
    then show "0 \<le> r" using tk burst by (simp add: r_def)
    show "r \<le> of_int burst" "fl r = r" using tk fb f(2) by (auto simp: r_def)
  qed
  have grow: "r \<le> tk + of_int burst / 2 ^ 53 + of_int rate * of_int (max l t - l) * roundoff ^ 5 / 1000000000"
  proof (cases "t > l")
    case True
    then have m: "max l t - l = t - l" by simp
    have "?t \<le> tk + of_int burst / 2 ^ 53 + of_int rate * of_int (t - l) * roundoff ^ 5 / 1000000000"
      by (rule refill_le [OF fl tk(1,2)]) (use rate True in simp_all)
    then show ?thesis using True unfolding r_def m by (auto split: if_splits)
  next
    case False
    then have "max l t - l = 0" by simp
    moreover have "0 \<le> (of_int burst :: rat) / 2 ^ 53" using burst(1) by simp
    ultimately show ?thesis using False by (simp add: r_def)
  qed
  have shape: "tk' = (if 1 \<le> r then fl (r - 1) else r)" "l' = max l t" "pass = (1 \<le> r)"
    using step rate l by (auto simp: throttle_bucket_def Let_def fb r_def split: if_splits)
  have sub: "fl (r - 1) = r - 1" if "1 \<le> r"
  proof (rule f(5) [OF r(3) that])
    have "(of_int burst :: rat) \<le> of_int (2 ^ 53)" using burst(2) by (simp only: of_int_le_iff)
    then show "r \<le> 2 ^ 53" using r(2) by simp
  qed
  show "l' = max l t" by (rule shape)
  show "bucket_ok fl burst tk'" using r sub unfolding shape(1) by (auto simp: bucket_ok_def)
  have "tk' + (if pass then 1 else 0) = r" using sub unfolding shape by simp
  then show "tk' + (if pass then 1 else 0) \<le> tk + of_int burst / 2 ^ 53 + of_int rate * of_int (l' - l) * roundoff ^ 5 / 1000000000"
    "pass = (1 \<le> tk' + (if pass then 1 else 0))" using grow shape(2,3) by simp_all
qed

lemma bucket_run_bound:
  assumes fl: "rounds_double fl" and rate: "0 < rate" and burst: "0 \<le> burst" "burst \<le> 2 ^ 53"
  shows "bucket_ok fl burst tk \<Longrightarrow> 0 < l \<Longrightarrow> bucket_run fl rate burst ts (tk, l) = (tk', l', n) \<Longrightarrow>
    bucket_ok fl burst tk' \<and> l \<le> l' \<and> l' = foldl max l ts
    \<and> tk' + of_nat n \<le> tk + of_nat (length ts) * (of_int burst / 2 ^ 53)
        + of_int rate * of_int (l' - l) * roundoff ^ 5 / 1000000000"
proof (induction ts arbitrary: tk l tk' l' n)
  case Nil
  then show ?case by simp
next
  case (Cons t ts)
  obtain tk1 l1 ok where st: "throttle_bucket fl tk l t rate burst = (tk1, l1, ok)" by (metis prod_cases3)
  obtain n1 where rn: "bucket_run fl rate burst ts (tk1, l1) = (tk', l', n1)" "n = n1 + (if ok then 1 else 0)"
    using Cons.prems(3) st by (auto split: prod.splits)
  note s = bucket_step [OF fl rate burst Cons.prems(1,2) st]
  have l1: "0 < l1" "l \<le> l1" using s(2) Cons.prems(2) by simp_all
  note ih = Cons.IH [OF s(1) l1(1) rn(1)]
  have "of_nat n = (of_nat n1 :: rat) + (if ok then 1 else 0)" using rn(2) by simp
  then have "tk' + of_nat n \<le> tk1 + (if ok then 1 else 0) + of_nat (length ts) * (of_int burst / 2 ^ 53)
        + of_int rate * of_int (l' - l1) * roundoff ^ 5 / 1000000000"
    using ih by linarith
  also have "\<dots> \<le> tk + of_int burst / 2 ^ 53 + of_int rate * of_int (l1 - l) * roundoff ^ 5 / 1000000000
        + of_nat (length ts) * (of_int burst / 2 ^ 53) + of_int rate * of_int (l' - l1) * roundoff ^ 5 / 1000000000"
    using s(3) by (simp only: add_le_cancel_right)
  also have "\<dots> = tk + of_nat (length (t # ts)) * (of_int burst / 2 ^ 53)
        + of_int rate * of_int (l' - l) * roundoff ^ 5 / 1000000000"
    by (simp add: field_simps)
  finally show ?case using ih l1(2) s(2) by auto
qed

text \<open>
  C30. The rate limit. A new bucket that is asked at the times \<open>t0\<close> and \<open>ts\<close> lets at most its burst
  pass plus the rate times the time span from the first call to the latest, up to the rounding of the
  doubles; its level stays between zero and the burst.
\<close>

theorem throttle_rate_bound:
  assumes fl: "rounds_double fl" and cfg: "0 < rate" "0 \<le> burst" "burst \<le> 2 ^ 53" and t0: "0 < t0"
    and run: "bucket_run fl rate burst (t0 # ts) (0, 0) = (tk', l', n)"
  shows "0 \<le> tk' \<and> tk' \<le> of_int burst
    \<and> (of_nat n :: rat) \<le> of_int burst * (1 + of_nat (length ts) / 2 ^ 53)
         + of_int rate * of_int (foldl max t0 ts - t0) * (1 + 1 / 2 ^ 53) ^ 5 / 1000000000"
proof -
  note f = rounds_facts [OF fl]
  have fb: "fl (of_int burst) = of_int burst" using f(4) cfg by simp
  define ok where "ok = (1 \<le> (of_int burst :: rat))"
  define tk where "tk = (if ok then of_int burst - 1 else (of_int burst :: rat))"
  have "(of_int burst :: rat) \<le> of_int (2 ^ 53)" using cfg(3) by (simp only: of_int_le_iff)
  then have sub: "ok \<Longrightarrow> fl (of_int burst - 1) = of_int burst - 1" using f(5) fb by (simp add: ok_def)
  have st: "throttle_bucket fl 0 0 t0 rate burst = (tk, t0, ok)"
    using cfg(1) fb sub by (simp add: throttle_bucket_def Let_def tk_def ok_def)
  have bk: "bucket_ok fl burst tk" using cfg(2) fb sub by (auto simp: bucket_ok_def tk_def ok_def)
  obtain n1 where r: "bucket_run fl rate burst ts (tk, t0) = (tk', l', n1)" "n = n1 + (if ok then 1 else 0)"
    using run st by (auto split: prod.splits)
  note b = bucket_run_bound [OF fl cfg(1-3) bk t0 r(1)]
  have "of_nat n = (of_nat n1 :: rat) + (if ok then 1 else 0)" "tk + (if ok then 1 else 0) = of_int burst" using r(2) by (simp_all add: tk_def)
  moreover have "0 \<le> tk'" "tk' \<le> of_int burst" using b by (simp_all add: bucket_ok_def)
  moreover have "of_int burst * (1 + of_nat (length ts) / 2 ^ 53) = of_int burst + of_nat (length ts) * ((of_int burst :: rat) / 2 ^ 53)"
    by (simp add: algebra_simps)
  ultimately show ?thesis using b by auto
qed

theorem throttle_rate_bound_witness:
  "(case bucket_run (\<lambda>x. x) 1000000000 2 [5, 5, 5, 6] (0, 0) of (tk, l, n) \<Rightarrow> n = 3)
   \<and> (3 :: rat) \<le> 2 * (1 + 3 / 2 ^ 53) + 1000000000 * 1 * (1 + 1 / 2 ^ 53) ^ 5 / 1000000000"
proof -
  have r: "bucket_run (\<lambda>x. x) 1000000000 2 [5, 5, 5, 6] (0, 0) = (0, 6, 3)"
    by (simp add: throttle_bucket_def)
  from throttle_rate_bound [OF rounds_id _ _ _ _ r] r show ?thesis by simp
qed

section \<open>Sampling\<close>

lemma mod_window:
  fixes v n :: nat
  assumes "0 < n"
  shows "card {i. i < n \<and> (v + i) mod n = 0} = 1"
proof -
  let ?i = "(n - v mod n) mod n"
  have v: "v = n * (v div n) + v mod n" by simp
  have "v mod n < n" using assms by simp
  have "{i. i < n \<and> (v + i) mod n = 0} = {?i}"
  proof (intro equalityI subsetI)
    fix i
    assume "i \<in> {i. i < n \<and> (v + i) mod n = 0}"
    then have i: "i < n" "(v mod n + i) mod n = 0" by (simp_all add: mod_add_left_eq)
    show "i \<in> {?i}"
    proof (cases "v mod n = 0")
      case True
      then show ?thesis using i assms by simp
    next
      case False
      then have "v mod n + i = n"
      proof -
        have "0 < v mod n + i" "v mod n + i < n + n" using False i(1) \<open>v mod n < n\<close> by linarith+
        moreover obtain c where "v mod n + i = n * c" using i(2) by (auto elim: dvdE simp: mod_eq_0_iff_dvd)
        ultimately have "0 < n * c" "n * c < n * 2" by linarith+
        then have "c = 1" by (simp add: nat_mult_less_cancel_disj)
        then show ?thesis using \<open>v mod n + i = n * c\<close> by simp
      qed
      then show ?thesis using False i(1) by auto
    qed
  next
    fix i
    assume "i \<in> {?i}"
    then have i: "i = ?i" by simp
    have "(v + ?i) mod n = (v mod n + (n - v mod n)) mod n" by (metis mod_add_left_eq mod_add_right_eq)
    also have "\<dots> = 0" using \<open>v mod n < n\<close> by simp
    finally show "i \<in> {i. i < n \<and> (v + i) mod n = 0}" using i assms by simp
  qed
  then show ?thesis by simp
qed

lemma word_mod_eq_0:
  fixes seq :: "32 word"
  assumes "0 < n" "n < 2 ^ 32" "unat seq + i < 2 ^ 32"
  shows "(seq + of_nat i) mod of_int (int n) = 0 \<longleftrightarrow> (unat seq + i) mod n = 0"
proof -
  have "unat (seq + of_nat i) = unat seq + i"
    using assms(3) by (simp add: unat_word_ariths unat_of_nat)
  moreover have "unat (of_int (int n) :: 32 word) = n" using assms(2) by (simp add: unat_of_nat)
  ultimately have "unat ((seq + of_nat i) mod of_int (int n)) = (unat seq + i) mod n" by (simp add: unat_mod_distrib)
  then show ?thesis by (metis unat_eq_zero unat_0)
qed

text \<open>The verdicts of successive calls for one record class, at the given clock readings.\<close>

fun throttle_run ::
  "(rat \<Rightarrow> rat) \<Rightarrow> hpu_conf option \<Rightarrow> nat option \<Rightarrow> string \<Rightarrow> (int \<times> int) list \<Rightarrow> hpu_registry \<Rightarrow> 32 word
    \<Rightarrow> bool list" where
  "throttle_run fl conf slot cat [] r seq = []"
| "throttle_run fl conf slot cat (t # ts) r seq =
     (case throttle_pass fl conf slot cat (fst t) (snd t) r seq of (ok, r', seq') \<Rightarrow>
        ok # throttle_run fl conf slot cat ts r' seq')"

lemma sampling_run:
  assumes th: "th_global_rate (c_throttle c) \<le> 0" "th_per_category_rate (c_throttle c) \<le> 0"
      "\<not> dbl_le (th_sampling_rate (c_throttle c)) (Dbl 0)" "1 < th_sampling_n (c_throttle c)"
  shows "throttle_run fl (Some c) slot cat ts r seq
    = map (\<lambda>i. (seq + of_nat i) mod of_int (th_sampling_n (c_throttle c)) = 0) [0..<length ts]"
proof (induction ts arbitrary: seq)
  case Nil
  then show ?case by simp
next
  case (Cons t ts)
  have "throttle_pass fl (Some c) slot cat (fst t) (snd t) r seq
      = (seq mod of_int (th_sampling_n (c_throttle c)) = 0, r, seq + 1)"
    using th by (simp add: throttle_pass_def throttle_category_def Let_def)
  moreover have "[0..<length (t # ts)] = 0 # map Suc [0..<length ts]"
    by (simp only: list.size map_Suc_upt) (simp add: upt_rec)
  moreover have "seq + 1 + of_nat i = seq + of_nat (Suc i)" for i :: nat by (simp add: ac_simps)
  ultimately show ?case by (simp only: throttle_run.simps Cons.IH list.map map_map comp_def prod.case of_nat_0 add_0_right list.inject) simp
qed

text \<open>
  Sampling. With only sampling configured, of any \<open>n\<close> calls in a row exactly one passes, as long
  as the 32-bit counter does not wrap in between.
\<close>

theorem sampling_passes_one_of_n:
  assumes th: "th_global_rate (c_throttle c) \<le> 0" "th_per_category_rate (c_throttle c) \<le> 0"
      "\<not> dbl_le (th_sampling_rate (c_throttle c)) (Dbl 0)" "1 < th_sampling_n (c_throttle c)"
    and n: "length ts = nat (th_sampling_n (c_throttle c))" and nowrap: "unat seq + length ts < 2 ^ 32"
  shows "count_list (throttle_run fl (Some c) slot cat ts r seq) True = 1"
proof -
  define n where "n = length ts"
  have sn: "th_sampling_n (c_throttle c) = int n" "1 < n" using th(4) n by (simp_all add: n_def)
  have "throttle_run fl (Some c) slot cat ts r seq = map (\<lambda>i. (seq + of_nat i) mod of_int (int n) = 0) [0..<n]"
    by (simp only: sampling_run [OF th] sn(1) n_def)
  also have "\<dots> = map (\<lambda>i. (unat seq + i) mod n = 0) [0..<n]"
    by (rule map_cong [OF refl], rule word_mod_eq_0)
      (use sn(2) nowrap in \<open>unfold n_def [symmetric] set_upt atLeastLessThan_iff, linarith+\<close>)
  finally have "count_list (throttle_run fl (Some c) slot cat ts r seq) True
      = length (filter (\<lambda>i. (unat seq + i) mod n = 0) [0..<n])"
    by (simp add: count_list_eq_length_filter filter_map comp_def cong: filter_cong)
  also have "\<dots> = card {i. i < n \<and> (unat seq + i) mod n = 0}"
    by (simp add: distinct_card [symmetric] cong: conj_cong)
  finally show ?thesis using mod_window [of n "unat seq"] sn(2) by simp
qed

theorem sampling_passes_one_of_n_witness:
  "\<forall>c. count_list (throttle_run (\<lambda>x. x) (Some (c\<lparr>c_throttle := \<lparr>th_global_rate = 0, th_per_category_rate = 0, th_burst = 1,
     th_sampling_rate = Dbl (1 / 3), th_sampling_n = 3\<rparr>\<rparr>)) None ''net'' [(1, 1), (2, 2), (3, 3)] hpu_registry_init 7) True = 1"
  by (intro allI sampling_passes_one_of_n) (simp_all add: dbl_le_def)

section \<open>The global rate\<close>

text \<open>
  The bucket of the global rate lives in two local variables, so every call finds it new: with a burst of
  at least one, the global rate lets every record pass.
\<close>

lemma global_rate_never_limits:
  assumes "rounds_double fl" "1 \<le> th_burst (c_throttle c)" "th_burst (c_throttle c) \<le> 2 ^ 53"
  shows "throttle_pass fl (Some c) slot cat now1 now2 r seq
    = throttle_pass fl (Some (c\<lparr>c_throttle := c_throttle c\<lparr>th_global_rate := 0\<rparr>\<rparr>)) slot cat now1 now2 r seq"
proof -
  note f = rounds_facts [OF assms(1)]
  have "fl (of_int (th_burst (c_throttle c))) = of_int (th_burst (c_throttle c))" using f(4) assms by simp
  then have "snd (snd (throttle_bucket fl 0 0 now1 (th_global_rate (c_throttle c)) (th_burst (c_throttle c))))"
    using assms(2) by (simp add: throttle_bucket_def Let_def)
  then have "(case throttle_bucket fl 0 0 now1 (th_global_rate (c_throttle c)) (th_burst (c_throttle c)) of (_, _, ok) \<Rightarrow> ok) = True"
    by (simp add: case_prod_unfold)
  moreover have "c_throttle (c\<lparr>c_throttle := t\<rparr>) = t" for t by simp
  moreover have "th_global_rate (t\<lparr>th_global_rate := 0\<rparr>) = 0" "th_per_category_rate (t\<lparr>th_global_rate := 0\<rparr>) = th_per_category_rate t"
    "th_burst (t\<lparr>th_global_rate := 0\<rparr>) = th_burst t" "th_sampling_rate (t\<lparr>th_global_rate := 0\<rparr>) = th_sampling_rate t"
    "th_sampling_n (t\<lparr>th_global_rate := 0\<rparr>) = th_sampling_n t" for t :: hpu_throttle_cfg
    by simp_all
  ultimately show ?thesis unfolding throttle_pass_def throttle_category_def option.case Let_def
    by (simp only: if_cancel if_True if_False simp_thms less_irrefl)
qed

end
