(* ===== verification/RingRecord.thy ===== *)
theory RingRecord
  imports HpuPrelude
begin

text \<open>
  The variable-size record both rings store (\<^verbatim>\<open>src/ring/ringbuf.h\<close>): the frozen 56-byte
  header, the producer's descriptor, the consumer's view and the header as bytes. Header
  fields keep their C widths.
\<close>

section \<open>Header, descriptor and view\<close>

definition META_SIZE :: nat where "META_SIZE = 56"

definition HPU_RING_OK :: int where [status_simps]: "HPU_RING_OK = 0"
definition HPU_RING_EMPTY :: int where [status_simps]: "HPU_RING_EMPTY = 1"
definition HPU_RING_DROPPED :: int where [status_simps]: "HPU_RING_DROPPED = 2"

record hpu_ring_meta =
  commit :: "64 word"
  m_tid :: "64 word"
  m_realtime_ns :: "64 word"
  m_mono_us :: "64 word"
  total_len :: "32 word"
  msg_len :: "32 word"
  m_line :: "32 word"
  level_flags :: "32 word"
  category_len :: "16 word"
  file_len :: "16 word"
  func_len :: "16 word"
  m_field_count :: "16 word"

text \<open>The producer's descriptor: each pointer with its length is the bytes it designates.\<close>

record hpu_ring_msg =
  g_level :: "8 word"
  g_rec_flags :: "8 word"
  g_category :: "byte list"
  g_file :: "byte list"
  g_func :: "byte list"
  g_line :: "32 word"
  g_tid :: "64 word"
  g_realtime_ns :: "64 word"
  g_mono_us :: "64 word"
  g_msg :: "byte list"
  g_fields :: "byte list"
  g_field_count :: "16 word"

text \<open>The consumer's view: each pointer as the bytes it designates, \<open>None\<close> for NULL.\<close>

record hpu_ring_view =
  v_meta :: hpu_ring_meta
  v_category :: "byte list option"
  v_file :: "byte list option"
  v_func :: "byte list option"
  v_msg :: "byte list"
  v_fields :: "byte list option"

definition HPU_REC_FLAG_PAD :: "32 word" where "HPU_REC_FLAG_PAD = 1"

definition HPU_REC_FLAGS :: "32 word \<Rightarrow> 32 word" where
  "HPU_REC_FLAGS lf = and (drop_bit 8 lf) 0xFF"

definition is_pad :: "hpu_ring_meta \<Rightarrow> bool" where
  "is_pad m \<longleftrightarrow> and (HPU_REC_FLAGS (level_flags m)) HPU_REC_FLAG_PAD \<noteq> 0"

definition encode_meta :: "hpu_ring_meta \<Rightarrow> byte list" where
  "encode_meta m =
     le_enc 8 (unat (commit m)) @ le_enc 8 (unat (m_tid m)) @ le_enc 8 (unat (m_realtime_ns m))
     @ le_enc 8 (unat (m_mono_us m)) @ le_enc 4 (unat (total_len m)) @ le_enc 4 (unat (msg_len m))
     @ le_enc 4 (unat (m_line m)) @ le_enc 4 (unat (level_flags m)) @ le_enc 2 (unat (category_len m))
     @ le_enc 2 (unat (file_len m)) @ le_enc 2 (unat (func_len m)) @ le_enc 2 (unat (m_field_count m))"

definition decode_meta :: "byte list \<Rightarrow> hpu_ring_meta" where
  "decode_meta bs =
     \<lparr>commit = of_nat (le_dec (bslice 0 8 bs)), m_tid = of_nat (le_dec (bslice 8 8 bs)),
      m_realtime_ns = of_nat (le_dec (bslice 16 8 bs)), m_mono_us = of_nat (le_dec (bslice 24 8 bs)),
      total_len = of_nat (le_dec (bslice 32 4 bs)), msg_len = of_nat (le_dec (bslice 36 4 bs)),
      m_line = of_nat (le_dec (bslice 40 4 bs)), level_flags = of_nat (le_dec (bslice 44 4 bs)),
      category_len = of_nat (le_dec (bslice 48 2 bs)), file_len = of_nat (le_dec (bslice 50 2 bs)),
      func_len = of_nat (le_dec (bslice 52 2 bs)), m_field_count = of_nat (le_dec (bslice 54 2 bs))\<rparr>"

section \<open>Building and reading a record\<close>

definition align8 :: "nat \<Rightarrow> nat" where
  "align8 n = (n + 7) div 8 * 8"

definition fill_meta :: "hpu_ring_msg \<Rightarrow> nat \<Rightarrow> hpu_ring_meta" where
  "fill_meta msg tot =
     \<lparr>commit = 0, m_tid = g_tid msg, m_realtime_ns = g_realtime_ns msg, m_mono_us = g_mono_us msg,
      total_len = of_nat tot, msg_len = of_nat (length (g_msg msg)), m_line = g_line msg,
      level_flags = or (ucast (g_level msg)) (push_bit 8 (ucast (g_rec_flags msg))),
      category_len = of_nat (length (g_category msg)), file_len = of_nat (length (g_file msg)),
      func_len = of_nat (length (g_func msg)), m_field_count = g_field_count msg\<rparr>"

definition pad_meta :: "nat \<Rightarrow> hpu_ring_meta" where
  "pad_meta tot =
     \<lparr>commit = 0, m_tid = 0, m_realtime_ns = 0, m_mono_us = 0, total_len = of_nat tot, msg_len = 0,
      m_line = 0, level_flags = push_bit 8 HPU_REC_FLAG_PAD, category_len = 0, file_len = 0,
      func_len = 0, m_field_count = 0\<rparr>"

text \<open>The bytes the five \<^verbatim>\<open>memcpy\<close> calls leave behind the header.\<close>

definition payload :: "hpu_ring_msg \<Rightarrow> byte list" where
  "payload msg = g_category msg @ g_file msg @ g_func msg @ g_msg msg @ g_fields msg"

definition raw_len :: "hpu_ring_msg \<Rightarrow> nat" where
  "raw_len msg = META_SIZE + length (payload msg)"

text \<open>The sum is a \<^verbatim>\<open>size_t\<close>; the result is cut to \<^verbatim>\<open>uint32_t\<close>.\<close>

definition record_len :: "hpu_ring_msg \<Rightarrow> nat" where
  "record_len msg = align8 (raw_len msg) mod 2 ^ 32"

text \<open>
  The view of a record whose first byte is the first of \<open>bs\<close>. The fields' length is the rest
  of the record, in the arithmetic of \<^verbatim>\<open>uint32_t\<close>.
\<close>

definition read_view :: "byte list \<Rightarrow> hpu_ring_view" where
  "read_view bs =
     (let m = decode_meta bs;
          c = unat (category_len m); f = unat (file_len m); u = unat (func_len m); g = unat (msg_len m);
          off = META_SIZE + c + f + u + g
      in \<lparr>v_meta = m,
          v_category = (if c > 0 then Some (bslice META_SIZE c bs) else None),
          v_file = (if f > 0 then Some (bslice (META_SIZE + c) f bs) else None),
          v_func = (if u > 0 then Some (bslice (META_SIZE + c + f) u bs) else None),
          v_msg = bslice (META_SIZE + c + f + u) g bs,
          v_fields = (if m_field_count m > 0
                      then Some (bslice off (unat (total_len m - of_nat off)) bs) else None)\<rparr>)"

section \<open>The header survives the round trip\<close>

lemma le_word: "LENGTH('a) = 8 * k \<Longrightarrow> of_nat (le_dec (le_enc k (unat (w :: 'a::len word)))) = w"
proof -
  assume k: "LENGTH('a) = 8 * k"
  have "unat w < 2 ^ LENGTH('a)" by (rule unsigned_less)
  then have "unat w < 256 ^ k" by (simp add: k power_mult)
  then show ?thesis by simp
qed

lemma length_encode_meta [simp]: "length (encode_meta m) = META_SIZE"
  by (simp add: encode_meta_def META_SIZE_def)

lemma bslice_skip: "length p \<le> i \<Longrightarrow> bslice i n (p @ xs) = bslice (i - length p) n xs"
  by (simp add: bslice_def)

lemma bslice_here: "length p = n \<Longrightarrow> bslice 0 n (p @ xs) = p"
  by (simp add: bslice_def)

lemma decode_encode_meta [simp]: "decode_meta (encode_meta m @ r) = m"
  by (cases m) (simp add: decode_meta_def encode_meta_def bslice_skip bslice_here le_word)

lemma pad_is_pad [simp]: "is_pad (pad_meta n)"
  by (simp add: is_pad_def pad_meta_def HPU_REC_FLAGS_def HPU_REC_FLAG_PAD_def)

lemma fill_is_pad: "is_pad (fill_meta msg n) \<longleftrightarrow> bit (g_rec_flags msg) 0"
proof -
  let ?lf = "or (ucast (g_level msg)) (push_bit 8 (ucast (g_rec_flags msg))) :: 32 word"
  have "and (HPU_REC_FLAGS ?lf) HPU_REC_FLAG_PAD = and (drop_bit 8 ?lf) 1"
    by (simp add: HPU_REC_FLAGS_def HPU_REC_FLAG_PAD_def and.assoc)
  also have "\<dots> = of_bool (bit ?lf 8)"
    by (simp add: and_one_eq bit_iff_odd_drop_bit mod2_eq_if)
  also have "bit ?lf 8 = bit (g_rec_flags msg) 0"
    using bit_imp_le_length [of "g_level msg" 8] by (auto simp: bit_simps)
  finally show ?thesis by (simp add: is_pad_def fill_meta_def)
qed

lemma align8_ge: "n \<le> align8 n"
  and align8_less: "align8 n < n + 8"
  and align8_dvd [simp]: "8 dvd align8 n"
  unfolding align8_def by presburger+

lemma align8_id [simp]: "8 dvd n \<Longrightarrow> align8 n = n"
  unfolding align8_def by presburger

section \<open>What a record means\<close>

text \<open>
  A descriptor the header can describe: the three short strings fit their 16-bit lengths,
  the record fits 32 bits, it is not flagged as padding.
\<close>

definition msg_ok :: "hpu_ring_msg \<Rightarrow> bool" where
  "msg_ok msg \<longleftrightarrow> length (g_category msg) < 2 ^ 16 \<and> length (g_file msg) < 2 ^ 16
     \<and> length (g_func msg) < 2 ^ 16 \<and> align8 (raw_len msg) < 2 ^ 32 \<and> \<not> bit (g_rec_flags msg) 0"

text \<open>
  What the consumer may rely on: every scalar and every string as put (NULL for the empty
  category, file and function), the message, and, when there are fields, a region that
  starts with the bytes put.
\<close>

definition opt_bytes :: "byte list \<Rightarrow> byte list option" where
  "opt_bytes s = (if s = [] then None else Some s)"

definition view_matches :: "hpu_ring_msg \<Rightarrow> hpu_ring_view \<Rightarrow> bool" where
  "view_matches msg v \<longleftrightarrow>
     m_tid (v_meta v) = g_tid msg \<and> m_realtime_ns (v_meta v) = g_realtime_ns msg
     \<and> m_mono_us (v_meta v) = g_mono_us msg \<and> m_line (v_meta v) = g_line msg
     \<and> ucast (level_flags (v_meta v)) = g_level msg
     \<and> m_field_count (v_meta v) = g_field_count msg
     \<and> v_category v = opt_bytes (g_category msg) \<and> v_file v = opt_bytes (g_file msg)
     \<and> v_func v = opt_bytes (g_func msg) \<and> v_msg v = g_msg msg
     \<and> (if g_field_count msg > 0 then \<exists>rest. v_fields v = Some (g_fields msg @ rest) else v_fields v = None)"

lemma unat_of_nat_less: "n < 2 ^ LENGTH('a) \<Longrightarrow> unat (of_nat n :: 'a::len word) = n"
  by (simp add: unat_of_nat take_bit_nat_eq_self)

lemma read_view_matches:
  assumes ok: "msg_ok msg" and t: "raw_len msg \<le> tot" "tot < 2 ^ 32" "tot \<le> length bs"
    and img: "take (raw_len msg) bs = encode_meta ((fill_meta msg tot)\<lparr>commit := cm\<rparr>) @ payload msg"
  shows "view_matches msg (read_view bs)"
proof -
  let ?m = "(fill_meta msg tot)\<lparr>commit := cm\<rparr>"
  obtain r where bs: "bs = encode_meta ?m @ payload msg @ r"
    using img by (metis append_assoc append_take_drop_id)
  then have dm: "decode_meta bs = ?m" by simp
  have lens: "unat (category_len ?m) = length (g_category msg)" "unat (file_len ?m) = length (g_file msg)"
    "unat (func_len ?m) = length (g_func msg)" "unat (msg_len ?m) = length (g_msg msg)"
    using ok t by (simp_all add: fill_meta_def msg_ok_def unat_of_nat_less raw_len_def payload_def)
  define off where "off = META_SIZE + length (g_category msg) + length (g_file msg) + length (g_func msg) + length (g_msg msg)"
  have off: "off + length (g_fields msg) \<le> tot" using t by (simp add: raw_len_def payload_def off_def)
  have "unat (total_len ?m - of_nat off) = tot - off"
  proof -
    have "unat (total_len ?m) = tot" "unat (of_nat off :: 32 word) = off"
      using t off by (simp_all add: fill_meta_def unat_of_nat_less)
    then show ?thesis using off by (simp add: unat_sub word_le_nat_alt)
  qed
  moreover have lvl: "ucast (level_flags ?m) = g_level msg"
    by (rule bit_word_eqI) (auto simp: fill_meta_def bit_simps)
  moreover have "take (tot - off) (g_fields msg @ r) = g_fields msg @ take (tot - off - length (g_fields msg)) r"
    using off by simp
  ultimately show ?thesis
    unfolding view_matches_def read_view_def Let_def dm lens off_def [symmetric]
    by (simp add: off_def bs payload_def bslice_def opt_bytes_def fill_meta_def)
qed

end
