(* ===== verification/QueueContract.thy ===== *)
theory QueueContract
  imports HpuPrelude "HOL-Library.Sublist"
begin

text \<open>
  The contract of a record ring as its callers see it (the comments of
  \<^verbatim>\<open>src/ring/ringbuf.h\<close>): a put is accepted at the end of the queue or refused, possibly
  after the oldest records were removed; a get delivers the oldest record, as a view that
  matches the message that was put, or nothing when the queue is empty. The order theorems
  for whole runs of operations are proved here once; each ring is an interpretation.
\<close>

section \<open>Runs of operations\<close>

datatype 'm queue_op = OpPut 'm | OpGet

text \<open>The state after a run, the messages accepted and the views delivered, in order.\<close>

fun run_ops :: "('q \<Rightarrow> 'm \<Rightarrow> ('q \<times> bool) option) \<Rightarrow> ('q \<Rightarrow> ('q \<times> 'v option) option) \<Rightarrow> 'q \<Rightarrow> 'm queue_op list
    \<Rightarrow> ('q \<times> 'm list \<times> 'v list) option" where
  "run_ops put get q [] = Some (q, [], [])"
| "run_ops put get q (OpPut m # ops) =
     (case put q m of None \<Rightarrow> None
      | Some (q1, b) \<Rightarrow> map_option (\<lambda>(q2, acc, got). (q2, (if b then m # acc else acc), got))
                         (run_ops put get q1 ops))"
| "run_ops put get q (OpGet # ops) =
     (case get q of None \<Rightarrow> None
      | Some (q1, r) \<Rightarrow> map_option (\<lambda>(q2, acc, got). (q2, acc, (case r of None \<Rightarrow> got | Some v \<Rightarrow> v # got)))
                         (run_ops put get q1 ops))"

definition op_msgs :: "'m queue_op list \<Rightarrow> 'm list" where
  "op_msgs ops = concat (map (\<lambda>op. case op of OpPut m \<Rightarrow> [m] | OpGet \<Rightarrow> []) ops)"

lemma op_msgs_simps [simp]:
  "op_msgs [] = []" "op_msgs (OpPut m # ops) = m # op_msgs ops" "op_msgs (OpGet # ops) = op_msgs ops"
  by (simp_all add: op_msgs_def)

section \<open>The contract\<close>

locale fifo_queue =
  fixes rep :: "'q \<Rightarrow> 'm list \<Rightarrow> bool"
    and ok :: "'q \<Rightarrow> 'm \<Rightarrow> bool"
    and put :: "'q \<Rightarrow> 'm \<Rightarrow> ('q \<times> bool) option"
    and get :: "'q \<Rightarrow> ('q \<times> 'v option) option"
    and matches :: "'m \<Rightarrow> 'v \<Rightarrow> bool"
  assumes put_law: "rep q ms \<Longrightarrow> ok q m \<Longrightarrow>
      \<exists>q' b k. put q m = Some (q', b) \<and> rep q' (drop k ms @ (if b then [m] else [])) \<and> ok q' = ok q"
    and get_empty: "rep q [] \<Longrightarrow> \<exists>q'. get q = Some (q', None) \<and> rep q' [] \<and> ok q' = ok q"
    and get_head: "rep q (m # ms) \<Longrightarrow>
      \<exists>q' v. get q = Some (q', Some v) \<and> matches m v \<and> rep q' ms \<and> ok q' = ok q"
begin

lemma run_total:
  "rep q ms \<Longrightarrow> list_all (ok q) (op_msgs ops) \<Longrightarrow> \<exists>r. run_ops put get q ops = Some r"
proof (induction ops arbitrary: q ms)
  case Nil
  then show ?case by simp
next
  case (Cons op ops)
  show ?case
  proof (cases op)
    case (OpPut m)
    with Cons.prems put_law [of q ms m] obtain q1 b k where
      "put q m = Some (q1, b)" "rep q1 (drop k ms @ (if b then [m] else []))" "ok q1 = ok q" by auto
    with Cons.IH [of q1] Cons.prems OpPut show ?thesis by fastforce
  next
    case OpGet
    show ?thesis
    proof (cases ms)
      case Nil
      with Cons.prems get_empty [of q] obtain q1 where "get q = Some (q1, None)" "rep q1 []" "ok q1 = ok q" by auto
      with Cons.IH [of q1 "[]"] Cons.prems OpGet show ?thesis by fastforce
    next
      case (Cons m ms')
      with Cons.prems get_head [of q m ms'] obtain q1 v where "get q = Some (q1, Some v)" "rep q1 ms'" "ok q1 = ok q"
        by auto
      with Cons.IH [of q1 ms'] Cons.prems OpGet show ?thesis by fastforce
    qed
  qed
qed

lemma run_order:
  "rep q ms \<Longrightarrow> list_all (ok q) (op_msgs ops) \<Longrightarrow> run_ops put get q ops = Some (q', acc, got) \<Longrightarrow>
     \<exists>delivered rest. rep q' rest \<and> list_all2 matches delivered got \<and> subseq (delivered @ rest) (ms @ acc)"
proof (induction ops arbitrary: q ms q' acc got)
  case Nil
  then show ?case by (intro exI [of _ "[]"] exI [of _ ms]) simp
next
  case (Cons op ops)
  show ?case
  proof (cases op)
    case (OpPut m)
    with Cons.prems put_law [of q ms m] obtain q1 b k where
      p: "put q m = Some (q1, b)" "rep q1 (drop k ms @ (if b then [m] else []))" "ok q1 = ok q" by auto
    with Cons.prems OpPut obtain acc1 where
      r: "run_ops put get q1 ops = Some (q', acc1, got)" "acc = (if b then m # acc1 else acc1)" by auto
    from Cons.IH [OF p(2) _ r(1)] Cons.prems OpPut p(3) obtain d rest where
      d: "rep q' rest" "list_all2 matches d got" "subseq (d @ rest) ((drop k ms @ (if b then [m] else [])) @ acc1)"
      by auto
    have "subseq (drop k ms) ms" by (metis append_take_drop_id list_emb_append2 subseq_order.order_refl)
    then have "subseq ((drop k ms @ (if b then [m] else [])) @ acc1) (ms @ acc)"
      using r(2) by (auto intro: list_emb_append_mono)
    then have "subseq (d @ rest) (ms @ acc)" using d(3) subseq_order.order_trans by blast
    with d show ?thesis by blast
  next
    case OpGet
    show ?thesis
    proof (cases ms)
      case Nil
      with Cons.prems get_empty [of q] obtain q1 where g: "get q = Some (q1, None)" "rep q1 []" "ok q1 = ok q" by auto
      with Cons.IH [OF g(2)] Cons.prems OpGet Nil show ?thesis by fastforce
    next
      case (Cons m ms')
      with Cons.prems get_head [of q m ms'] obtain q1 v where
        g: "get q = Some (q1, Some v)" "matches m v" "rep q1 ms'" "ok q1 = ok q" by auto
      with Cons.prems OpGet obtain got1 where
        r: "run_ops put get q1 ops = Some (q', acc, got1)" "got = v # got1" by auto
      from Cons.IH [OF g(3) _ r(1)] Cons.prems OpGet g(4) obtain d rest where
        d: "rep q' rest" "list_all2 matches d got1" "subseq (d @ rest) (ms' @ acc)" by auto
      then have "list_all2 matches (m # d) got" "subseq ((m # d) @ rest) (ms @ acc)"
        using r(2) g(2) Cons by simp_all
      with d(1) show ?thesis by blast
    qed
  qed
qed

end

text \<open>A queue that never removes what it accepted: deliveries are then a prefix.\<close>

locale lossless_queue = fifo_queue +
  assumes put_keeps: "rep q ms \<Longrightarrow> ok q m \<Longrightarrow>
      \<exists>q' b. put q m = Some (q', b) \<and> rep q' (ms @ (if b then [m] else [])) \<and> ok q' = ok q"
begin

lemma run_exact:
  "rep q ms \<Longrightarrow> list_all (ok q) (op_msgs ops) \<Longrightarrow> run_ops put get q ops = Some (q', acc, got) \<Longrightarrow>
     \<exists>delivered rest. rep q' rest \<and> list_all2 matches delivered got \<and> delivered @ rest = ms @ acc"
proof (induction ops arbitrary: q ms q' acc got)
  case Nil
  then show ?case by (intro exI [of _ "[]"] exI [of _ ms]) simp
next
  case (Cons op ops)
  show ?case
  proof (cases op)
    case (OpPut m)
    with Cons.prems put_keeps [of q ms m] obtain q1 b where
      p: "put q m = Some (q1, b)" "rep q1 (ms @ (if b then [m] else []))" "ok q1 = ok q" by auto
    with Cons.prems OpPut obtain acc1 where
      r: "run_ops put get q1 ops = Some (q', acc1, got)" "acc = (if b then m # acc1 else acc1)" by auto
    from Cons.IH [OF p(2) _ r(1)] Cons.prems OpPut p(3) r(2) show ?thesis by fastforce
  next
    case OpGet
    show ?thesis
    proof (cases ms)
      case Nil
      with Cons.prems get_empty [of q] obtain q1 where g: "get q = Some (q1, None)" "rep q1 []" "ok q1 = ok q" by auto
      with Cons.IH [OF g(2)] Cons.prems OpGet Nil show ?thesis by fastforce
    next
      case (Cons m ms')
      with Cons.prems get_head [of q m ms'] obtain q1 v where
        g: "get q = Some (q1, Some v)" "matches m v" "rep q1 ms'" "ok q1 = ok q" by auto
      with Cons.prems OpGet obtain got1 where
        r: "run_ops put get q1 ops = Some (q', acc, got1)" "got = v # got1" by auto
      from Cons.IH [OF g(3) _ r(1)] Cons.prems OpGet g(4) obtain d rest where
        d: "rep q' rest" "list_all2 matches d got1" "d @ rest = ms' @ acc" by auto
      then have "list_all2 matches (m # d) got" "(m # d) @ rest = ms @ acc"
        using r(2) g(2) Cons by simp_all
      with d(1) show ?thesis by blast
    qed
  qed
qed

end

end
