(* ===== verification/RingLocked.thy ===== *)
theory RingLocked
  imports RingRecord QueueContract
begin

text \<open>
  The locked ring (\<^verbatim>\<open>src/ring/ringbuf_locked.c\<close>), at the level of its bytes. Every
  operation runs under the ring's mutex, so one call, up to a wait on the condition
  variable, is one atomic function on the ring. The cursors are the code's monotonic
  64-bit counters, as naturals (2^64 bytes are never logged). Signals on the two condition
  variables are kept as a log.
\<close>

section \<open>State\<close>

datatype wake = Signal_not_empty | Broadcast_not_empty | Broadcast_not_full

datatype overflow_policy = RB_POL_DISCARD | RB_POL_OVERWRITE | RB_POL_WAIT

record hpu_ring =
  capacity :: nat
  buf :: "byte list"
  policy :: overflow_policy
  ring_head :: nat
  ring_tail :: nat
  dropped :: nat
  overwritten :: nat
  closed :: bool
  woken :: "wake list"

definition wake_up :: "wake \<Rightarrow> hpu_ring \<Rightarrow> hpu_ring" where
  "wake_up w r = r\<lparr>woken := woken r @ [w]\<rparr>"

text \<open>
  \<open>mem\<close> is what \<^verbatim>\<open>malloc\<close> leaves in the buffer; \<open>alloc_ok\<close> says whether the allocations
  and the initialisation of the primitives succeeded.
\<close>

definition hpu_ring_create :: "(nat \<Rightarrow> byte) \<Rightarrow> bool \<Rightarrow> nat \<Rightarrow> overflow_policy \<Rightarrow> hpu_ring option" where
  "hpu_ring_create mem alloc_ok capacity_bytes pol =
     (if capacity_bytes < META_SIZE * 2 then None
      else if \<not> alloc_ok then None
      else Some \<lparr>capacity = align8 capacity_bytes, buf = map mem [0..<align8 capacity_bytes], policy = pol,
                 ring_head = 0, ring_tail = 0, dropped = 0, overwritten = 0, closed = False, woken = []\<rparr>)"

section \<open>Writing\<close>

text \<open>Both writers return the ring with the record in memory and the length written.\<close>

definition write_record :: "hpu_ring \<Rightarrow> nat \<Rightarrow> hpu_ring_msg \<Rightarrow> nat \<Rightarrow> hpu_ring \<times> nat" where
  "write_record r pos msg tot =
     (r\<lparr>buf := splice_at (pos mod capacity r) (encode_meta (fill_meta msg tot) @ payload msg) (buf r)\<rparr>, tot)"

definition write_pad :: "hpu_ring \<Rightarrow> nat \<Rightarrow> hpu_ring \<times> nat" where
  "write_pad r pos =
     (let off = pos mod capacity r; pad = (capacity r - off) mod 2 ^ 32
      in (r\<lparr>buf := splice_at off (encode_meta (pad_meta pad)) (buf r)\<rparr>, pad))"

definition record_bytes :: "hpu_ring \<Rightarrow> nat \<Rightarrow> byte list" where
  "record_bytes r pos = drop (pos mod capacity r) (buf r)"

text \<open>
  The overwrite policy's inner loop. It ends only when enough is free, hence the option:
  \<open>None\<close> is a loop that never ends.
\<close>

partial_function (option) drop_oldest :: "nat \<Rightarrow> hpu_ring \<Rightarrow> hpu_ring option" where
  "drop_oldest need r =
     (if capacity r - (ring_tail r - ring_head r) < need then
        let oldest = decode_meta (record_bytes r (ring_head r))
        in drop_oldest need
             (r\<lparr>ring_head := ring_head r + unat (total_len oldest),
                overwritten := overwritten r + (if is_pad oldest then 0 else 1)\<rparr>)
      else Some r)"

text \<open>One iteration of the put loop: go round again, return a code, or wait for space.\<close>

datatype put_ctl = PutContinue hpu_ring | PutReturn hpu_ring int | PutWait hpu_ring

definition put_iter :: "nat \<Rightarrow> hpu_ring_msg \<Rightarrow> hpu_ring \<Rightarrow> put_ctl option" where
  "put_iter need msg r =
     (let free_bytes = capacity r - (ring_tail r - ring_head r);
          contig = capacity r - ring_tail r mod capacity r;
          min_pad = align8 META_SIZE
      in if closed r then Some (PutReturn (r\<lparr>dropped := dropped r + 1\<rparr>) HPU_RING_DROPPED)
         else if contig < need \<and> free_bytes \<ge> contig then
           (case write_pad r (ring_tail r) of (r1, n) \<Rightarrow>
              Some (PutContinue (wake_up Signal_not_empty (r1\<lparr>ring_tail := ring_tail r1 + n\<rparr>))))
         else if contig \<ge> need \<and> free_bytes \<ge> need then
           (case write_record r (ring_tail r) msg
                   (if contig - need < min_pad then contig mod 2 ^ 32 else need) of (r1, n) \<Rightarrow>
              Some (PutReturn (wake_up Signal_not_empty (r1\<lparr>ring_tail := ring_tail r1 + n\<rparr>)) HPU_RING_OK))
         else case policy r of
           RB_POL_OVERWRITE \<Rightarrow>
             map_option (\<lambda>r1. PutContinue (wake_up Broadcast_not_full (wake_up Signal_not_empty r1)))
               (drop_oldest need r)
         | RB_POL_WAIT \<Rightarrow> Some (PutWait r)
         | RB_POL_DISCARD \<Rightarrow> Some (PutReturn (r\<lparr>dropped := dropped r + 1\<rparr>) HPU_RING_DROPPED))"

partial_function (option) put_loop :: "nat \<Rightarrow> hpu_ring_msg \<Rightarrow> hpu_ring \<Rightarrow> put_ctl option" where
  "put_loop need msg r =
     (case put_iter need msg r of
        None \<Rightarrow> None
      | Some c \<Rightarrow> (case c of PutContinue r1 \<Rightarrow> put_loop need msg r1 | _ \<Rightarrow> Some c))"

text \<open>
  A put up to its return, or up to its wait on \<^verbatim>\<open>not_full\<close>; a woken waiter runs the loop
  again, which is another call.
\<close>

definition hpu_ring_put :: "hpu_ring \<Rightarrow> hpu_ring_msg \<Rightarrow> put_ctl option" where
  "hpu_ring_put r msg = put_loop (record_len msg) msg r"

section \<open>Reading\<close>

datatype get_ctl = GetContinue hpu_ring | GetReturn hpu_ring int "hpu_ring_view option" | GetWait hpu_ring

text \<open>
  One iteration of the get loop. \<open>staging\<close> is the size of the caller's staging buffer, if
  it gave one; \<open>expired\<close> says whether the clock has passed the deadline.
\<close>

definition get_iter :: "nat option \<Rightarrow> bool \<Rightarrow> bool \<Rightarrow> hpu_ring \<Rightarrow> get_ctl" where
  "get_iter staging poll expired r =
     (if ring_head r \<noteq> ring_tail r then
        let view = read_view (record_bytes r (ring_head r)); tot = unat (total_len (v_meta view))
        in if is_pad (v_meta view)
           then GetContinue (wake_up Broadcast_not_full (r\<lparr>ring_head := ring_head r + tot\<rparr>))
           else GetReturn (wake_up Broadcast_not_full (r\<lparr>ring_head := ring_head r + tot\<rparr>)) HPU_RING_OK
                  (Some (case staging of
                           Some len \<Rightarrow> if len \<ge> tot then read_view (take tot (record_bytes r (ring_head r))) else view
                         | None \<Rightarrow> view))
      else if closed r \<or> poll then GetReturn r HPU_RING_EMPTY None
      else if expired then GetReturn r HPU_RING_EMPTY None
      else GetWait r)"

partial_function (option) get_loop :: "nat option \<Rightarrow> bool \<Rightarrow> bool \<Rightarrow> hpu_ring \<Rightarrow> get_ctl option" where
  "get_loop staging poll expired r =
     (case get_iter staging poll expired r of
        GetContinue r1 \<Rightarrow> get_loop staging poll expired r1
      | c \<Rightarrow> Some c)"

definition hpu_ring_get :: "hpu_ring \<Rightarrow> nat option \<Rightarrow> nat \<Rightarrow> bool \<Rightarrow> get_ctl option" where
  "hpu_ring_get r staging timeout_ms expired = get_loop staging (timeout_ms = 0) expired r"

definition hpu_ring_kick_consumer :: "hpu_ring \<Rightarrow> hpu_ring" where
  "hpu_ring_kick_consumer r = wake_up Broadcast_not_empty r"

definition hpu_ring_close :: "hpu_ring \<Rightarrow> hpu_ring" where
  "hpu_ring_close r = wake_up Broadcast_not_full (wake_up Broadcast_not_empty (r\<lparr>closed := True\<rparr>))"

definition hpu_ring_used :: "hpu_ring \<Rightarrow> nat" where
  "hpu_ring_used r = ring_tail r - ring_head r"

definition hpu_ring_capacity :: "hpu_ring \<Rightarrow> nat" where
  "hpu_ring_capacity r = capacity r"

definition hpu_ring_counters :: "hpu_ring \<Rightarrow> nat \<times> nat" where
  "hpu_ring_counters r = (dropped r, overwritten r)"

end
