(* ===== verification/SavedConfig.thy ===== *)
theory SavedConfig
  imports ConfModel
begin

text \<open>
  The deep copy of a code configuration that the fork path rebuilds from (\<^verbatim>\<open>saved_cfg_copy\<close> of
  \<^verbatim>\<open>src/core/core.c\<close>): every string goes into one pool whose size is computed first. Shown: the
  pool is filled to its last byte and never past it, and the copy reads back as the configuration.
\<close>

section \<open>The copy\<close>

text \<open>
  Pointers into the pool are offsets. The value copy \<open>sv_cfg\<close> keeps the other members; the arrays of
  \<^verbatim>\<open>sinks\<close> and the truncation marker stay the caller's.
\<close>

record hpu_saved_cfg =
  sv_cfg :: hpulogc_config
  sv_default_format :: "nat option"
  sv_default_out :: "nat option list"
  sv_outputs :: "(hpulogc_output \<times> nat option \<times> nat option) list"
  sv_rules :: "(hpulogc_rule \<times> nat option \<times> nat option \<times> nat option list) list"
  sv_pool :: string

definition opt_size :: "string option \<Rightarrow> nat" where
  "opt_size s = (case s of None \<Rightarrow> 0 | Some t \<Rightarrow> length t + 1)"

definition saved_pool_size :: "hpulogc_config \<Rightarrow> nat" where
  "saved_pool_size c =
     opt_size (cfg_default_format c) + sum_list (map opt_size (cfg_default_outputs c))
     + sum_list (map (\<lambda>o1. opt_size (out_path o1) + opt_size (out_rotate_naming o1)) (cfg_outputs c))
     + sum_list (map (\<lambda>r. opt_size (cr_category r) + opt_size (cr_format r) + sum_list (map opt_size (cr_outputs r))) (cfg_rules c))"

definition pool_store :: "string option \<Rightarrow> string \<Rightarrow> nat option \<times> string" where
  "pool_store src mem = (case src of None \<Rightarrow> (None, mem) | Some s \<Rightarrow> (Some (length mem), mem @ s @ [CHR 0x00]))"

fun store_all :: "string option list \<Rightarrow> string \<Rightarrow> nat option list \<times> string" where
  "store_all [] mem = ([], mem)"
| "store_all (s # ss) mem =
     (case pool_store s mem of (p, mem1) \<Rightarrow> case store_all ss mem1 of (ps, mem2) \<Rightarrow> (p # ps, mem2))"

fun store_outputs :: "hpulogc_output list \<Rightarrow> string \<Rightarrow> (hpulogc_output \<times> nat option \<times> nat option) list \<times> string" where
  "store_outputs [] mem = ([], mem)"
| "store_outputs (o1 # os) mem =
     (case pool_store (out_path o1) mem of (p, mem1) \<Rightarrow>
      case pool_store (out_rotate_naming o1) mem1 of (q, mem2) \<Rightarrow>
      case store_outputs os mem2 of (rest, mem3) \<Rightarrow> ((o1, p, q) # rest, mem3))"

fun store_rules :: "hpulogc_rule list \<Rightarrow> string \<Rightarrow> (hpulogc_rule \<times> nat option \<times> nat option \<times> nat option list) list \<times> string" where
  "store_rules [] mem = ([], mem)"
| "store_rules (r # rs) mem =
     (case pool_store (cr_category r) mem of (p, mem1) \<Rightarrow>
      case pool_store (cr_format r) mem1 of (q, mem2) \<Rightarrow>
      case store_all (cr_outputs r) mem2 of (ns, mem3) \<Rightarrow>
      case store_rules rs mem3 of (rest, mem4) \<Rightarrow> ((r, p, q, ns) # rest, mem4))"

text \<open>
  \<open>alloc\<close> says whether an allocation of the given number of elements succeeds; what an allocation of no
  element returns depends on the C library, and the one of the rules' names may be of none.
\<close>

definition saved_cfg_copy :: "(nat \<Rightarrow> bool) \<Rightarrow> hpulogc_config \<Rightarrow> int + hpu_saved_cfg" where
  "saved_cfg_copy alloc src =
     (let rule_names = sum_list (map (\<lambda>r. length (cr_outputs r)) (cfg_rules src)); pool_size = saved_pool_size src
      in if pool_size > 0 \<and> \<not> alloc pool_size then Inl HPULOGC_ERR_NO_MEM
         else if cfg_outputs src \<noteq> [] \<and> \<not> alloc (length (cfg_outputs src)) then Inl HPULOGC_ERR_NO_MEM
         else if cfg_rules src \<noteq> [] \<and> (\<not> alloc (length (cfg_rules src)) \<or> \<not> alloc rule_names) then Inl HPULOGC_ERR_NO_MEM
         else if cfg_default_outputs src \<noteq> [] \<and> \<not> alloc (length (cfg_default_outputs src)) then Inl HPULOGC_ERR_NO_MEM
         else case pool_store (cfg_default_format src) [] of (df, p1) \<Rightarrow>
              case store_all (cfg_default_outputs src) p1 of (dos, p2) \<Rightarrow>
              case store_outputs (cfg_outputs src) p2 of (os, p3) \<Rightarrow>
              case store_rules (cfg_rules src) p3 of (rs, p4) \<Rightarrow>
                Inr \<lparr>sv_cfg = src, sv_default_format = df, sv_default_out = dos, sv_outputs = os, sv_rules = rs, sv_pool = p4\<rparr>)"

text \<open>The configuration the saved block stands for.\<close>

definition pool_read :: "string \<Rightarrow> nat option \<Rightarrow> string option" where
  "pool_read mem p = map_option (\<lambda>i. cstr (drop i mem)) p"

definition saved_view :: "hpu_saved_cfg \<Rightarrow> hpulogc_config" where
  "saved_view s = (sv_cfg s)\<lparr>
     cfg_default_format := pool_read (sv_pool s) (sv_default_format s),
     cfg_default_outputs := map (pool_read (sv_pool s)) (sv_default_out s),
     cfg_outputs := map (\<lambda>(o1, p, q). o1\<lparr>out_path := pool_read (sv_pool s) p, out_rotate_naming := pool_read (sv_pool s) q\<rparr>)
                      (sv_outputs s),
     cfg_rules := map (\<lambda>(r, p, q, ns). r\<lparr>cr_category := pool_read (sv_pool s) p, cr_format := pool_read (sv_pool s) q,
                                        cr_outputs := map (pool_read (sv_pool s)) ns\<rparr>) (sv_rules s)\<rparr>"

section \<open>The pool\<close>

text \<open>A C string, and what a later write behind the stored strings leaves of them.\<close>

definition is_cstring :: "string option \<Rightarrow> bool" where
  "is_cstring s \<longleftrightarrow> (case s of None \<Rightarrow> True | Some t \<Rightarrow> CHR 0x00 \<notin> set t)"

lemma cstr_stops: "CHR 0x00 \<notin> set t \<Longrightarrow> cstr (t @ CHR 0x00 # rest) = t"
  by (induction t) (auto simp: cstr_def)

lemma pool_store_facts:
  assumes "pool_store s mem = (p, mem1)"
  shows "\<exists>new. mem1 = mem @ new \<and> length new = opt_size s"
    "is_cstring s \<Longrightarrow> pool_read (mem1 @ rest) p = s"
  using assms by (auto simp: pool_store_def opt_size_def is_cstring_def pool_read_def cstr_stops split: option.splits)

lemma store_all_facts:
  "store_all ss mem = (ps, mem1) \<Longrightarrow> (\<exists>new. mem1 = mem @ new \<and> length new = sum_list (map opt_size ss))
    \<and> (list_all is_cstring ss \<longrightarrow> map (pool_read (mem1 @ rest)) ps = ss)"
proof (induction ss arbitrary: mem ps mem1)
  case Nil
  then show ?case by simp
next
  case (Cons s ss)
  obtain p p1 where a: "pool_store s mem = (p, p1)" by (cases "pool_store s mem")
  obtain ps' where b: "store_all ss p1 = (ps', mem1)" "ps = p # ps'" using Cons.prems a by (auto split: prod.splits)
  obtain n1 where n1: "p1 = mem @ n1" "length n1 = opt_size s" using pool_store_facts(1) [OF a] by blast
  obtain n2 where n2: "mem1 = p1 @ n2" "length n2 = sum_list (map opt_size ss)" using Cons.IH [OF b(1)] by blast
  have "pool_read (mem1 @ rest) p = s" if "is_cstring s" using pool_store_facts(2) [OF a that, of "n2 @ rest"] n2 by simp
  then show ?case using Cons.IH [OF b(1)] n1 n2 b(2) by simp
qed

lemma store_outputs_facts:
  "store_outputs os mem = (xs, mem1) \<Longrightarrow>
    (\<exists>new. mem1 = mem @ new \<and> length new = sum_list (map (\<lambda>o1. opt_size (out_path o1) + opt_size (out_rotate_naming o1)) os))
    \<and> (list_all (\<lambda>o1. is_cstring (out_path o1) \<and> is_cstring (out_rotate_naming o1)) os \<longrightarrow>
        map (\<lambda>(o1, p, q). o1\<lparr>out_path := pool_read (mem1 @ rest) p, out_rotate_naming := pool_read (mem1 @ rest) q\<rparr>) xs = os)"
proof (induction os arbitrary: mem xs mem1)
  case Nil
  then show ?case by simp
next
  case (Cons o1 os)
  obtain p m1 where a: "pool_store (out_path o1) mem = (p, m1)" by (cases "pool_store (out_path o1) mem")
  obtain q m2 where b: "pool_store (out_rotate_naming o1) m1 = (q, m2)" by (cases "pool_store (out_rotate_naming o1) m1")
  obtain xs' where c: "store_outputs os m2 = (xs', mem1)" "xs = (o1, p, q) # xs'" using Cons.prems a b by (auto split: prod.splits)
  obtain n1 where n1: "m1 = mem @ n1" "length n1 = opt_size (out_path o1)" using pool_store_facts(1) [OF a] by blast
  obtain n2 where n2: "m2 = m1 @ n2" "length n2 = opt_size (out_rotate_naming o1)" using pool_store_facts(1) [OF b] by blast
  obtain n3 where n3: "mem1 = m2 @ n3" using Cons.IH [OF c(1)] by blast
  have "pool_read (mem1 @ rest) p = out_path o1" if "is_cstring (out_path o1)"
    using pool_store_facts(2) [OF a that, of "n2 @ n3 @ rest"] n2(1) n3 by simp
  moreover have "pool_read (mem1 @ rest) q = out_rotate_naming o1" if "is_cstring (out_rotate_naming o1)"
    using pool_store_facts(2) [OF b that, of "n3 @ rest"] n3 by simp
  ultimately show ?case using Cons.IH [OF c(1)] n1 n2 c(2) by auto
qed

lemma store_rules_facts:
  "store_rules rs mem = (xs, mem1) \<Longrightarrow>
    (\<exists>new. mem1 = mem @ new \<and> length new
       = sum_list (map (\<lambda>r. opt_size (cr_category r) + opt_size (cr_format r) + sum_list (map opt_size (cr_outputs r))) rs))
    \<and> (list_all (\<lambda>r. is_cstring (cr_category r) \<and> is_cstring (cr_format r) \<and> list_all is_cstring (cr_outputs r)) rs \<longrightarrow>
        map (\<lambda>(r, p, q, ns). r\<lparr>cr_category := pool_read (mem1 @ rest) p, cr_format := pool_read (mem1 @ rest) q,
                                cr_outputs := map (pool_read (mem1 @ rest)) ns\<rparr>) xs = rs)"
proof (induction rs arbitrary: mem xs mem1)
  case Nil
  then show ?case by simp
next
  case (Cons r rs)
  obtain p m1 where a: "pool_store (cr_category r) mem = (p, m1)" by (cases "pool_store (cr_category r) mem")
  obtain q m2 where b: "pool_store (cr_format r) m1 = (q, m2)" by (cases "pool_store (cr_format r) m1")
  obtain ns m3 where c: "store_all (cr_outputs r) m2 = (ns, m3)" by (cases "store_all (cr_outputs r) m2")
  obtain xs' where d: "store_rules rs m3 = (xs', mem1)" "xs = (r, p, q, ns) # xs'" using Cons.prems a b c by (auto split: prod.splits)
  obtain n1 where n1: "m1 = mem @ n1" "length n1 = opt_size (cr_category r)" using pool_store_facts(1) [OF a] by blast
  obtain n2 where n2: "m2 = m1 @ n2" "length n2 = opt_size (cr_format r)" using pool_store_facts(1) [OF b] by blast
  obtain n3 where n3: "m3 = m2 @ n3" "length n3 = sum_list (map opt_size (cr_outputs r))" using store_all_facts [OF c] by blast
  obtain n4 where n4: "mem1 = m3 @ n4" using Cons.IH [OF d(1)] by blast
  have "pool_read (mem1 @ rest) p = cr_category r" if "is_cstring (cr_category r)"
    using pool_store_facts(2) [OF a that, of "n2 @ n3 @ n4 @ rest"] n2(1) n3(1) n4 by simp
  moreover have "pool_read (mem1 @ rest) q = cr_format r" if "is_cstring (cr_format r)"
    using pool_store_facts(2) [OF b that, of "n3 @ n4 @ rest"] n3(1) n4 by simp
  moreover have "map (pool_read (mem1 @ rest)) ns = cr_outputs r" if "list_all is_cstring (cr_outputs r)"
    using store_all_facts [OF c, of "n4 @ rest"] that n4 by simp
  ultimately show ?case using Cons.IH [OF d(1)] n1 n2 n3 d(2) by auto
qed

section \<open>The property\<close>

definition config_cstrings :: "hpulogc_config \<Rightarrow> bool" where
  "config_cstrings c \<longleftrightarrow> is_cstring (cfg_default_format c) \<and> list_all is_cstring (cfg_default_outputs c)
     \<and> list_all (\<lambda>o1. is_cstring (out_path o1) \<and> is_cstring (out_rotate_naming o1)) (cfg_outputs c)
     \<and> list_all (\<lambda>r. is_cstring (cr_category r) \<and> is_cstring (cr_format r) \<and> list_all is_cstring (cr_outputs r)) (cfg_rules c)"

text \<open>
  The saved configuration. When the allocations succeed, the copy of a configuration whose strings
  are C strings is made; the strings fill the pool, allocated with the size computed first, exactly to
  its end, and the copy reads back as the configuration it was made from.
\<close>

theorem saved_copy_roundtrip:
  assumes "\<forall>n. alloc n" "config_cstrings src"
  shows "\<exists>s. saved_cfg_copy alloc src = Inr s \<and> length (sv_pool s) = saved_pool_size src \<and> saved_view s = src"
proof -
  obtain df m1 where a: "pool_store (cfg_default_format src) [] = (df, m1)" by (cases "pool_store (cfg_default_format src) []")
  obtain dos m2 where b: "store_all (cfg_default_outputs src) m1 = (dos, m2)" by (cases "store_all (cfg_default_outputs src) m1")
  obtain os m3 where c: "store_outputs (cfg_outputs src) m2 = (os, m3)" by (cases "store_outputs (cfg_outputs src) m2")
  obtain rs m4 where d: "store_rules (cfg_rules src) m3 = (rs, m4)" by (cases "store_rules (cfg_rules src) m3")
  let ?s = "\<lparr>sv_cfg = src, sv_default_format = df, sv_default_out = dos, sv_outputs = os, sv_rules = rs, sv_pool = m4\<rparr>"
  obtain n1 where n1: "m1 = n1" "length n1 = opt_size (cfg_default_format src)" using pool_store_facts(1) [OF a] by auto
  obtain n2 where n2: "m2 = m1 @ n2" "length n2 = sum_list (map opt_size (cfg_default_outputs src))"
    using store_all_facts [OF b] by blast
  obtain n3 where n3: "m3 = m2 @ n3"
    "length n3 = sum_list (map (\<lambda>o1. opt_size (out_path o1) + opt_size (out_rotate_naming o1)) (cfg_outputs src))"
    using store_outputs_facts [OF c] by blast
  obtain n4 where n4: "m4 = m3 @ n4" "length n4
      = sum_list (map (\<lambda>r. opt_size (cr_category r) + opt_size (cr_format r) + sum_list (map opt_size (cr_outputs r))) (cfg_rules src))"
    using store_rules_facts [OF d] by blast
  have "pool_read m4 df = cfg_default_format src" "map (pool_read m4) dos = cfg_default_outputs src"
    "map (\<lambda>(o1, p, q). o1\<lparr>out_path := pool_read m4 p, out_rotate_naming := pool_read m4 q\<rparr>) os = cfg_outputs src"
    "map (\<lambda>(r, p, q, ns). r\<lparr>cr_category := pool_read m4 p, cr_format := pool_read m4 q, cr_outputs := map (pool_read m4) ns\<rparr>) rs
      = cfg_rules src"
    using pool_store_facts(2) [OF a, of "n2 @ n3 @ n4"] store_all_facts [OF b, of "n3 @ n4"] store_outputs_facts [OF c, of n4]
      store_rules_facts [OF d, of "[]"] assms(2) n2(1) n3(1) n4(1)
    by (simp_all add: config_cstrings_def)
  then have "saved_view ?s = src" by (simp add: saved_view_def)
  moreover have "saved_cfg_copy alloc src = Inr ?s" using assms(1) by (simp add: saved_cfg_copy_def a b c d Let_def)
  moreover have "length m4 = saved_pool_size src" using n1 n2 n3 n4 by (simp add: saved_pool_size_def)
  ultimately show ?thesis by (intro exI [of _ ?s]) simp
qed

theorem saved_copy_roundtrip_witness:
  "\<forall>c :: hpulogc_config. let src = c\<lparr>cfg_default_format := Some ''json'', cfg_default_outputs := [Some ''out0'', None], cfg_outputs := [],
        cfg_rules := []\<rparr>
     in \<exists>s. saved_cfg_copy (\<lambda>_. True) src = Inr s \<and> length (sv_pool s) = 10 \<and> saved_view s = src"
proof
  fix c :: hpulogc_config
  let ?src = "c\<lparr>cfg_default_format := Some ''json'', cfg_default_outputs := [Some ''out0'', None], cfg_outputs := [], cfg_rules := []\<rparr>"
  have "config_cstrings ?src" by (simp add: config_cstrings_def is_cstring_def)
  have sz: "saved_pool_size ?src = 10" by (simp add: saved_pool_size_def opt_size_def)
  have "\<forall>n :: nat. (\<lambda>_. True) n" by simp
  from saved_copy_roundtrip [OF this \<open>config_cstrings ?src\<close>]
  show "let src = ?src in \<exists>s. saved_cfg_copy (\<lambda>_. True) src = Inr s \<and> length (sv_pool s) = 10 \<and> saved_view s = src"
    unfolding Let_def sz .
qed

end
