(* ===== verification/Runtime.thy ===== *)
theory Runtime
  imports OutputCore Throttle RingLocked FormatRender SavedConfig
begin

text \<open>
  The global runtime of \<^verbatim>\<open>src/core/core_internal.h\<close> and the small operations on it
  (\<^verbatim>\<open>src/core/core.c\<close>, \<^verbatim>\<open>src/core/api.c\<close>, \<^verbatim>\<open>src/core/signal_safe.c\<close>): the
  counters and their report, the runtime controls, the description of error codes and the line of the
  signal-safe channel.
\<close>

section \<open>State\<close>

datatype hpu_runtime_state = HPU_RT_UNINITIALIZED | HPU_RT_INITIALIZING | HPU_RT_RUNNING | HPU_RT_SHUTDOWN

text \<open>
  The fields of \<^verbatim>\<open>hpu_runtime_t\<close>, with the globals of their own: the category registry, the
  sampling counter, the sink types, the gate of the signal-safe channel and the saved code configuration;
  and the calling thread's time cache. A handle of the snapshot is a number;
  \<open>rt_outs\<close> is the instance it designates. Counters are naturals.
\<close>

record 'p hpu_runtime =
  rt_state :: hpu_runtime_state
  rt_conf :: "hpu_conf option"
  rt_outs :: "nat \<rightharpoonup> 'p output_base"
  rt_conf_gen :: "32 word"
  rt_level :: int
  rt_ts_source :: int
  rt_escape_injection :: bool
  rt_max_log_len :: nat
  rt_ring :: "hpu_ring option"
  rt_consumers :: nat
  rt_watching :: bool
  rt_signal_installed :: bool
  rt_source_path :: string
  rt_fork_behavior :: int
  rt_fork_child :: bool
  rt_fork_dirty :: bool
  rt_fork_disabled :: bool
  rt_accepted :: nat
  rt_written :: nat
  rt_throttled :: nat
  rt_retired_lost :: nat
  rt_fields_dropped :: nat
  rt_reg :: hpu_registry
  rt_sample_seq :: "32 word"
  rt_cache :: hpu_fmt_cache
  rt_sinks :: "'p sink_registry"
  rt_signal_safe :: bool
  rt_saved :: "hpu_saved_cfg option"

text \<open>
  \<^verbatim>\<open>rt_zero\<close>: everything but what lies outside the block. The registry is emptied by its own
  functions, the sampling counter never.
\<close>

definition rt_zero :: "'p hpu_runtime \<Rightarrow> 'p hpu_runtime" where
  "rt_zero rt =
     \<lparr>rt_state = HPU_RT_UNINITIALIZED, rt_conf = None, rt_outs = Map.empty, rt_conf_gen = 0, rt_level = 0, rt_ts_source = 0,
      rt_escape_injection = False, rt_max_log_len = 0, rt_ring = None, rt_consumers = 0, rt_watching = False,
      rt_signal_installed = False, rt_source_path = [], rt_fork_behavior = 0, rt_fork_child = False,
      rt_fork_dirty = False, rt_fork_disabled = False, rt_accepted = 0, rt_written = 0, rt_throttled = 0,
      rt_retired_lost = 0, rt_fields_dropped = 0, rt_reg = rt_reg rt, rt_sample_seq = rt_sample_seq rt,
      rt_cache = rt_cache rt, rt_sinks = rt_sinks rt, rt_signal_safe = rt_signal_safe rt, rt_saved = rt_saved rt\<rparr>"

section \<open>Lost lines\<close>

text \<open>The open instances of a snapshot, in the order of its outputs.\<close>

definition live_outputs :: "'p hpu_runtime \<Rightarrow> hpu_conf \<Rightarrow> 'p output_base list" where
  "live_outputs rt c = List.map_filter (\<lambda>o1. case o_handle o1 of None \<Rightarrow> None | Some h \<Rightarrow> rt_outs rt h) (c_outputs c)"

definition live_lost_total :: "'p hpu_runtime \<Rightarrow> hpu_conf \<Rightarrow> nat" where
  "live_lost_total rt c = sum_list (map hpu_output_lost_total (live_outputs rt c))"

definition hpu_core_retire_output_lost :: "'p hpu_runtime \<Rightarrow> 'p hpu_runtime" where
  "hpu_core_retire_output_lost rt =
     (case rt_conf rt of None \<Rightarrow> rt
      | Some c \<Rightarrow> rt\<lparr>rt_retired_lost := rt_retired_lost rt + live_lost_total rt c\<rparr>)"

definition hpu_core_ring_policy :: "build_flags \<Rightarrow> 'p hpu_runtime \<Rightarrow> int" where
  "hpu_core_ring_policy B rt =
     (let pol = (case rt_conf rt of None \<Rightarrow> HPULOGC_OVERFLOW_DISCARD | Some c \<Rightarrow> c_overflow_policy c);
          pol1 = (if b_lockfree B \<and> pol = HPULOGC_OVERFLOW_WAIT then HPULOGC_OVERFLOW_DISCARD else pol)
      in if b_lockfree B \<and> b_concurrency B \<noteq> CONC_SPSC \<and> pol1 = HPULOGC_OVERFLOW_OVERWRITE
         then HPULOGC_OVERFLOW_DISCARD else pol1)"

section \<open>Runtime controls\<close>

definition hpulogc_set_level :: "int \<Rightarrow> 'p hpu_runtime \<Rightarrow> int \<times> 'p hpu_runtime" where
  "hpulogc_set_level level rt =
     (if rt_state rt \<noteq> HPU_RT_RUNNING then (HPULOGC_ERR_STATE, rt)
      else if level < HPULOGC_LEVEL_TRACE \<or> level > HPULOGC_LEVEL_OFF then (HPULOGC_ERR_INVALID_ARG, rt)
      else (HPULOGC_OK, rt\<lparr>rt_level := level, rt_conf := map_option (\<lambda>c. c\<lparr>c_level := level\<rparr>) (rt_conf rt)\<rparr>))"

definition hpulogc_set_level_for_category ::
  "build_flags \<Rightarrow> string option \<Rightarrow> int \<Rightarrow> 'p hpu_runtime \<Rightarrow> int \<times> 'p hpu_runtime" where
  "hpulogc_set_level_for_category B catg level rt =
     (if \<not> b_category B then (HPULOGC_ERR_CONFIG, rt)
      else if rt_state rt \<noteq> HPU_RT_RUNNING then (HPULOGC_ERR_STATE, rt)
      else case catg of None \<Rightarrow> (HPULOGC_ERR_INVALID_ARG, rt)
      | Some cat \<Rightarrow>
          if level \<noteq> - 1 \<and> (level < HPULOGC_LEVEL_TRACE \<or> level > HPULOGC_LEVEL_OFF) then (HPULOGC_ERR_INVALID_ARG, rt)
          else case hpu_registry_set_override (rt_reg rt) cat level of (r, rc) \<Rightarrow> (rc, rt\<lparr>rt_reg := r\<rparr>))"

text \<open>Whether the override of a slot drops a record; the byte is compared as an int.\<close>

definition override_drops :: "hpu_registry \<Rightarrow> nat option \<Rightarrow> int \<Rightarrow> bool" where
  "override_drops r slot level =
     (case slot of None \<Rightarrow> False
      | Some i \<Rightarrow> let o1 = re_override (rg_entries r ! i) in o1 \<noteq> HPU_REG_NO_OVERRIDE \<and> uint o1 > level)"

definition hpulogc_level_enabled :: "build_flags \<Rightarrow> string option \<Rightarrow> int \<Rightarrow> 'p hpu_runtime \<Rightarrow> bool" where
  "hpulogc_level_enabled B catg level rt =
     (if rt_state rt \<noteq> HPU_RT_RUNNING then False
      else if level < HPULOGC_LEVEL_TRACE \<or> level > HPULOGC_LEVEL_FATAL then False
      else if b_category B \<and> override_drops (rt_reg rt) (hpu_registry_find (rt_reg rt) (Some (cat_match_form catg))) level
      then False
      else level \<ge> rt_level rt)"

section \<open>Statistics\<close>

record hpulogc_stats =
  sg_accepted :: nat
  sg_written :: nat
  sg_dropped :: nat
  sg_overwritten :: nat
  sg_throttled :: nat
  sg_fields_dropped :: nat
  sg_buffer_used :: nat
  sg_buffer_size :: nat

definition hpulogc_get_stats :: "bool \<Rightarrow> 'p hpu_runtime \<Rightarrow> int + hpulogc_stats" where
  "hpulogc_get_stats has_stats rt =
     (if \<not> has_stats then Inl HPULOGC_ERR_INVALID_ARG
      else if rt_state rt \<noteq> HPU_RT_RUNNING then Inl HPULOGC_ERR_STATE
      else let (ring_dropped, ring_overwritten) = (case rt_ring rt of None \<Rightarrow> (0, 0) | Some r \<Rightarrow> hpu_ring_counters r);
               lost0 = rt_retired_lost rt + (case rt_conf rt of None \<Rightarrow> 0 | Some c \<Rightarrow> live_lost_total rt c);
               lost = (if lost0 > rt_written rt then rt_written rt else lost0)
           in Inr \<lparr>sg_accepted = rt_accepted rt, sg_written = rt_written rt - lost, sg_dropped = ring_dropped + lost,
                   sg_overwritten = ring_overwritten, sg_throttled = rt_throttled rt,
                   sg_fields_dropped = rt_fields_dropped rt,
                   sg_buffer_used = (case rt_ring rt of None \<Rightarrow> 0 | Some r \<Rightarrow> hpu_ring_used r),
                   sg_buffer_size = (case rt_ring rt of None \<Rightarrow> 0 | Some r \<Rightarrow> hpu_ring_capacity r)\<rparr>)"

text \<open>The first open output of the name is reported.\<close>

definition hpulogc_get_sink_stats :: "string option \<Rightarrow> bool \<Rightarrow> 'p hpu_runtime \<Rightarrow> int + hpulogc_sink_stats" where
  "hpulogc_get_sink_stats name has_stats rt =
     (case name of None \<Rightarrow> Inl HPULOGC_ERR_INVALID_ARG
      | Some n \<Rightarrow>
          if \<not> has_stats then Inl HPULOGC_ERR_INVALID_ARG
          else if rt_state rt \<noteq> HPU_RT_RUNNING then Inl HPULOGC_ERR_STATE
          else case rt_conf rt of None \<Rightarrow> Inl HPULOGC_ERR_INVALID_ARG
          | Some c \<Rightarrow>
              (case find (\<lambda>o1. o_name o1 = n \<and> o_handle o1 \<noteq> None) (c_outputs c) of
                 None \<Rightarrow> Inl HPULOGC_ERR_INVALID_ARG
               | Some o1 \<Rightarrow>
                   (case rt_outs rt (the (o_handle o1)) of
                      None \<Rightarrow> Inl HPULOGC_ERR_INVALID_ARG
                    | Some b \<Rightarrow> Inr (hpu_output_get_stats b))))"

section \<open>Error descriptions\<close>

definition g_error_descs :: "string list" where
  "g_error_descs = [''success'', ''invalid argument'', ''out of memory'', ''I/O error'', ''configuration error'', ''invalid state'']"

text \<open>
  The return value, and the bytes stored when there is a buffer of \<open>len\<close> bytes. The bound admits code
  -6, one past the table: \<open>after_table\<close> is the string behind the pointer found there.
\<close>

definition hpulogc_strerror :: "string \<Rightarrow> int \<Rightarrow> bool \<Rightarrow> nat \<Rightarrow> int \<times> string option" where
  "hpulogc_strerror after_table code has_buf len =
     (if \<not> has_buf \<and> len \<noteq> 0 then (HPULOGC_ERR_INVALID_ARG, None)
      else let desc = (if code \<le> 0 \<and> code \<ge> - int (length g_error_descs)
                       then (if nat (- code) < length g_error_descs then g_error_descs ! nat (- code) else after_table)
                       else take 31 (''unknown error '' @ dec_int code));
               full = length desc
           in (int full,
               if has_buf \<and> len \<noteq> 0
               then Some (take (if full < len - 1 then full else len - 1) desc @ [CHR 0x00]) else None))"

section \<open>The signal-safe channel\<close>

definition g_ss_tags :: "string list" where
  "g_ss_tags = [''TRACE'', ''DEBUG'', ''INFO'', ''WARN'', ''ERROR'', ''FATAL'', ''LOG'']"

definition ss_append :: "string \<Rightarrow> string \<Rightarrow> string" where
  "ss_append line bytes = line @ take (512 - length line) bytes"

text \<open>The bytes of the single write to the standard error stream; \<open>None\<close> when the channel is off.\<close>

definition hpulogc_log_signal_safe :: "bool \<Rightarrow> int \<Rightarrow> string option \<Rightarrow> string option" where
  "hpulogc_log_signal_safe on level text =
     (if \<not> on then None
      else let body = (case text of None \<Rightarrow> [] | Some s \<Rightarrow> s);
               tag = (if HPULOGC_LEVEL_TRACE \<le> level \<and> level \<le> HPULOGC_LEVEL_FATAL then g_ss_tags ! nat level else g_ss_tags ! 6);
               b1 = ss_append (ss_append (ss_append [] ''[hpulogc]['') tag) ''] '';
               left = 512 - length b1;
               n = (if length body > left - 2 then left - 2 else length body)
           in Some (ss_append (ss_append b1 (take n body)) [CHR 0x0A]))"

text \<open>Every written line fits the static buffer and ends with its newline.\<close>

lemma signal_safe_line:
  assumes "hpulogc_log_signal_safe on level text = Some line"
  shows "length line \<le> 512 \<and> last line = CHR 0x0A"
proof -
  define tag where "tag = (if HPULOGC_LEVEL_TRACE \<le> level \<and> level \<le> HPULOGC_LEVEL_FATAL then g_ss_tags ! nat level else g_ss_tags ! 6)"
  have "\<forall>s \<in> set g_ss_tags. length s \<le> 5" by (simp add: g_ss_tags_def)
  moreover have "length g_ss_tags = 7" by (simp add: g_ss_tags_def)
  moreover have "\<exists>i < 7. tag = g_ss_tags ! i" by (cases "0 \<le> level \<and> level \<le> 5") (force simp: tag_def)+
  ultimately have t: "length tag \<le> 5" using nth_mem by metis
  define b1 where "b1 = ss_append (ss_append (ss_append [] ''[hpulogc]['') tag) ''] ''"
  have b1: "length b1 \<le> 17" using t by (simp add: b1_def ss_append_def)
  define s where "s = (case text of None \<Rightarrow> [] | Some s \<Rightarrow> s)"
  define n where "n = (if length s > 512 - length b1 - 2 then 512 - length b1 - 2 else length s)"
  have on by (rule ccontr) (use assms in \<open>simp add: hpulogc_log_signal_safe_def\<close>)
  then have "ss_append (ss_append b1 (take n s)) [CHR 0x0A] = line"
    using assms unfolding hpulogc_log_signal_safe_def Let_def b1_def n_def s_def tag_def
    by (simp only: if_False option.inject not_True_eq_False)
  moreover have "length b1 + n \<le> 510" using b1 by (auto simp: n_def)
  ultimately show ?thesis by (auto simp: ss_append_def)
qed

end
