(* ===== verification/Pipeline.thy ===== *)
theory Pipeline
  imports Runtime
begin

text \<open>
  The pipeline of \<^verbatim>\<open>src/core/pipeline.c\<close>: the route, render and delivery of one record, and
  the producer's entry with its filter, throttle, body, fields and hand-over to the ring or to the
  synchronous delivery; with the consumer's reading of a ring record
  (\<^verbatim>\<open>src/core/consumer.c\<close>).
\<close>

section \<open>Delivery of one record\<close>

text \<open>Routing; builds without categories match on the level alone.\<close>

definition process_route :: "build_flags \<Rightarrow> hpu_conf \<Rightarrow> hpu_log_record \<Rightarrow> 'p hpu_runtime \<Rightarrow> int \<times> hpu_registry" where
  "process_route B conf rec rt =
     (if b_category B then route_lookup (rt_reg rt) conf (rt_conf_gen rt) (r_level rec) (category rec)
      else (find_index 0 (\<lambda>rule. hpu_conf_rule_level_match rule (r_level rec)) (c_rules conf), rt_reg rt))"

text \<open>The format and the outputs of a rule index.\<close>

definition route_target :: "hpu_conf \<Rightarrow> int \<Rightarrow> hpu_format option \<times> int list" where
  "route_target conf idx =
     (if idx \<ge> 0 then let rule = c_rules conf ! nat idx in (hpu_conf_find_format conf (ru_format rule), ru_outputs rule)
      else (hpu_conf_find_format conf (c_default_format conf), c_default_idx conf))"

definition delivery_event :: "hpu_log_record \<Rightarrow> string \<Rightarrow> hpulogc_event" where
  "delivery_event rec line =
     (let fs = (case fields_wire rec of None \<Rightarrow> [] | Some w \<Rightarrow> hpu_fields_unpack w (field_count rec) HPULOGC_MAX_FIELDS)
      in \<lparr>ev_level = r_level rec, ev_category = category rec, ev_file = r_file rec, ev_func = r_func rec,
          ev_src_line = r_line rec, ev_msg = msg rec, ev_tid = tid rec, ev_realtime_ns = realtime_ns rec,
          ev_mono_us = mono_us rec, ev_line = line, ev_fields = fs, ev_field_count = length fs,
          ev_wire = fields_wire rec\<rparr>)"

text \<open>
  The loop over the target indices. An index is compared as \<^verbatim>\<open>size_t\<close>, so a negative one is
  too large. \<open>None\<close> is a call through a NULL or dangling pointer.
\<close>

fun deliver_loop ::
  "(byte list \<Rightarrow> nat \<Rightarrow> byte list option) \<Rightarrow> hpulogc_event \<Rightarrow> hpu_conf_output list \<Rightarrow> int list
    \<Rightarrow> (nat \<rightharpoonup> 'p output_base) \<Rightarrow> bool \<Rightarrow> ((nat \<rightharpoonup> 'p output_base) \<times> bool) option" where
  "deliver_loop grow ev outs [] store written = Some (store, written)"
| "deliver_loop grow ev outs (i # is) store written =
     (if 0 \<le> i \<and> nat i < length outs \<and> o_handle (outs ! nat i) \<noteq> None then
        (let h = the (o_handle (outs ! nat i))
         in case store h of None \<Rightarrow> None
            | Some b \<Rightarrow>
                (case hpu_output_deliver grow b ev of None \<Rightarrow> None
                 | Some (_, b1) \<Rightarrow> deliver_loop grow ev outs is (store(h \<mapsto> b1)) True))
      else deliver_loop grow ev outs is store written)"

text \<open>
  The outside of a record: the reallocations of the field filter, and whether the thread's two buffers can
  be allocated.
\<close>

record process_env =
  pe_grow :: "byte list \<Rightarrow> nat \<Rightarrow> byte list option"
  pe_tls_ok :: bool
  pe_line_ok :: bool

definition hpu_pipeline_process ::
  "build_flags \<Rightarrow> process_env \<Rightarrow> hpu_log_record \<Rightarrow> 'p hpu_runtime \<Rightarrow> (int \<times> 'p hpu_runtime) option" where
  "hpu_pipeline_process B pe rec rt =
     (case rt_conf rt of None \<Rightarrow> Some (-1, rt)
      | Some conf \<Rightarrow>
        (case process_route B conf rec rt of (idx, reg) \<Rightarrow>
           let rt1 = rt\<lparr>rt_reg := reg\<rparr>; (fmt, out_idx) = route_target conf idx
           in case fmt of None \<Rightarrow> Some (-1, rt1)
           | Some f \<Rightarrow>
             if \<not> pe_tls_ok pe then Some (-1, rt1)
             else if \<not> pe_line_ok pe then Some (-1, rt1)
             else
               (case hpu_format_render f rec (c_env conf) (rt_cache rt1) (c_escape_injection conf) (c_max_log_length conf)
                       (Some (c_truncation_marker conf)) (Some (c_max_log_length conf + 1)) of
                  Inl _ \<Rightarrow> Some (-1, rt1)
                | Inr (line, cache) \<Rightarrow>
                  (case deliver_loop (pe_grow pe) (delivery_event rec line) (c_outputs conf) out_idx (rt_outs rt1) False of
                     None \<Rightarrow> None
                   | Some (store, written) \<Rightarrow>
                       let rt2 = rt1\<lparr>rt_cache := cache, rt_outs := store\<rparr>
                       in if written then Some (0, rt2\<lparr>rt_written := rt_written rt2 + 1\<rparr>)
                          else Some (-1, rt2\<lparr>rt_retired_lost := rt_retired_lost rt2 + 1\<rparr>)))))"

section \<open>The producer's entry\<close>

text \<open>A call, as the caller gave it. The strings are C strings; \<open>None\<close> is NULL.\<close>

record submit_call =
  sc_level :: int
  sc_category :: "string option"
  sc_file :: "string option"
  sc_line :: int
  sc_func :: "string option"
  sc_fields :: "hpulogc_field list"

text \<open>
  The outside of a call: the full text \<^verbatim>\<open>vsnprintf\<close> makes of the format and its arguments
  (\<open>None\<close> for its error), the clock readings, the thread, the rounding of doubles, and which of the
  allocations succeed.
\<close>

record submit_env =
  se_text :: "string option"
  se_throttle1 :: int
  se_throttle2 :: int
  se_tid :: "64 word"
  se_realtime_ns :: int
  se_now_ns :: nat
  se_fl :: "rat \<Rightarrow> rat"
  se_tls_ok :: bool
  se_msg_ok :: bool
  se_wire_ok :: bool
  se_after_wire :: "byte list"
  se_process :: process_env

text \<open>The body in the thread's buffer: the text cut to the limit.\<close>

definition submit_msg :: "submit_env \<Rightarrow> nat \<Rightarrow> string" where
  "submit_msg se max_len = take max_len (case se_text se of None \<Rightarrow> [] | Some s \<Rightarrow> s)"

definition submit_wire_need :: nat where
  "submit_wire_need = HPULOGC_MAX_FIELDS * (6 + HPULOGC_MAX_FIELD_KEY_LEN + HPULOGC_MAX_FIELD_STR_LEN)"

text \<open>The wire region, its field count and the number of fields dropped.\<close>

definition submit_fields :: "submit_env \<Rightarrow> hpulogc_field list \<Rightarrow> nat \<Rightarrow> byte list option \<times> nat \<times> nat" where
  "submit_fields se fs max_len =
     (if fs = [] \<or> \<not> se_wire_ok se then (None, 0, 0)
      else case hpu_fields_serialize fs max_len True submit_wire_need of
             Inl _ \<Rightarrow> (Some [], 0, 0)
           | Inr (w, n, d) \<Rightarrow> (Some w, n, d))"

definition submit_mono_us :: "submit_env \<Rightarrow> 'p hpu_runtime \<Rightarrow> int" where
  "submit_mono_us se rt = (if rt_ts_source rt = HPULOGC_TS_MONOTONIC then int (se_now_ns se div 1000) else 0)"

definition cut_category :: "string option \<Rightarrow> string option" where
  "cut_category cat = map_option (take 65535) cat"

text \<open>The record of the synchronous path and the descriptor of the ring.\<close>

definition submit_record :: "build_flags \<Rightarrow> submit_env \<Rightarrow> submit_call \<Rightarrow> 'p hpu_runtime \<Rightarrow> hpu_log_record" where
  "submit_record B se sc rt =
     (case submit_fields se (sc_fields sc) (rt_max_log_len rt) of (wire, n, _) \<Rightarrow>
        \<lparr>r_level = sc_level sc, category = cut_category (sc_category sc),
         r_file = (if b_source_loc B then sc_file sc else None), r_func = (if b_source_loc B then sc_func sc else None),
         r_line = (if b_source_loc B then sc_line sc else 0), msg = submit_msg se (rt_max_log_len rt),
         realtime_ns = se_realtime_ns se, mono_us = submit_mono_us se rt, tid = se_tid se, fields_wire = wire,
         field_count = n, after_wire = se_after_wire se\<rparr>)"

definition submit_ring_msg :: "build_flags \<Rightarrow> submit_env \<Rightarrow> submit_call \<Rightarrow> 'p hpu_runtime \<Rightarrow> hpu_ring_msg" where
  "submit_ring_msg B se sc rt =
     (case submit_fields se (sc_fields sc) (rt_max_log_len rt) of (wire, n, _) \<Rightarrow>
        \<lparr>g_level = of_int (sc_level sc), g_rec_flags = 0, g_category = obytes (cut_category (sc_category sc)),
         g_file = (if b_source_loc B then obytes (sc_file sc) else []),
         g_func = (if b_source_loc B then obytes (sc_func sc) else []),
         g_line = (if b_source_loc B then of_int (if sc_line sc > 0 then sc_line sc else 0) else 0),
         g_tid = se_tid se, g_realtime_ns = of_int (se_realtime_ns se), g_mono_us = of_int (submit_mono_us se rt),
         g_msg = submit_msg se (rt_max_log_len rt), g_fields = obytes wire, g_field_count = of_nat n\<rparr>)"

text \<open>
  How a call ends: it returns, or its thread waits for space in the ring with the message it will put.
\<close>

datatype 'p submit_ctl = SubmitReturn "'p hpu_runtime" | SubmitWait "'p hpu_runtime" hpu_ring_msg

definition hpu_submit_delivery ::
  "build_flags \<Rightarrow> submit_env \<Rightarrow> submit_call \<Rightarrow> 'p hpu_runtime \<Rightarrow> 'p submit_ctl option" where
  "hpu_submit_delivery B se sc rt =
     (case submit_fields se (sc_fields sc) (rt_max_log_len rt) of (_, _, lost) \<Rightarrow>
        let rt1 = rt\<lparr>rt_fields_dropped := rt_fields_dropped rt + lost\<rparr>
        in case (if b_async B then rt_ring rt1 else None) of
             Some ring \<Rightarrow>
               (case hpu_ring_put ring (submit_ring_msg B se sc rt1) of None \<Rightarrow> None
                | Some (PutReturn r _) \<Rightarrow> Some (SubmitReturn (rt1\<lparr>rt_ring := Some r\<rparr>))
                | Some (PutWait r) \<Rightarrow> Some (SubmitWait (rt1\<lparr>rt_ring := Some r\<rparr>) (submit_ring_msg B se sc rt1))
                | Some (PutContinue r) \<Rightarrow> None)
           | None \<Rightarrow>
               map_option (\<lambda>(_, rt2). SubmitReturn rt2) (hpu_pipeline_process B (se_process se) (submit_record B se sc rt1) rt1))"

text \<open>
  The filter of a call: whether the record passes, and the registry after the lookup, which registers a
  new category; with the slot for the throttle.
\<close>

definition submit_filter :: "build_flags \<Rightarrow> submit_call \<Rightarrow> 'p hpu_runtime \<Rightarrow> bool \<times> hpu_registry \<times> nat option" where
  "submit_filter B sc rt =
     (case (if b_category B then hpu_registry_lookup (rt_reg rt) (Some (cat_match_form (sc_category sc)))
            else (rt_reg rt, None, False)) of
        (reg, slot, _) \<Rightarrow>
          (\<not> override_drops reg slot (sc_level sc) \<and> \<not> sc_level sc < rt_level rt, reg, slot))"

text \<open>The throttle of a call, in builds that have it.\<close>

definition throttle_stage :: "build_flags \<Rightarrow> submit_env \<Rightarrow> submit_call \<Rightarrow> nat option \<Rightarrow> 'p hpu_runtime \<Rightarrow> bool \<times> hpu_registry \<times> 32 word" where
  "throttle_stage B se sc slot rt =
     (if b_throttle B
      then throttle_pass (se_fl se) (rt_conf rt) slot (cat_match_form (sc_category sc)) (se_throttle1 se) (se_throttle2 se)
             (rt_reg rt) (rt_sample_seq rt)
      else (True, rt_reg rt, rt_sample_seq rt))"

text \<open>\<open>fork_check\<close> is \<^verbatim>\<open>hpu_core_fork_check\<close>: it says whether the record is dropped.\<close>

definition hpu_pipeline_submit_ex ::
  "build_flags \<Rightarrow> ('p hpu_runtime \<Rightarrow> bool \<times> 'p hpu_runtime) \<Rightarrow> submit_env \<Rightarrow> submit_call \<Rightarrow> 'p hpu_runtime
    \<Rightarrow> 'p submit_ctl option" where
  "hpu_pipeline_submit_ex B fork_check se sc rt0 =
     (if rt_state rt0 \<noteq> HPU_RT_RUNNING then Some (SubmitReturn rt0)
      else if sc_level sc < HPULOGC_LEVEL_TRACE \<or> sc_level sc > HPULOGC_LEVEL_FATAL then Some (SubmitReturn rt0)
      else case fork_check rt0 of (drop_it, rt) \<Rightarrow>
        if drop_it then Some (SubmitReturn rt)
        else case submit_filter B sc rt of (pass, reg, slot) \<Rightarrow>
          let rt1 = rt\<lparr>rt_reg := reg\<rparr>
          in if \<not> pass then Some (SubmitReturn rt1)
             else let rt2 = rt1\<lparr>rt_accepted := rt_accepted rt1 + 1\<rparr>
             in case throttle_stage B se sc slot rt2 of
               (ok, reg2, seq2) \<Rightarrow>
                 let rt3 = rt2\<lparr>rt_reg := reg2, rt_sample_seq := seq2\<rparr>
                 in if \<not> ok then Some (SubmitReturn (rt3\<lparr>rt_throttled := rt_throttled rt3 + 1\<rparr>))
                    else if \<not> se_tls_ok se then Some (SubmitReturn rt3)
                    else if \<not> se_msg_ok se then Some (SubmitReturn rt3)
                    else hpu_submit_delivery B se sc rt3)"

section \<open>The consumer's reading\<close>

text \<open>
  The record a consumer makes of a ring view. A length of zero with a NULL pointer is a NULL pointer;
  \<open>after\<close> is what follows the record in the staging buffer.
\<close>

definition consumer_view_to_rec :: "byte list \<Rightarrow> hpu_ring_view \<Rightarrow> hpu_log_record" where
  "consumer_view_to_rec after v =
     (let m = v_meta v
      in \<lparr>r_level = uint (and (level_flags m) 0xFF), category = v_category v, r_file = v_file v, r_func = v_func v,
          r_line = sint (m_line m), msg = v_msg v, realtime_ns = sint (m_realtime_ns m), mono_us = sint (m_mono_us m),
          tid = m_tid m, fields_wire = v_fields v, field_count = unat (m_field_count m), after_wire = after\<rparr>)"

text \<open>
  One turn of the consumer's loop, up to a wait: a record is taken out of the ring, read and processed,
  or the ring is empty. \<open>None\<close> is a get that never ends, or a delivery through a NULL pointer.
\<close>

datatype 'p consume_ctl = Consumed "'p hpu_runtime" | ConsumeEmpty "'p hpu_runtime" | ConsumeWait "'p hpu_runtime"

definition consumer_turn ::
  "build_flags \<Rightarrow> process_env \<Rightarrow> byte list \<Rightarrow> nat \<Rightarrow> bool \<Rightarrow> nat \<Rightarrow> 'p hpu_runtime \<Rightarrow> 'p consume_ctl option" where
  "consumer_turn B pe after staging_len expired timeout_ms rt =
     (case rt_ring rt of None \<Rightarrow> None
      | Some ring \<Rightarrow>
          (case hpu_ring_get ring (Some staging_len) timeout_ms expired of
             Some (GetReturn r rc view) \<Rightarrow>
               let rt1 = rt\<lparr>rt_ring := Some r\<rparr>
               in if rc = HPU_RING_OK
                  then map_option (\<lambda>(_, rt2). Consumed rt2) (hpu_pipeline_process B pe (consumer_view_to_rec after (the view)) rt1)
                  else Some (ConsumeEmpty rt1)
           | Some (GetWait r) \<Rightarrow> Some (ConsumeWait (rt\<lparr>rt_ring := Some r\<rparr>))
           | _ \<Rightarrow> None))"

end
