(* ===== verification/RenderLaws.thy ===== *)
theory RenderLaws
  imports FormatRender
begin

text \<open>
  What rendering produces. Every append of \<^verbatim>\<open>src/format/format.c\<close> is shown to be one
  \<open>rb_put\<close> of the text it stands for, so that a line is the concatenation of its actions'
  texts as long as it fits, and is cut by the truncation rule otherwise. The properties
  state the exact line, its bound, the transparency of the time cache, the two escapes
  and the reading of boolean fields.
\<close>

section \<open>Appending is putting a text\<close>

named_theorems rb_simps \<open>each append as one put\<close>

definition rb_put :: "render_buf \<Rightarrow> string \<Rightarrow> render_buf" where
  "rb_put b s =
     b\<lparr>rb_text := take (rb_limit b) (rb_text b @ s),
       rb_trunc := rb_trunc b \<or> rb_limit b < length (rb_text b) + length s\<rparr>"

definition rb_wf :: "render_buf \<Rightarrow> bool" where
  "rb_wf b \<longleftrightarrow> length (rb_text b) \<le> rb_limit b \<and> (rb_trunc b \<longrightarrow> length (rb_text b) = rb_limit b)"

lemma rb_put_limit [simp]: "rb_limit (rb_put b s) = rb_limit b"
  by (simp add: rb_put_def)

lemma rb_put_wf [simp]: "rb_wf b \<Longrightarrow> rb_wf (rb_put b s)"
  by (auto simp: rb_wf_def rb_put_def)

lemma rb_put_Nil [simp]: "rb_wf b \<Longrightarrow> rb_put b [] = b"
  by (cases b) (simp add: rb_wf_def rb_put_def)

lemma rb_put_put [simp]: "rb_put (rb_put b s) t = rb_put b (s @ t)"
proof -
  let ?L = "rb_limit b" and ?x = "rb_text b"
  have "take ?L (take ?L (?x @ s) @ t) = take ?L (?x @ s @ t)"
    by (cases "length ?x \<le> ?L"; cases "length (?x @ s) \<le> ?L") simp_all
  moreover have "?L < length ?x + length s \<or> ?L < length (take ?L (?x @ s)) + length t
      \<longleftrightarrow> ?L < length ?x + length (s @ t)"
    by auto
  ultimately show ?thesis by (simp add: rb_put_def)
qed

lemma rb_append_put [rb_simps]: "rb_wf b \<Longrightarrow> rb_append b s = rb_put b s"
  by (cases b) (auto simp: rb_append_def rb_put_def rb_wf_def Let_def)

lemma rb_append_ch_put [rb_simps]: "rb_wf b \<Longrightarrow> rb_append_ch b c = rb_put b [c]"
  by (cases b) (auto simp: rb_append_ch_def rb_put_def rb_wf_def)

definition num_text :: "nat \<Rightarrow> bool \<Rightarrow> string" where
  "num_text v hex_mode = (if hex_mode then ''0x'' @ hex_digits v else dec_digits v)"

lemma rb_append_num_put [rb_simps]: "rb_wf b \<Longrightarrow> rb_append_num b v h = rb_put b (num_text v h)"
  by (simp add: rb_append_num_def rb_append_put num_text_def)

section \<open>The escapes\<close>

definition inj_esc :: "char \<Rightarrow> string" where
  "inj_esc c =
     (if c = CHR 0x0A \<or> c = CHR 0x0D then [CHR 0x5C, CHR ''n'']
      else if c = CHR 0x1B then CHR 0x5C # ''x1b'' else [c])"

definition injection_escape :: "string \<Rightarrow> string" where
  "injection_escape s = concat (map inj_esc s)"

definition json_esc :: "char \<Rightarrow> string" where
  "json_esc c =
     (if c = CHR 0x22 then [CHR 0x5C, CHR 0x22]
      else if c = CHR 0x5C then [CHR 0x5C, CHR 0x5C]
      else if c = CHR 0x0A then [CHR 0x5C, CHR ''n'']
      else if c = CHR 0x0D then [CHR 0x5C, CHR ''r'']
      else if c = CHR 0x09 then [CHR 0x5C, CHR ''t'']
      else if c = CHR 0x08 then [CHR 0x5C, CHR ''b'']
      else if c = CHR 0x0C then [CHR 0x5C, CHR ''f'']
      else if of_char c < (0x20 :: nat) then u_escape c
      else [c])"

definition json_escape :: "string \<Rightarrow> string" where
  "json_escape s = concat (map json_esc s)"

lemma injection_put [rb_simps]:
  "rb_wf b \<Longrightarrow> rb_append_escaped_injection b s = rb_put b (injection_escape s)"
proof (induction s arbitrary: b)
  case Nil
  then show ?case by (simp add: injection_escape_def)
next
  case (Cons c s)
  have "(if c = CHR 0x0A \<or> c = CHR 0x0D then rb_append b [CHR 0x5C, CHR ''n'']
        else if c = CHR 0x1B then rb_append b (CHR 0x5C # ''x1b'')
        else rb_append_ch b c) = rb_put b (inj_esc c)"
    using Cons.prems by (simp add: rb_simps inj_esc_def)
  then show ?case using Cons by (simp add: injection_escape_def)
qed

lemma json_put [rb_simps]:
  "rb_wf b \<Longrightarrow> rb_append_escaped_json b s = rb_put b (json_escape s)"
proof (induction s arbitrary: b)
  case Nil
  then show ?case by (simp add: json_escape_def)
next
  case (Cons c s)
  have "(if c = CHR 0x22 then rb_append b [CHR 0x5C, CHR 0x22]
        else if c = CHR 0x5C then rb_append b [CHR 0x5C, CHR 0x5C]
        else if c = CHR 0x0A then rb_append b [CHR 0x5C, CHR ''n'']
        else if c = CHR 0x0D then rb_append b [CHR 0x5C, CHR ''r'']
        else if c = CHR 0x09 then rb_append b [CHR 0x5C, CHR ''t'']
        else if c = CHR 0x08 then rb_append b [CHR 0x5C, CHR ''b'']
        else if c = CHR 0x0C then rb_append b [CHR 0x5C, CHR ''f'']
        else if of_char c < (0x20 :: nat) then rb_append b (u_escape c)
        else rb_append_ch b c) = rb_put b (json_esc c)"
    using Cons.prems by (simp add: rb_simps json_esc_def)
  then show ?case using Cons by (simp only: rb_append_escaped_json.simps) (simp add: json_escape_def)
qed

section \<open>Time, fields and actions\<close>

definition ideal_slot :: "hpu_fmt_env \<Rightarrow> int \<Rightarrow> bool \<Rightarrow> fmt_cache_slot" where
  "ideal_slot env sec utc = fill_slot env sec utc undefined"

text \<open>A cache holds, in each valid slot, what a fresh rendering of its second would give.\<close>

definition cache_ok :: "hpu_fmt_env \<Rightarrow> hpu_fmt_cache \<Rightarrow> bool" where
  "cache_ok env cache \<longleftrightarrow>
     (\<forall>u. slot_valid (cache u) \<longrightarrow> cache u = ideal_slot env (cached_sec (cache u)) u)"

lemma fill_slot_ideal: "fill_slot env sec utc s = ideal_slot env sec utc"
  by (simp add: ideal_slot_def fill_slot_def)

lemma ideal_slot_valid [simp]:
  "slot_valid (ideal_slot env sec utc)" "cached_sec (ideal_slot env sec utc) = sec"
  by (auto simp: ideal_slot_def fill_slot_def Let_def split: option.splits prod.splits)

definition frac_text :: "int \<Rightarrow> nat \<Rightarrow> string" where
  "frac_text sub_ns digits = dec_int_zero digits (c_div (c_div sub_ns 1000) (10 ^ (6 - digits)))"

definition time_text :: "hpu_log_record \<Rightarrow> hpu_fmt_env \<Rightarrow> bool \<Rightarrow> string" where
  "time_text rec env utc =
     (if ts_monotonic env then
        let rel_us = max 0 (mono_us rec - mono_base_us env)
        in dec_int (c_div rel_us 1000000) @ ''.'' @ dec_int_zero 6 (c_mod rel_us 1000000)
      else
        let sec = c_div (realtime_ns rec) 1000000000; s = ideal_slot env sec utc
        in slot_prefix s @ (case frac_of env of None \<Rightarrow> []
             | Some (_, digits) \<Rightarrow>
                 frac_text (c_mod (realtime_ns rec) 1000000000) (if digits > 0 then digits else 6) @ slot_suffix s))"

lemma render_time_put:
  assumes "rb_wf b" "cache_ok env cache"
  shows "fst (render_time b rec env cache utc) = rb_put b (time_text rec env utc)"
    and "cache_ok env (snd (render_time b rec env cache utc))"
proof -
  let ?sec = "c_div (realtime_ns rec) 1000000000"
  let ?slot = "if \<not> slot_valid (cache utc) \<or> cached_sec (cache utc) \<noteq> ?sec
                    then fill_slot env ?sec utc (cache utc) else cache utc"
  have s: "?slot = ideal_slot env ?sec utc"
    using assms(2) by (auto simp: fill_slot_ideal cache_ok_def)
  show "fst (render_time b rec env cache utc) = rb_put b (time_text rec env utc)"
    unfolding render_time_def Let_def s using assms(1)
    by (auto simp: time_text_def Let_def rb_simps render_frac_def frac_text_def split: option.split)
  show "cache_ok env (snd (render_time b rec env cache utc))"
    unfolding render_time_def Let_def s using assms(2)
    by (auto simp: cache_ok_def)
qed

definition value_text :: "hpu_fmt_env \<Rightarrow> bool \<Rightarrow> bool \<Rightarrow> byte list \<Rightarrow> nat \<Rightarrow> nat \<Rightarrow> nat \<Rightarrow> string" where
  "value_text env json esc mem ty off val_len =
     (if ty = HPULOGC_FIELD_I64 then dec_int (sint (of_nat (le_dec (bslice off 8 mem)) :: 64 word))
      else if ty = HPULOGC_FIELD_U64 then dec_digits (le_dec (bslice off 8 mem))
      else if ty = HPULOGC_FIELD_F64 then take 39 (fmt_g17 env (le_dec (bslice off 8 mem)))
      else if ty = HPULOGC_FIELD_BOOL then (if le_dec (bslice off 4 mem) \<noteq> 0 then ''true'' else ''false'')
      else if ty = HPULOGC_FIELD_STR then
        (if json then CHR 0x22 # json_escape (bslice off val_len mem) @ [CHR 0x22]
         else if esc then injection_escape (bslice off val_len mem) else bslice off val_len mem)
      else [])"

lemma render_value_put [rb_simps]:
  "rb_wf b \<Longrightarrow> render_value env json esc mem ty off val_len b = rb_put b (value_text env json esc mem ty off val_len)"
  by (simp add: render_value_def value_text_def rb_simps)

definition field_text ::
  "hpu_fmt_env \<Rightarrow> bool \<Rightarrow> bool \<Rightarrow> byte list \<Rightarrow> nat \<Rightarrow> nat \<Rightarrow> nat \<Rightarrow> nat \<Rightarrow> bool \<Rightarrow> string" where
  "field_text env json esc mem off key_len ty val_len first =
     (let key = bslice off key_len mem
      in (if first then [] else if json then '','' else '' '')
         @ (if json then CHR 0x22 # json_escape key @ [CHR 0x22, CHR '':'']
            else (if esc then injection_escape key else key) @ ''='')
         @ value_text env json esc mem ty (off + key_len) val_len)"

lemma fields_render_one_put [rb_simps]:
  "rb_wf b \<Longrightarrow> fields_render_one env json esc mem off key_len ty val_len first b
     = rb_put b (field_text env json esc mem off key_len ty val_len first)"
  by (simp add: fields_render_one_def field_text_def rb_simps Let_def)

fun spans_text ::
  "hpu_fmt_env \<Rightarrow> bool \<Rightarrow> bool \<Rightarrow> byte list \<Rightarrow> (nat \<times> nat \<times> nat \<times> nat) list \<Rightarrow> bool \<Rightarrow> string" where
  "spans_text env json esc mem [] first = []"
| "spans_text env json esc mem ((ko, kl, t, vl) # ss) first =
     field_text env json esc mem ko kl t vl first @ spans_text env json esc mem ss False"

lemma fields_loop_put [rb_simps]:
  "rb_wf b \<Longrightarrow> fields_loop env json esc wire mem n off first b
     = rb_put b (spans_text env json esc mem (spans wire n off) first)"
  by (induction n arbitrary: off first b) (simp_all add: Let_def rb_simps)

definition fields_text :: "hpu_fmt_env \<Rightarrow> hpu_log_record \<Rightarrow> bool \<Rightarrow> bool \<Rightarrow> string" where
  "fields_text env rec json esc =
     (let body = (case fields_wire rec of None \<Rightarrow> []
                  | Some w \<Rightarrow> spans_text env json esc (w @ after_wire rec) (spans w (field_count rec) 0) True)
      in if json then '','' @ [CHR 0x22] @ ''fields'' @ [CHR 0x22] @ '':{'' @ body @ ''}'' else body)"

lemma fields_render_put [rb_simps]:
  "rb_wf b \<Longrightarrow> fields_render env rec json esc b = rb_put b (fields_text env rec json esc)"
  by (simp add: fields_render_def fields_text_def rb_simps Let_def split: option.split)

definition opt_text :: "bool \<Rightarrow> string option \<Rightarrow> string" where
  "opt_text json s = (case s of None \<Rightarrow> [] | Some t \<Rightarrow> if json then json_escape t else t)"

lemma append_opt_put [rb_simps]: "rb_wf b \<Longrightarrow> append_opt json b s = rb_put b (opt_text json s)"
  by (simp add: append_opt_def opt_text_def rb_simps split: option.split)

text \<open>The text one action stands for, whatever the room on the line and the cache.\<close>

definition action_text :: "hpu_format \<Rightarrow> hpu_log_record \<Rightarrow> hpu_fmt_env \<Rightarrow> bool \<Rightarrow> hpu_fmt_action \<Rightarrow> string" where
  "action_text fmt rec env esc a =
     (case a_type a of
        HPU_FA_LITERAL \<Rightarrow> action_lit (pool fmt) a
      | HPU_FA_LEVEL \<Rightarrow> if 0 \<le> r_level rec \<and> r_level rec \<le> 5 then level_tags ! nat (r_level rec) else []
      | HPU_FA_TIME \<Rightarrow> time_text rec env (use_utc env)
      | HPU_FA_TIME_UTC \<Rightarrow> time_text rec env True
      | HPU_FA_PID \<Rightarrow> if is_json fmt then num_text (nat (pid env mod 2 ^ 64)) False
                      else if pid_fmt env = 2 then [] else num_text (nat (pid env mod 2 ^ 64)) (pid_fmt env = 1)
      | HPU_FA_TID \<Rightarrow> if is_json fmt then num_text (unat (tid rec)) False
                      else if tid_fmt env = 2 then [] else num_text (unat (tid rec)) (tid_fmt env = 1)
      | HPU_FA_FILE \<Rightarrow> if source_loc_enabled env then opt_text (is_json fmt) (r_file rec) else []
      | HPU_FA_LINE \<Rightarrow> if source_loc_enabled env then num_text (nat (r_line rec)) False else []
      | HPU_FA_FUNC \<Rightarrow> if source_loc_enabled env then opt_text (is_json fmt) (r_func rec) else []
      | HPU_FA_MSG \<Rightarrow> if is_json fmt then json_escape (msg rec)
                      else if esc then injection_escape (msg rec) else msg rec
      | HPU_FA_CATEGORY \<Rightarrow> opt_text (is_json fmt) (category rec)
      | HPU_FA_FIELDS \<Rightarrow> if field_count rec > 0 \<and> fields_wire rec \<noteq> None
                         then fields_text env rec (is_json fmt) esc else []
      | HPU_FA_NEWLINE \<Rightarrow> newline_bytes env)"

lemma render_action_put:
  assumes "rb_wf b" "cache_ok env cache"
  shows "fst (render_action fmt rec env esc a (b, cache)) = rb_put b (action_text fmt rec env esc a)"
    and "cache_ok env (snd (render_action fmt rec env esc a (b, cache)))"
  using assms
  by (cases "a_type a"; force simp: render_action_def action_text_def rb_simps render_time_put
      opt_text_def json_escape_def split: option.split)+

section \<open>Modifiers and the whole line\<close>

text \<open>What a modifier makes of a text: cut by the precision, then padded to the width.\<close>

definition mod_text :: "hpu_fmt_action \<Rightarrow> string \<Rightarrow> string" where
  "mod_text a s =
     (let s1 = (if a_prec a then take (a_precision a) s else s);
          pad = replicate (a_width a - length s1) (CHR '' '')
      in if a_left a then s1 @ pad else pad @ s1)"

definition plain_mod :: "hpu_fmt_action \<Rightarrow> bool" where
  "plain_mod a \<longleftrightarrow> \<not> a_left a \<and> \<not> a_prec a \<and> a_width a = 0"

lemma mod_text_plain [simp]: "plain_mod a \<Longrightarrow> mod_text a s = s"
  by (simp add: plain_mod_def mod_text_def)

definition line_text :: "hpu_format \<Rightarrow> hpu_log_record \<Rightarrow> hpu_fmt_env \<Rightarrow> bool \<Rightarrow> string" where
  "line_text fmt rec env esc = concat (map (\<lambda>a. mod_text a (action_text fmt rec env esc a)) (actions fmt))"

lemma rb_put_room: "length (rb_text b) + length s \<le> rb_limit b \<Longrightarrow> rb_put b s = b\<lparr>rb_text := rb_text b @ s\<rparr>"
  by (cases b) (simp add: rb_put_def)

lemma modifier_finish_room:
  assumes "\<not> rb_trunc b" "length (rb_text b) + length (mod_text a s) < rb_limit b"
  shows "modifier_finish (rb_put b s) (length (rb_text b)) False a = rb_put b (mod_text a s)"
proof -
  define s1 where "s1 = (if a_prec a then take (a_precision a) s else s)"
  have len: "length (rb_text b) + max (length s1) (a_width a) < rb_limit b"
    using assms(2) by (auto simp: mod_text_def Let_def s1_def [symmetric] split: if_splits)
  define b1 where "b1 = b\<lparr>rb_text := rb_text b @ s1\<rparr>"
  let ?w = "length (rb_text (rb_put b s)) - length (rb_text b)"
  have cut: "(if a_prec a \<and> ?w > a_precision a
      then (rb_put b s)\<lparr>rb_text := take (length (rb_text b) + a_precision a) (rb_text (rb_put b s)), rb_trunc := False\<rparr>
      else rb_put b s) = b1
    \<and> (if a_prec a \<and> ?w > a_precision a then a_precision a else ?w) = length s1"
    using len assms(1) unfolding b1_def s1_def
    by (cases b) (auto simp: rb_put_def min_def split: if_splits)
  have m: "mod_text a s = (if a_left a then s1 @ replicate (a_width a - length s1) (CHR '' '')
      else replicate (a_width a - length s1) (CHR '' '') @ s1)"
    by (simp add: mod_text_def s1_def)
  have "modifier_finish (rb_put b s) (length (rb_text b)) False a
      = b\<lparr>rb_text := rb_text b @ mod_text a s\<rparr>"
    unfolding modifier_finish_def Let_def cut [THEN conjunct1] cut [THEN conjunct2] m
    using len by (cases "a_width a = 0") (auto simp: b1_def)
  also have "\<dots> = rb_put b (mod_text a s)"
    using assms(2) by (simp add: rb_put_room)
  finally show ?thesis .
qed

lemma action_step_plain:
  assumes "rb_wf b" "cache_ok env cache" "plain_mod a"
  shows "fst (action_step fmt rec env esc (b, cache) a) = rb_put b (action_text fmt rec env esc a)
    \<and> cache_ok env (snd (action_step fmt rec env esc (b, cache) a))"
  using assms by (simp add: action_step_def plain_mod_def render_action_put)

lemma action_step_room:
  assumes "rb_wf b" "cache_ok env cache" "\<not> rb_trunc b"
    and "length (rb_text b) + length (mod_text a (action_text fmt rec env esc a)) < rb_limit b"
  shows "fst (action_step fmt rec env esc (b, cache) a) = rb_put b (mod_text a (action_text fmt rec env esc a))
    \<and> cache_ok env (snd (action_step fmt rec env esc (b, cache) a))"
proof (cases "plain_mod a")
  case True
  then show ?thesis using action_step_plain assms(1,2) by simp
next
  case False
  then show ?thesis
    using assms by (auto simp: action_step_def plain_mod_def render_action_put modifier_finish_room)
qed

lemma fold_plain:
  "rb_wf b \<Longrightarrow> cache_ok env cache \<Longrightarrow> list_all plain_mod as \<Longrightarrow>
     fst (foldl (action_step fmt rec env esc) (b, cache) as)
       = rb_put b (concat (map (\<lambda>a. mod_text a (action_text fmt rec env esc a)) as))
     \<and> cache_ok env (snd (foldl (action_step fmt rec env esc) (b, cache) as))"
proof (induction as arbitrary: b cache)
  case Nil
  then show ?case by simp
next
  case (Cons a as)
  let ?r = "action_step fmt rec env esc (b, cache) a"
  have r: "fst ?r = rb_put b (action_text fmt rec env esc a)" "cache_ok env (snd ?r)"
    using Cons.prems action_step_plain [of b env cache a] by auto
  have "foldl (action_step fmt rec env esc) (b, cache) (a # as)
      = foldl (action_step fmt rec env esc) (fst ?r, snd ?r) as" by simp
  then show ?case
    using Cons.IH [of "fst ?r" "snd ?r"] Cons.prems r by simp
qed

lemma fold_room:
  "rb_wf b \<Longrightarrow> cache_ok env cache \<Longrightarrow> \<not> rb_trunc b \<Longrightarrow>
     length (rb_text b) + length (concat (map (\<lambda>a. mod_text a (action_text fmt rec env esc a)) as)) < rb_limit b \<Longrightarrow>
     fst (foldl (action_step fmt rec env esc) (b, cache) as)
       = rb_put b (concat (map (\<lambda>a. mod_text a (action_text fmt rec env esc a)) as))
     \<and> cache_ok env (snd (foldl (action_step fmt rec env esc) (b, cache) as))"
proof (induction as arbitrary: b cache)
  case Nil
  then show ?case by simp
next
  case (Cons a as)
  let ?t = "mod_text a (action_text fmt rec env esc a)"
  let ?r = "action_step fmt rec env esc (b, cache) a"
  have r: "fst ?r = rb_put b ?t" "cache_ok env (snd ?r)"
    using Cons.prems action_step_room [of b env cache a fmt rec esc] by auto
  have put: "\<not> rb_trunc (rb_put b ?t)" "length (rb_text (rb_put b ?t)) = length (rb_text b) + length ?t"
    using Cons.prems by (simp_all add: rb_put_room)
  have "foldl (action_step fmt rec env esc) (b, cache) (a # as)
      = foldl (action_step fmt rec env esc) (fst ?r, snd ?r) as" by simp
  then show ?case
    using Cons.IH [of "rb_put b ?t" "snd ?r"] Cons.prems r put by simp
qed

lemma render_action_wf: "rb_wf b \<Longrightarrow> \<exists>t. fst (render_action fmt rec env esc a (b, cache)) = rb_put b t"
proof -
  assume b: "rb_wf b"
  have "\<exists>t. fst (render_time b rec env cache u) = rb_put b t" for u
    using b by (auto simp: render_time_def Let_def rb_simps render_frac_def split: option.split)
  moreover have "\<exists>t. b = rb_put b t" using b by (intro exI [of _ "[]"]) simp
  ultimately show ?thesis
    using b by (cases "a_type a"; force simp: render_action_def rb_simps)
qed

lemma modifier_finish_wf:
  assumes "rb_wf b"
  shows "rb_wf (modifier_finish (rb_put b s) (length (rb_text b)) (rb_trunc b) a)
    \<and> rb_limit (modifier_finish (rb_put b s) (length (rb_text b)) (rb_trunc b) a) = rb_limit b"
proof -
  let ?p = "rb_put b s"
  let ?w = "length (rb_text ?p) - length (rb_text b)"
  define b1 where "b1 = (if a_prec a \<and> ?w > a_precision a
      then ?p\<lparr>rb_text := take (length (rb_text b) + a_precision a) (rb_text ?p), rb_trunc := rb_trunc b\<rparr>
      else ?p)"
  define w1 where "w1 = (if a_prec a \<and> ?w > a_precision a then a_precision a else ?w)"
  have wf1: "rb_wf b1" "rb_limit b1 = rb_limit b" "length (rb_text b1) = length (rb_text b) + w1"
    using assms by (auto simp: b1_def w1_def rb_wf_def rb_put_def min_def split: if_splits)
  have "\<not> rb_trunc b1" if "length (rb_text b1) + (a_width a - w1) \<le> rb_limit b" "w1 < a_width a"
    using wf1 that by (auto simp: rb_wf_def)
  then show ?thesis
    unfolding modifier_finish_def Let_def b1_def [symmetric] w1_def [symmetric]
    using wf1 by (auto simp: rb_wf_def)
qed

lemma action_step_wf:
  "rb_wf b \<Longrightarrow> rb_wf (fst (action_step fmt rec env esc (b, cache) a))
     \<and> rb_limit (fst (action_step fmt rec env esc (b, cache) a)) = rb_limit b"
  using render_action_wf [of b fmt rec env esc a cache] modifier_finish_wf [of b]
  by (auto simp: action_step_def Let_def)

lemma fold_wf:
  "rb_wf b \<Longrightarrow> rb_wf (fst (foldl (action_step fmt rec env esc) (b, cache) as))
     \<and> rb_limit (fst (foldl (action_step fmt rec env esc) (b, cache) as)) = rb_limit b"
proof (induction as arbitrary: b cache)
  case Nil
  then show ?case by simp
next
  case (Cons a as)
  let ?r = "action_step fmt rec env esc (b, cache) a"
  have "foldl (action_step fmt rec env esc) (b, cache) (a # as)
      = foldl (action_step fmt rec env esc) (fst ?r, snd ?r) as" by simp
  then show ?case using Cons action_step_wf [of b fmt rec env esc cache a] by metis
qed

section \<open>Reading the escapes back\<close>

text \<open>
  The reference reader of a JSON string body (RFC 8259): the characters up to the closing
  quote, and what follows it. \<open>\u\<close> escapes are read for the code points below 256.
\<close>

definition hex_val :: "char \<Rightarrow> nat option" where
  "hex_val c =
     (let n = of_char c :: nat
      in if 48 \<le> n \<and> n \<le> 57 then Some (n - 48)
         else if 97 \<le> n \<and> n \<le> 102 then Some (n - 87)
         else if 65 \<le> n \<and> n \<le> 70 then Some (n - 55) else None)"

definition unescape_letter :: "char \<Rightarrow> char option" where
  "unescape_letter e =
     (if e = CHR 0x22 \<or> e = CHR 0x5C \<or> e = CHR ''/'' then Some e
      else if e = CHR ''n'' then Some (CHR 0x0A) else if e = CHR ''r'' then Some (CHR 0x0D)
      else if e = CHR ''t'' then Some (CHR 0x09) else if e = CHR ''b'' then Some (CHR 0x08)
      else if e = CHR ''f'' then Some (CHR 0x0C) else None)"

text \<open>One character of the body: \<open>None\<close> where the text is not JSON.\<close>

definition json_char :: "string \<Rightarrow> (char \<times> string) option" where
  "json_char s =
     (case s of [] \<Rightarrow> None
      | c # r \<Rightarrow>
          if of_char c < (0x20 :: nat) \<or> c = CHR 0x22 then None
          else if c \<noteq> CHR 0x5C then Some (c, r)
          else case r of [] \<Rightarrow> None
               | e # r2 \<Rightarrow>
                   if e \<noteq> CHR ''u'' then map_option (\<lambda>x. (x, r2)) (unescape_letter e)
                   else if take 2 r2 = ''00'' then
                     (case map hex_val (take 2 (drop 2 r2)) of
                        [Some hi, Some lo] \<Rightarrow> Some (char_of (hi * 16 + lo), drop 4 r2)
                      | _ \<Rightarrow> None)
                   else None)"

lemma json_char_shorter: "json_char s = Some (c, r) \<Longrightarrow> length r < length s"
  by (auto simp: json_char_def split: list.splits if_splits option.splits)

function json_string :: "string \<Rightarrow> (string \<times> string) option" where
  "json_string s =
     (if take 1 s = [CHR 0x22] then Some ([], drop 1 s)
      else case json_char s of None \<Rightarrow> None
           | Some (c, r) \<Rightarrow> map_option (\<lambda>(t, q). (c # t, q)) (json_string r))"
  by pat_completeness auto
termination
  by (relation "measure length") (auto dest: json_char_shorter)

declare json_string.simps [simp del]

lemma hex_val_digit: "d < 16 \<Longrightarrow> hex_val (hex_digit d) = Some d"
  by (auto simp: hex_val_def hex_digit_def Let_def)

lemma json_char_esc: "json_char (json_esc c @ r) = Some (c, r)"
proof (cases "json_esc c = u_escape c \<and> of_char c < (0x20 :: nat)")
  case True
  have "hex_val (hex_digit (of_char c mod 16)) = Some (of_char c mod 16)"
    "hex_val (hex_digit (of_char c div 16)) = Some (of_char c div 16)"
    using True by (auto intro!: hex_val_digit)
  moreover have "char_of ((of_char c :: nat) div 16 * 16 + of_char c mod 16) = c"
    by (metis div_mult_mod_eq char_of_char)
  ultimately show ?thesis using True by (simp add: json_char_def u_escape_def)
next
  case False
  then show ?thesis
    by (auto simp: json_esc_def json_char_def unescape_letter_def split: if_splits)
qed

lemma json_esc_front: "take (Suc 0) (json_esc c @ r) \<noteq> [CHR 0x22]"
  by (auto simp: json_esc_def u_escape_def)

lemma json_string_escape: "json_string (json_escape s @ CHR 0x22 # rest) = Some (s, rest)"
proof (induction s)
  case Nil
  then show ?case by (subst json_string.simps) (simp add: json_escape_def)
next
  case (Cons c s)
  have "json_escape (c # s) = json_esc c @ json_escape s" by (simp add: json_escape_def)
  with Cons show ?case
    by (subst json_string.simps) (simp add: json_char_esc json_esc_front del: take_append)
qed

lemma json_esc_printable: "x \<in> set (json_esc c) \<Longrightarrow> (0x20 :: nat) \<le> of_char x"
  by (auto simp: json_esc_def u_escape_def hex_digit_def split: if_splits)

lemma json_escape_printable: "x \<in> set (json_escape s) \<Longrightarrow> (0x20 :: nat) \<le> of_char x"
  by (auto simp: json_escape_def dest: json_esc_printable)

lemma length_json_esc: "length (json_esc c) \<le> 6"
  by (simp add: json_esc_def u_escape_def)

lemma length_json_escape: "length (json_escape s) \<le> 6 * length s"
  by (induction s) (auto simp: json_escape_def intro: order_trans [OF add_mono [OF length_json_esc]])

text \<open>Bytes that would start a new line, or an escape sequence, on a terminal.\<close>

definition clean :: "string \<Rightarrow> bool" where
  "clean s \<longleftrightarrow> list_all (\<lambda>c. c \<noteq> CHR 0x0A \<and> c \<noteq> CHR 0x0D \<and> c \<noteq> CHR 0x1B) s"

lemma clean_simps [simp]:
  "clean []" "clean (s @ t) \<longleftrightarrow> clean s \<and> clean t"
  "clean (c # s) \<longleftrightarrow> c \<noteq> CHR 0x0A \<and> c \<noteq> CHR 0x0D \<and> c \<noteq> CHR 0x1B \<and> clean s"
  by (auto simp: clean_def)

lemma clean_take: "clean s \<Longrightarrow> clean (take n s)"
  by (auto simp: clean_def list_all_iff dest: in_set_takeD)

lemma clean_injection [simp]: "clean (injection_escape s)"
  by (induction s) (auto simp: injection_escape_def inj_esc_def)

lemma clean_digits [simp]: "clean (dec_digits n)"
proof (induction n rule: dec_digits.induct)
  case (1 n)
  have d: "k < 10 \<Longrightarrow> clean [char_of (48 + k)]" for k :: nat
    by (auto dest!: arg_cong [where f = "of_char :: char \<Rightarrow> nat"])
  show ?case using 1 d by (subst dec_digits.simps) (auto simp del: clean_simps(3))
qed

lemma clean_dec_int [simp]: "clean (dec_int i)"
  by (simp add: dec_int_def)

lemma clean_spans_text:
  "(\<And>n. clean (fmt_g17 env n)) \<Longrightarrow> clean (spans_text env False True mem ss first)"
proof (induction env "False" "True" mem ss first rule: spans_text.induct)
  case (2 env mem ko kl t vl ss first)
  then show ?case by (auto simp: field_text_def value_text_def Let_def intro!: clean_take)
qed simp

section \<open>A concrete environment and record\<close>

definition demo_env :: hpu_fmt_env where
  "demo_env = \<lparr>time_format = None, use_utc = True, ts_monotonic = True, newline_style = NEWLINE_LF,
     pid_fmt = 0, tid_fmt = 1, source_loc_enabled = True, mono_base_us = 0, pid = 42, on_windows = False,
     localtime = (\<lambda>_ _. \<lparr>tm_year = 1970, tm_mon = 1, tm_mday = 1, tm_hour = 0, tm_min = 0, tm_sec = 0,
       tm_wday = 4, tm_yday = 0\<rparr>),
     strftime = (\<lambda>f _. f), fmt_g17 = (\<lambda>_. ''0''), after_time_format = []\<rparr>"

definition demo_rec :: hpu_log_record where
  "demo_rec = \<lparr>r_level = 2, category = None, r_file = None, r_func = None, r_line = 7, msg = ''hi there'',
     realtime_ns = 0, mono_us = 0, tid = 0, fields_wire = None, field_count = 0, after_wire = []\<rparr>"

text \<open>\<open>%-6level%m%n\<close>\<close>

definition demo_fmt :: hpu_format where
  "demo_fmt = \<lparr>fmt_name = ''t'', is_json = False, actions =
     [(plain_action HPU_FA_LEVEL 0 0)\<lparr>a_left := True, a_width := 6\<rparr>,
      plain_action HPU_FA_MSG 0 0, plain_action HPU_FA_NEWLINE 0 0], pool = []\<rparr>"

lemmas demo_defs = demo_env_def demo_rec_def demo_fmt_def plain_action_def line_text_def mod_text_def
  action_text_def level_tags_def newline_bytes_def injection_escape_def inj_esc_def plain_mod_def

lemma demo_cache: "cache_ok env hpu_fmt_cache_init"
  by (simp add: cache_ok_def hpu_fmt_cache_init_def)

section \<open>Properties\<close>

lemma empty_wf [simp]: "rb_wf \<lparr>rb_text = [], rb_limit = n, rb_trunc = False\<rparr>"
  by (simp add: rb_wf_def)

lemma render_unfold:
  "max_line < out_size \<Longrightarrow>
   hpu_format_render fmt rec env cache esc max_line marker (Some out_size) =
     (let r = foldl (action_step fmt rec env esc) (\<lparr>rb_text = [], rb_limit = max_line, rb_trunc = False\<rparr>, cache)
                (actions fmt)
      in Inr (finish_line max_line (case marker of None \<Rightarrow> [] | Some m \<Rightarrow> m) (newline_bytes env) (fst r), snd r))"
  by (simp add: hpu_format_render_def Let_def)

lemma finish_line_put:
  "finish_line max_line mk nl (rb_put \<lparr>rb_text = [], rb_limit = max_line, rb_trunc = False\<rparr> full) =
     (if length full \<le> max_line then full
      else if length mk + length nl < max_line
      then take (max_line - (length mk + length nl)) full @ mk @ nl else nl)"
  by (cases "length full \<le> max_line") (simp_all add: finish_line_def rb_put_def min_def)

text \<open>
  C20. The exact line. When the texts of the template's actions, each cut and padded by its
  modifier, come to less than the line limit, the rendered line is exactly their
  concatenation, whatever is in the time cache so far; and the cache stays coherent.
\<close>

theorem render_exact:
  assumes "cache_ok env cache" "max_line < out_size"
    and "length (line_text fmt rec env esc) < max_line"
  shows "\<exists>cache'. hpu_format_render fmt rec env cache esc max_line marker (Some out_size)
             = Inr (line_text fmt rec env esc, cache') \<and> cache_ok env cache'"
  using assms fold_room [of "\<lparr>rb_text = [], rb_limit = max_line, rb_trunc = False\<rparr>" env cache fmt rec esc "actions fmt"]
  by (simp add: render_unfold Let_def finish_line_def rb_put_room flip: line_text_def)

theorem render_exact_witness:
  "\<exists>cache'. hpu_format_render demo_fmt demo_rec demo_env hpu_fmt_cache_init False 40 None (Some 41)
     = Inr (''INFO  hi there'' @ [CHR 0x0A], cache') \<and> cache_ok demo_env cache'"
proof -
  have l: "line_text demo_fmt demo_rec demo_env False = ''INFO  hi there'' @ [CHR 0x0A]"
    by (simp add: demo_defs numeral_2_eq_2)
  show ?thesis
    using render_exact [OF demo_cache [of demo_env], of 40 41 demo_fmt demo_rec False None]
    unfolding l by simp
qed

text \<open>
  C21. The truncation rule. For a template without modifiers, a line that fits the limit is
  rendered in full; one that does not is cut so that its head, the truncation marker and the
  newline take exactly the limit, and is the newline alone when the limit has no room for
  marker and newline.
\<close>

theorem render_truncates:
  assumes "cache_ok env cache" "max_line < out_size" "list_all plain_mod (actions fmt)"
  shows "map_sum id fst (hpu_format_render fmt rec env cache esc max_line (Some mk) (Some out_size)) =
    Inr (let full = line_text fmt rec env esc; tail = mk @ newline_bytes env
         in if length full \<le> max_line then full
            else if length tail < max_line then take (max_line - length tail) full @ tail
            else newline_bytes env)"
proof -
  let ?b = "\<lparr>rb_text = [], rb_limit = max_line, rb_trunc = False\<rparr>"
  have "fst (foldl (action_step fmt rec env esc) (?b, cache) (actions fmt)) = rb_put ?b (line_text fmt rec env esc)"
    using fold_plain [of ?b env cache "actions fmt" fmt rec esc] assms by (simp add: line_text_def)
  then show ?thesis
    using assms(2) by (simp add: render_unfold Let_def finish_line_put)
qed

theorem render_truncates_witness:
  "map_sum id fst (hpu_format_render (demo_fmt\<lparr>actions := tl (actions demo_fmt)\<rparr>) demo_rec demo_env
      hpu_fmt_cache_init False 7 (Some ''..'') (Some 8)) = Inr (''hi t..'' @ [CHR 0x0A])"
proof -
  let ?f = "demo_fmt\<lparr>actions := tl (actions demo_fmt)\<rparr>"
  have p: "list_all plain_mod (actions ?f)" by (simp add: demo_defs)
  have l: "line_text ?f demo_rec demo_env False = ''hi there'' @ [CHR 0x0A]" by (simp add: demo_defs)
  have n: "newline_bytes demo_env = [CHR 0x0A]" by (simp add: demo_defs)
  show ?thesis
    using render_truncates [OF demo_cache [of demo_env] _ p, of 7 8 demo_rec False "''..''"]
    unfolding l n Let_def by simp
qed

text \<open>
  The bound. Whatever the template, its modifiers, the record and the cache, a
  rendered line is within the limit unless the limit is shorter than a newline; and a line
  shorter than the limit has lost no byte to truncation.
\<close>

theorem render_bounded:
  assumes "hpu_format_render fmt rec env cache esc max_line marker out_size = Inr (line, cache')"
  shows "length line \<le> max max_line (length (newline_bytes env))
    \<and> (let b = fst (foldl (action_step fmt rec env esc)
                (\<lparr>rb_text = [], rb_limit = max_line, rb_trunc = False\<rparr>, cache) (actions fmt))
       in (length (rb_text b) < max_line \<longrightarrow> \<not> rb_trunc b \<and> line = rb_text b)
          \<and> (rb_trunc b \<longrightarrow> (\<exists>head. line = head @ newline_bytes env)))"
proof -
  let ?b0 = "\<lparr>rb_text = [], rb_limit = max_line, rb_trunc = False\<rparr>"
  define b where "b = fst (foldl (action_step fmt rec env esc) (?b0, cache) (actions fmt))"
  have wf: "rb_wf b" "rb_limit b = max_line"
    using fold_wf [of ?b0 fmt rec env esc cache "actions fmt"] by (simp_all add: b_def)
  define m where "m = (case marker of None \<Rightarrow> [] | Some m \<Rightarrow> m)"
  have l: "line = finish_line max_line m (newline_bytes env) b"
    using assms by (auto simp: hpu_format_render_def Let_def b_def m_def split: if_splits)
  have "length line \<le> max max_line (length (newline_bytes env))"
    using wf unfolding l by (auto simp: finish_line_def rb_wf_def)
  moreover have "\<exists>head. line = head @ newline_bytes env" if "rb_trunc b"
  proof -
    have "line = (if max_line > length m + length (newline_bytes env)
            then take (max_line - (length m + length (newline_bytes env))) (rb_text b) @ m
            else []) @ newline_bytes env"
      using wf that unfolding l by (simp add: finish_line_def rb_wf_def)
    then show ?thesis by blast
  qed
  moreover have "length (rb_text b) < max_line \<Longrightarrow> \<not> rb_trunc b \<and> line = rb_text b"
    using wf unfolding l by (auto simp: finish_line_def rb_wf_def)
  ultimately show ?thesis by (simp add: b_def [symmetric])
qed

theorem render_bounded_witness:
  "\<exists>line cache'. hpu_format_render demo_fmt demo_rec demo_env hpu_fmt_cache_init False 5 None (Some 6)
     = Inr (line, cache') \<and> length line \<le> 5"
proof -
  obtain line cache' where
    r: "hpu_format_render demo_fmt demo_rec demo_env hpu_fmt_cache_init False 5 None (Some 6) = Inr (line, cache')"
    by (auto simp: hpu_format_render_def Let_def)
  from render_bounded [OF r] have "length line \<le> 5" by (simp add: demo_defs)
  with r show ?thesis by blast
qed

text \<open>
  C33. The JSON escape is right. With room on the line, escaping any bytes appends a text
  of printable characters only, at most six per byte, that a JSON reader, up to the closing
  quote and whatever follows, reads back as exactly the bytes given.
\<close>

theorem json_escape_roundtrip:
  assumes "length (rb_text b) + 6 * length s \<le> rb_limit b" "\<not> rb_trunc b"
  shows "\<exists>e. rb_append_escaped_json b s = b\<lparr>rb_text := rb_text b @ e\<rparr>
    \<and> list_all (\<lambda>c. (0x20 :: nat) \<le> of_char c) e
    \<and> json_string (e @ CHR 0x22 # rest) = Some (s, rest)"
proof -
  have wf: "rb_wf b" using assms by (simp add: rb_wf_def)
  have "rb_append_escaped_json b s = b\<lparr>rb_text := rb_text b @ json_escape s\<rparr>"
    using assms length_json_escape [of s] wf by (simp add: json_put rb_put_room)
  moreover have "list_all (\<lambda>c. (0x20 :: nat) \<le> of_char c) (json_escape s)"
    by (auto simp: list_all_iff dest: json_escape_printable)
  ultimately show ?thesis using json_string_escape by blast
qed

theorem json_escape_roundtrip_witness:
  "\<exists>e. rb_append_escaped_json \<lparr>rb_text = [], rb_limit = 40, rb_trunc = False\<rparr> [CHR 0x22, CHR 0x01, CHR 0x0A]
      = \<lparr>rb_text = e, rb_limit = 40, rb_trunc = False\<rparr>
    \<and> json_string (e @ CHR 0x22 # '':x'') = Some ([CHR 0x22, CHR 0x01, CHR 0x0A], '':x'')"
  using json_escape_roundtrip [of "\<lparr>rb_text = [], rb_limit = 40, rb_trunc = False\<rparr>"
      "[CHR 0x22, CHR 0x01, CHR 0x0A]" "'':x''"] by auto

text \<open>
  C40. Log injection. In a text template with escaping on, the message and the structured
  fields never put a line feed, a carriage return or an ESC on the line, whatever bytes the
  caller logged (given that the \<^verbatim>\<open>%.17g\<close> rendering of a double has none).
\<close>

theorem injection_safe:
  assumes "a_type a = HPU_FA_MSG \<or> a_type a = HPU_FA_FIELDS" "\<not> is_json fmt"
    and "\<And>v. clean (fmt_g17 env v)" "length (rb_text b) \<le> rb_limit b"
    and "\<not> rb_trunc b"
  shows "\<exists>e. rb_text (fst (render_action fmt rec env True a (b, cache))) = rb_text b @ e \<and> clean e"
proof -
  have wf: "rb_wf b" using assms by (simp add: rb_wf_def)
  define t where "t = action_text fmt rec env True a"
  have "clean t"
    using assms(1,2) clean_spans_text [OF assms(3)]
    by (auto simp: t_def action_text_def fields_text_def Let_def split: option.split)
  moreover have "fst (render_action fmt rec env True a (b, cache)) = rb_put b t"
    using assms(1) wf by (elim disjE) (simp_all add: t_def render_action_def action_text_def assms(2)
        fields_render_put injection_put)
  moreover have "rb_text (rb_put b t) = rb_text b @ take (rb_limit b - length (rb_text b)) t"
    using assms(4) by (simp add: rb_put_def)
  ultimately show ?thesis using clean_take by metis
qed

theorem injection_safe_witness:
  "\<exists>e. rb_text (fst (render_action demo_fmt (demo_rec\<lparr>msg := [CHR 0x0A, CHR 0x1B]\<rparr>) demo_env True
      (plain_action HPU_FA_MSG 0 0) (\<lparr>rb_text = ''> '', rb_limit = 9, rb_trunc = False\<rparr>, hpu_fmt_cache_init)))
     = ''> '' @ e \<and> clean e"
proof -
  let ?b = "\<lparr>rb_text = ''> '', rb_limit = 9, rb_trunc = False\<rparr>"
  have "a_type (plain_action HPU_FA_MSG 0 0) = HPU_FA_MSG \<or> a_type (plain_action HPU_FA_MSG 0 0) = HPU_FA_FIELDS"
    "\<not> is_json demo_fmt" "\<And>v. clean (fmt_g17 demo_env v)" "length (rb_text ?b) \<le> rb_limit ?b" "\<not> rb_trunc ?b"
    by (simp_all add: demo_defs)
  from injection_safe [OF this, of "demo_rec\<lparr>msg := [CHR 0x0A, CHR 0x1B]\<rparr>" hpu_fmt_cache_init]
  show ?thesis by simp
qed

lemma bool_read_past:
  assumes "k2 \<noteq> []" "length k2 \<le> HPULOGC_MAX_FIELD_KEY_LEN"
  shows "le_dec (bslice (6 + length k) 4 (encode_span k ty [CHR 0x00] @ encode_span k2 t2 v2 @ r)) \<noteq> 0"
proof -
  define h where "h = le_enc 2 (length k) @ [char_of ty, CHR 0x00] @ le_enc 2 1 @ k"
  have h: "length h = 6 + length k" by (simp add: h_def)
  have "encode_span k ty [CHR 0x00] @ encode_span k2 t2 v2 @ r = h @ CHR 0x00 # encode_span k2 t2 v2 @ r"
    by (simp add: encode_span_def h_def)
  then have "bslice (6 + length k) 4 (encode_span k ty [CHR 0x00] @ encode_span k2 t2 v2 @ r)
      = take 4 (CHR 0x00 # encode_span k2 t2 v2 @ r)"
    using bslice_append_right0 [of h 4] h by metis
  then show ?thesis using assms by (simp add: encode_span_def le_enc_2 field_limits)
qed

lemma false_bool_byte: "take (Suc 0) (le_enc 4 0) = [CHR 0x00]"
proof -
  have "le_enc 4 0 = CHR 0x00 # le_enc 3 (0 div 256)"
    using le_enc.simps(2) [of 3 0] by (simp add: char_of_def bit_0)
  then show ?thesis by simp
qed

text \<open>
  A false boolean is shown as true. The wire holds one byte per boolean but rendering
  reads four, so a false field that another field with a non-empty key follows is printed
  \<open>key=true\<close>: the next span's key length is read as part of the value.
\<close>

theorem false_bool_shown_true:
  assumes "hpu_fields_serialize (\<lparr>fkey = Some k, fvalue = FBool 0\<rparr> # f2 # fs) budget has_out cap
             = Inr (wire, cnt, lost)" "2 \<le> cnt"
    and "length k \<le> HPULOGC_MAX_FIELD_KEY_LEN"
    and "candidate f2 = Some (k2, t2, v2)" "k2 \<noteq> []"
    and "fields_wire rec = Some wire" "field_count rec = cnt"
  shows "\<exists>rest. rb_text (fields_render env rec False False \<lparr>rb_text = [], rb_limit = n, rb_trunc = False\<rparr>)
           = take n (k @ ''=true'' @ rest)"
proof -
  let ?fs = "\<lparr>fkey = Some k, fvalue = FBool 0\<rparr> # f2 # fs"
  let ?ts = "take cnt (candidates ?fs)"
  from assms(1) obtain z where w: "wire = concat (map enc ?ts) @ replicate z (CHR 0x00)"
    and c: "cnt \<le> length (candidates ?fs)" by (rule serialize_image)
  have cand: "candidates ?fs = (k, HPULOGC_FIELD_BOOL, [CHR 0x00]) # (k2, t2, v2) # candidates fs"
    using assms(3,4) by (simp add: candidates_def candidate_def false_bool_byte)
  obtain ts where ts: "?ts = (k, HPULOGC_FIELD_BOOL, [CHR 0x00]) # (k2, t2, v2) # ts"
    using assms(2) cand by (cases cnt; cases "cnt - 1") auto
  have len: "length ?ts = cnt" using c by simp
  have ok: "list_all span_ok ?ts"
    using candidates_ok [of ?fs] by (auto simp: list_all_iff dest: in_set_takeD)
  have sp: "spans wire cnt 0 = span_list 0 ?ts"
    using spans_region [OF ok, of 0 "[]" "replicate z (CHR 0x00)"] w len by simp
  have mem: "wire @ after_wire rec = encode_span k HPULOGC_FIELD_BOOL [CHR 0x00] @ encode_span k2 t2 v2
      @ (concat (map enc ts) @ replicate z (CHR 0x00) @ after_wire rec)"
    unfolding w ts by (simp add: enc_def)
  have k2: "length k2 \<le> HPULOGC_MAX_FIELD_KEY_LEN"
    using assms(4) by (auto simp: candidate_def split: option.splits if_splits)
  have "bslice 6 (length k) (wire @ after_wire rec) = k"
    using bytes_at_span(1) [of "[]" k HPULOGC_FIELD_BOOL "[CHR 0x00]"] unfolding mem by simp
  then have "field_text env False False (wire @ after_wire rec) 6 (length k) HPULOGC_FIELD_BOOL 1 True
      = k @ ''=true''"
    using bool_read_past [OF assms(5) k2, of k HPULOGC_FIELD_BOOL] unfolding mem
    by (simp add: field_text_def value_text_def field_tags Let_def)
  then obtain rest where "fields_text env rec False False = k @ ''=true'' @ rest"
    using sp assms(6,7) unfolding ts by (auto simp: fields_text_def Let_def)
  then show ?thesis by (auto simp: fields_render_put rb_put_def)
qed

theorem false_bool_shown_true_witness:
  "\<exists>wire rest. rb_text (fields_render demo_env (demo_rec\<lparr>fields_wire := Some wire, field_count := 2\<rparr>) False False
      \<lparr>rb_text = [], rb_limit = 99, rb_trunc = False\<rparr>) = take 99 (''ok'' @ ''=true'' @ rest)"
proof -
  let ?f2 = "\<lparr>fkey = Some ''n'', fvalue = FStr (Some ''x'')\<rparr>"
  let ?fs = "[\<lparr>fkey = Some ''ok'', fvalue = FBool 0\<rparr>, ?f2]"
  obtain wire where r: "hpu_fields_serialize ?fs 100 True 64 = Inr (wire, 2, 0)"
    by (simp add: hpu_fields_serialize_def serialize_loop_def serialize_step_def field_limits
        false_bool_byte)
  have "candidate ?f2 = Some (''n'', HPULOGC_FIELD_STR, ''x'')"
    by (simp add: candidate_def field_limits)
  from false_bool_shown_true [OF r _ _ this, of "demo_rec\<lparr>fields_wire := Some wire, field_count := 2\<rparr>" demo_env 99]
  show ?thesis by (auto simp: field_limits)
qed

end
