(* ===== verification/PipelineLaws.thy ===== *)
theory PipelineLaws
  imports Pipeline RenderLaws ConfModel
begin

text \<open>
  Properties of the pipeline: the level query predicts the filter, a record reaches every output of its
  rule once, with one line, the counters of a synchronous pipeline add up, and a record that went
  through the ring renders to the line of the synchronous path.
\<close>

section \<open>The overrides of a registry\<close>

definition rg_view :: "hpu_registry \<Rightarrow> (string \<times> 8 word) list" where
  "rg_view r = map (\<lambda>e. (re_name e, re_override e)) (rg_entries r)"

definition override_of :: "hpu_registry \<Rightarrow> string \<Rightarrow> 8 word" where
  "override_of r name = (case map_of (rg_view r) name of None \<Rightarrow> HPU_REG_NO_OVERRIDE | Some v \<Rightarrow> v)"

definition override_passes :: "8 word \<Rightarrow> int \<Rightarrow> bool" where
  "override_passes v level \<longleftrightarrow> v = HPU_REG_NO_OVERRIDE \<or> uint v \<le> level"

lemma view_names: "map fst (rg_view r) = map re_name (rg_entries r)"
  by (simp add: rg_view_def)

lemma override_of_slot:
  assumes "reg_wf r" "i < length (rg_entries r)" "re_name (rg_entries r ! i) = name"
  shows "override_of r name = re_override (rg_entries r ! i)"
proof -
  have "(name, re_override (rg_entries r ! i)) \<in> set (rg_view r)"
    using assms(2,3) by (auto simp: rg_view_def in_set_conv_nth intro!: exI [of _ i])
  moreover have "distinct (map fst (rg_view r))" using assms(1) by (simp add: view_names reg_wf_def)
  ultimately show ?thesis by (simp add: override_of_def)
qed

lemma override_of_absent: "name \<notin> re_name ` set (rg_entries r) \<Longrightarrow> override_of r name = HPU_REG_NO_OVERRIDE"
proof -
  assume "name \<notin> re_name ` set (rg_entries r)"
  then have "map_of (rg_view r) name = None" by (auto simp: map_of_eq_None_iff rg_view_def)
  then show ?thesis by (simp add: override_of_def)
qed

lemma override_drops_found:
  assumes "reg_wf r" "hpu_registry_find r (Some name) = slot"
  shows "override_drops r slot level = (\<not> override_passes (override_of r name) level)"
  using find_cases [of r name] assms
  by (auto simp: override_drops_def override_passes_def Let_def override_of_absent override_of_slot)

lemma lookup_view:
  assumes "hpu_registry_lookup r (Some name) = (r', hit, warn)"
  shows "override_of r' x = override_of r x"
proof -
  have "rg_view r' = rg_view r \<or> (\<exists>n. rg_view r' = rg_view r @ [(n, HPU_REG_NO_OVERRIDE)])"
    using lookup_entries [OF assms] by (auto simp: rg_view_def new_entry_def)
  then show ?thesis by (auto simp: override_of_def map_add_def split: option.splits if_splits)
qed

lemma lookup_drops:
  assumes wf: "reg_wf r" and look: "hpu_registry_lookup r (Some name) = (r', hit, warn)"
  shows "override_drops r' hit level = (\<not> override_passes (override_of r name) level)"
proof (cases hit)
  case None
  then have "name \<notin> re_name ` set (rg_entries r)" using lookup_wf [OF wf look] by simp
  then show ?thesis using None by (simp add: override_drops_def override_of_absent override_passes_def)
next
  case (Some i)
  then have i: "reg_wf r'" "i < length (rg_entries r')" "re_name (rg_entries r' ! i) = name"
    using lookup_wf [OF wf look, of i] by simp_all
  then have "override_of r name = re_override (rg_entries r' ! i)"
    using override_of_slot [OF i] lookup_view [OF look] by simp
  then show ?thesis using Some by (auto simp: override_drops_def override_passes_def Let_def)
qed

section \<open>The filter\<close>

lemma filter_is_enabled:
  assumes "reg_wf (rt_reg rt)" "rt_state rt = HPU_RT_RUNNING" "0 \<le> sc_level sc" "sc_level sc \<le> 5"
  shows "fst (submit_filter B sc rt) = hpulogc_level_enabled B (sc_category sc) (sc_level sc) rt"
proof -
  obtain r' hit warn where l: "hpu_registry_lookup (rt_reg rt) (Some (cat_match_form (sc_category sc))) = (r', hit, warn)"
    by (metis prod_cases3)
  have "override_drops r' hit (sc_level sc)
      = override_drops (rt_reg rt) (hpu_registry_find (rt_reg rt) (Some (cat_match_form (sc_category sc)))) (sc_level sc)"
    using lookup_drops [OF assms(1) l] override_drops_found [OF assms(1) refl] by simp
  moreover have "override_drops r None level = False" for r level by (simp add: override_drops_def)
  ultimately show ?thesis
    using l assms(2-4) by (auto simp: submit_filter_def hpulogc_level_enabled_def)
qed

section \<open>Delivery\<close>

definition can_deliver :: "'p output_base \<Rightarrow> bool" where
  "can_deliver b \<longleftrightarrow> ob_queue b \<noteq> None \<or> so_emit (ob_ops b) \<noteq> None"

lemma deliver_total:
  assumes "can_deliver b"
  shows "\<exists>rc b1. hpu_output_deliver grow b ev = Some (rc, b1) \<and> can_deliver b1"
proof (cases "ev_line ev = [] \<or> \<not> ob_enabled b")
  case True
  then show ?thesis using assms by (simp add: hpu_output_deliver_def)
next
  case False
  show ?thesis
  proof (cases "ob_queue b")
    case None
    then obtain f where "so_emit (ob_ops b) = Some f" using assms by (auto simp: can_deliver_def)
    then show ?thesis using False None
      by (simp add: hpu_output_deliver_def Let_def can_deliver_def hpu_sink_account_failed_def split: prod.split)
  next
    case (Some q)
    then show ?thesis using False by (simp add: hpu_output_deliver_def Let_def can_deliver_def split: prod.split)
  qed
qed

text \<open>The instances a list of output indices designates, in order.\<close>

fun target_handles :: "hpu_conf_output list \<Rightarrow> int list \<Rightarrow> nat list" where
  "target_handles outs [] = []"
| "target_handles outs (i # is) =
     (if 0 \<le> i \<and> nat i < length outs \<and> o_handle (outs ! nat i) \<noteq> None
      then the (o_handle (outs ! nat i)) # target_handles outs is else target_handles outs is)"

definition delivered :: "(byte list \<Rightarrow> nat \<Rightarrow> byte list option) \<Rightarrow> hpulogc_event \<Rightarrow> 'p output_base \<Rightarrow> 'p output_base" where
  "delivered grow ev b = (case hpu_output_deliver grow b ev of None \<Rightarrow> b | Some (_, b1) \<Rightarrow> b1)"

lemma can_deliver_delivered [simp]: "can_deliver b \<Longrightarrow> can_deliver (delivered grow ev b)"
  using deliver_total [of b grow ev] by (auto simp: delivered_def)

lemma deliver_loop_targets:
  assumes "\<forall>h \<in> set (target_handles outs is). \<exists>b. store h = Some b \<and> can_deliver b"
  shows "deliver_loop grow ev outs is store written
    = Some (foldl (\<lambda>st h. st(h := map_option (delivered grow ev) (st h))) store (target_handles outs is),
            written \<or> target_handles outs is \<noteq> [])"
  using assms
proof (induction outs "is" arbitrary: store written rule: target_handles.induct)
  case (1 outs)
  then show ?case by simp
next
  case (2 outs i "is")
  show ?case
  proof (cases "0 \<le> i \<and> nat i < length outs \<and> o_handle (outs ! nat i) \<noteq> None")
    case False
    then have t: "target_handles outs (i # is) = target_handles outs is" by simp
    have step: "deliver_loop grow ev outs (i # is) store written = deliver_loop grow ev outs is store written"
      by (simp only: deliver_loop.simps False if_False)
    show ?thesis unfolding step t by (rule 2(2) [OF False]) (use 2(3) in \<open>simp only: t\<close>)
  next
    case True
    define h where "h = the (o_handle (outs ! nat i))"
    have t: "target_handles outs (i # is) = h # target_handles outs is" using True by (simp add: h_def)
    obtain b where b: "store h = Some b" "can_deliver b" using 2(3) unfolding t by auto
    obtain rc b1 where d: "hpu_output_deliver grow b ev = Some (rc, b1)" "can_deliver b1" using deliver_total [OF b(2)] by blast
    have b1: "map_option (delivered grow ev) (store h) = Some b1" using b d by (simp add: delivered_def)
    have step: "deliver_loop grow ev outs (i # is) store written = deliver_loop grow ev outs is (store(h \<mapsto> b1)) True"
      using True b d by (simp add: h_def Let_def)
    have "\<forall>x \<in> set (target_handles outs is). \<exists>b. (store(h \<mapsto> b1)) x = Some b \<and> can_deliver b"
      using 2(3) d(2) unfolding t by auto
    from 2(1) [OF True this, of True] show ?thesis unfolding step t foldl_Cons b1 by (simp only: list.distinct simp_thms)
  qed
qed

text \<open>The same event delivered several times.\<close>

fun deliver_times :: "(byte list \<Rightarrow> nat \<Rightarrow> byte list option) \<Rightarrow> hpulogc_event \<Rightarrow> nat \<Rightarrow> 'p output_base \<Rightarrow> 'p output_base option" where
  "deliver_times grow ev 0 b = Some b"
| "deliver_times grow ev (Suc n) b = (case hpu_output_deliver grow b ev of None \<Rightarrow> None | Some (rc, b1) \<Rightarrow> deliver_times grow ev n b1)"

lemma deliver_times_delivered:
  "can_deliver b \<Longrightarrow> deliver_times grow ev n b = Some ((delivered grow ev ^^ n) b)"
proof (induction n arbitrary: b)
  case (Suc n)
  obtain rc b1 where d: "hpu_output_deliver grow b ev = Some (rc, b1)" using deliver_total [OF Suc.prems] by blast
  then have "delivered grow ev b = b1" by (simp add: delivered_def)
  moreover have "can_deliver b1" using can_deliver_delivered [OF Suc.prems, of grow ev] calculation by simp
  ultimately show ?case using Suc.IH [of b1] d by (simp add: funpow_swap1)
qed simp

lemma fold_targets:
  "foldl (\<lambda>st h. st(h := f (st h))) store hs x = ((f :: 'a \<Rightarrow> 'a) ^^ count_list hs x) (store x)"
  by (induction hs arbitrary: store) (auto simp: funpow_swap1)

lemma map_option_funpow: "(map_option f ^^ n) (Some b) = Some (((f :: 'a \<Rightarrow> 'a) ^^ n) b)"
  by (induction n) simp_all

section \<open>A runtime whose records can be delivered\<close>

abbreviation route_view :: "'p hpu_runtime \<Rightarrow> hpu_conf \<Rightarrow> route_state" where
  "route_view rt c \<equiv> \<lparr>rs_reg = rt_reg rt, rs_conf = c, rs_gen = rt_conf_gen rt\<rparr>"

definition conf_formats_ok :: "hpu_conf \<Rightarrow> bool" where
  "conf_formats_ok c \<longleftrightarrow> hpu_conf_find_format c (c_default_format c) \<noteq> None
     \<and> (\<forall>r \<in> set (c_rules c). hpu_conf_find_format c (ru_format r) \<noteq> None)"

definition handles_ok :: "'p hpu_runtime \<Rightarrow> hpu_conf \<Rightarrow> bool" where
  "handles_ok rt c \<longleftrightarrow> (\<forall>o1 \<in> set (c_outputs c). \<forall>h. o_handle o1 = Some h \<longrightarrow> (\<exists>b. rt_outs rt h = Some b \<and> can_deliver b))"

definition pipeline_ready :: "'p hpu_runtime \<Rightarrow> bool" where
  "pipeline_ready rt \<longleftrightarrow> (\<exists>c. rt_conf rt = Some c \<and> rs_inv (route_view rt c) \<and> conf_formats_ok c \<and> handles_ok rt c)"

definition process_ok :: "process_env \<Rightarrow> bool" where
  "process_ok pe \<longleftrightarrow> pe_tls_ok pe \<and> pe_line_ok pe"

lemma targets_stored:
  assumes "handles_ok rt c" "h \<in> set (target_handles (c_outputs c) is)"
  shows "\<exists>b. rt_outs rt h = Some b \<and> can_deliver b"
proof -
  have "h \<in> set (target_handles (c_outputs c) is) \<Longrightarrow> \<exists>o1 \<in> set (c_outputs c). o_handle o1 = Some h"
    by (induction "is") (auto split: if_splits intro: bexI [OF _ nth_mem])
  then show ?thesis using assms unfolding handles_ok_def by blast
qed

lemma render_total:
  "\<exists>line cache'. hpu_format_render f rec env cache esc n marker (Some (n + 1)) = Inr (line, cache')"
  by (simp add: hpu_format_render_def Let_def)

text \<open>The reference for the route: the first matching rule.\<close>

definition first_route :: "build_flags \<Rightarrow> hpu_conf \<Rightarrow> int \<Rightarrow> string option \<Rightarrow> int" where
  "first_route B c level catg =
     find_index 0 (\<lambda>rule. hpu_conf_rule_level_match rule level
       \<and> (b_category B \<longrightarrow> hpu_pipeline_selector_match (ru_category rule) (cat_match_form catg))) (c_rules c)"

lemma process_routes:
  assumes "rs_inv (route_view rt c)" "0 \<le> r_level rec" "r_level rec \<le> 5"
  shows "fst (process_route B c rec rt) = first_route B c (r_level rec) (category rec)"
    "rs_inv ((route_view rt c)\<lparr>rs_reg := snd (process_route B c rec rt)\<rparr>)"
proof -
  obtain idx reg where l: "route_lookup (rt_reg rt) c (rt_conf_gen rt) (r_level rec) (category rec) = (idx, reg)"
    by (cases "route_lookup (rt_reg rt) c (rt_conf_gen rt) (r_level rec) (category rec)")
  have "idx = first_rule c (r_level rec) (cat_match_form (category rec))"
    using route_result [OF assms(1,2), of "category rec" idx reg] assms(3) l by simp
  then show "fst (process_route B c rec rt) = first_route B c (r_level rec) (category rec)"
    using l by (simp add: process_route_def first_route_def first_rule_def rule_matches_def)
  show "rs_inv ((route_view rt c)\<lparr>rs_reg := snd (process_route B c rec rt)\<rparr>)"
    using route_keeps [OF assms(1)] l assms(1) by (simp add: process_route_def)
qed

lemma first_route_target:
  assumes "conf_formats_ok c"
  obtains f outs where "route_target c (first_route B c level catg) = (Some f, outs)"
proof -
  define idx where "idx = first_route B c level catg"
  have "idx = - 1 \<or> (\<exists>k. idx = int k \<and> k < length (c_rules c))"
    using find_index_cases [of 0 _ "c_rules c"] unfolding idx_def first_route_def by (metis add_0)
  then have "fst (route_target c idx) \<noteq> None"
    using assms by (auto simp: route_target_def conf_formats_ok_def Let_def)
  then show thesis using that unfolding idx_def by (metis option.exhaust prod.collapse)
qed

section \<open>One record\<close>

text \<open>What processing a record does, in terms of its rule.\<close>

lemma process_spec:
  assumes c: "rt_conf rt = Some c" "rs_inv (route_view rt c)" "handles_ok rt c" and pe: "process_ok pe"
    and lvl: "0 \<le> r_level rec" "r_level rec \<le> 5"
    and tgt: "route_target c (first_route B c (r_level rec) (category rec)) = (Some f, outs)"
  obtains line cache reg store where
    "hpu_format_render f rec (c_env c) (rt_cache rt) (c_escape_injection c) (c_max_log_length c)
       (Some (c_truncation_marker c)) (Some (c_max_log_length c + 1)) = Inr (line, cache)"
    "rs_inv ((route_view rt c)\<lparr>rs_reg := reg\<rparr>)" "reg = snd (process_route B c rec rt)"
    "store = foldl (\<lambda>st h. st(h := map_option (delivered (pe_grow pe) (delivery_event rec line)) (st h))) (rt_outs rt)
       (target_handles (c_outputs c) outs)"
    "hpu_pipeline_process B pe rec rt =
       (if target_handles (c_outputs c) outs \<noteq> []
        then Some (0, rt\<lparr>rt_reg := reg, rt_cache := cache, rt_outs := store, rt_written := rt_written rt + 1\<rparr>)
        else Some (-1, rt\<lparr>rt_reg := reg, rt_cache := cache, rt_outs := store, rt_retired_lost := rt_retired_lost rt + 1\<rparr>))"
proof -
  obtain idx reg where r: "process_route B c rec rt = (idx, reg)" by (cases "process_route B c rec rt")
  note p = process_routes [OF c(2) lvl, of B]
  have idx: "idx = first_route B c (r_level rec) (category rec)" using p(1) r by simp
  obtain line cache where l: "hpu_format_render f rec (c_env c) (rt_cache rt) (c_escape_injection c) (c_max_log_length c)
       (Some (c_truncation_marker c)) (Some (c_max_log_length c + 1)) = Inr (line, cache)"
    using render_total by blast
  let ?store = "foldl (\<lambda>st h. st(h := map_option (delivered (pe_grow pe) (delivery_event rec line)) (st h))) (rt_outs rt)
       (target_handles (c_outputs c) outs)"
  have d: "deliver_loop (pe_grow pe) (delivery_event rec line) (c_outputs c) outs (rt_outs rt) False
      = Some (?store, False \<or> target_handles (c_outputs c) outs \<noteq> [])"
    by (rule deliver_loop_targets) (use targets_stored [OF c(3)] in blast)
  have t: "route_target c idx = (Some f, outs)" unfolding idx by (rule tgt)
  show thesis
  proof (rule that [OF l _ _ refl])
    show "rs_inv ((route_view rt c)\<lparr>rs_reg := reg\<rparr>)" using p(2) r by simp
    show "reg = snd (process_route B c rec rt)" using r by simp
    show "hpu_pipeline_process B pe rec rt =
       (if target_handles (c_outputs c) outs \<noteq> []
        then Some (0, rt\<lparr>rt_reg := reg, rt_cache := cache, rt_outs := ?store, rt_written := rt_written rt + 1\<rparr>)
        else Some (-1, rt\<lparr>rt_reg := reg, rt_cache := cache, rt_outs := ?store, rt_retired_lost := rt_retired_lost rt + 1\<rparr>))"
      using pe by (simp add: hpu_pipeline_process_def c(1) r t l [folded Suc_eq_plus1] d Let_def process_ok_def)
  qed
qed

text \<open>
  C1. Delivery. A record of a valid level is rendered once, with the format of the first rule that
  matches its level and category (the default format when none does), and that one line is
  delivered to every open output of the rule, once for each time the rule names the output: a rule that
  names an output twice gets the line there twice. No other output changes. The record counts as written
  when there is such an output.
\<close>

theorem record_reaches_its_rule:
  assumes conf: "rt_conf rt = Some c" "rs_reachable c0 (route_view rt c)" and handles: "handles_ok rt c"
    and env: "process_ok pe" and lvl: "0 \<le> r_level rec" "r_level rec \<le> 5"
    and tgt: "route_target c (first_route B c (r_level rec) (category rec)) = (Some f, outs)"
  shows "\<exists>line cache rt'.
      hpu_format_render f rec (c_env c) (rt_cache rt) (c_escape_injection c) (c_max_log_length c)
        (Some (c_truncation_marker c)) (Some (c_max_log_length c + 1)) = Inr (line, cache)
    \<and> hpu_pipeline_process B pe rec rt = Some (if target_handles (c_outputs c) outs = [] then -1 else 0, rt')
    \<and> (\<forall>h. if h \<in> set (target_handles (c_outputs c) outs)
           then (\<exists>b b'. rt_outs rt h = Some b
                  \<and> deliver_times (pe_grow pe) (delivery_event rec line) (count_list (target_handles (c_outputs c) outs) h) b = Some b'
                  \<and> rt_outs rt' h = Some b')
           else rt_outs rt' h = rt_outs rt h)
    \<and> rt_written rt' = rt_written rt + (if target_handles (c_outputs c) outs = [] then 0 else 1)"
proof -
  let ?hs = "target_handles (c_outputs c) outs"
  obtain line cache reg store where r:
    "hpu_format_render f rec (c_env c) (rt_cache rt) (c_escape_injection c) (c_max_log_length c)
       (Some (c_truncation_marker c)) (Some (c_max_log_length c + 1)) = Inr (line, cache)"
    "store = foldl (\<lambda>st h. st(h := map_option (delivered (pe_grow pe) (delivery_event rec line)) (st h))) (rt_outs rt) ?hs"
    "hpu_pipeline_process B pe rec rt =
       (if ?hs \<noteq> []
        then Some (0, rt\<lparr>rt_reg := reg, rt_cache := cache, rt_outs := store, rt_written := rt_written rt + 1\<rparr>)
        else Some (-1, rt\<lparr>rt_reg := reg, rt_cache := cache, rt_outs := store, rt_retired_lost := rt_retired_lost rt + 1\<rparr>))"
    by (rule process_spec [OF conf(1) reachable_inv [OF conf(2)] handles env lvl tgt])
  have st: "store h = (map_option (delivered (pe_grow pe) (delivery_event rec line)) ^^ count_list ?hs h) (rt_outs rt h)" for h
    unfolding r(2) by (rule fold_targets)
  define rt' where "rt' = (if ?hs \<noteq> []
        then rt\<lparr>rt_reg := reg, rt_cache := cache, rt_outs := store, rt_written := rt_written rt + 1\<rparr>
        else rt\<lparr>rt_reg := reg, rt_cache := cache, rt_outs := store, rt_retired_lost := rt_retired_lost rt + 1\<rparr>)"
  have outs: "rt_outs rt' = store" and w: "rt_written rt' = rt_written rt + (if ?hs = [] then 0 else 1)"
    by (simp_all add: rt'_def)
  have p: "hpu_pipeline_process B pe rec rt = Some (if ?hs = [] then -1 else 0, rt')" unfolding r(3) rt'_def by simp
  have "if h \<in> set ?hs
        then (\<exists>b b'. rt_outs rt h = Some b \<and> deliver_times (pe_grow pe) (delivery_event rec line) (count_list ?hs h) b = Some b'
               \<and> rt_outs rt' h = Some b')
        else rt_outs rt' h = rt_outs rt h" for h
  proof (cases "h \<in> set ?hs")
    case True
    obtain b where b: "rt_outs rt h = Some b" "can_deliver b" using targets_stored [OF handles True] by blast
    show ?thesis using True b(1) deliver_times_delivered [OF b(2)] st by (simp add: outs map_option_funpow)
  next
    case False
    then show ?thesis by (simp add: outs st count_notin)
  qed
  then show ?thesis using r(1) p w by blast
qed

section \<open>What the producer's steps keep\<close>

lemma override_of_updated:
  assumes "re_name e = re_name (rg_entries r ! i)" "re_override e = re_override (rg_entries r ! i)"
  shows "override_of (r\<lparr>rg_entries := (rg_entries r)[i := e]\<rparr>) x = override_of r x"
proof -
  have "rg_view (r\<lparr>rg_entries := (rg_entries r)[i := e]\<rparr>) = rg_view r"
    by (cases "i < length (rg_entries r)") (auto intro!: nth_equalityI simp: rg_view_def nth_list_update assms)
  then show ?thesis by (simp add: override_of_def)
qed

lemma throttle_pass_registry:
  assumes "throttle_pass fl (Some c) slot cat now1 now2 r seq = (ok, r', seq')"
  shows "r' = r \<or> r' = snd (throttle_category fl (c_throttle c) slot cat now2 r)"
proof -
  obtain cat_ok r2 where m: "throttle_category fl (c_throttle c) slot cat now2 r = (cat_ok, r2)"
    by (cases "throttle_category fl (c_throttle c) slot cat now2 r")
  have "r' = r \<or> r' = r2"
    using assms by (simp add: throttle_pass_def Let_def m split: if_splits)
  then show ?thesis by (simp add: m)
qed

lemma throttle_registry:
  assumes "throttle_pass fl (Some c) slot cat now1 now2 r seq = (ok, r', seq')"
  obtains r1 where "r1 = r \<or> (\<exists>hit warn. hpu_registry_lookup r (Some cat) = (r1, hit, warn))"
    "r' = r1 \<or> (\<exists>i tk t. (slot = Some i \<and> r1 = r \<or> (\<exists>warn. hpu_registry_lookup r (Some cat) = (r1, Some i, warn)))
       \<and> r' = r1\<lparr>rg_entries := (rg_entries r1)[i := (rg_entries r1 ! i)\<lparr>re_tokens := tk, re_last_refill := t\<rparr>]\<rparr>)"
proof (cases "r' = r")
  case True
  then show thesis using that [of r] by simp
next
  case False
  then have r': "r' = snd (throttle_category fl (c_throttle c) slot cat now2 r)" using throttle_pass_registry [OF assms] by simp
  have per: "th_per_category_rate (c_throttle c) > 0"
    by (rule ccontr) (use r' False in \<open>simp add: throttle_category_def\<close>)
  have bump: "\<exists>tk t. snd (case throttle_bucket fl a b now2 rate burst of
      (tk, t, ok) \<Rightarrow> (ok, r1\<lparr>rg_entries := (rg_entries r1)[i := (rg_entries r1 ! i)\<lparr>re_tokens := tk, re_last_refill := t\<rparr>]\<rparr>))
    = r1\<lparr>rg_entries := (rg_entries r1)[i := (rg_entries r1 ! i)\<lparr>re_tokens := tk, re_last_refill := t\<rparr>]\<rparr>" for a b rate burst r1 i
    by (cases "throttle_bucket fl a b now2 rate burst") (simp, blast)
  show thesis
  proof (cases slot)
    case (Some i)
    then show thesis using that [of r] r' per bump unfolding throttle_category_def Let_def by simp blast
  next
    case None
    obtain r2 hit warn where l: "hpu_registry_lookup r (Some cat) = (r2, hit, warn)" by (metis prod_cases3)
    show thesis
    proof (cases hit)
      case None
      then have "r' = r2" using r' per \<open>slot = None\<close> l by (simp add: throttle_category_def)
      then show thesis using that [of r2] l by blast
    next
      case (Some i)
      then show thesis using that [of r2] r' per \<open>slot = None\<close> l bump unfolding throttle_category_def Let_def by simp blast
    qed
  qed
qed

lemma throttle_keeps:
  assumes inv: "rs_inv s" and th: "throttle_pass fl (Some c) slot cat now1 now2 (rs_reg s) seq = (ok, r', seq')"
    and slot: "\<And>i. slot = Some i \<Longrightarrow> i < length (rg_entries (rs_reg s))"
  shows "rs_inv (s\<lparr>rs_reg := r'\<rparr>)" "override_of r' x = override_of (rs_reg s) x"
proof -
  obtain r1 where r1: "r1 = rs_reg s \<or> (\<exists>hit warn. hpu_registry_lookup (rs_reg s) (Some cat) = (r1, hit, warn))"
    and r': "r' = r1 \<or> (\<exists>i tk t. (slot = Some i \<and> r1 = rs_reg s \<or> (\<exists>warn. hpu_registry_lookup (rs_reg s) (Some cat) = (r1, Some i, warn)))
       \<and> r' = r1\<lparr>rg_entries := (rg_entries r1)[i := (rg_entries r1 ! i)\<lparr>re_tokens := tk, re_last_refill := t\<rparr>]\<rparr>)"
    by (rule throttle_registry [OF th])
  have wf: "reg_wf (rs_reg s)" using inv by (simp add: rs_inv_def)
  have i1: "rs_inv (s\<lparr>rs_reg := r1\<rparr>)" using r1 inv lookup_keeps [OF inv] by (cases s) auto
  have o1: "override_of r1 x = override_of (rs_reg s) x" using r1 lookup_view by metis
  show "rs_inv (s\<lparr>rs_reg := r'\<rparr>)" "override_of r' x = override_of (rs_reg s) x"
  proof -
    show "override_of r' x = override_of (rs_reg s) x" using r' o1 override_of_updated by (elim disjE exE conjE) simp_all
    have "rs_inv (s\<lparr>rs_reg := r1\<lparr>rg_entries := (rg_entries r1)[i := (rg_entries r1 ! i)\<lparr>re_tokens := tk, re_last_refill := t\<rparr>]\<rparr>\<rparr>)"
      if "slot = Some i \<and> r1 = rs_reg s \<or> (\<exists>warn. hpu_registry_lookup (rs_reg s) (Some cat) = (r1, Some i, warn))" for i tk t
    proof -
      have "i < length (rg_entries r1)" using that slot lookup_wf [OF wf, of "Some cat" r1 "Some i" _ i] by auto
      then show ?thesis using step_keeps [OF rs_step.rs_bucket [of i "s\<lparr>rs_reg := r1\<rparr>" t tk] i1] by simp
    qed
    then show "rs_inv (s\<lparr>rs_reg := r'\<rparr>)" using r' i1 by blast
  qed
qed

lemma route_view_override:
  assumes "route_lookup r c gen level catg = (idx, r')"
  shows "override_of r' x = override_of r x"
proof -
  have "re_override (hpu_registry_refresh_route c gen e) = re_override e \<and> re_name (hpu_registry_refresh_route c gen e) = re_name e" for e
    by (simp add: hpu_registry_refresh_route_def)
  then show ?thesis using assms override_of_updated
    by (auto simp: route_lookup_def Let_def split: option.splits)
qed

lemma process_route_override: "override_of (snd (process_route B c rec rt)) x = override_of (rt_reg rt) x"
  using route_view_override by (cases "route_lookup (rt_reg rt) c (rt_conf_gen rt) (r_level rec) (category rec)")
    (auto simp: process_route_def)

lemma fold_dom: "dom (foldl (\<lambda>st h. st(h := map_option (delivered g ev) (st h))) st hs) = dom st"
proof (induction hs arbitrary: st)
  case (Cons h hs)
  have "dom (st(h := map_option (delivered g ev) (st h))) = dom st" by (auto split: if_splits)
  then show ?case using Cons.IH [of "st(h := map_option (delivered g ev) (st h))"] by (simp only: foldl_Cons)
qed simp

section \<open>The accounts of a synchronous pipeline\<close>

definition submit_ok :: "submit_env \<Rightarrow> bool" where
  "submit_ok se \<longleftrightarrow> se_tls_ok se \<and> se_msg_ok se \<and> process_ok (se_process se)"

text \<open>What the filter of later calls depends on.\<close>

definition same_filter :: "'p hpu_runtime \<Rightarrow> 'p hpu_runtime \<Rightarrow> bool" where
  "same_filter rt rt' \<longleftrightarrow> rt_state rt' = rt_state rt \<and> rt_level rt' = rt_level rt \<and> rt_conf rt' = rt_conf rt
     \<and> rt_ring rt' = rt_ring rt \<and> (\<forall>x. override_of (rt_reg rt') x = override_of (rt_reg rt) x)"

lemma same_filter_trans: "same_filter a b \<Longrightarrow> same_filter b c \<Longrightarrow> same_filter a c"
  by (simp add: same_filter_def)

text \<open>The records accounted for.\<close>

definition settled :: "'p hpu_runtime \<Rightarrow> nat" where
  "settled rt = rt_written rt + rt_throttled rt + rt_retired_lost rt"

lemma handles_kept:
  assumes "handles_ok rt c" "target_handles (c_outputs c) is = hs"
    "rt_outs rt' = foldl (\<lambda>st h. st(h := map_option (delivered g ev) (st h))) (rt_outs rt) hs"
  shows "handles_ok rt' c"
proof -
  have keep: "\<exists>b. foldl (\<lambda>st h. st(h := map_option (delivered g ev) (st h))) st ks h = Some b \<and> can_deliver b"
    if "st h = Some b" "can_deliver b" for st ks h b
    using that
  proof (induction ks arbitrary: st b)
    case (Cons k ks)
    have "\<exists>b'. (st(k := map_option (delivered g ev) (st k))) h = Some b' \<and> can_deliver b'" using Cons.prems by auto
    then obtain b' where "(st(k := map_option (delivered g ev) (st k))) h = Some b'" "can_deliver b'" by blast
    from Cons.IH [of "st(k := map_option (delivered g ev) (st k))", OF this] show ?case by (simp only: foldl_Cons)
  qed simp
  show ?thesis unfolding handles_ok_def assms(3)
  proof (intro ballI allI impI)
    fix o1 h
    assume "o1 \<in> set (c_outputs c)" "o_handle o1 = Some h"
    then obtain b where "rt_outs rt h = Some b" "can_deliver b" using assms(1) unfolding handles_ok_def by blast
    then show "\<exists>b. foldl (\<lambda>st h. st(h := map_option (delivered g ev) (st h))) (rt_outs rt) hs h = Some b \<and> can_deliver b"
      by (rule keep)
  qed
qed

lemma process_accounts:
  assumes ready: "pipeline_ready rt" and pe: "process_ok pe" and lvl: "0 \<le> r_level rec" "r_level rec \<le> 5"
  obtains rc rt' where "hpu_pipeline_process B pe rec rt = Some (rc, rt')" "pipeline_ready rt'" "same_filter rt rt'"
    "rt_accepted rt' = rt_accepted rt" "settled rt' = settled rt + 1" "dom (rt_outs rt') = dom (rt_outs rt)"
    "rt_sinks rt' = rt_sinks rt"
proof -
  obtain c where c: "rt_conf rt = Some c" "rs_inv (route_view rt c)" "conf_formats_ok c" "handles_ok rt c"
    using ready unfolding pipeline_ready_def by blast
  obtain f outs where t: "route_target c (first_route B c (r_level rec) (category rec)) = (Some f, outs)"
    using first_route_target [OF c(3)] by blast
  obtain line cache reg store where s: "rs_inv ((route_view rt c)\<lparr>rs_reg := reg\<rparr>)" "reg = snd (process_route B c rec rt)"
    "store = foldl (\<lambda>st h. st(h := map_option (delivered (pe_grow pe) (delivery_event rec line)) (st h))) (rt_outs rt)
       (target_handles (c_outputs c) outs)"
    "hpu_pipeline_process B pe rec rt =
       (if target_handles (c_outputs c) outs \<noteq> []
        then Some (0, rt\<lparr>rt_reg := reg, rt_cache := cache, rt_outs := store, rt_written := rt_written rt + 1\<rparr>)
        else Some (-1, rt\<lparr>rt_reg := reg, rt_cache := cache, rt_outs := store, rt_retired_lost := rt_retired_lost rt + 1\<rparr>))"
    by (rule process_spec [OF c(1,2,4) pe lvl t])
  define rt' where "rt' = (if target_handles (c_outputs c) outs \<noteq> []
        then rt\<lparr>rt_reg := reg, rt_cache := cache, rt_outs := store, rt_written := rt_written rt + 1\<rparr>
        else rt\<lparr>rt_reg := reg, rt_cache := cache, rt_outs := store, rt_retired_lost := rt_retired_lost rt + 1\<rparr>)"
  have f: "rt_outs rt' = store" "rt_conf rt' = Some c" "rt_reg rt' = reg" "rt_conf_gen rt' = rt_conf_gen rt"
    "rt_accepted rt' = rt_accepted rt" "settled rt' = settled rt + 1" "rt_state rt' = rt_state rt" "rt_level rt' = rt_level rt"
    "rt_ring rt' = rt_ring rt" "rt_sinks rt' = rt_sinks rt"
    by (simp_all add: rt'_def settled_def c(1))
  have d: "dom (rt_outs rt') = dom (rt_outs rt)" unfolding f(1) s(3) by (rule fold_dom)
  show thesis
  proof (rule that)
    show "hpu_pipeline_process B pe rec rt = Some (if target_handles (c_outputs c) outs \<noteq> [] then 0 else -1, rt')"
      unfolding s(4) rt'_def by simp
    have "handles_ok rt' c" by (rule handles_kept [OF c(4) refl]) (use f(1) s(3) in simp)
    then show "pipeline_ready rt'" unfolding pipeline_ready_def using f(2-4) s(1) c(3) by simp
    show "same_filter rt rt'" unfolding same_filter_def using f s(2) c(1) by (simp add: process_route_override)
  qed (use f d in simp_all)
qed

lemma delivery_accounts:
  assumes ready: "pipeline_ready rt" and ok: "submit_ok se" and sync: "rt_ring rt = None \<or> \<not> b_async B"
    and lvl: "0 \<le> sc_level sc" "sc_level sc \<le> 5"
  obtains rt' where "hpu_submit_delivery B se sc rt = Some (SubmitReturn rt')" "pipeline_ready rt'" "same_filter rt rt'"
    "rt_accepted rt' = rt_accepted rt" "settled rt' = settled rt + 1"
proof -
  obtain w n lost where fs: "submit_fields se (sc_fields sc) (rt_max_log_len rt) = (w, n, lost)" by (metis prod_cases3)
  define rt1 where "rt1 = rt\<lparr>rt_fields_dropped := rt_fields_dropped rt + lost\<rparr>"
  have r1: "pipeline_ready rt1" "same_filter rt rt1" "rt_accepted rt1 = rt_accepted rt" "settled rt1 = settled rt"
    using ready by (simp_all add: pipeline_ready_def rt1_def same_filter_def handles_ok_def settled_def)
  have lv: "0 \<le> r_level (submit_record B se sc rt1)" "r_level (submit_record B se sc rt1) \<le> 5"
    using lvl by (simp_all add: submit_record_def split: prod.split)
  have pe: "process_ok (se_process se)" using ok by (simp add: submit_ok_def)
  obtain rc rt' where p: "hpu_pipeline_process B (se_process se) (submit_record B se sc rt1) rt1 = Some (rc, rt')"
    "pipeline_ready rt'" "same_filter rt1 rt'" "rt_accepted rt' = rt_accepted rt1" "settled rt' = settled rt1 + 1"
    by (rule process_accounts [OF r1(1) pe lv])
  have no_ring: "(if b_async B then rt_ring rt1 else None) = None" using sync by (auto simp: rt1_def)
  show thesis
  proof (rule that [OF _ p(2) same_filter_trans [OF r1(2) p(3)]])
    show "hpu_submit_delivery B se sc rt = Some (SubmitReturn rt')"
      unfolding hpu_submit_delivery_def fs prod.case Let_def rt1_def [symmetric] no_ring by (simp add: p(1))
  qed (use p r1 in simp_all)
qed

lemma enabled_iff:
  assumes "reg_wf (rt_reg rt)"
  shows "hpulogc_level_enabled B catg level rt \<longleftrightarrow> rt_state rt = HPU_RT_RUNNING \<and> 0 \<le> level \<and> level \<le> 5
    \<and> (b_category B \<longrightarrow> override_passes (override_of (rt_reg rt) (cat_match_form catg)) level) \<and> rt_level rt \<le> level"
  using override_drops_found [OF assms refl, of "cat_match_form catg" level] by (auto simp: hpulogc_level_enabled_def)

lemma enabled_same:
  assumes "same_filter rt rt'" "reg_wf (rt_reg rt)" "reg_wf (rt_reg rt')"
  shows "hpulogc_level_enabled B catg level rt' = hpulogc_level_enabled B catg level rt"
  using assms by (simp add: enabled_iff same_filter_def)

lemma ready_wf: "pipeline_ready rt \<Longrightarrow> reg_wf (rt_reg rt)"
  by (auto simp: pipeline_ready_def rs_inv_def)

lemma filter_keeps:
  assumes ready: "pipeline_ready rt" and f: "submit_filter B sc rt = (pass, reg, slot)"
  shows "pipeline_ready (rt\<lparr>rt_reg := reg\<rparr>)" "same_filter rt (rt\<lparr>rt_reg := reg\<rparr>)"
    "slot = Some i \<Longrightarrow> i < length (rg_entries reg)"
proof -
  obtain c where c: "rt_conf rt = Some c" "rs_inv (route_view rt c)" "conf_formats_ok c" "handles_ok rt c"
    using ready unfolding pipeline_ready_def by blast
  obtain r' hit warn where l: "hpu_registry_lookup (rt_reg rt) (Some (cat_match_form (sc_category sc))) = (r', hit, warn)"
    by (metis prod_cases3)
  have r: "reg = (if b_category B then r' else rt_reg rt)" "slot = (if b_category B then hit else None)"
    using f l by (auto simp: submit_filter_def)
  have i: "rs_inv ((route_view rt c)\<lparr>rs_reg := r'\<rparr>)" using lookup_keeps [OF c(2), of "Some (cat_match_form (sc_category sc))" r' hit warn] l by simp
  then have "rs_inv ((route_view rt c)\<lparr>rs_reg := reg\<rparr>)" using c(2) r(1) by simp
  then show "pipeline_ready (rt\<lparr>rt_reg := reg\<rparr>)" using c by (simp add: pipeline_ready_def handles_ok_def)
  show "same_filter rt (rt\<lparr>rt_reg := reg\<rparr>)" using lookup_view [OF l] r(1) by (simp add: same_filter_def)
  show "slot = Some i \<Longrightarrow> i < length (rg_entries reg)"
    using lookup_wf [OF ready_wf [OF ready] l, of i] r by (simp split: if_splits)
qed

lemma throttle_stage_keeps:
  assumes ready: "pipeline_ready rt" and slot: "\<And>i. slot = Some i \<Longrightarrow> i < length (rg_entries (rt_reg rt))"
    and th: "throttle_stage B se sc slot rt = (go, reg, seq)"
  shows "pipeline_ready (rt\<lparr>rt_reg := reg, rt_sample_seq := seq\<rparr>)" "same_filter rt (rt\<lparr>rt_reg := reg, rt_sample_seq := seq\<rparr>)"
proof -
  obtain c where c: "rt_conf rt = Some c" "rs_inv (route_view rt c)" "conf_formats_ok c" "handles_ok rt c"
    using ready unfolding pipeline_ready_def by blast
  have "rs_inv ((route_view rt c)\<lparr>rs_reg := reg\<rparr>) \<and> (\<forall>x. override_of reg x = override_of (rt_reg rt) x)"
  proof (cases "b_throttle B")
    case False
    then show ?thesis using th c(2) by (simp add: throttle_stage_def)
  next
    case True
    then have t: "throttle_pass (se_fl se) (Some c) slot (cat_match_form (sc_category sc)) (se_throttle1 se)
        (se_throttle2 se) (rs_reg (route_view rt c)) (rt_sample_seq rt) = (go, reg, seq)"
      using th c(1) by (simp add: throttle_stage_def)
    have "\<And>i. slot = Some i \<Longrightarrow> i < length (rg_entries (rs_reg (route_view rt c)))" using slot by simp
    from throttle_keeps [OF c(2) t this] show ?thesis by simp
  qed
  then show "pipeline_ready (rt\<lparr>rt_reg := reg, rt_sample_seq := seq\<rparr>)" "same_filter rt (rt\<lparr>rt_reg := reg, rt_sample_seq := seq\<rparr>)"
    using c by (simp_all add: pipeline_ready_def handles_ok_def same_filter_def)
qed

lemma submit_stages:
  assumes "rt_state rt = HPU_RT_RUNNING" "0 \<le> sc_level sc" "sc_level sc \<le> 5" "submit_ok se"
    and "submit_filter B sc rt = (pass, reg, slot)"
    and "throttle_stage B se sc slot (rt\<lparr>rt_reg := reg, rt_accepted := rt_accepted rt + 1\<rparr>) = (go, reg2, seq2)"
  defines "rt3 \<equiv> rt\<lparr>rt_accepted := rt_accepted rt + 1, rt_reg := reg2, rt_sample_seq := seq2\<rparr>"
  shows "hpu_pipeline_submit_ex B (\<lambda>r. (False, r)) se sc rt =
    (if \<not> pass then Some (SubmitReturn (rt\<lparr>rt_reg := reg\<rparr>))
     else if \<not> go then Some (SubmitReturn (rt3\<lparr>rt_throttled := rt_throttled rt3 + 1\<rparr>))
     else hpu_submit_delivery B se sc rt3)"
  using assms(1-4,6) by (cases pass) (simp_all add: hpu_pipeline_submit_ex_def submit_ok_def rt3_def assms(5) Let_def)

text \<open>
  One call. An accepted record is settled at once: written, throttled or discarded.
\<close>

lemma submit_accounts:
  fixes rt :: "'p hpu_runtime" and sc :: submit_call
  assumes ready: "pipeline_ready rt" and ok: "submit_ok se" and sync: "rt_ring rt = None \<or> \<not> b_async B"
  defines "n \<equiv> (if hpulogc_level_enabled B (sc_category sc) (sc_level sc) rt then 1 else 0)"
  obtains rt' where "hpu_pipeline_submit_ex B (\<lambda>r. (False, r)) se sc rt = Some (SubmitReturn rt')"
    "rt_accepted rt' = rt_accepted rt + n" "settled rt' = settled rt + n" "pipeline_ready rt'" "same_filter rt rt'"
proof (cases "rt_state rt = HPU_RT_RUNNING \<and> 0 \<le> sc_level sc \<and> sc_level sc \<le> 5")
  case False
  then show thesis using ready that [of rt]
    by (auto simp: hpu_pipeline_submit_ex_def hpulogc_level_enabled_def same_filter_def n_def)
next
  case True
  then have run: "rt_state rt = HPU_RT_RUNNING" and lvl: "0 \<le> sc_level sc" "sc_level sc \<le> 5" by simp_all
  obtain pass reg slot where f: "submit_filter B sc rt = (pass, reg, slot)" by (metis prod_cases3)
  define rt1 where "rt1 = rt\<lparr>rt_reg := reg\<rparr>"
  note k = filter_keeps [OF ready f, folded rt1_def]
  have n: "n = (if pass then 1 else 0)"
    using filter_is_enabled [OF ready_wf [OF ready] run lvl, of B] f by (simp add: n_def)
  define rt2 where "rt2 = rt\<lparr>rt_reg := reg, rt_accepted := rt_accepted rt + 1\<rparr>"
  have r2: "pipeline_ready rt2" "same_filter rt rt2" "\<And>i. slot = Some i \<Longrightarrow> i < length (rg_entries (rt_reg rt2))"
    using k by (simp_all add: rt1_def rt2_def pipeline_ready_def handles_ok_def same_filter_def)
  obtain go reg2 seq2 where th: "throttle_stage B se sc slot rt2 = (go, reg2, seq2)" by (metis prod_cases3)
  define rt3 where "rt3 = rt\<lparr>rt_accepted := rt_accepted rt + 1, rt_reg := reg2, rt_sample_seq := seq2\<rparr>"
  have "rt3 = rt2\<lparr>rt_reg := reg2, rt_sample_seq := seq2\<rparr>" by (simp add: rt3_def rt2_def)
  then have r3: "pipeline_ready rt3" "same_filter rt rt3"
    using throttle_stage_keeps [OF r2(1,3) th] same_filter_trans [OF r2(2)] by simp_all
  have a3: "rt_accepted rt3 = rt_accepted rt + 1" "settled rt3 = settled rt" by (simp_all add: rt3_def settled_def)
  have body: "hpu_pipeline_submit_ex B (\<lambda>r. (False, r)) se sc rt =
      (if \<not> pass then Some (SubmitReturn rt1)
       else if \<not> go then Some (SubmitReturn (rt3\<lparr>rt_throttled := rt_throttled rt3 + 1\<rparr>))
       else hpu_submit_delivery B se sc rt3)"
    unfolding rt1_def rt3_def by (rule submit_stages [OF run lvl ok f th [unfolded rt2_def]])
  consider "\<not> pass" | "pass" "\<not> go" | "pass" "go" by blast
  then show thesis
  proof cases
    case 1
    then show thesis using that [of rt1] body k(1,2) n by (simp add: rt1_def settled_def)
  next
    case 2
    let ?rt4 = "rt3\<lparr>rt_throttled := rt_throttled rt3 + 1\<rparr>"
    have "pipeline_ready ?rt4" "same_filter rt ?rt4" using r3 by (simp_all add: pipeline_ready_def handles_ok_def same_filter_def)
    then show thesis using that [of ?rt4] body 2 n a3 by (simp add: settled_def)
  next
    case 3
    have sync3: "rt_ring rt3 = None \<or> \<not> b_async B" using sync by (auto simp: rt3_def)
    obtain rt' where d: "hpu_submit_delivery B se sc rt3 = Some (SubmitReturn rt')" "pipeline_ready rt'" "same_filter rt3 rt'"
      "rt_accepted rt' = rt_accepted rt3" "settled rt' = settled rt3 + 1"
      by (rule delivery_accounts [OF r3(1) ok sync3 lvl])
    then show thesis using that [of rt'] body 3 n a3 same_filter_trans [OF r3(2) d(3)] by simp
  qed
qed

text \<open>A sequence of calls, each with its outside.\<close>

fun submit_run :: "build_flags \<Rightarrow> (submit_env \<times> submit_call) list \<Rightarrow> 'p hpu_runtime \<Rightarrow> 'p hpu_runtime option" where
  "submit_run B [] rt = Some rt"
| "submit_run B (x # xs) rt =
     (case hpu_pipeline_submit_ex B (\<lambda>r. (False, r)) (fst x) (snd x) rt of
        Some (SubmitReturn rt') \<Rightarrow> submit_run B xs rt' | _ \<Rightarrow> None)"

text \<open>
  C2. The accounts of a synchronous pipeline. From a runtime whose formats and outputs resolve, any
  sequence of calls returns; the records accepted are exactly those for which
  \<^verbatim>\<open>hpulogc_level_enabled\<close> answered yes before the run, and every accepted record is
  counted once more, as written, throttled or discarded.
\<close>

theorem sync_accounts:
  assumes "pipeline_ready rt" "rt_ring rt = None \<or> \<not> b_async B" "\<forall>x \<in> set calls. submit_ok (fst x)"
  shows "\<exists>rt'. submit_run B calls rt = Some rt'
    \<and> rt_accepted rt' = rt_accepted rt
        + length (filter (\<lambda>x. hpulogc_level_enabled B (sc_category (snd x)) (sc_level (snd x)) rt) calls)
    \<and> rt_written rt' + rt_throttled rt' + rt_retired_lost rt' + rt_accepted rt
        = rt_written rt + rt_throttled rt + rt_retired_lost rt + rt_accepted rt'"
  using assms
proof (induction calls arbitrary: rt)
  case Nil
  then show ?case by simp
next
  case (Cons x xs)
  define n where "n = (if hpulogc_level_enabled B (sc_category (snd x)) (sc_level (snd x)) rt then 1 else 0 :: nat)"
  have ok: "submit_ok (fst x)" using Cons.prems(3) by simp
  obtain rt1 where s: "hpu_pipeline_submit_ex B (\<lambda>r. (False, r)) (fst x) (snd x) rt = Some (SubmitReturn rt1)"
    "rt_accepted rt1 = rt_accepted rt + n" "settled rt1 = settled rt + n" "pipeline_ready rt1" "same_filter rt rt1"
    unfolding n_def by (rule submit_accounts [OF Cons.prems(1) ok Cons.prems(2)])
  have sync: "rt_ring rt1 = None \<or> \<not> b_async B" using Cons.prems(2) s(5) by (auto simp: same_filter_def)
  have same: "hpulogc_level_enabled B catg level rt1 = hpulogc_level_enabled B catg level rt" for catg level
    by (rule enabled_same [OF s(5) ready_wf [OF Cons.prems(1)] ready_wf [OF s(4)]])
  from Cons.IH [OF s(4) sync] Cons.prems(3) obtain rt' where r: "submit_run B xs rt1 = Some rt'"
    "rt_accepted rt' = rt_accepted rt1 + length (filter (\<lambda>x. hpulogc_level_enabled B (sc_category (snd x)) (sc_level (snd x)) rt) xs)"
    "rt_written rt' + rt_throttled rt' + rt_retired_lost rt' + rt_accepted rt1
       = rt_written rt1 + rt_throttled rt1 + rt_retired_lost rt1 + rt_accepted rt'"
    unfolding same by auto
  then show ?case using s(1-3) by (intro exI [of _ rt']) (simp add: n_def settled_def)
qed

section \<open>An example runtime\<close>

text \<open>A sink that keeps its lines, one rule for warnings of a category, and one output.\<close>

definition demo_sink :: "string list sink_ops" where
  "demo_sink = \<lparr>so_type = Some ''memory'', so_abi_version = 1, so_cap_async = False, so_priv0 = [], so_configure = None,
     so_init = None, so_start = None, so_emit = Some (\<lambda>p ev. (p @ [ev_line ev], 0)), so_emit_batch = None, so_flush = None,
     so_sync = None, so_periodic = None, so_destroy = None, so_reserved = []\<rparr>"

definition demo_conf :: hpu_conf where
  "demo_conf = (conf_base demo_env [demo_fmt])\<lparr>c_default_format := ''t'', c_default_idx := [0],
     c_outputs := [code_output_zero\<lparr>o_name := ''mem'', o_handle := Some 7, o_enabled := True\<rparr>],
     c_rules := [\<lparr>ru_category = ''net.*'', ru_min = 3, ru_max = 5, ru_negate = False, ru_format = ''t'', ru_outputs = [0]\<rparr>]\<rparr>"

definition demo_rt :: "string list hpu_runtime" where
  "demo_rt = \<lparr>rt_state = HPU_RT_RUNNING, rt_conf = Some demo_conf, rt_outs = [7 \<mapsto> new_output demo_sink (Some ''mem'') 0 False],
     rt_conf_gen = 1, rt_level = 2, rt_ts_source = 0, rt_escape_injection = True, rt_max_log_len = 4096, rt_ring = None,
     rt_consumers = 0, rt_watching = False, rt_signal_installed = False, rt_source_path = [], rt_fork_behavior = 0,
     rt_fork_child = False, rt_fork_dirty = False, rt_fork_disabled = False, rt_accepted = 0, rt_written = 0,
     rt_throttled = 0, rt_retired_lost = 0, rt_fields_dropped = 0, rt_reg = hpu_registry_init, rt_sample_seq = 0,
     rt_cache = hpu_fmt_cache_init, rt_sinks = \<lparr>sr_types = [demo_sink], sr_ready = True, sr_frozen = True\<rparr>,
     rt_signal_safe = False, rt_saved = None\<rparr>"

definition demo_pe :: process_env where
  "demo_pe = \<lparr>pe_grow = (\<lambda>_ _. None), pe_tls_ok = True, pe_line_ok = True\<rparr>"

definition demo_se :: submit_env where
  "demo_se = \<lparr>se_text = Some ''ready'', se_throttle1 = 5, se_throttle2 = 5, se_tid = 1, se_realtime_ns = 0, se_now_ns = 0,
     se_fl = (\<lambda>x. x), se_tls_ok = True, se_msg_ok = True, se_wire_ok = True, se_after_wire = [], se_process = demo_pe\<rparr>"

definition demo_sc :: "int \<Rightarrow> submit_call" where
  "demo_sc level = \<lparr>sc_level = level, sc_category = Some ''net.http'', sc_file = None, sc_line = 3, sc_func = None, sc_fields = []\<rparr>"

lemma demo_ready: "pipeline_ready demo_rt" "handles_ok demo_rt demo_conf" "rs_reachable demo_conf (route_view demo_rt demo_conf)"
proof -
  have can: "can_deliver (new_output demo_sink (Some ''mem'') 0 False)" by (simp add: can_deliver_def new_output_def demo_sink_def)
  show h: "handles_ok demo_rt demo_conf" by (simp add: handles_ok_def demo_conf_def demo_rt_def can)
  have v: "route_view demo_rt demo_conf = \<lparr>rs_reg = hpu_registry_init, rs_conf = demo_conf, rs_gen = 1\<rparr>" by (simp add: demo_rt_def)
  show r: "rs_reachable demo_conf (route_view demo_rt demo_conf)" unfolding v by (rule rs_reachable.rs_start)
  have "conf_formats_ok demo_conf" by (simp add: conf_formats_ok_def demo_conf_def demo_fmt_def hpu_conf_find_format_def conf_base_def)
  then show "pipeline_ready demo_rt"
    unfolding pipeline_ready_def using h reachable_inv [OF r] by (intro exI [of _ demo_conf]) (simp add: demo_rt_def)
qed

theorem record_reaches_its_rule_witness:
  "\<exists>rt'. hpu_pipeline_process full_build demo_pe (demo_rec\<lparr>r_level := 4, category := Some ''net.http''\<rparr>) demo_rt = Some (0, rt')
     \<and> rt_written rt' = 1 \<and> rt_outs rt' 8 = None"
proof -
  let ?rec = "demo_rec\<lparr>r_level := 4, category := Some ''net.http''\<rparr>"
  have c: "rt_conf demo_rt = Some demo_conf" by (simp add: demo_rt_def)
  have "first_route full_build demo_conf 4 (Some ''net.http'') = 0"
    by (simp add: first_route_def demo_conf_def hpu_conf_rule_level_match_def hpu_pipeline_selector_match_def cat_match_form_def)
  then have t: "route_target demo_conf (first_route full_build demo_conf (r_level ?rec) (category ?rec)) = (Some demo_fmt, [0])"
    by (simp add: route_target_def demo_conf_def hpu_conf_find_format_def conf_base_def demo_fmt_def)
  have hs: "target_handles (c_outputs demo_conf) [0] = [7]" by (simp add: demo_conf_def)
  have e: "process_ok demo_pe" "0 \<le> r_level ?rec" "r_level ?rec \<le> 5"
    by (simp_all add: process_ok_def demo_pe_def)
  from record_reaches_its_rule [OF c demo_ready(3,2) e t] obtain rt' where
    p: "hpu_pipeline_process full_build demo_pe ?rec demo_rt = Some (0, rt')" "rt_outs rt' 8 = rt_outs demo_rt 8"
      "rt_written rt' = rt_written demo_rt + 1"
    unfolding hs by (fastforce dest: spec [of _ 8])
  then show ?thesis by (simp add: demo_rt_def)
qed

theorem sync_accounts_witness:
  "\<exists>rt'. submit_run full_build [(demo_se, demo_sc 4), (demo_se, demo_sc 1)] demo_rt = Some rt' \<and> rt_accepted rt' = 1
     \<and> rt_written rt' + rt_throttled rt' + rt_retired_lost rt' = 1"
proof -
  have ok: "rt_ring demo_rt = None \<or> \<not> b_async full_build"
    "\<forall>x \<in> set [(demo_se, demo_sc 4), (demo_se, demo_sc 1)]. submit_ok (fst x)"
    by (simp_all add: demo_rt_def submit_ok_def demo_se_def process_ok_def demo_pe_def)
  have en: "hpulogc_level_enabled full_build (Some ''net.http'') level demo_rt = (2 \<le> level \<and> level \<le> 5)" for level
    by (auto simp: hpulogc_level_enabled_def demo_rt_def override_drops_def hpu_registry_find_def hpu_registry_init_def)
  from sync_accounts [OF demo_ready(1) ok] show ?thesis
    by (simp add: en demo_sc_def) (auto simp: demo_rt_def)
qed

end
