(* ===== verification/RingLockedLaws.thy ===== *)
theory RingLockedLaws
  imports RingLocked
begin

text \<open>
  The invariant of the locked ring and the contract of its operations. The bytes between
  the read and the write cursor are a chain of segments, records and pads, each contiguous
  and each followed by room for a header or by the ring's end; on that invariant every put
  ends, appends at the end or refuses, and every get delivers the oldest record.
\<close>

section \<open>Segments\<close>

datatype seg = SPad nat | SRec hpu_ring_msg nat

fun seg_len :: "seg \<Rightarrow> nat" where
  "seg_len (SPad n) = n"
| "seg_len (SRec m n) = n"

fun seg_meta :: "seg \<Rightarrow> hpu_ring_meta" where
  "seg_meta (SPad n) = pad_meta n"
| "seg_meta (SRec m n) = fill_meta m n"

fun seg_image :: "seg \<Rightarrow> byte list" where
  "seg_image (SPad n) = encode_meta (pad_meta n)"
| "seg_image (SRec m n) = encode_meta (fill_meta m n) @ payload m"

fun seg_msgs :: "seg \<Rightarrow> hpu_ring_msg list" where
  "seg_msgs (SPad n) = []"
| "seg_msgs (SRec m n) = [m]"

definition msgs :: "seg list \<Rightarrow> hpu_ring_msg list" where
  "msgs segs = concat (map seg_msgs segs)"

lemma msgs_simps [simp]:
  "msgs [] = []" "msgs (s # segs) = seg_msgs s @ msgs segs" "msgs (as @ bs) = msgs as @ msgs bs"
  by (simp_all add: msgs_def)

fun seg_ok :: "seg \<Rightarrow> bool" where
  "seg_ok (SPad n) \<longleftrightarrow> META_SIZE \<le> n \<and> 8 dvd n \<and> n < 2 ^ 32"
| "seg_ok (SRec m n) \<longleftrightarrow> raw_len m \<le> n \<and> 8 dvd n \<and> n < 2 ^ 32 \<and> msg_ok m"

lemma seg_ok_len: "seg_ok s \<Longrightarrow> META_SIZE \<le> seg_len s \<and> 8 dvd seg_len s \<and> seg_len s < 2 ^ 32"
  by (cases s) (auto simp: raw_len_def)

lemma seg_image_len: "seg_ok s \<Longrightarrow> length (seg_image s) \<le> seg_len s"
  by (cases s) (auto simp: raw_len_def)

lemma seg_meta_facts:
  "seg_ok s \<Longrightarrow> unat (total_len (seg_meta s)) = seg_len s"
  "seg_ok s \<Longrightarrow> is_pad (seg_meta s) \<longleftrightarrow> seg_msgs s = []"
  by (cases s; auto simp: pad_meta_def fill_meta_def unat_of_nat_less fill_is_pad msg_ok_def)
    (cases s; auto simp: fill_is_pad msg_ok_def)

definition gap_ok :: "nat \<Rightarrow> nat \<Rightarrow> bool" where
  "gap_ok cap p \<longleftrightarrow> META_SIZE \<le> cap - p mod cap"

fun chain :: "nat \<Rightarrow> byte list \<Rightarrow> nat \<Rightarrow> seg list \<Rightarrow> nat \<Rightarrow> bool" where
  "chain cap b p [] e \<longleftrightarrow> p = e"
| "chain cap b p (s # ss) e \<longleftrightarrow>
     seg_ok s \<and> p mod cap + seg_len s \<le> cap \<and> gap_ok cap (p + seg_len s)
     \<and> take (length (seg_image s)) (drop (p mod cap) b) = seg_image s
     \<and> chain cap b (p + seg_len s) ss e"

definition ring_wf :: "hpu_ring \<Rightarrow> seg list \<Rightarrow> bool" where
  "ring_wf r segs \<longleftrightarrow>
     length (buf r) = capacity r \<and> 8 dvd capacity r \<and> 2 * META_SIZE \<le> capacity r \<and> capacity r < 2 ^ 32
     \<and> ring_tail r \<le> ring_head r + capacity r \<and> gap_ok (capacity r) (ring_head r) \<and> 8 dvd ring_head r
     \<and> chain (capacity r) (buf r) (ring_head r) segs (ring_tail r)"

lemma chain_le: "chain cap b p ss e \<Longrightarrow> p \<le> e"
  by (induction ss arbitrary: p) fastforce+

lemma chain_end:
  "chain cap b p ss e \<Longrightarrow> gap_ok cap p \<Longrightarrow> 8 dvd p \<Longrightarrow> gap_ok cap e \<and> 8 dvd e"
proof (induction ss arbitrary: p)
  case (Cons s ss)
  then show ?case using seg_ok_len [of s] by auto
qed simp

lemma chain_snoc:
  "chain cap b p ss e \<Longrightarrow> chain cap b e [s] e' \<Longrightarrow> chain cap b p (ss @ [s]) e'"
  by (induction ss arbitrary: p) auto

lemma ranges_disjoint:
  fixes a w l n cap :: nat
  assumes "a + l \<le> w" "w + n \<le> a + cap" "a mod cap + l \<le> cap" "w mod cap + n \<le> cap" "0 < cap"
  shows "a mod cap + l \<le> w mod cap \<or> w mod cap + n \<le> a mod cap"
proof -
  have a: "a = cap * (a div cap) + a mod cap" and w: "w = cap * (w div cap) + w mod cap" by simp_all
  have "w div cap = a div cap \<or> w div cap = Suc (a div cap)"
  proof -
    have "a div cap \<le> w div cap" using assms(1) by (simp add: div_le_mono)
    moreover have "w div cap \<le> Suc (a div cap)"
      using assms(2,5) div_le_mono [of w "a + cap" cap] by (simp add: div_add_self2)
    ultimately show ?thesis by auto
  qed
  then show ?thesis
  proof
    assume q: "w div cap = a div cap"
    then have "w = cap * (a div cap) + w mod cap" using w by metis
    then show ?thesis using assms(1) a by linarith
  next
    assume q: "w div cap = Suc (a div cap)"
    then have "w = cap + cap * (a div cap) + w mod cap" using w by (metis mult_Suc_right)
    then show ?thesis using assms(2) a by linarith
  qed
qed

lemma chain_splice:
  assumes "0 < cap" "length b = cap" "w mod cap + length ys \<le> cap"
  shows "chain cap b p ss w \<Longrightarrow> w + length ys \<le> p + cap \<Longrightarrow> chain cap (splice_at (w mod cap) ys b) p ss w"
proof (induction ss arbitrary: p)
  case (Cons s ss)
  have le: "p + seg_len s \<le> w" using Cons.prems(1) chain_le by fastforce
  have ok: "seg_ok s" "p mod cap + seg_len s \<le> cap"
    and img: "bslice (p mod cap) (length (seg_image s)) b = seg_image s"
    using Cons.prems(1) by (auto simp: bslice_def)
  have il: "length (seg_image s) \<le> seg_len s" using ok(1) by (rule seg_image_len)
  have "p mod cap + length (seg_image s) \<le> w mod cap \<or> w mod cap + length ys \<le> p mod cap"
    using ranges_disjoint [OF le Cons.prems(2) ok(2) assms(3,1)] il by linarith
  then have "bslice (p mod cap) (length (seg_image s)) (splice_at (w mod cap) ys b) = seg_image s"
    using img assms by (auto simp: bslice_splice_before bslice_splice_after)
  then show ?case using Cons by (simp add: bslice_def)
qed simp

section \<open>The first segment\<close>

lemma first_segment:
  assumes "ring_wf r (s # segs)"
  shows "decode_meta (record_bytes r (ring_head r)) = seg_meta s"
    and "ring_head r < ring_tail r"
    and "ring_wf (r\<lparr>ring_head := ring_head r + seg_len s, overwritten := x\<rparr>) segs"
proof -
  have c: "seg_ok s" "take (length (seg_image s)) (record_bytes r (ring_head r)) = seg_image s"
    "gap_ok (capacity r) (ring_head r + seg_len s)"
    "chain (capacity r) (buf r) (ring_head r + seg_len s) segs (ring_tail r)"
    using assms by (auto simp: ring_wf_def record_bytes_def)
  obtain rest where "record_bytes r (ring_head r) = seg_image s @ rest"
    using c(2) by (metis append_take_drop_id)
  then show "decode_meta (record_bytes r (ring_head r)) = seg_meta s"
    by (cases s) simp_all
  show "ring_head r < ring_tail r"
    using chain_le [OF c(4)] seg_ok_len [OF c(1)] by (simp add: META_SIZE_def)
  show "ring_wf (r\<lparr>ring_head := ring_head r + seg_len s, overwritten := x\<rparr>) segs"
    using assms c seg_ok_len [OF c(1)] by (auto simp: ring_wf_def)
qed

lemma ring_wf_woken [simp]: "ring_wf (wake_up w r) segs = ring_wf r segs"
  by (simp add: ring_wf_def wake_up_def)

lemma ring_wf_empty: "ring_wf r [] \<Longrightarrow> ring_head r = ring_tail r"
  by (simp add: ring_wf_def)

lemma ring_wf_le: "ring_wf r segs \<Longrightarrow> ring_head r \<le> ring_tail r"
  using chain_le by (auto simp: ring_wf_def)

lemma ring_wf_tail: "ring_wf r segs \<Longrightarrow> gap_ok (capacity r) (ring_tail r) \<and> 8 dvd ring_tail r"
  using chain_end by (auto simp: ring_wf_def)

section \<open>Appending a segment\<close>

lemma append_segment:
  assumes wf: "ring_wf r segs" and s: "seg_ok s" "ring_tail r mod capacity r + seg_len s \<le> capacity r"
    and room: "ring_tail r + seg_len s \<le> ring_head r + capacity r"
    and gap: "gap_ok (capacity r) (ring_tail r + seg_len s)"
  shows "ring_wf (r\<lparr>buf := splice_at (ring_tail r mod capacity r) (seg_image s) (buf r),
                    ring_tail := ring_tail r + seg_len s\<rparr>) (segs @ [s])"
proof -
  let ?off = "ring_tail r mod capacity r"
  have cap: "0 < capacity r" "length (buf r) = capacity r" using wf by (auto simp: ring_wf_def META_SIZE_def)
  have il: "length (seg_image s) \<le> seg_len s" by (rule seg_image_len [OF s(1)])
  then have fits: "?off + length (seg_image s) \<le> capacity r" using s(2) by linarith
  have "chain (capacity r) (splice_at ?off (seg_image s) (buf r)) (ring_head r) segs (ring_tail r)"
    using wf room il by (intro chain_splice cap fits) (auto simp: ring_wf_def)
  moreover have "take (length (seg_image s)) (drop ?off (splice_at ?off (seg_image s) (buf r))) = seg_image s"
    using bslice_splice_same [of ?off "seg_image s" "buf r"] fits cap by (simp add: bslice_def)
  ultimately have "chain (capacity r) (splice_at ?off (seg_image s) (buf r)) (ring_head r) (segs @ [s])
      (ring_tail r + seg_len s)"
    using s gap by (intro chain_snoc [where e = "ring_tail r"]) simp_all
  then show ?thesis
    using wf room fits cap by (simp add: ring_wf_def length_splice_at)
qed

text \<open>
  Extending a record to the ring's end never runs into unread bytes: were the free space
  shorter than the rest of the ring, the read cursor would stand inside that rest with less
  than a header's room behind it.
\<close>

lemma extension_is_free:
  assumes wf: "ring_wf r segs" and fr: "need \<le> capacity r - (ring_tail r - ring_head r)"
    and ext: "capacity r - ring_tail r mod capacity r - need < META_SIZE"
  shows "capacity r - ring_tail r mod capacity r \<le> capacity r - (ring_tail r - ring_head r)"
proof (rule ccontr)
  let ?cap = "capacity r" and ?h = "ring_head r" and ?t = "ring_tail r"
  let ?free = "?cap - (?t - ?h)"
  assume "\<not> ?thesis"
  then have lt: "?free < ?cap - ?t mod ?cap" by simp
  have le: "?h \<le> ?t" "?t \<le> ?h + ?cap" using wf ring_wf_le by (auto simp: ring_wf_def)
  then have "?h + ?cap = ?t + ?free" by simp
  then have "?h mod ?cap = (?t + ?free) mod ?cap" by (metis mod_add_self2)
  also have "\<dots> = (?t mod ?cap + ?free) mod ?cap" by presburger
  also have "\<dots> = ?t mod ?cap + ?free" using lt by simp
  finally have "?h mod ?cap = ?t mod ?cap + ?free" .
  moreover have "META_SIZE \<le> ?cap - ?h mod ?cap" using wf by (simp add: ring_wf_def gap_ok_def)
  ultimately show False using fr ext by linarith
qed

section \<open>The two appends\<close>

definition free_of :: "hpu_ring \<Rightarrow> nat" where
  "free_of r = capacity r - (ring_tail r - ring_head r)"

definition contig_of :: "hpu_ring \<Rightarrow> nat" where
  "contig_of r = capacity r - ring_tail r mod capacity r"

lemma contig_facts:
  assumes "ring_wf r segs"
  shows "META_SIZE \<le> contig_of r" "8 dvd contig_of r" "contig_of r < 2 ^ 32"
    "ring_tail r mod capacity r + contig_of r = capacity r"
    "(ring_tail r + contig_of r) mod capacity r = 0"
    "gap_ok (capacity r) (ring_tail r + contig_of r)"
proof -
  let ?c = "capacity r" and ?t = "ring_tail r"
  have c: "0 < ?c" "8 dvd ?c" "?c < 2 ^ 32" "2 * META_SIZE \<le> ?c" "8 dvd ?t" "META_SIZE \<le> contig_of r"
    using assms ring_wf_tail [OF assms] by (auto simp: ring_wf_def gap_ok_def META_SIZE_def contig_of_def)
  have lt: "?t mod ?c < ?c" using c(1) by simp
  show "META_SIZE \<le> contig_of r" by (rule c(6))
  have "8 dvd ?t mod ?c" using c(2,5) by (simp add: dvd_mod)
  then show "8 dvd contig_of r" unfolding contig_of_def using c(2) by (rule dvd_diff_nat [rotated])
  show "contig_of r < 2 ^ 32" unfolding contig_of_def using c(3) by linarith
  show *: "?t mod ?c + contig_of r = ?c" using lt by (simp add: contig_of_def)
  have "(?t + contig_of r) mod ?c = (?t mod ?c + contig_of r) mod ?c" by presburger
  then show z: "(?t + contig_of r) mod ?c = 0" using * by simp
  show "gap_ok ?c (?t + contig_of r)" using z c(4) by (simp add: gap_ok_def)
qed

lemma room_le: "n \<le> c - (t - h) \<Longrightarrow> h \<le> t \<Longrightarrow> t \<le> h + c \<Longrightarrow> t + n \<le> h + (c :: nat)"
  by arith

lemma room_of: "ring_wf r segs \<Longrightarrow> n \<le> free_of r \<Longrightarrow> ring_tail r + n \<le> ring_head r + capacity r"
  unfolding free_of_def by (rule room_le) (auto simp: ring_wf_le ring_wf_def intro: chain_le)

definition padded :: "hpu_ring \<Rightarrow> hpu_ring" where
  "padded r = (case write_pad r (ring_tail r) of (r1, n) \<Rightarrow>
     wake_up Signal_not_empty (r1\<lparr>ring_tail := ring_tail r1 + n\<rparr>))"

lemma padded_wf:
  assumes wf: "ring_wf r segs" and room: "contig_of r \<le> free_of r"
  shows "ring_wf (padded r) (segs @ [SPad (contig_of r)])"
    and "contig_of (padded r) = capacity r" and "capacity (padded r) = capacity r"
    and "policy (padded r) = policy r" and "closed (padded r) = closed r"
    and "overwritten (padded r) = overwritten r" and "dropped (padded r) = dropped r"
proof -
  note cf = contig_facts [OF wf]
  have "ring_tail r + contig_of r \<le> ring_head r + capacity r"
    by (rule room_of [OF wf room])
  from append_segment [OF wf, of "SPad (contig_of r)"] this cf
  show "ring_wf (padded r) (segs @ [SPad (contig_of r)])"
    by (simp add: padded_def write_pad_def Let_def contig_of_def)
  show "contig_of (padded r) = capacity r"
    using cf(3,5) unfolding contig_of_def by (simp add: padded_def write_pad_def Let_def wake_up_def)
qed (simp_all add: padded_def write_pad_def Let_def wake_up_def)

definition rec_total :: "nat \<Rightarrow> hpu_ring \<Rightarrow> nat" where
  "rec_total need r = (if contig_of r - need < align8 META_SIZE then contig_of r mod 2 ^ 32 else need)"

definition recorded :: "nat \<Rightarrow> hpu_ring_msg \<Rightarrow> hpu_ring \<Rightarrow> hpu_ring" where
  "recorded need msg r = (case write_record r (ring_tail r) msg (rec_total need r) of (r1, n) \<Rightarrow>
     wake_up Signal_not_empty (r1\<lparr>ring_tail := ring_tail r1 + n\<rparr>))"

lemma record_len_facts:
  assumes "msg_ok msg"
  shows "raw_len msg \<le> record_len msg" "8 dvd record_len msg" "record_len msg < 2 ^ 32"
  using assms align8_ge [of "raw_len msg"] by (simp_all add: record_len_def msg_ok_def)

lemma META_aligned: "align8 META_SIZE = META_SIZE"
  by (simp add: META_SIZE_def)

lemma recorded_wf:
  assumes wf: "ring_wf r segs" and ok: "msg_ok msg" and need: "need = record_len msg"
    and room: "need \<le> contig_of r" "need \<le> free_of r"
  shows "ring_wf (recorded need msg r) (segs @ [SRec msg (rec_total need r)])"
    and "capacity (recorded need msg r) = capacity r"
    and "policy (recorded need msg r) = policy r" and "closed (recorded need msg r) = closed r"
    and "overwritten (recorded need msg r) = overwritten r" and "dropped (recorded need msg r) = dropped r"
proof -
  let ?t = "rec_total need r"
  note cf = contig_facts [OF wf] and rf = record_len_facts [OF ok, folded need]
  have t: "?t = (if contig_of r - need < META_SIZE then contig_of r else need)"
    using cf(3) by (simp add: rec_total_def META_aligned)
  have fits: "need \<le> ?t" "?t \<le> contig_of r" "8 dvd ?t" "?t < 2 ^ 32"
    using t room cf rf by auto
  have "?t \<le> free_of r"
    using extension_is_free [OF wf room(2) [unfolded free_of_def], folded contig_of_def free_of_def] t room by auto
  then have "ring_tail r + ?t \<le> ring_head r + capacity r"
    by (rule room_of [OF wf])
  moreover have "gap_ok (capacity r) (ring_tail r + ?t)"
  proof (cases "?t = contig_of r")
    case True
    then show ?thesis using cf(6) by simp
  next
    case False
    then have "META_SIZE \<le> contig_of r - need" "?t = need" using t by (auto split: if_splits)
    moreover from this have "ring_tail r mod capacity r + need < capacity r" using cf(4) by (simp add: META_SIZE_def)
    moreover from this have "(ring_tail r + need) mod capacity r = ring_tail r mod capacity r + need"
      by (metis mod_add_left_eq mod_less)
    ultimately show ?thesis by (simp add: gap_ok_def contig_of_def)
  qed
  moreover have "seg_ok (SRec msg ?t)" using ok fits rf by simp
  moreover have "ring_tail r mod capacity r + ?t \<le> capacity r" using fits(2) cf(4) by linarith
  ultimately show "ring_wf (recorded need msg r) (segs @ [SRec msg ?t])"
    using append_segment [OF wf, of "SRec msg ?t"] by (simp add: recorded_def write_record_def)
qed (simp_all add: recorded_def write_record_def wake_up_def)

section \<open>Making room\<close>

lemma drop_oldest_spec:
  assumes "ring_wf r segs" "need \<le> capacity r"
  shows "\<exists>r' k. drop_oldest need r = Some r' \<and> ring_wf r' (drop k segs) \<and> need \<le> free_of r'
    \<and> ring_tail r' = ring_tail r \<and> capacity r' = capacity r \<and> policy r' = policy r \<and> closed r' = closed r
    \<and> dropped r' = dropped r \<and> overwritten r' = overwritten r + length (msgs (take k segs))"
  using assms
proof (induction segs arbitrary: r)
  case Nil
  then have "\<not> free_of r < need" by (simp add: ring_wf_empty free_of_def)
  then have "drop_oldest need r = Some r" by (subst drop_oldest.simps) (simp add: free_of_def)
  then show ?case using Nil \<open>\<not> free_of r < need\<close> by (intro exI [of _ r] exI [of _ 0]) simp
next
  case (Cons s segs)
  show ?case
  proof (cases "free_of r < need")
    case False
    then have "drop_oldest need r = Some r" by (subst drop_oldest.simps) (simp add: free_of_def)
    then show ?thesis using Cons.prems False by (intro exI [of _ r] exI [of _ 0]) simp
  next
    case True
    let ?r1 = "r\<lparr>ring_head := ring_head r + seg_len s, overwritten := overwritten r + length (seg_msgs s)\<rparr>"
    have ok: "seg_ok s" using Cons.prems(1) by (simp add: ring_wf_def)
    have "drop_oldest need r = drop_oldest need ?r1"
      using True first_segment(1) [OF Cons.prems(1)] seg_meta_facts [OF ok] ok
      by (subst drop_oldest.simps) (cases s; simp add: Let_def free_of_def)
    moreover have "ring_wf ?r1 segs" using first_segment(3) [OF Cons.prems(1)] .
    ultimately obtain r' k where "drop_oldest need r = Some r'" "ring_wf r' (drop k segs)" "need \<le> free_of r'"
      "ring_tail r' = ring_tail r" "capacity r' = capacity r" "policy r' = policy r" "closed r' = closed r"
      "dropped r' = dropped r"
      "overwritten r' = overwritten r + length (seg_msgs s) + length (msgs (take k segs))"
      using Cons.IH [of ?r1] Cons.prems(2) by auto
    then show ?thesis by (intro exI [of _ r'] exI [of _ "Suc k"]) simp
  qed
qed

lemma msgs_drop: "\<exists>j. msgs (drop k segs) = drop j (msgs segs) \<and> length (msgs (take k segs)) = j"
  by (metis append_eq_conv_conj append_take_drop_id msgs_simps(3))

section \<open>The contract of put\<close>

definition ring_msgs :: "hpu_ring \<Rightarrow> hpu_ring_msg list \<Rightarrow> bool" where
  "ring_msgs r ms \<longleftrightarrow> (\<exists>segs. ring_wf r segs \<and> msgs segs = ms)"

text \<open>
  The ring after some of its oldest messages were removed (none, unless the policy is
  overwrite), each counted as overwritten; the rest of the state is as before.
\<close>

definition evicted :: "hpu_ring \<Rightarrow> hpu_ring_msg list \<Rightarrow> hpu_ring \<Rightarrow> hpu_ring_msg list \<Rightarrow> bool" where
  "evicted r ms r' ms' \<longleftrightarrow>
     (\<exists>j \<le> length ms. ms' = drop j ms \<and> overwritten r' = overwritten r + j
        \<and> (policy r \<noteq> RB_POL_OVERWRITE \<longrightarrow> j = 0))
     \<and> capacity r' = capacity r \<and> policy r' = policy r \<and> closed r' = closed r"

definition put_post :: "hpu_ring \<Rightarrow> hpu_ring_msg list \<Rightarrow> hpu_ring_msg \<Rightarrow> put_ctl \<Rightarrow> bool" where
  "put_post r ms msg c \<longleftrightarrow>
     (case c of PutContinue _ \<Rightarrow> False
      | PutReturn r' rc \<Rightarrow>
          (\<exists>ms'. evicted r ms r' ms' \<and>
             (rc = HPU_RING_OK \<and> \<not> closed r \<and> ring_msgs r' (ms' @ [msg]) \<and> dropped r' = dropped r
              \<or> rc = HPU_RING_DROPPED \<and> ring_msgs r' ms' \<and> ms' = ms \<and> dropped r' = dropped r + 1
                \<and> (closed r \<or> policy r = RB_POL_DISCARD)))
      | PutWait r' \<Rightarrow> evicted r ms r' ms \<and> ring_msgs r' ms \<and> dropped r' = dropped r
          \<and> policy r = RB_POL_WAIT \<and> \<not> closed r)"

lemma evicted_refl: "evicted r ms r ms"
  by (auto simp: evicted_def)

lemma evicted_trans: "evicted r ms r1 ms1 \<Longrightarrow> evicted r1 ms1 r2 ms2 \<Longrightarrow> evicted r ms r2 ms2"
  unfolding evicted_def
proof (elim conjE exE)
  fix j j'
  assume "j \<le> length ms" "ms1 = drop j ms" "overwritten r1 = overwritten r + j" "j' \<le> length ms1"
    "ms2 = drop j' ms1" "overwritten r2 = overwritten r1 + j'"
    "policy r \<noteq> RB_POL_OVERWRITE \<longrightarrow> j = 0" "policy r1 \<noteq> RB_POL_OVERWRITE \<longrightarrow> j' = 0" "policy r1 = policy r"
    "capacity r1 = capacity r" "closed r1 = closed r" "capacity r2 = capacity r1" "closed r2 = closed r1"
    "policy r2 = policy r1"
  then show "(\<exists>j\<le>length ms. ms2 = drop j ms \<and> overwritten r2 = overwritten r + j
        \<and> (policy r \<noteq> RB_POL_OVERWRITE \<longrightarrow> j = 0))
      \<and> capacity r2 = capacity r \<and> policy r2 = policy r \<and> closed r2 = closed r"
    by (intro conjI exI [of _ "j' + j"]) auto
qed

lemma evicted_same: "evicted r ms r' ms' \<Longrightarrow> policy r \<noteq> RB_POL_OVERWRITE \<Longrightarrow> ms' = ms"
  by (auto simp: evicted_def)

lemma put_post_after:
  assumes "evicted r ms r1 ms1" "dropped r1 = dropped r" "put_post r1 ms1 msg c"
  shows "put_post r ms msg c \<or> closed r"
proof (cases c)
  case (PutReturn r' rc)
  then obtain ms' where "evicted r1 ms1 r' ms'" and
    cases: "rc = HPU_RING_OK \<and> \<not> closed r1 \<and> ring_msgs r' (ms' @ [msg]) \<and> dropped r' = dropped r1
              \<or> rc = HPU_RING_DROPPED \<and> ring_msgs r' ms' \<and> ms' = ms1 \<and> dropped r' = dropped r1 + 1
                \<and> (closed r1 \<or> policy r1 = RB_POL_DISCARD)"
    using assms(3) by (auto simp: put_post_def)
  moreover from this have "evicted r ms r' ms'" using assms(1) evicted_trans by blast
  moreover have "closed r1 = closed r" "policy r1 = policy r" using assms(1) by (auto simp: evicted_def)
  ultimately show ?thesis
    using PutReturn assms(2) evicted_same [OF assms(1)] by (auto simp: put_post_def)
next
  case (PutWait r')
  then have w: "evicted r1 ms1 r' ms1" "ring_msgs r' ms1" "dropped r' = dropped r1" "policy r1 = RB_POL_WAIT"
    using assms(3) by (auto simp: put_post_def)
  have "policy r = RB_POL_WAIT" using w(4) assms(1) by (auto simp: evicted_def)
  moreover from this have "ms1 = ms" using evicted_same [OF assms(1)] by simp
  ultimately show ?thesis
    using PutWait w assms(2) evicted_trans [OF assms(1) w(1)] by (auto simp: put_post_def)
qed (use assms in \<open>simp add: put_post_def\<close>)

lemma put_iter_eq:
  "put_iter need msg r =
     (if closed r then Some (PutReturn (r\<lparr>dropped := dropped r + 1\<rparr>) HPU_RING_DROPPED)
      else if contig_of r < need \<and> contig_of r \<le> free_of r then Some (PutContinue (padded r))
      else if need \<le> contig_of r \<and> need \<le> free_of r then Some (PutReturn (recorded need msg r) HPU_RING_OK)
      else case policy r of
        RB_POL_OVERWRITE \<Rightarrow>
          map_option (\<lambda>r1. PutContinue (wake_up Broadcast_not_full (wake_up Signal_not_empty r1)))
            (drop_oldest need r)
      | RB_POL_WAIT \<Rightarrow> Some (PutWait r)
      | RB_POL_DISCARD \<Rightarrow> Some (PutReturn (r\<lparr>dropped := dropped r + 1\<rparr>) HPU_RING_DROPPED))"
  by (simp add: put_iter_def padded_def recorded_def rec_total_def Let_def free_of_def contig_of_def
      split: prod.split)

lemma wake_up_fields [simp]:
  "capacity (wake_up w r) = capacity r" "ring_head (wake_up w r) = ring_head r"
  "ring_tail (wake_up w r) = ring_tail r" "policy (wake_up w r) = policy r"
  "closed (wake_up w r) = closed r" "dropped (wake_up w r) = dropped r"
  "overwritten (wake_up w r) = overwritten r" "buf (wake_up w r) = buf r"
  by (simp_all add: wake_up_def)

lemma ring_wf_counters [simp]: "ring_wf (r\<lparr>dropped := n\<rparr>) segs = ring_wf r segs"
  by (simp add: ring_wf_def)

text \<open>The overwrite policy's turn: the loop continues in a ring with the room it asked for.\<close>

lemma overwrite_turn:
  assumes "ring_wf r segs" "need \<le> capacity r" "\<not> closed r" "policy r = RB_POL_OVERWRITE"
    and "\<not> (contig_of r < need \<and> contig_of r \<le> free_of r)" "\<not> (need \<le> contig_of r \<and> need \<le> free_of r)"
  obtains r1 segs1 where "put_iter need msg r = Some (PutContinue r1)" "ring_wf r1 segs1" "need \<le> free_of r1"
    "contig_of r1 = contig_of r" "evicted r (msgs segs) r1 (msgs segs1)" "dropped r1 = dropped r"
proof -
  obtain r' k where d: "drop_oldest need r = Some r'" "ring_wf r' (drop k segs)" "need \<le> free_of r'"
    "ring_tail r' = ring_tail r" "capacity r' = capacity r" "policy r' = policy r" "closed r' = closed r"
    "dropped r' = dropped r" "overwritten r' = overwritten r + length (msgs (take k segs))"
    using drop_oldest_spec [OF assms(1,2)] by blast
  let ?r1 = "wake_up Broadcast_not_full (wake_up Signal_not_empty r')"
  have it: "put_iter need msg r = Some (PutContinue ?r1)"
    by (simp only: put_iter_eq assms(3-6) if_False overflow_policy.case d(1) option.map)
  obtain j where j: "msgs (drop k segs) = drop j (msgs segs)" "length (msgs (take k segs)) = j"
    using msgs_drop by blast
  have "length (msgs segs) = length (msgs (take k segs)) + length (msgs (drop k segs))"
    by (metis append_take_drop_id length_append msgs_simps(3))
  with j d assms(4) have ev: "evicted r (msgs segs) ?r1 (msgs (drop k segs))"
    by (auto simp: evicted_def)
  have "contig_of ?r1 = contig_of r" "free_of ?r1 = free_of r'"
    using d(4,5) by (simp_all add: contig_of_def free_of_def)
  then show thesis using it d ev by (intro that [of ?r1 "drop k segs"]) simp_all
qed

lemma put_loop_unfold:
  "put_loop need msg r = (case put_iter need msg r of
     None \<Rightarrow> None | Some c \<Rightarrow> (case c of PutContinue r1 \<Rightarrow> put_loop need msg r1 | _ \<Rightarrow> Some c))"
  by (rule put_loop.simps)

lemma put_refused:
  assumes "ring_wf r segs" "closed r \<or> policy r = RB_POL_DISCARD"
  shows "put_post r (msgs segs) msg (PutReturn (r\<lparr>dropped := dropped r + 1\<rparr>) HPU_RING_DROPPED)"
proof -
  have "evicted r (msgs segs) (r\<lparr>dropped := dropped r + 1\<rparr>) (msgs segs)" by (simp add: evicted_def)
  moreover have "ring_msgs (r\<lparr>dropped := dropped r + 1\<rparr>) (msgs segs)"
    using assms(1) by (auto simp: ring_msgs_def)
  ultimately show ?thesis using assms(2) by (auto simp: put_post_def status_simps)
qed

lemma put_written:
  assumes "ring_wf r segs" "msg_ok msg" "\<not> closed r" "record_len msg \<le> contig_of r" "record_len msg \<le> free_of r"
  shows "put_post r (msgs segs) msg (PutReturn (recorded (record_len msg) msg r) HPU_RING_OK)"
proof -
  note w = recorded_wf [OF assms(1,2) refl assms(4,5)]
  have "evicted r (msgs segs) (recorded (record_len msg) msg r) (msgs segs)"
    using w(2-6) by (simp add: evicted_def)
  moreover have "ring_msgs (recorded (record_len msg) msg r) (msgs segs @ [msg])"
    using w(1) by (auto simp: ring_msgs_def intro!: exI [of _ "segs @ [SRec msg (rec_total (record_len msg) r)]"])
  ultimately show ?thesis using assms(3) w(6) by (auto simp: put_post_def)
qed

lemma put_waits:
  assumes "ring_wf r segs" "\<not> closed r" "policy r = RB_POL_WAIT"
  shows "put_post r (msgs segs) msg (PutWait r)"
  using assms evicted_refl by (auto simp: put_post_def ring_msgs_def)

lemma put_room:
  assumes wf: "ring_wf r segs" and ok: "msg_ok msg" and c: "\<not> closed r"
    and room: "record_len msg \<le> contig_of r"
  shows "\<exists>c. put_loop (record_len msg) msg r = Some c \<and> put_post r (msgs segs) msg c"
proof (cases "record_len msg \<le> free_of r")
  case True
  then have "put_loop (record_len msg) msg r = Some (PutReturn (recorded (record_len msg) msg r) HPU_RING_OK)"
    using room c by (subst put_loop_unfold) (simp add: put_iter_eq)
  then show ?thesis using put_written [OF wf ok c room True] by blast
next
  case False
  show ?thesis
  proof (cases "policy r")
    case RB_POL_OVERWRITE
    have "record_len msg \<le> capacity r" using room by (simp add: contig_of_def)
    with overwrite_turn [OF wf _ c RB_POL_OVERWRITE, of "record_len msg" msg] room False obtain r1 segs1 where
      t: "put_iter (record_len msg) msg r = Some (PutContinue r1)" "ring_wf r1 segs1" "record_len msg \<le> free_of r1"
      "contig_of r1 = contig_of r" "evicted r (msgs segs) r1 (msgs segs1)" "dropped r1 = dropped r" by auto
    have c1: "\<not> closed r1" using t(5) c by (simp add: evicted_def)
    have room1: "record_len msg \<le> contig_of r1" using room t(4) by simp
    have "put_loop (record_len msg) msg r = Some (PutReturn (recorded (record_len msg) msg r1) HPU_RING_OK)"
      by (subst put_loop_unfold, simp add: t(1), subst put_loop_unfold)
        (use c1 room1 t(3) in \<open>simp add: put_iter_eq\<close>)
    then show ?thesis
      using put_post_after [OF t(5,6) put_written [OF t(2) ok c1 room1 t(3)]] c by blast
  next
    case RB_POL_WAIT
    then have "put_loop (record_len msg) msg r = Some (PutWait r)"
      using False room c by (subst put_loop_unfold) (simp add: put_iter_eq)
    then show ?thesis using put_waits [OF wf c RB_POL_WAIT] by blast
  next
    case RB_POL_DISCARD
    then have "put_loop (record_len msg) msg r = Some (PutReturn (r\<lparr>dropped := dropped r + 1\<rparr>) HPU_RING_DROPPED)"
      using False room c by (subst put_loop_unfold) (simp add: put_iter_eq)
    then show ?thesis using put_refused [OF wf] RB_POL_DISCARD by blast
  qed
qed

lemma put_after_pad:
  assumes wf: "ring_wf r segs" and ok: "msg_ok msg" and c: "\<not> closed r"
    and room: "contig_of r < record_len msg" "contig_of r \<le> free_of r" "record_len msg \<le> capacity r"
  shows "\<exists>c. put_loop (record_len msg) msg r = Some c \<and> put_post r (msgs segs) msg c"
proof -
  note p = padded_wf [OF wf room(2)]
  have "put_loop (record_len msg) msg r = put_loop (record_len msg) msg (padded r)"
    using room c by (subst put_loop_unfold) (simp add: put_iter_eq)
  moreover have "record_len msg \<le> contig_of (padded r)" "\<not> closed (padded r)" using p(2,5) room(3) c by simp_all
  ultimately obtain c' where c': "put_loop (record_len msg) msg r = Some c'"
    "put_post (padded r) (msgs (segs @ [SPad (contig_of r)])) msg c'"
    using put_room [OF p(1) ok] by auto
  have "evicted r (msgs segs) (padded r) (msgs (segs @ [SPad (contig_of r)]))"
    using p by (simp add: evicted_def)
  from put_post_after [OF this p(7) c'(2)] c'(1) c show ?thesis by blast
qed

lemma put_spec:
  assumes wf: "ring_wf r segs" and ok: "msg_ok msg" and fits: "record_len msg \<le> capacity r"
  shows "\<exists>c. hpu_ring_put r msg = Some c \<and> put_post r (msgs segs) msg c"
proof (cases "closed r")
  case True
  then have "put_loop (record_len msg) msg r = Some (PutReturn (r\<lparr>dropped := dropped r + 1\<rparr>) HPU_RING_DROPPED)"
    by (subst put_loop_unfold) (simp add: put_iter_eq)
  then show ?thesis using put_refused [OF wf] True by (auto simp: hpu_ring_put_def)
next
  case False
  consider "record_len msg \<le> contig_of r" | "contig_of r < record_len msg" "contig_of r \<le> free_of r"
    | "contig_of r < record_len msg" "free_of r < contig_of r" by linarith
  then show ?thesis
  proof cases
    case 1
    then show ?thesis using put_room [OF wf ok False] by (simp add: hpu_ring_put_def)
  next
    case 2
    then show ?thesis using put_after_pad [OF wf ok False] fits by (simp add: hpu_ring_put_def)
  next
    case 3
    show ?thesis
    proof (cases "policy r")
      case RB_POL_OVERWRITE
      with overwrite_turn [OF wf fits False, of msg] 3 obtain r1 segs1 where
        t: "put_iter (record_len msg) msg r = Some (PutContinue r1)" "ring_wf r1 segs1" "record_len msg \<le> free_of r1"
        "contig_of r1 = contig_of r" "evicted r (msgs segs) r1 (msgs segs1)" "dropped r1 = dropped r" by auto
      have "\<not> closed r1" "record_len msg \<le> capacity r1" using t(5) False fits by (simp_all add: evicted_def)
      with put_after_pad [OF t(2) ok] t(3,4) 3 obtain c where
        c: "put_loop (record_len msg) msg r1 = Some c" "put_post r1 (msgs segs1) msg c" by auto
      have "hpu_ring_put r msg = Some c"
        unfolding hpu_ring_put_def by (subst put_loop_unfold) (simp add: t(1) c(1))
      with put_post_after [OF t(5,6) c(2)] False show ?thesis by blast
    next
      case RB_POL_WAIT
      then have "put_loop (record_len msg) msg r = Some (PutWait r)"
        using 3 False by (subst put_loop_unfold) (simp add: put_iter_eq)
      then show ?thesis using put_waits [OF wf False RB_POL_WAIT] by (auto simp: hpu_ring_put_def)
    next
      case RB_POL_DISCARD
      then have "put_loop (record_len msg) msg r = Some (PutReturn (r\<lparr>dropped := dropped r + 1\<rparr>) HPU_RING_DROPPED)"
        using 3 False by (subst put_loop_unfold) (simp add: put_iter_eq)
      then show ?thesis using put_refused [OF wf] RB_POL_DISCARD by (auto simp: hpu_ring_put_def)
    qed
  qed
qed

section \<open>The contract of get\<close>

definition get_post :: "hpu_ring \<Rightarrow> hpu_ring_msg list \<Rightarrow> bool \<Rightarrow> get_ctl \<Rightarrow> bool" where
  "get_post r ms no_wait c \<longleftrightarrow>
     (case c of GetContinue _ \<Rightarrow> False
      | GetReturn r' rc v \<Rightarrow>
          evicted r ms r' ms \<and> dropped r' = dropped r \<and>
          (case ms of [] \<Rightarrow> no_wait \<and> rc = HPU_RING_EMPTY \<and> v = None \<and> ring_msgs r' [] \<and> ring_head r' = ring_tail r'
           | m # ms' \<Rightarrow> rc = HPU_RING_OK \<and> ring_msgs r' ms' \<and> (\<exists>w. v = Some w \<and> view_matches m w))
      | GetWait r' \<Rightarrow> evicted r ms r' ms \<and> dropped r' = dropped r \<and> ms = [] \<and> \<not> no_wait
          \<and> ring_msgs r' [] \<and> ring_head r' = ring_tail r')"

lemma get_post_after:
  assumes "capacity r1 = capacity r" "policy r1 = policy r" "closed r1 = closed r" "dropped r1 = dropped r"
    "overwritten r1 = overwritten r" "get_post r1 ms nw c"
  shows "get_post r ms nw c"
  using assms by (auto simp: get_post_def evicted_def split: get_ctl.splits list.splits)

lemma first_segment_head:
  "ring_wf r (s # segs) \<Longrightarrow> ring_wf (r\<lparr>ring_head := ring_head r + seg_len s\<rparr>) segs"
  using first_segment(3) [of r s segs 0] by (simp add: ring_wf_def)

lemma read_view_meta [simp]: "v_meta (read_view bs) = decode_meta bs"
  by (simp add: read_view_def Let_def)

lemma first_view:
  assumes "ring_wf r (SRec m n # segs)" "bs = record_bytes r (ring_head r) \<or> bs = take n (record_bytes r (ring_head r))"
  shows "view_matches m (read_view bs)"
proof -
  let ?b = "record_bytes r (ring_head r)"
  have c: "seg_ok (SRec m n)" "ring_head r mod capacity r + n \<le> capacity r" "length (buf r) = capacity r"
    "take (raw_len m) ?b = encode_meta (fill_meta m n) @ payload m"
    using assms(1) by (auto simp: ring_wf_def record_bytes_def raw_len_def)
  have n: "n \<le> length ?b" using c(2,3) by (simp add: record_bytes_def)
  have cm: "(fill_meta m n)\<lparr>commit := 0\<rparr> = fill_meta m n" by (simp add: fill_meta_def)
  have "n \<le> length bs" "take (raw_len m) bs = encode_meta (fill_meta m n) @ payload m"
    using assms(2) n c(1,4) by (auto simp: min_def)
  then show ?thesis
    using read_view_matches [of m n bs 0] c(1) unfolding cm by simp
qed

lemma get_loop_unfold:
  "get_loop st poll ex r = (case get_iter st poll ex r of
     GetContinue r1 \<Rightarrow> get_loop st poll ex r1 | c \<Rightarrow> Some c)"
  by (subst get_loop.simps) (simp split: get_ctl.splits)

lemma get_spec:
  assumes "ring_wf r segs"
  shows "\<exists>c. get_loop st poll ex r = Some c \<and> get_post r (msgs segs) (closed r \<or> poll \<or> ex) c"
  using assms
proof (induction segs arbitrary: r)
  case Nil
  then have e: "ring_head r = ring_tail r" by (rule ring_wf_empty)
  have "ring_msgs r []" using Nil by (auto simp: ring_msgs_def intro!: exI [of _ "[]"])
  then show ?case
    using e evicted_refl [of r "[]"] by (subst get_loop_unfold) (auto simp: get_iter_def get_post_def)
next
  case (Cons s segs)
  have ok: "seg_ok s" using Cons.prems by (simp add: ring_wf_def)
  note f = first_segment [OF Cons.prems] and m = seg_meta_facts [OF ok]
  let ?r1 = "wake_up Broadcast_not_full (r\<lparr>ring_head := ring_head r + seg_len s\<rparr>)"
  have wf1: "ring_wf ?r1 segs" using first_segment_head [OF Cons.prems] by simp
  show ?case
  proof (cases s)
    case (SPad n)
    have "get_iter st poll ex r = GetContinue ?r1"
      using f(1,2) m SPad by (simp add: get_iter_def Let_def)
    then have "get_loop st poll ex r = get_loop st poll ex ?r1" by (subst get_loop_unfold) simp
    moreover obtain c where "get_loop st poll ex ?r1 = Some c" "get_post ?r1 (msgs segs) (closed r \<or> poll \<or> ex) c"
      using Cons.IH [OF wf1] by auto
    ultimately show ?thesis using get_post_after [of ?r1 r] SPad by auto
  next
    case (SRec msg n)
    define v where "v = (case st of
        Some len \<Rightarrow> if len \<ge> n then read_view (take n (record_bytes r (ring_head r)))
                    else read_view (record_bytes r (ring_head r))
      | None \<Rightarrow> read_view (record_bytes r (ring_head r)))"
    have "get_iter st poll ex r = GetReturn ?r1 HPU_RING_OK (Some v)"
      using f(1,2) m SRec by (simp add: get_iter_def Let_def v_def split: option.split)
    then have "get_loop st poll ex r = Some (GetReturn ?r1 HPU_RING_OK (Some v))"
      by (subst get_loop_unfold) simp
    moreover have "view_matches msg v"
      unfolding v_def using first_view [OF Cons.prems [unfolded SRec]] by (auto split: option.split)
    moreover have "ring_msgs ?r1 (msgs segs)" using wf1 by (auto simp: ring_msgs_def)
    ultimately show ?thesis using SRec by (auto simp: get_post_def evicted_def)
  qed
qed

section \<open>The ring as a queue\<close>

text \<open>A put whose caller does not wait, and a polling get with a staging buffer for any record.\<close>

definition ring_put_op :: "hpu_ring \<Rightarrow> hpu_ring_msg \<Rightarrow> (hpu_ring \<times> bool) option" where
  "ring_put_op r msg =
     (case hpu_ring_put r msg of
        Some (PutReturn r' rc) \<Rightarrow> Some (r', rc = HPU_RING_OK)
      | Some (PutWait r') \<Rightarrow> Some (r', False)
      | _ \<Rightarrow> None)"

definition ring_get_op :: "hpu_ring \<Rightarrow> (hpu_ring \<times> hpu_ring_view option) option" where
  "ring_get_op r =
     (case hpu_ring_get r (Some (2 ^ 32)) 0 False of
        Some (GetReturn r' rc v) \<Rightarrow> Some (r', v)
      | _ \<Rightarrow> None)"

definition ring_accepts :: "hpu_ring \<Rightarrow> hpu_ring_msg \<Rightarrow> bool" where
  "ring_accepts r msg \<longleftrightarrow> msg_ok msg \<and> record_len msg \<le> capacity r"

lemma ring_put_op_law:
  assumes "ring_msgs r ms" "ring_accepts r m"
  shows "\<exists>r' b k. ring_put_op r m = Some (r', b) \<and> ring_msgs r' (drop k ms @ (if b then [m] else []))
    \<and> ring_accepts r' = ring_accepts r \<and> policy r' = policy r \<and> (policy r \<noteq> RB_POL_OVERWRITE \<longrightarrow> k = 0)"
proof -
  obtain segs where wf: "ring_wf r segs" "msgs segs = ms" using assms(1) by (auto simp: ring_msgs_def)
  obtain c where c: "hpu_ring_put r m = Some c" "put_post r ms m c"
    using put_spec [OF wf(1)] wf(2) assms(2) by (auto simp: ring_accepts_def)
  show ?thesis
  proof (cases c)
    case (PutReturn r' rc)
    with c(2) obtain ms' where e: "evicted r ms r' ms'" and
      d: "rc = HPU_RING_OK \<and> ring_msgs r' (ms' @ [m]) \<or> rc = HPU_RING_DROPPED \<and> ring_msgs r' ms' \<and> ms' = ms"
      by (auto simp: put_post_def)
    from e obtain j where "ms' = drop j ms" "policy r \<noteq> RB_POL_OVERWRITE \<longrightarrow> j = 0" by (auto simp: evicted_def)
    moreover have "ring_accepts r' = ring_accepts r" "policy r' = policy r"
      using e by (auto simp: evicted_def ring_accepts_def fun_eq_iff)
    ultimately show ?thesis
      using d c(1) PutReturn by (intro exI [of _ r'] exI [of _ "rc = HPU_RING_OK"])
        (auto simp: ring_put_op_def status_simps)
  next
    case (PutWait r')
    with c show ?thesis
      by (intro exI [of _ r'] exI [of _ False] exI [of _ 0])
        (auto simp: ring_put_op_def put_post_def evicted_def ring_accepts_def fun_eq_iff)
  qed (use c(2) in \<open>simp add: put_post_def\<close>)
qed

lemma ring_get_op_law:
  assumes "ring_msgs r ms"
  shows "\<exists>r' v. ring_get_op r = Some (r', v) \<and> ring_accepts r' = ring_accepts r \<and> policy r' = policy r
    \<and> (case ms of [] \<Rightarrow> v = None \<and> ring_msgs r' []
       | m # ms' \<Rightarrow> (\<exists>w. v = Some w \<and> view_matches m w) \<and> ring_msgs r' ms')"
proof -
  obtain segs where wf: "ring_wf r segs" "msgs segs = ms" using assms(1) by (auto simp: ring_msgs_def)
  obtain c where "get_loop (Some (2 ^ 32)) True False r = Some c" "get_post r ms True c"
    using get_spec [OF wf(1), of "Some (2 ^ 32)" True False] wf(2) by auto
  then show ?thesis
    by (cases c; cases ms)
      (auto simp: ring_get_op_def hpu_ring_get_def get_post_def evicted_def ring_accepts_def fun_eq_iff)
qed

interpretation locked_any: fifo_queue ring_msgs ring_accepts ring_put_op ring_get_op view_matches
proof
  fix q ms m
  assume "ring_msgs q ms" "ring_accepts q m"
  from ring_put_op_law [OF this] show "\<exists>q' b k. ring_put_op q m = Some (q', b)
      \<and> ring_msgs q' (drop k ms @ (if b then [m] else [])) \<and> ring_accepts q' = ring_accepts q" by blast
next
  fix q
  assume "ring_msgs q []"
  from ring_get_op_law [OF this]
  show "\<exists>q'. ring_get_op q = Some (q', None) \<and> ring_msgs q' [] \<and> ring_accepts q' = ring_accepts q" by auto
next
  fix q m ms
  assume "ring_msgs q (m # ms)"
  from ring_get_op_law [OF this]
  show "\<exists>q' v. ring_get_op q = Some (q', Some v) \<and> view_matches m v \<and> ring_msgs q' ms
      \<and> ring_accepts q' = ring_accepts q" by auto
qed

definition ring_keeps :: "hpu_ring \<Rightarrow> hpu_ring_msg list \<Rightarrow> bool" where
  "ring_keeps r ms \<longleftrightarrow> ring_msgs r ms \<and> policy r \<noteq> RB_POL_OVERWRITE"

interpretation locked_keep: lossless_queue ring_keeps ring_accepts ring_put_op ring_get_op view_matches
proof
  fix q ms m
  assume "ring_keeps q ms" "ring_accepts q m"
  then show put: "\<exists>q' b. ring_put_op q m = Some (q', b)
      \<and> ring_keeps q' (ms @ (if b then [m] else [])) \<and> ring_accepts q' = ring_accepts q"
    using ring_put_op_law [of q ms m] unfolding ring_keeps_def by fastforce
  then show "\<exists>q' b k. ring_put_op q m = Some (q', b)
      \<and> ring_keeps q' (drop k ms @ (if b then [m] else [])) \<and> ring_accepts q' = ring_accepts q"
    by (metis drop0)
next
  fix q
  assume "ring_keeps q []"
  then show "\<exists>q'. ring_get_op q = Some (q', None) \<and> ring_keeps q' [] \<and> ring_accepts q' = ring_accepts q"
    using ring_get_op_law [of q "[]"] by (auto simp: ring_keeps_def)
next
  fix q m ms
  assume "ring_keeps q (m # ms)"
  then show "\<exists>q' v. ring_get_op q = Some (q', Some v) \<and> view_matches m v \<and> ring_keeps q' ms
      \<and> ring_accepts q' = ring_accepts q"
    using ring_get_op_law [of q "m # ms"] by (auto simp: ring_keeps_def)
qed

section \<open>Everything callers can do\<close>

text \<open>One call on the ring by any thread: the mutex makes each call, up to a wait, atomic.\<close>

inductive ring_step :: "hpu_ring \<Rightarrow> hpu_ring \<Rightarrow> bool" where
  step_put: "ring_accepts r msg \<Longrightarrow> hpu_ring_put r msg = Some (PutReturn r' rc) \<Longrightarrow> ring_step r r'"
| step_put_wait: "ring_accepts r msg \<Longrightarrow> hpu_ring_put r msg = Some (PutWait r') \<Longrightarrow> ring_step r r'"
| step_get: "hpu_ring_get r staging timeout expired = Some (GetReturn r' rc v) \<Longrightarrow> ring_step r r'"
| step_get_wait: "hpu_ring_get r staging timeout expired = Some (GetWait r') \<Longrightarrow> ring_step r r'"
| step_kick: "ring_step r (hpu_ring_kick_consumer r)"
| step_close: "ring_step r (hpu_ring_close r)"

inductive_cases ring_stepE: "ring_step r r'"

inductive ring_reachable :: "hpu_ring \<Rightarrow> bool" where
  reach_create: "hpu_ring_create mem ok cap pol = Some r \<Longrightarrow> align8 cap < 2 ^ 32 \<Longrightarrow> ring_reachable r"
| reach_step: "ring_reachable r \<Longrightarrow> ring_step r r' \<Longrightarrow> ring_reachable r'"

lemma create_wf:
  assumes "hpu_ring_create mem ok cap pol = Some r" "align8 cap < 2 ^ 32"
  shows "ring_wf r [] \<and> policy r = pol \<and> capacity r = align8 cap"
proof -
  have r: "r = \<lparr>capacity = align8 cap, buf = map mem [0..<align8 cap], policy = pol,
                 ring_head = 0, ring_tail = 0, dropped = 0, overwritten = 0, closed = False, woken = []\<rparr>"
    and "2 * META_SIZE \<le> cap"
    using assms(1) by (auto simp: hpu_ring_create_def split: if_splits)
  moreover from this have "2 * META_SIZE \<le> align8 cap" using align8_ge le_trans by blast
  ultimately show ?thesis using assms(2) by (simp add: ring_wf_def gap_ok_def)
qed

lemma put_post_msgs:
  "put_post r ms msg (PutReturn r' rc) \<Longrightarrow> \<exists>ms'. ring_msgs r' ms' \<and> capacity r' = capacity r"
  "put_post r ms msg (PutWait r') \<Longrightarrow> \<exists>ms'. ring_msgs r' ms' \<and> capacity r' = capacity r"
  by (auto simp: put_post_def evicted_def)

lemma get_post_msgs:
  "get_post r ms nw (GetReturn r' rc v) \<Longrightarrow> \<exists>ms'. ring_msgs r' ms' \<and> capacity r' = capacity r"
  "get_post r ms nw (GetWait r') \<Longrightarrow> \<exists>ms'. ring_msgs r' ms' \<and> capacity r' = capacity r"
  by (auto simp: get_post_def evicted_def split: list.splits)

lemma ring_step_msgs:
  assumes "ring_step r r'" "ring_msgs r ms"
  shows "\<exists>ms'. ring_msgs r' ms' \<and> capacity r' = capacity r"
proof -
  obtain segs where wf: "ring_wf r segs" "msgs segs = ms" using assms(2) by (auto simp: ring_msgs_def)
  have put: "\<exists>ms'. ring_msgs x ms' \<and> capacity x = capacity r"
    if "ring_accepts r msg" "hpu_ring_put r msg = Some (PutReturn x rc) \<or> hpu_ring_put r msg = Some (PutWait x)" for x msg rc
    using put_spec [OF wf(1), of msg] that put_post_msgs by (auto simp: ring_accepts_def)
  have get: "\<exists>ms'. ring_msgs x ms' \<and> capacity x = capacity r"
    if "hpu_ring_get r st t ex = Some (GetReturn x rc v) \<or> hpu_ring_get r st t ex = Some (GetWait x)" for x st t ex rc v
    using get_spec [OF wf(1), of st "t = 0" ex] that get_post_msgs by (auto simp: hpu_ring_get_def)
  have "ring_wf (hpu_ring_close r) segs" using wf(1) by (simp add: hpu_ring_close_def ring_wf_def)
  then have close: "\<exists>ms'. ring_msgs (hpu_ring_close r) ms' \<and> capacity (hpu_ring_close r) = capacity r"
    by (auto simp: hpu_ring_close_def ring_msgs_def)
  have kick: "\<exists>ms'. ring_msgs (hpu_ring_kick_consumer r) ms' \<and> capacity (hpu_ring_kick_consumer r) = capacity r"
    using wf by (auto simp: hpu_ring_kick_consumer_def ring_msgs_def)
  show ?thesis
    using assms(1) by (elim ring_stepE) (use put get kick close in blast)+
qed

lemma ring_msgs_bounds:
  assumes "ring_msgs r ms"
  shows "length (buf r) = capacity r \<and> hpu_ring_used r \<le> capacity r \<and> ring_head r \<le> ring_tail r"
  using assms ring_wf_le by (auto simp: ring_msgs_def ring_wf_def hpu_ring_used_def intro: chain_le)

text \<open>A small message, for concrete instances.\<close>

definition demo_msg :: "byte list \<Rightarrow> hpu_ring_msg" where
  "demo_msg m = \<lparr>g_level = 2, g_rec_flags = 0, g_category = ''net'', g_file = [], g_func = [], g_line = 7,
     g_tid = 1, g_realtime_ns = 0, g_mono_us = 0, g_msg = m, g_fields = [], g_field_count = 0\<rparr>"

section \<open>Properties\<close>

text \<open>
  C16. Put on the locked ring. In a ring holding messages \<open>ms\<close>, a put of a describable record
  no longer than the ring always ends. It either stores the record behind what the ring
  holds, or, when the ring is closed or the policy is discard, refuses it and counts one
  drop, or, under wait, blocks. Only the overwrite policy removes messages, the oldest
  first, and it counts each of them; nothing else about the ring's contents changes.
\<close>

theorem locked_put_contract:
  assumes "ring_msgs r ms" "msg_ok msg" "record_len msg \<le> capacity r"
  shows "\<exists>c. hpu_ring_put r msg = Some c \<and> put_post r ms msg c"
  using assms put_spec by (auto simp: ring_msgs_def)

theorem locked_put_contract_witness:
  "\<exists>r c. hpu_ring_create (\<lambda>_. CHR 0x41) True 200 RB_POL_DISCARD = Some r
     \<and> hpu_ring_put r (demo_msg ''hello'') = Some c \<and> put_post r [] (demo_msg ''hello'') c"
proof -
  obtain r where r: "hpu_ring_create (\<lambda>_. CHR 0x41) True 200 RB_POL_DISCARD = Some r"
    by (simp add: hpu_ring_create_def META_SIZE_def)
  then have "ring_msgs r []" "capacity r = 200"
    using create_wf [OF r] by (auto simp: ring_msgs_def align8_def intro!: exI [of _ "[]"])
  moreover have "msg_ok (demo_msg ''hello'')" "record_len (demo_msg ''hello'') \<le> 200"
    by (simp_all add: demo_msg_def msg_ok_def record_len_def raw_len_def payload_def META_SIZE_def align8_def)
  ultimately show ?thesis using locked_put_contract [of r "[]" "demo_msg ''hello''"] r by auto
qed

text \<open>
  C18. Get on the locked ring. A get always ends, with any staging buffer: it delivers a
  view of the oldest message, whose scalars, strings and field bytes are those that were
  put, and leaves the others; on a ring without messages it skips what padding is left and
  returns empty, or waits when it may. A closed ring is drained the same way.
\<close>

theorem locked_get_contract:
  assumes "ring_msgs r ms"
  shows "\<exists>c. hpu_ring_get r staging timeout_ms expired = Some c
    \<and> get_post r ms (closed r \<or> timeout_ms = 0 \<or> expired) c"
  using assms get_spec by (auto simp: ring_msgs_def hpu_ring_get_def)

theorem locked_get_contract_witness:
  "\<exists>r c. hpu_ring_create (\<lambda>_. CHR 0x41) True 200 RB_POL_WAIT = Some r
     \<and> hpu_ring_get r None 5 False = Some c \<and> get_post r [] False c"
proof -
  obtain r where r: "hpu_ring_create (\<lambda>_. CHR 0x41) True 200 RB_POL_WAIT = Some r"
    by (simp add: hpu_ring_create_def META_SIZE_def)
  then have "ring_msgs r []" using create_wf [OF r] by (auto simp: ring_msgs_def align8_def intro!: exI [of _ "[]"])
  moreover have "\<not> closed r" using r by (auto simp: hpu_ring_create_def split: if_splits)
  ultimately show ?thesis using locked_get_contract [of r "[]" None 5 False] r by auto
qed

text \<open>
  C19. Memory safety of the locked ring: whatever calls any threads make, in any order, from
  creation on, no write ever leaves the buffer (its length stays the capacity), the read
  cursor never passes the write cursor, and the bytes in use never exceed the capacity.
\<close>

theorem locked_ring_safe:
  assumes "ring_reachable r"
  shows "length (buf r) = capacity r \<and> hpu_ring_used r \<le> capacity r \<and> ring_head r \<le> ring_tail r
    \<and> (\<exists>ms. ring_msgs r ms)"
proof -
  from assms have "\<exists>ms. ring_msgs r ms"
  proof induction
    case (reach_create mem ok cap pol r)
    from create_wf [OF reach_create] show ?case by (auto simp: ring_msgs_def)
  next
    case (reach_step r r')
    then show ?case using ring_step_msgs by blast
  qed
  then show ?thesis using ring_msgs_bounds by blast
qed

theorem locked_ring_safe_witness:
  "\<exists>r. ring_reachable r \<and> capacity r = 200 \<and> length (buf (hpu_ring_close r)) = 200"
proof -
  obtain r where r: "hpu_ring_create (\<lambda>_. CHR 0x41) True 200 RB_POL_WAIT = Some r"
    by (simp add: hpu_ring_create_def META_SIZE_def)
  have a: "align8 200 < 2 ^ 32" by (simp add: align8_def)
  have reach: "ring_reachable r" by (rule reach_create [OF r a])
  then have "ring_reachable (hpu_ring_close r)" using reach_step step_close by blast
  from locked_ring_safe [OF this] have "length (buf (hpu_ring_close r)) = capacity (hpu_ring_close r)" by simp
  moreover have "capacity r = 200" using create_wf [OF r a] by (simp add: align8_def)
  ultimately show ?thesis using reach by (auto simp: hpu_ring_close_def)
qed

text \<open>
  C17. Exactly-once, in order. Under the discard and wait policies, for any run of puts
  (of records the ring can hold) and polling gets on a fresh ring, the run ends, the views
  delivered match, in order, a prefix of the messages accepted, and the ring holds
  exactly the rest: nothing accepted is lost, repeated or reordered.
\<close>

theorem locked_fifo_exact:
  assumes "hpu_ring_create mem ok cap pol = Some r" "align8 cap < 2 ^ 32" "pol \<noteq> RB_POL_OVERWRITE"
    and "list_all (ring_accepts r) (op_msgs ops)"
  shows "\<exists>r' acc got delivered rest. run_ops ring_put_op ring_get_op r ops = Some (r', acc, got)
    \<and> delivered @ rest = acc \<and> list_all2 view_matches delivered got \<and> ring_msgs r' rest"
proof -
  have rep: "ring_keeps r []"
    using create_wf [OF assms(1,2)] assms(3) by (auto simp: ring_keeps_def ring_msgs_def intro!: exI [of _ "[]"])
  obtain r' acc got where run: "run_ops ring_put_op ring_get_op r ops = Some (r', acc, got)"
    using locked_keep.run_total [OF rep assms(4)] by auto
  from locked_keep.run_exact [OF rep assms(4) run] run show ?thesis by (auto simp: ring_keeps_def)
qed

theorem locked_fifo_exact_witness:
  "\<exists>r r' acc got delivered rest.
     run_ops ring_put_op ring_get_op r [OpPut (demo_msg ''a''), OpPut (demo_msg ''b''), OpGet] = Some (r', acc, got)
     \<and> delivered @ rest = acc \<and> list_all2 view_matches delivered got \<and> ring_msgs r' rest"
proof -
  obtain r where r: "hpu_ring_create (\<lambda>_. CHR 0x41) True 200 RB_POL_WAIT = Some r"
    by (simp add: hpu_ring_create_def META_SIZE_def)
  have a: "align8 200 < 2 ^ 32" by (simp add: align8_def)
  have "list_all (ring_accepts r) (op_msgs [OpPut (demo_msg ''a''), OpPut (demo_msg ''b''), OpGet])"
    using create_wf [OF r a]
    by (simp add: ring_accepts_def demo_msg_def msg_ok_def record_len_def raw_len_def payload_def META_SIZE_def align8_def)
  from locked_fifo_exact [OF r a _ this] show ?thesis by blast
qed

text \<open>
  Order under overwrite. Under every policy the views delivered match, in order, a
  subsequence of the messages accepted, and what the ring still holds comes after them:
  overwriting loses messages but never repeats or reorders them, and never corrupts one.
\<close>

theorem locked_fifo_order:
  assumes "hpu_ring_create mem ok cap pol = Some r" "align8 cap < 2 ^ 32"
    and "list_all (ring_accepts r) (op_msgs ops)"
  shows "\<exists>r' acc got delivered rest. run_ops ring_put_op ring_get_op r ops = Some (r', acc, got)
    \<and> subseq (delivered @ rest) acc \<and> list_all2 view_matches delivered got \<and> ring_msgs r' rest"
proof -
  have rep: "ring_msgs r []"
    using create_wf [OF assms(1,2)] by (auto simp: ring_msgs_def intro!: exI [of _ "[]"])
  obtain r' acc got where run: "run_ops ring_put_op ring_get_op r ops = Some (r', acc, got)"
    using locked_any.run_total [OF rep assms(3)] by auto
  from locked_any.run_order [OF rep assms(3) run] run show ?thesis by auto
qed

theorem locked_fifo_order_witness:
  "\<exists>r r' acc got delivered rest.
     run_ops ring_put_op ring_get_op r [OpPut (demo_msg ''a''), OpPut (demo_msg ''b''), OpGet] = Some (r', acc, got)
     \<and> subseq (delivered @ rest) acc \<and> list_all2 view_matches delivered got \<and> ring_msgs r' rest"
proof -
  obtain r where r: "hpu_ring_create (\<lambda>_. CHR 0x41) True 112 RB_POL_OVERWRITE = Some r"
    by (simp add: hpu_ring_create_def META_SIZE_def)
  have a: "align8 112 < 2 ^ 32" by (simp add: align8_def)
  have "list_all (ring_accepts r) (op_msgs [OpPut (demo_msg ''a''), OpPut (demo_msg ''b''), OpGet])"
    using create_wf [OF r a]
    by (simp add: ring_accepts_def demo_msg_def msg_ok_def record_len_def raw_len_def payload_def META_SIZE_def align8_def)
  from locked_fifo_order [OF r a this] show ?thesis by blast
qed

text \<open>
  C39. Progress under wait. The comment's claim that a ring of at least twice the record
  guarantees progress: once a consumer has emptied the open ring, a blocked producer's
  next turn stores its record and returns OK, under every policy.
\<close>

theorem wait_progress:
  assumes "ring_msgs r []" "ring_head r = ring_tail r" "\<not> closed r" "msg_ok msg"
    and "2 * record_len msg \<le> capacity r"
  shows "\<exists>r'. hpu_ring_put r msg = Some (PutReturn r' HPU_RING_OK) \<and> ring_msgs r' [msg]"
proof -
  obtain segs where wf: "ring_wf r segs" "msgs segs = []" using assms(1) by (auto simp: ring_msgs_def)
  have free: "free_of r = capacity r" using assms(2) by (simp add: free_of_def)
  show ?thesis
  proof (cases "record_len msg \<le> contig_of r")
    case True
    then have "put_loop (record_len msg) msg r = Some (PutReturn (recorded (record_len msg) msg r) HPU_RING_OK)"
      using free assms(3,5) by (subst put_loop_unfold) (simp add: put_iter_eq)
    moreover have "ring_msgs (recorded (record_len msg) msg r) [msg]"
      using recorded_wf(1) [OF wf(1) assms(4) refl True] free assms(5) wf(2)
      by (auto simp: ring_msgs_def intro!: exI [of _ "segs @ [SRec msg (rec_total (record_len msg) r)]"])
    ultimately show ?thesis by (auto simp: hpu_ring_put_def)
  next
    case False
    have le: "contig_of r \<le> free_of r" using free by (simp add: contig_of_def)
    note p = padded_wf [OF wf(1) le]
    have "ring_tail (padded r) = ring_tail r + contig_of r"
      using contig_facts(3) [OF wf(1)] by (simp add: padded_def write_pad_def contig_of_def Let_def)
    moreover have "ring_head (padded r) = ring_head r" by (simp add: padded_def write_pad_def Let_def)
    ultimately have "free_of (padded r) = capacity r - contig_of r"
      using assms(2) p(3) by (simp add: free_of_def)
    then have room: "record_len msg \<le> contig_of (padded r)" "record_len msg \<le> free_of (padded r)"
      using p(2) False assms(5) by auto
    have cl: "\<not> closed (padded r)" using p(5) assms(3) by simp
    have "put_loop (record_len msg) msg r = put_loop (record_len msg) msg (padded r)"
      using False le assms(3) by (subst put_loop_unfold) (simp add: put_iter_eq)
    also have "\<dots> = Some (PutReturn (recorded (record_len msg) msg (padded r)) HPU_RING_OK)"
      using room cl by (subst put_loop_unfold) (simp add: put_iter_eq)
    finally have "hpu_ring_put r msg = Some (PutReturn (recorded (record_len msg) msg (padded r)) HPU_RING_OK)"
      by (simp add: hpu_ring_put_def)
    moreover have "ring_msgs (recorded (record_len msg) msg (padded r)) [msg]"
      using recorded_wf(1) [OF p(1) assms(4) refl room] wf(2) by (auto simp: ring_msgs_def intro!: exI)
    ultimately show ?thesis by blast
  qed
qed

theorem wait_progress_witness:
  "\<exists>r r'. hpu_ring_create (\<lambda>_. CHR 0x41) True 200 RB_POL_WAIT = Some r
     \<and> hpu_ring_put r (demo_msg ''hello'') = Some (PutReturn r' HPU_RING_OK)
     \<and> ring_msgs r' [demo_msg ''hello'']"
proof -
  obtain r where r: "hpu_ring_create (\<lambda>_. CHR 0x41) True 200 RB_POL_WAIT = Some r"
    by (simp add: hpu_ring_create_def META_SIZE_def)
  have "ring_msgs r []" "capacity r = 200"
    using create_wf [OF r] by (auto simp: ring_msgs_def align8_def intro!: exI [of _ "[]"])
  moreover have "ring_head r = ring_tail r" "\<not> closed r"
    using r by (auto simp: hpu_ring_create_def split: if_splits)
  moreover have "msg_ok (demo_msg ''hello'')" "2 * record_len (demo_msg ''hello'') \<le> 200"
    by (simp_all add: demo_msg_def msg_ok_def record_len_def raw_len_def payload_def META_SIZE_def align8_def)
  ultimately show ?thesis using wait_progress [of r "demo_msg ''hello''"] r by auto
qed

end
