(* ===== verification/PipelineAsync.thy ===== *)
theory PipelineAsync
  imports PipelineLaws RingLockedLaws
begin

text \<open>
  The asynchronous path beside the synchronous one: a record the producer put into the ring and a
  consumer read back renders, with the same format and cache, to the line the synchronous path renders;
  and the example runtime of the pipeline's properties.
\<close>

section \<open>Records that render alike\<close>

text \<open>What rendering reads of a record; a string that is empty is as good as NULL.\<close>

definition same_text :: "hpu_log_record \<Rightarrow> hpu_log_record \<Rightarrow> bool" where
  "same_text a b \<longleftrightarrow> r_level a = r_level b \<and> obytes (category a) = obytes (category b) \<and> obytes (r_file a) = obytes (r_file b)
     \<and> obytes (r_func a) = obytes (r_func b) \<and> nat (r_line a) = nat (r_line b) \<and> msg a = msg b
     \<and> realtime_ns a = realtime_ns b \<and> mono_us a = mono_us b \<and> tid a = tid b \<and> field_count a = field_count b
     \<and> (field_count a > 0 \<longrightarrow> fields_wire a \<noteq> None \<and> fields_wire b \<noteq> None
          \<and> (\<forall>env json esc buf. fields_render env a json esc buf = fields_render env b json esc buf))"

lemma append_nothing: "rb_append b [] = b" "rb_append_escaped_json b [] = b"
  by (simp_all add: rb_append_def)

lemma append_opt_bytes: "append_opt json b s = (if obytes s = [] then b else append_opt json b (Some (obytes s)))"
  by (cases s) (auto simp: append_opt_def append_nothing)

lemma opt_of_bytes: "obytes s = obytes t \<Longrightarrow> append_opt json b s = append_opt json b t"
  by (simp add: append_opt_bytes [of json b s] append_opt_bytes [of json b t])

lemma category_of_bytes:
  "(if s \<noteq> None \<and> the s \<noteq> [] then append_opt json b s else b) = append_opt json b s"
  by (cases s) (auto simp: append_opt_def append_nothing)

lemma same_text_action:
  assumes "same_text x y"
  shows "render_action fmt x env esc a bc = render_action fmt y env esc a bc"
proof -
  obtain b cache where bc: "bc = (b, cache)" by (cases bc)
  have opts: "append_opt j b (category x) = append_opt j b (category y)" "append_opt j b (r_file x) = append_opt j b (r_file y)"
    "append_opt j b (r_func x) = append_opt j b (r_func y)" for j
    using assms by (auto simp: same_text_def intro!: opt_of_bytes)
  have time: "render_time b x env cache utc = render_time b y env cache utc" for utc
    using assms by (simp add: render_time_def same_text_def)
  have fields: "(if field_count x > 0 \<and> fields_wire x \<noteq> None then fields_render env x j esc b else b)
      = (if field_count y > 0 \<and> fields_wire y \<noteq> None then fields_render env y j esc b else b)" for j
    using assms by (auto simp: same_text_def)
  have rest: "r_level x = r_level y" "nat (r_line x) = nat (r_line y)" "msg x = msg y" "tid x = tid y"
    using assms by (simp_all add: same_text_def)
  show ?thesis
    unfolding bc render_action_def prod.case category_of_bytes opts time fields rest by (rule refl)
qed

lemma same_text_render:
  assumes "same_text x y"
  shows "hpu_format_render fmt x env cache esc n mk sz = hpu_format_render fmt y env cache esc n mk sz"
proof -
  have "action_step fmt x env esc = action_step fmt y env esc"
    by (intro ext) (simp add: action_step_def same_text_action [OF assms])
  then show ?thesis by (simp add: hpu_format_render_def)
qed

section \<open>Fields of a region, whatever follows it\<close>

text \<open>Rendering from the spans' own bytes.\<close>

fun put_spans :: "hpu_fmt_env \<Rightarrow> bool \<Rightarrow> bool \<Rightarrow> (string \<times> nat \<times> byte list) list \<Rightarrow> bool \<Rightarrow> render_buf \<Rightarrow> render_buf" where
  "put_spans env json esc [] first b = b"
| "put_spans env json esc ((k, t, v) # ts) first b =
     put_spans env json esc ts False (fields_render_one env json esc (k @ v) 0 (length k) t (length v) first b)"

definition span_local :: "string \<times> nat \<times> byte list \<Rightarrow> bool" where
  "span_local s \<longleftrightarrow> (case s of (k, t, v) \<Rightarrow> t \<noteq> HPULOGC_FIELD_BOOL
     \<and> (t = HPULOGC_FIELD_I64 \<or> t = HPULOGC_FIELD_U64 \<or> t = HPULOGC_FIELD_F64 \<longrightarrow> length v = 8))"

lemma render_one_local:
  assumes "span_local (k, t, v)"
  shows "fields_render_one env json esc (pre @ encode_span k t v @ post) (length pre + 6) (length k) t (length v) first b
    = fields_render_one env json esc (k @ v) 0 (length k) t (length v) first b"
proof -
  let ?mem = "pre @ encode_span k t v @ post"
  have key: "bslice (length pre + 6) (length k) ?mem = k" "bslice 0 (length k) (k @ v) = k"
    by (rule bytes_at_span) (simp add: bslice_def)
  have val: "bslice (length pre + 6 + length k) (length v) ?mem = v" "bslice (length k) (length v) (k @ v) = v"
    by (rule bytes_at_span) (simp add: bslice_def)
  have "render_value env json esc ?mem t (length pre + 6 + length k) (length v) b'
      = render_value env json esc (k @ v) t (length k) (length v) b'" for b'
  proof (cases "t = HPULOGC_FIELD_I64 \<or> t = HPULOGC_FIELD_U64 \<or> t = HPULOGC_FIELD_F64")
    case True
    then have "length v = 8" using assms by (auto simp: span_local_def)
    then have "bslice (length pre + 6 + length k) 8 ?mem = bslice (length k) 8 (k @ v)" using val by simp
    then show ?thesis unfolding render_value_def using True by (auto simp: field_tags)
  next
    case False
    then show ?thesis unfolding render_value_def val using assms by (simp add: span_local_def)
  qed
  then show ?thesis unfolding fields_render_one_def key Let_def by simp
qed

lemma fields_loop_local:
  "list_all span_ok ts \<Longrightarrow> list_all span_local ts \<Longrightarrow> n = length pre \<Longrightarrow>
    fields_loop env json esc (pre @ concat (map enc ts) @ post) (pre @ concat (map enc ts) @ post') (length ts) n first b
    = put_spans env json esc ts first b"
proof (induction ts arbitrary: pre n first b)
  case Nil
  then show ?case by simp
next
  case (Cons x ts)
  obtain k t v where x: "x = (k, t, v)" by (metis prod_cases3)
  have ok: "span_ok (k, t, v)" "span_local (k, t, v)" using Cons.prems x by simp_all
  let ?r = "concat (map enc ts) @ post" and ?r' = "concat (map enc ts) @ post'"
  have w: "pre @ concat (map enc (x # ts)) @ post = pre @ encode_span k t v @ ?r"
    "pre @ concat (map enc (x # ts)) @ post' = pre @ encode_span k t v @ ?r'"
    by (simp_all add: x enc_def)
  have ih: "fields_loop env json esc (pre @ encode_span k t v @ ?r) (pre @ encode_span k t v @ ?r') (length ts)
      (length pre + 6 + length k + length v) False b' = put_spans env json esc ts False b'" for b'
    using Cons.IH [of "length pre + 6 + length k + length v" "pre @ encode_span k t v"] Cons.prems by simp
  show ?case
    unfolding w using Cons.prems(3) x ih
    by (simp add: rd_at_span [OF ok(1)] render_one_local [OF ok(2)] Let_def del: add_2_eq_Suc')
qed

definition no_bools :: "hpulogc_field list \<Rightarrow> bool" where
  "no_bools fs \<longleftrightarrow> (\<forall>f \<in> set fs. \<forall>x. fvalue f \<noteq> FBool x)"

lemma candidates_local: "no_bools fs \<Longrightarrow> list_all span_local (candidates fs)"
proof -
  assume nb: "no_bools fs"
  have "span_local s" if f: "f \<in> set fs" and s: "candidate f = Some s" for f s
  proof -
    obtain k t v d where c: "s = (k, t, v)" "encode_value (fvalue f) = Some (t, v, d)"
      using s by (auto simp: candidate_def split: option.splits if_splits)
    have "\<forall>x. fvalue f \<noteq> FBool x" using nb f by (simp add: no_bools_def)
    then show ?thesis using c by (cases "fvalue f" rule: encode_value.cases) (auto simp: span_local_def field_tags split: if_splits)
  qed
  then show ?thesis by (auto simp: candidates_def list_all_iff split: option.splits)
qed

lemma fields_render_local:
  assumes ser: "hpu_fields_serialize fs budget has_out cap = Inr (w, n, lost)" and nb: "no_bools fs"
    and a: "fields_wire a = Some (w @ rest)" "field_count a = n"
  shows "fields_render env a json esc b
    = (let b1 = (if json then rb_append b ('','' @ [CHR 0x22] @ ''fields'' @ [CHR 0x22] @ '':{'') else b);
           b2 = put_spans env json esc (take n (candidates fs)) True b1
       in if json then rb_append b2 ''}'' else b2)"
proof -
  let ?ts = "take n (candidates fs)"
  from ser obtain z where w: "w = concat (map enc ?ts) @ replicate z (CHR 0x00)" and c: "n \<le> length (candidates fs)"
    by (rule serialize_image)
  have len: "length ?ts = n" using c by simp
  have ok: "list_all span_ok ?ts" "list_all span_local ?ts"
    using candidates_ok [of fs] candidates_local [OF nb] by (auto simp: list_all_iff dest: in_set_takeD)
  have "fields_loop env json esc (w @ rest) ((w @ rest) @ after_wire a) n 0 True b' = put_spans env json esc ?ts True b'" for b'
    using fields_loop_local [OF ok, of 0 "[]" env json esc "replicate z (CHR 0x00) @ rest" "replicate z (CHR 0x00) @ rest @ after_wire a"]
    unfolding w len by simp
  then show ?thesis using a by (simp add: fields_render_def)
qed

section \<open>Through the ring\<close>

definition call_fits :: "submit_env \<Rightarrow> submit_call \<Rightarrow> bool" where
  "call_fits se sc \<longleftrightarrow> 0 \<le> sc_level sc \<and> sc_level sc \<le> 5 \<and> sc_line sc < 2 ^ 31
     \<and> - (2 ^ 63) \<le> se_realtime_ns se \<and> se_realtime_ns se < 2 ^ 63 \<and> se_now_ns se < 2 ^ 64 \<and> no_bools (sc_fields sc)"

lemma sint_of_int: "- (2 ^ (LENGTH('a) - 1)) \<le> x \<Longrightarrow> x < 2 ^ (LENGTH('a) - 1) \<Longrightarrow> sint (of_int x :: 'a::len word) = x"
  by (simp add: signed_of_int signed_take_bit_int_eq_self)

lemma fields_of_submit:
  assumes "submit_fields se fs n = (w, k, lost)"
  obtains (none) "k = 0" | (some) r where "w = Some r" "hpu_fields_serialize fs n True submit_wire_need = Inr (r, k, lost)"
  using assms by (auto simp: submit_fields_def split: if_splits sum.splits prod.splits)

lemma view_record:
  assumes v: "view_matches (submit_ring_msg B se sc rt) v" and fits: "call_fits se sc"
  shows "same_text (consumer_view_to_rec after v) (submit_record B se sc rt)"
proof -
  obtain w k lost where fs: "submit_fields se (sc_fields sc) (rt_max_log_len rt) = (w, k, lost)" by (metis prod_cases3)
  let ?m = "submit_ring_msg B se sc rt" and ?a = "consumer_view_to_rec after v" and ?b = "submit_record B se sc rt"
  have k16: "k \<le> 16"
    using fs by (cases rule: fields_of_submit)
      (use serialize_image ser_inv_loop in \<open>auto simp: ser_inv_def field_limits elim!: serialize_image\<close>)
  have cnt: "unat (g_field_count ?m) = k" using k16 by (simp add: submit_ring_msg_def fs unat_of_nat)
  have lvl: "uint (and (level_flags (v_meta v)) 0xFF) = sc_level sc"
  proof -
    have "uint (ucast (level_flags (v_meta v)) :: 8 word) = uint (of_int (sc_level sc) :: 8 word)"
      using v by (simp add: view_matches_def submit_ring_msg_def fs)
    also have "\<dots> = sc_level sc" using fits by (simp add: call_fits_def uint_word_of_int)
    finally show ?thesis by (simp add: unsigned_ucast_eq uint_and take_bit_eq_mask mask_eq_exp_minus_1)
  qed
  have mono: "- (2 ^ 63) \<le> submit_mono_us se rt \<and> submit_mono_us se rt < 2 ^ 63"
    using fits by (auto simp: submit_mono_us_def call_fits_def)
  have str: "obytes (RingRecord.opt_bytes s) = s" for s by (simp add: RingRecord.opt_bytes_def)
  have scal: "r_level ?a = r_level ?b" "msg ?a = msg ?b" "tid ?a = tid ?b" "realtime_ns ?a = realtime_ns ?b"
    "mono_us ?a = mono_us ?b" "nat (r_line ?a) = nat (r_line ?b)"
    using v fits lvl mono
    by (simp_all add: view_matches_def consumer_view_to_rec_def submit_record_def submit_ring_msg_def fs Let_def call_fits_def sint_of_int)
  have strs: "obytes (category ?a) = obytes (category ?b)" "obytes (r_file ?a) = obytes (r_file ?b)" "obytes (r_func ?a) = obytes (r_func ?b)"
    using v by (simp_all add: view_matches_def consumer_view_to_rec_def submit_record_def submit_ring_msg_def fs Let_def str)
  have cnts: "field_count ?a = k" "field_count ?b = k"
    using v cnt by (simp_all add: view_matches_def consumer_view_to_rec_def submit_record_def fs Let_def)
  have "fields_wire ?a \<noteq> None \<and> fields_wire ?b \<noteq> None
      \<and> (\<forall>env json esc buf. fields_render env ?a json esc buf = fields_render env ?b json esc buf)" if pos: "k > 0"
  proof -
    obtain r where r: "w = Some r" "hpu_fields_serialize (sc_fields sc) (rt_max_log_len rt) True submit_wire_need = Inr (r, k, lost)"
      using fs pos by (cases rule: fields_of_submit) auto
    have "g_field_count ?m > 0" using cnt pos by (metis unat_0 word_greater_zero_iff less_numeral_extra(3))
    then obtain rest where rest: "v_fields v = Some (r @ rest)"
      using v r(1) by (auto simp: view_matches_def submit_ring_msg_def fs)
    have nb: "no_bools (sc_fields sc)" using fits by (simp add: call_fits_def)
    have wa: "fields_wire ?a = Some (r @ rest)" "fields_wire ?b = Some (r @ [])"
      using rest r(1) by (simp_all add: consumer_view_to_rec_def submit_record_def fs Let_def)
    show ?thesis
      using fields_render_local [OF r(2) nb wa(1) cnts(1)] fields_render_local [OF r(2) nb wa(2) cnts(2)] wa by simp
  qed
  then show ?thesis unfolding same_text_def using scal strs cnts by simp
qed

text \<open>
  C3. The ring does not change a line. When the oldest record of the ring is the one a call put there, a
  consumer that takes it renders it, with the same format and time cache, to the line the
  synchronous path renders for that call. Boolean fields are excepted: rendering reads them past their
  end.
\<close>

theorem async_line_is_sync_line:
  assumes "ring_msgs r (submit_ring_msg B se sc rt # ms)" and "call_fits se sc"
  shows "\<exists>r' v. hpu_ring_get r (Some staging) timeout_ms expired = Some (GetReturn r' HPU_RING_OK (Some v)) \<and> ring_msgs r' ms
    \<and> hpu_format_render f (consumer_view_to_rec after v) env cache esc n mk sz
      = hpu_format_render f (submit_record B se sc rt) env cache esc n mk sz"
proof -
  obtain segs where w: "ring_wf r segs" "msgs segs = submit_ring_msg B se sc rt # ms" using assms(1) by (auto simp: ring_msgs_def)
  obtain c where c: "hpu_ring_get r (Some staging) timeout_ms expired = Some c"
    "get_post r (submit_ring_msg B se sc rt # ms) (closed r \<or> timeout_ms = 0 \<or> expired) c"
    using get_spec [OF w(1), of "Some staging" "timeout_ms = 0" expired] w(2) by (auto simp: hpu_ring_get_def)
  then obtain r' v where g: "c = GetReturn r' HPU_RING_OK (Some v)" "ring_msgs r' ms" "view_matches (submit_ring_msg B se sc rt) v"
    by (cases c) (auto simp: get_post_def)
  then show ?thesis using c(1) same_text_render [OF view_record [OF g(3) assms(2)]] by blast
qed

theorem async_line_is_sync_line_witness:
  "\<exists>r0 r r' v. hpu_ring_create (\<lambda>_. CHR 0x41) True 400 RB_POL_DISCARD = Some r0
     \<and> hpu_ring_put r0 (submit_ring_msg full_build demo_se (demo_sc 4) demo_rt) = Some (PutReturn r HPU_RING_OK)
     \<and> hpu_ring_get r (Some 400) 5 False = Some (GetReturn r' HPU_RING_OK (Some v))
     \<and> hpu_format_render demo_fmt (consumer_view_to_rec [] v) demo_env hpu_fmt_cache_init False 40 None (Some 41)
       = hpu_format_render demo_fmt (submit_record full_build demo_se (demo_sc 4) demo_rt) demo_env hpu_fmt_cache_init False 40 None (Some 41)"
proof -
  let ?m = "submit_ring_msg full_build demo_se (demo_sc 4) demo_rt"
  have fs: "submit_fields demo_se (sc_fields (demo_sc 4)) (rt_max_log_len demo_rt) = (None, 0, 0)"
    by (simp add: submit_fields_def demo_sc_def)
  have m: "?m = \<lparr>g_level = 4, g_rec_flags = 0, g_category = ''net.http'', g_file = [], g_func = [], g_line = 3,
      g_tid = 1, g_realtime_ns = 0, g_mono_us = 0, g_msg = ''ready'', g_fields = [], g_field_count = 0\<rparr>"
    unfolding submit_ring_msg_def fs
    by (simp add: demo_se_def demo_sc_def demo_rt_def cut_category_def submit_msg_def submit_mono_us_def full_build_def)
  obtain r0 where r0: "hpu_ring_create (\<lambda>_. CHR 0x41) True 400 RB_POL_DISCARD = Some r0"
    by (simp add: hpu_ring_create_def META_SIZE_def)
  then have w: "ring_wf r0 []" "capacity r0 = 400" "ring_head r0 = 0" "ring_tail r0 = 0" "\<not> closed r0"
    using create_wf [OF r0] by (auto simp: align8_def hpu_ring_create_def split: if_splits)
  have ok: "msg_ok ?m" "record_len ?m = 72"
    by (simp_all add: m msg_ok_def record_len_def raw_len_def payload_def META_SIZE_def align8_def)
  obtain c where c: "hpu_ring_put r0 ?m = Some c" "put_post r0 [] ?m c"
    using put_spec [OF w(1) ok(1)] ok(2) w(2) by auto
  have "\<exists>r. c = PutReturn r HPU_RING_OK"
    using c(1) w ok(2) by (auto simp: hpu_ring_put_def put_loop_unfold [of 72] put_iter_def Let_def write_record_def wake_up_def split: if_splits)
  then obtain r where r: "c = PutReturn r HPU_RING_OK" by blast
  then have msgs: "ring_msgs r [?m]" using c(2) by (auto simp: put_post_def evicted_def status_simps)
  have fits: "call_fits demo_se (demo_sc 4)" by (simp add: call_fits_def demo_sc_def demo_se_def no_bools_def)
  from async_line_is_sync_line [OF msgs fits, of 400 5 False demo_fmt "[]" demo_env hpu_fmt_cache_init False 40 None "Some 41"]
  show ?thesis using r0 c(1) r by blast
qed

end
