(* ===== verification/SinkQueueLaws.thy ===== *)
theory SinkQueueLaws
  imports SinkQueue
begin

text \<open>
  The second-level queue delivers what it accepts: the packed record is decoded back to the event,
  the bytes between the offsets are a sequence of records and bridge words in every reachable state,
  and so every run of pushes and worker rounds delivers the accepted events in order. Two defects are
  stated as well: the write offset can get stuck before the end of the buffer, after which nothing is
  ever accepted, and a stopped worker drops what it has just swept.
\<close>

section \<open>Reading a packed record\<close>

text \<open>The event as the queue hands it on.\<close>

definition queue_view :: "hpulogc_event \<Rightarrow> hpulogc_event" where
  "queue_view ev =
     (let row = hpu_fields_unpack (obytes (ev_wire ev)) (ev_field_count ev) HPULOGC_MAX_FIELDS
      in ev\<lparr>ev_category := null_if_empty (obytes (ev_category ev)), ev_file := null_if_empty (obytes (ev_file ev)),
            ev_func := null_if_empty (obytes (ev_func ev)), ev_src_line := max 0 (ev_src_line ev),
            ev_fields := row, ev_field_count := length row, ev_wire := null_if_empty (obytes (ev_wire ev))\<rparr>)"

lemma queue_view_eq:
  "queue_view ev =
     \<lparr>ev_level = ev_level ev, ev_category = null_if_empty (obytes (ev_category ev)), ev_file = null_if_empty (obytes (ev_file ev)),
      ev_func = null_if_empty (obytes (ev_func ev)), ev_src_line = max 0 (ev_src_line ev), ev_msg = ev_msg ev, ev_tid = ev_tid ev,
      ev_realtime_ns = ev_realtime_ns ev, ev_mono_us = ev_mono_us ev, ev_line = ev_line ev,
      ev_fields = hpu_fields_unpack (obytes (ev_wire ev)) (ev_field_count ev) HPULOGC_MAX_FIELDS,
      ev_field_count = length (hpu_fields_unpack (obytes (ev_wire ev)) (ev_field_count ev) HPULOGC_MAX_FIELDS),
      ev_wire = null_if_empty (obytes (ev_wire ev))\<rparr>"
  by (cases ev) (simp add: queue_view_def Let_def)

definition event_fits :: "hpulogc_event \<Rightarrow> bool" where
  "event_fits ev \<longleftrightarrow>
     0 \<le> ev_level ev \<and> ev_level ev < 128 \<and> ev_src_line ev < 65536
     \<and> length (ev_line ev) < 65536 \<and> length (ev_msg ev) < 65536
     \<and> length (obytes (ev_category ev)) < 65536 \<and> length (obytes (ev_file ev)) < 65536
     \<and> length (obytes (ev_func ev)) < 65536 \<and> length (obytes (ev_wire ev)) < 65536 \<and> ev_field_count ev < 65536
     \<and> - (2 ^ 63) \<le> ev_realtime_ns ev \<and> ev_realtime_ns ev < 2 ^ 63
     \<and> - (2 ^ 63) \<le> ev_mono_us ev \<and> ev_mono_us ev < 2 ^ 63"

lemma i64_roundtrip: "- (2 ^ 63) \<le> i \<Longrightarrow> i < 2 ^ 63 \<Longrightarrow> i64_dec (i64_enc i) = i"
proof -
  assume i: "- (2 ^ 63) \<le> i" "i < 2 ^ 63"
  have "nat (i mod 2 ^ 64) < 256 ^ 8" by (simp add: nat_less_iff)
  then have d: "int (le_dec (i64_enc i)) = i mod 2 ^ 64" by (simp add: i64_enc_def)
  show ?thesis
  proof (cases "0 \<le> i")
    case True
    then show ?thesis using i d by (simp add: i64_dec_def)
  next
    case False
    then have "i mod 2 ^ 64 = i + 2 ^ 64" using i mod_pos_pos_trivial [of "i + 2 ^ 64" "2 ^ 64"] by simp
    then show ?thesis using i d False by (simp add: i64_dec_def)
  qed
qed

lemma length_i64_enc [simp]: "length (i64_enc i) = 8"
  by (simp add: i64_enc_def)

lemma length_sq_header [simp]: "length (sq_header ev) = 56"
  by (simp add: sq_header_def)

lemma length_sq_record: "length (sq_record ev) = sq_packed_size ev"
  by (simp add: sq_record_def sq_packed_size_def SQ_HDR_def)

lemma header_slices:
  "bslice 0 4 (sq_header ev) = le_enc 4 (sq_packed_size ev)"
  "bslice 4 1 (sq_header ev) = [char_of (nat (ev_level ev mod 256))]"
  "bslice 8 2 (sq_header ev) = le_enc 2 (length (ev_line ev))"
  "bslice 10 2 (sq_header ev) = le_enc 2 (length (ev_msg ev))"
  "bslice 12 2 (sq_header ev) = le_enc 2 (length (obytes (ev_category ev)))"
  "bslice 14 2 (sq_header ev) = le_enc 2 (length (obytes (ev_file ev)))"
  "bslice 16 2 (sq_header ev) = le_enc 2 (length (obytes (ev_func ev)))"
  "bslice 18 2 (sq_header ev) = le_enc 2 (ev_field_count ev)"
  "bslice 20 2 (sq_header ev) = le_enc 2 (length (obytes (ev_wire ev)))"
  "bslice 22 2 (sq_header ev) = le_enc 2 (nat (ev_src_line ev))"
  "bslice 32 8 (sq_header ev) = i64_enc (ev_realtime_ns ev)"
  "bslice 40 8 (sq_header ev) = i64_enc (ev_mono_us ev)"
  "bslice 48 8 (sq_header ev) = le_enc 8 (unat (ev_tid ev))"
  by (simp_all add: sq_header_def bslice_def)

lemma bslice_front: "i + n \<le> length h \<Longrightarrow> bslice (length pre + i) n (pre @ h @ post) = bslice i n h"
  by (simp add: bslice_def)

lemma header_at:
  assumes "base = pre @ sq_record ev @ post" "i + n \<le> 56"
  shows "bslice (length pre + i) n base = bslice i n (sq_header ev)"
  using assms bslice_front [of i n "sq_header ev" pre "ev_payload ev @ post"] by (simp add: sq_record_def)

lemma payload_at:
  assumes "base = pre @ sq_record ev @ post"
  shows "bslice (length pre + 56) (length (ev_line ev)) base = ev_line ev"
    and "bslice (length pre + 56 + length (ev_line ev)) (length (ev_msg ev)) base = ev_msg ev"
    and "bslice (length pre + 56 + length (ev_line ev) + length (ev_msg ev)) (length (obytes (ev_category ev))) base
       = obytes (ev_category ev)"
    and "bslice (length pre + 56 + length (ev_line ev) + length (ev_msg ev) + length (obytes (ev_category ev)))
         (length (obytes (ev_file ev))) base = obytes (ev_file ev)"
    and "bslice (length pre + 56 + length (ev_line ev) + length (ev_msg ev) + length (obytes (ev_category ev))
           + length (obytes (ev_file ev))) (length (obytes (ev_func ev))) base = obytes (ev_func ev)"
    and "bslice (length pre + 56 + length (ev_line ev) + length (ev_msg ev) + length (obytes (ev_category ev))
           + length (obytes (ev_file ev)) + length (obytes (ev_func ev))) (length (obytes (ev_wire ev))) base = obytes (ev_wire ev)"
proof -
  have one: "bslice (length a) (length x) (a @ x @ y) = x" for a x y :: "byte list"
    by (simp add: bslice_def)
  let ?h = "pre @ sq_header ev"
  have b: "base = ?h @ ev_line ev @ ev_msg ev @ obytes (ev_category ev) @ obytes (ev_file ev) @ obytes (ev_func ev)
       @ obytes (ev_wire ev) @ post"
    using assms by (simp add: sq_record_def ev_payload_def)
  show "bslice (length pre + 56) (length (ev_line ev)) base = ev_line ev"
    using one [of ?h "ev_line ev"] by (simp add: b)
  show "bslice (length pre + 56 + length (ev_line ev)) (length (ev_msg ev)) base = ev_msg ev"
    using one [of "?h @ ev_line ev" "ev_msg ev"] by (simp add: b add.assoc)
  show "bslice (length pre + 56 + length (ev_line ev) + length (ev_msg ev)) (length (obytes (ev_category ev))) base
       = obytes (ev_category ev)"
    using one [of "?h @ ev_line ev @ ev_msg ev" "obytes (ev_category ev)"] by (simp add: b add.assoc)
  show "bslice (length pre + 56 + length (ev_line ev) + length (ev_msg ev) + length (obytes (ev_category ev)))
         (length (obytes (ev_file ev))) base = obytes (ev_file ev)"
    using one [of "?h @ ev_line ev @ ev_msg ev @ obytes (ev_category ev)" "obytes (ev_file ev)"] by (simp add: b add.assoc)
  show "bslice (length pre + 56 + length (ev_line ev) + length (ev_msg ev) + length (obytes (ev_category ev))
           + length (obytes (ev_file ev))) (length (obytes (ev_func ev))) base = obytes (ev_func ev)"
    using one [of "?h @ ev_line ev @ ev_msg ev @ obytes (ev_category ev) @ obytes (ev_file ev)" "obytes (ev_func ev)"]
    by (simp add: b add.assoc)
  show "bslice (length pre + 56 + length (ev_line ev) + length (ev_msg ev) + length (obytes (ev_category ev))
           + length (obytes (ev_file ev)) + length (obytes (ev_func ev))) (length (obytes (ev_wire ev))) base = obytes (ev_wire ev)"
    using one [of "?h @ ev_line ev @ ev_msg ev @ obytes (ev_category ev) @ obytes (ev_file ev) @ obytes (ev_func ev)"
        "obytes (ev_wire ev)"] by (simp add: b add.assoc)
qed

lemma decode_record:
  assumes fits: "event_fits ev" and base: "base = pre @ sq_record ev @ post"
    and room: "length pre + sq_packed_size ev \<le> cap" and small: "sq_packed_size ev < 2 ^ 32"
  shows "sq_decode base cap (length pre) = Some (sq_packed_size ev, queue_view ev)"
proof -
  note at = header_at [OF base] 
  have u16: "n < 65536 \<Longrightarrow> le_dec (le_enc 2 n) = n" for n by (rule le_dec_enc_small) simp
  have "nat (ev_src_line ev) < 65536" using fits unfolding event_fits_def by arith
  then have sl: "le_dec (le_enc 2 (nat (ev_src_line ev))) = nat (ev_src_line ev)" by (rule u16)
  have rd: "rd_u16 base (length pre + 8) = length (ev_line ev)" "rd_u16 base (length pre + 10) = length (ev_msg ev)"
    "rd_u16 base (length pre + 12) = length (obytes (ev_category ev))" "rd_u16 base (length pre + 14) = length (obytes (ev_file ev))"
    "rd_u16 base (length pre + 16) = length (obytes (ev_func ev))" "rd_u16 base (length pre + 18) = ev_field_count ev"
    "rd_u16 base (length pre + 20) = length (obytes (ev_wire ev))" "rd_u16 base (length pre + 22) = nat (ev_src_line ev)"
    using fits at [of _ 2] by (simp_all add: rd_u16_def header_slices u16 sl event_fits_def)
  have l: "le_dec (bslice (length pre) 4 base) = sq_packed_size ev"
    using at [of 0 4] small by (simp add: header_slices le_dec_enc)
  have lev: "le_dec (bslice (length pre + 4) 1 base) = nat (ev_level ev)"
  proof -
    have "bslice (length pre + 4) 1 base = [char_of (nat (ev_level ev mod 256))]"
      using at [of 4 1] unfolding header_slices(2) by simp
    moreover have "nat (ev_level ev mod 256) = nat (ev_level ev)" "nat (ev_level ev) < 256"
      using fits unfolding event_fits_def by (simp, linarith)
    ultimately show ?thesis by simp
  qed
  have i: "i64_dec (bslice (length pre + 32) 8 base) = ev_realtime_ns ev" "i64_dec (bslice (length pre + 40) 8 base) = ev_mono_us ev"
    using at [of _ 8] fits by (simp_all add: header_slices event_fits_def i64_roundtrip)
  have "unat (ev_tid ev) < 256 ^ 8" using unsigned_less [of "ev_tid ev"] by simp
  then have t: "of_nat (le_dec (bslice (length pre + 48) 8 base)) = ev_tid ev"
    using at [of 48 8] by (simp add: header_slices)
  have sz: "SQ_HDR \<le> sq_packed_size ev" "length pre + SQ_HDR \<le> cap" using room by (simp_all add: sq_packed_size_def)
  have "nat (ev_level ev) < 128" using fits unfolding event_fits_def by linarith
  then show ?thesis
    using room sz fits
    by (simp add: sq_decode_def Let_def rd l lev i t lev [unfolded One_nat_def] payload_at [OF base] queue_view_eq SQ_HDR_def max_def event_fits_def)
qed

section \<open>Draining a sequence of records and bridge words\<close>

datatype sq_item = SqRec hpulogc_event | SqPad

fun item_bytes :: "sq_item \<Rightarrow> byte list" where
  "item_bytes (SqRec ev) = sq_record ev"
| "item_bytes SqPad = replicate 4 (CHR 0x00)"

fun item_ok :: "sq_item \<Rightarrow> bool" where
  "item_ok (SqRec ev) = (event_fits ev \<and> sq_packed_size ev < 2 ^ 32)"
| "item_ok SqPad = True"

definition item_events :: "sq_item list \<Rightarrow> hpulogc_event list" where
  "item_events its = concat (map (\<lambda>it. case it of SqRec ev \<Rightarrow> [ev] | SqPad \<Rightarrow> []) its)"

lemma item_events_simps [simp]:
  "item_events [] = []" "item_events (SqRec ev # its) = ev # item_events its" "item_events (SqPad # its) = item_events its"
  "item_events (a @ b) = item_events a @ item_events b"
  by (simp_all add: item_events_def)

abbreviation items_bytes :: "sq_item list \<Rightarrow> byte list" where
  "items_bytes its \<equiv> concat (map item_bytes its)"

lemma record_ge_56: "56 \<le> sq_packed_size ev"
  by (simp add: sq_packed_size_def SQ_HDR_def)

lemma short_no_events: "length (items_bytes its) < 56 \<Longrightarrow> item_events its = []"
proof (induction its)
  case (Cons it its)
  show ?case
  proof (cases it)
    case (SqRec ev)
    then show ?thesis using Cons record_ge_56 [of ev] by (simp add: length_sq_record)
  qed (use Cons in simp)
qed simp

lemma collect_items:
  "list_all item_ok its \<Longrightarrow> sweep = pre @ items_bytes its @ post \<Longrightarrow> co_off c = length pre \<Longrightarrow>
   avail = length pre + length (items_bytes its) \<Longrightarrow> avail \<le> cap \<Longrightarrow> ob_filter_count (co_base c) = 0 \<Longrightarrow>
   \<exists>its1 its2. its = its1 @ its2 \<and> (item_events its1 = [] \<and> 0 < room \<longrightarrow> item_events its2 = [])
     \<and> sq_worker_collect grow sweep cap avail room c
        = \<lparr>co_base = co_base c, co_scratch = co_scratch c,
           co_batch = co_batch c @ map (\<lambda>e. (queue_view e, False)) (item_events its1),
           co_off = length pre + length (items_bytes its1)\<rparr>"
proof (induction its arbitrary: pre c room)
  case Nil
  then have "sq_worker_collect grow sweep cap avail room c = c"
    by (subst sq_worker_collect.simps) (simp add: SQ_HDR_def)
  with Nil show ?case by simp
next
  case (Cons it its)
  show ?case
  proof (cases "room = 0 \<or> co_off c + SQ_HDR > avail")
    case True
    then have "sq_worker_collect grow sweep cap avail room c = c" by (subst sq_worker_collect.simps) simp
    moreover have "item_events (it # its) = []" if "0 < room"
      by (rule short_no_events) (use True that Cons.prems in \<open>simp add: SQ_HDR_def\<close>)
    ultimately show ?thesis
      using Cons.prems by (intro exI [of _ "[]"] exI [of _ "it # its"]) simp
  next
    case go: False
    have sw: "sweep = (pre @ item_bytes it) @ items_bytes its @ post" using Cons.prems(2) by simp
    have av: "avail = length (pre @ item_bytes it) + length (items_bytes its)" using Cons.prems(4) by simp
    show ?thesis
    proof (cases it)
      case SqPad
      have z: "le_dec (bslice (co_off c) 4 sweep) = 0"
        using Cons.prems(2,3) SqPad bslice_front [of 0 4 "replicate 4 (CHR 0x00)" pre] by (simp add: bslice_def)
      let ?c = "c\<lparr>co_off := co_off c + 4\<rparr>"
      have step: "sq_worker_collect grow sweep cap avail room c = sq_worker_collect grow sweep cap avail room ?c"
        using go z by (subst sq_worker_collect.simps) simp
      obtain its1 its2 where ih: "its = its1 @ its2" "item_events its1 = [] \<and> 0 < room \<longrightarrow> item_events its2 = []"
        "sq_worker_collect grow sweep cap avail room ?c
          = \<lparr>co_base = co_base ?c, co_scratch = co_scratch ?c,
             co_batch = co_batch ?c @ map (\<lambda>e. (queue_view e, False)) (item_events its1),
             co_off = length (pre @ item_bytes it) + length (items_bytes its1)\<rparr>"
      proof -
        have "\<exists>its1 its2. its = its1 @ its2 \<and> (item_events its1 = [] \<and> 0 < room \<longrightarrow> item_events its2 = [])
            \<and> sq_worker_collect grow sweep cap avail room ?c
            = \<lparr>co_base = co_base ?c, co_scratch = co_scratch ?c,
               co_batch = co_batch ?c @ map (\<lambda>e. (queue_view e, False)) (item_events its1),
               co_off = length (pre @ item_bytes it) + length (items_bytes its1)\<rparr>"
          by (rule Cons.IH [OF _ sw _ av]) (use Cons.prems SqPad in auto)
        then show thesis using that by blast
      qed
      then show ?thesis unfolding step
        by (intro exI [of _ "it # its1"] exI [of _ its2]) (simp add: SqPad)
    next
      case (SqRec ev)
      have ok: "event_fits ev" "sq_packed_size ev < 2 ^ 32" using Cons.prems(1) SqRec by simp_all
      have dec: "sq_decode sweep cap (co_off c) = Some (sq_packed_size ev, queue_view ev)"
        unfolding Cons.prems(3)
        by (rule decode_record [OF ok(1) _ _ ok(2)]) (use Cons.prems SqRec in \<open>auto simp: length_sq_record\<close>)
      have "bslice (length pre + 0) 4 sweep = bslice 0 4 (sq_header ev)"
        by (rule header_at [where post = "items_bytes its @ post"]) (use Cons.prems(2) SqRec in auto)
      then have nz: "le_dec (bslice (co_off c) 4 sweep) = sq_packed_size ev"
        using ok(2) Cons.prems(3) by (simp add: header_slices le_dec_enc)
      let ?c = "\<lparr>co_base = co_base c, co_scratch = co_scratch c, co_batch = co_batch c @ [(queue_view ev, False)],
                co_off = co_off c + sq_packed_size ev\<rparr>"
      have step: "sq_worker_collect grow sweep cap avail room c = sq_worker_collect grow sweep cap avail (room - 1) ?c"
        using go nz record_ge_56 [of ev] Cons.prems(6) dec
        by (subst sq_worker_collect.simps) (simp add: sq_filter_event_def)
      obtain its1 its2 where ih: "its = its1 @ its2"
        "sq_worker_collect grow sweep cap avail (room - 1) ?c
          = \<lparr>co_base = co_base ?c, co_scratch = co_scratch ?c,
             co_batch = co_batch ?c @ map (\<lambda>e. (queue_view e, False)) (item_events its1),
             co_off = length (pre @ item_bytes it) + length (items_bytes its1)\<rparr>"
      proof -
        have "\<exists>its1 its2. its = its1 @ its2 \<and> (item_events its1 = [] \<and> 0 < room - 1 \<longrightarrow> item_events its2 = [])
            \<and> sq_worker_collect grow sweep cap avail (room - 1) ?c
            = \<lparr>co_base = co_base ?c, co_scratch = co_scratch ?c,
               co_batch = co_batch ?c @ map (\<lambda>e. (queue_view e, False)) (item_events its1),
               co_off = length (pre @ item_bytes it) + length (items_bytes its1)\<rparr>"
          by (rule Cons.IH [OF _ sw _ av]) (use Cons.prems SqRec in \<open>auto simp: length_sq_record\<close>)
        then show thesis using that by blast
      qed
      then show ?thesis unfolding step
        by (intro exI [of _ "it # its1"] exI [of _ its2]) (simp add: SqRec)
    qed
  qed
qed

lemma emit_each_filter [simp]: "ob_filter_count (emit_each f evs b) = ob_filter_count b"
  by (induction f evs b rule: emit_each.induct) (simp add: hpu_sink_account_failed_def split: prod.split)+

lemma emit_batch_filter [simp]: "ob_filter_count (sq_emit_batch evs b) = ob_filter_count b"
  by (simp add: sq_emit_batch_def Let_def hpu_sink_account_failed_def split: option.split prod.split)

lemma batch_views_plain: "sq_batch_views scratch (map (\<lambda>e. (queue_view e, False)) evs) = map queue_view evs"
  by (simp add: sq_batch_views_def)

lemma drain_items:
  "list_all item_ok its \<Longrightarrow> sweep = pre @ items_bytes its @ post \<Longrightarrow> off = length pre \<Longrightarrow>
   avail = length pre + length (items_bytes its) \<Longrightarrow> avail \<le> cap \<Longrightarrow> ob_filter_count b = 0 \<Longrightarrow> 0 < batch_max \<Longrightarrow>
   \<exists>b' scratch'. sq_worker_drain grow sweep cap avail batch_max off (b, scratch, seen)
      = (b', scratch', seen @ map queue_view (item_events its)) \<and> ob_filter_count b' = 0"
proof (induction its arbitrary: pre off b scratch seen rule: length_induct)
  case (1 its)
  show ?case
  proof (cases "off + SQ_HDR > avail")
    case True
    then have "item_events its = []" using 1 by (intro short_no_events) (simp add: SQ_HDR_def)
    then show ?thesis using True 1 by (subst sq_worker_drain.simps) simp
  next
    case go: False
    let ?c0 = "\<lparr>co_base = b, co_scratch = scratch, co_batch = [], co_off = off\<rparr>"
    obtain its1 its2 where c: "its = its1 @ its2" "item_events its1 = [] \<longrightarrow> item_events its2 = []"
      "sq_worker_collect grow sweep cap avail batch_max ?c0
        = \<lparr>co_base = b, co_scratch = scratch, co_batch = map (\<lambda>e. (queue_view e, False)) (item_events its1),
           co_off = length pre + length (items_bytes its1)\<rparr>"
      using collect_items [of its sweep pre post ?c0 avail cap batch_max grow] "1.prems" by auto
    show ?thesis
    proof (cases "item_events its1 = []")
      case True
      then show ?thesis using go c "1.prems" by (subst sq_worker_drain.simps) (simp add: Let_def)
    next
      case False
      then have ne: "its1 \<noteq> []" by auto
      let ?b = "sq_emit_batch (map queue_view (item_events its1)) b"
      have step: "sq_worker_drain grow sweep cap avail batch_max off (b, scratch, seen)
          = sq_worker_drain grow sweep cap avail batch_max (length pre + length (items_bytes its1))
              (?b, scratch, seen @ map queue_view (item_events its1))"
        using go c(3) False by (subst sq_worker_drain.simps) (simp add: Let_def batch_views_plain)
      have "\<exists>b' scratch'. sq_worker_drain grow sweep cap avail batch_max (length pre + length (items_bytes its1))
              (?b, scratch, seen @ map queue_view (item_events its1))
          = (b', scratch', (seen @ map queue_view (item_events its1)) @ map queue_view (item_events its2)) \<and> ob_filter_count b' = 0"
        by (rule "1.IH" [rule_format, of its2 "pre @ items_bytes its1"]) (use ne c(1) "1.prems" in auto)
      then show ?thesis unfolding step using c(1) by simp
    qed
  qed
qed

section \<open>The bytes between the offsets\<close>

definition sq_stream :: "hpu_sink_queue \<Rightarrow> byte list" where
  "sq_stream q = map (\<lambda>i. sq_buf q ! (i mod sq_cap q)) [sq_head q..<sq_tail q]"

definition sq_wf :: "hpu_sink_queue \<Rightarrow> bool" where
  "sq_wf q \<longleftrightarrow> 0 < sq_cap q \<and> sq_cap q < 2 ^ 32 \<and> length (sq_buf q) = sq_cap q \<and> sq_head q \<le> sq_tail q
     \<and> sq_tail q - sq_head q \<le> sq_cap q \<and> length (wc_sweep (sq_ctx q)) = sq_cap q \<and> 0 < wc_batch_max (sq_ctx q)"

text \<open>A byte still pending is outside the free range that starts at the write offset.\<close>

lemma pending_outside:
  fixes i t cap n :: nat
  assumes "i < t" "t + n \<le> i + cap" "t mod cap + n \<le> cap"
  shows "\<not> (t mod cap \<le> i mod cap \<and> i mod cap < t mod cap + n)"
proof
  assume m: "t mod cap \<le> i mod cap \<and> i mod cap < t mod cap + n"
  have t: "t = cap * (t div cap) + t mod cap" and i: "i = cap * (i div cap) + i mod cap" by simp_all
  have "i div cap < t div cap"
  proof (rule ccontr)
    assume "\<not> i div cap < t div cap"
    then have "cap * (t div cap) \<le> cap * (i div cap)" by simp
    then show False using t i m assms(1) by linarith
  qed
  then have "cap * Suc (i div cap) \<le> cap * (t div cap)" by (intro mult_le_mono2) simp
  then have "cap * (i div cap) + cap \<le> cap * (t div cap)" by simp
  then show False using t i m assms(2,3) by linarith
qed

lemma nth_splice_outside:
  "off + length xs \<le> length buf \<Longrightarrow> j < length buf \<Longrightarrow> \<not> (off \<le> j \<and> j < off + length xs) \<Longrightarrow> splice_at off xs buf ! j = buf ! j"
  by (auto simp: splice_at_def nth_append)

lemma nth_splice_inside:
  "off + length xs \<le> length buf \<Longrightarrow> j < length xs \<Longrightarrow> splice_at off xs buf ! (off + j) = xs ! j"
  by (auto simp: splice_at_def nth_append)

lemma stream_write:
  assumes wf: "sq_wf q" and fit: "sq_tail q mod sq_cap q + length xs \<le> sq_cap q"
    and free: "sq_tail q - sq_head q + length xs \<le> sq_cap q"
  defines "q' \<equiv> q\<lparr>sq_buf := splice_at (sq_tail q mod sq_cap q) xs (sq_buf q), sq_tail := sq_tail q + length xs\<rparr>"
  shows "sq_stream q' = sq_stream q @ xs" "sq_wf q'"
proof -
  have old: "splice_at (sq_tail q mod sq_cap q) xs (sq_buf q) ! (i mod sq_cap q) = sq_buf q ! (i mod sq_cap q)"
    if "sq_head q \<le> i" "i < sq_tail q" for i
  proof (rule nth_splice_outside)
    have "sq_tail q + length xs \<le> i + sq_cap q" using that(1) free wf unfolding sq_wf_def by linarith
    then show "\<not> (sq_tail q mod sq_cap q \<le> i mod sq_cap q \<and> i mod sq_cap q < sq_tail q mod sq_cap q + length xs)"
      by (rule pending_outside [OF that(2) _ fit])
  qed (use wf fit in \<open>auto simp: sq_wf_def\<close>)
  have new: "splice_at (sq_tail q mod sq_cap q) xs (sq_buf q) ! ((sq_tail q + j) mod sq_cap q) = xs ! j" if "j < length xs" for j
  proof -
    have "sq_tail q mod sq_cap q + j < sq_cap q" using that fit by linarith
    then have "(sq_tail q + j) mod sq_cap q = sq_tail q mod sq_cap q + j"
      by (metis mod_add_left_eq mod_less)
    then show ?thesis using nth_splice_inside [OF _ that, of "sq_tail q mod sq_cap q" "sq_buf q"] fit wf by (simp add: sq_wf_def)
  qed
  have ht: "sq_head q \<le> sq_tail q" using wf by (simp add: sq_wf_def)
  have "sq_stream q' = map (\<lambda>i. splice_at (sq_tail q mod sq_cap q) xs (sq_buf q) ! (i mod sq_cap q)) [sq_head q..<sq_tail q]
      @ map (\<lambda>i. splice_at (sq_tail q mod sq_cap q) xs (sq_buf q) ! (i mod sq_cap q)) [sq_tail q..<sq_tail q + length xs]"
    using upt_add_eq_append [OF ht, of "length xs"] by (simp add: sq_stream_def q'_def)
  also have "map (\<lambda>i. splice_at (sq_tail q mod sq_cap q) xs (sq_buf q) ! (i mod sq_cap q)) [sq_head q..<sq_tail q] = sq_stream q"
    using old by (simp add: sq_stream_def)
  also have "map (\<lambda>i. splice_at (sq_tail q mod sq_cap q) xs (sq_buf q) ! (i mod sq_cap q)) [sq_tail q..<sq_tail q + length xs] = xs"
    by (rule nth_equalityI) (simp_all add: new)
  finally show "sq_stream q' = sq_stream q @ xs" .
  show "sq_wf q'"
    using wf fit free by (auto simp: sq_wf_def q'_def length_splice_at)
qed

lemma take_is_stream:
  assumes wf: "sq_wf q"
  defines "avail \<equiv> min (sq_tail q - sq_head q) (sq_cap q)"
  shows "(if sq_head q mod sq_cap q + avail > sq_cap q
          then bslice (sq_head q mod sq_cap q) (sq_cap q - sq_head q mod sq_cap q) (sq_buf q)
               @ bslice 0 (avail - (sq_cap q - sq_head q mod sq_cap q)) (sq_buf q)
          else bslice (sq_head q mod sq_cap q) avail (sq_buf q)) = sq_stream q" (is "?copied = _")
proof (rule nth_equalityI)
  have a: "avail = sq_tail q - sq_head q" using wf by (simp add: avail_def sq_wf_def)
  have lt: "sq_head q mod sq_cap q < sq_cap q" and len: "length (sq_buf q) = sq_cap q" and le: "avail \<le> sq_cap q"
    using wf a by (simp_all add: sq_wf_def)
  show "length ?copied = length (sq_stream q)" using lt len le a by (auto simp: sq_stream_def)
  fix i
  assume i: "i < length ?copied"
  then have ia: "i < avail" using lt len le by (auto split: if_splits)
  then have r: "sq_stream q ! i = sq_buf q ! ((sq_head q + i) mod sq_cap q)" using a by (simp add: sq_stream_def)
  let ?s = "sq_head q mod sq_cap q"
  have m: "(sq_head q + i) mod sq_cap q = (if ?s + i < sq_cap q then ?s + i else ?s + i - sq_cap q)"
  proof -
    have "(sq_head q + i) mod sq_cap q = (?s + i) mod sq_cap q" by (simp add: mod_add_left_eq)
    moreover have "(?s + i) mod sq_cap q = ?s + i - sq_cap q" if "\<not> ?s + i < sq_cap q"
    proof -
      have "?s + i - sq_cap q < sq_cap q" using that ia le lt by linarith
      then show ?thesis using that by (simp add: le_mod_geq)
    qed
    ultimately show ?thesis by simp
  qed
  show "?copied ! i = sq_stream q ! i"
    using ia lt len le unfolding r m by (auto simp: bslice_def nth_append add.commute)
qed

text \<open>The pending bytes are a sequence of records and bridge words.\<close>

definition sq_rep :: "hpu_sink_queue \<Rightarrow> hpulogc_event list \<Rightarrow> bool" where
  "sq_rep q evs \<longleftrightarrow> sq_wf q \<and> (\<exists>its. list_all item_ok its \<and> sq_stream q = items_bytes its \<and> item_events its = evs)"

lemma rep_append_pad:
  assumes "sq_rep q evs" "sq_tail q mod sq_cap q + 4 \<le> sq_cap q" "sq_tail q - sq_head q + 4 \<le> sq_cap q"
  shows "sq_rep (q\<lparr>sq_buf := splice_at (sq_tail q mod sq_cap q) (replicate 4 (CHR 0x00)) (sq_buf q), sq_tail := sq_tail q + 4\<rparr>) evs"
proof -
  obtain its where its: "list_all item_ok its" "sq_stream q = items_bytes its" "item_events its = evs" and wf: "sq_wf q"
    using assms(1) by (auto simp: sq_rep_def)
  have "items_bytes (its @ [SqPad]) = sq_stream q @ replicate 4 (CHR 0x00)" "item_events (its @ [SqPad]) = evs"
    using its by simp_all
  then show ?thesis
    using stream_write [OF wf, of "replicate 4 (CHR 0x00)"] assms(2,3) its(1)
    unfolding sq_rep_def by (intro conjI exI [of _ "its @ [SqPad]"]) simp_all
qed

lemma rep_append_record:
  assumes "sq_rep q evs" "event_fits ev" "sq_tail q mod sq_cap q + sq_packed_size ev \<le> sq_cap q"
    "sq_tail q - sq_head q + sq_packed_size ev \<le> sq_cap q"
  shows "sq_rep (q\<lparr>sq_buf := splice_at (sq_tail q mod sq_cap q) (sq_record ev) (sq_buf q),
                   sq_tail := sq_tail q + sq_packed_size ev\<rparr>) (evs @ [ev])"
proof -
  obtain its where its: "list_all item_ok its" "sq_stream q = items_bytes its" "item_events its = evs" and wf: "sq_wf q"
    using assms(1) by (auto simp: sq_rep_def)
  have "sq_packed_size ev < 2 ^ 32" using assms(4) wf unfolding sq_wf_def by linarith
  then have ok: "list_all item_ok (its @ [SqRec ev])" using its(1) assms(2) by simp
  have "items_bytes (its @ [SqRec ev]) = sq_stream q @ sq_record ev" "item_events (its @ [SqRec ev]) = evs @ [ev]"
    using its by simp_all
  then show ?thesis
    using stream_write [OF wf, of "sq_record ev"] assms(3,4) ok
    unfolding sq_rep_def by (intro conjI exI [of _ "its @ [SqRec ev]"]) (simp_all add: length_sq_record)
qed

lemma rep_push:
  assumes rep: "sq_rep q evs" and fits: "event_fits ev"
  obtains q' rc where "hpu_sink_queue_push q ev = (q', rc)" "sq_rep q' (evs @ (if rc = 0 then [ev] else []))"
    "sq_stop q' = sq_stop q"
proof (cases "sq_stop q")
  case True
  then show thesis using that [of q "-1"] rep by (simp add: hpu_sink_queue_push_def)
next
  case run: False
  let ?need = "sq_packed_size ev"
  have wf: "sq_wf q" using rep by (simp add: sq_rep_def)
  show thesis
  proof (cases "sq_bridge q ?need")
    case None
    then show thesis using that [of q 1] rep run by (simp add: hpu_sink_queue_push_def Let_def)
  next
    case (Some q1)
    have r1: "sq_rep q1 evs \<and> sq_stop q1 = sq_stop q"
    proof (cases "q1 = q")
      case True
      then show ?thesis using rep by simp
    next
      case False
      let ?pos = "sq_tail q mod sq_cap q"
      have "?pos < sq_cap q" using wf by (simp add: sq_wf_def)
      moreover have c: "sq_cap q - ?pos \<ge> 4" "sq_cap q - (sq_tail q - sq_head q) \<ge> sq_cap q - ?pos"
        "q1 = q\<lparr>sq_buf := splice_at ?pos (replicate 4 (CHR 0x00)) (sq_buf q), sq_tail := sq_tail q + 4\<rparr>"
        using Some False by (auto simp: sq_bridge_def Let_def split: if_splits)
      ultimately have "?pos + 4 \<le> sq_cap q" "sq_tail q - sq_head q + 4 \<le> sq_cap q" by linarith+
      from rep_append_pad [OF rep this] show ?thesis unfolding c(3) by simp
    qed
    show thesis
    proof (cases "sq_cap q1 - (sq_tail q1 - sq_head q1) < ?need \<or> sq_tail q1 mod sq_cap q1 + ?need > sq_cap q1")
      case True
      then show thesis using that [of q1 1] r1 run Some by (auto simp: hpu_sink_queue_push_def Let_def)
    next
      case False
      then have f: "sq_tail q1 mod sq_cap q1 + ?need \<le> sq_cap q1" "sq_tail q1 - sq_head q1 + ?need \<le> sq_cap q1"
        using record_ge_56 [of ev] by linarith+
      show thesis
      proof (rule that)
        show "hpu_sink_queue_push q ev = (q1\<lparr>sq_buf := splice_at (sq_tail q1 mod sq_cap q1) (sq_record ev) (sq_buf q1),
                   sq_tail := sq_tail q1 + ?need\<rparr>, 0)"
          using False run Some by (simp add: hpu_sink_queue_push_def Let_def)
        show "sq_rep (q1\<lparr>sq_buf := splice_at (sq_tail q1 mod sq_cap q1) (sq_record ev) (sq_buf q1),
                   sq_tail := sq_tail q1 + ?need\<rparr>) (evs @ (if (0::int) = 0 then [ev] else []))"
          using rep_append_record [OF conjunct1 [OF r1] fits f] by simp
      qed (use r1 in simp)
    qed
  qed
qed

section \<open>Rounds of the worker\<close>

lemma splice_front: "length xs \<le> length buf \<Longrightarrow> splice_at 0 xs buf = xs @ drop (length xs) buf"
  by (simp add: splice_at_def)

lemma take_rep:
  assumes rep: "sq_rep q evs" and run: "\<not> sq_stop q"
  obtains q' its where "sq_worker_take q = (q', sq_tail q - sq_head q, False)" "sq_rep q' []" "\<not> sq_stop q'"
    "list_all item_ok its" "item_events its = evs" "length (items_bytes its) = sq_tail q - sq_head q"
    "sq_tail q - sq_head q \<le> sq_cap q'" "0 < wc_batch_max (sq_ctx q')"
    "\<exists>post. wc_sweep (sq_ctx q') = items_bytes its @ post"
proof -
  obtain its where its: "list_all item_ok its" "sq_stream q = items_bytes its" "item_events its = evs" and wf: "sq_wf q"
    using rep by (auto simp: sq_rep_def)
  let ?n = "sq_tail q - sq_head q"
  have n: "min ?n (sq_cap q) = ?n" "sq_head q + ?n = sq_tail q" using wf by (auto simp: sq_wf_def)
  have ls: "length (sq_stream q) = ?n" by (simp add: sq_stream_def)
  have sw: "?n \<le> length (wc_sweep (sq_ctx q))" using wf by (simp add: sq_wf_def)
  let ?q = "q\<lparr>sq_head := sq_tail q, sq_ctx := (sq_ctx q)\<lparr>wc_sweep := splice_at 0 (sq_stream q) (wc_sweep (sq_ctx q))\<rparr>\<rparr>"
  have "sq_worker_take q = (?q, ?n, False)"
    using take_is_stream [OF wf] run unfolding sq_worker_take_def Let_def n by simp
  moreover have "sq_wf ?q" using wf ls sw by (auto simp: sq_wf_def length_splice_at)
  then have "sq_rep ?q []" unfolding sq_rep_def by (intro conjI exI [of _ "[]"]) (simp_all add: sq_stream_def)
  moreover have "\<exists>post. wc_sweep (sq_ctx ?q) = items_bytes its @ post"
    using splice_front [of "sq_stream q" "wc_sweep (sq_ctx q)"] sw ls its(2) by auto
  ultimately show thesis using that [of ?q its] its ls run wf by (simp add: sq_wf_def)
qed

lemma flush_filter [simp]: "ob_filter_count (snd (hpu_output_flush b)) = ob_filter_count b"
  by (simp add: hpu_output_flush_def hpu_sink_account_failed_def split: option.split prod.split)

lemma round_rep:
  assumes rep: "sq_rep q evs" and run: "\<not> sq_stop q" and plain: "ob_filter_count b = 0"
  obtains b' q' where "sq_worker_round grow now_ms (b, q) = (b', q', map queue_view evs, True)" "sq_rep q' []" "\<not> sq_stop q'"
    "ob_filter_count b' = 0"
proof -
  obtain q1 its post where t: "sq_worker_take q = (q1, sq_tail q - sq_head q, False)" "sq_rep q1 []" "\<not> sq_stop q1"
    "list_all item_ok its" "item_events its = evs" "length (items_bytes its) = sq_tail q - sq_head q"
    "sq_tail q - sq_head q \<le> sq_cap q1" "0 < wc_batch_max (sq_ctx q1)" "wc_sweep (sq_ctx q1) = items_bytes its @ post"
    using take_rep [OF rep run] by metis
  obtain b1 scratch1 where d: "sq_worker_drain grow (wc_sweep (sq_ctx q1)) (sq_cap q1) (sq_tail q - sq_head q)
      (wc_batch_max (sq_ctx q1)) 0 (b, wc_wire (sq_ctx q1), []) = (b1, scratch1, map queue_view evs)" "ob_filter_count b1 = 0"
    using drain_items [OF t(4), of "wc_sweep (sq_ctx q1)" "[]" post 0 "sq_tail q - sq_head q" "sq_cap q1" b
        "wc_batch_max (sq_ctx q1)" grow "wc_wire (sq_ctx q1)" "[]"] t plain by auto
  have keep: "sq_rep (q1\<lparr>sq_ctx := c\<rparr>) []" if "wc_sweep c = wc_sweep (sq_ctx q1)" "wc_batch_max c = wc_batch_max (sq_ctx q1)" for c
    using t(2) that by (auto simp: sq_rep_def sq_wf_def sq_stream_def)
  let ?c = "(sq_ctx q1)\<lparr>wc_wire := scratch1\<rparr>"
  show thesis
  proof (cases "now_ms - wc_last_flush_ms ?c \<ge> wc_flush_interval ?c")
    case True
    then have "sq_worker_round grow now_ms (b, q)
        = (snd (hpu_output_flush b1), q1\<lparr>sq_ctx := ?c\<lparr>wc_last_flush_ms := now_ms\<rparr>\<rparr>, map queue_view evs, True)"
      by (simp add: sq_worker_round_def Let_def t(1) d(1))
    then show thesis using that d(2) t(3) keep [of "?c\<lparr>wc_last_flush_ms := now_ms\<rparr>"] by simp
  next
    case False
    then have "sq_worker_round grow now_ms (b, q) = (b1, q1\<lparr>sq_ctx := ?c\<rparr>, map queue_view evs, True)"
      by (simp add: sq_worker_round_def Let_def t(1) d(1))
    then show thesis using that d(2) t(3) keep [of ?c] by simp
  qed
qed

section \<open>Runs\<close>

datatype sq_op = SqPush hpulogc_event | SqRound nat

text \<open>The instance and queue after a run, the events accepted and the events handed to the sink.\<close>

fun sq_run :: "(byte list \<Rightarrow> nat \<Rightarrow> byte list option) \<Rightarrow> sq_op list \<Rightarrow> 'p output_base \<times> hpu_sink_queue
    \<Rightarrow> ('p output_base \<times> hpu_sink_queue) \<times> hpulogc_event list \<times> hpulogc_event list" where
  "sq_run grow [] s = (s, [], [])"
| "sq_run grow (SqPush ev # ops) (b, q) =
     (case hpu_sink_queue_push q ev of (q1, rc) \<Rightarrow>
        case sq_run grow ops (b, q1) of (s, acc, got) \<Rightarrow> (s, (if rc = 0 then ev # acc else acc), got))"
| "sq_run grow (SqRound t # ops) (b, q) =
     (case sq_worker_round grow t (b, q) of (b1, q1, seen, _) \<Rightarrow>
        case sq_run grow ops (b1, q1) of (s, acc, got) \<Rightarrow> (s, acc, seen @ got))"

definition ops_fit :: "sq_op list \<Rightarrow> bool" where
  "ops_fit ops \<longleftrightarrow> list_all (\<lambda>op. case op of SqPush ev \<Rightarrow> event_fits ev | SqRound _ \<Rightarrow> True) ops"

lemma ops_fit_simps [simp]:
  "ops_fit []" "ops_fit (SqPush ev # ops) = (event_fits ev \<and> ops_fit ops)" "ops_fit (SqRound t # ops) = ops_fit ops"
  by (simp_all add: ops_fit_def)

lemma run_rep:
  "sq_rep q evs \<Longrightarrow> \<not> sq_stop q \<Longrightarrow> ob_filter_count b = 0 \<Longrightarrow> ops_fit ops \<Longrightarrow>
   \<exists>b' q' acc got pend. sq_run grow ops (b, q) = ((b', q'), acc, got) \<and> sq_rep q' pend \<and> \<not> sq_stop q' \<and> ob_filter_count b' = 0
     \<and> got @ map queue_view pend = map queue_view (evs @ acc)"
proof (induction ops arbitrary: q evs b)
  case Nil
  then show ?case by auto
next
  case (Cons op ops)
  show ?case
  proof (cases op)
    case (SqPush ev)
    then obtain q1 rc where p: "hpu_sink_queue_push q ev = (q1, rc)" "sq_rep q1 (evs @ (if rc = 0 then [ev] else []))"
      "sq_stop q1 = sq_stop q"
      using rep_push [OF Cons.prems(1), of ev] Cons.prems(4) by auto
    then obtain b' q' acc got pend where r: "sq_run grow ops (b, q1) = ((b', q'), acc, got)" "sq_rep q' pend" "\<not> sq_stop q'"
      "ob_filter_count b' = 0" "got @ map queue_view pend = map queue_view ((evs @ (if rc = 0 then [ev] else [])) @ acc)"
      using Cons.IH [of q1 "evs @ (if rc = 0 then [ev] else [])" b] Cons.prems SqPush by auto
    have "sq_run grow (op # ops) (b, q) = ((b', q'), (if rc = 0 then ev # acc else acc), got)"
      using p r by (simp add: SqPush)
    moreover have "got @ map queue_view pend = map queue_view (evs @ (if rc = 0 then ev # acc else acc))"
      using r(5) by simp
    ultimately show ?thesis using r(2-4) by blast
  next
    case (SqRound t)
    obtain b1 q1 where p: "sq_worker_round grow t (b, q) = (b1, q1, map queue_view evs, True)" "sq_rep q1 []" "\<not> sq_stop q1"
      "ob_filter_count b1 = 0"
      using round_rep [OF Cons.prems(1,2,3)] by metis
    then obtain b' q' acc got pend where r: "sq_run grow ops (b1, q1) = ((b', q'), acc, got)" "sq_rep q' pend" "\<not> sq_stop q'"
      "ob_filter_count b' = 0" "got @ map queue_view pend = map queue_view ([] @ acc)"
      using Cons.IH [of q1 "[]" b1] Cons.prems SqRound by auto
    then have "sq_run grow (op # ops) (b, q) = ((b', q'), acc, map queue_view evs @ got)" using p by (simp add: SqRound)
    moreover have "(map queue_view evs @ got) @ map queue_view pend = map queue_view (evs @ acc)" using r(5) by simp
    ultimately show ?thesis using r(2-4) by blast
  qed
qed

lemma create_rep:
  assumes "hpu_sink_queue_create mem ok now_ms cap ivl batch = Some q" "0 < cap" "cap < 2 ^ 32"
  shows "sq_rep q []" "\<not> sq_stop q"
proof -
  have "sq_wf q \<and> sq_stream q = [] \<and> \<not> sq_stop q"
    using assms by (auto simp: hpu_sink_queue_create_def sq_wf_def sq_stream_def split: if_splits)
  then show "sq_rep q []" "\<not> sq_stop q" unfolding sq_rep_def by (auto intro!: exI [of _ "[]"])
qed

section \<open>Properties\<close>

text \<open>
  C4. The second-level queue delivers what it accepts. For a sink without a field filter, after any
  interleaving of pushes and worker rounds on a new queue, one more round completes the delivery: the
  sink has then been handed exactly the accepted events, each as it was packed, in the order of their
  acceptance.
\<close>

theorem sink_queue_fifo:
  assumes "hpu_sink_queue_create mem ok t0 cap ivl batch = Some q" "0 < cap" "cap < 2 ^ 32"
    and "ob_filter_count b = 0" "ops_fit ops"
  shows "case sq_run grow ops (b, q) of (s, acc, got) \<Rightarrow>
           case sq_worker_round grow t s of (_, _, last_seen, _) \<Rightarrow> got @ last_seen = map queue_view acc"
proof -
  note c = create_rep [OF assms(1-3)]
  obtain b' q' acc got pend where r: "sq_run grow ops (b, q) = ((b', q'), acc, got)" "sq_rep q' pend" "\<not> sq_stop q'"
    "ob_filter_count b' = 0" "got @ map queue_view pend = map queue_view acc"
    using run_rep [OF c assms(4,5), of grow] by auto
  obtain b2 q2 where "sq_worker_round grow t (b', q') = (b2, q2, map queue_view pend, True)"
    using round_rep [OF r(2,3,4)] by metis
  then show ?thesis using r by simp
qed

text \<open>An event for the examples.\<close>

definition demo_event :: hpulogc_event where
  "demo_event = \<lparr>ev_level = 2, ev_category = Some ''net'', ev_file = None, ev_func = None, ev_src_line = 7, ev_msg = ''hi'',
     ev_tid = 1, ev_realtime_ns = 5, ev_mono_us = 0, ev_line = ''hi'' @ [CHR 0x0A], ev_fields = [], ev_field_count = 0,
     ev_wire = None\<rparr>"

lemma demo_event_fits: "event_fits demo_event" "sq_packed_size demo_event = 64"
  by (simp_all add: demo_event_def event_fits_def sq_packed_size_def ev_payload_def SQ_HDR_def)

theorem sink_queue_fifo_witness:
  "\<forall>b0 :: nat output_base. case sq_run (\<lambda>s n. None) [SqPush demo_event]
      (b0\<lparr>ob_filter_count := 0\<rparr>, the (hpu_sink_queue_create (\<lambda>_. CHR 0x00) True 0 256 100 8)) of (s, acc, got) \<Rightarrow>
     acc = [demo_event] \<and>
     (case sq_worker_round (\<lambda>s n. None) 9 s of (_, _, last_seen, _) \<Rightarrow> got @ last_seen = map queue_view acc)"
proof
  fix b0 :: "nat output_base"
  let ?q = "the (hpu_sink_queue_create (\<lambda>_. CHR 0x00) True 0 256 100 8)"
  have q: "hpu_sink_queue_create (\<lambda>_. CHR 0x00) True 0 256 100 8 = Some ?q"
    by (simp add: hpu_sink_queue_create_def)
  have f: "sq_head ?q = 0" "sq_tail ?q = 0" "sq_cap ?q = 256" "\<not> sq_stop ?q"
    by (simp_all add: hpu_sink_queue_create_def)
  have "sq_bridge ?q 64 = Some ?q" using f by (simp add: sq_bridge_def Let_def)
  then have "snd (hpu_sink_queue_push ?q demo_event) = 0"
    using f demo_event_fits(2) by (simp add: hpu_sink_queue_push_def Let_def)
  moreover have "case sq_run (\<lambda>s n. None) [SqPush demo_event] (b0\<lparr>ob_filter_count := 0\<rparr>, ?q) of (s, acc, got) \<Rightarrow>
     (case sq_worker_round (\<lambda>s n. None) 9 s of (_, _, last_seen, _) \<Rightarrow> got @ last_seen = map queue_view acc)"
    by (rule sink_queue_fifo [OF q]) (simp_all add: demo_event_fits)
  ultimately show "case sq_run (\<lambda>s n. None) [SqPush demo_event] (b0\<lparr>ob_filter_count := 0\<rparr>, ?q) of (s, acc, got) \<Rightarrow>
     acc = [demo_event] \<and>
     (case sq_worker_round (\<lambda>s n. None) 9 s of (_, _, last_seen, _) \<Rightarrow> got @ last_seen = map queue_view acc)"
    by (auto split: prod.splits)
qed

text \<open>The write offset is close to the end of the buffer, at a distance the four bytes of a bridge never use up.\<close>

definition sq_stuck :: "hpu_sink_queue \<Rightarrow> bool" where
  "sq_stuck q \<longleftrightarrow> (let c = sq_cap q - sq_tail q mod sq_cap q in c < 60 \<and> c mod 4 \<noteq> 0) \<and> 0 < sq_cap q"

lemma stuck_push:
  assumes "sq_stuck q"
  shows "snd (hpu_sink_queue_push q ev) \<noteq> 0 \<and> sq_stuck (fst (hpu_sink_queue_push q ev))"
proof -
  let ?pos = "sq_tail q mod sq_cap q"
  let ?c = "sq_cap q - ?pos"
  have pos: "?pos < sq_cap q" and c: "?c < 60" "?c mod 4 \<noteq> 0" using assms by (auto simp: sq_stuck_def Let_def)
  have need: "56 \<le> sq_packed_size ev" by (rule record_ge_56)
  have c4: "?c \<noteq> 4" using c(2) by auto
  have trig: "?c < sq_packed_size ev + 4" using c need by linarith
  have past: "sq_tail q' mod sq_cap q' + sq_packed_size ev > sq_cap q' \<and> sq_stuck q'"
    if q': "sq_bridge q (sq_packed_size ev) = Some q'" for q'
  proof (cases "?c \<ge> 4")
    case True
    then have e: "q' = q\<lparr>sq_buf := splice_at ?pos (replicate 4 (CHR 0x00)) (sq_buf q), sq_tail := sq_tail q + 4\<rparr>"
      using q' trig by (auto simp: sq_bridge_def Let_def split: if_splits)
    have "?pos + 4 < sq_cap q" using True c4 by linarith
    then have m: "(sq_tail q + 4) mod sq_cap q = ?pos + 4" by (metis mod_add_left_eq mod_less)
    have d: "sq_cap q - (?pos + 4) = ?c - 4" by simp
    have "?c mod 4 = (?c - 4) mod 4" using True by (rule le_mod_geq)
    then have "(?c - 4) mod 4 \<noteq> 0" using c(2) by (simp only: not_False_eq_True)
    moreover have "?c - 4 < 60" "sq_cap q < ?pos + 4 + sq_packed_size ev" "0 < sq_cap q" using c(1) need pos by linarith+
    moreover have "sq_tail q' mod sq_cap q' = ?pos + 4" "sq_cap q' = sq_cap q" using m unfolding e by simp_all
    ultimately show ?thesis unfolding sq_stuck_def Let_def by (simp only: d simp_thms)
  next
    case False
    then have "q' = q" using q' trig by (auto simp: sq_bridge_def Let_def split: if_splits)
    then show ?thesis using assms need False by auto
  qed
  show ?thesis
    using past assms by (auto simp: hpu_sink_queue_push_def Let_def split: option.split)
qed

lemma take_offsets: "sq_worker_take q = (q', n, fin) \<Longrightarrow> sq_tail q' = sq_tail q \<and> sq_cap q' = sq_cap q"
  by (auto simp: sq_worker_take_def Let_def split: if_splits)

lemma round_keeps_stuck:
  assumes "sq_worker_round grow t (b, q) = (b', q', seen, go)"
  shows "sq_stuck q' = sq_stuck q"
proof -
  obtain q1 n fin where t: "sq_worker_take q = (q1, n, fin)" by (metis prod_cases3)
  obtain b1 w1 seen1 where d: "sq_worker_drain grow (wc_sweep (sq_ctx q1)) (sq_cap q1) n (wc_batch_max (sq_ctx q1)) 0
      (b, wc_wire (sq_ctx q1), []) = (b1, w1, seen1)" by (metis prod_cases3)
  have "sq_tail q' = sq_tail q1 \<and> sq_cap q' = sq_cap q1"
    using assms unfolding sq_worker_round_def by (simp add: t d Let_def split: if_splits) auto
  then show ?thesis using take_offsets [OF t] by (simp add: sq_stuck_def)
qed

text \<open>
  C31. The queue gets stuck. Once the write offset is fewer than 60 bytes before the end of the buffer, at
  a distance that is not a multiple of four, no event is ever accepted again, however often the worker
  drains the queue: each push moves the offset by at most the four bytes of a bridge word, never past the end.
\<close>

theorem sink_queue_stuck:
  assumes "sq_stuck q"
  shows "case sq_run grow ops (b, q) of (s, acc, got) \<Rightarrow> acc = [] \<and> sq_stuck (snd s)"
  using assms
proof (induction ops arbitrary: b q)
  case Nil
  then show ?case by simp
next
  case (Cons op ops)
  show ?case
  proof (cases op)
    case (SqPush ev)
    obtain q1 rc where p: "hpu_sink_queue_push q ev = (q1, rc)" by (cases "hpu_sink_queue_push q ev")
    with stuck_push [OF Cons.prems, of ev] have "rc \<noteq> 0" "sq_stuck q1" by auto
    with Cons.IH [of q1 b] p SqPush show ?thesis by (auto split: prod.splits)
  next
    case (SqRound t)
    obtain b1 q1 seen go where p: "sq_worker_round grow t (b, q) = (b1, q1, seen, go)"
      by (metis prod_cases4)
    with Cons.prems round_keeps_stuck [OF p] have "sq_stuck q1" by simp
    with Cons.IH [of q1 b1] p SqRound show ?thesis by (auto split: prod.splits)
  qed
qed

text \<open>The stuck state is reached from a new queue by one accepted event and one refused one.\<close>

theorem sink_queue_stuck_witness:
  "\<forall>b0 :: nat output_base. \<exists>q. fst (hpu_sink_queue_push (fst (hpu_sink_queue_push
       (the (hpu_sink_queue_create (\<lambda>_. CHR 0x00) True 0 71 100 8)) demo_event)) demo_event) = q
     \<and> snd (hpu_sink_queue_push (the (hpu_sink_queue_create (\<lambda>_. CHR 0x00) True 0 71 100 8)) demo_event) = 0
     \<and> (case sq_run (\<lambda>s n. None) [SqRound 1, SqPush demo_event, SqRound 2, SqPush demo_event] (b0, q) of (s, acc, got) \<Rightarrow>
          acc = [] \<and> sq_stuck (snd s))"
proof
  fix b0 :: "nat output_base"
  let ?q = "the (hpu_sink_queue_create (\<lambda>_. CHR 0x00) True 0 71 100 8)"
  let ?q1 = "fst (hpu_sink_queue_push ?q demo_event)"
  have f: "sq_head ?q = 0" "sq_tail ?q = 0" "sq_cap ?q = 71" "\<not> sq_stop ?q"
    by (simp_all add: hpu_sink_queue_create_def)
  have "sq_bridge ?q 64 = Some ?q" using f by (simp add: sq_bridge_def Let_def)
  then have p: "hpu_sink_queue_push ?q demo_event
      = (?q\<lparr>sq_buf := splice_at 0 (sq_record demo_event) (sq_buf ?q), sq_tail := 64\<rparr>, 0)"
    using f demo_event_fits(2) by (simp add: hpu_sink_queue_push_def Let_def)
  then have "sq_stuck ?q1" using f by (simp add: sq_stuck_def)
  from stuck_push [OF this] have "sq_stuck (fst (hpu_sink_queue_push ?q1 demo_event))" by simp
  from sink_queue_stuck [OF this, of "\<lambda>s n. None" "[SqRound 1, SqPush demo_event, SqRound 2, SqPush demo_event]" b0] p
  show "\<exists>q. fst (hpu_sink_queue_push ?q1 demo_event) = q \<and> snd (hpu_sink_queue_push ?q demo_event) = 0
     \<and> (case sq_run (\<lambda>s n. None) [SqRound 1, SqPush demo_event, SqRound 2, SqPush demo_event] (b0, q) of (s, acc, got) \<Rightarrow>
          acc = [] \<and> sq_stuck (snd s))"
    by auto
qed

text \<open>A stopped worker ends before it decodes what it has just swept: those events are lost.\<close>

lemma stopped_round_drops:
  assumes "sq_wf q" "sq_stop q"
  shows "\<exists>q'. sq_worker_round grow t (b, q) = (b, q', [], False) \<and> sq_exited q' \<and> sq_stream q' = []"
proof -
  have "min (sq_tail q - sq_head q) (sq_cap q) = sq_tail q - sq_head q" "sq_head q + (sq_tail q - sq_head q) = sq_tail q"
    using assms(1) by (auto simp: sq_wf_def)
  then show ?thesis using assms(2) by (simp add: sq_worker_round_def sq_worker_take_def Let_def sq_stream_def)
qed

text \<open>The filtered events of one batch all point into the one scratch buffer of the worker.\<close>

lemma batch_shares_scratch:
  assumes "i < length batch" "j < length batch" "batch ! i = (e1, True)" "batch ! j = (e2, True)"
    "ev_wire e1 = Some w1" "ev_wire e2 = Some w2" "length w1 = length w2"
  shows "ev_wire (sq_batch_views scratch batch ! i) = ev_wire (sq_batch_views scratch batch ! j)"
  using assms by (simp add: sq_batch_views_def)

end
