(* ===== verification/Lifecycle.thy ===== *)
theory Lifecycle
  imports Runtime ConfFile
begin

text \<open>
  The life cycle of the library (\<^verbatim>\<open>src/core/core.c\<close>, \<^verbatim>\<open>src/core/hotreload.c\<close>):
  initialisation from code, from a file and with the defaults, start and stop of the pipeline, shutdown,
  flush and sync, the reload of a configuration file and the handling of a fork. Composed from the
  configuration model, the output layer and the ring.
\<close>

section \<open>The outside\<close>

text \<open>
  What the platform, the files and the other threads contribute to one call: the built-in sink types, the
  file system, the starting environment of a snapshot, the clock and the process, which of the
  primitives can be set up, a number no handle in use has reached, and for the outputs that are closed
  the rounds of their workers. \<open>le_flush\<close> is the answer of the consumers' flush handshake.
\<close>

record 'p life_env =
  le_builtins :: "'p sink_ops list"
  le_platform :: platform_init
  le_is_regular :: "string \<Rightarrow> bool"
  le_open_file :: "string \<Rightarrow> string option"
  le_env0 :: hpu_fmt_env
  le_now_us :: int
  le_pid :: int
  le_conf_ok :: bool
  le_alloc :: "nat \<Rightarrow> bool"
  le_registry_ok :: bool
  le_lock_ok :: bool
  le_tls_ok :: bool
  le_ring_mem :: "nat \<Rightarrow> byte"
  le_ring_ok :: bool
  le_consumer_ok :: bool
  le_watch_ok :: bool
  le_hup_ok :: bool
  le_base :: nat
  le_grow :: "byte list \<Rightarrow> nat \<Rightarrow> byte list option"
  le_rounds :: "nat \<Rightarrow> nat list"
  le_t_end :: nat
  le_flush :: int

section \<open>Handles\<close>

text \<open>
  Opening the output \<open>i\<close> of a snapshot: the instance, and its handle. The instance does not depend on the
  handles of the other outputs.
\<close>

definition open_instance :: "'p life_env \<Rightarrow> 'p sink_registry \<Rightarrow> hpu_conf \<Rightarrow> nat \<Rightarrow> int \<Rightarrow> (int \<times> 'p option) + 'p output_base" where
  "open_instance E sinks c i sev =
     hpu_output_open_from_conf (le_platform E) (\<lambda>t. fst (hpu_sink_registry_find (le_builtins E) sinks (Some t)))
       (Some (c_outputs c ! i)) sev (c_use_utc c) (nat (c_flush_interval_ms c)) (nat (c_batch_size c))"

definition conf_opener :: "'p life_env \<Rightarrow> 'p sink_registry \<Rightarrow> opener" where
  "conf_opener E sinks c i sev = (case open_instance E sinks c i sev of Inl (e, _) \<Rightarrow> Inl e | Inr _ \<Rightarrow> Inr (le_base E + i))"

text \<open>The store after the outputs of a snapshot were opened.\<close>

definition opened_store :: "'p life_env \<Rightarrow> 'p sink_registry \<Rightarrow> hpu_conf \<Rightarrow> (nat \<rightharpoonup> 'p output_base) \<Rightarrow> nat \<rightharpoonup> 'p output_base" where
  "opened_store E sinks c store h =
     (let i = h - le_base E
      in if le_base E \<le> h \<and> i < length (c_outputs c) \<and> o_handle (c_outputs c ! i) = Some h
         then (case open_instance E sinks c i (output_severity c (c_outputs c ! i)) of Inl _ \<Rightarrow> None | Inr b \<Rightarrow> Some b)
         else store h)"

text \<open>Closing handles: the instances leave the store; their private states are the result.\<close>

fun close_handles :: "'p life_env \<Rightarrow> nat list \<Rightarrow> 'p hpu_runtime \<Rightarrow> 'p hpu_runtime \<times> 'p list" where
  "close_handles E [] rt = (rt, [])"
| "close_handles E (h # hs) rt =
     (case close_handles E hs (rt\<lparr>rt_outs := (rt_outs rt)(h := None)\<rparr>) of
        (rt1, ps) \<Rightarrow> (rt1, case rt_outs rt h of None \<Rightarrow> ps
                           | Some b \<Rightarrow> hpu_output_close (le_grow E) (le_rounds E h) (le_t_end E) b # ps))"

text \<open>Freeing a snapshot closes its outputs.\<close>

definition free_conf :: "'p life_env \<Rightarrow> hpu_conf \<Rightarrow> 'p hpu_runtime \<Rightarrow> 'p hpu_runtime \<times> 'p list" where
  "free_conf E c rt = close_handles E (snd (hpu_conf_free c)) rt"

section \<open>Start and stop\<close>

definition ring_policy_of :: "int \<Rightarrow> overflow_policy" where
  "ring_policy_of p = (if p = HPULOGC_OVERFLOW_OVERWRITE then RB_POL_OVERWRITE
     else if p = HPULOGC_OVERFLOW_WAIT then RB_POL_WAIT else RB_POL_DISCARD)"

definition reload_sync_fast_path :: "hpu_conf \<Rightarrow> 'p hpu_runtime \<Rightarrow> 'p hpu_runtime" where
  "reload_sync_fast_path c rt = rt\<lparr>rt_level := c_level c, rt_ts_source := c_timestamp_source c,
     rt_escape_injection := c_escape_injection c, rt_max_log_len := c_max_log_length c\<rparr>"

definition start_failed :: "'p life_env \<Rightarrow> hpu_conf \<Rightarrow> 'p hpu_runtime \<Rightarrow> 'p hpu_runtime" where
  "start_failed E c rt =
     (fst (free_conf E c (hpu_core_retire_output_lost rt)))\<lparr>rt_conf := None, rt_state := HPU_RT_UNINITIALIZED\<rparr>"

definition hpu_hotreload_start :: "'p life_env \<Rightarrow> 'p hpu_runtime \<Rightarrow> 'p hpu_runtime" where
  "hpu_hotreload_start E rt = (if rt_watching rt then rt else if le_watch_ok E then rt\<lparr>rt_watching := True\<rparr> else rt)"

definition start_services :: "build_flags \<Rightarrow> 'p life_env \<Rightarrow> hpu_conf \<Rightarrow> 'p hpu_runtime \<Rightarrow> 'p hpu_runtime" where
  "start_services B E c rt =
     (let rt1 = (if b_hot_reload B \<and> c_source_path c \<noteq> [] then hpu_hotreload_start E rt else rt);
          rt2 = (if c_signal_reload c \<and> le_hup_ok E then rt1\<lparr>rt_signal_installed := True\<rparr> else rt1);
          rt3 = (if c_signal_safe c then rt2\<lparr>rt_signal_safe := True\<rparr> else rt2)
      in rt3\<lparr>rt_sinks := hpu_sink_registry_freeze (rt_sinks rt3), rt_state := HPU_RT_RUNNING\<rparr>)"

text \<open>Builds whose ring is the locked one; the lock-free rings are not modelled.\<close>

definition hpu_core_start :: "build_flags \<Rightarrow> 'p life_env \<Rightarrow> hpu_conf \<Rightarrow> 'p hpu_runtime \<Rightarrow> int \<times> 'p hpu_runtime" where
  "hpu_core_start B E c rt0 =
     (let pol = hpu_core_ring_policy B rt0;
          rt = reload_sync_fast_path c (rt0\<lparr>rt_conf := Some c, rt_conf_gen := 1\<rparr>)
      in if \<not> le_tls_ok E then (-1, start_failed E c rt)
         else if b_async B then
           (case hpu_ring_create (le_ring_mem E) (le_ring_ok E) (c_buffer_size c) (ring_policy_of pol) of
              None \<Rightarrow> (-1, start_failed E c rt)
            | Some ring \<Rightarrow>
                if \<not> le_consumer_ok E then (-1, start_failed E c rt)
                else (0, start_services B E c (rt\<lparr>rt_ring := Some ring,
                        rt_consumers := (if c_consumer_threads c > 0 then nat (c_consumer_threads c) else 1)\<rparr>)))
         else (0, start_services B E c rt))"

text \<open>
  The consumers have drained the ring when they are stopped (their turns are separate steps); the
  private states of the outputs closed are the second result.
\<close>

definition hpu_core_stop :: "build_flags \<Rightarrow> 'p life_env \<Rightarrow> 'p hpu_runtime \<Rightarrow> 'p hpu_runtime \<times> 'p list" where
  "hpu_core_stop B E rt0 =
     (let rt1 = rt0\<lparr>rt_sinks := hpu_sink_registry_unfreeze (rt_sinks rt0), rt_signal_safe := False\<rparr>;
          rt2 = (if b_hot_reload B then rt1\<lparr>rt_watching := False\<rparr> else rt1);
          rt3 = (if b_async B then rt2\<lparr>rt_consumers := 0, rt_ring := None\<rparr> else rt2);
          rt4 = hpu_core_retire_output_lost rt3;
          (rt5, ps) = (case rt_conf rt4 of None \<Rightarrow> (rt4, [])
                       | Some c \<Rightarrow> (case free_conf E c rt4 of (rt, ps) \<Rightarrow> (rt\<lparr>rt_conf := None\<rparr>, ps)))
      in (rt5\<lparr>rt_signal_installed := False, rt_reg := hpu_registry_reset (rt_reg rt5)\<rparr>, ps))"

section \<open>Initialisation\<close>

text \<open>The tail of every entry. The registry of sink types is set up by its first use.\<close>

definition init_common ::
  "build_flags \<Rightarrow> 'p life_env \<Rightarrow> hpu_conf \<Rightarrow> string option \<Rightarrow> 'p hpu_runtime \<Rightarrow> int \<times> 'p hpu_runtime" where
  "init_common B E c source_path rt0 =
     (let sinks = hpu_sink_registry_init (le_builtins E) (rt_sinks rt0); rt = rt0\<lparr>rt_sinks := sinks\<rparr>
      in case hpu_conf_finalize_impl B (conf_opener E sinks) (le_now_us E) (le_pid E) c False of (rc, c1, _) \<Rightarrow>
         if rc \<noteq> 0 then (rc, rt)
         else
           let rt1 = rt\<lparr>rt_outs := opened_store E sinks c1 (rt_outs rt),
                       rt_source_path := (case source_path of None \<Rightarrow> [] | Some p \<Rightarrow> take (HPULOGC_MAX_PATH_LEN - 1) p)\<rparr>
           in if \<not> le_registry_ok E then (HPULOGC_ERR_NO_MEM, fst (free_conf E c1 (rt1\<lparr>rt_reg := hpu_registry_init\<rparr>)))
              else let rt2 = rt1\<lparr>rt_reg := hpu_registry_init\<rparr>
              in if \<not> le_lock_ok E then (HPULOGC_ERR_NO_MEM, fst (free_conf E c1 rt2))
                 else case hpu_core_start B E c1 (rt2\<lparr>rt_fork_behavior := c_fork_behavior c1\<rparr>) of (rc1, rt3) \<Rightarrow>
                   if rc1 \<noteq> 0 then (HPULOGC_ERR_STATE, rt3) else (0, rt3))"

text \<open>A snapshot with its defaults, or the error of the allocation or of the built-in formats.\<close>

definition new_conf :: "'p life_env \<Rightarrow> int + hpu_conf" where
  "new_conf E = (if le_conf_ok E then hpu_conf_defaults (le_env0 E) else Inl HPULOGC_ERR_NO_MEM)"

definition init_from_code :: "build_flags \<Rightarrow> 'p life_env \<Rightarrow> hpulogc_config \<Rightarrow> 'p hpu_runtime \<Rightarrow> int \<times> 'p hpu_runtime" where
  "init_from_code B E cfg rt =
     (case new_conf E of Inl e \<Rightarrow> (e, rt)
      | Inr c \<Rightarrow> (case hpu_conf_from_code c (Some cfg) of Inl e \<Rightarrow> (e, rt) | Inr c1 \<Rightarrow> init_common B E c1 None rt))"

definition conf_add_default_console :: "hpu_conf \<Rightarrow> hpu_conf" where
  "conf_add_default_console c = c\<lparr>
     c_outputs := [code_output_zero\<lparr>o_name := ''stderr'',
       o_pub := (o_pub code_output_zero)\<lparr>out_type := HPULOGC_OUT_CONSOLE, out_stream := 1, out_color := True\<rparr>\<rparr>],
     c_default_names := [''stderr'']\<rparr>"

definition init_busy :: "'p hpu_runtime \<Rightarrow> bool" where
  "init_busy rt \<longleftrightarrow> rt_state rt = HPU_RT_RUNNING \<or> rt_state rt = HPU_RT_INITIALIZING"

text \<open>An entry that failed leaves the runtime uninitialized.\<close>

definition init_end :: "int \<times> 'p hpu_runtime \<Rightarrow> int \<times> 'p hpu_runtime" where
  "init_end r = (case r of (rc, rt) \<Rightarrow> (rc, if rc \<noteq> 0 then rt\<lparr>rt_state := HPU_RT_UNINITIALIZED\<rparr> else rt))"

definition hpulogc_init_default :: "build_flags \<Rightarrow> 'p life_env \<Rightarrow> 'p hpu_runtime \<Rightarrow> int \<times> 'p hpu_runtime" where
  "hpulogc_init_default B E rt0 =
     (if init_busy rt0 then (HPULOGC_ERR_STATE, rt0)
      else let rt = (rt_zero rt0)\<lparr>rt_state := HPU_RT_INITIALIZING\<rparr>
      in init_end (case new_conf E of Inl e \<Rightarrow> (e, rt) | Inr c \<Rightarrow> init_common B E (conf_add_default_console c) None rt))"

definition hpulogc_init :: "build_flags \<Rightarrow> 'p life_env \<Rightarrow> hpulogc_config option \<Rightarrow> 'p hpu_runtime \<Rightarrow> int \<times> 'p hpu_runtime" where
  "hpulogc_init B E cfg0 rt0 =
     (if init_busy rt0 then (HPULOGC_ERR_STATE, rt0)
      else case cfg0 of None \<Rightarrow> hpulogc_init_default B E rt0
      | Some cfg \<Rightarrow>
          let rt = (rt_zero rt0)\<lparr>rt_state := HPU_RT_INITIALIZING\<rparr>
          in case saved_cfg_copy (le_alloc E) cfg of
               Inl e \<Rightarrow> (e, rt\<lparr>rt_saved := None, rt_state := HPU_RT_UNINITIALIZED\<rparr>)
             | Inr s \<Rightarrow>
                 (case init_from_code B E cfg (rt\<lparr>rt_saved := Some s\<rparr>) of (rc, rt1) \<Rightarrow>
                    if rc \<noteq> 0 then (rc, rt1\<lparr>rt_saved := None, rt_state := HPU_RT_UNINITIALIZED\<rparr>) else (0, rt1)))"

definition hpulogc_init_from_file ::
  "build_flags \<Rightarrow> 'p life_env \<Rightarrow> string option \<Rightarrow> 'p hpu_runtime \<Rightarrow> int \<times> 'p hpu_runtime" where
  "hpulogc_init_from_file B E config_path rt0 =
     (case config_path of None \<Rightarrow> (HPULOGC_ERR_INVALID_ARG, rt0)
      | Some path \<Rightarrow>
          if init_busy rt0 then (HPULOGC_ERR_STATE, rt0)
          else let rt = (rt_zero rt0)\<lparr>rt_state := HPU_RT_INITIALIZING\<rparr>
          in if \<not> b_ini B then (HPULOGC_ERR_CONFIG, rt\<lparr>rt_state := HPU_RT_UNINITIALIZED\<rparr>)
             else init_end (case new_conf E of Inl e \<Rightarrow> (e, rt)
               | Inr c \<Rightarrow> (case hpu_conf_load_file B (le_is_regular E) (le_open_file E) c path (- 1) of (rc, c1, _) \<Rightarrow>
                             if rc \<noteq> 0 then (rc, rt) else init_common B E c1 (Some path) rt)))"

text \<open>The code of a validation; its messages are those of the parser and the finalization.\<close>

definition hpulogc_conf_validate :: "build_flags \<Rightarrow> 'p life_env \<Rightarrow> string option \<Rightarrow> int \<Rightarrow> 'p hpu_runtime \<Rightarrow> int" where
  "hpulogc_conf_validate B E config_path strict rt =
     (if \<not> b_ini B then HPULOGC_ERR_CONFIG
      else case config_path of None \<Rightarrow> HPULOGC_ERR_INVALID_ARG
      | Some path \<Rightarrow>
          if le_open_file E path = None then HPULOGC_ERR_IO
          else case new_conf E of Inl e \<Rightarrow> e
          | Inr c \<Rightarrow>
              (case hpu_conf_load_file B (le_is_regular E) (le_open_file E) c path strict of (rc, c1, _) \<Rightarrow>
                 if rc \<noteq> 0 then rc
                 else fst (hpu_conf_finalize_impl B (conf_opener E (rt_sinks rt)) (le_now_us E) (le_pid E) c1 True)))"

definition hpulogc_shutdown :: "build_flags \<Rightarrow> 'p life_env \<Rightarrow> 'p hpu_runtime \<Rightarrow> 'p hpu_runtime \<times> 'p list" where
  "hpulogc_shutdown B E rt =
     (if rt_state rt \<noteq> HPU_RT_RUNNING then (rt\<lparr>rt_state := HPU_RT_UNINITIALIZED\<rparr>, [])
      else case hpu_core_stop B E (rt\<lparr>rt_state := HPU_RT_SHUTDOWN\<rparr>) of (rt1, ps) \<Rightarrow>
        (rt_zero (rt1\<lparr>rt_saved := None, rt_state := HPU_RT_UNINITIALIZED\<rparr>), ps))"

end
