(* ===== verification/CoreControl.thy ===== *)
theory CoreControl
  imports Lifecycle
begin

text \<open>
  Operations on a running library: flush and sync (\<^verbatim>\<open>src/core/core.c\<close>), the reload of the
  configuration file (\<^verbatim>\<open>src/core/hotreload.c\<close>) and what happens in the child of a fork.
\<close>

section \<open>Flush and sync\<close>

text \<open>An operation on every open output of a snapshot, in order.\<close>

fun each_output :: "(nat \<Rightarrow> 'p output_base \<Rightarrow> 'p output_base) \<Rightarrow> hpu_conf_output list \<Rightarrow> (nat \<rightharpoonup> 'p output_base) \<Rightarrow> nat \<rightharpoonup> 'p output_base" where
  "each_output f [] store = store"
| "each_output f (o1 # os) store =
     each_output f os (case o_handle o1 of None \<Rightarrow> store | Some h \<Rightarrow> store(h := map_option (f h) (store h)))"

text \<open>The wait for a sink's queue: its worker runs meanwhile.\<close>

definition drain_queue :: "'p life_env \<Rightarrow> nat \<Rightarrow> 'p output_base \<Rightarrow> 'p output_base" where
  "drain_queue E h b =
     (case ob_queue b of None \<Rightarrow> b
      | Some q \<Rightarrow> (case worker_rounds (le_grow E) (le_rounds E h) (b, q) of (b1, q1) \<Rightarrow> b1\<lparr>ob_queue := Some q1\<rparr>))"

definition core_flush_sink_queues :: "'p life_env \<Rightarrow> 'p hpu_runtime \<Rightarrow> 'p hpu_runtime" where
  "core_flush_sink_queues E rt =
     (case rt_conf rt of None \<Rightarrow> rt | Some c \<Rightarrow> rt\<lparr>rt_outs := each_output (drain_queue E) (c_outputs c) (rt_outs rt)\<rparr>)"

definition hpulogc_flush :: "build_flags \<Rightarrow> 'p life_env \<Rightarrow> 'p hpu_runtime \<Rightarrow> int \<times> 'p hpu_runtime" where
  "hpulogc_flush B E rt =
     (if rt_state rt \<noteq> HPU_RT_RUNNING then (HPULOGC_ERR_STATE, rt)
      else if b_async B then (if le_flush E = 0 then HPULOGC_OK else HPULOGC_ERR_IO, core_flush_sink_queues E rt)
      else (HPULOGC_OK, case rt_conf rt of None \<Rightarrow> rt
                        | Some c \<Rightarrow> rt\<lparr>rt_outs := each_output (\<lambda>h b. snd (hpu_output_flush b)) (c_outputs c) (rt_outs rt)\<rparr>))"

fun sync_outputs :: "hpu_conf_output list \<Rightarrow> (nat \<rightharpoonup> 'p output_base) \<Rightarrow> int \<Rightarrow> (nat \<rightharpoonup> 'p output_base) \<times> int" where
  "sync_outputs [] store rc = (store, rc)"
| "sync_outputs (o1 # os) store rc =
     (case o_handle o1 of None \<Rightarrow> sync_outputs os store rc
      | Some h \<Rightarrow>
          (case store h of None \<Rightarrow> sync_outputs os store rc
           | Some b \<Rightarrow> (case hpu_output_sync b of (r, b1) \<Rightarrow> sync_outputs os (store(h \<mapsto> b1)) (if r \<noteq> 0 then -1 else rc))))"

definition hpulogc_sync :: "build_flags \<Rightarrow> 'p life_env \<Rightarrow> 'p hpu_runtime \<Rightarrow> int \<times> 'p hpu_runtime" where
  "hpulogc_sync B E rt =
     (if rt_state rt \<noteq> HPU_RT_RUNNING then (HPULOGC_ERR_STATE, rt)
      else let rc = (if b_async B \<and> le_flush E \<noteq> 0 then - 1 else 0 :: int);
               rt1 = (if b_async B then core_flush_sink_queues E rt else rt)
           in case rt_conf rt1 of None \<Rightarrow> (if rc = 0 then HPULOGC_OK else HPULOGC_ERR_IO, rt1)
           | Some c \<Rightarrow>
               (case sync_outputs (c_outputs c) (rt_outs rt1) rc of (store, rc1) \<Rightarrow>
                  (if rc1 = 0 then HPULOGC_OK else HPULOGC_ERR_IO, rt1\<lparr>rt_outs := store\<rparr>)))"

section \<open>Reload\<close>

text \<open>Moving the reused handles: the new snapshot and the old one.\<close>

fun move_handles :: "nat \<Rightarrow> int list \<Rightarrow> hpu_conf \<Rightarrow> hpu_conf \<Rightarrow> hpu_conf \<times> hpu_conf" where
  "move_handles i [] fresh old = (fresh, old)"
| "move_handles i (r # rs) fresh old =
     (if r \<ge> 0 \<and> nat r < length (c_outputs old)
      then move_handles (Suc i) rs (set_handle i (o_handle (c_outputs old ! nat r)) fresh) (set_handle (nat r) None old)
      else move_handles (Suc i) rs fresh old)"

text \<open>
  \<open>slot\<close> says whether the reload slot was free or became free in time. The code, the runtime and the
  private states of the outputs closed. The buffer and the number of consumers stay as they are.
\<close>

definition swap_conf :: "'p life_env \<Rightarrow> hpu_conf \<Rightarrow> hpu_conf \<Rightarrow> int list \<Rightarrow> 'p hpu_runtime \<Rightarrow> 'p hpu_runtime \<times> 'p list" where
  "swap_conf E fresh live reuse rt =
     (case move_handles 0 reuse fresh live of (fresh1, old) \<Rightarrow>
        let rt1 = rt\<lparr>rt_outs := opened_store E (rt_sinks rt) fresh (rt_outs rt)\<rparr>;
            rt2 = rt1\<lparr>rt_retired_lost := rt_retired_lost rt1 + live_lost_total rt1 old, rt_conf := Some fresh1,
                      rt_conf_gen := rt_conf_gen rt1 + 1\<rparr>;
            rt3 = reload_sync_fast_path fresh1 rt2;
            rt4 = (if c_signal_reload fresh1 \<and> \<not> rt_signal_installed rt3 \<and> le_hup_ok E
                   then rt3\<lparr>rt_signal_installed := True\<rparr> else rt3)
        in free_conf E old rt4)"

definition hpu_core_trigger_reload ::
  "build_flags \<Rightarrow> 'p life_env \<Rightarrow> bool \<Rightarrow> 'p hpu_runtime \<Rightarrow> int \<times> 'p hpu_runtime \<times> 'p list" where
  "hpu_core_trigger_reload B E slot rt =
     (if rt_state rt \<noteq> HPU_RT_RUNNING \<or> rt_source_path rt = [] \<or> \<not> slot then (-1, rt, [])
      else case new_conf E of Inl _ \<Rightarrow> (-1, rt, [])
      | Inr fresh0 \<Rightarrow>
          (case rt_conf rt of None \<Rightarrow> (-1, rt, [])
           | Some live \<Rightarrow>
               (case hpu_conf_load_file B (le_is_regular E) (le_open_file E) fresh0 (rt_source_path rt)
                       (if c_strict_init live then 1 else 0) of (rc, fresh1, _) \<Rightarrow>
                  if rc \<noteq> 0 then (-1, rt, [])
                  else case hpu_conf_finalize_reload B (conf_opener E (rt_sinks rt)) fresh1 live of (rc1, fresh2, reuse, _) \<Rightarrow>
                    if rc1 \<noteq> 0 then (-1, rt, [])
                    else case swap_conf E fresh2 live reuse rt of (rt1, ps) \<Rightarrow> (0, rt1, ps))))"

section \<open>Fork\<close>

text \<open>The handler in the child. The watcher's flag is not cleared, although its thread is gone.\<close>

definition hpu_atfork_child :: "'p hpu_runtime \<Rightarrow> 'p hpu_runtime" where
  "hpu_atfork_child rt =
     (if rt_state rt \<noteq> HPU_RT_RUNNING then rt
      else let rt1 = rt\<lparr>rt_fork_child := True\<rparr>
           in if rt_fork_behavior rt1 = 1 then rt1\<lparr>rt_fork_disabled := True\<rparr>
              else let rt2 = rt1\<lparr>rt_reg := hpu_registry_init, rt_ring := None, rt_consumers := 0\<rparr>
                   in if rt_fork_behavior rt2 = HPU_FORK_REINIT then rt2\<lparr>rt_fork_dirty := True\<rparr> else rt2)"

text \<open>The snapshot a child rebuilds from, finalized.\<close>

definition fork_conf :: "build_flags \<Rightarrow> 'p life_env \<Rightarrow> 'p hpu_runtime \<Rightarrow> hpu_conf option" where
  "fork_conf B E rt =
     (case new_conf E of Inl _ \<Rightarrow> None
      | Inr c \<Rightarrow>
          let finalized = (\<lambda>c1. case hpu_conf_finalize_impl B (conf_opener E (rt_sinks rt)) (le_now_us E) (le_pid E) c1 False of
                             (rc, c2, _) \<Rightarrow> if rc = 0 then Some c2 else None)
          in if rt_source_path rt \<noteq> [] then
               (if b_ini B
                then (case hpu_conf_load_file B (le_is_regular E) (le_open_file E) c (rt_source_path rt) (- 1) of
                        (rc, c1, _) \<Rightarrow> if rc = 0 then finalized c1 else None)
                else None)
             else case rt_saved rt of None \<Rightarrow> None
               | Some s \<Rightarrow> (case hpu_conf_from_code c (Some (saved_view s)) of Inl _ \<Rightarrow> None | Inr c1 \<Rightarrow> finalized c1))"

definition fork_rebuild :: "build_flags \<Rightarrow> 'p life_env \<Rightarrow> 'p hpu_runtime \<Rightarrow> int \<times> 'p hpu_runtime" where
  "fork_rebuild B E rt =
     (case fork_conf B E rt of None \<Rightarrow> (-1, rt)
      | Some c \<Rightarrow>
          (case hpu_core_start B E c (rt\<lparr>rt_outs := opened_store E (rt_sinks rt) c (rt_outs rt), rt_conf := Some c,
                                          rt_state := HPU_RT_RUNNING\<rparr>) of (rc, rt1) \<Rightarrow>
             if rc \<noteq> 0 then (-1, rt1\<lparr>rt_conf := None, rt_state := HPU_RT_UNINITIALIZED\<rparr>) else (0, rt1)))"

text \<open>The gate of the producer in a child: whether the record is dropped.\<close>

definition hpu_core_fork_check :: "build_flags \<Rightarrow> 'p life_env \<Rightarrow> 'p hpu_runtime \<Rightarrow> bool \<times> 'p hpu_runtime" where
  "hpu_core_fork_check B E rt =
     (if \<not> rt_fork_child rt then (False, rt)
      else if rt_fork_disabled rt then (True, rt)
      else if rt_fork_dirty rt then
        (case fork_rebuild B E (rt\<lparr>rt_fork_dirty := False\<rparr>) of (rc, rt1) \<Rightarrow>
           if rc \<noteq> 0 then (True, rt1\<lparr>rt_fork_disabled := True\<rparr>) else (False, rt1))
      else (False, rt))"

end
