(* ===== verification/Consumers.thy ===== *)
theory Consumers
  imports CoreControl Pipeline
begin

text \<open>
  The consumer threads of \<^verbatim>\<open>src/core/consumer.c\<close>. First the work on the runtime: the periodic
  bookkeeping and the report. Then the threads as a system of steps: the program counter of each
  consumer, the request and acknowledgement counters, and the callers of
  \<^verbatim>\<open>hpu_consumer_flush\<close>, each step one access to what the threads share.
\<close>

section \<open>Bookkeeping\<close>

record consumer_tunables =
  tu_batch_size :: nat
  tu_flush_interval_ms :: nat
  tu_stats_file_mode :: bool
  tu_stats_file :: string

text \<open>The outputs of the snapshot are flushed and get their periodic call.\<close>

definition idle_outputs :: "nat \<Rightarrow> hpu_conf \<Rightarrow> 'p hpu_runtime \<Rightarrow> 'p hpu_runtime" where
  "idle_outputs now_ns c rt =
     rt\<lparr>rt_outs := each_output (\<lambda>h b. snd (hpu_output_periodic now_ns (nat (c_flush_interval_ms c) * 1000000)
                                             (snd (hpu_output_flush b)))) (c_outputs c) (rt_outs rt)\<rparr>"

definition idle_tunables :: "hpu_conf \<Rightarrow> consumer_tunables" where
  "idle_tunables c =
     \<lparr>tu_batch_size = (if c_batch_size c > 0 then nat (c_batch_size c) else 64),
      tu_flush_interval_ms = (if c_flush_interval_ms c > 0 then nat (c_flush_interval_ms c) else 100),
      tu_stats_file_mode = c_stats_output_file c, tu_stats_file = c_stats_file c\<rparr>"

text \<open>One line of the report, and where it is written: a file, or the standard error stream.\<close>

definition stats_line :: "hpulogc_stats \<Rightarrow> string" where
  "stats_line st =
     ''[hpulogc][stats] accepted='' @ dec_digits (sg_accepted st) @ '' written='' @ dec_digits (sg_written st)
     @ '' dropped='' @ dec_digits (sg_dropped st) @ '' overwritten='' @ dec_digits (sg_overwritten st)
     @ '' throttled='' @ dec_digits (sg_throttled st) @ '' buffer_used='' @ dec_digits (sg_buffer_used st)
     @ ''/'' @ dec_digits (sg_buffer_size st) @ [CHR 0x0A]"

definition consumer_stats_report :: "(string \<Rightarrow> bool) \<Rightarrow> consumer_tunables \<Rightarrow> 'p hpu_runtime \<Rightarrow> (string option \<times> string) option" where
  "consumer_stats_report can_append tun rt =
     (case hpulogc_get_stats True rt of Inl _ \<Rightarrow> None
      | Inr st \<Rightarrow>
          if tu_stats_file_mode tun \<and> tu_stats_file tun \<noteq> []
          then (if can_append (tu_stats_file tun) then Some (Some (tu_stats_file tun), stats_line st) else None)
          else Some (None, stats_line st))"

definition stats_due :: "int \<Rightarrow> nat \<Rightarrow> nat \<Rightarrow> nat \<Rightarrow> bool" where
  "stats_due stats_iv idx now_ms last_ms \<longleftrightarrow>
     stats_iv > 0 \<and> idx = 0 \<and> now_ms \<ge> last_ms \<and> now_ms - last_ms \<ge> nat stats_iv * 1000"

text \<open>
  The tasks of consumer \<open>idx\<close>, without the handshake, which is below: the runtime, the refreshed
  tunables, the time of the last report and the report.
\<close>

definition consumer_idle_tasks ::
  "(string \<Rightarrow> bool) \<Rightarrow> nat \<Rightarrow> nat \<Rightarrow> consumer_tunables \<Rightarrow> nat \<Rightarrow> 'p hpu_runtime
    \<Rightarrow> 'p hpu_runtime \<times> consumer_tunables \<times> nat \<times> (string option \<times> string) option" where
  "consumer_idle_tasks can_append now_ns idx tun last_ms rt =
     (case rt_conf rt of None \<Rightarrow> (rt, tun, last_ms, None)
      | Some c \<Rightarrow>
          let rt1 = idle_outputs now_ns c rt; tun1 = idle_tunables c; now_ms = now_ns div 1000000
          in if stats_due (c_stats_interval c) idx now_ms last_ms
             then (rt1, tun1, now_ms, consumer_stats_report can_append tun1 rt1)
             else (rt1, tun1, last_ms, None))"

definition consumer_thread_count :: "'p hpu_runtime \<Rightarrow> nat" where
  "consumer_thread_count rt =
     (case rt_conf rt of Some c \<Rightarrow> if c_consumer_threads c > 0 then nat (c_consumer_threads c) else 1 | None \<Rightarrow> 1)"

section \<open>The threads\<close>

text \<open>
  Records are numbered in the order the ring accepted them. Where a consumer is: at the head of its
  loop, in the ring's get, with a record in its hand, in the bookkeeping (\<open>CnIdle\<close> before the outputs
  are flushed, \<open>CnReq\<close> before the request counter is read, \<open>CnCheck\<close> before the ring is looked at,
  \<open>CnAck\<close> before the acknowledgement is stored; the flag says that it is the last one), in the drain
  loop, or gone. \<open>CnStart\<close> is before the allocation of the staging buffer.
\<close>

datatype consumer_pc =
    CnStart | CnLoop | CnGet | CnGot nat
  | CnIdle bool | CnReq bool | CnCheck bool nat | CnAck bool nat
  | CnDrain | CnDrainGot nat | CnExited | CnNoStaging

text \<open>\<open>cn_delivered\<close>: what it delivered to the outputs since they were last flushed.\<close>

record consumer =
  cn_pc :: consumer_pc
  cn_processed :: nat
  cn_batch :: nat
  cn_delivered :: "nat list"

text \<open>
  A caller of the flush: it has its sequence number (and, for the statements, the number of records
  accepted when it asked), looks at the ring, reads the acknowledgements one after the other, and is
  done with a result.
\<close>

datatype flusher = FlRing nat nat | FlAck nat nat nat | FlDone nat int

record consumer_system =
  cs_ring :: "nat list"
  cs_next :: nat
  cs_evicted :: "nat list"
  cs_closed :: bool
  cs_exit :: bool
  cs_req :: nat
  cs_acks :: "nat list"
  cs_cons :: "consumer list"
  cs_flushers :: "flusher list"
  cs_submitted :: "nat list"
  cs_conf_batch :: nat

definition hpu_consumer_start :: "nat \<Rightarrow> nat \<Rightarrow> consumer_system" where
  "hpu_consumer_start count batch =
     \<lparr>cs_ring = [], cs_next = 0, cs_evicted = [], cs_closed = False, cs_exit = False, cs_req = 0,
      cs_acks = replicate count 0,
      cs_cons = replicate count \<lparr>cn_pc = CnStart, cn_processed = 0, cn_batch = 64, cn_delivered = []\<rparr>,
      cs_flushers = [], cs_submitted = [], cs_conf_batch = batch\<rparr>"

definition set_cons :: "nat \<Rightarrow> consumer \<Rightarrow> consumer_system \<Rightarrow> consumer_system" where
  "set_cons i c s = s\<lparr>cs_cons := (cs_cons s)[i := c]\<rparr>"

text \<open>After a record: the next one, or the bookkeeping when a batch is full.\<close>

definition record_done :: "nat \<Rightarrow> consumer \<Rightarrow> consumer" where
  "record_done r c =
     (let n = cn_processed c + 1; c1 = c\<lparr>cn_delivered := cn_delivered c @ [r]\<rparr>
      in if n \<ge> cn_batch c then c1\<lparr>cn_processed := 0, cn_pc := CnIdle False\<rparr>
         else c1\<lparr>cn_processed := n, cn_pc := CnLoop\<rparr>)"

text \<open>The outputs are flushed: everything delivered so far is submitted.\<close>

definition submit_all :: "consumer_system \<Rightarrow> consumer_system" where
  "submit_all s = s\<lparr>cs_submitted := cs_submitted s @ concat (map cn_delivered (cs_cons s)),
                    cs_cons := map (\<lambda>c. c\<lparr>cn_delivered := []\<rparr>) (cs_cons s)\<rparr>"

text \<open>The end of the bookkeeping.\<close>

definition idle_end :: "bool \<Rightarrow> consumer_pc" where
  "idle_end final = (if final then CnExited else CnLoop)"

text \<open>The next step of consumer \<open>i\<close>.\<close>

definition consumer_step :: "nat \<Rightarrow> consumer_system \<Rightarrow> consumer_system" where
  "consumer_step i s =
     (let c = cs_cons s ! i; goto = (\<lambda>pc. set_cons i (c\<lparr>cn_pc := pc\<rparr>)) in
      case cn_pc c of
        CnStart \<Rightarrow> goto CnLoop s
      | CnLoop \<Rightarrow> goto (if cs_exit s then CnDrain else CnGet) s
      | CnGet \<Rightarrow> (case cs_ring s of
                     [] \<Rightarrow> set_cons i (c\<lparr>cn_processed := 0, cn_pc := CnIdle False\<rparr>) s
                   | r # rs \<Rightarrow> goto (CnGot r) (s\<lparr>cs_ring := rs\<rparr>))
      | CnGot r \<Rightarrow> set_cons i (record_done r c) s
      | CnIdle final \<Rightarrow> (let s1 = submit_all s
                        in set_cons i ((cs_cons s1 ! i)\<lparr>cn_batch := cs_conf_batch s, cn_pc := CnReq final\<rparr>) s1)
      | CnReq final \<Rightarrow> goto (CnCheck final (cs_req s)) s
      | CnCheck final q \<Rightarrow> goto (if cs_ring s = [] then CnAck final q else idle_end final) s
      | CnAck final q \<Rightarrow> goto (idle_end final) (s\<lparr>cs_acks := (cs_acks s)[i := q]\<rparr>)
      | CnDrain \<Rightarrow> (case cs_ring s of
                       [] \<Rightarrow> goto (CnIdle True) s
                     | r # rs \<Rightarrow> goto (CnDrainGot r) (s\<lparr>cs_ring := rs\<rparr>))
      | CnDrainGot r \<Rightarrow> set_cons i (c\<lparr>cn_delivered := cn_delivered c @ [r], cn_pc := CnDrain\<rparr>) s
      | CnExited \<Rightarrow> s
      | CnNoStaging \<Rightarrow> s)"

text \<open>A call of \<^verbatim>\<open>hpu_consumer_flush\<close> starts; the next step of the caller \<open>k\<close>.\<close>

definition flush_request :: "consumer_system \<Rightarrow> consumer_system" where
  "flush_request s = s\<lparr>cs_req := cs_req s + 1, cs_flushers := cs_flushers s @ [FlRing (cs_req s + 1) (cs_next s)]\<rparr>"

definition flusher_step :: "nat \<Rightarrow> consumer_system \<Rightarrow> consumer_system" where
  "flusher_step k s =
     (case cs_flushers s ! k of
        FlRing q m \<Rightarrow> if cs_ring s = [] then s\<lparr>cs_flushers := (cs_flushers s)[k := FlAck q m 0]\<rparr> else s
      | FlAck q m i \<Rightarrow>
          s\<lparr>cs_flushers := (cs_flushers s)[k :=
              (if i \<ge> length (cs_cons s) then FlDone m 0
               else if cs_acks s ! i < q then FlRing q m else FlAck q m (i + 1))]\<rparr>
      | FlDone m rc \<Rightarrow> s)"

text \<open>
  What can happen next. A put may first evict the oldest records; a closed ring accepts nothing. Shutdown
  closes the ring before it raises the exit flag. The configuration in force may change the batch size.
\<close>

datatype consumer_act =
    ActPut nat | ActConsumer nat | ActNoStaging nat | ActRequest | ActFlusher nat | ActTimeout nat
  | ActClose | ActExit | ActReload nat

fun consumer_perform :: "consumer_act \<Rightarrow> consumer_system \<Rightarrow> consumer_system" where
  "consumer_perform (ActPut k) s =
     (if cs_closed s then s
      else s\<lparr>cs_ring := drop k (cs_ring s) @ [cs_next s], cs_evicted := cs_evicted s @ take k (cs_ring s),
             cs_next := cs_next s + 1\<rparr>)"
| "consumer_perform (ActConsumer i) s = (if i < length (cs_cons s) then consumer_step i s else s)"
| "consumer_perform (ActNoStaging i) s =
     (if i < length (cs_cons s) \<and> cn_pc (cs_cons s ! i) = CnStart
      then set_cons i ((cs_cons s ! i)\<lparr>cn_pc := CnNoStaging\<rparr>) s else s)"
| "consumer_perform ActRequest s = flush_request s"
| "consumer_perform (ActFlusher k) s = (if k < length (cs_flushers s) then flusher_step k s else s)"
| "consumer_perform (ActTimeout k) s =
     (if k < length (cs_flushers s) then
        (case cs_flushers s ! k of FlRing q m \<Rightarrow> s\<lparr>cs_flushers := (cs_flushers s)[k := FlDone m (- 1)]\<rparr> | _ \<Rightarrow> s)
      else s)"
| "consumer_perform ActClose s = s\<lparr>cs_closed := True\<rparr>"
| "consumer_perform ActExit s = (if cs_closed s then s\<lparr>cs_exit := True\<rparr> else s)"
| "consumer_perform (ActReload n) s = s\<lparr>cs_conf_batch := n\<rparr>"

definition consumer_run :: "consumer_act list \<Rightarrow> consumer_system \<Rightarrow> consumer_system" where
  "consumer_run acts s = foldl (\<lambda>s a. consumer_perform a s) s acts"

end
