(* ===== verification/ConsumerLaws.thy ===== *)
theory ConsumerLaws
  imports Consumers
begin

text \<open>
  The laws of the consumer threads: when a flush answers success, every record accepted before the call
  has been delivered and submitted (or evicted by the overwrite policy); and when a consumer has ended,
  the ring is empty, so that after the last one everything accepted has been submitted.
\<close>

section \<open>The invariant\<close>

text \<open>What a consumer has taken and not delivered.\<close>

definition held :: "consumer_pc \<Rightarrow> nat list" where
  "held pc = (case pc of CnGot r \<Rightarrow> [r] | CnDrainGot r \<Rightarrow> [r] | _ \<Rightarrow> [])"

lemma held_simps [simp]:
  "held CnStart = []" "held CnLoop = []" "held CnGet = []" "held (CnGot r) = [r]" "held (CnIdle b) = []" "held (CnReq b) = []"
  "held (CnCheck b q) = []" "held (CnAck b q) = []" "held CnDrain = []" "held (CnDrainGot r) = [r]" "held CnExited = []"
  "held CnNoStaging = []" "held (idle_end b) = []"
  by (simp_all add: held_def idle_end_def)

definition pending :: "consumer \<Rightarrow> nat set" where
  "pending c = set (held (cn_pc c)) \<union> set (cn_delivered c)"

text \<open>Every accepted record is somewhere.\<close>

definition accounted :: "consumer_system \<Rightarrow> bool" where
  "accounted s \<longleftrightarrow> {..< cs_next s} \<subseteq>
     set (cs_ring s) \<union> set (cs_evicted s) \<union> set (cs_submitted s) \<union> (\<Union>c \<in> set (cs_cons s). pending c)"

text \<open>The bookkeeping runs with empty hands, and the counters follow the request counter.\<close>

definition submitted_pc :: "consumer_pc \<Rightarrow> bool" where
  "submitted_pc pc = (case pc of CnReq b \<Rightarrow> True | CnCheck b q \<Rightarrow> True | CnAck b q \<Rightarrow> True | CnExited \<Rightarrow> True
     | CnStart \<Rightarrow> True | CnNoStaging \<Rightarrow> True | _ \<Rightarrow> False)"

definition pc_request :: "consumer_pc \<Rightarrow> nat" where
  "pc_request pc = (case pc of CnCheck b q \<Rightarrow> q | CnAck b q \<Rightarrow> q | _ \<Rightarrow> 0)"

definition draining_pc :: "consumer_pc \<Rightarrow> bool" where
  "draining_pc pc = (case pc of CnDrain \<Rightarrow> True | CnDrainGot r \<Rightarrow> True | _ \<Rightarrow> False)"

definition ended_pc :: "consumer_pc \<Rightarrow> bool" where
  "ended_pc pc = (case pc of CnIdle b \<Rightarrow> b | CnReq b \<Rightarrow> b | CnCheck b q \<Rightarrow> b | CnAck b q \<Rightarrow> b | CnExited \<Rightarrow> True | _ \<Rightarrow> False)"

definition cons_ok :: "consumer_system \<Rightarrow> consumer \<Rightarrow> bool" where
  "cons_ok s c \<longleftrightarrow> (submitted_pc (cn_pc c) \<longrightarrow> cn_delivered c = []) \<and> pc_request (cn_pc c) \<le> cs_req s
     \<and> (draining_pc (cn_pc c) \<longrightarrow> cs_exit s) \<and> (ended_pc (cn_pc c) \<longrightarrow> cs_ring s = [] \<and> cs_closed s)"

text \<open>A consumer has acknowledged a request, or is about to.\<close>

definition acked :: "nat \<Rightarrow> nat \<Rightarrow> consumer_pc \<Rightarrow> bool" where
  "acked q a pc \<longleftrightarrow> q \<le> a \<or> (\<exists>b q'. pc = CnAck b q' \<and> q \<le> q')"

text \<open>What an acknowledgement of request \<open>q\<close>, made when \<open>m\<close> records were accepted, promises.\<close>

definition clear_below :: "nat \<Rightarrow> consumer_system \<Rightarrow> consumer \<Rightarrow> bool" where
  "clear_below m s c \<longleftrightarrow> (\<forall>r < m. r \<notin> set (cs_ring s) \<and> r \<notin> pending c)"

definition promise :: "consumer_system \<Rightarrow> nat \<Rightarrow> nat \<Rightarrow> bool" where
  "promise s q m \<longleftrightarrow> 0 < q \<and> q \<le> cs_req s \<and> m \<le> cs_next s
     \<and> (\<forall>i < length (cs_cons s). acked q (cs_acks s ! i) (cn_pc (cs_cons s ! i)) \<longrightarrow> clear_below m s (cs_cons s ! i))"

definition settled_below :: "nat \<Rightarrow> consumer_system \<Rightarrow> bool" where
  "settled_below m s \<longleftrightarrow> {..< m} \<subseteq> set (cs_evicted s) \<union> set (cs_submitted s)"

definition flusher_ok :: "consumer_system \<Rightarrow> flusher \<Rightarrow> bool" where
  "flusher_ok s f = (case f of
     FlRing q m \<Rightarrow> promise s q m
   | FlAck q m i \<Rightarrow> promise s q m \<and> (\<forall>r < m. r \<notin> set (cs_ring s)) \<and> (\<forall>j < i. j < length (cs_cons s) \<longrightarrow> q \<le> cs_acks s ! j)
   | FlDone m rc \<Rightarrow> rc = 0 \<longrightarrow> settled_below m s)"

text \<open>Acknowledgements never go back.\<close>

definition ack_follows :: "nat \<Rightarrow> consumer_pc \<Rightarrow> bool" where
  "ack_follows a pc = (case pc of CnCheck b q \<Rightarrow> a \<le> q | CnAck b q \<Rightarrow> a \<le> q | _ \<Rightarrow> True)"

definition system_inv :: "consumer_system \<Rightarrow> bool" where
  "system_inv s \<longleftrightarrow> accounted s \<and> length (cs_acks s) = length (cs_cons s) \<and> (\<forall>a \<in> set (cs_acks s). a \<le> cs_req s)
     \<and> (\<forall>i < length (cs_cons s). ack_follows (cs_acks s ! i) (cn_pc (cs_cons s ! i)))
     \<and> (cs_exit s \<longrightarrow> cs_closed s)
     \<and> (\<forall>c \<in> set (cs_cons s). cons_ok s c) \<and> (\<forall>f \<in> set (cs_flushers s). flusher_ok s f)"

lemma init_inv: "system_inv (hpu_consumer_start n batch)"
  by (simp add: system_inv_def hpu_consumer_start_def accounted_def cons_ok_def submitted_pc_def pc_request_def draining_pc_def
      ended_pc_def ack_follows_def)

section \<open>A step of a consumer\<close>

lemma clear_mono:
  assumes "clear_below m s c" "set (cs_ring s') \<subseteq> set (cs_ring s) \<union> {cs_next s..}" "m \<le> cs_next s"
    "pending c' \<subseteq> pending c \<union> set (cs_ring s)"
  shows "clear_below m s' c'"
  using assms by (force simp: clear_below_def)

text \<open>The shape of a step: what it does to the ring, to consumer \<open>i\<close> and to the others.\<close>

lemma consumer_step_frame:
  assumes "i < length (cs_cons s)"
  shows "cs_next (consumer_step i s) = cs_next s \<and> cs_evicted (consumer_step i s) = cs_evicted s
    \<and> cs_closed (consumer_step i s) = cs_closed s \<and> cs_exit (consumer_step i s) = cs_exit s
    \<and> cs_req (consumer_step i s) = cs_req s \<and> cs_flushers (consumer_step i s) = cs_flushers s
    \<and> length (cs_cons (consumer_step i s)) = length (cs_cons s) \<and> length (cs_acks (consumer_step i s)) = length (cs_acks s)
    \<and> set (cs_ring (consumer_step i s)) \<subseteq> set (cs_ring s)
    \<and> set (cs_submitted s) \<subseteq> set (cs_submitted (consumer_step i s))"
  using assms
  by (cases "cn_pc (cs_cons s ! i)") (auto simp: consumer_step_def set_cons_def submit_all_def Let_def split: list.splits)

lemma consumer_step_other:
  assumes "i < length (cs_cons s)" "j < length (cs_cons s)" "j \<noteq> i"
  shows "cn_pc (cs_cons (consumer_step i s) ! j) = cn_pc (cs_cons s ! j) \<and> cs_acks (consumer_step i s) ! j = cs_acks s ! j
    \<and> pending (cs_cons (consumer_step i s) ! j) \<subseteq> pending (cs_cons s ! j)
    \<and> (cn_delivered (cs_cons s ! j) = [] \<longrightarrow> cn_delivered (cs_cons (consumer_step i s) ! j) = [])"
  using assms
  by (cases "cn_pc (cs_cons s ! i)") (auto simp: consumer_step_def set_cons_def submit_all_def Let_def pending_def split: list.splits)

lemma consumer_step_own:
  assumes "i < length (cs_cons s)" "length (cs_acks s) = length (cs_cons s)" "cons_ok s (cs_cons s ! i)"
    "cs_acks s ! i \<le> cs_req s" "cs_exit s \<longrightarrow> cs_closed s"
  defines "s' \<equiv> consumer_step i s"
  shows "cons_ok s' (cs_cons s' ! i) \<and> cs_acks s' ! i \<le> cs_req s' \<and> pending (cs_cons s' ! i) \<subseteq> pending (cs_cons s ! i) \<union> set (cs_ring s)
    \<and> (acked q (cs_acks s' ! i) (cn_pc (cs_cons s' ! i)) \<longrightarrow>
         acked q (cs_acks s ! i) (cn_pc (cs_cons s ! i)) \<or> cs_ring s = [] \<and> pending (cs_cons s ! i) = {})"
  using assms(1-5) unfolding s'_def
  by (cases "cn_pc (cs_cons s ! i)")
     (auto simp: consumer_step_def set_cons_def submit_all_def Let_def pending_def cons_ok_def submitted_pc_def pc_request_def
        draining_pc_def ended_pc_def acked_def idle_end_def record_done_def split: list.splits)

lemma consumer_step_acks:
  assumes "i < length (cs_cons s)" "length (cs_acks s) = length (cs_cons s)" "ack_follows (cs_acks s ! i) (cn_pc (cs_cons s ! i))"
    "cs_acks s ! i \<le> cs_req s"
  defines "s' \<equiv> consumer_step i s"
  shows "cs_acks s ! i \<le> cs_acks s' ! i \<and> ack_follows (cs_acks s' ! i) (cn_pc (cs_cons s' ! i))"
  using assms(1-4) unfolding s'_def
  by (cases "cn_pc (cs_cons s ! i)")
     (auto simp: consumer_step_def set_cons_def submit_all_def Let_def ack_follows_def idle_end_def record_done_def split: list.splits)

text \<open>No record gets lost: from the ring into a hand, from there to the outputs, and submitted.\<close>

lemma consumer_step_keeps:
  assumes "i < length (cs_cons s)" "j < length (cs_cons s)"
  shows "pending (cs_cons s ! j) \<subseteq> pending (cs_cons (consumer_step i s) ! j) \<union> set (cs_submitted (consumer_step i s))
    \<and> set (cs_ring s) \<subseteq> set (cs_ring (consumer_step i s)) \<union> pending (cs_cons (consumer_step i s) ! i)"
  using assms
  by (cases "cn_pc (cs_cons s ! i)"; cases "j = i")
     (auto simp: consumer_step_def set_cons_def submit_all_def Let_def pending_def idle_end_def record_done_def split: list.splits)

lemma places_mono:
  "N \<subseteq> R \<union> E \<union> S \<union> U \<Longrightarrow> U \<subseteq> U' \<union> S' \<Longrightarrow> R \<subseteq> R' \<union> U' \<Longrightarrow> S \<subseteq> S' \<Longrightarrow> N \<subseteq> R' \<union> E \<union> S' \<union> U'"
  by blast

lemma consumer_step_accounted:
  assumes i: "i < length (cs_cons s)" and acc: "accounted s"
  shows "accounted (consumer_step i s)"
proof -
  note f = consumer_step_frame [OF i] and k = consumer_step_keeps [OF i]
  have u: "(\<Union>c \<in> set (cs_cons s). pending c)
      \<subseteq> (\<Union>c \<in> set (cs_cons (consumer_step i s)). pending c) \<union> set (cs_submitted (consumer_step i s))"
  proof
    fix r assume "r \<in> (\<Union>c \<in> set (cs_cons s). pending c)"
    then obtain j where j: "j < length (cs_cons s)" "r \<in> pending (cs_cons s ! j)" by (auto simp: in_set_conv_nth)
    then have "cs_cons (consumer_step i s) ! j \<in> set (cs_cons (consumer_step i s))" using f by simp
    moreover have "r \<in> pending (cs_cons (consumer_step i s) ! j) \<union> set (cs_submitted (consumer_step i s))" using k [OF j(1)] j(2) by blast
    ultimately show "r \<in> (\<Union>c \<in> set (cs_cons (consumer_step i s)). pending c) \<union> set (cs_submitted (consumer_step i s))" by blast
  qed
  have "pending (cs_cons (consumer_step i s) ! i) \<subseteq> (\<Union>c \<in> set (cs_cons (consumer_step i s)). pending c)"
    using i f by (intro UN_upper) simp
  with k [OF i] have r: "set (cs_ring s) \<subseteq> set (cs_ring (consumer_step i s)) \<union> (\<Union>c \<in> set (cs_cons (consumer_step i s)). pending c)"
    by (meson sup.mono subset_refl subset_trans)
  from places_mono [OF acc [unfolded accounted_def] u r] f show ?thesis by (simp only: accounted_def simp_thms)
qed

text \<open>What a step of a consumer keeps of the promises.\<close>

lemma consumer_step_promise:
  assumes i: "i < length (cs_cons s)" and inv: "system_inv s" and p: "promise s q m"
  shows "promise (consumer_step i s) q m"
proof -
  note f = consumer_step_frame [OF i]
  have c: "cons_ok s (cs_cons s ! i)" "cs_acks s ! i \<le> cs_req s" "length (cs_acks s) = length (cs_cons s)" "cs_exit s \<longrightarrow> cs_closed s"
    using inv i by (auto simp: system_inv_def)
  note o = consumer_step_own [OF i c(3,1,2,4)]
  have m: "m \<le> cs_next s" using p by (simp add: promise_def)
  have ring: "set (cs_ring (consumer_step i s)) \<subseteq> set (cs_ring s) \<union> {cs_next s..}" using f by blast
  have "clear_below m (consumer_step i s) (cs_cons (consumer_step i s) ! j)"
    if j: "j < length (cs_cons s)" and a: "acked q (cs_acks (consumer_step i s) ! j) (cn_pc (cs_cons (consumer_step i s) ! j))" for j
  proof (cases "j = i")
    case True
    show ?thesis
    proof (cases "acked q (cs_acks s ! i) (cn_pc (cs_cons s ! i))")
      case True
      then have "clear_below m s (cs_cons s ! i)" using p i by (simp add: promise_def)
      from clear_mono [OF this ring m] o \<open>j = i\<close> show ?thesis by blast
    next
      case False
      with o [of q] a \<open>j = i\<close> have e: "cs_ring s = []" "pending (cs_cons s ! i) = {}" by blast+
      with o [of q] have "pending (cs_cons (consumer_step i s) ! i) = {}" by simp
      then show ?thesis using f e(1) \<open>j = i\<close> by (simp add: clear_below_def)
    qed
  next
    case False
    note other = consumer_step_other [OF i j False]
    from a other have "acked q (cs_acks s ! j) (cn_pc (cs_cons s ! j))" by simp
    then have "clear_below m s (cs_cons s ! j)" using p j by (simp add: promise_def)
    from clear_mono [OF this ring m] other show ?thesis by blast
  qed
  then show ?thesis using p f by (simp add: promise_def)
qed

lemma consumer_step_flusher:
  assumes i: "i < length (cs_cons s)" and inv: "system_inv s" and ok: "flusher_ok s f"
  shows "flusher_ok (consumer_step i s) f"
proof -
  note fr = consumer_step_frame [OF i]
  have ack: "cs_acks s ! j \<le> cs_acks (consumer_step i s) ! j" if "j < length (cs_cons s)" for j
    using consumer_step_acks [OF i] consumer_step_other [OF i that] inv i by (cases "j = i") (auto simp: system_inv_def)
  show ?thesis
  proof (cases f)
    case (FlRing q m)
    then show ?thesis using ok consumer_step_promise [OF i inv] by (simp add: flusher_ok_def)
  next
    case (FlAck q m n)
    with ok have h: "promise s q m" "\<forall>r < m. r \<notin> set (cs_ring s)" "\<forall>j < n. j < length (cs_cons s) \<longrightarrow> q \<le> cs_acks s ! j"
      by (simp_all add: flusher_ok_def)
    have "\<forall>j < n. j < length (cs_cons s) \<longrightarrow> q \<le> cs_acks (consumer_step i s) ! j" using h(3) ack order_trans by blast
    moreover have "\<forall>r < m. r \<notin> set (cs_ring (consumer_step i s))" using h(2) fr by blast
    ultimately show ?thesis using FlAck consumer_step_promise [OF i inv h(1)] fr by (simp add: flusher_ok_def)
  next
    case (FlDone m rc)
    then show ?thesis using ok fr unfolding flusher_ok_def settled_below_def by auto
  qed
qed

lemma consumer_step_inv:
  assumes i: "i < length (cs_cons s)" and inv: "system_inv s"
  shows "system_inv (consumer_step i s)"
proof -
  note fr = consumer_step_frame [OF i]
  have c: "cons_ok s (cs_cons s ! i)" "cs_acks s ! i \<le> cs_req s" "length (cs_acks s) = length (cs_cons s)" "cs_exit s \<longrightarrow> cs_closed s"
    "ack_follows (cs_acks s ! i) (cn_pc (cs_cons s ! i))"
    using inv i by (auto simp: system_inv_def)
  note o = consumer_step_own [OF i c(3,1,2,4)] and ak = consumer_step_acks [OF i c(3,5,2)]
  have cons: "cons_ok (consumer_step i s) (cs_cons (consumer_step i s) ! j)
      \<and> cs_acks (consumer_step i s) ! j \<le> cs_req (consumer_step i s)
      \<and> ack_follows (cs_acks (consumer_step i s) ! j) (cn_pc (cs_cons (consumer_step i s) ! j))" if j: "j < length (cs_cons s)" for j
  proof (cases "j = i")
    case True
    then show ?thesis using o ak by blast
  next
    case False
    note other = consumer_step_other [OF i j False]
    have "cons_ok s (cs_cons s ! j)" "cs_acks s ! j \<le> cs_req s" "ack_follows (cs_acks s ! j) (cn_pc (cs_cons s ! j))"
      using inv j by (auto simp: system_inv_def)
    then show ?thesis using other fr by (auto simp: cons_ok_def)
  qed
  have "accounted (consumer_step i s)" using consumer_step_accounted [OF i] inv by (simp add: system_inv_def)
  moreover have "\<forall>f \<in> set (cs_flushers (consumer_step i s)). flusher_ok (consumer_step i s) f"
    using consumer_step_flusher [OF i inv] inv fr by (auto simp: system_inv_def)
  moreover have "\<forall>c \<in> set (cs_cons (consumer_step i s)). cons_ok (consumer_step i s) c"
    using cons fr by (auto simp: in_set_conv_nth)
  moreover have "\<forall>a \<in> set (cs_acks (consumer_step i s)). a \<le> cs_req (consumer_step i s)"
    using cons fr c(3) by (auto simp: in_set_conv_nth)
  ultimately show ?thesis using cons fr c(3,4) by (simp add: system_inv_def)
qed

section \<open>The other steps\<close>

text \<open>Steps that leave the consumers and the acknowledgements as they are.\<close>

lemma quiet_flusher:
  assumes "cs_cons s' = cs_cons s" "cs_acks s' = cs_acks s" "cs_req s \<le> cs_req s'" "cs_next s \<le> cs_next s'"
    "set (cs_ring s') \<subseteq> set (cs_ring s) \<union> {cs_next s..}" "set (cs_evicted s) \<subseteq> set (cs_evicted s')"
    "cs_submitted s' = cs_submitted s" "flusher_ok s f"
  shows "flusher_ok s' f"
proof -
  have p: "promise s' q m" if "promise s q m" for q m
  proof -
    have "m \<le> cs_next s" using that by (simp add: promise_def)
    then have "clear_below m s' c" if "clear_below m s c" for c
      using clear_mono [OF that assms(5)] by blast
    then show ?thesis using that assms(1-4) unfolding promise_def by (metis le_trans)
  qed
  have r: "\<forall>r < m. r \<notin> set (cs_ring s')" if "\<forall>r < m. r \<notin> set (cs_ring s)" "promise s q m" for q m
    using that assms(5) by (force simp: promise_def)
  show ?thesis
  proof (cases f)
    case (FlAck q m i)
    then show ?thesis using assms(8) p r assms(1,2) by (auto simp: flusher_ok_def)
  next
    case (FlDone m rc)
    then show ?thesis using assms(6-8) unfolding flusher_ok_def settled_below_def by auto
  qed (use assms(8) p in \<open>simp add: flusher_ok_def\<close>)
qed

lemma put_inv:
  assumes "system_inv s" "\<not> cs_closed s"
  shows "system_inv (s\<lparr>cs_ring := drop k (cs_ring s) @ [cs_next s], cs_evicted := cs_evicted s @ take k (cs_ring s),
             cs_next := cs_next s + 1\<rparr>)" (is "system_inv ?s")
proof -
  have r: "set (cs_ring s) = set (take k (cs_ring s)) \<union> set (drop k (cs_ring s))" by (metis append_take_drop_id set_append)
  have "\<forall>f \<in> set (cs_flushers s). flusher_ok ?s f"
    using assms(1) r by (intro ballI quiet_flusher [of ?s s]) (auto simp: system_inv_def)
  moreover have "accounted ?s"
    using assms(1) unfolding system_inv_def accounted_def by (auto simp: lessThan_Suc r)
  moreover have "\<forall>c \<in> set (cs_cons s). cons_ok ?s c"
    using assms by (auto simp: system_inv_def cons_ok_def)
  ultimately show ?thesis using assms by (simp add: system_inv_def)
qed

lemma no_staging_inv:
  assumes "system_inv s" "i < length (cs_cons s)" "cn_pc (cs_cons s ! i) = CnStart"
  shows "system_inv (set_cons i ((cs_cons s ! i)\<lparr>cn_pc := CnNoStaging\<rparr>) s)" (is "system_inv ?s")
proof -
  have p: "pending (cs_cons ?s ! j) = pending (cs_cons s ! j)" if "j < length (cs_cons s)" for j
    using that assms(2,3) by (cases "j = i") (auto simp: set_cons_def pending_def)
  have f: "length (cs_cons ?s) = length (cs_cons s)" "cs_ring ?s = cs_ring s" "cs_acks ?s = cs_acks s" "cs_req ?s = cs_req s"
    "cs_next ?s = cs_next s" "cs_evicted ?s = cs_evicted s" "cs_submitted ?s = cs_submitted s" "cs_flushers ?s = cs_flushers s"
    "cs_closed ?s = cs_closed s" "cs_exit ?s = cs_exit s"
    by (simp_all add: set_cons_def)
  have a: "acked q x (cn_pc (cs_cons ?s ! j)) = acked q x (cn_pc (cs_cons s ! j))" if "j < length (cs_cons s)" for j q x
    using that assms(2,3) by (cases "j = i") (auto simp: set_cons_def acked_def)
  have pr: "promise ?s q m = promise s q m" for q m
    using p a f by (simp add: promise_def clear_below_def cong: conj_cong)
  have "flusher_ok ?s g = flusher_ok s g" for g
    using pr f by (simp add: flusher_ok_def settled_below_def split: flusher.split)
  moreover have "(\<Union>c \<in> set (cs_cons ?s). pending c) = (\<Union>c \<in> set (cs_cons s). pending c)"
    using p f(1) by (auto simp: in_set_conv_nth) (metis nth_mem)+
  then have "accounted ?s = accounted s" by (simp add: accounted_def f)
  moreover have "\<forall>c \<in> set (cs_cons ?s). cons_ok ?s c"
  proof
    fix c assume "c \<in> set (cs_cons ?s)"
    then have "c = (cs_cons s ! i)\<lparr>cn_pc := CnNoStaging\<rparr> \<or> c \<in> set (cs_cons s)"
      using set_update_subset_insert by (fastforce simp: set_cons_def)
    then show "cons_ok ?s c" using assms nth_mem [OF assms(2)]
      by (auto simp: system_inv_def cons_ok_def f submitted_pc_def pc_request_def draining_pc_def ended_pc_def)
  qed
  moreover have "ack_follows x (cn_pc (cs_cons ?s ! j)) = ack_follows x (cn_pc (cs_cons s ! j))" if "j < length (cs_cons s)" for j x
    using that assms(2,3) by (cases "j = i") (auto simp: set_cons_def ack_follows_def)
  ultimately show ?thesis using assms(1) f by (simp add: system_inv_def)
qed

lemma request_inv:
  assumes "system_inv s"
  shows "system_inv (flush_request s)"
proof -
  have a: "\<not> acked (cs_req s + 1) (cs_acks s ! i) (cn_pc (cs_cons s ! i))" if i: "i < length (cs_cons s)" for i
  proof -
    have "cs_acks s ! i \<le> cs_req s" "pc_request (cn_pc (cs_cons s ! i)) \<le> cs_req s"
      using assms i by (auto simp: system_inv_def cons_ok_def)
    then show ?thesis by (auto simp: acked_def pc_request_def)
  qed
  have "flusher_ok (flush_request s) f" if "flusher_ok s f" for f
    using that by (intro quiet_flusher [of "flush_request s" s]) (auto simp: flush_request_def)
  moreover have "flusher_ok (flush_request s) (FlRing (cs_req s + 1) (cs_next s))"
    using a by (auto simp: flusher_ok_def promise_def flush_request_def)
  moreover have "cons_ok (flush_request s) c" if "cons_ok s c" for c
    using that by (simp add: cons_ok_def flush_request_def)
  moreover have "accounted (flush_request s) = accounted s" by (simp add: accounted_def flush_request_def)
  ultimately show ?thesis using assms by (auto simp: system_inv_def flush_request_def)
qed

text \<open>All acknowledgements are in: nothing accepted before the request is left on the way.\<close>

lemma all_acked_settled:
  assumes acc: "accounted s" and p: "promise s q m" and r: "\<forall>r < m. r \<notin> set (cs_ring s)"
    and a: "\<forall>j < length (cs_cons s). q \<le> cs_acks s ! j"
  shows "settled_below m s"
proof -
  have "r \<notin> pending c" if "r < m" "c \<in> set (cs_cons s)" for r c
    using that p a by (auto simp: in_set_conv_nth promise_def acked_def clear_below_def)
  then have "r \<notin> (\<Union>c \<in> set (cs_cons s). pending c)" if "r < m" for r using that by blast
  moreover have "m \<le> cs_next s" using p by (simp add: promise_def)
  then have "r \<in> set (cs_ring s) \<union> set (cs_evicted s) \<union> set (cs_submitted s) \<union> (\<Union>c \<in> set (cs_cons s). pending c)"
    if "r < m" for r
    using acc [unfolded accounted_def] that by (meson lessThan_iff less_le_trans subsetD)
  ultimately show ?thesis using r unfolding settled_below_def by (meson UnE UnI1 UnI2 lessThan_iff subsetI)
qed

lemma flusher_update_inv:
  assumes "system_inv s" "flusher_ok s f"
  shows "system_inv (s\<lparr>cs_flushers := (cs_flushers s)[k := f]\<rparr>)" (is "system_inv ?s")
proof -
  have "flusher_ok ?s g" if "flusher_ok s g" for g
    using that by (intro quiet_flusher [of ?s s]) auto
  then have "\<forall>g \<in> set ((cs_flushers s)[k := f]). flusher_ok ?s g"
    using assms set_update_subset_insert [of "cs_flushers s" k f] by (auto simp: system_inv_def)
  then show ?thesis using assms by (simp add: system_inv_def accounted_def cons_ok_def)
qed

lemma flusher_step_inv:
  assumes inv: "system_inv s" and k: "k < length (cs_flushers s)"
  shows "system_inv (flusher_step k s)"
proof -
  have ok: "flusher_ok s (cs_flushers s ! k)" using inv k by (simp add: system_inv_def)
  show ?thesis
  proof (cases "cs_flushers s ! k")
    case (FlRing q m)
    then show ?thesis using flusher_update_inv [OF inv, of "FlAck q m 0" k] ok inv
      by (simp add: flusher_step_def flusher_ok_def)
  next
    case (FlAck q m i)
    with ok have h: "promise s q m" "\<forall>r < m. r \<notin> set (cs_ring s)" "\<forall>j < i. j < length (cs_cons s) \<longrightarrow> q \<le> cs_acks s ! j"
      by (simp_all add: flusher_ok_def)
    have "i \<ge> length (cs_cons s) \<Longrightarrow> settled_below m s"
      using all_acked_settled [OF _ h(1,2)] h(3) inv by (simp add: system_inv_def)
    moreover have "\<not> cs_acks s ! i < q \<Longrightarrow> flusher_ok s (FlAck q m (i + 1))"
      using h by (auto simp: flusher_ok_def less_Suc_eq)
    ultimately show ?thesis using FlAck h(1)
      by (auto simp: flusher_step_def intro!: flusher_update_inv [OF inv] simp: flusher_ok_def)
  next
    case (FlDone m rc)
    then show ?thesis using inv by (simp add: flusher_step_def)
  qed
qed

lemma flags_inv:
  assumes "system_inv s"
  shows "system_inv (s\<lparr>cs_closed := True\<rparr>)" "cs_closed s \<Longrightarrow> system_inv (s\<lparr>cs_exit := True\<rparr>)" "system_inv (s\<lparr>cs_conf_batch := n\<rparr>)"
proof -
  have q: "flusher_ok (s\<lparr>cs_closed := True\<rparr>) f" "flusher_ok (s\<lparr>cs_exit := True\<rparr>) f" "flusher_ok (s\<lparr>cs_conf_batch := n\<rparr>) f"
    if "flusher_ok s f" for f
    using that by (auto intro!: quiet_flusher [where s = s])
  show "system_inv (s\<lparr>cs_closed := True\<rparr>)" "cs_closed s \<Longrightarrow> system_inv (s\<lparr>cs_exit := True\<rparr>)" "system_inv (s\<lparr>cs_conf_batch := n\<rparr>)"
    using assms q by (auto simp: system_inv_def accounted_def cons_ok_def)
qed

lemma perform_inv:
  assumes "system_inv s"
  shows "system_inv (consumer_perform a s)"
  using assms
  by (cases a) (auto simp: consumer_step_inv put_inv [folded Suc_eq_plus1] no_staging_inv request_inv flusher_step_inv flags_inv flusher_update_inv
      flusher_ok_def split: flusher.split)

lemma run_inv: "system_inv s \<Longrightarrow> system_inv (consumer_run acts s)"
  by (induction acts arbitrary: s) (simp_all add: consumer_run_def perform_inv)

section \<open>Flush and shutdown\<close>

text \<open>
  C8. Flush. Whatever the interleaving of producers, consumers, other callers, reloads and shutdown: when a
  call of \<^verbatim>\<open>hpu_consumer_flush\<close> returns success, every record the ring had accepted before the
  call has been delivered and the outputs flushed after it, unless the overwrite policy evicted it.
\<close>

theorem flush_covers_accepted:
  assumes "consumer_run acts (hpu_consumer_start count batch) = s" "FlDone m 0 \<in> set (cs_flushers s)" "r < m"
  shows "r \<in> set (cs_submitted s) \<or> r \<in> set (cs_evicted s)"
proof -
  have "system_inv s" using run_inv [OF init_inv] assms(1) by blast
  then have "flusher_ok s (FlDone m 0)" using assms(2) by (simp add: system_inv_def)
  then show ?thesis using assms(3) by (auto simp: flusher_ok_def settled_below_def)
qed

theorem flush_covers_accepted_witness:
  "let s = consumer_run ([ActPut 0, ActPut 0, ActRequest] @ replicate 9 (ActConsumer 0) @ replicate 8 (ActConsumer 1)
             @ replicate 9 (ActConsumer 0) @ [ActFlusher 0, ActFlusher 0, ActFlusher 0, ActFlusher 0]) (hpu_consumer_start 2 1)
   in cs_flushers s = [FlDone 2 0] \<and> (0 \<in> set (cs_submitted s) \<or> 0 \<in> set (cs_evicted s))"
proof -
  let ?s = "consumer_run ([ActPut 0, ActPut 0, ActRequest] @ replicate 9 (ActConsumer 0) @ replicate 8 (ActConsumer 1)
             @ replicate 9 (ActConsumer 0) @ [ActFlusher 0, ActFlusher 0, ActFlusher 0, ActFlusher 0]) (hpu_consumer_start 2 1)"
  have f: "cs_flushers ?s = [FlDone 2 0]"
    by (simp add: consumer_run_def hpu_consumer_start_def consumer_step_def set_cons_def flush_request_def flusher_step_def
        record_done_def submit_all_def idle_end_def Let_def numeral_eq_Suc)
  then show ?thesis using flush_covers_accepted [OF refl, of 2 "[ActPut 0, ActPut 0, ActRequest] @ replicate 9 (ActConsumer 0)
     @ replicate 8 (ActConsumer 1) @ replicate 9 (ActConsumer 0) @ [ActFlusher 0, ActFlusher 0, ActFlusher 0, ActFlusher 0]" 2 1 0]
    by (simp only: Let_def) simp
qed

text \<open>
  C9. Shutdown. When at least one consumer has ended and no other is still on its way, everything the ring
  ever accepted has been delivered and the outputs flushed, or was evicted.
\<close>

theorem shutdown_drains:
  assumes "consumer_run acts (hpu_consumer_start count batch) = s"
    and "\<forall>c \<in> set (cs_cons s). cn_pc c = CnExited \<or> cn_pc c = CnNoStaging" "\<exists>c \<in> set (cs_cons s). cn_pc c = CnExited"
    and "r < cs_next s"
  shows "r \<in> set (cs_submitted s) \<or> r \<in> set (cs_evicted s)"
proof -
  have inv: "system_inv s" using run_inv [OF init_inv] assms(1) by blast
  have "pending c = {}" if "c \<in> set (cs_cons s)" for c
    using that assms(2) inv by (auto simp: system_inv_def cons_ok_def pending_def submitted_pc_def)
  moreover have "cs_ring s = []" using assms(3) inv by (auto simp: system_inv_def cons_ok_def ended_pc_def)
  ultimately show ?thesis using inv assms(4) by (auto simp: system_inv_def accounted_def subset_iff)
qed

theorem shutdown_drains_witness:
  "let s = consumer_run ([ActConsumer 0, ActPut 0, ActClose, ActExit] @ replicate 8 (ActConsumer 0)) (hpu_consumer_start 1 64)
   in map cn_pc (cs_cons s) = [CnExited] \<and> cs_next s = 1 \<and> (0 \<in> set (cs_submitted s) \<or> 0 \<in> set (cs_evicted s))"
proof -
  let ?acts = "[ActConsumer 0, ActPut 0, ActClose, ActExit] @ replicate 8 (ActConsumer 0)"
  let ?s = "consumer_run ?acts (hpu_consumer_start 1 64)"
  have f: "cs_cons ?s = [\<lparr>cn_pc = CnExited, cn_processed = 0, cn_batch = 64, cn_delivered = []\<rparr>]" "cs_next ?s = 1"
    by (simp_all add: consumer_run_def hpu_consumer_start_def consumer_step_def set_cons_def
        submit_all_def idle_end_def Let_def numeral_eq_Suc)
  then show ?thesis using shutdown_drains [OF refl, of ?acts 1 64 0] by (simp only: Let_def) simp
qed

end
