(* ===== verification/FileSink.thy ===== *)
theory FileSink
  imports OutputCore RotateFiles
begin

text \<open>
  The rollingfile sink of \<^verbatim>\<open>src/output/output_file.c\<close>: the write buffer, the reopening after a
  failed write, rotation, the check for an external rotation, and the fsync policy; as an operations table
  for the output layer. The calls on the file system are logged with their outcomes, and the outcome of a
  call may depend on everything logged before it.
\<close>

section \<open>State\<close>

datatype file_event =
    FeHook int bool | FeOpen string nat int | FeClose int | FeWrite int string nat | FeSync int bool
  | FeMkdir string nat bool | FeRotate "fs_call list"

text \<open>
  The outside: the injection hook (whether it makes operation \<open>op\<close> fail; a build without a hook has
  one that never does), the platform's calls, the clock and the calendar. \<^verbatim>\<open>hpu_fs_write\<close> writes
  in a loop and may fail after some of the bytes: \<open>fe_write\<close> is the number of bytes it has written by then,
  and it succeeds when these are all.
\<close>

record file_env =
  fe_hook :: "file_event list \<Rightarrow> int \<Rightarrow> bool"
  fe_open :: "file_event list \<Rightarrow> string \<Rightarrow> nat \<Rightarrow> int"
  fe_size :: "file_event list \<Rightarrow> int \<Rightarrow> int"
  fe_fstat :: "file_event list \<Rightarrow> int \<Rightarrow> (nat \<times> nat) option"
  fe_stat :: "file_event list \<Rightarrow> string \<Rightarrow> (nat \<times> nat) option"
  fe_write :: "file_event list \<Rightarrow> int \<Rightarrow> string \<Rightarrow> nat"
  fe_sync :: "file_event list \<Rightarrow> int \<Rightarrow> bool"
  fe_mkdir :: "file_event list \<Rightarrow> string \<Rightarrow> nat \<Rightarrow> bool"
  fe_mutex_ok :: bool
  fe_realtime_ns :: int
  fe_mktime :: "hpu_tm \<Rightarrow> int"
  fe_rotate :: "file_event list \<Rightarrow> rotate_world"

text \<open>
  The private data. \<open>fp_iobuf\<close> is the used part of the buffer, \<open>fp_file_id\<close> is \<open>None\<close> when
  the identity is not known; the fsync severity, the calendar and the name of the common part, which the
  callbacks read and write, and the log are part of it.
\<close>

record hpu_file_priv =
  fp_mu_ready :: bool
  fp_path :: string
  fp_file_mode :: nat
  fp_dir_mode :: nat
  fp_rotate :: hpu_rotate_cfg
  fp_symlink_latest :: bool
  fp_fsync_key :: bool
  fp_fd :: int
  fp_file_size :: int
  fp_next_boundary :: int
  fp_file_id :: "(nat \<times> nat) option"
  fp_lines_since_check :: nat
  fp_last_fsync_ns :: nat
  fp_pending_lines :: nat
  fp_iobuf :: string
  fp_fsync_sev :: int
  fp_use_utc :: bool
  fp_name :: string
  fp_log :: "file_event list"

definition HPU_OUT_IO_BUF_SIZE :: nat where "HPU_OUT_IO_BUF_SIZE = 64 * 1024"
definition FLUSH_THRESHOLD :: nat where "FLUSH_THRESHOLD = 48 * 1024"
definition inode_check_every :: nat where "inode_check_every = 1024"
definition HPU_FSYNC_SEV_PERIODIC :: int where "HPU_FSYNC_SEV_PERIODIC = 2"
definition HPU_FSYNC_SEV_ENTRY :: int where "HPU_FSYNC_SEV_ENTRY = 3"

text \<open>The elapsed time between two readings of a 64-bit clock.\<close>

definition elapsed_ns :: "nat \<Rightarrow> nat \<Rightarrow> nat" where
  "elapsed_ns now past = nat ((int now - int past) mod 2 ^ 64)"

text \<open>Zeroed by the core; severity, calendar and name are what the core sets before the callbacks run.\<close>

definition file_priv0 :: "int \<Rightarrow> bool \<Rightarrow> string \<Rightarrow> hpu_file_priv" where
  "file_priv0 sev utc name =
     \<lparr>fp_mu_ready = False, fp_path = [], fp_file_mode = 0, fp_dir_mode = 0,
      fp_rotate = \<lparr>rc_enabled = False, rc_by_size = False, rc_by_time = False, rc_max_size = 0, rc_time_unit = HPULOGC_TU_HOUR,
                   rc_max_files = 0, rc_naming = []\<rparr>,
      fp_symlink_latest = False, fp_fsync_key = False, fp_fd = 0, fp_file_size = 0, fp_next_boundary = 0, fp_file_id = None,
      fp_lines_since_check = 0, fp_last_fsync_ns = 0, fp_pending_lines = 0, fp_iobuf = [], fp_fsync_sev = sev,
      fp_use_utc = utc, fp_name = name, fp_log = []\<rparr>"

section \<open>Opening and flushing\<close>

definition file_log :: "file_event \<Rightarrow> hpu_file_priv \<Rightarrow> hpu_file_priv" where
  "file_log e f = f\<lparr>fp_log := fp_log f @ [e]\<rparr>"

text \<open>The injection hook: whether it makes the operation fail.\<close>

definition io_fail_hook :: "file_env \<Rightarrow> int \<Rightarrow> hpu_file_priv \<Rightarrow> bool \<times> hpu_file_priv" where
  "io_fail_hook E op f = (let fails = fe_hook E (fp_log f) op in (fails, file_log (FeHook op fails) f))"

definition file_refresh_id_locked :: "file_env \<Rightarrow> hpu_file_priv \<Rightarrow> hpu_file_priv" where
  "file_refresh_id_locked E f =
     f\<lparr>fp_lines_since_check := 0, fp_file_id := (if fp_fd f < 0 then None else fe_fstat E (fp_log f) (fp_fd f))\<rparr>"

definition file_open_active :: "file_env \<Rightarrow> hpu_file_priv \<Rightarrow> int \<times> hpu_file_priv" where
  "file_open_active E f0 =
     (case io_fail_hook E 0 f0 of (fails, f) \<Rightarrow>
        if fails then (- 1, f)
        else let fd = fe_open E (fp_log f) (fp_path f) (fp_file_mode f); f1 = file_log (FeOpen (fp_path f) (fp_file_mode f) fd) f
        in if fd < 0 then (- 1, f1)
           else let sz = fe_size E (fp_log f1) fd
                in (0, file_refresh_id_locked E (f1\<lparr>fp_fd := fd, fp_file_size := (if sz < 0 then 0 else sz)\<rparr>)))"

text \<open>One call to write the bytes: it writes all of them, or fails after some.\<close>

definition file_write :: "file_env \<Rightarrow> string \<Rightarrow> hpu_file_priv \<Rightarrow> bool \<times> hpu_file_priv" where
  "file_write E data f =
     (let n = fe_write E (fp_log f) (fp_fd f) data; f1 = file_log (FeWrite (fp_fd f) data n) f; ok = (length data \<le> n)
      in (ok, if ok then f1\<lparr>fp_file_size := fp_file_size f1 + int (length data)\<rparr> else f1))"

text \<open>A write behind the injection hook.\<close>

definition hooked_write :: "file_env \<Rightarrow> string \<Rightarrow> hpu_file_priv \<Rightarrow> bool \<times> hpu_file_priv" where
  "hooked_write E data f =
     (case io_fail_hook E 1 f of (fails, f1) \<Rightarrow> if fails then (False, f1) else file_write E data f1)"

text \<open>The code, the state and the number of lines booked as failed.\<close>

definition file_flush_locked :: "file_env \<Rightarrow> hpu_file_priv \<Rightarrow> int \<times> hpu_file_priv \<times> nat" where
  "file_flush_locked E f0 =
     (if fp_iobuf f0 = [] then (0, f0, 0)
      else let data = fp_iobuf f0; lines = fp_pending_lines f0
      in case hooked_write E data (f0\<lparr>fp_iobuf := [], fp_pending_lines := 0\<rparr>) of (ok, f1) \<Rightarrow>
           if ok then (0, f1, 0)
           else case file_open_active E (file_log (FeClose (fp_fd f1)) f1\<lparr>fp_fd := - 1\<rparr>) of (rc, f2) \<Rightarrow>
             if rc \<noteq> 0 then (- 1, f2, lines)
             else case hooked_write E data f2 of (ok2, f3) \<Rightarrow>
               if ok2 then (0, f3, 0) else (- 1, f3, lines))"

section \<open>Emitting\<close>

text \<open>The next boundary of the time buckets. (A search in local time that never ends leaves the old one.)\<close>

definition file_next_boundary :: "file_env \<Rightarrow> int \<Rightarrow> hpu_file_priv \<Rightarrow> int" where
  "file_next_boundary E sec f =
     (case hpu_rotate_next_boundary (w_localtime (fe_rotate E (fp_log f))) (fe_mktime E) sec (rc_time_unit (fp_rotate f)) (fp_use_utc f) of
        Some b \<Rightarrow> b | None \<Rightarrow> fp_next_boundary f)"

definition file_needs_rotation :: "int \<Rightarrow> hpu_file_priv \<Rightarrow> bool" where
  "file_needs_rotation ts_sec f \<longleftrightarrow>
     rc_enabled (fp_rotate f) \<and>
     (rc_by_size (fp_rotate f) \<and> rc_max_size (fp_rotate f) > 0
        \<and> fp_file_size f + int (length (fp_iobuf f)) \<ge> int (rc_max_size (fp_rotate f))
      \<or> rc_by_time (fp_rotate f) \<and> fp_next_boundary f > 0 \<and> ts_sec \<ge> fp_next_boundary f)"

text \<open>Rotation before a line: the code, the state and the lines lost.\<close>

definition file_rotate :: "file_env \<Rightarrow> int \<Rightarrow> hpu_file_priv \<Rightarrow> int \<times> hpu_file_priv \<times> nat" where
  "file_rotate E ts_sec f0 =
     (case file_flush_locked E f0 of (rc, f, lost) \<Rightarrow>
        if rc \<noteq> 0 then (- 1, f, lost)
        else case hpu_rotate_file (fe_rotate E (fp_log f)) (fp_path f) (fp_fd f) (fp_rotate f) (fp_use_utc f) ts_sec
                    (fp_symlink_latest f) (fp_file_mode f) of (rc1, fd, sz, calls) \<Rightarrow>
             let f1 = file_log (FeRotate calls) (f\<lparr>fp_fd := fd, fp_file_size := sz\<rparr>)
             in if rc1 \<noteq> 0 then (- 1, f1, lost)
                else let f2 = (if rc_by_time (fp_rotate f1) then f1\<lparr>fp_next_boundary := file_next_boundary E ts_sec f1\<rparr> else f1)
                     in (0, file_refresh_id_locked E f2, lost))"

text \<open>The check for an external rotation, every 1024 lines.\<close>

definition file_check_identity :: "file_env \<Rightarrow> hpu_file_priv \<Rightarrow> int \<times> hpu_file_priv \<times> nat" where
  "file_check_identity E f0 =
     (let f = f0\<lparr>fp_lines_since_check := fp_lines_since_check f0 + 1\<rparr>
      in if fp_lines_since_check f < inode_check_every then (0, f, 0)
         else let f1 = f\<lparr>fp_lines_since_check := 0\<rparr>
         in case (if fp_file_id f1 \<noteq> None \<and> fp_fd f1 \<ge> 0 then fe_stat E (fp_log f1) (fp_path f1) else None) of
              None \<Rightarrow> (0, f1, 0)
            | Some path_id \<Rightarrow>
                if fp_file_id f1 = Some path_id then (0, f1, 0)
                else case file_flush_locked E f1 of (rc, f2, lost) \<Rightarrow>
                  if rc \<noteq> 0 then (- 1, f2, lost)
                  else case file_open_active E (file_log (FeClose (fp_fd f2)) f2\<lparr>fp_fd := - 1\<rparr>) of (rc1, f3) \<Rightarrow>
                    (if rc1 \<noteq> 0 then - 1 else 0, f3, lost))"

text \<open>The line goes into the buffer, or directly to the file when the buffer could never hold it.\<close>

definition file_store_line :: "file_env \<Rightarrow> string \<Rightarrow> hpu_file_priv \<Rightarrow> int \<times> hpu_file_priv \<times> nat" where
  "file_store_line E line f =
     (if length line > HPU_OUT_IO_BUF_SIZE then
        (case file_write E line f of (ok, f1) \<Rightarrow> (if ok then 0 else - 1, f1, 0))
      else
        let f1 = f\<lparr>fp_iobuf := fp_iobuf f @ line, fp_pending_lines := fp_pending_lines f + 1\<rparr>
        in if length (fp_iobuf f1) \<ge> FLUSH_THRESHOLD then
             (case file_flush_locked E f1 of (rc, f2, lost) \<Rightarrow> (if rc \<noteq> 0 then - 1 else 0, f2, lost))
           else if fp_fsync_sev f1 \<ge> HPU_FSYNC_SEV_ENTRY then
             (case file_flush_locked E f1 of (rc, f2, lost) \<Rightarrow>
                if rc \<noteq> 0 then (- 1, f2, lost)
                else if fp_fd f2 \<ge> 0 then
                  (let ok = fe_sync E (fp_log f2) (fp_fd f2)
                   in (if ok then 0 else - 1, file_log (FeSync (fp_fd f2) ok) f2, lost))
                else (0, f2, lost))
           else (0, f1, 0))"

text \<open>The steps before: the descriptor is open and the line fits after what is pending.\<close>

definition file_make_room :: "file_env \<Rightarrow> nat \<Rightarrow> hpu_file_priv \<Rightarrow> int \<times> hpu_file_priv \<times> nat" where
  "file_make_room E len f0 =
     (case (if fp_fd f0 < 0 then file_open_active E f0 else (0, f0)) of (rc, f) \<Rightarrow>
        if rc \<noteq> 0 then (- 1, f, 0)
        else if length (fp_iobuf f) + len > HPU_OUT_IO_BUF_SIZE then file_flush_locked E f
        else (0, f, 0))"

text \<open>A step that follows another when that one has succeeded; the lost lines add up.\<close>

definition file_then ::
  "int \<times> hpu_file_priv \<times> nat \<Rightarrow> (hpu_file_priv \<Rightarrow> int \<times> hpu_file_priv \<times> nat) \<Rightarrow> int \<times> hpu_file_priv \<times> nat" where
  "file_then r g = (case r of (rc, f, lost) \<Rightarrow>
     if rc \<noteq> 0 then (- 1, f, lost) else case g f of (rc1, f1, lost1) \<Rightarrow> (rc1, f1, lost + lost1))"

definition file_emit_one_locked :: "build_flags \<Rightarrow> file_env \<Rightarrow> hpu_file_priv \<Rightarrow> hpulogc_event \<Rightarrow> int \<times> hpu_file_priv \<times> nat" where
  "file_emit_one_locked B E f ev =
     (let ts_sec = c_div (ev_realtime_ns ev) 1000000000
      in file_then (file_then (file_then
           (if b_rotate B \<and> file_needs_rotation ts_sec f then file_rotate E ts_sec f else (0, f, 0))
           (file_check_identity E)) (file_make_room E (length (ev_line ev)))) (file_store_line E (ev_line ev)))"

definition file_emit :: "build_flags \<Rightarrow> file_env \<Rightarrow> hpu_file_priv \<Rightarrow> hpulogc_event \<Rightarrow> hpu_file_priv \<times> nat" where
  "file_emit B E f ev = (case file_emit_one_locked B E f ev of (rc, f1, lost) \<Rightarrow> (f1, if rc \<noteq> 0 then lost + 1 else lost))"

text \<open>The number of events that succeeded, the state and the lines booked as failed inside.\<close>

fun file_emit_batch :: "build_flags \<Rightarrow> file_env \<Rightarrow> hpu_file_priv \<Rightarrow> hpulogc_event list \<Rightarrow> int \<times> hpu_file_priv \<times> nat" where
  "file_emit_batch B E f [] = (0, f, 0)"
| "file_emit_batch B E f (ev # evs) =
     (case file_emit_one_locked B E f ev of (rc, f1, lost) \<Rightarrow>
        case file_emit_batch B E f1 evs of (n, f2, lost2) \<Rightarrow> (if rc = 0 then n + 1 else n, f2, lost + lost2))"

section \<open>Flush, sync, periodic, destroy\<close>

definition file_flush :: "file_env \<Rightarrow> hpu_file_priv \<Rightarrow> int \<times> hpu_file_priv \<times> nat" where
  "file_flush E f = file_flush_locked E f"

definition file_sync :: "file_env \<Rightarrow> hpu_file_priv \<Rightarrow> int \<times> hpu_file_priv \<times> nat" where
  "file_sync E f0 =
     (case file_flush_locked E f0 of (rc, f, lost) \<Rightarrow>
        if fp_fd f \<ge> 0 then
          (let ok = fe_sync E (fp_log f) (fp_fd f)
           in (if rc \<noteq> 0 \<or> \<not> ok then - 1 else 0, file_log (FeSync (fp_fd f) ok) f, lost))
        else (if rc \<noteq> 0 then - 1 else 0, f, lost))"

definition file_periodic :: "file_env \<Rightarrow> hpu_file_priv \<Rightarrow> nat \<Rightarrow> nat \<Rightarrow> int \<times> hpu_file_priv \<times> nat" where
  "file_periodic E f0 now_ns interval_ns =
     (if fp_fsync_sev f0 < HPU_FSYNC_SEV_PERIODIC then (0, f0, 0)
      else if fp_last_fsync_ns f0 = 0 then (0, f0\<lparr>fp_last_fsync_ns := now_ns\<rparr>, 0)
      else if elapsed_ns now_ns (fp_last_fsync_ns f0) \<ge> interval_ns then
        (case file_flush_locked E f0 of (rc, f, lost) \<Rightarrow>
           if rc = 0 \<and> fp_fd f \<ge> 0 then
             (let ok = fe_sync E (fp_log f) (fp_fd f)
              in (if ok then 0 else - 1, file_log (FeSync (fp_fd f) ok) f\<lparr>fp_last_fsync_ns := now_ns\<rparr>, lost))
           else (rc, f\<lparr>fp_last_fsync_ns := now_ns\<rparr>, lost))
      else (0, f0, 0))"

definition file_destroy :: "hpu_file_priv \<Rightarrow> hpu_file_priv" where
  "file_destroy f =
     (if fp_mu_ready f
      then (if fp_fd f \<ge> 0 then file_log (FeClose (fp_fd f)) f\<lparr>fp_fd := - 1\<rparr> else f)\<lparr>fp_mu_ready := False\<rparr>
      else f)"

section \<open>Configuration and start\<close>

text \<open>
  One key. A path longer than the buffer is refused; the modes are read as octal; any value of
  \<^verbatim>\<open>rotate\<close> other than \<^verbatim>\<open>none\<close> enables rotation.
\<close>

definition file_key_rotate :: "string \<Rightarrow> hpu_rotate_cfg \<Rightarrow> hpu_rotate_cfg" where
  "file_key_rotate v r = r\<lparr>rc_enabled := (v \<noteq> ''none''), rc_by_size := (v = ''size'' \<or> v = ''both''),
                          rc_by_time := (v = ''time'' \<or> v = ''both'')\<rparr>"

definition time_unit_of :: "string \<Rightarrow> time_unit option" where
  "time_unit_of v =
     (if v = ''hour'' then Some HPULOGC_TU_HOUR else if v = ''day'' then Some HPULOGC_TU_DAY
      else if v = ''week'' then Some HPULOGC_TU_WEEK else if v = ''month'' then Some HPULOGC_TU_MONTH else None)"

definition file_bool :: "string \<Rightarrow> bool option" where
  "file_bool v = (if v = ''true'' then Some True else if v = ''false'' then Some False else None)"

definition file_configure :: "hpu_file_priv \<Rightarrow> string \<Rightarrow> string option \<Rightarrow> int \<times> hpu_file_priv" where
  "file_configure f key val =
     (let rotate = (\<lambda>g. (0, f\<lparr>fp_rotate := g (fp_rotate f)\<rparr>)) in
      case val of None \<Rightarrow> (- 1, f)
      | Some v \<Rightarrow>
          if key = ''path'' then (if v = [] \<or> length v \<ge> HPULOGC_MAX_PATH_LEN then (- 1, f) else (0, f\<lparr>fp_path := v\<rparr>))
          else if key = ''file perms'' then (0, f\<lparr>fp_file_mode := nat (strtol 8 v mod 4096)\<rparr>)
          else if key = ''dir perms'' then (0, f\<lparr>fp_dir_mode := nat (strtol 8 v mod 4096)\<rparr>)
          else if key = ''rotate'' then rotate (file_key_rotate v)
          else if key = ''max size'' then
            (case hpu_parse_size_str v of None \<Rightarrow> (- 1, f) | Some sz \<Rightarrow> rotate (rc_max_size_update (\<lambda>_. sz)))
          else if key = ''time unit'' then
            (case time_unit_of v of None \<Rightarrow> (- 1, f) | Some u \<Rightarrow> rotate (rc_time_unit_update (\<lambda>_. u)))
          else if key = ''max files'' then
            (let n = strtol 10 v in if n < 0 \<or> n > 100000 then (- 1, f) else rotate (rc_max_files_update (\<lambda>_. n)))
          else if key = ''fsync'' then (case file_bool v of None \<Rightarrow> (- 1, f) | Some b \<Rightarrow> (0, f\<lparr>fp_fsync_key := b\<rparr>))
          else if key = ''symlink latest'' then
            (case file_bool v of None \<Rightarrow> (- 1, f) | Some b \<Rightarrow> (0, f\<lparr>fp_symlink_latest := b\<rparr>))
          else if key = ''rotate naming'' then
            (if length v \<ge> HPULOGC_MAX_FMT_LEN then (- 1, f) else rotate (rc_naming_update (\<lambda>_. v)))
          else (- 1, f))"

definition file_init :: "hpu_file_priv \<Rightarrow> int \<times> hpu_file_priv" where
  "file_init f =
     (if fp_path f = [] then (- 1, f)
      else (0, f\<lparr>fp_file_mode := (if fp_file_mode f = 0 then 420 else fp_file_mode f),
                 fp_dir_mode := (if fp_dir_mode f = 0 then 493 else fp_dir_mode f),
                 fp_rotate := (if rc_naming (fp_rotate f) = [] then (fp_rotate f)\<lparr>rc_naming := HPU_ROTATE_DEFAULT_NAMING\<rparr>
                               else fp_rotate f),
                 fp_fsync_sev := (if fp_fsync_key f then HPU_FSYNC_SEV_ENTRY else fp_fsync_sev f),
                 fp_name := (if fp_name f = [] then take (HPULOGC_MAX_NAME_LEN - 1) (fp_path f) else fp_name f)\<rparr>))"

definition file_start :: "build_flags \<Rightarrow> file_env \<Rightarrow> hpu_file_priv \<Rightarrow> int \<times> hpu_file_priv" where
  "file_start B E f0 =
     (case (case hpu_path_dirname (Some (fp_path f0)) HPULOGC_MAX_PATH_LEN of
              None \<Rightarrow> (True, f0)
            | Some dir \<Rightarrow>
                if dir = ''.'' then (True, f0)
                else let ok = fe_mkdir E (fp_log f0) dir (fp_dir_mode f0) in (ok, file_log (FeMkdir dir (fp_dir_mode f0) ok) f0)) of
        (dir_ok, f) \<Rightarrow>
        if \<not> dir_ok then (- 1, f)
        else if \<not> fe_mutex_ok E then (- 1, f)
        else case file_open_active E (f\<lparr>fp_mu_ready := True, fp_fd := - 1\<rparr>) of (rc, f1) \<Rightarrow>
          if rc \<noteq> 0 then (- 1, f1)
          else (0, if b_rotate B \<and> rc_by_time (fp_rotate f1)
                   then f1\<lparr>fp_next_boundary := file_next_boundary E (c_div (fe_realtime_ns E) 1000000000) f1\<rparr> else f1))"

text \<open>The operations table.\<close>

definition hpu_rollingfile_sink_ops :: "build_flags \<Rightarrow> file_env \<Rightarrow> int \<Rightarrow> bool \<Rightarrow> string \<Rightarrow> hpu_file_priv sink_ops" where
  "hpu_rollingfile_sink_ops B E sev utc name =
     \<lparr>so_type = Some ''rollingfile'', so_abi_version = HPULOGC_SINK_ABI_VERSION, so_cap_async = True,
      so_priv0 = file_priv0 sev utc name, so_configure = Some file_configure, so_init = Some file_init,
      so_start = Some (file_start B E), so_emit = Some (file_emit B E), so_emit_batch = Some (file_emit_batch B E),
      so_flush = Some (file_flush E), so_sync = Some (file_sync E), so_periodic = Some (file_periodic E),
      so_destroy = Some file_destroy, so_reserved = [False, False, False, False]\<rparr>"

end
