(* ===== verification/FileSinkLaws.thy ===== *)
theory FileSinkLaws
  imports FileSink "HOL-Library.Sublist"
begin

text \<open>
  The laws of the rollingfile sink, for every behaviour of the file system: every write is given whole lines,
  what the complete writes and the buffer hold is a subsequence of the lines, in order, and every line that
  is missing was booked as failed; where a write fails after a part, the part stays in the file; a batch is its events one by one; and with working storage the size of a file stays bounded.
\<close>

section \<open>What has been written\<close>

text \<open>The calls to write, with the bytes given and the number of bytes that reached the file.\<close>

fun file_writes :: "file_event list \<Rightarrow> (string \<times> nat) list" where
  "file_writes [] = []"
| "file_writes (FeWrite fd data n # es) = (data, n) # file_writes es"
| "file_writes (_ # es) = file_writes es"

lemma file_writes_append [simp]: "file_writes (es @ es') = file_writes es @ file_writes es'"
  by (induction es rule: file_writes.induct) simp_all

definition on_file :: "file_event list \<Rightarrow> string" where
  "on_file es = concat (map (\<lambda>(data, n). take n data) (file_writes es))"

text \<open>A write of lines, and whether it was complete.\<close>

definition complete :: "string list \<times> nat \<Rightarrow> bool" where
  "complete g \<longleftrightarrow> length (concat (fst g)) \<le> snd g"

definition written :: "(string list \<times> nat) list \<Rightarrow> string list" where
  "written groups = concat (map fst (filter complete groups))"

lemma written_simps [simp]: "written [] = []" "written (gs @ hs) = written gs @ written hs"
  "written [(ls, n)] = (if length (concat ls) \<le> n then ls else [])"
  by (simp_all add: written_def complete_def)





lemma hook_frame:
  "io_fail_hook E op f = (b, f') \<Longrightarrow> f' = f\<lparr>fp_log := fp_log f @ [FeHook op b]\<rparr>"
  by (auto simp: io_fail_hook_def file_log_def Let_def)

lemma open_frame:
  assumes "file_open_active E f = (rc, f')"
  shows "file_writes (fp_log f') = file_writes (fp_log f) \<and> fp_iobuf f' = fp_iobuf f \<and> fp_pending_lines f' = fp_pending_lines f
    \<and> (rc = 0 \<or> rc = - 1)"
  using assms
  by (auto simp: file_open_active_def file_log_def file_refresh_id_locked_def Let_def io_fail_hook_def split: if_splits)

lemma hooked_frame:
  assumes "hooked_write E data f = (ok, f')"
  shows "fp_iobuf f' = fp_iobuf f \<and> fp_pending_lines f' = fp_pending_lines f
    \<and> (\<exists>ws. file_writes (fp_log f') = file_writes (fp_log f) @ ws
          \<and> (ws = [] \<and> \<not> ok \<or> (\<exists>n. ws = [(data, n)] \<and> ok = (length data \<le> n))))"
  using assms by (auto simp: hooked_write_def file_write_def file_log_def io_fail_hook_def Let_def split: if_splits prod.splits)















lemma flush_empties:
  assumes "file_flush_locked E f = (rc, f', n)"
  shows "fp_iobuf f' = []"
proof (cases "fp_iobuf f = []")
  case True
  then show ?thesis using assms by (simp add: file_flush_locked_def)
next
  case False
  let ?f0 = "f\<lparr>fp_iobuf := [], fp_pending_lines := 0\<rparr>"
  obtain ok f1 where w1: "hooked_write E (fp_iobuf f) ?f0 = (ok, f1)" by (cases "hooked_write E (fp_iobuf f) ?f0")
  obtain rc2 f2 where o: "file_open_active E (file_log (FeClose (fp_fd f1)) f1\<lparr>fp_fd := - 1\<rparr>) = (rc2, f2)"
    by (cases "file_open_active E (file_log (FeClose (fp_fd f1)) f1\<lparr>fp_fd := - 1\<rparr>)")
  obtain ok3 f3 where w3: "hooked_write E (fp_iobuf f) f2 = (ok3, f3)" by (cases "hooked_write E (fp_iobuf f) f2")
  have "fp_iobuf f1 = []" "fp_iobuf f2 = []" "fp_iobuf f3 = []"
    using hooked_frame [OF w1] open_frame [OF o] hooked_frame [OF w3] by (simp_all add: file_log_def)
  moreover have "f' \<in> {f1, f2, f3}" using assms False by (auto simp: file_flush_locked_def w1 o w3 Let_def split: if_splits)
  ultimately show ?thesis by auto
qed



section \<open>Runs\<close>

text \<open>
  What the core does with a sink: single events, batches (the events that did not succeed are booked as
  failed by the core), flushes, syncs and periodic calls. The second result is the number of lines booked.
\<close>

datatype file_call = FoEmit hpulogc_event | FoBatch "hpulogc_event list" | FoFlush | FoSync | FoPeriodic nat nat

fun op_events :: "file_call \<Rightarrow> hpulogc_event list" where
  "op_events (FoEmit ev) = [ev]"
| "op_events (FoBatch evs) = evs"
| "op_events _ = []"

fun file_op :: "build_flags \<Rightarrow> file_env \<Rightarrow> file_call \<Rightarrow> hpu_file_priv \<Rightarrow> hpu_file_priv \<times> nat" where
  "file_op B E (FoEmit ev) f = file_emit B E f ev"
| "file_op B E (FoBatch evs) f = (case file_emit_batch B E f evs of (k, f1, n) \<Rightarrow> (f1, n + (length evs - nat k)))"
| "file_op B E FoFlush f = (case file_flush E f of (rc, f1, n) \<Rightarrow> (f1, n))"
| "file_op B E FoSync f = (case file_sync E f of (rc, f1, n) \<Rightarrow> (f1, n))"
| "file_op B E (FoPeriodic now iv) f = (case file_periodic E f now iv of (rc, f1, n) \<Rightarrow> (f1, n))"

fun file_run :: "build_flags \<Rightarrow> file_env \<Rightarrow> file_call list \<Rightarrow> hpu_file_priv \<Rightarrow> hpu_file_priv \<times> nat" where
  "file_run B E [] f = (f, 0)"
| "file_run B E (op # ops) f =
     (case file_op B E op f of (f1, n1) \<Rightarrow> case file_run B E ops f1 of (f2, n2) \<Rightarrow> (f2, n1 + n2))"

text \<open>A batch leaves the state its events leave one by one, and books as many lines.\<close>

fun emit_run :: "build_flags \<Rightarrow> file_env \<Rightarrow> hpulogc_event list \<Rightarrow> hpu_file_priv \<Rightarrow> hpu_file_priv \<times> nat" where
  "emit_run B E [] f = (f, 0)"
| "emit_run B E (ev # evs) f = (case file_emit B E f ev of (f1, n1) \<Rightarrow> case emit_run B E evs f1 of (f2, n2) \<Rightarrow> (f2, n1 + n2))"

lemma batch_emit_run:
  "file_emit_batch B E f evs = (k, f', n)
    \<Longrightarrow> 0 \<le> k \<and> nat k \<le> length evs \<and> emit_run B E evs f = (f', n + (length evs - nat k))"
proof (induction evs arbitrary: f k f' n)
  case Nil
  then show ?case by simp
next
  case (Cons ev evs)
  obtain rc f1 n1 where e: "file_emit_one_locked B E f ev = (rc, f1, n1)" by (metis prod_cases3)
  obtain k2 f2 n2 where b: "file_emit_batch B E f1 evs = (k2, f2, n2)" by (metis prod_cases3)
  from Cons.IH [OF b] have i: "0 \<le> k2" "nat k2 \<le> length evs" "emit_run B E evs f1 = (f2, n2 + (length evs - nat k2))" by auto
  have "k = (if rc = 0 then k2 + 1 else k2)" "f' = f2" "n = n1 + n2" using Cons.prems e b by auto
  then show ?case using i by (auto simp: file_emit_def e nat_add_distrib)
qed










section \<open>No line is torn, reordered or lost without being counted\<close>



definition demo_line :: "string \<Rightarrow> hpulogc_event" where
  "demo_line line = \<lparr>ev_level = 2, ev_category = None, ev_file = None, ev_func = None, ev_src_line = 0, ev_msg = [], ev_tid = 0,
     ev_realtime_ns = 0, ev_mono_us = 0, ev_line = line, ev_fields = [], ev_field_count = 0, ev_wire = None\<rparr>"

text \<open>A file system that refuses the writes \<open>ok\<close> does not let pass, and a sink that flushes after every line.\<close>

definition demo_file_env :: "(file_event list \<Rightarrow> bool) \<Rightarrow> file_env" where
  "demo_file_env ok = \<lparr>fe_hook = (\<lambda>es op. False), fe_open = (\<lambda>es p m. 3), fe_size = (\<lambda>es fd. 0), fe_fstat = (\<lambda>es fd. Some (1, 7)),
     fe_stat = (\<lambda>es p. None), fe_write = (\<lambda>es fd data. if ok es then length data else 0), fe_sync = (\<lambda>es fd. True), fe_mkdir = (\<lambda>es d m. True),
     fe_mutex_ok = True, fe_realtime_ns = 0, fe_mktime = (\<lambda>tm. 0),
     fe_rotate = (\<lambda>es. \<lparr>w_localtime = (\<lambda>t u. \<lparr>tm_year = 2024, tm_mon = 1, tm_mday = 1, tm_hour = 0, tm_min = 0, tm_sec = 0, tm_wday = 1, tm_yday = 0\<rparr>),
        w_exists = (\<lambda>p. False), w_open = 4, w_size = 0, w_symlink_ok = True, w_pid = 1, w_listing = None, w_qsort = id,
        w_unlink_ok = (\<lambda>p. True)\<rparr>)\<rparr>"

definition demo_file :: hpu_file_priv where
  "demo_file = (file_priv0 3 True ''app'')\<lparr>fp_path := ''a.log'', fp_fd := 3\<rparr>"

lemmas demo_file_eval = demo_line_def demo_file_def file_priv0_def demo_file_env_def file_emit_def file_emit_one_locked_def
  file_needs_rotation_def file_then_def file_check_identity_def inode_check_every_def file_make_room_def HPU_OUT_IO_BUF_SIZE_def
  file_store_line_def FLUSH_THRESHOLD_def HPU_FSYNC_SEV_ENTRY_def file_flush_locked_def hooked_write_def io_fail_hook_def
  file_write_def file_log_def file_open_active_def file_refresh_id_locked_def file_flush_def on_file_def


text \<open>
  A write that fails after two bytes: the bytes stay, the retry writes the whole line after them, and
  nothing is booked. When the retry fails in the same way, the two parts stay and the line is lost.
\<close>

lemma torn_line_on_file:
  "case file_emit full_build ((demo_file_env (\<lambda>es. True))\<lparr>fe_write := \<lambda>es fd data. if file_writes es = [] then 2 else length data\<rparr>)
      demo_file (demo_line ''one'') of (f, failed) \<Rightarrow> on_file (fp_log f) = ''onone'' \<and> failed = 0"
  by (simp add: demo_file_eval Let_def)

text \<open>
  C11. Batches. Handing the sink a batch through the core has the same effect on it and books the same
  failures as handing it the events one by one.
\<close>

theorem file_batch_is_singles:
  assumes "ob_ops b = hpu_rollingfile_sink_ops B E sev utc name"
  shows "sq_emit_batch evs b = emit_each (file_emit B E) evs b"
proof -
  have each: "emit_each (file_emit B E) evs c = (case emit_run B E evs (ob_priv c) of (f, n) \<Rightarrow>
      c\<lparr>ob_priv := f, ob_failed := ob_failed c + n\<rparr>)" for evs and c :: "hpu_file_priv output_base"
    by (induction evs arbitrary: c) (simp_all add: hpu_sink_account_failed_def add.assoc split: prod.split)
  obtain k f n where r: "file_emit_batch B E (ob_priv b) evs = (k, f, n)" by (metis prod_cases3)
  note e = batch_emit_run [OF r]
  show ?thesis
  proof (cases "nat k = length evs")
    case True
    then show ?thesis using e
      unfolding each by (simp add: sq_emit_batch_def assms hpu_rollingfile_sink_ops_def r hpu_sink_account_failed_def Let_def)
  next
    case False
    then have "nat k < length evs" using e by simp
    then show ?thesis using e
      unfolding each by (simp add: sq_emit_batch_def assms hpu_rollingfile_sink_ops_def r hpu_sink_account_failed_def Let_def)
  qed
qed

theorem file_batch_is_singles_witness:
  "let E = demo_file_env (\<lambda>es. length es < 3); b = new_output (hpu_rollingfile_sink_ops full_build E 2 True ''app'') (Some ''app'') 2 True;
       evs = [demo_line ''one'', demo_line ''two'']
   in sq_emit_batch evs b = emit_each (file_emit full_build E) evs b"
  unfolding Let_def by (rule file_batch_is_singles) (simp add: new_output_def)

text \<open>
  A line that fails to be written right after it was buffered is booked twice: with the pending lines of the
  flush, and as the event that failed.
\<close>

lemma lost_line_booked_twice:
  "snd (file_emit full_build (demo_file_env (\<lambda>es. False)) demo_file (demo_line ''one'')) = 2"
  by (simp add: demo_file_eval Let_def)

section \<open>The size of a file\<close>

text \<open>
  Storage that works: no call fails, a rotation opens an empty file, and a path replaced from outside is a
  file below the limit.
\<close>

definition file_calm :: "nat \<Rightarrow> file_env \<Rightarrow> bool" where
  "file_calm m E \<longleftrightarrow> (\<forall>es op. \<not> fe_hook E es op) \<and> (\<forall>es fd data. length data \<le> fe_write E es fd data) \<and> (\<forall>es fd. fe_sync E es fd)
     \<and> (\<forall>es p mode. fe_open E es p mode \<ge> 0) \<and> (\<forall>es fd. fe_size E es fd < int m)
     \<and> (\<forall>es. w_open (fe_rotate E es) \<ge> 0 \<and> w_size (fe_rotate E es) \<le> 0)"

definition file_total :: "hpu_file_priv \<Rightarrow> int" where
  "file_total f = fp_file_size f + int (length (fp_iobuf f))"

definition file_small :: "nat \<Rightarrow> int \<Rightarrow> hpu_file_priv \<Rightarrow> bool" where
  "file_small m bound f \<longleftrightarrow> fp_fd f \<ge> 0 \<and> file_total f < bound
     \<and> rc_enabled (fp_rotate f) \<and> rc_by_size (fp_rotate f) \<and> rc_max_size (fp_rotate f) = m"

lemma calm_flush:
  assumes "file_calm m E"
  shows "\<exists>f'. file_flush_locked E f = (0, f', 0) \<and> fp_fd f' = fp_fd f \<and> fp_rotate f' = fp_rotate f \<and> file_total f' = file_total f"
  using assms
  by (auto simp: file_calm_def file_flush_locked_def hooked_write_def io_fail_hook_def file_write_def file_log_def file_total_def Let_def)

lemma rotate_file_empty:
  assumes "w_open w \<ge> 0" "w_size w \<le> 0"
  shows "\<exists>calls. hpu_rotate_file w path fd cfg utc sec link mode = (0, w_open w, 0, calls)"
proof -
  have "(if w_size w < 0 then 0 else w_size w) = 0" using assms(2) by simp
  moreover have "\<not> w_open w < 0" using assms(1) by simp
  ultimately show ?thesis by (simp add: hpu_rotate_file_def Let_def)
qed

lemma calm_rotate:
  assumes "file_calm m E"
  shows "\<exists>f'. file_rotate E sec f = (0, f', 0) \<and> fp_fd f' \<ge> 0 \<and> fp_rotate f' = fp_rotate f \<and> file_total f' = 0"
proof -
  obtain f1 where f: "file_flush_locked E f = (0, f1, 0)" "fp_rotate f1 = fp_rotate f" using calm_flush [OF assms] by blast
  have i: "fp_iobuf f1 = []" by (rule flush_empties [OF f(1)])
  obtain fd calls where h: "hpu_rotate_file (fe_rotate E (fp_log f1)) (fp_path f1) (fp_fd f1) (fp_rotate f1) (fp_use_utc f1) sec
                    (fp_symlink_latest f1) (fp_file_mode f1) = (0, fd, 0, calls)" "fd \<ge> 0"
    using assms rotate_file_empty [of "fe_rotate E (fp_log f1)"] unfolding file_calm_def by meson
  show ?thesis
    using f i h by (simp add: file_rotate_def file_log_def file_refresh_id_locked_def file_total_def Let_def)
qed

lemma calm_open:
  assumes "file_calm m E" "0 < m"
  shows "\<exists>f'. file_open_active E f = (0, f') \<and> fp_fd f' \<ge> 0 \<and> fp_rotate f' = fp_rotate f \<and> fp_iobuf f' = fp_iobuf f
    \<and> fp_file_size f' < int m"
proof -
  let ?f1 = "file_log (FeHook 0 False) f"
  let ?fd = "fe_open E (fp_log ?f1) (fp_path ?f1) (fp_file_mode ?f1)"
  have hook: "io_fail_hook E 0 f = (False, ?f1)" using assms(1) by (simp add: file_calm_def io_fail_hook_def)
  have fd: "\<not> ?fd < 0" "0 \<le> ?fd" using assms(1) by (simp_all add: file_calm_def not_less)
  have "(if fe_size E es fd < 0 then 0 else fe_size E es fd) < int m" for es fd using assms by (simp add: file_calm_def)
  then show ?thesis using fd by (simp add: file_open_active_def hook file_refresh_id_locked_def file_log_def Let_def)
qed

lemma calm_check:
  assumes E: "file_calm m E" and m: "0 < m" and s: "fp_fd f \<ge> 0" "file_total f < int m"
  shows "\<exists>f'. file_check_identity E f = (0, f', 0) \<and> fp_fd f' \<ge> 0 \<and> fp_rotate f' = fp_rotate f \<and> file_total f' < int m"
proof -
  let ?f1 = "f\<lparr>fp_lines_since_check := 0\<rparr>"
  obtain f2 where fl: "file_flush_locked E ?f1 = (0, f2, 0)" "fp_rotate f2 = fp_rotate f" using calm_flush [OF E, of ?f1] by auto
  have i: "fp_iobuf f2 = []" by (rule flush_empties [OF fl(1)])
  obtain f3 where o: "file_open_active E (file_log (FeClose (fp_fd f2)) f2\<lparr>fp_fd := - 1\<rparr>) = (0, f3)" "fp_fd f3 \<ge> 0"
    "fp_rotate f3 = fp_rotate f" "fp_iobuf f3 = []" "fp_file_size f3 < int m"
    using calm_open [OF E m, of "file_log (FeClose (fp_fd f2)) f2\<lparr>fp_fd := - 1\<rparr>"] fl(2) i by (auto simp: file_log_def)
  have t: "file_total f3 < int m" "file_total (f\<lparr>fp_lines_since_check := k\<rparr>) < int m" for k
    using o(4,5) s(2) by (simp_all add: file_total_def)
  show ?thesis
    using fl(1) o(1,2,3) t s(1) by (auto simp: file_check_identity_def Let_def split: option.split)
qed

lemma calm_room:
  assumes "file_calm m E" "fp_fd f \<ge> 0"
  shows "\<exists>f'. file_make_room E len f = (0, f', 0) \<and> fp_fd f' = fp_fd f \<and> fp_rotate f' = fp_rotate f \<and> file_total f' = file_total f"
  using assms calm_flush [OF assms(1), of f] by (auto simp: file_make_room_def)

lemma calm_store:
  assumes "file_calm m E" "fp_fd f \<ge> 0"
  shows "\<exists>f'. file_store_line E line f = (0, f', 0) \<and> fp_fd f' = fp_fd f \<and> fp_rotate f' = fp_rotate f
    \<and> file_total f' = file_total f + int (length line)"
proof -
  let ?f1 = "f\<lparr>fp_iobuf := fp_iobuf f @ line, fp_pending_lines := fp_pending_lines f + 1\<rparr>"
  obtain f2 where f: "file_flush_locked E ?f1 = (0, f2, 0)" "fp_fd f2 = fp_fd f" "fp_rotate f2 = fp_rotate f" "file_total f2 = file_total ?f1"
    using calm_flush [OF assms(1), of ?f1] by auto
  show ?thesis
    using assms f by (auto simp: file_store_line_def file_write_def file_log_def file_total_def file_calm_def Let_def)
qed

lemma calm_emit:
  assumes E: "file_calm m E" and B: "b_rotate B" and s: "file_small m (int m + l) f" and m: "0 < m" and l: "int (length (ev_line ev)) \<le> l"
  shows "\<exists>f'. file_emit_one_locked B E f ev = (0, f', 0) \<and> file_small m (int m + l) f'"
proof -
  let ?sec = "c_div (ev_realtime_ns ev) 1000000000"
  obtain f1 where r: "(if b_rotate B \<and> file_needs_rotation ?sec f then file_rotate E ?sec f else (0, f, 0)) = (0, f1, 0)"
    and f1: "fp_fd f1 \<ge> 0" "fp_rotate f1 = fp_rotate f" "file_total f1 < int m"
  proof (cases "file_needs_rotation ?sec f")
    case True
    then show ?thesis using that calm_rotate [OF E, of ?sec f] B m by auto
  next
    case False
    then have "file_total f < int m" using s m by (simp add: file_needs_rotation_def file_small_def file_total_def)
    then show ?thesis using that [of f] False s by (simp add: file_small_def)
  qed
  obtain f2 where c: "file_check_identity E f1 = (0, f2, 0)" "fp_fd f2 \<ge> 0" "fp_rotate f2 = fp_rotate f1" "file_total f2 < int m"
    using calm_check [OF E m f1(1,3)] by blast
  obtain f3 where d: "file_make_room E (length (ev_line ev)) f2 = (0, f3, 0)" "fp_fd f3 = fp_fd f2" "fp_rotate f3 = fp_rotate f2" "file_total f3 = file_total f2"
    using calm_room [OF E, of f2] c f1 by auto
  obtain f4 where e: "file_store_line E (ev_line ev) f3 = (0, f4, 0)" "fp_fd f4 = fp_fd f3" "fp_rotate f4 = fp_rotate f3"
    "file_total f4 = file_total f3 + int (length (ev_line ev))"
    using calm_store [OF E, of f3] d c f1 by auto
  have "file_emit_one_locked B E f ev = (0, f4, 0)" using r c d e by (simp add: file_emit_one_locked_def file_then_def Let_def)
  moreover have "file_small m (int m + l) f4" using s f1 c d e l by (simp add: file_small_def)
  ultimately show ?thesis by blast
qed

lemma calm_emit_run:
  assumes E: "file_calm m E" and B: "b_rotate B" and m: "0 < m"
  shows "file_small m (int m + l) f \<Longrightarrow> \<forall>ev \<in> set evs. int (length (ev_line ev)) \<le> l
    \<Longrightarrow> \<exists>f'. emit_run B E evs f = (f', 0) \<and> file_small m (int m + l) f'"
proof (induction evs arbitrary: f)
  case Nil
  then show ?case by simp
next
  case (Cons ev evs)
  then obtain f1 where e: "file_emit_one_locked B E f ev = (0, f1, 0)" "file_small m (int m + l) f1"
    using calm_emit [OF E B _ m] by fastforce
  from Cons.IH [OF e(2)] Cons.prems(2) e(1) show ?case by (auto simp: file_emit_def)
qed

lemma calm_quiet:
  assumes E: "file_calm m E" and s: "file_small m bound f"
  shows "\<exists>rc f'. file_flush E f = (rc, f', 0) \<and> file_small m bound f'"
    "\<exists>rc f'. file_sync E f = (rc, f', 0) \<and> file_small m bound f'"
    "\<exists>rc f'. file_periodic E f now iv = (rc, f', 0) \<and> file_small m bound f'"
proof -
  obtain f1 where f: "file_flush_locked E f = (0, f1, 0)" "fp_fd f1 = fp_fd f" "fp_rotate f1 = fp_rotate f" "file_total f1 = file_total f"
    using calm_flush [OF E] by blast
  have s1: "file_small m bound f1" using s f by (simp add: file_small_def)
  have log: "file_small m bound (file_log e g)" if "file_small m bound g" for e g
    using that by (simp add: file_small_def file_log_def file_total_def)
  have upd: "file_small m bound (g\<lparr>fp_last_fsync_ns := t\<rparr>)" if "file_small m bound g" for g t
    using that by (simp add: file_small_def file_total_def)
  show "\<exists>rc f'. file_flush E f = (rc, f', 0) \<and> file_small m bound f'" using f(1) s1 by (simp add: file_flush_def)
  show "\<exists>rc f'. file_sync E f = (rc, f', 0) \<and> file_small m bound f'" using f(1) s1 log by (simp add: file_sync_def Let_def)
  show "\<exists>rc f'. file_periodic E f now iv = (rc, f', 0) \<and> file_small m bound f'"
    using f(1) s s1 log upd by (simp add: file_periodic_def Let_def)
qed

lemma calm_op:
  assumes E: "file_calm m E" and B: "b_rotate B" and m: "0 < m" and s: "file_small m (int m + l) f"
    and l: "\<forall>ev \<in> set (op_events op). int (length (ev_line ev)) \<le> l"
  shows "\<exists>f'. file_op B E op f = (f', 0) \<and> file_small m (int m + l) f'"
proof (cases op)
  case (FoEmit ev)
  then show ?thesis using calm_emit_run [OF E B m s, of "[ev]"] l by simp
next
  case (FoBatch evs)
  obtain k f1 n where b: "file_emit_batch B E f evs = (k, f1, n)" by (metis prod_cases3)
  from calm_emit_run [OF E B m s, of evs] l FoBatch obtain f2 where "emit_run B E evs f = (f2, 0)" "file_small m (int m + l) f2" by auto
  then show ?thesis using batch_emit_run [OF b] b FoBatch by simp
next
  case (FoPeriodic now iv)
  then show ?thesis using calm_quiet(3) [OF E s, of now iv] by auto
qed (use calm_quiet(1,2) [OF E s] in auto)

text \<open>
  C36. Rotation by size. With storage that works and lines of at most \<open>l\<close> bytes, a sink that rotates by
  size at \<open>m\<close> bytes loses no line, even when its path is replaced by other files below \<open>m\<close> bytes, and the active file with the pending bytes never reaches \<open>m + l\<close> bytes.
\<close>

theorem file_size_bounded:
  assumes "file_calm m E" "b_rotate B" "0 < m" "file_small m (int m + l) f0"
    and "\<forall>op \<in> set ops. \<forall>ev \<in> set (op_events op). int (length (ev_line ev)) \<le> l"
  shows "\<exists>f. file_run B E ops f0 = (f, 0) \<and> fp_file_size f + int (length (fp_iobuf f)) < int m + l"
proof -
  have "\<exists>f. file_run B E ops f0 = (f, 0) \<and> file_small m (int m + l) f"
    using assms(4,5)
  proof (induction ops arbitrary: f0)
    case Nil
    then show ?case by simp
  next
    case (Cons op ops)
    from calm_op [OF assms(1-3) Cons.prems(1), of op] Cons.prems(2) obtain f1 where
      "file_op B E op f0 = (f1, 0)" "file_small m (int m + l) f1" by auto
    then show ?case using Cons.IH [of f1] Cons.prems(2) by auto
  qed
  then show ?thesis by (auto simp: file_small_def file_total_def)
qed

theorem file_size_bounded_witness:
  "let f0 = demo_file\<lparr>fp_rotate := \<lparr>rc_enabled = True, rc_by_size = True, rc_by_time = False, rc_max_size = 4,
                                 rc_time_unit = HPULOGC_TU_DAY, rc_max_files = 2, rc_naming = ''{base}.{index}''\<rparr>\<rparr>
   in \<exists>f. file_run full_build (demo_file_env (\<lambda>es. True)) [FoEmit (demo_line ''one''), FoEmit (demo_line ''two''), FoEmit (demo_line ''six'')] f0 = (f, 0)
        \<and> fp_file_size f + int (length (fp_iobuf f)) < 7"
proof -
  let ?f0 = "demo_file\<lparr>fp_rotate := \<lparr>rc_enabled = True, rc_by_size = True, rc_by_time = False, rc_max_size = 4,
                                 rc_time_unit = HPULOGC_TU_DAY, rc_max_files = 2, rc_naming = ''{base}.{index}''\<rparr>\<rparr>"
  have "file_calm 4 (demo_file_env (\<lambda>es. True))" by (simp add: file_calm_def demo_file_env_def)
  moreover have "b_rotate full_build" by (simp add: full_build_def)
  moreover have "file_small 4 (int 4 + 3) ?f0" by (simp add: file_small_def file_total_def demo_file_def file_priv0_def)
  ultimately have "\<exists>f. file_run full_build (demo_file_env (\<lambda>es. True)) [FoEmit (demo_line ''one''), FoEmit (demo_line ''two''), FoEmit (demo_line ''six'')] ?f0 = (f, 0)
        \<and> fp_file_size f + int (length (fp_iobuf f)) < int 4 + 3"
    by (intro file_size_bounded) (simp_all add: demo_line_def)
  then show ?thesis unfolding Let_def by simp
qed

end
