(* ===== verification/ConsoleSink.thy ===== *)
theory ConsoleSink
  imports OutputCore
begin

text \<open>
  The console sink of \<^verbatim>\<open>src/output/output_console.c\<close> and the null sink of
  \<^verbatim>\<open>src/output/sink_null.c\<close>. A stream is the bytes it has taken and its error indicator, which
  stays set. Shown: merging the lines of a batch does not change what a working stream gets.
\<close>

section \<open>The stream\<close>

text \<open>
  The outside: how many bytes the stream takes of a write, the outcome of a flush, whether a descriptor
  is a terminal.
\<close>

record console_env =
  ce_takes :: "string \<Rightarrow> string \<Rightarrow> nat"
  ce_flush :: "string \<Rightarrow> bool"
  ce_isatty :: "int \<Rightarrow> bool"

record hpu_console_priv =
  cp_fd :: int
  cp_want_stderr :: bool
  cp_want_color :: bool
  cp_color :: bool
  cp_coalesce :: string
  cp_name :: string
  cp_out :: string
  cp_error :: bool

definition HPU_CONSOLE_COALESCE_CAP :: nat where "HPU_CONSOLE_COALESCE_CAP = 64 * 1024"

definition console_priv0 :: "string \<Rightarrow> hpu_console_priv" where
  "console_priv0 name = \<lparr>cp_fd = 0, cp_want_stderr = False, cp_want_color = False, cp_color = False, cp_coalesce = [],
     cp_name = name, cp_out = [], cp_error = False\<rparr>"

text \<open>A short write sets the error indicator.\<close>

definition console_fwrite :: "console_env \<Rightarrow> string \<Rightarrow> hpu_console_priv \<Rightarrow> hpu_console_priv" where
  "console_fwrite E data p =
     (let k = ce_takes E (cp_out p) data
      in p\<lparr>cp_out := cp_out p @ take k data, cp_error := (cp_error p \<or> k < length data)\<rparr>)"

section \<open>Events\<close>

definition ESC_CHAR :: char where "ESC_CHAR = CHR 0x1B"

definition g_level_colors :: "string list" where
  "g_level_colors = [ESC_CHAR # ''[90m'', ESC_CHAR # ''[36m'', ESC_CHAR # ''[32m'', ESC_CHAR # ''[33m'', ESC_CHAR # ''[31m'',
     ESC_CHAR # ''[1;31m'']"

definition g_color_reset :: string where "g_color_reset = ESC_CHAR # ''[0m''"

definition console_colored :: "build_flags \<Rightarrow> hpu_console_priv \<Rightarrow> hpulogc_event \<Rightarrow> bool" where
  "console_colored B p ev \<longleftrightarrow> b_color B \<and> cp_color p \<and> 0 \<le> ev_level ev \<and> ev_level ev \<le> 5"

text \<open>The three writes of a colored line; the indicator is not looked at afterwards in the single path.\<close>

definition console_write_colored :: "console_env \<Rightarrow> hpulogc_event \<Rightarrow> hpu_console_priv \<Rightarrow> hpu_console_priv" where
  "console_write_colored E ev p =
     console_fwrite E g_color_reset (console_fwrite E (ev_line ev) (console_fwrite E (g_level_colors ! nat (ev_level ev)) p))"

definition console_emit :: "build_flags \<Rightarrow> console_env \<Rightarrow> hpu_console_priv \<Rightarrow> hpulogc_event \<Rightarrow> hpu_console_priv \<times> nat" where
  "console_emit B E p ev =
     (if console_colored B p ev then (console_write_colored E ev p, 0)
      else let p1 = console_fwrite E (ev_line ev) p in (p1, if cp_error p1 then 1 else 0))"

definition console_flush :: "console_env \<Rightarrow> hpu_console_priv \<Rightarrow> int \<times> hpu_console_priv \<times> nat" where
  "console_flush E p = (if ce_flush E (cp_out p) then (0, p, 0) else (- 1, p\<lparr>cp_error := True\<rparr>, 0))"

section \<open>Batches\<close>

definition console_write_direct :: "build_flags \<Rightarrow> console_env \<Rightarrow> hpulogc_event \<Rightarrow> hpu_console_priv \<Rightarrow> int \<times> hpu_console_priv" where
  "console_write_direct B E ev p =
     (let p1 = (if console_colored B p ev then console_write_colored E ev p else console_fwrite E (ev_line ev) p)
      in (if cp_error p1 then - 1 else 0, p1))"

definition console_coalesce_flush :: "console_env \<Rightarrow> hpu_console_priv \<Rightarrow> int \<times> hpu_console_priv" where
  "console_coalesce_flush E p =
     (if cp_coalesce p \<noteq> [] then
        (let p1 = (console_fwrite E (cp_coalesce p) p)\<lparr>cp_coalesce := []\<rparr> in (if cp_error p1 then - 1 else 0, p1))
      else (0, p))"

definition console_event_text :: "build_flags \<Rightarrow> hpu_console_priv \<Rightarrow> hpulogc_event \<Rightarrow> string" where
  "console_event_text B p ev =
     (if console_colored B p ev then g_level_colors ! nat (ev_level ev) @ ev_line ev @ g_color_reset else ev_line ev)"

definition console_coalesce_append :: "build_flags \<Rightarrow> hpulogc_event \<Rightarrow> hpu_console_priv \<Rightarrow> hpu_console_priv" where
  "console_coalesce_append B ev p = p\<lparr>cp_coalesce := cp_coalesce p @ console_event_text B p ev\<rparr>"

definition console_event_size :: "build_flags \<Rightarrow> hpu_console_priv \<Rightarrow> hpulogc_event \<Rightarrow> nat" where
  "console_event_size B p ev =
     (if console_colored B p ev
      then length (g_level_colors ! nat (ev_level ev)) + length (ev_line ev) + length g_color_reset
      else length (ev_line ev))"

text \<open>The body of the loop for one event, and the loop, which ends at the first error.\<close>

definition console_batch_one :: "build_flags \<Rightarrow> console_env \<Rightarrow> hpulogc_event \<Rightarrow> hpu_console_priv \<Rightarrow> int \<times> hpu_console_priv" where
  "console_batch_one B E ev p =
     (let need = console_event_size B p ev
      in if need > HPU_CONSOLE_COALESCE_CAP then
           (case console_coalesce_flush E p of (err, p1) \<Rightarrow> if err = 0 then console_write_direct B E ev p1 else (err, p1))
         else case (if length (cp_coalesce p) + need > HPU_CONSOLE_COALESCE_CAP then console_coalesce_flush E p else (0, p)) of
           (err, p1) \<Rightarrow> (err, if err = 0 then console_coalesce_append B ev p1 else p1))"

fun console_batch_loop :: "build_flags \<Rightarrow> console_env \<Rightarrow> hpulogc_event list \<Rightarrow> hpu_console_priv \<Rightarrow> int \<times> hpu_console_priv" where
  "console_batch_loop B E [] p = (0, p)"
| "console_batch_loop B E (ev # evs) p =
     (case console_batch_one B E ev p of (err, p1) \<Rightarrow> if err = 0 then console_batch_loop B E evs p1 else (err, p1))"

definition console_emit_batch :: "build_flags \<Rightarrow> console_env \<Rightarrow> hpu_console_priv \<Rightarrow> hpulogc_event list \<Rightarrow> int \<times> hpu_console_priv \<times> nat" where
  "console_emit_batch B E p evs =
     (case console_batch_loop B E evs p of (err, p1) \<Rightarrow>
        case (if err = 0 then console_coalesce_flush E p1 else (err, p1)) of (err1, p2) \<Rightarrow>
          (if err1 \<noteq> 0 then 0 else int (length evs), p2, 0))"

section \<open>Configuration\<close>

definition console_configure :: "hpu_console_priv \<Rightarrow> string \<Rightarrow> string option \<Rightarrow> int \<times> hpu_console_priv" where
  "console_configure p key val =
     (if key = ''stream'' then
        (if val = None \<or> val = Some ''stdout'' then (0, p\<lparr>cp_want_stderr := False\<rparr>)
         else if val = Some ''stderr'' then (0, p\<lparr>cp_want_stderr := True\<rparr>)
         else (- 1, p))
      else if key = ''color'' then
        (if val = None \<or> val = Some ''true'' \<or> val = Some ''false''
         then (0, p\<lparr>cp_want_color := (val = Some ''true'')\<rparr>) else (- 1, p))
      else (- 1, p))"

definition console_init :: "build_flags \<Rightarrow> console_env \<Rightarrow> hpu_console_priv \<Rightarrow> int \<times> hpu_console_priv" where
  "console_init B E p =
     (let fd = (if cp_want_stderr p then 2 else 1)
      in (0, p\<lparr>cp_fd := fd,
             cp_name := (if cp_name p = [] then ''console_'' @ (if cp_want_stderr p then ''stderr'' else ''stdout'') else cp_name p),
             cp_color := (b_color B \<and> cp_want_color p \<and> ce_isatty E fd)\<rparr>))"

definition hpu_console_sink_ops :: "build_flags \<Rightarrow> console_env \<Rightarrow> string \<Rightarrow> hpu_console_priv sink_ops" where
  "hpu_console_sink_ops B E name =
     \<lparr>so_type = Some ''console'', so_abi_version = HPULOGC_SINK_ABI_VERSION, so_cap_async = True, so_priv0 = console_priv0 name,
      so_configure = Some console_configure, so_init = Some (console_init B E), so_start = None,
      so_emit = Some (console_emit B E), so_emit_batch = Some (console_emit_batch B E), so_flush = Some (console_flush E),
      so_sync = None, so_periodic = None, so_destroy = None, so_reserved = [False, False, False, False]\<rparr>"

section \<open>The null sink\<close>

definition null_emit :: "'p \<Rightarrow> hpulogc_event \<Rightarrow> 'p \<times> nat" where
  "null_emit p ev = (p, 0)"

definition null_emit_batch :: "'p \<Rightarrow> hpulogc_event list \<Rightarrow> int \<times> 'p \<times> nat" where
  "null_emit_batch p evs = (int (length evs), p, 0)"

definition hpu_null_sink_ops :: "'p \<Rightarrow> 'p sink_ops" where
  "hpu_null_sink_ops p =
     \<lparr>so_type = Some ''null'', so_abi_version = HPULOGC_SINK_ABI_VERSION, so_cap_async = True, so_priv0 = p, so_configure = None,
      so_init = None, so_start = None, so_emit = Some null_emit, so_emit_batch = Some null_emit_batch, so_flush = None,
      so_sync = None, so_periodic = None, so_destroy = None, so_reserved = [False, False, False, False]\<rparr>"

section \<open>Errors\<close>

text \<open>
  A plain line counts as failed whenever the indicator of the stream is set, so after one short write every
  later line does, written or not; a colored line never does in the single path.
\<close>

lemma error_sticks:
  assumes "cp_error p" "\<not> console_colored B p ev"
  shows "snd (console_emit B E p ev) = 1" "cp_error (fst (console_emit B E p ev))"
  using assms by (simp_all add: console_emit_def console_fwrite_def Let_def)

lemma colored_never_booked: "console_colored B p ev \<Longrightarrow> snd (console_emit B E p ev) = 0"
  by (simp add: console_emit_def)

section \<open>Merging does not show\<close>

definition stream_ok :: "console_env \<Rightarrow> bool" where
  "stream_ok E \<longleftrightarrow> (\<forall>out data. length data \<le> ce_takes E out data)"

lemma fwrite_ok [simp]:
  assumes "stream_ok E"
  shows "console_fwrite E data p = p\<lparr>cp_out := cp_out p @ data\<rparr>"
proof -
  have le: "length data \<le> ce_takes E (cp_out p) data" using assms by (simp add: stream_ok_def)
  then have "\<not> ce_takes E (cp_out p) data < length data" by simp
  with le show ?thesis by (cases p) (simp add: console_fwrite_def Let_def)
qed

text \<open>The bytes of an event do not depend on what has been written.\<close>

lemma colored_cong [simp]:
  "console_colored B (p\<lparr>cp_out := s\<rparr>) ev = console_colored B p ev" "console_colored B (p\<lparr>cp_coalesce := s\<rparr>) ev = console_colored B p ev"
  "console_event_text B (p\<lparr>cp_out := s\<rparr>) ev = console_event_text B p ev"
  "console_event_text B (p\<lparr>cp_coalesce := s\<rparr>) ev = console_event_text B p ev"
  by (simp_all add: console_colored_def console_event_text_def)

lemma emit_ok:
  assumes "stream_ok E" "\<not> cp_error p"
  shows "console_emit B E p ev = (p\<lparr>cp_out := cp_out p @ console_event_text B p ev\<rparr>, 0)"
  using assms by (simp add: console_emit_def console_write_colored_def console_event_text_def Let_def)

lemma coalesce_flush_ok:
  assumes "stream_ok E" "\<not> cp_error p"
  shows "console_coalesce_flush E p = (0, p\<lparr>cp_coalesce := [], cp_out := cp_out p @ cp_coalesce p\<rparr>)"
  using assms by (cases p) (simp add: console_coalesce_flush_def Let_def)

text \<open>What a sink is apart from the bytes, and the bytes it has been given.\<close>

definition console_frame :: "hpu_console_priv \<Rightarrow> hpu_console_priv" where
  "console_frame p = p\<lparr>cp_out := [], cp_coalesce := []\<rparr>"

definition console_given :: "hpu_console_priv \<Rightarrow> string" where
  "console_given p = cp_out p @ cp_coalesce p"

lemma frame_eqD:
  assumes "console_frame p = console_frame q"
  shows "cp_error p = cp_error q" "console_event_text B p = console_event_text B q"
    "cp_out p = cp_out q \<Longrightarrow> cp_coalesce p = cp_coalesce q \<Longrightarrow> p = q"
  using assms by (cases p; cases q; fastforce simp: console_frame_def console_event_text_def console_colored_def)+

text \<open>Once its buffer is written, a sink is its frame and the bytes it was given.\<close>

lemma settle_given:
  assumes "console_frame q = console_frame p" "console_given q = console_given p @ s" "cp_coalesce p = []"
  shows "q\<lparr>cp_coalesce := [], cp_out := cp_out q @ cp_coalesce q\<rparr> = p\<lparr>cp_out := cp_out p @ s\<rparr>"
  using assms by (cases p; cases q) (simp add: console_frame_def console_given_def)

lemma batch_one_ok:
  assumes "stream_ok E" "\<not> cp_error p"
  shows "\<exists>q. console_batch_one B E ev p = (0, q) \<and> console_frame q = console_frame p
    \<and> console_given q = console_given p @ console_event_text B p ev"
proof -
  have w: "console_write_direct B E ev (p\<lparr>cp_coalesce := [], cp_out := s\<rparr>)
      = (0, p\<lparr>cp_coalesce := [], cp_out := s @ console_event_text B p ev\<rparr>)" for s
    using assms by (simp add: console_write_direct_def console_write_colored_def console_event_text_def Let_def)
  show ?thesis
    using assms w
    by (cases p) (auto simp: console_batch_one_def coalesce_flush_ok console_coalesce_append_def console_frame_def console_given_def
        console_event_text_def console_colored_def Let_def)
qed

lemma batch_loop_ok:
  assumes "stream_ok E"
  shows "\<not> cp_error p \<Longrightarrow> \<exists>q. console_batch_loop B E evs p = (0, q) \<and> console_frame q = console_frame p
    \<and> console_given q = console_given p @ concat (map (console_event_text B p) evs)"
proof (induction evs arbitrary: p)
  case Nil
  then show ?case by simp
next
  case (Cons ev evs)
  obtain q where o: "console_batch_one B E ev p = (0, q)" "console_frame q = console_frame p"
    "console_given q = console_given p @ console_event_text B p ev" using batch_one_ok [OF assms Cons.prems] by blast
  note f = frame_eqD [OF o(2)]
  from Cons.IH [of q] Cons.prems f(1) o f(2) [of B] show ?case by auto
qed

text \<open>
  C37. Merged batches. On a stream that takes all bytes, a batch leaves the sink and the stream exactly as
  its events leave them one by one, whatever the sizes of the lines and whether or not they are colored,
  and all events succeed.
\<close>

theorem console_batch_is_singles:
  assumes "ob_ops b = hpu_console_sink_ops B E name" "stream_ok E" "\<not> cp_error (ob_priv b)" "cp_coalesce (ob_priv b) = []"
  shows "sq_emit_batch evs b = emit_each (console_emit B E) evs b \<and> ob_failed (sq_emit_batch evs b) = ob_failed b"
proof -
  have each: "emit_each (console_emit B E) evs c
      = c\<lparr>ob_priv := (ob_priv c)\<lparr>cp_out := cp_out (ob_priv c) @ concat (map (console_event_text B (ob_priv c)) evs)\<rparr>\<rparr>"
    if "\<not> cp_error (ob_priv c)" for evs and c :: "hpu_console_priv output_base"
    using that
  proof (induction evs arbitrary: c)
    case Nil
    then show ?case by simp
  next
    case (Cons ev evs)
    have "console_event_text B (p\<lparr>cp_out := s\<rparr>) = console_event_text B p" for p s by (rule ext) simp
    then show ?case using Cons emit_ok [OF assms(2)] by (simp add: hpu_sink_account_failed_def)
  qed
  let ?p = "ob_priv b"
  obtain q where l: "console_batch_loop B E evs ?p = (0, q)" "console_frame q = console_frame ?p"
    "console_given q = console_given ?p @ concat (map (console_event_text B ?p) evs)"
    using batch_loop_ok [OF assms(2,3), of B evs] by blast
  have err: "\<not> cp_error q" using frame_eqD(1) [OF l(2)] assms(3) by simp
  let ?q = "q\<lparr>cp_coalesce := [], cp_out := cp_out q @ cp_coalesce q\<rparr>"
  have "?q = ?p\<lparr>cp_out := cp_out ?p @ concat (map (console_event_text B ?p) evs)\<rparr>"
    by (rule settle_given [OF l(2,3) assms(4)])
  moreover have "console_emit_batch B E ?p evs = (int (length evs), ?q, 0)"
    by (simp add: console_emit_batch_def l(1) coalesce_flush_ok [OF assms(2) err])
  ultimately have batch: "console_emit_batch B E ?p evs
      = (int (length evs), ?p\<lparr>cp_out := cp_out ?p @ concat (map (console_event_text B ?p) evs)\<rparr>, 0)" by (simp only:)
  have op: "so_emit_batch (ob_ops b) = Some (console_emit_batch B E)" by (simp add: assms(1) hpu_console_sink_ops_def)
  show ?thesis
    by (simp only: each [OF assms(3)]) (simp add: sq_emit_batch_def op batch hpu_sink_account_failed_def del: fwrite_ok)
qed

theorem console_batch_is_singles_witness:
  "\<forall>ev. let E = \<lparr>ce_takes = (\<lambda>out data. length data), ce_flush = (\<lambda>out. True), ce_isatty = (\<lambda>fd. fd = 2)\<rparr>;
        b = new_output (hpu_console_sink_ops full_build E ''err'') (Some ''err'') 0 True
    in sq_emit_batch [ev, ev] b = emit_each (console_emit full_build E) [ev, ev] b \<and> ob_failed (sq_emit_batch [ev, ev] b) = ob_failed b"
  unfolding Let_def
  by (intro allI console_batch_is_singles [where name = "''err''"]) (simp_all add: new_output_def hpu_console_sink_ops_def stream_ok_def console_priv0_def)

end
