(* ===== verification/RingLockFree.thy ===== *)
theory RingLockFree
  imports RingLocked
begin

text \<open>
  The lock-free ring (\<^verbatim>\<open>src/ring/ringbuf_lockfree.c\<close>). Nothing is atomic here but a single load, store
  or compare-and-swap on the cursors and on the commit word of a record, so a call is a thread with a
  program counter that takes one such access per step; the plain accesses between two of them belong to one
  step. A system is a ring with any number of calls in progress, interleaved in any order. Memory is
  sequentially consistent.
\<close>

section \<open>The ring\<close>

datatype hpu_ring_mode = HPU_RING_MODE_SPSC | HPU_RING_MODE_MPSC | HPU_RING_MODE_MPMC

record lf_ring =
  lf_capacity :: nat
  lf_buf :: "byte list"
  lf_policy :: overflow_policy
  lf_mode :: hpu_ring_mode
  lf_enq :: nat
  lf_deq :: nat
  lf_dropped :: nat
  lf_overwritten :: nat
  lf_closed :: bool
  lf_consumer_waiting :: nat
  lf_kicks :: nat

definition lf_enq_contended :: "lf_ring \<Rightarrow> bool" where
  "lf_enq_contended r \<longleftrightarrow> lf_mode r \<noteq> HPU_RING_MODE_SPSC"

definition lf_deq_contended :: "lf_ring \<Rightarrow> bool" where
  "lf_deq_contended r \<longleftrightarrow> lf_mode r = HPU_RING_MODE_MPMC \<or> (lf_policy r = RB_POL_OVERWRITE \<and> lf_mode r = HPU_RING_MODE_SPSC)"

text \<open>\<open>mem\<close> is what \<^verbatim>\<open>malloc\<close> leaves in the buffer. Overwriting is for a single producer and consumer.\<close>

definition lf_ring_create :: "(nat \<Rightarrow> byte) \<Rightarrow> bool \<Rightarrow> nat \<Rightarrow> overflow_policy \<Rightarrow> hpu_ring_mode \<Rightarrow> lf_ring option" where
  "lf_ring_create mem alloc_ok capacity_bytes pol md =
     (if capacity_bytes < META_SIZE * 2 then None
      else if \<not> alloc_ok then None
      else Some \<lparr>lf_capacity = align8 capacity_bytes, lf_buf = map mem [0..<align8 capacity_bytes],
                 lf_policy = (if pol = RB_POL_OVERWRITE \<and> md \<noteq> HPU_RING_MODE_SPSC then RB_POL_DISCARD else pol), lf_mode = md,
                 lf_enq = 0, lf_deq = 0, lf_dropped = 0, lf_overwritten = 0, lf_closed = False, lf_consumer_waiting = 0,
                 lf_kicks = 0\<rparr>)"

text \<open>The memory at a position, and its first word, which is the commit word of a record that starts there.\<close>

definition lf_at :: "lf_ring \<Rightarrow> nat \<Rightarrow> byte list" where
  "lf_at r pos = drop (pos mod lf_capacity r) (lf_buf r)"

definition lf_word :: "lf_ring \<Rightarrow> nat \<Rightarrow> nat" where
  "lf_word r pos = le_dec (bslice (pos mod lf_capacity r) 8 (lf_buf r))"

definition lf_store_word :: "nat \<Rightarrow> nat \<Rightarrow> lf_ring \<Rightarrow> lf_ring" where
  "lf_store_word pos w r = r\<lparr>lf_buf := splice_at (pos mod lf_capacity r) (le_enc 8 w) (lf_buf r)\<rparr>"

text \<open>The header behind the commit word, and the strings of a record.\<close>

definition lf_write_body :: "nat \<Rightarrow> byte list \<Rightarrow> lf_ring \<Rightarrow> lf_ring" where
  "lf_write_body pos img r = r\<lparr>lf_buf := splice_at (pos mod lf_capacity r + 8) (drop 8 img) (lf_buf r)\<rparr>"

definition lf_kick :: "lf_ring \<Rightarrow> lf_ring" where
  "lf_kick r = (if lf_consumer_waiting r \<noteq> 0 then r\<lparr>lf_kicks := lf_kicks r + 1\<rparr> else r)"

definition lf_ring_close :: "lf_ring \<Rightarrow> lf_ring" where
  "lf_ring_close r = lf_kick (r\<lparr>lf_closed := True\<rparr>)"

definition lf_ring_used :: "lf_ring \<Rightarrow> nat" where
  "lf_ring_used r = lf_enq r - lf_deq r"

definition lf_ring_capacity :: "lf_ring \<Rightarrow> nat" where
  "lf_ring_capacity r = lf_capacity r"

definition lf_ring_counters :: "lf_ring \<Rightarrow> nat \<times> nat" where
  "lf_ring_counters r = (lf_dropped r, lf_overwritten r)"

section \<open>A put\<close>

text \<open>
  The points of \<^verbatim>\<open>hpu_ring_put\<close> between two atomic accesses: before the load of the closed flag, of the
  reservation cursor, of the consume cursor for the space check and again for its refresh; in
  \<^verbatim>\<open>lf_overwrite_make_space\<close> before its load, its store and its swap; before the drop is counted; before
  the reservation; before the three parts of the write; before the kick.
\<close>

datatype put_pc =
    PcClosed | PcEnq | PcSpace | PcRefresh | PcMakeSpace | PcInvalidate nat nat | PcFree nat nat | PcDrop | PcReserve
  | PcClear | PcBody | PcCommit | PcKick | PcPutDone int

record putter =
  pt_pc :: put_pc
  pt_msg :: hpu_ring_msg
  pt_total :: nat
  pt_pos :: nat
  pt_len :: nat
  pt_pad :: bool

definition put_call :: "hpu_ring_msg \<Rightarrow> putter" where
  "put_call msg = \<lparr>pt_pc = PcClosed, pt_msg = msg, pt_total = record_len msg, pt_pos = 0, pt_len = 0, pt_pad = False\<rparr>"

text \<open>What is written at the reserved position: a pad, or the record.\<close>

definition put_image :: "putter \<Rightarrow> byte list" where
  "put_image p = (if pt_pad p then encode_meta (pad_meta (pt_len p)) else encode_meta (fill_meta (pt_msg p) (pt_len p)) @ payload (pt_msg p))"

text \<open>
  The position is read; the bytes to reserve there are a pad to the boundary when the record does not fit,
  else the record, extended to the boundary when less than a header would be left. The length of the record
  stays extended in later rounds.
\<close>

definition put_plan :: "lf_ring \<Rightarrow> putter \<Rightarrow> putter" where
  "put_plan r p =
     (let pos = lf_enq r; off_mod = pos mod lf_capacity r; min_pad = align8 META_SIZE; rest = (lf_capacity r - off_mod) mod 2 ^ 32
      in if off_mod + pt_total p > lf_capacity r then p\<lparr>pt_pc := PcSpace, pt_pos := pos, pt_len := rest, pt_pad := True\<rparr>
         else let tot = (if off_mod + pt_total p + min_pad > lf_capacity r then rest else pt_total p)
         in p\<lparr>pt_pc := PcSpace, pt_total := tot, pt_pos := pos, pt_len := tot, pt_pad := False\<rparr>)"

definition lacks_space :: "lf_ring \<Rightarrow> putter \<Rightarrow> bool" where
  "lacks_space r p \<longleftrightarrow> pt_pos p + pt_len p > lf_deq r + lf_capacity r"

text \<open>One round of the loop that frees space, up to its store into the oldest record.\<close>

definition make_space_step :: "lf_ring \<Rightarrow> putter \<Rightarrow> putter" where
  "make_space_step r p =
     (if lf_policy r \<noteq> RB_POL_OVERWRITE \<or> lf_mode r \<noteq> HPU_RING_MODE_SPSC then p\<lparr>pt_pc := PcDrop\<rparr>
      else if \<not> lacks_space r p then p\<lparr>pt_pc := (if pt_pad p then PcReserve else PcEnq)\<rparr>
      else let old_total = unat (total_len (decode_meta (lf_at r (lf_deq r))))
      in if old_total < META_SIZE \<or> old_total > lf_capacity r then p\<lparr>pt_pc := PcDrop\<rparr>
         else p\<lparr>pt_pc := PcInvalidate (lf_deq r) old_total\<rparr>)"

definition put_step :: "lf_ring \<Rightarrow> putter \<Rightarrow> lf_ring \<times> putter" where
  "put_step r p =
     (let goto = (\<lambda>pc. p\<lparr>pt_pc := pc\<rparr>) in
      case pt_pc p of
        PcClosed \<Rightarrow> (r, goto (if lf_closed r then PcDrop else PcEnq))
      | PcEnq \<Rightarrow> (r, put_plan r p)
      | PcSpace \<Rightarrow> (r, goto (if lacks_space r p then PcRefresh else PcReserve))
      | PcRefresh \<Rightarrow> (r, goto (if lacks_space r p then PcMakeSpace else PcReserve))
      | PcMakeSpace \<Rightarrow> (r, make_space_step r p)
      | PcInvalidate d old_total \<Rightarrow> (lf_store_word d 0 r, goto (PcFree d old_total))
      | PcFree d old_total \<Rightarrow>
          (if lf_deq r = d
           then r\<lparr>lf_deq := d + old_total,
                  lf_overwritten := lf_overwritten r + (if is_pad (decode_meta (lf_at r d)) then 0 else 1)\<rparr>
           else r, goto PcMakeSpace)
      | PcDrop \<Rightarrow> (r\<lparr>lf_dropped := lf_dropped r + 1\<rparr>, goto (PcPutDone HPU_RING_DROPPED))
      | PcReserve \<Rightarrow>
          (if \<not> lf_enq_contended r \<or> lf_enq r = pt_pos p then (r\<lparr>lf_enq := pt_pos p + pt_len p\<rparr>, goto PcClear)
           else (r, goto PcEnq))
      | PcClear \<Rightarrow> (lf_store_word (pt_pos p) 0 r, goto PcBody)
      | PcBody \<Rightarrow> (lf_write_body (pt_pos p) (put_image p) r, goto PcCommit)
      | PcCommit \<Rightarrow> (lf_store_word (pt_pos p) (pt_pos p + 1) r, goto (if pt_pad p then PcEnq else PcKick))
      | PcKick \<Rightarrow> (lf_kick r, goto (PcPutDone HPU_RING_OK))
      | PcPutDone rc \<Rightarrow> (r, p))"

section \<open>A get\<close>

text \<open>
  The points of \<^verbatim>\<open>hpu_ring_get\<close>: before the loads of the two cursors; in \<^verbatim>\<open>lf_wait_commit\<close> before
  the freshness check and the load of the commit word; before the second freshness check and the claim;
  before the header is read, a lease is given back, the record is copied, the commit word is read again and
  the cursor is advanced; when the ring was seen empty, before and in \<^verbatim>\<open>lf_wait\<close>.
\<close>

datatype get_pc =
    GcDeq | GcEnq | GcFresh | GcWord | GcFreshAgain | GcClaim | GcHead | GcRelease | GcCopy | GcRecheck | GcAdvance bool
  | GcIdle | GcWait | GcParked | GcGetDone int "hpu_ring_view option"

record getter =
  gt_pc :: get_pc
  gt_staging :: "nat option"
  gt_poll :: bool
  gt_d :: nat
  gt_total :: nat
  gt_view :: "hpu_ring_view option"

definition get_call :: "nat option \<Rightarrow> nat \<Rightarrow> getter" where
  "get_call staging timeout_ms =
     \<lparr>gt_pc = GcDeq, gt_staging = staging, gt_poll = (timeout_ms = 0), gt_d = 0, gt_total = 0, gt_view = None\<rparr>"

text \<open>The view into the ring itself: file and function are never NULL.\<close>

definition lf_view_from_ring :: "byte list \<Rightarrow> hpu_ring_view" where
  "lf_view_from_ring bs =
     (let v = read_view bs; some = (\<lambda>x. case x of None \<Rightarrow> Some [] | Some s \<Rightarrow> Some s)
      in v\<lparr>v_file := some (v_file v), v_func := some (v_func v)\<rparr>)"

text \<open>After the header is read: skip a pad, give up, or copy.\<close>

definition get_head :: "lf_ring \<Rightarrow> getter \<Rightarrow> getter" where
  "get_head r g =
     (let m = decode_meta (lf_at r (gt_d g)); tot = unat (total_len m); mpmc = (lf_mode r = HPU_RING_MODE_MPMC)
      in if tot < META_SIZE \<or> tot > lf_capacity r then
           (if mpmc then g\<lparr>gt_total := align8 META_SIZE, gt_pc := GcAdvance False\<rparr> else g\<lparr>gt_pc := GcDeq\<rparr>)
         else if is_pad m then g\<lparr>gt_total := tot, gt_pc := GcAdvance False\<rparr>
         else if (case gt_staging g of None \<Rightarrow> mpmc | Some n \<Rightarrow> n < tot) then g\<lparr>gt_pc := (if mpmc then GcRelease else GcDeq)\<rparr>
         else g\<lparr>gt_total := tot, gt_pc := GcCopy\<rparr>)"

definition get_copy :: "lf_ring \<Rightarrow> getter \<Rightarrow> getter" where
  "get_copy r g =
     g\<lparr>gt_view := Some (case gt_staging g of
                         Some n \<Rightarrow> read_view (take (gt_total g) (lf_at r (gt_d g)))
                       | None \<Rightarrow> lf_view_from_ring (lf_at r (gt_d g))),
       gt_pc := (if lf_mode r = HPU_RING_MODE_MPMC \<or> gt_staging g = None then GcAdvance True else GcRecheck)\<rparr>"

text \<open>\<^verbatim>\<open>lf_advance_deq\<close>: the ring and whether the cursor was advanced.\<close>

definition lf_advance_deq :: "lf_ring \<Rightarrow> nat \<Rightarrow> nat \<Rightarrow> lf_ring \<times> bool" where
  "lf_advance_deq r d tot =
     (if lf_deq_contended r then (if lf_deq r = d then (r\<lparr>lf_deq := d + tot\<rparr>, True) else (r, False))
      else (r\<lparr>lf_deq := d + tot\<rparr>, True))"

text \<open>\<open>late\<close>: the clock, where a step reads it, has reached the deadline.\<close>

definition get_step :: "bool \<Rightarrow> lf_ring \<Rightarrow> getter \<Rightarrow> lf_ring \<times> getter" where
  "get_step late r g =
     (let goto = (\<lambda>pc. g\<lparr>gt_pc := pc\<rparr>); d = gt_d g; mpmc = (lf_mode r = HPU_RING_MODE_MPMC) in
      case gt_pc g of
        GcDeq \<Rightarrow> (r, g\<lparr>gt_d := lf_deq r, gt_pc := GcEnq\<rparr>)
      | GcEnq \<Rightarrow> (r, goto (if d < lf_enq r then GcFresh else GcIdle))
      | GcFresh \<Rightarrow> (r, goto (if lf_deq r \<noteq> d then GcDeq else GcWord))
      | GcWord \<Rightarrow>
          (r, goto (if lf_word r d = d + 1 then (if mpmc then GcFreshAgain else GcHead)
                    else if lf_word r d > d + 1 then GcDeq
                    else if late then GcGetDone HPU_RING_EMPTY None else GcFresh))
      | GcFreshAgain \<Rightarrow> (r, goto (if lf_deq r \<noteq> d then GcDeq else GcClaim))
      | GcClaim \<Rightarrow> (if lf_word r d = d + 1 then (lf_store_word d (d + 2) r, goto GcHead) else (r, goto GcDeq))
      | GcHead \<Rightarrow> (r, get_head r g)
      | GcRelease \<Rightarrow> (lf_store_word d (d + 1) r, goto GcDeq)
      | GcCopy \<Rightarrow> (r, get_copy r g)
      | GcRecheck \<Rightarrow> (r, goto (if lf_word r d \<noteq> d + 1 then GcDeq else GcAdvance True))
      | GcAdvance deliver \<Rightarrow>
          (case lf_advance_deq r d (gt_total g) of (r1, ok) \<Rightarrow>
             (r1, goto (if deliver \<and> (mpmc \<or> ok) then GcGetDone HPU_RING_OK (gt_view g) else GcDeq)))
      | GcIdle \<Rightarrow> (r, goto (if lf_closed r \<or> gt_poll g \<or> late then GcGetDone HPU_RING_EMPTY None else GcWait))
      | GcWait \<Rightarrow> (r\<lparr>lf_consumer_waiting := lf_consumer_waiting r + 1\<rparr>, goto GcParked)
      | GcParked \<Rightarrow> (r\<lparr>lf_consumer_waiting := lf_consumer_waiting r - 1\<rparr>, goto GcDeq)
      | GcGetDone rc v \<Rightarrow> (r, g))"

section \<open>A system\<close>

text \<open>
  The ring, the calls, and two auxiliary lists no call reads: the number of the put with its message in the
  order the bytes were reserved, and the number of the get with its view in the order the cursor was
  advanced over the records.
\<close>

record lf_system =
  ls_ring :: lf_ring
  ls_putters :: "putter list"
  ls_getters :: "getter list"
  ls_reserved :: "(nat \<times> hpu_ring_msg) list"
  ls_taken :: "(nat \<times> hpu_ring_view) list"

datatype lf_act = LfPut hpu_ring_msg | LfPutStep nat | LfGet "nat option" nat | LfGetStep nat bool | LfClose | LfKick

fun put_over :: "put_pc \<Rightarrow> bool" where
  "put_over (PcPutDone rc) = True" | "put_over _ = False"

fun get_over :: "get_pc \<Rightarrow> bool" where
  "get_over (GcGetDone rc v) = True" | "get_over _ = False"

text \<open>
  A build for one producer starts a put only when the earlier ones have ended, a build for one consumer a
  get only when the earlier ones have.
\<close>

definition may_put :: "lf_system \<Rightarrow> bool" where
  "may_put s \<longleftrightarrow> lf_mode (ls_ring s) = HPU_RING_MODE_SPSC \<longrightarrow> (\<forall>p \<in> set (ls_putters s). put_over (pt_pc p))"

definition may_get :: "lf_system \<Rightarrow> bool" where
  "may_get s \<longleftrightarrow> lf_mode (ls_ring s) \<noteq> HPU_RING_MODE_MPMC \<longrightarrow> (\<forall>g \<in> set (ls_getters s). get_over (gt_pc g))"

text \<open>The records a step reserves and takes.\<close>

definition newly_reserved :: "nat \<Rightarrow> lf_ring \<Rightarrow> putter \<Rightarrow> (nat \<times> hpu_ring_msg) list" where
  "newly_reserved i r p = (if pt_pc p = PcReserve \<and> pt_pc (snd (put_step r p)) = PcClear \<and> \<not> pt_pad p then [(i, pt_msg p)] else [])"

definition newly_taken :: "nat \<Rightarrow> lf_ring \<Rightarrow> getter \<Rightarrow> (nat \<times> hpu_ring_view) list" where
  "newly_taken j r g =
     (if gt_pc g = GcAdvance True \<and> snd (lf_advance_deq r (gt_d g) (gt_total g))
      then (case gt_view g of None \<Rightarrow> [] | Some v \<Rightarrow> [(j, v)]) else [])"

fun lf_perform :: "lf_act \<Rightarrow> lf_system \<Rightarrow> lf_system" where
  "lf_perform (LfPut msg) s = (if may_put s then s\<lparr>ls_putters := ls_putters s @ [put_call msg]\<rparr> else s)"
| "lf_perform (LfPutStep i) s =
     (if i < length (ls_putters s) then
        let p = ls_putters s ! i
        in case put_step (ls_ring s) p of (r1, p1) \<Rightarrow>
             s\<lparr>ls_ring := r1, ls_putters := (ls_putters s)[i := p1], ls_reserved := ls_reserved s @ newly_reserved i (ls_ring s) p\<rparr>
      else s)"
| "lf_perform (LfGet staging timeout_ms) s = (if may_get s then s\<lparr>ls_getters := ls_getters s @ [get_call staging timeout_ms]\<rparr> else s)"
| "lf_perform (LfGetStep j late) s =
     (if j < length (ls_getters s) then
        let g = ls_getters s ! j
        in case get_step late (ls_ring s) g of (r1, g1) \<Rightarrow>
             s\<lparr>ls_ring := r1, ls_getters := (ls_getters s)[j := g1], ls_taken := ls_taken s @ newly_taken j (ls_ring s) g\<rparr>
      else s)"
| "lf_perform LfClose s = s\<lparr>ls_ring := lf_ring_close (ls_ring s)\<rparr>"
| "lf_perform LfKick s = s\<lparr>ls_ring := lf_kick (ls_ring s)\<rparr>"

definition lf_system0 :: "lf_ring \<Rightarrow> lf_system" where
  "lf_system0 r = \<lparr>ls_ring = r, ls_putters = [], ls_getters = [], ls_reserved = [], ls_taken = []\<rparr>"

definition lf_run :: "lf_act list \<Rightarrow> lf_system \<Rightarrow> lf_system" where
  "lf_run acts s = foldl (\<lambda>s a. lf_perform a s) s acts"

end
