(* ===== verification/RingLockFreeInv.thy ===== *)
theory RingLockFreeInv
  imports RingLockFree RingLockedLaws
begin

text \<open>
  The invariant of the lock-free ring, on the segments between the two cursors. Each is pending (reserved,
  perhaps partly written), written, live (committed) or leased to a consumer. No word of the ring that is
  not the commit word of a live segment reads as the marker of its place; that needs words of that form to
  be absent from the messages and from the fresh memory, and the ring is not safe without.
\<close>

section \<open>Words and markers\<close>

lemma char_of_low: "char_of (of_char c + 256 * n :: nat) = c"
proof -
  have "(of_char c + 256 * n) mod 256 = (of_char c :: nat)" by simp
  then show ?thesis by (metis char_of_char char_of_mod_256)
qed

lemma le_enc_dec [simp]: "length bs = k \<Longrightarrow> le_enc k (le_dec bs) = bs"
  by (induction bs arbitrary: k) (auto simp: char_of_low)

lemma le_dec_mod8:
  assumes "bs \<noteq> []"
  shows "le_dec bs mod 8 = of_char (hd bs) mod 8"
proof -
  obtain c cs where bs: "bs = c # cs" using assms by (cases bs) auto
  have "(of_char c + 256 * le_dec cs) mod 8 = (of_char c + 8 * (32 * le_dec cs)) mod (8 :: nat)" by simp
  also have "\<dots> = of_char c mod 8" by (rule mod_mult_self2)
  finally show ?thesis by (simp add: bs)
qed

text \<open>
  A message without a marker-like word: thread, times, line and the first length do not leave the remainder
  1 modulo 8, nor does any byte of the payload at a multiple of 8.
\<close>

definition byte_plain :: "byte \<Rightarrow> bool" where
  "byte_plain b \<longleftrightarrow> of_char b mod 8 \<noteq> (1 :: nat)"

definition msg_plain :: "hpu_ring_msg \<Rightarrow> bool" where
  "msg_plain msg \<longleftrightarrow> unat (g_tid msg) mod 8 \<noteq> 1 \<and> unat (g_realtime_ns msg) mod 8 \<noteq> 1 \<and> unat (g_mono_us msg) mod 8 \<noteq> 1
     \<and> unat (g_line msg) mod 8 \<noteq> 1 \<and> length (g_category msg) mod 8 \<noteq> 1
     \<and> (\<forall>k. 8 * k < length (payload msg) \<longrightarrow> byte_plain (payload msg ! (8 * k)))"

fun seg_plain :: "seg \<Rightarrow> bool" where
  "seg_plain (SPad n) = True" | "seg_plain (SRec m n) = msg_plain m"

lemma byte_plain_enc: "byte_plain (char_of (n :: nat)) \<longleftrightarrow> n mod 8 \<noteq> 1"
proof -
  have "(n mod 256) mod 8 = n mod 8" by (rule mod_mod_cancel) simp
  then show ?thesis by (simp add: byte_plain_def)
qed

lemma le_enc_nth0 [simp]: "0 < k \<Longrightarrow> le_enc k n ! 0 = char_of n"
  by (cases k) auto

lemma meta_words:
  assumes "0 < k" "8 * k < META_SIZE"
  shows "encode_meta m ! (8 * k) = char_of (if k = 1 then unat (m_tid m) else if k = 2 then unat (m_realtime_ns m)
    else if k = 3 then unat (m_mono_us m) else if k = 4 then unat (total_len m) else if k = 5 then unat (m_line m)
    else unat (category_len m))"
proof -
  have "k = 1 \<or> k = 2 \<or> k = 3 \<or> k = 4 \<or> k = 5 \<or> k = 6" using assms by (auto simp: META_SIZE_def)
  then show ?thesis by (elim disjE) (simp_all add: encode_meta_def nth_append)
qed

lemma image_plain:
  assumes "seg_ok s" "seg_plain s" "0 < k" "8 * k < length (seg_image s)"
  shows "byte_plain (seg_image s ! (8 * k))"
proof (cases "8 * k < META_SIZE")
  case True
  have t: "unat (total_len (seg_meta s)) mod 8 \<noteq> 1"
    using assms(1) seg_ok_len [OF assms(1)] by (simp add: seg_meta_facts)
  have "seg_image s ! (8 * k) = encode_meta (seg_meta s) ! (8 * k)" using True by (cases s) (simp_all add: nth_append)
  moreover have "byte_plain (encode_meta (seg_meta s) ! (8 * k))"
    unfolding meta_words [OF assms(3) True] byte_plain_enc
    using t assms(1,2)
    by (cases s) (auto simp: fill_meta_def pad_meta_def msg_plain_def msg_ok_def unat_of_nat_less)
  ultimately show ?thesis by simp
next
  case False
  then obtain m n where s: "s = SRec m n" using assms(4) by (cases s) simp_all
  have "8 * k - META_SIZE = 8 * (k - 7)" by (simp add: META_SIZE_def)
  then have "seg_image s ! (8 * k) = payload m ! (8 * (k - 7))" "8 * (k - 7) < length (payload m)"
    using False assms(4) s by (auto simp: nth_append META_SIZE_def)
  then show ?thesis using assms(2) s by (simp add: msg_plain_def)
qed

section \<open>Segments between the cursors\<close>

datatype lf_phase = Pending | Written | Live | Leased

type_synonym entry = "nat \<times> seg \<times> lf_phase"

fun tiles :: "nat \<Rightarrow> nat \<Rightarrow> entry list \<Rightarrow> nat \<Rightarrow> bool" where
  "tiles cap p [] e \<longleftrightarrow> p = e"
| "tiles cap p ((q, s, ph) # L) e \<longleftrightarrow> q = p \<and> seg_ok s \<and> seg_plain s \<and> p mod cap + seg_len s \<le> cap
     \<and> gap_ok cap (p + seg_len s) \<and> tiles cap (p + seg_len s) L e"

definition set_phase :: "nat \<Rightarrow> lf_phase \<Rightarrow> entry list \<Rightarrow> entry list" where
  "set_phase q ph' L = map (\<lambda>(p, s, ph). (p, s, if p = q then ph' else ph)) L"

lemma tiles_set_phase [simp]: "tiles cap p (set_phase q ph L) e = tiles cap p L e"
  unfolding set_phase_def by (induction cap p L e rule: tiles.induct) auto

lemma set_phase_iff:
  "x \<in> set (set_phase q ph' L) \<longleftrightarrow> (\<exists>p s ph. x = (p, s, if p = q then ph' else ph) \<and> (p, s, ph) \<in> set L)"
  by (force simp: set_phase_def)

lemma tiles_le: "tiles cap p L e \<Longrightarrow> p \<le> e"
  by (induction cap p L e rule: tiles.induct) auto

lemma tiles_bounds:
  "tiles cap p L e \<Longrightarrow> (q, s, ph) \<in> set L \<Longrightarrow> p \<le> q \<and> q + seg_len s \<le> e
    \<and> seg_ok s \<and> seg_plain s \<and> q mod cap + seg_len s \<le> cap \<and> (8 dvd p \<longrightarrow> 8 dvd q)"
proof (induction cap p L e rule: tiles.induct)
  case (2 cap p q' s' ph' L e)
  then have t: "tiles cap (p + seg_len s') L e" and h: "q' = p" "seg_ok s'" "seg_plain s'" "p mod cap + seg_len s' \<le> cap" by auto
  note le = tiles_le [OF t] and d = seg_ok_len [OF h(2)]
  show ?case
  proof (cases "(q, s, ph) = (q', s', ph')")
    case True
    then show ?thesis using h le by simp
  next
    case False
    then have "(q, s, ph) \<in> set L" using 2(3) by auto
    from 2(1) [OF t this] d show ?thesis by auto
  qed
qed simp

lemma tiles_apart:
  "tiles cap p L e \<Longrightarrow> (q, s, ph) \<in> set L \<Longrightarrow> (q', s', ph') \<in> set L \<Longrightarrow>
    (q, s, ph) = (q', s', ph') \<or> q + seg_len s \<le> q' \<or> q' + seg_len s' \<le> q"
proof (induction cap p L e rule: tiles.induct)
  case (2 cap p q0 s0 ph0 L e)
  then have t: "tiles cap (p + seg_len s0) L e" "q0 = p" by auto
  from tiles_bounds [OF t(1)] have "p + seg_len s0 \<le> q1" if "(q1, s1, ph1) \<in> set L" for q1 s1 ph1 using that by blast
  with 2 t show ?case by auto
qed simp

lemma tiles_snoc:
  "tiles cap p L e \<Longrightarrow> seg_ok s \<Longrightarrow> seg_plain s \<Longrightarrow> e mod cap + seg_len s \<le> cap \<Longrightarrow> gap_ok cap (e + seg_len s)
    \<Longrightarrow> tiles cap p (L @ [(e, s, ph)]) (e + seg_len s)"
  by (induction cap p L e rule: tiles.induct) auto

lemma tiles_end: "tiles cap p L e \<Longrightarrow> gap_ok cap p \<Longrightarrow> 8 dvd p \<Longrightarrow> gap_ok cap e \<and> 8 dvd e"
proof (induction cap p L e rule: tiles.induct)
  case (2 cap p q s ph L e)
  then show ?case using seg_ok_len [of s] by auto
qed simp

section \<open>The invariant of the ring\<close>

definition lf_shape :: "lf_ring \<Rightarrow> bool" where
  "lf_shape r \<longleftrightarrow> length (lf_buf r) = lf_capacity r \<and> 8 dvd lf_capacity r \<and> 2 * META_SIZE \<le> lf_capacity r \<and> lf_capacity r < 2 ^ 32
     \<and> \<not> (lf_policy r = RB_POL_OVERWRITE \<and> lf_mode r = HPU_RING_MODE_SPSC)
     \<and> 8 dvd lf_deq r \<and> gap_ok (lf_capacity r) (lf_deq r) \<and> lf_enq r \<le> lf_deq r + lf_capacity r \<and> lf_enq r < 2 ^ 64 - 1"

text \<open>What the memory holds of a segment.\<close>

definition body_in :: "lf_ring \<Rightarrow> nat \<Rightarrow> seg \<Rightarrow> bool" where
  "body_in r p s \<longleftrightarrow> bslice (p mod lf_capacity r + 8) (length (seg_image s) - 8) (lf_buf r) = drop 8 (seg_image s)"

fun entry_in :: "lf_ring \<Rightarrow> entry \<Rightarrow> bool" where
  "entry_in r (p, s, ph) \<longleftrightarrow> (ph \<noteq> Pending \<longrightarrow> body_in r p s) \<and> (ph = Live \<longrightarrow> lf_word r p = p + 1)
     \<and> (ph = Leased \<longrightarrow> lf_word r p = p + 2)"

text \<open>
  A word that reads as the marker of a position belongs to a live segment there, or, where a single consumer
  leaves the markers behind, to a segment it has passed.
\<close>

definition marks_ok :: "lf_ring \<Rightarrow> entry list \<Rightarrow> bool" where
  "marks_ok r L \<longleftrightarrow> (\<forall>q. 8 dvd q \<and> lf_word r q = q + 1 \<longrightarrow>
     (\<exists>s. (q, s, Live) \<in> set L) \<or> (q < lf_deq r \<and> lf_mode r \<noteq> HPU_RING_MODE_MPMC))"

definition lf_inv :: "lf_ring \<Rightarrow> entry list \<Rightarrow> bool" where
  "lf_inv r L \<longleftrightarrow> lf_shape r \<and> tiles (lf_capacity r) (lf_deq r) L (lf_enq r) \<and> (\<forall>e \<in> set L. entry_in r e) \<and> marks_ok r L"

lemma lf_invD:
  assumes "lf_inv r L"
  shows "lf_shape r" "tiles (lf_capacity r) (lf_deq r) L (lf_enq r)" "marks_ok r L" "\<And>e. e \<in> set L \<Longrightarrow> entry_in r e"
  using assms by (auto simp: lf_inv_def)

lemma lf_inv_entry:
  assumes "lf_inv r L" "(q, s, ph) \<in> set L"
  shows "lf_deq r \<le> q" "q + seg_len s \<le> lf_enq r" "seg_ok s" "seg_plain s" "q mod lf_capacity r + seg_len s \<le> lf_capacity r" "8 dvd q"
    "META_SIZE \<le> seg_len s" "length (seg_image s) \<le> seg_len s" "q + 2 < 2 ^ 64"
proof -
  note b = tiles_bounds [OF lf_invD(2) [OF assms(1)] assms(2)] and sh = lf_invD(1) [OF assms(1)]
  then show "lf_deq r \<le> q" "q + seg_len s \<le> lf_enq r" "seg_ok s" "seg_plain s" "q mod lf_capacity r + seg_len s \<le> lf_capacity r" "8 dvd q"
    by (auto simp: lf_shape_def)
  then show "META_SIZE \<le> seg_len s" "length (seg_image s) \<le> seg_len s" using seg_ok_len seg_image_len by auto
  then show "q + 2 < 2 ^ 64" using sh b by (auto simp: lf_shape_def META_SIZE_def)
qed

lemma entry_unique:
  assumes "lf_inv r L" "(q, s, ph) \<in> set L" "(q, s', ph') \<in> set L"
  shows "s' = s" "ph' = ph"
proof -
  have "0 < seg_len s" "0 < seg_len s'" using lf_inv_entry(7) [OF assms(1)] assms(2,3) by (fastforce simp: META_SIZE_def)+
  with tiles_apart [OF lf_invD(2) [OF assms(1)] assms(2,3)] show "s' = s" "ph' = ph" by auto
qed

lemma entries_apart:
  assumes "lf_inv r L" "(q, s, ph) \<in> set L" "(q', s', ph') \<in> set L" "q' \<noteq> q"
  shows "q mod lf_capacity r + seg_len s \<le> q' mod lf_capacity r \<or> q' mod lf_capacity r + seg_len s' \<le> q mod lf_capacity r"
proof -
  note e = lf_inv_entry [OF assms(1,2)] lf_inv_entry [OF assms(1,3)]
  have sh: "lf_enq r \<le> lf_deq r + lf_capacity r" "0 < lf_capacity r"
    using lf_invD(1) [OF assms(1)] by (auto simp: lf_shape_def META_SIZE_def)
  from tiles_apart [OF lf_invD(2) [OF assms(1)] assms(2,3)] assms(4) show ?thesis
    using ranges_disjoint [of q "seg_len s" q' "seg_len s'" "lf_capacity r"] ranges_disjoint [of q' "seg_len s'" q "seg_len s" "lf_capacity r"]
      e sh by fastforce
qed

section \<open>Writing into a segment\<close>

lemma word_splice:
  assumes "8 dvd k" "8 dvd a" "k + length ys \<le> length b" "a + 8 \<le> length b"
  shows "bslice a 8 (splice_at k ys b) = bslice a 8 b
    \<or> (\<exists>i. a = k + 8 * i \<and> 8 * i < length ys \<and> bslice a 8 (splice_at k ys b) \<noteq> [] \<and> hd (bslice a 8 (splice_at k ys b)) = ys ! (8 * i))"
proof -
  have "a + 8 \<le> k \<or> k \<le> a" using assms(1,2) by presburger
  then consider "a + 8 \<le> k" | "k + length ys \<le> a" | "k \<le> a" "a < k + length ys" by linarith
  then show ?thesis
  proof cases
    case 3
    obtain i where i: "a = k + 8 * i" using assms(1,2) 3(1) by (metis dvd_diff_nat dvd_def le_add_diff_inverse)
    have n: "bslice a 8 (splice_at k ys b) \<noteq> []" using assms(3,4) by (simp add: bslice_def length_splice_at)
    have "hd (bslice a 8 (splice_at k ys b)) = splice_at k ys b ! a"
      using assms(3,4) by (simp add: bslice_def hd_drop_conv_nth length_splice_at)
    also have "\<dots> = ys ! (8 * i)" using 3 i assms(3) by (simp add: splice_at_def nth_append)
    finally show ?thesis using i n 3 by auto
  qed (use assms in \<open>simp_all add: bslice_splice_before bslice_splice_after\<close>)
qed

lemma aligned_less: "8 dvd a \<Longrightarrow> 8 dvd b \<Longrightarrow> a < b \<Longrightarrow> a + 8 \<le> (b :: nat)"
  by presburger

lemma mod_aligned:
  fixes q cap :: nat
  assumes "8 dvd cap" "8 dvd q" "0 < cap"
  shows "8 dvd q mod cap" "q mod cap + 8 \<le> cap"
proof -
  show d: "8 dvd q mod cap" using assms by (simp add: dvd_mod)
  have "q mod cap < cap" using assms(3) by simp
  with d assms(1) show "q mod cap + 8 \<le> cap" by (intro aligned_less)
qed

lemma lf_shape_cap: "lf_shape r \<Longrightarrow> 0 < lf_capacity r \<and> 8 dvd lf_capacity r \<and> length (lf_buf r) = lf_capacity r"
  by (simp add: lf_shape_def META_SIZE_def)

text \<open>A write inside a segment leaves the others alone.\<close>

lemma write_keeps_others:
  assumes "lf_inv r L" "(q, s, ph) \<in> set L" "k + length ys \<le> seg_len s" "(q', s', ph') \<in> set L" "q' \<noteq> q"
  shows "entry_in (r\<lparr>lf_buf := splice_at (q mod lf_capacity r + k) ys (lf_buf r)\<rparr>) (q', s', ph')"
proof -
  let ?c = "lf_capacity r"
  note ap = entries_apart [OF assms(1,2,4,5)] and e = lf_inv_entry [OF assms(1,2)] and e' = lf_inv_entry [OF assms(1,4)]
  have len: "length (lf_buf r) = ?c" using lf_shape_cap [OF lf_invD(1) [OF assms(1)]] by simp
  have same: "bslice (q' mod ?c + i) n (splice_at (q mod ?c + k) ys (lf_buf r)) = bslice (q' mod ?c + i) n (lf_buf r)"
    if "i + n \<le> seg_len s'" for i n
    using ap that assms(3) e(5) len by (auto intro: bslice_splice_before bslice_splice_after)
  have "entry_in r (q', s', ph')" using lf_invD(4) [OF assms(1,4)] .
  then show ?thesis
    using same [of 8 "length (seg_image s') - 8"] same [of 0 8] e'(7,8)
    by (auto simp: body_in_def lf_word_def META_SIZE_def)
qed

lemma lf_shape_buf:
  assumes "lf_shape r" "k + length ys \<le> lf_capacity r"
  shows "lf_shape (r\<lparr>lf_buf := splice_at k ys (lf_buf r)\<rparr>)"
  using assms by (simp add: lf_shape_def length_splice_at)

text \<open>A commit word changes, and with it the phase of its segment.\<close>

lemma store_word_inv:
  assumes inv: "lf_inv r L" and e: "(q, s, ph) \<in> set L" and w: "w < 2 ^ 64"
    and b: "ph' \<noteq> Pending \<Longrightarrow> body_in r q s"
    and v: "ph' = Live \<Longrightarrow> w = q + 1" "ph' = Leased \<Longrightarrow> w = q + 2"
    and m: "\<And>x. 8 dvd x \<Longrightarrow> w = x + 1 \<Longrightarrow> x = q \<and> ph' = Live"
  shows "lf_inv (lf_store_word q w r) (set_phase q ph' L)"
proof -
  let ?c = "lf_capacity r" and ?r = "lf_store_word q w r"
  note en = lf_inv_entry [OF inv e] and sh = lf_invD(1) [OF inv]
  note cap = lf_shape_cap [OF sh]
  have fits: "q mod ?c + 8 \<le> ?c" using en(5,7) by (simp add: META_SIZE_def)
  have r: "?r = r\<lparr>lf_buf := splice_at (q mod ?c + 0) (le_enc 8 w) (lf_buf r)\<rparr>" by (simp add: lf_store_word_def)
  have here: "lf_word ?r q = w"
    using w fits cap bslice_splice_same [of "q mod ?c" "le_enc 8 w" "lf_buf r"] by (simp add: lf_word_def lf_store_word_def)
  have body: "body_in ?r q s" if "ph' \<noteq> Pending"
    using b [OF that] fits cap
      bslice_splice_after [of "q mod ?c" "le_enc 8 w" "q mod ?c + 8" "lf_buf r" "length (seg_image s) - 8"]
    by (simp add: body_in_def lf_store_word_def)
  have "entry_in ?r x" if mem: "x \<in> set (set_phase q ph' L)" for x
  proof -
    obtain p' s' ph0 where x: "x = (p', s', if p' = q then ph' else ph0)" "(p', s', ph0) \<in> set L"
      using mem unfolding set_phase_iff by blast
    show ?thesis
    proof (cases "p' = q")
      case True
      then show ?thesis using x entry_unique [OF inv e] body here v by auto
    next
      case False
      then show ?thesis
        using x write_keeps_others [OF inv e, of 0 "le_enc 8 w"] en(7) unfolding r by (simp add: META_SIZE_def)
    qed
  qed
  moreover have "marks_ok ?r (set_phase q ph' L)"
    unfolding marks_ok_def
  proof (intro allI impI)
    fix x assume x: "8 dvd x \<and> lf_word ?r x = x + 1"
    have al: "8 dvd q mod ?c" "8 dvd x mod ?c" "x mod ?c + 8 \<le> ?c" using mod_aligned cap en(6) x by auto
    show "(\<exists>s. (x, s, Live) \<in> set (set_phase q ph' L)) \<or> x < lf_deq ?r \<and> lf_mode ?r \<noteq> HPU_RING_MODE_MPMC"
    proof (cases "x mod ?c = q mod ?c")
      case True
      then have "w = x + 1" using here x by (simp add: lf_word_def lf_store_word_def)
      then have "x = q" "ph' = Live" using m x by auto
      then show ?thesis using e by (force simp: set_phase_def)
    next
      case False
      have "bslice (x mod ?c) 8 (lf_buf ?r) = bslice (x mod ?c) 8 (lf_buf r)"
        using word_splice [OF al(1,2), of "le_enc 8 w" "lf_buf r"] False fits cap al by (auto simp: lf_store_word_def)
      then have "lf_word r x = x + 1" using x by (simp add: lf_word_def lf_store_word_def)
      then have "(\<exists>s. (x, s, Live) \<in> set L) \<or> x < lf_deq r \<and> lf_mode r \<noteq> HPU_RING_MODE_MPMC"
        using lf_invD(3) [OF inv] x by (auto simp: marks_ok_def)
      moreover have "x \<noteq> q" using False by auto
      ultimately show ?thesis by (force simp: set_phase_def lf_store_word_def)
    qed
  qed
  moreover have "lf_shape ?r" unfolding r using fits by (intro lf_shape_buf [OF sh]) simp
  ultimately show ?thesis using lf_invD(2) [OF inv] by (simp add: lf_inv_def lf_store_word_def)
qed

text \<open>The rest of a pending segment is written.\<close>

lemma write_body_inv:
  assumes inv: "lf_inv r L" and e: "(q, s, Pending) \<in> set L"
  shows "lf_inv (lf_write_body q (seg_image s) r) (set_phase q Written L)"
proof -
  let ?c = "lf_capacity r" and ?ys = "drop 8 (seg_image s)" and ?r = "lf_write_body q (seg_image s) r"
  note en = lf_inv_entry [OF inv e] and sh = lf_invD(1) [OF inv]
  note cap = lf_shape_cap [OF sh]
  have im: "8 < length (seg_image s)" by (cases s) (simp_all add: META_SIZE_def)
  then have fits: "q mod ?c + 8 + length ?ys \<le> ?c" "8 + length ?ys \<le> seg_len s" using en(5,8) by auto
  have r: "?r = r\<lparr>lf_buf := splice_at (q mod ?c + 8) ?ys (lf_buf r)\<rparr>" by (simp add: lf_write_body_def)
  have body: "body_in ?r q s"
    using fits cap bslice_splice_same [of "q mod ?c + 8" ?ys "lf_buf r"] by (simp add: body_in_def lf_write_body_def)
  have "entry_in ?r x" if mem: "x \<in> set (set_phase q Written L)" for x
  proof -
    obtain p' s' ph0 where x: "x = (p', s', if p' = q then Written else ph0)" "(p', s', ph0) \<in> set L"
      using mem unfolding set_phase_iff by blast
    show ?thesis
    proof (cases "p' = q")
      case True
      then show ?thesis using x entry_unique [OF inv e] body by auto
    next
      case False
      then show ?thesis using x write_keeps_others [OF inv e fits(2)] unfolding r by simp
    qed
  qed
  moreover have "marks_ok ?r (set_phase q Written L)"
    unfolding marks_ok_def
  proof (intro allI impI)
    fix x assume x: "8 dvd x \<and> lf_word ?r x = x + 1"
    have al: "8 dvd q mod ?c + 8" "8 dvd x mod ?c" "x mod ?c + 8 \<le> ?c" using mod_aligned cap en(6) x by auto
    have "bslice (x mod ?c) 8 (lf_buf ?r) = bslice (x mod ?c) 8 (lf_buf r)"
    proof (rule ccontr)
      assume "\<not> ?thesis"
      then obtain i where i: "8 * i < length ?ys" "bslice (x mod ?c) 8 (lf_buf ?r) \<noteq> []" "hd (bslice (x mod ?c) 8 (lf_buf ?r)) = ?ys ! (8 * i)"
        using word_splice [OF al(1,2), of ?ys "lf_buf r"] fits cap al(3) by (auto simp: lf_write_body_def)
      have "?ys ! (8 * i) = seg_image s ! (8 * Suc i)" using im by (simp add: nth_drop)
      moreover have "byte_plain (seg_image s ! (8 * Suc i))" using i(1) by (intro image_plain [OF en(3,4)]) auto
      ultimately have "lf_word ?r x mod 8 \<noteq> 1" using le_dec_mod8 [OF i(2)] i(3) by (simp add: lf_word_def byte_plain_def lf_write_body_def)
      moreover have "(x + 1) mod 8 = 1" using x by presburger
      ultimately show False using x by simp
    qed
    then have "lf_word r x = x + 1" using x by (simp add: lf_word_def lf_write_body_def)
    then have o: "(\<exists>s. (x, s, Live) \<in> set L) \<or> x < lf_deq r \<and> lf_mode r \<noteq> HPU_RING_MODE_MPMC"
      using lf_invD(3) [OF inv] x by (auto simp: marks_ok_def)
    have "(x, s', Live) \<in> set (set_phase q Written L)" if "(x, s', Live) \<in> set L" for s'
      using that entry_unique [OF inv e, of s' Live] by (force simp: set_phase_def)
    then show "(\<exists>s. (x, s, Live) \<in> set (set_phase q Written L)) \<or> x < lf_deq ?r \<and> lf_mode ?r \<noteq> HPU_RING_MODE_MPMC"
      using o by (auto simp: lf_write_body_def)
  qed
  moreover have "lf_shape ?r" unfolding r using fits by (intro lf_shape_buf [OF sh]) simp
  ultimately show ?thesis using lf_invD(2) [OF inv] by (simp add: lf_inv_def lf_write_body_def)
qed

section \<open>Reserving and passing a segment\<close>

definition same_core :: "lf_ring \<Rightarrow> lf_ring \<Rightarrow> bool" where
  "same_core r r' \<longleftrightarrow> lf_capacity r' = lf_capacity r \<and> lf_buf r' = lf_buf r \<and> lf_policy r' = lf_policy r \<and> lf_mode r' = lf_mode r
     \<and> lf_enq r' = lf_enq r \<and> lf_deq r' = lf_deq r"

lemma same_core_inv: "same_core r r' \<Longrightarrow> lf_inv r L \<Longrightarrow> lf_inv r' L"
  unfolding lf_inv_def
  by (auto simp: same_core_def lf_shape_def marks_ok_def body_in_def lf_word_def)

lemma same_coreI [simp]:
  "same_core r r" "same_core r (r\<lparr>lf_dropped := n\<rparr>)" "same_core r (r\<lparr>lf_consumer_waiting := n\<rparr>)" "same_core r (r\<lparr>lf_kicks := n\<rparr>)" "same_core r (lf_kick r)"
  "same_core r (lf_ring_close r)"
  by (simp_all add: same_core_def lf_kick_def lf_ring_close_def)

lemma entry_in_cursors [simp]:
  "entry_in (r\<lparr>lf_enq := n\<rparr>) x = entry_in r x" "entry_in (r\<lparr>lf_deq := n\<rparr>) x = entry_in r x"
  by (cases x; simp add: body_in_def lf_word_def)+

lemma reserve_inv:
  assumes inv: "lf_inv r L" and s: "seg_ok s" "seg_plain s" "lf_enq r mod lf_capacity r + seg_len s \<le> lf_capacity r"
    "gap_ok (lf_capacity r) (lf_enq r + seg_len s)" "lf_enq r + seg_len s \<le> lf_deq r + lf_capacity r" "lf_enq r + seg_len s < 2 ^ 64 - 1"
  shows "lf_inv (r\<lparr>lf_enq := lf_enq r + seg_len s\<rparr>) (L @ [(lf_enq r, s, Pending)])"
proof -
  have "marks_ok (r\<lparr>lf_enq := lf_enq r + seg_len s\<rparr>) (L @ [(lf_enq r, s, Pending)])"
    using lf_invD(3) [OF inv] by (auto simp: marks_ok_def lf_word_def)
  moreover have "lf_shape (r\<lparr>lf_enq := lf_enq r + seg_len s\<rparr>)" using lf_invD(1) [OF inv] s(5,6) by (simp add: lf_shape_def)
  ultimately show ?thesis
    using lf_invD [OF inv] tiles_snoc [OF lf_invD(2) [OF inv] s(1-4)] by (auto simp: lf_inv_def)
qed

text \<open>The phase in which a consumer holds the first segment.\<close>

definition held_phase :: "lf_ring \<Rightarrow> lf_phase" where
  "held_phase r = (if lf_mode r = HPU_RING_MODE_MPMC then Leased else Live)"

lemma advance_inv:
  assumes inv: "lf_inv r ((d, s, held_phase r) # L)"
  shows "lf_inv (r\<lparr>lf_deq := d + seg_len s\<rparr>) L"
proof -
  let ?L = "(d, s, held_phase r) # L"
  have t: "d = lf_deq r" "gap_ok (lf_capacity r) (d + seg_len s)" "tiles (lf_capacity r) (d + seg_len s) L (lf_enq r)"
    using lf_invD(2) [OF inv] by auto
  note e = lf_inv_entry [OF inv, of d s "held_phase r", simplified]
  have "marks_ok (r\<lparr>lf_deq := d + seg_len s\<rparr>) L"
    unfolding marks_ok_def
  proof (intro allI impI)
    fix q assume "8 dvd q \<and> lf_word (r\<lparr>lf_deq := d + seg_len s\<rparr>) q = q + 1"
    then have "8 dvd q \<and> lf_word r q = q + 1" by (simp add: lf_word_def)
    then have o: "(\<exists>s. (q, s, Live) \<in> set ?L) \<or> q < lf_deq r \<and> lf_mode r \<noteq> HPU_RING_MODE_MPMC"
      using lf_invD(3) [OF inv] unfolding marks_ok_def by blast
    have "q < d + seg_len s \<and> lf_mode r \<noteq> HPU_RING_MODE_MPMC" if "(q, s', Live) = (d, s, held_phase r)" for s'
      using that e(7) by (auto simp: held_phase_def META_SIZE_def split: if_splits)
    then show "(\<exists>s. (q, s, Live) \<in> set L)
        \<or> q < lf_deq (r\<lparr>lf_deq := d + seg_len s\<rparr>) \<and> lf_mode (r\<lparr>lf_deq := d + seg_len s\<rparr>) \<noteq> HPU_RING_MODE_MPMC"
      using o t(1) by auto
  qed
  moreover have "lf_shape (r\<lparr>lf_deq := d + seg_len s\<rparr>)"
    using lf_invD(1) [OF inv] t e seg_ok_len [OF e(3)] by (auto simp: lf_shape_def)
  ultimately show ?thesis using lf_invD(4) [OF inv] t by (simp add: lf_inv_def)
qed

section \<open>Reading the first segment\<close>

lemma encode_meta_commit: "w < 2 ^ 64 \<Longrightarrow> encode_meta (m\<lparr>commit := of_nat w\<rparr>) = le_enc 8 w @ drop 8 (encode_meta m)"
  by (simp add: encode_meta_def unat_of_nat_less)

lemma seg_image_commit:
  assumes "w < 2 ^ 64"
  shows "\<exists>im. le_enc 8 w @ drop 8 (seg_image s) = encode_meta ((seg_meta s)\<lparr>commit := of_nat w\<rparr>) @ im
    \<and> (\<forall>m n. s = SRec m n \<longrightarrow> im = payload m)"
  using assms by (cases s) (simp_all add: encode_meta_commit META_SIZE_def)

lemma memory_of_segment:
  assumes inv: "lf_inv r L" and e: "(q, s, ph) \<in> set L" "ph \<noteq> Pending"
  shows "\<exists>w im rest. lf_at r q = encode_meta ((seg_meta s)\<lparr>commit := w\<rparr>) @ im @ rest \<and> (\<forall>m n. s = SRec m n \<longrightarrow> im = payload m)"
proof -
  let ?w = "lf_word r q" and ?off = "q mod lf_capacity r"
  note en = lf_inv_entry [OF inv e(1)] and cap = lf_shape_cap [OF lf_invD(1) [OF inv]]
  have im: "8 < length (seg_image s)" by (cases s) (simp_all add: META_SIZE_def)
  have fits: "?off + length (seg_image s) \<le> length (lf_buf r)" using en(5,8) cap by simp
  have l8: "length (bslice ?off 8 (lf_buf r)) = 8" using fits im by simp
  have w: "?w < 2 ^ 64" using le_dec_less [of "bslice ?off 8 (lf_buf r)"] l8 by (simp add: lf_word_def)
  have "body_in r q s" using lf_invD(4) [OF inv e(1)] e(2) by simp
  then have b: "bslice (?off + 8) (length (seg_image s) - 8) (lf_buf r) = drop 8 (seg_image s)" by (simp add: body_in_def)
  have "lf_at r q = bslice ?off 8 (lf_buf r) @ drop (?off + 8) (lf_buf r)"
    by (simp add: lf_at_def bslice_def) (metis append_take_drop_id add.commute drop_drop)
  also have "bslice ?off 8 (lf_buf r) = le_enc 8 ?w" using l8 by (simp add: lf_word_def)
  also have "drop (?off + 8) (lf_buf r) = drop 8 (seg_image s) @ drop (length (seg_image s) - 8) (drop (?off + 8) (lf_buf r))"
    using b by (metis append_take_drop_id bslice_def)
  finally have at: "lf_at r q = (le_enc 8 ?w @ drop 8 (seg_image s)) @ drop (length (seg_image s) - 8) (drop (?off + 8) (lf_buf r))"
    by simp
  obtain im where "le_enc 8 ?w @ drop 8 (seg_image s) = encode_meta ((seg_meta s)\<lparr>commit := of_nat ?w\<rparr>) @ im"
    "\<forall>m n. s = SRec m n \<longrightarrow> im = payload m" using seg_image_commit [OF w] by blast
  with at show ?thesis by (metis append_assoc)
qed

lemma header_of_segment:
  assumes "lf_inv r L" "(q, s, ph) \<in> set L" "ph \<noteq> Pending"
  shows "unat (total_len (decode_meta (lf_at r q))) = seg_len s" "is_pad (decode_meta (lf_at r q)) \<longleftrightarrow> seg_msgs s = []"
proof -
  obtain w im rest where "lf_at r q = encode_meta ((seg_meta s)\<lparr>commit := w\<rparr>) @ im @ rest" using memory_of_segment [OF assms] by blast
  then have m: "decode_meta (lf_at r q) = (seg_meta s)\<lparr>commit := w\<rparr>" by simp
  show "unat (total_len (decode_meta (lf_at r q))) = seg_len s" "is_pad (decode_meta (lf_at r q)) \<longleftrightarrow> seg_msgs s = []"
    unfolding m using seg_meta_facts [OF lf_inv_entry(3) [OF assms(1,2)]] by (simp_all add: is_pad_def)
qed

lemma copy_of_segment:
  assumes "lf_inv r L" "(q, SRec m n, ph) \<in> set L" "ph \<noteq> Pending"
  shows "view_matches m (read_view (take n (lf_at r q)))"
proof -
  obtain w rest where at: "lf_at r q = encode_meta ((fill_meta m n)\<lparr>commit := w\<rparr>) @ payload m @ rest"
    using memory_of_segment [OF assms] by fastforce
  note en = lf_inv_entry [OF assms(1,2)]
  have ok: "msg_ok m" "raw_len m \<le> n" "n < 2 ^ 32" using en(3) by auto
  have "length (lf_at r q) \<ge> n" using en(5) lf_shape_cap [OF lf_invD(1) [OF assms(1)]] by (simp add: lf_at_def)
  moreover have "take (raw_len m) (lf_at r q) = encode_meta ((fill_meta m n)\<lparr>commit := w\<rparr>) @ payload m"
    unfolding at by (simp add: raw_len_def)
  ultimately show ?thesis using ok by (intro read_view_matches [where cm = w]) (auto simp: min_def)
qed

end
