(* ===== verification/RingLockFreeLaws.thy ===== *)
theory RingLockFreeLaws
  imports RingLockFreeInv
begin

text \<open>
  The lock-free ring under the discard policy, for any interleaving of any number of calls: what every step
  of a put and of a get keeps, and from it that the ring is a queue. Two runs show what the ring does when a
  word in the memory reads as a marker.
\<close>

section \<open>The state of a put\<close>

definition put_seg :: "putter \<Rightarrow> seg" where
  "put_seg p = (if pt_pad p then SPad (pt_len p) else SRec (pt_msg p) (pt_len p))"








lemma put_seg_len [simp]: "seg_len (put_seg p) = pt_len p"
  by (simp add: put_seg_def)

lemma put_seg_goto [simp]: "put_seg (p\<lparr>pt_pc := pc\<rparr>) = put_seg p"
  by (simp add: put_seg_def)



section \<open>What a step leaves to the others\<close>

definition ring_msgs_of :: "entry list \<Rightarrow> hpu_ring_msg list" where
  "ring_msgs_of L = msgs (map (\<lambda>(p, s, ph). s) L)"


lemma ring_msgs_of_set_phase [simp]: "ring_msgs_of (set_phase q ph L) = ring_msgs_of L"
  by (auto simp: ring_msgs_of_def set_phase_def intro!: arg_cong [where f = msgs])







section \<open>A step of a put\<close>







section \<open>The state of a get\<close>








section \<open>A step of a get\<close>











section \<open>The system\<close>











section \<open>What the calls have done\<close>

declare lf_perform.simps [simp del]










section \<open>Runs\<close>















section \<open>Properties\<close>



text \<open>A small message without a marker, and a run of one put and one get in turns.\<close>

definition lf_demo_msg :: "byte list \<Rightarrow> hpu_ring_msg" where
  "lf_demo_msg m = \<lparr>g_level = 2, g_rec_flags = 0, g_category = [], g_file = [], g_func = [], g_line = 7,
     g_tid = 2, g_realtime_ns = 0, g_mono_us = 0, g_msg = m, g_fields = [], g_field_count = 0\<rparr>"

definition lf_demo_ring :: "nat \<Rightarrow> hpu_ring_mode \<Rightarrow> lf_ring" where
  "lf_demo_ring cap md = \<lparr>lf_capacity = cap, lf_buf = map (\<lambda>_. CHR 0x00) [0..<cap], lf_policy = RB_POL_DISCARD, lf_mode = md,
     lf_enq = 0, lf_deq = 0, lf_dropped = 0, lf_overwritten = 0, lf_closed = False, lf_consumer_waiting = 0, lf_kicks = 0\<rparr>"





lemmas lf_eval = lf_run_def lf_system0_def lf_perform.simps may_put_def may_get_def put_call_def get_call_def put_step_def get_step_def
  put_plan_def lacks_space_def newly_reserved_def newly_taken_def lf_enq_contended_def lf_store_word_def lf_write_body_def lf_word_def lf_at_def
  lf_kick_def get_head_def get_copy_def lf_advance_deq_def lf_deq_contended_def put_image_def record_len_def raw_len_def payload_def META_SIZE_def
  align8_def splice_at_def bslice_def encode_meta_def fill_meta_def decode_meta_def is_pad_def HPU_REC_FLAGS_def HPU_REC_FLAG_PAD_def
  read_view_def Let_def








section \<open>When a word reads as a marker\<close>

text \<open>
  One producer, one consumer. A message carries the bytes of a record with a marker at the place where, a lap
  later, another record is reserved. Between that reservation and the clearing of its commit word the
  consumer finds the old bytes, takes them for a committed record, and delivers it.
\<close>

definition forged :: "byte list" where
  "forged = encode_meta ((fill_meta (lf_demo_msg ''forged'') 64)\<lparr>commit := 297\<rparr>) @ ''forged''"

definition lf_one :: "hpu_ring_msg \<Rightarrow> nat \<Rightarrow> lf_act list" where
  "lf_one m i = [LfPut m, LfPutStep i, LfPutStep i, LfPutStep i, LfPutStep i, LfPutStep i, LfPutStep i, LfPutStep i, LfPutStep i,
    LfGet (Some 232) 0, LfGetStep i True, LfGetStep i True, LfGetStep i True, LfGetStep i True, LfGetStep i True, LfGetStep i True,
    LfGetStep i True, LfGetStep i True]"

definition forging_acts :: "lf_act list" where
  "forging_acts = lf_one (lf_demo_msg (''12345678'' @ forged)) 0 @ lf_one (lf_demo_msg ''b'') 1 @ lf_one (lf_demo_msg ''c'') 2
     @ take 5 (lf_one (lf_demo_msg ''d'') 3) @ drop 9 (lf_one (lf_demo_msg ''d'') 3)"

lemma forged_record_delivered:
  "let s = lf_run forging_acts (lf_system0 (lf_demo_ring 232 HPU_RING_MODE_SPSC))
   in map (\<lambda>(i, m). g_msg m) (ls_reserved s) = [''12345678'' @ forged, ''b'', ''c'', ''d'']
    \<and> map (\<lambda>(j, v). v_msg v) (ls_taken s) = [''12345678'' @ forged, ''b'', ''c'', ''forged'']"
  by (simp add: forging_acts_def lf_one_def forged_def lf_demo_ring_def lf_demo_msg_def lf_eval)
end
