(* ===== verification/NetSinks.thy ===== *)
theory NetSinks
  imports OutputCore
begin

text \<open>
  The sinks over sockets and pipes: \<^verbatim>\<open>src/output/sink_tcp.c\<close>, \<^verbatim>\<open>sink_unix.c\<close>,
  \<^verbatim>\<open>sink_udp.c\<close>, \<^verbatim>\<open>sink_fifo.c\<close> and \<^verbatim>\<open>sink_syslog.c\<close>, as operations tables. Calls
  on the outside are logged with their outcomes, and an outcome may depend on everything logged before.
\<close>

section \<open>The outside\<close>

datatype send_result = SendOk | SendAgain | SendError

datatype net_target = NtTcp string | NtUdp string | NtUnixStream string | NtUnixDgram string | NtFifo string

text \<open>A send is logged with its data, how many bytes were taken, and its result.\<close>

datatype net_event = NvClock nat | NvOpen net_target int | NvSend int string nat send_result
  | NvRecv int string | NvClose int

text \<open>
  The clock, the opening of an endpoint (a negative number is a failure; for a pipe, -1 one that is worth
  retrying), one send of all the data given (when it fails, how many bytes had been taken), one receive
  of at most the bytes asked for (nothing at the end and on errors), whether the timeouts of a socket could
  be set, name resolution, and whether the signal mask could be set.
\<close>

record net_env =
  ne_now :: "net_event list \<Rightarrow> nat"
  ne_open :: "net_event list \<Rightarrow> net_target \<Rightarrow> int"
  ne_send :: "net_event list \<Rightarrow> int \<Rightarrow> string \<Rightarrow> nat \<times> send_result"
  ne_recv :: "net_event list \<Rightarrow> int \<Rightarrow> nat \<Rightarrow> string"
  ne_set_timeout :: "net_event list \<Rightarrow> int \<Rightarrow> nat \<Rightarrow> bool"
  ne_resolve :: "string \<Rightarrow> string \<Rightarrow> string option"
  ne_sigmask :: "net_event list \<Rightarrow> bool"

text \<open>The state all connections share, its log included.\<close>

record net_link =
  nl_fd :: int
  nl_connected :: bool
  nl_backoff_init_s :: nat
  nl_backoff_max_s :: nat
  nl_backoff_ns :: nat
  nl_retry_deadline_ns :: nat
  nl_buf :: string
  nl_buf_lines :: nat
  nl_log :: "net_event list"

definition net_log :: "net_event \<Rightarrow> 'z net_link_scheme \<Rightarrow> 'z net_link_scheme" where
  "net_log e p = p\<lparr>nl_log := nl_log p @ [e]\<rparr>"

definition hpu_now_ns :: "net_env \<Rightarrow> 'z net_link_scheme \<Rightarrow> nat \<times> 'z net_link_scheme" where
  "hpu_now_ns E p = (let t = ne_now E (nl_log p) in (t, net_log (NvClock t) p))"

definition net_open :: "net_env \<Rightarrow> net_target \<Rightarrow> 'z net_link_scheme \<Rightarrow> int \<times> 'z net_link_scheme" where
  "net_open E tgt p = (let fd = ne_open E (nl_log p) tgt in (fd, net_log (NvOpen tgt fd) p))"

definition hpu_net_send :: "net_env \<Rightarrow> string \<Rightarrow> 'z net_link_scheme \<Rightarrow> send_result \<times> 'z net_link_scheme" where
  "hpu_net_send E data p =
     (case ne_send E (nl_log p) (nl_fd p) data of (k, res) \<Rightarrow>
        (res, net_log (NvSend (nl_fd p) data (if res = SendOk then length data else k) res) p))"

text \<open>\<^verbatim>\<open>if (p->fd >= 0) { close; p->fd = -1; }\<close>\<close>

definition close_fd :: "'z net_link_scheme \<Rightarrow> 'z net_link_scheme" where
  "close_fd p = (if nl_fd p \<ge> 0 then net_log (NvClose (nl_fd p)) p\<lparr>nl_fd := - 1\<rparr> else p)"

text \<open>The strict parser of numbers; what follows the digits must be empty.\<close>

definition parse_uint :: "string option \<Rightarrow> int \<Rightarrow> int \<Rightarrow> nat option" where
  "parse_uint val lo hi =
     (case val of None \<Rightarrow> None
      | Some v \<Rightarrow>
          case scan_number 10 v of (neg, ds, rest) \<Rightarrow>
            if ds = [] \<or> rest \<noteq> [] \<or> strtol 10 v < lo \<or> strtol 10 v > hi then None else Some (nat (strtol 10 v)))"

definition set_uint :: "nat option \<Rightarrow> (nat \<Rightarrow> 'p) \<Rightarrow> 'p \<Rightarrow> int \<times> 'p" where
  "set_uint r f p = (case r of None \<Rightarrow> (- 1, p) | Some n \<Rightarrow> (0, f n))"

definition NS_PER_S :: nat where "NS_PER_S = 1000000000"
definition HPU_NET_BACKOFF_DEFAULT_S :: nat where "HPU_NET_BACKOFF_DEFAULT_S = 1"
definition HPU_NET_BACKOFF_MAX_DEFAULT_S :: nat where "HPU_NET_BACKOFF_MAX_DEFAULT_S = 30"
definition HPU_NET_BACKOFF_MAX_LIMIT_S :: int where "HPU_NET_BACKOFF_MAX_LIMIT_S = 3600"
definition HPU_NET_COALESCE_SIZE :: nat where "HPU_NET_COALESCE_SIZE = 64 * 1024"

definition link0 :: net_link where
  "link0 = \<lparr>nl_fd = 0, nl_connected = False, nl_backoff_init_s = 0, nl_backoff_max_s = 0, nl_backoff_ns = 0,
     nl_retry_deadline_ns = 0, nl_buf = [], nl_buf_lines = 0, nl_log = []\<rparr>"

section \<open>The connection of a stream\<close>

text \<open>The retry gate is armed with the current window, which then doubles up to its maximum. Times are 64-bit.\<close>

definition arm_backoff :: "net_env \<Rightarrow> 'z net_link_scheme \<Rightarrow> 'z net_link_scheme" where
  "arm_backoff E p0 =
     (case hpu_now_ns E p0 of (now, p) \<Rightarrow>
        p\<lparr>nl_retry_deadline_ns := (now + nl_backoff_ns p) mod 2 ^ 64,
          nl_backoff_ns := (let b = nl_backoff_ns p * 2 mod 2 ^ 64; m = nl_backoff_max_s p * NS_PER_S in if b > m then m else b)\<rparr>)"

definition first_backoff :: "'z net_link_scheme \<Rightarrow> 'z net_link_scheme" where
  "first_backoff p = (if nl_backoff_ns p = 0 then p\<lparr>nl_backoff_ns := nl_backoff_init_s p * NS_PER_S\<rparr> else p)"

definition tcp_mark_disconnected :: "net_env \<Rightarrow> 'z net_link_scheme \<Rightarrow> 'z net_link_scheme" where
  "tcp_mark_disconnected E p =
     arm_backoff E (first_backoff ((close_fd p)\<lparr>nl_connected := False, nl_buf := [], nl_buf_lines := 0\<rparr>))"

definition link_reconnect :: "net_env \<Rightarrow> net_target \<Rightarrow> 'z net_link_scheme \<Rightarrow> int \<times> 'z net_link_scheme" where
  "link_reconnect E tgt p0 =
     (case hpu_now_ns E p0 of (now, p) \<Rightarrow>
        if now < nl_retry_deadline_ns p then (- 1, p)
        else case net_open E tgt p of (fd, p1) \<Rightarrow>
          let p2 = p1\<lparr>nl_fd := fd\<rparr>
          in if fd < 0 then (- 1, arm_backoff E p2)
             else (0, p2\<lparr>nl_connected := True, nl_backoff_ns := nl_backoff_init_s p2 * NS_PER_S, nl_retry_deadline_ns := 0\<rparr>))"

text \<open>The pending lines are sent, or lost with the connection; \<open>done_n\<close> then no longer counts them.\<close>

definition tcp_flush_pending :: "net_env \<Rightarrow> nat \<Rightarrow> 'z net_link_scheme \<Rightarrow> int \<times> nat \<times> 'z net_link_scheme" where
  "tcp_flush_pending E done_n p =
     (if nl_buf p = [] then (0, done_n, p)
      else case hpu_net_send E (nl_buf p) p of (res, p1) \<Rightarrow>
        if res \<noteq> SendOk then (- 1, done_n - nl_buf_lines p, tcp_mark_disconnected E p1)
        else (0, done_n, p1\<lparr>nl_buf := [], nl_buf_lines := 0\<rparr>))"

text \<open>The line and its newline, in two sends: whether both succeeded.\<close>

definition send_frame :: "net_env \<Rightarrow> string \<Rightarrow> 'z net_link_scheme \<Rightarrow> bool \<times> 'z net_link_scheme" where
  "send_frame E line p =
     (case hpu_net_send E line p of (res, p1) \<Rightarrow>
        if res \<noteq> SendOk then (False, p1)
        else case hpu_net_send E [CHR 0x0A] p1 of (res2, p2) \<Rightarrow> (res2 = SendOk, p2))"

definition stream_emit :: "net_env \<Rightarrow> string \<Rightarrow> 'z net_link_scheme \<Rightarrow> 'z net_link_scheme \<times> nat" where
  "stream_emit E line p =
     (case send_frame E line p of (ok, p1) \<Rightarrow> if ok then (p1, 0) else (tcp_mark_disconnected E p1, 1))"

definition batch_result :: "nat \<Rightarrow> int" where
  "batch_result done_n = (if done_n > 0 then int done_n else - 1)"

text \<open>The loop of a batch, with the number of lines sent or pending.\<close>

fun stream_batch :: "net_env \<Rightarrow> nat \<Rightarrow> string list \<Rightarrow> 'z net_link_scheme \<Rightarrow> int \<times> 'z net_link_scheme" where
  "stream_batch E done_n [] p =
     (case tcp_flush_pending E done_n p of (rc, n, p1) \<Rightarrow> (if rc \<noteq> 0 then batch_result n else int n, p1))"
| "stream_batch E done_n (line # lines) p =
     (let need = length line + 1
      in if need > HPU_NET_COALESCE_SIZE then
           (case tcp_flush_pending E done_n p of (rc, n, p1) \<Rightarrow>
              if rc \<noteq> 0 then (batch_result n, p1)
              else case send_frame E line p1 of (ok, p2) \<Rightarrow>
                if ok then stream_batch E (n + 1) lines p2 else (batch_result n, tcp_mark_disconnected E p2))
         else case (if length (nl_buf p) + need > HPU_NET_COALESCE_SIZE then tcp_flush_pending E done_n p else (0, done_n, p)) of
           (rc, n, p1) \<Rightarrow>
             if rc \<noteq> 0 then (batch_result n, p1)
             else stream_batch E (n + 1) lines (p1\<lparr>nl_buf := nl_buf p1 @ line @ [CHR 0x0A], nl_buf_lines := nl_buf_lines p1 + 1\<rparr>))"

section \<open>The TCP sink\<close>

record hpu_tcp_priv = net_link +
  tp_host :: string
  tp_port :: nat
  tp_addr :: string

definition HPU_TCP_HOST_MAX :: nat where "HPU_TCP_HOST_MAX = 256"

definition tcp_priv0 :: hpu_tcp_priv where
  "tcp_priv0 = net_link.extend link0 (hpu_tcp_priv.fields [] 0 [])"

definition configure_backoff :: "('z net_link_scheme) \<Rightarrow> string \<Rightarrow> string option \<Rightarrow> int \<times> 'z net_link_scheme" where
  "configure_backoff p key val =
     (if key = ''reconnect backoff'' then set_uint (parse_uint val 1 60) (\<lambda>n. p\<lparr>nl_backoff_init_s := n\<rparr>) p
      else if key = ''reconnect backoff max'' then
        set_uint (parse_uint val 1 HPU_NET_BACKOFF_MAX_LIMIT_S) (\<lambda>n. p\<lparr>nl_backoff_max_s := n\<rparr>) p
      else (- 1, p))"

definition short_text :: "string option \<Rightarrow> nat \<Rightarrow> string option" where
  "short_text val cap = (case val of None \<Rightarrow> None | Some v \<Rightarrow> if v = [] \<or> length v \<ge> cap then None else Some v)"

definition tcp_configure :: "hpu_tcp_priv \<Rightarrow> string \<Rightarrow> string option \<Rightarrow> int \<times> hpu_tcp_priv" where
  "tcp_configure p key val =
     (if key = ''host'' then (case short_text val HPU_TCP_HOST_MAX of None \<Rightarrow> (- 1, p) | Some v \<Rightarrow> (0, p\<lparr>tp_host := v\<rparr>))
      else if key = ''port'' then set_uint (parse_uint val 1 65535) (\<lambda>n. p\<lparr>tp_port := n\<rparr>) p
      else configure_backoff p key val)"

definition default_backoff :: "'z net_link_scheme \<Rightarrow> 'z net_link_scheme" where
  "default_backoff p =
     p\<lparr>nl_backoff_init_s := (if nl_backoff_init_s p = 0 then HPU_NET_BACKOFF_DEFAULT_S else nl_backoff_init_s p),
       nl_backoff_max_s := (if nl_backoff_max_s p = 0 then HPU_NET_BACKOFF_MAX_DEFAULT_S else nl_backoff_max_s p)\<rparr>"

definition tcp_init :: "hpu_tcp_priv \<Rightarrow> int \<times> hpu_tcp_priv" where
  "tcp_init p0 =
     (let p = default_backoff p0
      in if tp_host p = [] \<or> tp_port p = 0 \<or> nl_backoff_max_s p < nl_backoff_init_s p then (- 1, p) else (0, p))"

definition tcp_start :: "net_env \<Rightarrow> hpu_tcp_priv \<Rightarrow> int \<times> hpu_tcp_priv" where
  "tcp_start E p =
     (case ne_resolve E (tp_host p) (dec_digits (tp_port p)) of
        None \<Rightarrow> (- 1, p)
      | Some addr \<Rightarrow>
          case net_open E (NtTcp addr) (p\<lparr>tp_addr := addr\<rparr>) of (fd, p1) \<Rightarrow>
            if fd < 0 then (- 1, p1\<lparr>nl_fd := fd\<rparr>) else (0, p1\<lparr>nl_fd := fd, nl_connected := True\<rparr>))"

definition tcp_reconnect :: "net_env \<Rightarrow> hpu_tcp_priv \<Rightarrow> int \<times> hpu_tcp_priv" where
  "tcp_reconnect E p = link_reconnect E (NtTcp (tp_addr p)) p"

definition tcp_emit :: "net_env \<Rightarrow> hpu_tcp_priv \<Rightarrow> hpulogc_event \<Rightarrow> hpu_tcp_priv \<times> nat" where
  "tcp_emit E p ev =
     (case (if nl_connected p then (0, p) else tcp_reconnect E p) of (rc, p1) \<Rightarrow>
        if rc \<noteq> 0 then (p1, 1) else stream_emit E (ev_line ev) p1)"

definition tcp_emit_batch :: "net_env \<Rightarrow> hpu_tcp_priv \<Rightarrow> hpulogc_event list \<Rightarrow> int \<times> hpu_tcp_priv \<times> nat" where
  "tcp_emit_batch E p evs =
     (case (if nl_connected p then (0, p) else tcp_reconnect E p) of (rc, p1) \<Rightarrow>
        if rc \<noteq> 0 then (0, p1, 0)
        else case stream_batch E 0 (map ev_line evs) p1 of (n, p2) \<Rightarrow> (n, p2, 0))"

definition tcp_destroy :: "'z net_link_scheme \<Rightarrow> 'z net_link_scheme" where
  "tcp_destroy p = (close_fd p)\<lparr>nl_connected := False\<rparr>"

definition hpu_tcp_sink_ops :: "net_env \<Rightarrow> hpu_tcp_priv sink_ops" where
  "hpu_tcp_sink_ops E =
     \<lparr>so_type = Some ''tcp'', so_abi_version = HPULOGC_SINK_ABI_VERSION, so_cap_async = True, so_priv0 = tcp_priv0,
      so_configure = Some tcp_configure, so_init = Some tcp_init, so_start = Some (tcp_start E), so_emit = Some (tcp_emit E),
      so_emit_batch = Some (tcp_emit_batch E), so_flush = None, so_sync = None, so_periodic = None,
      so_destroy = Some tcp_destroy, so_reserved = [False, False, False, False]\<rparr>"

section \<open>The UDP sink\<close>

record hpu_udp_priv = net_link +
  up_host :: string
  up_port :: nat
  up_mtu :: nat
  up_addr :: string

definition HPU_UDP_MTU_DEFAULT :: nat where "HPU_UDP_MTU_DEFAULT = 1472"
definition HPU_UDP_MTU_MIN :: int where "HPU_UDP_MTU_MIN = 576"
definition HPU_UDP_MTU_MAX :: int where "HPU_UDP_MTU_MAX = 65507"
definition HPU_UDP_HOST_MAX :: nat where "HPU_UDP_HOST_MAX = 256"

definition udp_priv0 :: hpu_udp_priv where
  "udp_priv0 = net_link.extend link0 (hpu_udp_priv.fields [] 0 0 [])"

definition udp_configure :: "hpu_udp_priv \<Rightarrow> string \<Rightarrow> string option \<Rightarrow> int \<times> hpu_udp_priv" where
  "udp_configure p key val =
     (if key = ''host'' then (case short_text val HPU_UDP_HOST_MAX of None \<Rightarrow> (- 1, p) | Some v \<Rightarrow> (0, p\<lparr>up_host := v\<rparr>))
      else if key = ''port'' then set_uint (parse_uint val 1 65535) (\<lambda>n. p\<lparr>up_port := n\<rparr>) p
      else if key = ''mtu'' then set_uint (parse_uint val HPU_UDP_MTU_MIN HPU_UDP_MTU_MAX) (\<lambda>n. p\<lparr>up_mtu := n\<rparr>) p
      else (- 1, p))"

definition udp_init :: "hpu_udp_priv \<Rightarrow> int \<times> hpu_udp_priv" where
  "udp_init p0 =
     (let p = (if up_mtu p0 = 0 then p0\<lparr>up_mtu := HPU_UDP_MTU_DEFAULT\<rparr> else p0)
      in if up_host p = [] \<or> up_port p = 0 then (- 1, p) else (0, p))"

definition udp_start :: "net_env \<Rightarrow> hpu_udp_priv \<Rightarrow> int \<times> hpu_udp_priv" where
  "udp_start E p =
     (case ne_resolve E (up_host p) (dec_digits (up_port p)) of
        None \<Rightarrow> (- 1, p)
      | Some addr \<Rightarrow>
          case net_open E (NtUdp addr) (p\<lparr>up_addr := addr\<rparr>) of (fd, p1) \<Rightarrow> (if fd < 0 then - 1 else 0, p1\<lparr>nl_fd := fd\<rparr>))"

text \<open>A line longer than a datagram is cut, sent, and counted as failed.\<close>

definition udp_send_one :: "net_env \<Rightarrow> string \<Rightarrow> hpu_udp_priv \<Rightarrow> int \<times> hpu_udp_priv" where
  "udp_send_one E line p =
     (let data = take (up_mtu p) line
      in case hpu_net_send E data p of (res, p1) \<Rightarrow>
           (if res \<noteq> SendOk then - 1 else if length data \<noteq> length line then - 1 else 0, p1))"

definition udp_emit :: "net_env \<Rightarrow> hpu_udp_priv \<Rightarrow> hpulogc_event \<Rightarrow> hpu_udp_priv \<times> nat" where
  "udp_emit E p ev =
     (if nl_fd p < 0 then (p, 0)
      else case udp_send_one E (ev_line ev) p of (rc, p1) \<Rightarrow> (p1, if rc \<noteq> 0 then 1 else 0))"

fun udp_batch :: "net_env \<Rightarrow> nat \<Rightarrow> hpulogc_event list \<Rightarrow> hpu_udp_priv \<Rightarrow> nat \<times> hpu_udp_priv" where
  "udp_batch E done_n [] p = (done_n, p)"
| "udp_batch E done_n (ev # evs) p =
     (case udp_send_one E (ev_line ev) p of (rc, p1) \<Rightarrow> udp_batch E (if rc = 0 then done_n + 1 else done_n) evs p1)"

definition udp_emit_batch :: "net_env \<Rightarrow> hpu_udp_priv \<Rightarrow> hpulogc_event list \<Rightarrow> int \<times> hpu_udp_priv \<times> nat" where
  "udp_emit_batch E p evs =
     (if nl_fd p < 0 then (0, p, 0) else case udp_batch E 0 evs p of (n, p1) \<Rightarrow> (int n, p1, 0))"

definition udp_destroy :: "hpu_udp_priv \<Rightarrow> hpu_udp_priv" where
  "udp_destroy p = close_fd p"

definition hpu_udp_sink_ops :: "net_env \<Rightarrow> hpu_udp_priv sink_ops" where
  "hpu_udp_sink_ops E =
     \<lparr>so_type = Some ''udp'', so_abi_version = HPULOGC_SINK_ABI_VERSION, so_cap_async = True, so_priv0 = udp_priv0,
      so_configure = Some udp_configure, so_init = Some udp_init, so_start = Some (udp_start E), so_emit = Some (udp_emit E),
      so_emit_batch = Some (udp_emit_batch E), so_flush = None, so_sync = None, so_periodic = None,
      so_destroy = Some udp_destroy, so_reserved = [False, False, False, False]\<rparr>"

section \<open>The sink over Unix sockets\<close>

record hpu_unix_priv = net_link +
  ux_path :: string
  ux_socktype :: nat

definition HPU_UNIX_PATH_MAX :: nat where "HPU_UNIX_PATH_MAX = 128"

definition unix_priv0 :: hpu_unix_priv where
  "unix_priv0 = net_link.extend link0 (hpu_unix_priv.fields [] 0)"

definition unix_configure :: "hpu_unix_priv \<Rightarrow> string \<Rightarrow> string option \<Rightarrow> int \<times> hpu_unix_priv" where
  "unix_configure p key val =
     (if key = ''path'' then (case short_text val HPU_UNIX_PATH_MAX of None \<Rightarrow> (- 1, p) | Some v \<Rightarrow> (0, p\<lparr>ux_path := v\<rparr>))
      else if key = ''socktype'' then
        (if val = Some ''dgram'' then (0, p\<lparr>ux_socktype := 1\<rparr>) else if val = Some ''stream'' then (0, p\<lparr>ux_socktype := 2\<rparr>) else (- 1, p))
      else configure_backoff p key val)"

definition unix_init :: "hpu_unix_priv \<Rightarrow> int \<times> hpu_unix_priv" where
  "unix_init p0 =
     (let p = default_backoff (if ux_socktype p0 = 0 then p0\<lparr>ux_socktype := 1\<rparr> else p0)
      in if ux_path p = [] \<or> nl_backoff_max_s p < nl_backoff_init_s p then (- 1, p) else (0, p))"

definition unix_target :: "hpu_unix_priv \<Rightarrow> net_target" where
  "unix_target p = (if ux_socktype p = 2 then NtUnixStream (ux_path p) else NtUnixDgram (ux_path p))"

definition unix_start :: "net_env \<Rightarrow> hpu_unix_priv \<Rightarrow> int \<times> hpu_unix_priv" where
  "unix_start E p =
     (case net_open E (unix_target p) p of (fd, p1) \<Rightarrow>
        if fd < 0 then (- 1, p1\<lparr>nl_fd := fd\<rparr>) else (0, p1\<lparr>nl_fd := fd, nl_connected := True\<rparr>))"

text \<open>The state machine of the connection is the one of the TCP sink.\<close>

definition unix_mark_disconnected :: "net_env \<Rightarrow> hpu_unix_priv \<Rightarrow> hpu_unix_priv" where
  "unix_mark_disconnected E p = tcp_mark_disconnected E p"

definition unix_reconnect :: "net_env \<Rightarrow> hpu_unix_priv \<Rightarrow> int \<times> hpu_unix_priv" where
  "unix_reconnect E p = link_reconnect E (unix_target p) p"

definition unix_send_dgram :: "net_env \<Rightarrow> string \<Rightarrow> hpu_unix_priv \<Rightarrow> int \<times> hpu_unix_priv" where
  "unix_send_dgram E data p =
     (case hpu_net_send E data p of (res, p1) \<Rightarrow> (case res of SendOk \<Rightarrow> 0 | SendAgain \<Rightarrow> 1 | SendError \<Rightarrow> - 1, p1))"

definition unix_emit :: "net_env \<Rightarrow> hpu_unix_priv \<Rightarrow> hpulogc_event \<Rightarrow> hpu_unix_priv \<times> nat" where
  "unix_emit E p ev =
     (case (if nl_connected p then (0, p) else unix_reconnect E p) of (rc, p1) \<Rightarrow>
        if rc \<noteq> 0 then (p1, 1)
        else if ux_socktype p1 = 1 then
          (case unix_send_dgram E (ev_line ev) p1 of (rc1, p2) \<Rightarrow>
             if rc1 = 1 then (p2, 1) else if rc1 \<noteq> 0 then (unix_mark_disconnected E p2, 1) else (p2, 0))
        else stream_emit E (ev_line ev) p1)"

fun unix_dgram_batch :: "net_env \<Rightarrow> nat \<Rightarrow> hpulogc_event list \<Rightarrow> hpu_unix_priv \<Rightarrow> int \<times> hpu_unix_priv" where
  "unix_dgram_batch E done_n [] p = (int done_n, p)"
| "unix_dgram_batch E done_n (ev # evs) p =
     (case unix_send_dgram E (ev_line ev) p of (rc, p1) \<Rightarrow>
        if rc = 0 then unix_dgram_batch E (done_n + 1) evs p1
        else if rc = 1 then unix_dgram_batch E done_n evs p1
        else (batch_result done_n, unix_mark_disconnected E p1))"

definition unix_emit_batch :: "net_env \<Rightarrow> hpu_unix_priv \<Rightarrow> hpulogc_event list \<Rightarrow> int \<times> hpu_unix_priv \<times> nat" where
  "unix_emit_batch E p evs =
     (case (if nl_connected p then (0, p) else unix_reconnect E p) of (rc, p1) \<Rightarrow>
        if rc \<noteq> 0 then (0, p1, 0)
        else case (if ux_socktype p1 = 1 then unix_dgram_batch E 0 evs p1 else stream_batch E 0 (map ev_line evs) p1) of
               (n, p2) \<Rightarrow> (n, p2, 0))"

definition unix_destroy :: "hpu_unix_priv \<Rightarrow> hpu_unix_priv" where
  "unix_destroy p = (close_fd p)\<lparr>nl_connected := False\<rparr>"

definition hpu_unix_sink_ops :: "net_env \<Rightarrow> hpu_unix_priv sink_ops" where
  "hpu_unix_sink_ops E =
     \<lparr>so_type = Some ''unix'', so_abi_version = HPULOGC_SINK_ABI_VERSION, so_cap_async = True, so_priv0 = unix_priv0,
      so_configure = Some unix_configure, so_init = Some unix_init, so_start = Some (unix_start E), so_emit = Some (unix_emit E),
      so_emit_batch = Some (unix_emit_batch E), so_flush = None, so_sync = None, so_periodic = None,
      so_destroy = Some unix_destroy, so_reserved = [False, False, False, False]\<rparr>"

section \<open>The pipe sink\<close>

record hpu_fifo_priv = net_link +
  ff_path :: string

definition HPU_FIFO_STAGE_SIZE :: nat where "HPU_FIFO_STAGE_SIZE = 64 * 1024 + 1"
definition HPU_FIFO_PATH_MAX :: nat where "HPU_FIFO_PATH_MAX = 128"

definition fifo_priv0 :: hpu_fifo_priv where
  "fifo_priv0 = net_link.extend link0 (hpu_fifo_priv.fields [])"

definition fifo_configure :: "hpu_fifo_priv \<Rightarrow> string \<Rightarrow> string option \<Rightarrow> int \<times> hpu_fifo_priv" where
  "fifo_configure p key val =
     (if key = ''path'' then (case short_text val HPU_FIFO_PATH_MAX of None \<Rightarrow> (- 1, p) | Some v \<Rightarrow> (0, p\<lparr>ff_path := v\<rparr>))
      else configure_backoff p key val)"

definition fifo_init :: "hpu_fifo_priv \<Rightarrow> int \<times> hpu_fifo_priv" where
  "fifo_init p0 =
     (let p = default_backoff p0 in if ff_path p = [] \<or> nl_backoff_max_s p < nl_backoff_init_s p then (- 1, p) else (0, p))"

definition fifo_arm_backoff :: "net_env \<Rightarrow> hpu_fifo_priv \<Rightarrow> hpu_fifo_priv" where
  "fifo_arm_backoff E p = arm_backoff E (first_backoff (close_fd p))"

text \<open>0 opened, 1 worth retrying, -2 a hard failure.\<close>

definition fifo_open_write_end :: "net_env \<Rightarrow> hpu_fifo_priv \<Rightarrow> int \<times> hpu_fifo_priv" where
  "fifo_open_write_end E p =
     (case net_open E (NtFifo (ff_path p)) p of (fd, p1) \<Rightarrow>
        if fd \<ge> 0 then (0, p1\<lparr>nl_fd := fd\<rparr>) else if fd = - 1 then (1, fifo_arm_backoff E p1) else (- 2, p1))"

definition fifo_start :: "net_env \<Rightarrow> hpu_fifo_priv \<Rightarrow> int \<times> hpu_fifo_priv" where
  "fifo_start E p = (case fifo_open_write_end E p of (rc, p1) \<Rightarrow> (if rc = - 2 then - 1 else 0, p1))"

definition fifo_try_reopen :: "net_env \<Rightarrow> hpu_fifo_priv \<Rightarrow> int \<times> hpu_fifo_priv" where
  "fifo_try_reopen E p0 =
     (case hpu_now_ns E p0 of (now, p) \<Rightarrow>
        if now < nl_retry_deadline_ns p then (- 1, p)
        else case fifo_open_write_end E p of (rc, p1) \<Rightarrow>
          if rc = - 2 then (- 1, fifo_arm_backoff E p1)
          else if rc \<noteq> 0 then (- 1, p1)
          else (0, p1\<lparr>nl_backoff_ns := nl_backoff_init_s p1 * NS_PER_S, nl_retry_deadline_ns := 0\<rparr>))"

text \<open>The writes of one record until all is taken or one fails: 0 written, 1 the pipe is full, -1 lost.\<close>

definition fifo_write_record :: "net_env \<Rightarrow> string \<Rightarrow> hpu_fifo_priv \<Rightarrow> int \<times> hpu_fifo_priv" where
  "fifo_write_record E data p =
     (if \<not> ne_sigmask E (nl_log p) then (- 1, p)
      else case hpu_net_send E data p of (res, p1) \<Rightarrow> (case res of SendOk \<Rightarrow> 0 | SendAgain \<Rightarrow> 1 | SendError \<Rightarrow> - 1, p1))"

text \<open>The code, the state and the lines booked as failed.\<close>

definition fifo_deliver :: "net_env \<Rightarrow> string \<Rightarrow> hpu_fifo_priv \<Rightarrow> int \<times> hpu_fifo_priv \<times> nat" where
  "fifo_deliver E line p =
     (case fifo_write_record E (take (HPU_FIFO_STAGE_SIZE - 1) line @ [CHR 0x0A]) p of (rc, p1) \<Rightarrow>
        if rc = 0 then (0, p1, 0) else if rc = 1 then (1, p1, 1) else (2, fifo_arm_backoff E p1, 1))"

definition fifo_emit :: "net_env \<Rightarrow> hpu_fifo_priv \<Rightarrow> hpulogc_event \<Rightarrow> hpu_fifo_priv \<times> nat" where
  "fifo_emit E p ev =
     (case (if nl_fd p < 0 then fifo_try_reopen E p else (0, p)) of (rc, p1) \<Rightarrow>
        if rc \<noteq> 0 then (p1, 1) else case fifo_deliver E (ev_line ev) p1 of (rc1, p2, n) \<Rightarrow> (p2, n))"

fun fifo_batch :: "net_env \<Rightarrow> nat \<Rightarrow> hpulogc_event list \<Rightarrow> hpu_fifo_priv \<Rightarrow> int \<times> hpu_fifo_priv \<times> nat" where
  "fifo_batch E done_n [] p = (int done_n, p, 0)"
| "fifo_batch E done_n (ev # evs) p =
     (case fifo_deliver E (ev_line ev) p of (rc, p1, n) \<Rightarrow>
        if rc = 2 then (batch_result done_n, p1, n)
        else case fifo_batch E (if rc = 0 then done_n + 1 else done_n) evs p1 of (k, p2, n2) \<Rightarrow> (k, p2, n + n2))"

definition fifo_emit_batch :: "net_env \<Rightarrow> hpu_fifo_priv \<Rightarrow> hpulogc_event list \<Rightarrow> int \<times> hpu_fifo_priv \<times> nat" where
  "fifo_emit_batch E p evs =
     (case (if nl_fd p < 0 then fifo_try_reopen E p else (0, p)) of (rc, p1) \<Rightarrow> if rc \<noteq> 0 then (0, p1, 0) else fifo_batch E 0 evs p1)"

definition fifo_destroy :: "hpu_fifo_priv \<Rightarrow> hpu_fifo_priv" where
  "fifo_destroy p = close_fd p"

definition hpu_fifo_sink_ops :: "net_env \<Rightarrow> hpu_fifo_priv sink_ops" where
  "hpu_fifo_sink_ops E =
     \<lparr>so_type = Some ''fifo'', so_abi_version = HPULOGC_SINK_ABI_VERSION, so_cap_async = True, so_priv0 = fifo_priv0,
      so_configure = Some fifo_configure, so_init = Some fifo_init, so_start = Some (fifo_start E), so_emit = Some (fifo_emit E),
      so_emit_batch = Some (fifo_emit_batch E), so_flush = None, so_sync = None, so_periodic = None,
      so_destroy = Some fifo_destroy, so_reserved = [False, False, False, False]\<rparr>"

section \<open>The syslog sink\<close>

text \<open>The 32-bit instance counter of the process and the calls of the C library are part of the state.\<close>

datatype syslog_call = Openlog string int | Syslog int string | Closelog

record hpu_syslog_priv =
  sl_facility :: int
  sl_opened :: bool
  sl_name :: string
  sl_instances :: nat
  sl_calls :: "syslog_call list"

text \<open>The values of \<^verbatim>\<open>syslog.h\<close>: facilities in steps of eight, priorities below.\<close>

definition facility_table :: "(string \<times> int) list" where
  "facility_table = [(''user'', 8), (''daemon'', 24), (''auth'', 32), (''cron'', 72), (''local0'', 128), (''local1'', 136),
     (''local2'', 144), (''local3'', 152), (''local4'', 160), (''local5'', 168), (''local6'', 176), (''local7'', 184)]"

definition facility_from_name :: "string \<Rightarrow> int" where
  "facility_from_name val = (case map_of facility_table val of Some f \<Rightarrow> f | None \<Rightarrow> - 1)"

definition syslog_configure :: "hpu_syslog_priv \<Rightarrow> string \<Rightarrow> string option \<Rightarrow> int \<times> hpu_syslog_priv" where
  "syslog_configure p key val =
     (if key = ''facility'' then
        (case val of None \<Rightarrow> (- 1, p)
         | Some v \<Rightarrow> if facility_from_name v < 0 then (- 1, p) else (0, p\<lparr>sl_facility := facility_from_name v\<rparr>))
      else (- 1, p))"

definition syslog_init :: "hpu_syslog_priv \<Rightarrow> int \<times> hpu_syslog_priv" where
  "syslog_init p = (if sl_instances p \<noteq> 0 then - 1 else 0, p\<lparr>sl_instances := (sl_instances p + 1) mod 2 ^ 32\<rparr>)"

definition syslog_start :: "hpu_syslog_priv \<Rightarrow> int \<times> hpu_syslog_priv" where
  "syslog_start p =
     (0, p\<lparr>sl_calls := sl_calls p @ [Openlog (if sl_name p \<noteq> [] then sl_name p else ''hpulogc'') (sl_facility p)], sl_opened := True\<rparr>)"

definition pri_by_level :: "int list" where
  "pri_by_level = [7, 7, 6, 4, 3, 2]"

text \<open>The text of the call is the line up to a NUL.\<close>

definition syslog_emit :: "hpu_syslog_priv \<Rightarrow> hpulogc_event \<Rightarrow> hpu_syslog_priv \<times> nat" where
  "syslog_emit p ev =
     (if \<not> sl_opened p then (p, 0)
      else let pri = (if 0 \<le> ev_level ev \<and> ev_level ev \<le> 5 then pri_by_level ! nat (ev_level ev) else 6)
      in (p\<lparr>sl_calls := sl_calls p @ [Syslog pri (cstr (ev_line ev))]\<rparr>, 0))"

definition syslog_destroy :: "hpu_syslog_priv \<Rightarrow> hpu_syslog_priv" where
  "syslog_destroy p =
     (let p1 = (if sl_opened p then p\<lparr>sl_calls := sl_calls p @ [Closelog], sl_opened := False\<rparr> else p)
      in p1\<lparr>sl_instances := (sl_instances p1 + (2 ^ 32 - 1)) mod 2 ^ 32\<rparr>)"

definition hpu_syslog_sink_ops :: "string \<Rightarrow> nat \<Rightarrow> hpu_syslog_priv sink_ops" where
  "hpu_syslog_sink_ops name instances =
     \<lparr>so_type = Some ''syslog'', so_abi_version = HPULOGC_SINK_ABI_VERSION, so_cap_async = False,
      so_priv0 = \<lparr>sl_facility = 0, sl_opened = False, sl_name = name, sl_instances = instances, sl_calls = []\<rparr>,
      so_configure = Some syslog_configure, so_init = Some syslog_init, so_start = Some syslog_start, so_emit = Some syslog_emit,
      so_emit_batch = None, so_flush = None, so_sync = None, so_periodic = None, so_destroy = Some syslog_destroy,
      so_reserved = [False, False, False, False]\<rparr>"

end
