(* ===== verification/HttpSink.thy ===== *)
theory HttpSink
  imports NetSinks FormatCompile
begin

text \<open>
  The HTTP sink, \<^verbatim>\<open>src/output/sink_http.c\<close>: the URL and the headers of its configuration, the
  request, the response, and the batches posted. The connection state and the body buffer are those of the
  other sinks; in ndjson mode the first byte of the buffer is reserved for a bracket that is written when the
  body is sent, and \<open>nl_buf\<close> holds what follows it.
\<close>

section \<open>The state\<close>

definition HPU_HTTP_BODY_SIZE :: nat where "HPU_HTTP_BODY_SIZE = 64 * 1024"
definition HPU_HTTP_REQHDR_MAX :: nat where "HPU_HTTP_REQHDR_MAX = 4096"
definition HPU_HTTP_RESPBUF_MAX :: nat where "HPU_HTTP_RESPBUF_MAX = 2048"
definition HPU_HTTP_DRAIN_MAX :: int where "HPU_HTTP_DRAIN_MAX = 64 * 1024"
definition HPU_HTTP_TIMEOUT_DEFAULT_MS :: nat where "HPU_HTTP_TIMEOUT_DEFAULT_MS = 1000"
definition HPU_HTTP_TIMEOUT_MIN_MS :: int where "HPU_HTTP_TIMEOUT_MIN_MS = 100"
definition HPU_HTTP_TIMEOUT_MAX_MS :: int where "HPU_HTTP_TIMEOUT_MAX_MS = 60000"
definition HPU_HTTP_HOST_MAX :: nat where "HPU_HTTP_HOST_MAX = 256"
definition HPU_HTTP_PATH_MAX :: nat where "HPU_HTTP_PATH_MAX = 512"
definition HPU_HTTP_HEADER_MAX :: nat where "HPU_HTTP_HEADER_MAX = 8"
definition HPU_HTTP_HEADER_KEY_MAX :: nat where "HPU_HTTP_HEADER_KEY_MAX = 128"
definition HPU_HTTP_HEADER_VAL_MAX :: nat where "HPU_HTTP_HEADER_VAL_MAX = 256"

text \<open>\<open>hp_async\<close> is the flag of the instance, which the sink reads through \<^verbatim>\<open>hpu_sink_base\<close>.\<close>

record hpu_http_priv = net_link +
  hp_host :: string
  hp_path :: string
  hp_port :: nat
  hp_headers :: "(string \<times> string) list"
  hp_ndjson :: bool
  hp_is_v6 :: bool
  hp_timeout_ms :: nat
  hp_addr :: string
  hp_async :: bool

definition http_priv0 :: "bool \<Rightarrow> hpu_http_priv" where
  "http_priv0 async = net_link.extend link0 (hpu_http_priv.fields [] [] 0 [] False False 0 [] async)"

definition http_body_len :: "hpu_http_priv \<Rightarrow> nat" where
  "http_body_len p = length (nl_buf p) + (if hp_ndjson p then 1 else 0)"

definition http_reset_body :: "hpu_http_priv \<Rightarrow> hpu_http_priv" where
  "http_reset_body p = p\<lparr>nl_buf := [], nl_buf_lines := 0\<rparr>"

section \<open>Configuration\<close>

definition http_url_path :: "hpu_http_priv \<Rightarrow> string \<Rightarrow> int \<times> hpu_http_priv" where
  "http_url_path p s =
     (if s = [] then (0, p\<lparr>hp_path := ''/''\<rparr>)
      else if hd s \<noteq> CHR ''/'' \<or> length s \<ge> HPU_HTTP_PATH_MAX \<or> (\<exists>c\<in>set s. of_char c < (0x20 :: nat) \<or> c = CHR 0x7F) then (- 1, p)
      else (0, p\<lparr>hp_path := s\<rparr>))"

definition http_url_port :: "hpu_http_priv \<Rightarrow> string \<Rightarrow> int \<times> hpu_http_priv" where
  "http_url_port p after =
     (if hp_is_v6 p \<and> after \<noteq> [] \<and> hd after \<noteq> CHR '':'' \<and> hd after \<noteq> CHR ''/'' then (- 1, p)
      else if after \<noteq> [] \<and> hd after = CHR '':'' then
        (case scan_number 10 (tl after) of (neg, ds, rest) \<Rightarrow>
           let n = strtol 10 (tl after)
           in if ds = [] \<or> (rest \<noteq> [] \<and> hd rest \<noteq> CHR ''/'') \<or> n < 1 \<or> n > 65535 then (- 1, p)
              else http_url_path (p\<lparr>hp_port := nat n\<rparr>) rest)
      else http_url_path p after)"

definition http_bad_host_char :: "char \<Rightarrow> bool" where
  "http_bad_host_char c \<longleftrightarrow> c = CHR ''@'' \<or> c = CHR ''['' \<or> c = CHR '']'' \<or> of_char c \<le> (0x20 :: nat) \<or> c = CHR 0x7F"

definition http_parse_url :: "hpu_http_priv \<Rightarrow> string option \<Rightarrow> int \<times> hpu_http_priv" where
  "http_parse_url p0 val =
     (case val of None \<Rightarrow> (- 1, p0)
      | Some v \<Rightarrow>
        if take 7 v \<noteq> ''http://'' \<or> drop 7 v = [] then (- 1, p0)
        else
          let v6 = (hd (drop 7 v) = CHR ''['');
              r = (if v6 then tl (drop 7 v) else drop 7 v)
          in if v6 \<and> CHR '']'' \<notin> set r then (- 1, p0\<lparr>hp_is_v6 := False\<rparr>)
             else
               let host = takeWhile (\<lambda>c. if v6 then c \<noteq> CHR '']'' else c \<noteq> CHR '':'' \<and> c \<noteq> CHR ''/'') r;
                   after = drop (length host + (if v6 then 1 else 0)) r
               in if host = [] \<or> length host \<ge> HPU_HTTP_HOST_MAX \<or> (\<exists>c\<in>set host. http_bad_host_char c) then (- 1, p0\<lparr>hp_is_v6 := v6\<rparr>)
                  else http_url_port (p0\<lparr>hp_is_v6 := v6, hp_host := host, hp_port := 80\<rparr>) after)"

definition http_add_header :: "hpu_http_priv \<Rightarrow> string option \<Rightarrow> int \<times> hpu_http_priv" where
  "http_add_header p val =
     (case val of None \<Rightarrow> (- 1, p)
      | Some s \<Rightarrow>
        if length (hp_headers p) \<ge> HPU_HTTP_HEADER_MAX \<or> CHR '':'' \<notin> set s \<or> CHR 0x0D \<in> set s \<or> CHR 0x0A \<in> set s then (- 1, p)
        else
          let key = takeWhile (\<lambda>c. c \<noteq> CHR '':'') s;
              v = dropWhile (\<lambda>c. c = CHR '' '' \<or> c = CHR 0x09) (drop (length key + 1) s)
          in if key = [] \<or> length key \<ge> HPU_HTTP_HEADER_KEY_MAX \<or> length v \<ge> HPU_HTTP_HEADER_VAL_MAX then (- 1, p)
             else (0, p\<lparr>hp_headers := hp_headers p @ [(key, v)]\<rparr>))"

definition http_configure :: "hpu_http_priv \<Rightarrow> string \<Rightarrow> string option \<Rightarrow> int \<times> hpu_http_priv" where
  "http_configure p key val =
     (if key = ''url'' then http_parse_url p val
      else if key = ''header'' then http_add_header p val
      else if key = ''batch mode'' then
        (if val = Some ''ndjson'' then (0, p\<lparr>hp_ndjson := True\<rparr>) else if val = Some ''lines'' then (0, p\<lparr>hp_ndjson := False\<rparr>) else (- 1, p))
      else if key = ''timeout ms'' then
        set_uint (parse_uint val HPU_HTTP_TIMEOUT_MIN_MS HPU_HTTP_TIMEOUT_MAX_MS) (\<lambda>n. p\<lparr>hp_timeout_ms := n\<rparr>) p
      else configure_backoff p key val)"

definition http_init :: "hpu_http_priv \<Rightarrow> int \<times> hpu_http_priv" where
  "http_init p0 =
     (if \<not> hp_async p0 then (- 1, p0)
      else
        let p = default_backoff (if hp_timeout_ms p0 = 0 then p0\<lparr>hp_timeout_ms := HPU_HTTP_TIMEOUT_DEFAULT_MS\<rparr> else p0)
        in if hp_host p = [] \<or> take 1 (hp_path p) \<noteq> ''/'' \<or> nl_backoff_max_s p < nl_backoff_init_s p then (- 1, p)
           else (0, http_reset_body p))"

section \<open>The connection\<close>

definition http_connect :: "net_env \<Rightarrow> hpu_http_priv \<Rightarrow> int \<times> hpu_http_priv" where
  "http_connect E p =
     (case net_open E (NtTcp (hp_addr p)) p of (fd, p1) \<Rightarrow>
        if fd < 0 then (- 1, p1)
        else if \<not> ne_set_timeout E (nl_log p1) fd (hp_timeout_ms p1) then (- 1, net_log (NvClose fd) p1)
        else (fd, p1))"

definition http_start :: "net_env \<Rightarrow> hpu_http_priv \<Rightarrow> int \<times> hpu_http_priv" where
  "http_start E p =
     (case ne_resolve E (hp_host p) (dec_digits (hp_port p)) of
        None \<Rightarrow> (- 1, p)
      | Some addr \<Rightarrow>
          case http_connect E (p\<lparr>hp_addr := addr\<rparr>) of (fd, p1) \<Rightarrow>
            if fd < 0 then (- 1, p1\<lparr>nl_fd := fd\<rparr>) else (0, p1\<lparr>nl_fd := fd, nl_connected := True\<rparr>))"

definition http_conn_close :: "hpu_http_priv \<Rightarrow> hpu_http_priv" where
  "http_conn_close p = http_reset_body ((close_fd p)\<lparr>nl_connected := False, nl_backoff_ns := 0, nl_retry_deadline_ns := 0\<rparr>)"

definition http_mark_disconnected :: "net_env \<Rightarrow> hpu_http_priv \<Rightarrow> hpu_http_priv" where
  "http_mark_disconnected E p = arm_backoff E (first_backoff (http_reset_body ((close_fd p)\<lparr>nl_connected := False\<rparr>)))"

definition http_reconnect :: "net_env \<Rightarrow> hpu_http_priv \<Rightarrow> int \<times> hpu_http_priv" where
  "http_reconnect E p0 =
     (case hpu_now_ns E p0 of (now, p) \<Rightarrow>
        if now < nl_retry_deadline_ns p then (- 1, p)
        else case http_connect E p of (fd, p1) \<Rightarrow>
          let p2 = p1\<lparr>nl_fd := fd\<rparr>
          in if fd < 0 then (- 1, arm_backoff E p2)
             else (0, p2\<lparr>nl_connected := True, nl_backoff_ns := nl_backoff_init_s p2 * NS_PER_S, nl_retry_deadline_ns := 0\<rparr>))"

section \<open>The body\<close>

definition http_json_char_len :: "char \<Rightarrow> nat" where
  "http_json_char_len c =
     (if c \<in> {CHR 0x22, CHR 0x5C, CHR 0x0A, CHR 0x0D, CHR 0x09, CHR 0x08, CHR 0x0C} then 2
      else if of_char c < (0x20 :: nat) then 6 else 1)"

definition http_json_element_len :: "hpu_http_priv \<Rightarrow> string \<Rightarrow> nat" where
  "http_json_element_len p s = 2 + sum_list (map http_json_char_len s) + (if http_body_len p > 1 then 1 else 0)"

definition http_json_escape_char :: "char \<Rightarrow> string" where
  "http_json_escape_char c =
     (if c = CHR 0x22 then [CHR 0x5C, CHR 0x22]
      else if c = CHR 0x5C then [CHR 0x5C, CHR 0x5C]
      else if c = CHR 0x08 then [CHR 0x5C, CHR ''b'']
      else if c = CHR 0x0C then [CHR 0x5C, CHR ''f'']
      else if c = CHR 0x0A then [CHR 0x5C, CHR ''n'']
      else if c = CHR 0x0D then [CHR 0x5C, CHR ''r'']
      else if c = CHR 0x09 then [CHR 0x5C, CHR ''t'']
      else if of_char c < (0x20 :: nat) then CHR 0x5C # ''u00'' @ [hex_digit (of_char c div 16 mod 16), hex_digit (of_char c mod 16)]
      else [c])"

definition http_json_escape :: "string \<Rightarrow> string" where
  "http_json_escape s = concat (map http_json_escape_char s)"

text \<open>The bytes an event adds to the body, and how many there may be.\<close>

definition http_append :: "string \<Rightarrow> hpu_http_priv \<Rightarrow> hpu_http_priv" where
  "http_append line p =
     p\<lparr>nl_buf := nl_buf p @
         (if hp_ndjson p then (if http_body_len p > 1 then '','' else []) @ [CHR 0x22] @ http_json_escape line @ [CHR 0x22]
          else line @ [CHR 0x0A])\<rparr>"

definition http_need :: "hpu_http_priv \<Rightarrow> string \<Rightarrow> nat" where
  "http_need p line = (if hp_ndjson p then http_json_element_len p line else length line + 1)"

definition http_budget :: "hpu_http_priv \<Rightarrow> nat" where
  "http_budget p = HPU_HTTP_BODY_SIZE - (if hp_ndjson p then 1 else 0)"

definition http_body :: "hpu_http_priv \<Rightarrow> string" where
  "http_body p = (if hp_ndjson p then ''['' @ nl_buf p @ '']'' else nl_buf p)"

section \<open>The request\<close>

definition http_hostport :: "hpu_http_priv \<Rightarrow> string" where
  "http_hostport p =
     (let h = (if hp_is_v6 p then ''['' @ hp_host p @ '']'' else hp_host p)
      in if hp_port p = 80 then h else h @ '':'' @ dec_digits (hp_port p))"

definition CRLF :: string where "CRLF = [CHR 0x0D, CHR 0x0A]"

definition http_request_head :: "hpu_http_priv \<Rightarrow> nat \<Rightarrow> string" where
  "http_request_head p body_len =
     ''POST '' @ hp_path p @ '' HTTP/1.1'' @ CRLF @
     ''Host: '' @ take (HPU_HTTP_HOST_MAX + 7) (http_hostport p) @ CRLF @
     ''Content-Type: '' @ (if hp_ndjson p then ''application/x-ndjson'' else ''text/plain'') @ CRLF @
     ''Content-Length: '' @ dec_digits body_len @ CRLF"

definition http_header_line :: "string \<times> string \<Rightarrow> string" where
  "http_header_line h = fst h @ '': '' @ snd h @ CRLF"

fun http_put_headers :: "nat \<Rightarrow> (string \<times> string) list \<Rightarrow> string \<Rightarrow> string option" where
  "http_put_headers cap [] out = Some out"
| "http_put_headers cap (h # hs) out =
     (if length (http_header_line h) \<ge> cap - length out then None else http_put_headers cap hs (out @ http_header_line h))"

definition http_build_request :: "hpu_http_priv \<Rightarrow> nat \<Rightarrow> nat \<Rightarrow> string option" where
  "http_build_request p body_len cap =
     (if length (http_request_head p body_len) \<ge> cap then None
      else case http_put_headers cap (hp_headers p) (http_request_head p body_len) of
        None \<Rightarrow> None
      | Some out \<Rightarrow> if length out + 2 \<ge> cap then None else Some (out @ CRLF))"

section \<open>The response\<close>

definition hpu_net_recv :: "net_env \<Rightarrow> nat \<Rightarrow> 'z net_link_scheme \<Rightarrow> string \<times> 'z net_link_scheme" where
  "hpu_net_recv E cap p = (let s = take cap (ne_recv E (nl_log p) (nl_fd p) cap) in (s, net_log (NvRecv (nl_fd p) s) p))"

text \<open>The position after the empty line.\<close>

fun header_end :: "nat \<Rightarrow> string \<Rightarrow> nat option" where
  "header_end i [] = None"
| "header_end i (c # s) = (if take 4 (c # s) = CRLF @ CRLF then Some (i + 4) else header_end (i + 1) s)"

function http_recv_headers :: "net_env \<Rightarrow> string \<Rightarrow> hpu_http_priv \<Rightarrow> (string \<times> nat) option \<times> hpu_http_priv" where
  "http_recv_headers E rbuf p =
     (if length rbuf \<ge> HPU_HTTP_RESPBUF_MAX then (None, p)
      else case hpu_net_recv E (HPU_HTTP_RESPBUF_MAX - length rbuf) p of (s, p1) \<Rightarrow>
        if s = [] then (None, p1)
        else case header_end 0 (rbuf @ s) of
          Some e \<Rightarrow> (Some (rbuf @ s, e), p1)
        | None \<Rightarrow> http_recv_headers E (rbuf @ s) p1)"
  by pat_completeness auto
termination
  by (relation "measure (\<lambda>(E, rbuf, p). HPU_HTTP_RESPBUF_MAX - length rbuf)") (auto simp flip: length_greater_0_conv)

declare http_recv_headers.simps [simp del]

text \<open>A header at the start of a line; the position after its colon.\<close>

fun http_find_header :: "string \<Rightarrow> nat \<Rightarrow> bool \<Rightarrow> string \<Rightarrow> nat option" where
  "http_find_header name i at_start [] = None"
| "http_find_header name i at_start (c # s) =
     (if at_start \<and> length name + 1 \<le> length (c # s) \<and> map tolower (take (length name) (c # s)) = name
         \<and> (c # s) ! length name = CHR '':''
      then Some (i + length name + 1)
      else http_find_header name (i + 1) (c = CHR 0x0A) s)"

function http_says_close_token :: "string \<Rightarrow> bool" where
  "http_says_close_token v =
     (let t = dropWhile (\<lambda>c. c = CHR '' '' \<or> c = CHR 0x09 \<or> c = CHR '','') v
      in if t = [] then False
         else if map tolower (take 5 t) = ''close'' \<and> (drop 5 t = [] \<or> hd (drop 5 t) \<in> {CHR '','', CHR '' '', CHR 0x09}) then True
         else http_says_close_token (dropWhile (\<lambda>c. c \<noteq> CHR '','') t))"
  by pat_completeness auto
termination
proof (relation "measure length")
  fix v t :: string
  assume t: "t = dropWhile (\<lambda>c. c = CHR '' '' \<or> c = CHR 0x09 \<or> c = CHR '','') v" "t \<noteq> []"
  then have "hd t \<noteq> CHR '',''" using hd_dropWhile [of "\<lambda>c. c = CHR '' '' \<or> c = CHR 0x09 \<or> c = CHR '',''" v] by auto
  then have "length (dropWhile (\<lambda>c. c \<noteq> CHR '','') t) < length t" using t(2) by (cases t) (auto simp: le_imp_less_Suc length_dropWhile_le)
  also have "length t \<le> length v" using t(1) by (simp add: length_dropWhile_le)
  finally show "(dropWhile (\<lambda>c. c \<noteq> CHR '','') t, v) \<in> measure length" by simp
qed simp

declare http_says_close_token.simps [simp del]

definition http_header_says_close :: "string \<Rightarrow> bool" where
  "http_header_says_close v = http_says_close_token (takeWhile (\<lambda>c. c \<noteq> CHR 0x0D \<and> c \<noteq> CHR 0x0A \<and> c \<noteq> CHR 0x00) v)"

function http_drain :: "net_env \<Rightarrow> nat \<Rightarrow> nat \<Rightarrow> hpu_http_priv \<Rightarrow> bool \<times> hpu_http_priv" where
  "http_drain E want drained p =
     (if drained \<ge> want then (True, p)
      else case hpu_net_recv E HPU_HTTP_RESPBUF_MAX p of (s, p1) \<Rightarrow>
        if s = [] then (False, p1) else http_drain E want (drained + length s) p1)"
  by pat_completeness auto
termination
  by (relation "measure (\<lambda>(E, want, drained, p). want - drained)") (auto simp flip: length_greater_0_conv)

declare http_drain.simps [simp del]

text \<open>The three digits after the first blank.\<close>

definition http_status :: "string \<Rightarrow> int option" where
  "http_status rbuf =
     (let sp = length (takeWhile (\<lambda>c. c \<noteq> CHR '' '') rbuf)
      in if length rbuf < 12 \<or> take 5 rbuf \<noteq> ''HTTP/'' \<or> sp = length rbuf \<or> sp + 4 > length rbuf
            \<or> \<not> is_digit (rbuf ! (sp + 1)) \<or> \<not> is_digit (rbuf ! (sp + 2)) \<or> \<not> is_digit (rbuf ! (sp + 3)) then None
         else Some ((of_char (rbuf ! (sp + 1)) - 48) * 100 + (of_char (rbuf ! (sp + 2)) - 48) * 10 + (of_char (rbuf ! (sp + 3)) - 48)))"

text \<open>\<^verbatim>\<open>strtol\<close> skips blanks and line ends, so an empty length is read from what follows the headers.\<close>

definition http_content_length :: "string \<Rightarrow> nat \<Rightarrow> int" where
  "http_content_length rbuf hdr_end =
     (case http_find_header ''content-length'' 0 True (take hdr_end rbuf) of
        None \<Rightarrow> - 1
      | Some v \<Rightarrow> (let cl = strtol 10 (drop v rbuf) in if cl < 0 then - 1 else cl))"

definition http_close_flag :: "string \<Rightarrow> nat \<Rightarrow> bool" where
  "http_close_flag rbuf hdr_end =
     (case http_find_header ''connection'' 0 True (take hdr_end rbuf) of
        None \<Rightarrow> False
      | Some v \<Rightarrow> http_header_says_close (take (hdr_end - v) (drop v rbuf)))"

text \<open>The status and whether the connection can be used again; nothing when it is dead.\<close>

definition http_read_response :: "net_env \<Rightarrow> hpu_http_priv \<Rightarrow> (int \<times> bool) option \<times> hpu_http_priv" where
  "http_read_response E p0 =
     (case http_recv_headers E [] p0 of (r, p) \<Rightarrow>
        case r of None \<Rightarrow> (None, p)
        | Some (rbuf, hdr_end) \<Rightarrow>
          case http_status rbuf of None \<Rightarrow> (None, p)
          | Some code \<Rightarrow>
            let cl = http_content_length rbuf hdr_end;
                buffered = length rbuf - hdr_end
            in if code < 200 \<or> code > 299 \<or> http_close_flag rbuf hdr_end \<or> cl < 0 then (Some (code, False), p)
               else if cl > HPU_HTTP_DRAIN_MAX \<or> int buffered > cl then (Some (code, False), p)
               else case http_drain E (nat cl) (min buffered (nat cl)) p of (ok, p1) \<Rightarrow>
                 (if ok then Some (code, True) else None, p1))"

section \<open>Delivery\<close>

definition http_flush_post :: "net_env \<Rightarrow> nat \<Rightarrow> hpu_http_priv \<Rightarrow> int \<times> nat \<times> hpu_http_priv" where
  "http_flush_post E done_n p =
     (if nl_buf_lines p = 0 then (0, done_n, p)
      else
        let failed = (\<lambda>q. (- 1, done_n - nl_buf_lines p, http_mark_disconnected E q))
        in case http_build_request p (length (http_body p)) HPU_HTTP_REQHDR_MAX of None \<Rightarrow> failed p
           | Some hdr \<Rightarrow>
             case hpu_net_send E hdr p of (r1, p1) \<Rightarrow>
               if r1 \<noteq> SendOk then failed p1
               else case hpu_net_send E (http_body p) p1 of (r2, p2) \<Rightarrow>
                 if r2 \<noteq> SendOk then failed p2
                 else case http_read_response E p2 of (r3, p3) \<Rightarrow>
                   case r3 of None \<Rightarrow> failed p3
                   | Some (status, reusable) \<Rightarrow>
                     if status < 200 \<or> status > 299 then failed p3
                     else if \<not> reusable then (0, done_n, http_conn_close p3)
                     else (0, done_n, http_reset_body p3))"

definition http_emit :: "net_env \<Rightarrow> hpu_http_priv \<Rightarrow> hpulogc_event \<Rightarrow> hpu_http_priv \<times> nat" where
  "http_emit E p0 ev =
     (case (if nl_connected p0 then (0, p0) else http_reconnect E p0) of (rc, p) \<Rightarrow>
        if rc \<noteq> 0 then (p, 1)
        else if http_body_len p + http_need p (ev_line ev) > http_budget p then (p, 1)
        else case http_flush_post E 1 ((http_append (ev_line ev) p)\<lparr>nl_buf_lines := 1\<rparr>) of (rc2, n, p1) \<Rightarrow>
          (p1, if rc2 \<noteq> 0 then 1 else 0))"

text \<open>An element that would not fit an empty body is left out.\<close>

definition http_oversized :: "hpu_http_priv \<Rightarrow> string \<Rightarrow> bool" where
  "http_oversized p line \<longleftrightarrow> (if hp_ndjson p then 2 + http_json_element_len p line + 1 > http_budget p else length line + 1 > http_budget p)"

fun http_batch :: "net_env \<Rightarrow> nat \<Rightarrow> string list \<Rightarrow> hpu_http_priv \<Rightarrow> int \<times> hpu_http_priv" where
  "http_batch E done_n [] p =
     (case http_flush_post E done_n p of (rc, n, p1) \<Rightarrow> (if rc \<noteq> 0 then batch_result n else int n, p1))"
| "http_batch E done_n (line # lines) p =
     (if http_oversized p line then http_batch E done_n lines p
      else case (if http_body_len p + http_need p line > http_budget p then http_flush_post E done_n p else (0, done_n, p)) of
        (rc, n, p1) \<Rightarrow>
          if rc \<noteq> 0 then (batch_result n, p1)
          else http_batch E (n + 1) lines ((http_append line p1)\<lparr>nl_buf_lines := nl_buf_lines p1 + 1\<rparr>))"

definition http_emit_batch :: "net_env \<Rightarrow> hpu_http_priv \<Rightarrow> hpulogc_event list \<Rightarrow> int \<times> hpu_http_priv \<times> nat" where
  "http_emit_batch E p evs =
     (case (if nl_connected p then (0, p) else http_reconnect E p) of (rc, p1) \<Rightarrow>
        if rc \<noteq> 0 then (0, p1, 0)
        else case http_batch E 0 (map ev_line evs) p1 of (n, p2) \<Rightarrow> (n, p2, 0))"

definition http_destroy :: "hpu_http_priv \<Rightarrow> hpu_http_priv" where
  "http_destroy p = (close_fd p)\<lparr>nl_connected := False\<rparr>"

definition hpu_http_sink_ops :: "net_env \<Rightarrow> bool \<Rightarrow> hpu_http_priv sink_ops" where
  "hpu_http_sink_ops E async =
     \<lparr>so_type = Some ''http'', so_abi_version = HPULOGC_SINK_ABI_VERSION, so_cap_async = True, so_priv0 = http_priv0 async,
      so_configure = Some http_configure, so_init = Some http_init, so_start = Some (http_start E), so_emit = Some (http_emit E),
      so_emit_batch = Some (http_emit_batch E), so_flush = None, so_sync = None, so_periodic = None,
      so_destroy = Some http_destroy, so_reserved = [False, False, False, False]\<rparr>"

end
