(* ===== verification/NetSinkLaws.thy ===== *)
theory NetSinkLaws
  imports NetSinks "HOL-Library.Sublist"
begin

text \<open>
  What the stream sinks do with their lines, and how often they try to connect. A line goes out once or is
  counted as failed, whatever the connection does; attempts to connect keep the configured distance.
\<close>

section \<open>The bytes handed to the peer\<close>

definition frame :: "string \<Rightarrow> string" where
  "frame line = line @ [CHR 0x0A]"

definition event_bytes :: "net_event \<Rightarrow> string" where
  "event_bytes e = (case e of NvSend fd data k res \<Rightarrow> take k data | _ \<Rightarrow> [])"

definition gave :: "'z net_link_scheme \<Rightarrow> string" where
  "gave p = concat (map event_bytes (nl_log p))"

text \<open>What is exchanged with the peer: the calls to send and to receive.\<close>

definition is_talk :: "net_event \<Rightarrow> bool" where
  "is_talk e = (case e of NvSend fd data k res \<Rightarrow> True | NvRecv fd s \<Rightarrow> True | _ \<Rightarrow> False)"

definition talk :: "'z net_link_scheme \<Rightarrow> net_event list" where
  "talk p = filter is_talk (nl_log p)"

lemma is_talk_simps [simp]:
  "is_talk (NvSend fd data k res)" "is_talk (NvRecv fd s)" "\<not> is_talk (NvClock t)" "\<not> is_talk (NvOpen tgt fd)" "\<not> is_talk (NvClose fd)"
  by (simp_all add: is_talk_def)

lemma gave_talk: "gave p = concat (map event_bytes (talk p))"
proof -
  have "concat (map event_bytes es) = concat (map event_bytes (filter is_talk es))" for es
    by (induction es) (auto simp: event_bytes_def is_talk_def split: net_event.split)
  then show ?thesis by (simp add: gave_def talk_def)
qed

text \<open>
  The fate of each line: sent in full, or a part of it, possibly empty, has left. A line goes out as \<open>w line\<close>,
  on a stream with its newline.
\<close>

definition line_fates :: "(string \<Rightarrow> string) \<Rightarrow> (bool \<times> string) list \<Rightarrow> string list \<Rightarrow> bool" where
  "line_fates w fates lines \<longleftrightarrow> list_all2 (\<lambda>(ok, piece) line. prefix piece (w line) \<and> (ok \<longrightarrow> piece = w line)) fates lines"

abbreviation stream_fates :: "(bool \<times> string) list \<Rightarrow> string list \<Rightarrow> bool" where
  "stream_fates \<equiv> line_fates frame"

definition losses :: "(bool \<times> string) list \<Rightarrow> nat" where
  "losses fates = length (filter (\<lambda>(ok, piece). \<not> ok) fates)"

lemma fates_simps [simp]:
  "line_fates w [] []" "losses [] = 0" "losses (x # fs) = (if fst x then 0 else 1) + losses fs" "losses (fs @ gs) = losses fs + losses gs"
  by (simp_all add: line_fates_def losses_def case_prod_beta)

lemma fates_append: "line_fates w fs xs \<Longrightarrow> line_fates w gs ys \<Longrightarrow> line_fates w (fs @ gs) (xs @ ys)"
  by (simp add: line_fates_def list_all2_appendI)

lemma fates_one: "prefix piece (w line) \<Longrightarrow> (ok \<Longrightarrow> piece = w line) \<Longrightarrow> line_fates w [(ok, piece)] [line]"
  by (simp add: line_fates_def)

lemma fates_all_sent: "line_fates w (map (\<lambda>l. (True, w l)) xs) xs" "losses (map (\<lambda>l. (True, w l)) xs) = 0"
  "concat (map snd (map (\<lambda>l. (True, w l)) xs)) = concat (map w xs)"
  by (induction xs) (simp_all add: line_fates_def comp_def)

lemma fates_all_lost: "line_fates w (map (\<lambda>l. (False, [])) xs) xs" "losses (map (\<lambda>l. (False, [])) xs) = length xs"
  "concat (map snd (map (\<lambda>l. (False, [] :: string)) xs)) = []"
  by (induction xs) (simp_all add: line_fates_def)

text \<open>Part of a run of frames is a part of each.\<close>

lemma fates_of_prefix:
  "prefix t (concat (map frame xs)) \<Longrightarrow> \<exists>fs. stream_fates fs xs \<and> losses fs = length xs \<and> concat (map snd fs) = t"
proof (induction xs arbitrary: t)
  case Nil
  then show ?case by (intro exI [of _ "[]"]) simp
next
  case (Cons x xs)
  show ?case
  proof (cases "length t \<le> length (frame x)")
    case True
    then have p: "prefix t (frame x)" using Cons.prems by (metis concat.simps(2) list.simps(9) prefix_length_prefix prefix_order.refl prefixI)
    have "stream_fates ([(False, t)] @ map (\<lambda>l. (False, [])) xs) ([x] @ xs)"
      by (rule fates_append [OF fates_one fates_all_lost(1)]) (use p in auto)
    then show ?thesis using fates_all_lost(2,3) [where xs = \<open>xs\<close>] by (intro exI [of _ "(False, t) # map (\<lambda>l. (False, [])) xs"]) simp
  next
    case False
    have "prefix (frame x) (concat (map frame (x # xs)))" by simp
    then have "prefix (frame x) t" using prefix_length_prefix [OF _ Cons.prems, of "frame x"] False by simp
    then obtain u where u: "t = frame x @ u" by (auto simp: prefix_def)
    then obtain fs where fs: "stream_fates fs xs" "losses fs = length xs" "concat (map snd fs) = u" using Cons by auto
    have "stream_fates ([(False, frame x)] @ fs) ([x] @ xs)" by (rule fates_append [OF fates_one fs(1)]) auto
    then show ?thesis using fs u by (intro exI [of _ "(False, frame x) # fs"]) simp
  qed
qed

section \<open>A connection\<close>

lemma gave_log [simp]: "gave (net_log e p) = gave p @ event_bytes e"
  by (simp add: gave_def net_log_def)

lemma gave_cong: "nl_log p = nl_log q \<Longrightarrow> gave p = gave q"
  by (simp add: gave_def)

lemma gave_upd [simp]:
  "gave (p\<lparr>nl_fd := a\<rparr>) = gave p" "gave (p\<lparr>nl_connected := b\<rparr>) = gave p" "gave (p\<lparr>nl_buf := c\<rparr>) = gave p" "gave (p\<lparr>nl_buf_lines := d\<rparr>) = gave p"
  "gave (p\<lparr>nl_backoff_ns := e\<rparr>) = gave p" "gave (p\<lparr>nl_retry_deadline_ns := e\<rparr>) = gave p"
  by (simp_all add: gave_def)

lemma talk_log [simp]: "talk (net_log e p) = talk p @ (if is_talk e then [e] else [])"
  by (simp add: talk_def net_log_def)

lemma talk_upd [simp]:
  "talk (p\<lparr>nl_fd := a\<rparr>) = talk p" "talk (p\<lparr>nl_connected := b\<rparr>) = talk p" "talk (p\<lparr>nl_buf := c\<rparr>) = talk p" "talk (p\<lparr>nl_buf_lines := d\<rparr>) = talk p"
  "talk (p\<lparr>nl_backoff_ns := e\<rparr>) = talk p" "talk (p\<lparr>nl_retry_deadline_ns := e\<rparr>) = talk p"
  by (simp_all add: talk_def)

lemma net_log_fields [simp]:
  "nl_buf (net_log e p) = nl_buf p" "nl_buf_lines (net_log e p) = nl_buf_lines p" "nl_fd (net_log e p) = nl_fd p"
  "nl_connected (net_log e p) = nl_connected p" "nl_backoff_ns (net_log e p) = nl_backoff_ns p"
  "nl_backoff_init_s (net_log e p) = nl_backoff_init_s p" "nl_backoff_max_s (net_log e p) = nl_backoff_max_s p"
  "nl_retry_deadline_ns (net_log e p) = nl_retry_deadline_ns p" "nl_log (net_log e p) = nl_log p @ [e]"
  by (simp_all add: net_log_def)

lemma arm_frame [simp]:
  "gave (arm_backoff E p) = gave p" "talk (arm_backoff E p) = talk p" "nl_buf (arm_backoff E p) = nl_buf p" "nl_buf_lines (arm_backoff E p) = nl_buf_lines p"
  by (simp_all add: arm_backoff_def hpu_now_ns_def event_bytes_def Let_def)

lemma first_frame [simp]:
  "gave (first_backoff p) = gave p" "talk (first_backoff p) = talk p" "nl_buf (first_backoff p) = nl_buf p" "nl_buf_lines (first_backoff p) = nl_buf_lines p"
  by (simp_all add: first_backoff_def)

lemma disconnected_frame [simp]:
  "gave (tcp_mark_disconnected E p) = gave p" "nl_buf (tcp_mark_disconnected E p) = []" "nl_buf_lines (tcp_mark_disconnected E p) = 0"
  by (simp_all add: tcp_mark_disconnected_def close_fd_def event_bytes_def)

lemma send_spec:
  assumes "hpu_net_send E data p = (res, p')"
  shows "nl_buf p' = nl_buf p" "nl_buf_lines p' = nl_buf_lines p"
    and "if res = SendOk then gave p' = gave p @ data else \<exists>t. prefix t data \<and> gave p' = gave p @ t"
  using assms by (auto simp: hpu_net_send_def event_bytes_def take_is_prefix split: prod.splits)

lemma send_frame_spec:
  assumes "send_frame E line p = (ok, p')"
  shows "nl_buf p' = nl_buf p" "nl_buf_lines p' = nl_buf_lines p"
    and "\<exists>t. stream_fates [(ok, t)] [line] \<and> gave p' = gave p @ t"
proof -
  obtain res p1 where s1: "hpu_net_send E line p = (res, p1)" by (cases "hpu_net_send E line p")
  obtain res2 p2 where s2: "hpu_net_send E [CHR 0x0A] p1 = (res2, p2)" by (cases "hpu_net_send E [CHR 0x0A] p1")
  note a = send_spec [OF s1] and b = send_spec [OF s2]
  show "nl_buf p' = nl_buf p" "nl_buf_lines p' = nl_buf_lines p"
    using assms a b by (auto simp: send_frame_def s1 s2 split: if_splits)
  show "\<exists>t. stream_fates [(ok, t)] [line] \<and> gave p' = gave p @ t"
  proof (cases "res = SendOk")
    case False
    then obtain t where "prefix t line" "gave p1 = gave p @ t" using a(3) by auto
    moreover have "ok = False" "p' = p1" using assms False by (auto simp: send_frame_def s1)
    ultimately show ?thesis by (auto simp: frame_def intro!: fates_one)
  next
    case True
    then have o: "ok = (res2 = SendOk)" "p' = p2" "gave p1 = gave p @ line" using assms a(3) by (auto simp: send_frame_def s1 s2)
    show ?thesis
    proof (cases "res2 = SendOk")
      case ok: True
      then show ?thesis using o b(3) by (intro exI [of _ "frame line"]) (auto simp: frame_def intro!: fates_one)
    next
      case ko: False
      then obtain t where t: "prefix t [CHR 0x0A]" "gave p2 = gave p1 @ t" using b(3) by auto
      then have "prefix (line @ t) (frame line)" unfolding frame_def by (simp only: same_prefix_prefix)
      then show ?thesis using o t ko by (intro exI [of _ "line @ t"]) (auto intro!: fates_one)
    qed
  qed
qed

text \<open>The buffer holds the frames of these lines.\<close>

definition pending :: "string list \<Rightarrow> 'z net_link_scheme \<Rightarrow> bool" where
  "pending ls p \<longleftrightarrow> nl_buf p = concat (map frame ls) \<and> nl_buf_lines p = length ls"

lemma pending_empty: "pending ls p \<Longrightarrow> nl_buf p = [] \<longleftrightarrow> ls = []"
  by (cases ls) (auto simp: pending_def frame_def)

lemma flush_spec:
  assumes "pending ls p" "tcp_flush_pending E (m + length ls) p = (rc, n, p')"
  shows "pending [] p' \<and> (\<exists>fs. stream_fates fs ls \<and> gave p' = gave p @ concat (map snd fs)
    \<and> n + losses fs = m + length ls \<and> (rc = 0 \<longrightarrow> losses fs = 0) \<and> (rc \<noteq> 0 \<longrightarrow> n = m))"
proof (cases "ls = []")
  case True
  then show ?thesis using assms pending_empty [OF assms(1)] by (auto simp: tcp_flush_pending_def intro!: exI [of _ "[]"])
next
  case False
  obtain res p1 where s: "hpu_net_send E (nl_buf p) p = (res, p1)" by (cases "hpu_net_send E (nl_buf p) p")
  note sp = send_spec [OF s]
  have b: "nl_buf p \<noteq> []" "nl_buf p = concat (map frame ls)" "nl_buf_lines p = length ls"
    using assms(1) False pending_empty [OF assms(1)] by (auto simp: pending_def)
  show ?thesis
  proof (cases "res = SendOk")
    case True
    then have "rc = 0" "n = m + length ls" "p' = p1\<lparr>nl_buf := [], nl_buf_lines := 0\<rparr>"
      using assms(2) b(1) s by (simp_all add: tcp_flush_pending_def)
    moreover have "gave p1 = gave p @ concat (map frame ls)" using True sp(3) b(2) by simp
    ultimately show ?thesis using fates_all_sent [where xs = \<open>ls\<close>] by (intro conjI exI [of _ "map (\<lambda>l. (True, frame l)) ls"]) (simp_all add: pending_def)
  next
    case f: False
    then have r: "rc = - 1" "n = m" "p' = tcp_mark_disconnected E p1" using assms(2) b(1,3) s by (simp_all add: tcp_flush_pending_def)
    obtain t where "prefix t (concat (map frame ls))" "gave p1 = gave p @ t" using sp(3) f b(2) by auto
    then obtain fs where "stream_fates fs ls" "losses fs = length ls" "gave p1 = gave p @ concat (map snd fs)"
      using fates_of_prefix by blast
    then show ?thesis using r by (auto simp: pending_def)
  qed
qed

text \<open>What a batch reports: the lines that did not fail, or -1 when none did.\<close>

definition reports :: "int \<Rightarrow> nat \<Rightarrow> bool" where
  "reports k n \<longleftrightarrow> k = int n \<or> (k = - 1 \<and> n = 0)"

lemma reports_batch [simp]: "reports (batch_result n) n" "reports (int n) n"
  by (simp_all add: reports_def batch_result_def)

lemma stream_batch_spec:
  assumes "pending ls p" "stream_batch E (m + length ls) lines p = (k, p')"
  shows "pending [] p' \<and> (\<exists>fs. stream_fates fs (ls @ lines) \<and> gave p' = gave p @ concat (map snd fs)
    \<and> (\<exists>n. reports k n \<and> n + losses fs = m + length (ls @ lines)))"
  using assms
proof (induction lines arbitrary: ls m p k p')
  case Nil
  obtain rc n p1 where f: "tcp_flush_pending E (m + length ls) p = (rc, n, p1)" by (metis prod_cases3)
  obtain fs where fs: "pending [] p1" "stream_fates fs ls" "gave p1 = gave p @ concat (map snd fs)" "n + losses fs = m + length ls"
    using flush_spec [OF Nil.prems(1) f] by auto
  have "p' = p1" "reports k n" using Nil.prems(2) by (auto simp: f split: if_splits)
  then show ?case using fs by (intro conjI exI [of _ fs] exI [of _ n]) simp_all
next
  case (Cons line lines)
  obtain rc n p1 where f: "tcp_flush_pending E (m + length ls) p = (rc, n, p1)" by (metis prod_cases3)
  obtain fs where fs: "pending [] p1" "stream_fates fs ls" "gave p1 = gave p @ concat (map snd fs)" "n + losses fs = m + length ls"
    "rc = 0 \<longrightarrow> losses fs = 0" using flush_spec [OF Cons.prems(1) f] by auto
  have lost: ?case if "rc \<noteq> 0" "k = batch_result n" "p' = p1"
    using that fs fates_append [OF fs(2) fates_all_lost(1) [where xs = \<open>line # lines\<close>]] fates_all_lost(2,3) [where xs = \<open>line # lines\<close>]
    by (intro conjI exI [of _ "fs @ map (\<lambda>l. (False, [])) (line # lines)"] exI [of _ n]) (auto simp: comp_def)
  let ?need = "length line + 1"
  show ?case
  proof (cases "?need > HPU_NET_COALESCE_SIZE")
    case big: True
    show ?thesis
    proof (cases "rc = 0")
      case False
      then show ?thesis using Cons.prems(2) big f by (intro lost) (auto simp: Let_def)
    next
      case True
      obtain ok p2 where s: "send_frame E line p1 = (ok, p2)" by (cases "send_frame E line p1")
      obtain t where t: "stream_fates [(ok, t)] [line]" "gave p2 = gave p1 @ t" using send_frame_spec(3) [OF s] by blast
      have p2: "pending [] p2" using fs(1) send_frame_spec(1,2) [OF s] by (simp add: pending_def)
      have n: "n = m + length ls" using True fs by simp
      show ?thesis
      proof (cases ok)
        case True
        then have st: "stream_batch E ((n + 1) + length []) lines p2 = (k, p')" using Cons.prems(2) big f \<open>rc = 0\<close> s by (simp add: Let_def)
        from Cons.IH [OF p2 st] obtain gs q where g: "pending [] p'" "stream_fates gs lines" "gave p' = gave p2 @ concat (map snd gs)"
          "reports k q" "q + losses gs = n + 1 + length lines" by auto
        have "stream_fates (fs @ [(ok, t)] @ gs) (ls @ [line] @ lines)" by (intro fates_append fs(2) t(1) g(2))
        then show ?thesis using g fs t n True \<open>rc = 0\<close> by (intro conjI exI [of _ "fs @ [(ok, t)] @ gs"] exI [of _ q]) auto
      next
        case False
        then have r: "k = batch_result n" "p' = tcp_mark_disconnected E p2" using Cons.prems(2) big f \<open>rc = 0\<close> s by (auto simp: Let_def)
        have "stream_fates (fs @ [(ok, t)] @ map (\<lambda>l. (False, [])) lines) (ls @ [line] @ lines)"
          by (intro fates_append fs(2) t(1) fates_all_lost(1))
        then show ?thesis
          using r fs t n False \<open>rc = 0\<close> fates_all_lost(2,3) [where xs = \<open>lines\<close>]
          by (intro conjI exI [of _ "fs @ [(ok, t)] @ map (\<lambda>l. (False, [])) lines"] exI [of _ n]) (auto simp: pending_def)
      qed
    qed
  next
    case small: False
    show ?thesis
    proof (cases "length (nl_buf p) + ?need > HPU_NET_COALESCE_SIZE")
      case full: True
      show ?thesis
      proof (cases "rc = 0")
        case False
        then show ?thesis using Cons.prems(2) small full f by (intro lost) (auto simp: Let_def)
      next
        case True
        let ?p = "p1\<lparr>nl_buf := nl_buf p1 @ line @ [CHR 0x0A], nl_buf_lines := nl_buf_lines p1 + 1\<rparr>"
        have n: "n = m + length ls" using True fs by simp
        have st: "stream_batch E (n + length [line]) lines ?p = (k, p')" using Cons.prems(2) small full f True by (simp add: Let_def)
        have p: "pending [line] ?p" using fs(1) by (simp add: pending_def frame_def)
        from Cons.IH [OF p st] obtain gs q where g: "pending [] p'" "stream_fates gs (line # lines)" "gave p' = gave p1 @ concat (map snd gs)"
          "reports k q" "q + losses gs = n + length (line # lines)" by auto
        show ?thesis using g fs n True fates_append [OF fs(2) g(2)] by (intro conjI exI [of _ "fs @ gs"] exI [of _ q]) auto
      qed
    next
      case room: False
      let ?p = "p\<lparr>nl_buf := nl_buf p @ line @ [CHR 0x0A], nl_buf_lines := nl_buf_lines p + 1\<rparr>"
      have st: "stream_batch E (m + length (ls @ [line])) lines ?p = (k, p')" using Cons.prems(2) small room by (simp add: Let_def)
      have p: "pending (ls @ [line]) ?p" using Cons.prems(1) by (simp add: pending_def frame_def)
      from Cons.IH [OF p st] show ?thesis by simp
    qed
  qed
qed

section \<open>Delivery through the core\<close>

datatype sink_call = CallEmit hpulogc_event | CallBatch "hpulogc_event list"

definition call_events :: "sink_call \<Rightarrow> hpulogc_event list" where
  "call_events c = (case c of CallEmit ev \<Rightarrow> [ev] | CallBatch evs \<Rightarrow> evs)"

definition sink_deliver :: "sink_call \<Rightarrow> 'p output_base \<Rightarrow> 'p output_base" where
  "sink_deliver c b =
     (case c of CallEmit ev \<Rightarrow> (case so_emit (ob_ops b) of Some f \<Rightarrow> emit_each f [ev] b | None \<Rightarrow> b)
      | CallBatch evs \<Rightarrow> sq_emit_batch evs b)"

text \<open>
  The contract of a sink that accounts for its lines: \<open>tells b ls n\<close> says that \<open>b\<close>, the bytes that have left or
  the exchange with the peer, is what became of the lines \<open>ls\<close>, \<open>n\<close> of them lost. An event, and the events of a batch, are told and counted, and a batch
  reports through its result only.
\<close>

locale accounting_sink =
  fixes bytes :: "'p \<Rightarrow> 'e list"
    and idle :: "'p \<Rightarrow> bool"
    and tells :: "'e list \<Rightarrow> string list \<Rightarrow> nat \<Rightarrow> bool"
    and emit_op :: "'p \<Rightarrow> hpulogc_event \<Rightarrow> 'p \<times> nat"
    and batch_op :: "'p \<Rightarrow> hpulogc_event list \<Rightarrow> int \<times> 'p \<times> nat"
  assumes tells_nil: "tells [] [] 0"
    and tells_append: "tells b ls n \<Longrightarrow> tells c ms n2 \<Longrightarrow> tells (b @ c) (ls @ ms) (n + n2)"
    and emit_told: "idle p \<Longrightarrow> emit_op p ev = (p', n) \<Longrightarrow> idle p' \<and> (\<exists>b. bytes p' = bytes p @ b \<and> tells b [ev_line ev] n)"
    and batch_told: "idle p \<Longrightarrow> batch_op p evs = (k, p', n) \<Longrightarrow>
      idle p' \<and> n = 0 \<and> (\<exists>b m lost. bytes p' = bytes p @ b \<and> tells b (map ev_line evs) lost \<and> reports k m \<and> m + lost = length evs)"
begin

definition books :: "'p output_base \<Rightarrow> string list \<Rightarrow> 'p output_base \<Rightarrow> bool" where
  "books b lines b' \<longleftrightarrow> ob_ops b' = ob_ops b \<and> idle (ob_priv b') \<and> (\<exists>out n. tells out lines n
     \<and> bytes (ob_priv b') = bytes (ob_priv b) @ out \<and> ob_failed b' = ob_failed b + n)"

lemma books_trans: "books b xs b1 \<Longrightarrow> books b1 ys b2 \<Longrightarrow> books b (xs @ ys) b2"
  unfolding books_def by (metis (no_types, lifting) add.assoc append.assoc tells_append)

lemma emit_books:
  assumes "so_emit (ob_ops b) = Some emit_op" "idle (ob_priv b)"
  shows "books b [ev_line ev] (sink_deliver (CallEmit ev) b)"
proof -
  obtain p' n where r: "emit_op (ob_priv b) ev = (p', n)" by (cases "emit_op (ob_priv b) ev")
  then show ?thesis
    using emit_told [OF assms(2) r] by (auto simp: books_def sink_deliver_def assms(1) hpu_sink_account_failed_def)
qed

lemma batch_books:
  assumes "so_emit_batch (ob_ops b) = Some batch_op" "idle (ob_priv b)"
  shows "books b (map ev_line evs) (sink_deliver (CallBatch evs) b)"
proof -
  obtain k p' n where r: "batch_op (ob_priv b) evs = (k, p', n)" by (metis prod_cases3)
  obtain out m lost where l: "idle p'" "n = 0" "bytes p' = bytes (ob_priv b) @ out" "tells out (map ev_line evs) lost"
    "reports k m" "m + lost = length evs" using batch_told [OF assms(2) r] by blast
  have d: "sink_deliver (CallBatch evs) b = (let b1 = hpu_sink_account_failed n (b\<lparr>ob_priv := p'\<rparr>)
      in if k < 0 then hpu_sink_account_failed (length evs) b1
         else if nat k < length evs then hpu_sink_account_failed (length evs - nat k) b1 else b1)"
    by (simp add: sink_deliver_def sq_emit_batch_def assms(1) r)
  have "ob_failed (sink_deliver (CallBatch evs) b) = ob_failed b + lost"
  proof (cases "k = - 1 \<and> m = 0")
    case True
    then show ?thesis using l(2,6) by (simp add: d hpu_sink_account_failed_def)
  next
    case False
    then have "k = int m" using l(5) by (auto simp: reports_def)
    moreover have "lost = length evs - m" using l(6) by simp
    ultimately show ?thesis using l(2,6) by (cases "m < length evs") (simp_all add: d hpu_sink_account_failed_def Let_def)
  qed
  moreover have "ob_priv (sink_deliver (CallBatch evs) b) = p'" "ob_ops (sink_deliver (CallBatch evs) b) = ob_ops b"
    by (simp_all add: d hpu_sink_account_failed_def Let_def)
  ultimately show ?thesis using l unfolding books_def by auto
qed

lemma run_books:
  assumes "so_emit (ob_ops b) = Some emit_op" "so_emit_batch (ob_ops b) = Some batch_op" "idle (ob_priv b)"
  shows "books b (map ev_line (concat (map call_events calls))) (fold sink_deliver calls b)"
  using assms
proof (induction calls arbitrary: b)
  case Nil
  then show ?case using tells_nil by (auto simp: books_def)
next
  case (Cons c calls)
  have one: "books b (map ev_line (call_events c)) (sink_deliver c b)"
    using emit_books [OF Cons.prems(1,3)] batch_books [OF Cons.prems(2,3)] by (cases c) (simp_all add: call_events_def)
  then have "so_emit (ob_ops (sink_deliver c b)) = Some emit_op" "so_emit_batch (ob_ops (sink_deliver c b)) = Some batch_op"
    "idle (ob_priv (sink_deliver c b))" using Cons.prems by (simp_all add: books_def)
  from books_trans [OF one Cons.IH [OF this]] show ?case by simp
qed

lemma run_told:
  assumes "so_emit (ob_ops b) = Some emit_op" "so_emit_batch (ob_ops b) = Some batch_op" "idle (ob_priv b)"
  shows "\<exists>out n. tells out (map ev_line (concat (map call_events calls))) n
    \<and> bytes (ob_priv (fold sink_deliver calls b)) = bytes (ob_priv b) @ out
    \<and> ob_failed (fold sink_deliver calls b) = ob_failed b + n"
  using run_books [OF assms, of calls] by (auto simp: books_def)

end

text \<open>A sink that sends line by line.\<close>

locale byte_sink =
  fixes bytes :: "'p \<Rightarrow> string"
    and idle :: "'p \<Rightarrow> bool"
    and wire :: "string \<Rightarrow> string"
    and emit_op :: "'p \<Rightarrow> hpulogc_event \<Rightarrow> 'p \<times> nat"
    and batch_op :: "'p \<Rightarrow> hpulogc_event list \<Rightarrow> int \<times> 'p \<times> nat"
  assumes emit_law: "idle p \<Longrightarrow> emit_op p ev = (p', n) \<Longrightarrow>
      idle p' \<and> (\<exists>ok t. line_fates wire [(ok, t)] [ev_line ev] \<and> bytes p' = bytes p @ t \<and> n = (if ok then 0 else 1))"
    and batch_law: "idle p \<Longrightarrow> batch_op p evs = (k, p', n) \<Longrightarrow>
      idle p' \<and> n = 0 \<and> (\<exists>fs m. line_fates wire fs (map ev_line evs) \<and> bytes p' = bytes p @ concat (map snd fs)
        \<and> reports k m \<and> m + losses fs = length evs)"

definition fates_tell :: "(string \<Rightarrow> string) \<Rightarrow> string \<Rightarrow> string list \<Rightarrow> nat \<Rightarrow> bool" where
  "fates_tell w out ls n \<longleftrightarrow> (\<exists>fs. line_fates w fs ls \<and> out = concat (map snd fs) \<and> n = losses fs)"

sublocale byte_sink \<subseteq> told: accounting_sink bytes idle "fates_tell wire" emit_op batch_op
proof
  show "fates_tell wire [] [] 0" by (auto simp: fates_tell_def intro!: exI [of _ "[]"])
next
  fix b ls n c ms n2
  assume "fates_tell wire b ls n" "fates_tell wire c ms n2"
  then show "fates_tell wire (b @ c) (ls @ ms) (n + n2)"
    unfolding fates_tell_def by (metis concat_append fates_append fates_simps(4) map_append)
next
  fix p ev p' n
  assume "idle p" "emit_op p ev = (p', n)"
  then obtain ok t where l: "idle p'" "line_fates wire [(ok, t)] [ev_line ev]" "bytes p' = bytes p @ t" "n = (if ok then 0 else 1)"
    using emit_law [of p ev p' n] by blast
  then have "fates_tell wire t [ev_line ev] n" unfolding fates_tell_def by (intro exI [of _ "[(ok, t)]"]) simp
  then show "idle p' \<and> (\<exists>b. bytes p' = bytes p @ b \<and> fates_tell wire b [ev_line ev] n)" using l by blast
next
  fix p evs k p' n
  assume "idle p" "batch_op p evs = (k, p', n)"
  then show "idle p' \<and> n = 0 \<and> (\<exists>b m lost. bytes p' = bytes p @ b \<and> fates_tell wire b (map ev_line evs) lost
      \<and> reports k m \<and> m + lost = length evs)"
    using batch_law [of p evs k p' n] unfolding fates_tell_def by blast
qed

context byte_sink
begin

lemma run_accounts:
  assumes "so_emit (ob_ops b) = Some emit_op" "so_emit_batch (ob_ops b) = Some batch_op" "idle (ob_priv b)"
  shows "\<exists>fates. line_fates wire fates (map ev_line (concat (map call_events calls)))
    \<and> bytes (ob_priv (fold sink_deliver calls b)) = bytes (ob_priv b) @ concat (map snd fates)
    \<and> ob_failed (fold sink_deliver calls b) = ob_failed b + losses fates"
  using told.run_told [OF assms, of calls] by (auto simp: fates_tell_def)

end

section \<open>The sinks\<close>

definition link_idle :: "'z net_link_scheme \<Rightarrow> bool" where
  "link_idle p \<longleftrightarrow> nl_buf p = [] \<and> nl_buf_lines p = 0"

lemma reconnect_frame:
  assumes "link_reconnect E tgt p = (rc, p')"
  shows "gave p' = gave p" "nl_buf p' = nl_buf p" "nl_buf_lines p' = nl_buf_lines p"
  using assms by (auto simp: link_reconnect_def hpu_now_ns_def net_open_def event_bytes_def Let_def split: if_splits)

lemma stream_emit_law:
  assumes "stream_emit E line p = (p', n)"
  shows "\<exists>ok t. stream_fates [(ok, t)] [line] \<and> gave p' = gave p @ t \<and> n = (if ok then 0 else 1)"
    and "link_idle p \<Longrightarrow> link_idle p'"
proof -
  obtain ok p1 where s: "send_frame E line p = (ok, p1)" by (cases "send_frame E line p")
  note f = send_frame_spec [OF s]
  from f(3) obtain t where "stream_fates [(ok, t)] [line]" "gave p1 = gave p @ t" by blast
  then show "\<exists>ok t. stream_fates [(ok, t)] [line] \<and> gave p' = gave p @ t \<and> n = (if ok then 0 else 1)"
    using assms by (intro exI [of _ ok] exI [of _ t]) (auto simp: stream_emit_def s split: if_splits)
  show "link_idle p \<Longrightarrow> link_idle p'" using assms f by (auto simp: stream_emit_def s link_idle_def split: if_splits)
qed

lemma stream_batch_law:
  assumes "link_idle p" "stream_batch E 0 lines p = (k, p')"
  shows "link_idle p' \<and> (\<exists>fs m. stream_fates fs lines \<and> gave p' = gave p @ concat (map snd fs) \<and> reports k m \<and> m + losses fs = length lines)"
  using stream_batch_spec [of "[]" p E 0 lines k p'] assms by (auto simp: pending_def link_idle_def)

lemma nothing_sent:
  "\<exists>ok t. line_fates w [(ok, t)] [l] \<and> bs = bs @ t \<and> (1::nat) = (if ok then 0 else 1)"
  "\<exists>fs m. line_fates w fs ls \<and> bs = bs @ concat (map snd fs) \<and> reports 0 m \<and> m + losses fs = length ls"
  by (intro exI [of _ False] exI [of _ "[]"], simp add: line_fates_def)
    (intro exI [of _ "map (\<lambda>l. (False, [])) ls"] exI [of _ 0], use fates_all_lost(1) [of w ls] fates_all_lost(2,3) [of ls] in \<open>simp add: reports_def\<close>)

text \<open>The fields of the concrete sink are kept by the connection.\<close>

lemma more_frame [simp]:
  "net_link.more (net_log e p) = net_link.more p" "net_link.more (arm_backoff E p) = net_link.more p"
  "net_link.more (first_backoff p) = net_link.more p" "net_link.more (close_fd p) = net_link.more p"
  by (simp_all add: net_log_def arm_backoff_def hpu_now_ns_def first_backoff_def close_fd_def Let_def)

lemma disconnected_more [simp]: "net_link.more (tcp_mark_disconnected E p) = net_link.more p"
  by (simp add: tcp_mark_disconnected_def)

lemma send_more: "hpu_net_send E data p = (res, p') \<Longrightarrow> net_link.more p' = net_link.more p"
  by (auto simp: hpu_net_send_def split: prod.splits)

lemma reconnect_more: "link_reconnect E tgt p = (rc, p') \<Longrightarrow> net_link.more p' = net_link.more p"
  by (auto simp: link_reconnect_def hpu_now_ns_def net_open_def Let_def split: if_splits)

lemma send_frame_more: "send_frame E line p = (ok, p') \<Longrightarrow> net_link.more p' = net_link.more p"
  by (auto simp: send_frame_def dest!: send_more split: prod.splits if_splits)

lemma stream_emit_more: "stream_emit E line p = (p', n) \<Longrightarrow> net_link.more p' = net_link.more p"
  by (auto simp: stream_emit_def dest!: send_frame_more split: prod.splits if_splits)

lemma flush_more: "tcp_flush_pending E d p = (rc, n, p') \<Longrightarrow> net_link.more p' = net_link.more p"
  by (auto simp: tcp_flush_pending_def dest!: send_more split: prod.splits if_splits)

lemma stream_batch_more: "stream_batch E d lines p = (k, p') \<Longrightarrow> net_link.more p' = net_link.more p"
proof (induction lines arbitrary: d p)
  case Nil
  then show ?case by (auto dest!: flush_more split: prod.splits)
next
  case (Cons line lines)
  then show ?case by (auto simp: Let_def dest!: flush_more send_frame_more split: prod.splits if_splits)
qed

lemma unix_type_of_more: "net_link.more p = net_link.more q \<Longrightarrow> ux_socktype p = ux_socktype (q :: hpu_unix_priv)"
  by (cases p; cases q) simp

text \<open>The gate before every delivery.\<close>

lemma gate_frame:
  assumes "(if nl_connected p then (0, p) else link_reconnect E tgt p) = (rc, p')"
  shows "gave p' = gave p" "link_idle p' = link_idle p" "net_link.more p' = net_link.more p"
  using assms reconnect_frame [of E tgt p rc p'] reconnect_more [of E tgt p rc p'] by (auto simp: link_idle_def split: if_splits)

lemmas stream_gate = tcp_emit_def tcp_emit_batch_def unix_emit_def unix_emit_batch_def

interpretation tcp: byte_sink gave link_idle frame "tcp_emit E" "tcp_emit_batch E"
proof
  fix p p' :: hpu_tcp_priv and ev :: hpulogc_event and n :: nat
  assume a: "link_idle p" "tcp_emit E p ev = (p', n)"
  obtain rc p1 where c: "(if nl_connected p then (0, p) else tcp_reconnect E p) = (rc, p1)" by fastforce
  note f = gate_frame [OF c [unfolded tcp_reconnect_def]]
  show "link_idle p' \<and> (\<exists>ok t. stream_fates [(ok, t)] [ev_line ev] \<and> gave p' = gave p @ t \<and> n = (if ok then 0 else 1))"
  proof (cases "rc = 0")
    case True
    then have "stream_emit E (ev_line ev) p1 = (p', n)" using a(2) by (simp add: stream_gate c)
    from stream_emit_law [OF this] f a(1) show ?thesis by simp
  next
    case False
    then have "p' = p1" "n = 1" using a(2) by (auto simp: stream_gate c)
    then show ?thesis using f a(1) nothing_sent(1) by simp
  qed
next
  fix p p' :: hpu_tcp_priv and evs :: "hpulogc_event list" and k :: int and n :: nat
  assume a: "link_idle p" "tcp_emit_batch E p evs = (k, p', n)"
  obtain rc p1 where c: "(if nl_connected p then (0, p) else tcp_reconnect E p) = (rc, p1)" by fastforce
  note f = gate_frame [OF c [unfolded tcp_reconnect_def]]
  show "link_idle p' \<and> n = 0 \<and> (\<exists>fs m. stream_fates fs (map ev_line evs) \<and> gave p' = gave p @ concat (map snd fs)
      \<and> reports k m \<and> m + losses fs = length evs)"
  proof (cases "rc = 0")
    case True
    then have "stream_batch E 0 (map ev_line evs) p1 = (k, p')" "n = 0" using a(2) by (auto simp: stream_gate c split: prod.splits)
    with stream_batch_law [OF _ this(1)] f a(1) show ?thesis by simp
  next
    case False
    then have "p' = p1" "n = 0" "k = 0" using a(2) by (auto simp: stream_gate c)
    then show ?thesis using f a(1) nothing_sent(2) [of frame "map ev_line evs"] by simp
  qed
qed

interpretation unix_stream: byte_sink gave "\<lambda>p. link_idle p \<and> ux_socktype p = 2" frame "unix_emit E" "unix_emit_batch E"
proof
  fix p p' :: hpu_unix_priv and ev :: hpulogc_event and n :: nat
  assume a: "link_idle p \<and> ux_socktype p = 2" "unix_emit E p ev = (p', n)"
  obtain rc p1 where c: "(if nl_connected p then (0, p) else unix_reconnect E p) = (rc, p1)" by fastforce
  note f = gate_frame [OF c [unfolded unix_reconnect_def]]
  have t: "ux_socktype p1 = 2" using unix_type_of_more [OF f(3)] a(1) by simp
  show "(link_idle p' \<and> ux_socktype p' = 2)
      \<and> (\<exists>ok t. stream_fates [(ok, t)] [ev_line ev] \<and> gave p' = gave p @ t \<and> n = (if ok then 0 else 1))"
  proof (cases "rc = 0")
    case True
    then have e: "stream_emit E (ev_line ev) p1 = (p', n)" using a(2) t by (simp add: stream_gate c)
    from stream_emit_law [OF e] f a(1) unix_type_of_more [OF stream_emit_more [OF e]] t show ?thesis by simp
  next
    case False
    then have "p' = p1" "n = 1" using a(2) by (auto simp: stream_gate c)
    then show ?thesis using f a(1) t nothing_sent(1) by simp
  qed
next
  fix p p' :: hpu_unix_priv and evs :: "hpulogc_event list" and k :: int and n :: nat
  assume a: "link_idle p \<and> ux_socktype p = 2" "unix_emit_batch E p evs = (k, p', n)"
  obtain rc p1 where c: "(if nl_connected p then (0, p) else unix_reconnect E p) = (rc, p1)" by fastforce
  note f = gate_frame [OF c [unfolded unix_reconnect_def]]
  have t: "ux_socktype p1 = 2" using unix_type_of_more [OF f(3)] a(1) by simp
  show "(link_idle p' \<and> ux_socktype p' = 2) \<and> n = 0 \<and> (\<exists>fs m. stream_fates fs (map ev_line evs)
      \<and> gave p' = gave p @ concat (map snd fs) \<and> reports k m \<and> m + losses fs = length evs)"
  proof (cases "rc = 0")
    case True
    then have e: "stream_batch E 0 (map ev_line evs) p1 = (k, p')" "n = 0" using a(2) t by (auto simp: stream_gate c split: prod.splits)
    with stream_batch_law [OF _ e(1)] f a(1) unix_type_of_more [OF stream_batch_more [OF e(1)]] t show ?thesis by simp
  next
    case False
    then have "p' = p1" "n = 0" "k = 0" using a(2) by (auto simp: stream_gate c)
    then show ?thesis using f a(1) t nothing_sent(2) [of frame "map ev_line evs"] by simp
  qed
qed

text \<open>Datagrams carry the line as it is.\<close>

lemma dgram_spec:
  assumes "unix_send_dgram E data p = (rc, p')"
  shows "\<exists>t. line_fates (\<lambda>l. l) [(rc = 0, t)] [data] \<and> gave p' = gave p @ t" "ux_socktype p' = ux_socktype p"
proof -
  obtain res p1 where s: "hpu_net_send E data p = (res, p1)" by (cases "hpu_net_send E data p")
  have r: "rc = 0 \<longleftrightarrow> res = SendOk" "p' = p1" using assms by (auto simp: unix_send_dgram_def s split: send_result.splits)
  show "\<exists>t. line_fates (\<lambda>l. l) [(rc = 0, t)] [data] \<and> gave p' = gave p @ t"
    using send_spec(3) [OF s] r by (auto simp: line_fates_def split: if_splits)
  show "ux_socktype p' = ux_socktype p" using r(2) unix_type_of_more [OF send_more [OF s]] by simp
qed

lemma dgram_disconnect [simp]: "ux_socktype (unix_mark_disconnected E p) = ux_socktype p" "gave (unix_mark_disconnected E p) = gave p"
  by (simp_all add: unix_mark_disconnected_def unix_type_of_more [OF disconnected_more])

lemma dgram_batch_spec:
  assumes "unix_dgram_batch E d evs p = (k, p')"
  shows "ux_socktype p' = ux_socktype p \<and> (\<exists>fs m. line_fates (\<lambda>l. l) fs (map ev_line evs)
    \<and> gave p' = gave p @ concat (map snd fs) \<and> reports k m \<and> m + losses fs = d + length evs)"
  using assms
proof (induction evs arbitrary: d p)
  case Nil
  then show ?case by (auto intro!: exI [of _ "[]"] exI [of _ d])
next
  case (Cons ev evs)
  obtain rc p1 where s: "unix_send_dgram E (ev_line ev) p = (rc, p1)" by (cases "unix_send_dgram E (ev_line ev) p")
  obtain t where t: "line_fates (\<lambda>l. l) [(rc = 0, t)] [ev_line ev]" "gave p1 = gave p @ t" "ux_socktype p1 = ux_socktype p"
    using dgram_spec [OF s] by blast
  show ?case
  proof (cases "rc = 0 \<or> rc = 1")
    case True
    then have "unix_dgram_batch E (if rc = 0 then d + 1 else d) evs p1 = (k, p')" using Cons.prems s by auto
    from Cons.IH [OF this] obtain fs m where f: "ux_socktype p' = ux_socktype p1" "line_fates (\<lambda>l. l) fs (map ev_line evs)"
      "gave p' = gave p1 @ concat (map snd fs)" "reports k m" "m + losses fs = (if rc = 0 then d + 1 else d) + length evs" by blast
    have "line_fates (\<lambda>l. l) ([(rc = 0, t)] @ fs) ([ev_line ev] @ map ev_line evs)" by (rule fates_append [OF t(1) f(2)])
    then show ?thesis using f t by (intro conjI exI [of _ "(rc = 0, t) # fs"] exI [of _ m]) auto
  next
    case False
    then have r: "k = batch_result d" "p' = unix_mark_disconnected E p1" using Cons.prems s by auto
    have "line_fates (\<lambda>l. l) ([(rc = 0, t)] @ map (\<lambda>l. (False, [])) (map ev_line evs)) ([ev_line ev] @ map ev_line evs)"
      by (rule fates_append [OF t(1) fates_all_lost(1)])
    then show ?thesis using r t False fates_all_lost(2,3) [of "map ev_line evs"]
      by (intro conjI exI [of _ "(rc = 0, t) # map (\<lambda>l. (False, [])) (map ev_line evs)"] exI [of _ d]) auto
  qed
qed

interpretation unix_dgram: byte_sink gave "\<lambda>p. ux_socktype p = 1" "\<lambda>l. l" "unix_emit E" "unix_emit_batch E"
proof
  fix p p' :: hpu_unix_priv and ev :: hpulogc_event and n :: nat
  assume a: "ux_socktype p = 1" "unix_emit E p ev = (p', n)"
  obtain rc p1 where c: "(if nl_connected p then (0, p) else unix_reconnect E p) = (rc, p1)" by fastforce
  note f = gate_frame [OF c [unfolded unix_reconnect_def]]
  have t: "ux_socktype p1 = 1" using unix_type_of_more [OF f(3)] a(1) by simp
  obtain rc2 p2 where s: "unix_send_dgram E (ev_line ev) p1 = (rc2, p2)" by (cases "unix_send_dgram E (ev_line ev) p1")
  show "ux_socktype p' = 1 \<and> (\<exists>ok t. line_fates (\<lambda>l. l) [(ok, t)] [ev_line ev] \<and> gave p' = gave p @ t \<and> n = (if ok then 0 else 1))"
  proof (cases "rc = 0")
    case True
    then have "p' = (if rc2 = 0 \<or> rc2 = 1 then p2 else unix_mark_disconnected E p2)" "n = (if rc2 = 0 then 0 else 1)"
      using a(2) t by (auto simp: stream_gate c s split: if_splits)
    then show ?thesis using dgram_spec [OF s] t f(1) by (auto intro!: exI [of _ "rc2 = 0"])
  next
    case False
    then have "p' = p1" "n = 1" using a(2) by (auto simp: stream_gate c)
    then show ?thesis using f t nothing_sent(1) by simp
  qed
next
  fix p p' :: hpu_unix_priv and evs :: "hpulogc_event list" and k :: int and n :: nat
  assume a: "ux_socktype p = 1" "unix_emit_batch E p evs = (k, p', n)"
  obtain rc p1 where c: "(if nl_connected p then (0, p) else unix_reconnect E p) = (rc, p1)" by fastforce
  note f = gate_frame [OF c [unfolded unix_reconnect_def]]
  have t: "ux_socktype p1 = 1" using unix_type_of_more [OF f(3)] a(1) by simp
  show "ux_socktype p' = 1 \<and> n = 0 \<and> (\<exists>fs m. line_fates (\<lambda>l. l) fs (map ev_line evs)
      \<and> gave p' = gave p @ concat (map snd fs) \<and> reports k m \<and> m + losses fs = length evs)"
  proof (cases "rc = 0")
    case True
    then have e: "unix_dgram_batch E 0 evs p1 = (k, p')" "n = 0" using a(2) t by (auto simp: stream_gate c split: prod.splits)
    with dgram_batch_spec [OF e(1)] f t show ?thesis by simp
  next
    case False
    then have "p' = p1" "n = 0" "k = 0" using a(2) by (auto simp: stream_gate c)
    then show ?thesis using f t nothing_sent(2) [of "\<lambda>l. l" "map ev_line evs"] by simp
  qed
qed

lemma udp_send_spec:
  assumes "udp_send_one E line p = (rc, p')"
  shows "\<exists>t. line_fates (\<lambda>l. l) [(rc = 0, t)] [line] \<and> gave p' = gave p @ t" "nl_fd p' = nl_fd p"
proof -
  obtain res p1 where s: "hpu_net_send E (take (up_mtu p) line) p = (res, p1)" by (cases "hpu_net_send E (take (up_mtu p) line) p")
  have r: "rc = 0 \<longleftrightarrow> res = SendOk \<and> length line \<le> up_mtu p" "p' = p1" using assms by (auto simp: udp_send_one_def s Let_def split: if_splits)
  show "\<exists>t. line_fates (\<lambda>l. l) [(rc = 0, t)] [line] \<and> gave p' = gave p @ t"
    using send_spec(3) [OF s] r
    by (auto simp: line_fates_def take_is_prefix split: if_splits intro: prefix_order.trans [OF _ take_is_prefix])
  show "nl_fd p' = nl_fd p" using r(2) s by (auto simp: hpu_net_send_def split: prod.splits)
qed

lemma udp_batch_spec:
  assumes "udp_batch E d evs p = (k, p')"
  shows "nl_fd p' = nl_fd p \<and> (\<exists>fs. line_fates (\<lambda>l. l) fs (map ev_line evs)
    \<and> gave p' = gave p @ concat (map snd fs) \<and> k + losses fs = d + length evs)"
  using assms
proof (induction evs arbitrary: d p)
  case Nil
  then show ?case by (auto intro!: exI [of _ "[]"])
next
  case (Cons ev evs)
  obtain rc p1 where s: "udp_send_one E (ev_line ev) p = (rc, p1)" by (cases "udp_send_one E (ev_line ev) p")
  obtain t where t: "line_fates (\<lambda>l. l) [(rc = 0, t)] [ev_line ev]" "gave p1 = gave p @ t" "nl_fd p1 = nl_fd p"
    using udp_send_spec [OF s] by blast
  have "udp_batch E (if rc = 0 then d + 1 else d) evs p1 = (k, p')" using Cons.prems s by auto
  from Cons.IH [OF this] obtain fs where f: "nl_fd p' = nl_fd p1" "line_fates (\<lambda>l. l) fs (map ev_line evs)"
    "gave p' = gave p1 @ concat (map snd fs)" "k + losses fs = (if rc = 0 then d + 1 else d) + length evs" by blast
  have "line_fates (\<lambda>l. l) ([(rc = 0, t)] @ fs) ([ev_line ev] @ map ev_line evs)" by (rule fates_append [OF t(1) f(2)])
  then show ?case using f t by (intro conjI exI [of _ "(rc = 0, t) # fs"]) auto
qed

interpretation udp: byte_sink gave "\<lambda>p. nl_fd p \<ge> 0" "\<lambda>l. l" "udp_emit E" "udp_emit_batch E"
proof
  fix p p' :: hpu_udp_priv and ev :: hpulogc_event and n :: nat
  assume a: "nl_fd p \<ge> 0" "udp_emit E p ev = (p', n)"
  obtain rc p1 where s: "udp_send_one E (ev_line ev) p = (rc, p1)" by (cases "udp_send_one E (ev_line ev) p")
  show "nl_fd p' \<ge> 0 \<and> (\<exists>ok t. line_fates (\<lambda>l. l) [(ok, t)] [ev_line ev] \<and> gave p' = gave p @ t \<and> n = (if ok then 0 else 1))"
    using a udp_send_spec [OF s] by (auto simp: udp_emit_def s intro!: exI [of _ "rc = 0"])
next
  fix p p' :: hpu_udp_priv and evs :: "hpulogc_event list" and k :: int and n :: nat
  assume a: "nl_fd p \<ge> 0" "udp_emit_batch E p evs = (k, p', n)"
  obtain m p1 where s: "udp_batch E 0 evs p = (m, p1)" by (cases "udp_batch E 0 evs p")
  have "k = int m" "p' = p1" "n = 0" using a by (auto simp: udp_emit_batch_def s)
  then show "nl_fd p' \<ge> 0 \<and> n = 0 \<and> (\<exists>fs m. line_fates (\<lambda>l. l) fs (map ev_line evs)
      \<and> gave p' = gave p @ concat (map snd fs) \<and> reports k m \<and> m + losses fs = length evs)"
    using udp_batch_spec [OF s] a(1) reports_batch(2) [of m] by (simp, blast)
qed

section \<open>From the creation on\<close>

lemma filter_keys_frame:
  assumes "parse_filter_keys b val = Some b'"
  shows "ob_ops b' = ob_ops b" "ob_priv b' = ob_priv b" "ob_failed b' = ob_failed b"
  using assms by (auto simp: parse_filter_keys_def Let_def split: option.splits if_splits)

lemma common_key_frame:
  assumes "apply_kv b (key, val) = Inr b'" "is_common_key key"
  shows "ob_ops b' = ob_ops b \<and> ob_priv b' = ob_priv b \<and> ob_failed b' = ob_failed b"
proof -
  consider "key = ''enabled''" | "key \<noteq> ''enabled''" "key = ''async''" | "key \<noteq> ''enabled''" "key \<noteq> ''async''" "key = ''filter keys''"
    | "key \<noteq> ''enabled''" "key \<noteq> ''async''" "key \<noteq> ''filter keys''" by blast
  then show ?thesis
  proof cases
    case 1
    then have "apply_kv b (key, val)
        = (let en = parse_bool_str val in if en < 0 then Inl (ob_priv b) else Inr (b\<lparr>ob_enabled := (en \<noteq> 0)\<rparr>))"
      using assms(2) by (simp only: apply_kv_def prod.case if_True simp_thms)
    with assms(1) show ?thesis by (auto simp: Let_def split: if_splits)
  next
    case 2
    then have "apply_kv b (key, val)
        = (let as = parse_bool_str val in if as < 0 then Inl (ob_priv b) else Inr (b\<lparr>ob_async := (as \<noteq> 0)\<rparr>))"
      using assms(2) by (simp only: apply_kv_def prod.case if_False if_True simp_thms)
    with assms(1) show ?thesis by (auto simp: Let_def split: if_splits)
  next
    case 3
    then have "apply_kv b (key, val) = (case parse_filter_keys b val of None \<Rightarrow> Inl (ob_priv b) | Some b1 \<Rightarrow> Inr b1)"
      using assms(2) by (simp only: apply_kv_def prod.case if_False if_True simp_thms)
    then have "parse_filter_keys b val = Some b'" using assms(1) by (cases "parse_filter_keys b val") simp_all
    then show ?thesis by (simp add: filter_keys_frame)
  next
    case 4
    have "apply_kv b (key, val) = (case val of None \<Rightarrow> Inl (ob_priv b)
      | Some s \<Rightarrow> (case hpu_parse_size_str s of None \<Rightarrow> Inl (ob_priv b)
          | Some sz \<Rightarrow> if sz < 64 * 1024 \<or> sz > 16 * 1024 * 1024 then Inl (ob_priv b) else Inr (b\<lparr>ob_queue_size := sz\<rparr>)))"
      using 4 assms(2) by (simp only: apply_kv_def prod.case if_False if_True simp_thms)
    with assms(1) show ?thesis by (auto split: option.splits if_splits)
  qed
qed

lemma private_key_frame:
  assumes "apply_kv b (key, val) = Inr b'" "\<not> is_common_key key"
  obtains f p where "so_configure (ob_ops b) = Some f" "f (ob_priv b) key val = (0, p)" "b' = b\<lparr>ob_priv := p\<rparr>"
  using assms that by (auto simp: apply_kv_def split: option.splits prod.splits if_splits)

lemma apply_kvs_keeps:
  assumes "\<And>f p k v. so_configure (ob_ops b) = Some f \<Longrightarrow> I p \<Longrightarrow> I (snd (f p k v))" "I (ob_priv b)" "apply_kvs kvs b = Inr b'"
  shows "ob_ops b' = ob_ops b \<and> I (ob_priv b') \<and> ob_failed b' = ob_failed b"
  using assms
proof (induction kvs arbitrary: b)
  case Nil
  then show ?case by simp
next
  case (Cons kv kvs)
  obtain b1 where k: "apply_kv b kv = Inr b1" "apply_kvs kvs b1 = Inr b'" using Cons.prems(3) by (auto split: sum.splits)
  have b1: "ob_ops b1 = ob_ops b \<and> I (ob_priv b1) \<and> ob_failed b1 = ob_failed b"
  proof (cases kv)
    case (Pair key val)
    show ?thesis
    proof (cases "is_common_key key")
      case True
      then show ?thesis using common_key_frame [of b key val b1] k(1) Cons.prems(2) Pair by simp
    next
      case False
      then obtain f p where f: "so_configure (ob_ops b) = Some f" "f (ob_priv b) key val = (0, p)" "b1 = b\<lparr>ob_priv := p\<rparr>"
        using private_key_frame [of b key val b1] k(1) Pair by blast
      then show ?thesis using Cons.prems(1) [OF f(1) Cons.prems(2), of key val] by simp
    qed
  qed
  have "ob_ops b' = ob_ops b1 \<and> I (ob_priv b') \<and> ob_failed b' = ob_failed b1"
    using b1 Cons.prems(1) k(2) by (intro Cons.IH) auto
  then show ?case using b1 by simp
qed

lemma created_keeps:
  assumes "hpu_output_create pl (Some ops) kvs name sev utc fi bm = Inr b"
    and "I (so_priv0 ops)"
    and "\<And>f p k v. so_configure ops = Some f \<Longrightarrow> I p \<Longrightarrow> I (snd (f p k v))"
    and "so_init ops = Some ini" "\<And>p p'. I p \<Longrightarrow> ini p = (0, p') \<Longrightarrow> J p'"
    and "so_start ops = Some sta" "\<And>p p'. J p \<Longrightarrow> sta p = (0, p') \<Longrightarrow> K p'"
  shows "ob_ops b = ops \<and> K (ob_priv b) \<and> ob_failed b = 0"
proof -
  obtain b0 where k: "apply_kvs kvs (new_output ops name sev utc) = Inr b0"
    using assms(1) by (auto simp: hpu_output_create_def split: sum.splits)
  have b0: "ob_ops b0 = ops" "I (ob_priv b0)" "ob_failed b0 = 0"
    using apply_kvs_keeps [of "new_output ops name sev utc" I, OF _ _ k] assms(2,3) by (auto simp: new_output_def)
  obtain p1 where i: "ini (ob_priv b0) = (0, p1)"
    using assms(1) by (cases "ini (ob_priv b0)") (auto simp: hpu_output_create_def k assms(4) split: if_splits)
  obtain p2 where st: "sta p1 = (0, p2)"
    using assms(1) by (cases "sta p1") (auto simp: hpu_output_create_def k assms(4,6) i split: if_splits)
  have "K p2" by (rule assms(7) [OF assms(5) [OF b0(2) i] st])
  then show ?thesis using assms(1) b0
    by (auto simp: hpu_output_create_def k assms(4,6) i st Let_def split: if_splits option.splits)
qed

definition fresh_link :: "'z net_link_scheme \<Rightarrow> bool" where
  "fresh_link p \<longleftrightarrow> link_idle p \<and> talk p = []"

lemma fresh_updates [simp]:
  "fresh_link (p\<lparr>nl_backoff_init_s := n\<rparr>) = fresh_link p" "fresh_link (p\<lparr>nl_backoff_max_s := n\<rparr>) = fresh_link p"
  "fresh_link (p\<lparr>nl_fd := fd\<rparr>) = fresh_link p" "fresh_link (p\<lparr>nl_connected := c\<rparr>) = fresh_link p"
  by (simp_all add: fresh_link_def link_idle_def talk_def)

lemma fresh_more: "net_link.truncate p = net_link.truncate q \<Longrightarrow> fresh_link p = fresh_link q"
  by (cases p; cases q) (simp add: fresh_link_def link_idle_def talk_def net_link.truncate_def)

lemma fresh_open: "net_open E tgt p = (fd, p') \<Longrightarrow> fresh_link p' = fresh_link p"
  by (auto simp: net_open_def fresh_link_def link_idle_def Let_def)

lemma fresh_default [simp]: "fresh_link (default_backoff p) = fresh_link p"
  by (simp add: default_backoff_def)

lemma fresh_backoff [simp]: "fresh_link (snd (configure_backoff p k v)) = fresh_link p"
  by (simp add: configure_backoff_def set_uint_def split: option.split)

lemma tcp_created:
  assumes "hpu_output_create pl (Some (hpu_tcp_sink_ops E)) kvs name sev utc fi bm = Inr b"
  shows "ob_ops b = hpu_tcp_sink_ops E \<and> fresh_link (ob_priv b) \<and> ob_failed b = 0"
proof (rule created_keeps [where I = fresh_link and J = fresh_link and K = fresh_link, OF assms])
  show "fresh_link (so_priv0 (hpu_tcp_sink_ops E))"
    by (simp add: hpu_tcp_sink_ops_def tcp_priv0_def fresh_link_def link_idle_def talk_def link0_def net_link.extend_def)
  show "so_init (hpu_tcp_sink_ops E) = Some tcp_init" "so_start (hpu_tcp_sink_ops E) = Some (tcp_start E)"
    by (simp_all add: hpu_tcp_sink_ops_def)
next
  fix f k v and p :: hpu_tcp_priv
  have "fresh_link (p\<lparr>tp_host := h\<rparr>) = fresh_link p" "fresh_link (p\<lparr>tp_port := q\<rparr>) = fresh_link p" for h q
    by (simp_all add: fresh_link_def link_idle_def talk_def)
  then show "so_configure (hpu_tcp_sink_ops E) = Some f \<Longrightarrow> fresh_link p \<Longrightarrow> fresh_link (snd (f p k v))"
    by (auto simp: hpu_tcp_sink_ops_def tcp_configure_def set_uint_def split: option.splits if_splits)
next
  fix p p' :: hpu_tcp_priv
  show "fresh_link p \<Longrightarrow> tcp_init p = (0, p') \<Longrightarrow> fresh_link p'" by (auto simp: tcp_init_def Let_def split: if_splits)
  have "fresh_link (p\<lparr>tp_addr := a\<rparr>) = fresh_link p" for a by (simp add: fresh_link_def link_idle_def talk_def)
  then show "fresh_link p \<Longrightarrow> tcp_start E p = (0, p') \<Longrightarrow> fresh_link p'"
    by (auto simp: tcp_start_def dest!: fresh_open split: option.splits prod.splits if_splits)
qed

text \<open>
  C12. The TCP sink. Whatever the connection does, after any deliveries to a newly created instance, one by
  one and in batches, the bytes handed to the peer are a piece of each line in order, the whole line with its
  newline or a part of it, and the failures booked are as many as the lines not counted as sent in full.
\<close>

theorem tcp_accounts:
  assumes "hpu_output_create pl (Some (hpu_tcp_sink_ops E)) kvs name sev utc fi bm = Inr b"
  shows "\<exists>fates. stream_fates fates (map ev_line (concat (map call_events calls)))
    \<and> gave (ob_priv (fold sink_deliver calls b)) = concat (map snd fates)
    \<and> ob_failed (fold sink_deliver calls b) = losses fates"
proof -
  note c = tcp_created [OF assms]
  have "so_emit (ob_ops b) = Some (tcp_emit E)" "so_emit_batch (ob_ops b) = Some (tcp_emit_batch E)" "link_idle (ob_priv b)"
    using c by (simp_all add: hpu_tcp_sink_ops_def fresh_link_def)
  from tcp.run_accounts [OF this, of calls] show ?thesis using c by (simp add: fresh_link_def gave_talk)
qed

text \<open>A peer that can be reached once, and takes what \<open>send\<close> lets it.\<close>

definition demo_net :: "(net_event list \<Rightarrow> int \<Rightarrow> string \<Rightarrow> nat \<times> send_result) \<Rightarrow> net_env" where
  "demo_net send = \<lparr>ne_now = (\<lambda>log. length log), ne_open = (\<lambda>log tgt. if length log < 4 then 7 else - 1), ne_send = send,
     ne_recv = (\<lambda>log fd cap. []), ne_set_timeout = (\<lambda>log fd ms. True), ne_resolve = (\<lambda>host port. Some (host @ port)), ne_sigmask = (\<lambda>log. True)\<rparr>"

definition net_line :: "string \<Rightarrow> hpulogc_event" where
  "net_line line = \<lparr>ev_level = 2, ev_category = None, ev_file = None, ev_func = None, ev_src_line = 0, ev_msg = [], ev_tid = 0,
     ev_realtime_ns = 0, ev_mono_us = 0, ev_line = line, ev_fields = [], ev_field_count = 0, ev_wire = None\<rparr>"

definition demo_pl :: platform_init where
  "demo_pl = \<lparr>pi_mem = (\<lambda>i. CHR 0x00), pi_ok = True, pi_now_ms = 0\<rparr>"

theorem tcp_accounts_witness:
  "let E = demo_net (\<lambda>log fd data. if length log < 3 then (0, SendOk) else (1, SendError)); calls = [CallBatch [net_line ''one'', net_line ''two''], CallEmit (net_line ''three'')]
   in \<exists>b fates. hpu_output_create demo_pl (Some (hpu_tcp_sink_ops E)) [(''host'', Some ''h''), (''port'', Some ''514'')] (Some ''t'') 2 True 100 16 = Inr b
     \<and> stream_fates fates [''one'', ''two'', ''three''] \<and> gave (ob_priv (fold sink_deliver calls b)) = concat (map snd fates)
     \<and> ob_failed (fold sink_deliver calls b) = losses fates"
proof -
  let ?E = "demo_net (\<lambda>log fd data. if length log < 3 then (0, SendOk) else (1, SendError))"
  let ?calls = "[CallBatch [net_line ''one'', net_line ''two''], CallEmit (net_line ''three'')]"
  have "\<exists>b. hpu_output_create demo_pl (Some (hpu_tcp_sink_ops ?E)) [(''host'', Some ''h''), (''port'', Some ''514'')] (Some ''t'') 2 True 100 16 = Inr b"
    by (simp add: hpu_output_create_def hpu_tcp_sink_ops_def new_output_def apply_kv_def is_common_key_def tcp_configure_def short_text_def
        HPU_TCP_HOST_MAX_def set_uint_def parse_uint_def scan_number_def strtol_def tcp_priv0_def link0_def net_link.extend_def hpu_tcp_priv.fields_def tcp_init_def
        default_backoff_def HPU_NET_BACKOFF_DEFAULT_S_def HPU_NET_BACKOFF_MAX_DEFAULT_S_def tcp_start_def net_open_def demo_net_def net_log_def base_digit_def base_val_def isspace_def Let_def)
  then obtain b where b: "hpu_output_create demo_pl (Some (hpu_tcp_sink_ops ?E)) [(''host'', Some ''h''), (''port'', Some ''514'')] (Some ''t'') 2 True 100 16 = Inr b" ..
  from tcp_accounts [OF b, of ?calls] b show ?thesis by (auto simp: Let_def call_events_def net_line_def)
qed

section \<open>What goes wrong\<close>

text \<open>
  The private state starts zeroed, and zero is a descriptor: a configuration error, and a pipe that has no
  reader yet, close the standard input of the process.
\<close>

lemma config_error_closes_stdin:
  "hpu_output_create pl (Some (hpu_fifo_sink_ops E)) [(''nosuch'', val)] name sev utc fi bm
     = Inl (HPULOGC_ERR_CONFIG, Some (net_log (NvClose 0) fifo_priv0\<lparr>nl_fd := - 1\<rparr>))"
  by (simp add: hpu_output_create_def hpu_fifo_sink_ops_def new_output_def apply_kv_def is_common_key_def fifo_configure_def
      configure_backoff_def run_destroy_def fifo_destroy_def close_fd_def fifo_priv0_def link0_def net_link.extend_def hpu_fifo_priv.fields_def)

lemma waiting_pipe_closes_stdin:
  assumes "ne_open E (nl_log p) (NtFifo (ff_path p)) = - 1" "nl_fd p = 0"
  shows "\<exists>p'. fifo_start E p = (0, p') \<and> NvClose 0 \<in> set (nl_log p')"
proof -
  have "NvClose 0 \<in> set (nl_log (fifo_arm_backoff E (net_log (NvOpen (NtFifo (ff_path p)) (- 1)) p)))"
    using assms(2) by (simp add: fifo_arm_backoff_def arm_backoff_def first_backoff_def close_fd_def hpu_now_ns_def Let_def)
  then show ?thesis using assms(1) by (simp add: fifo_start_def fifo_open_write_end_def net_open_def Let_def)
qed

text \<open>A record of a batch that the pipe does not take is booked by the sink and by the core.\<close>

lemma pipe_full_booked_twice:
  assumes "ob_ops b = hpu_fifo_sink_ops E" "nl_fd (ob_priv b) \<ge> 0" "\<And>log. ne_sigmask E log" "\<And>log fd data. snd (ne_send E log fd data) = SendAgain"
  shows "ob_failed (sink_deliver (CallBatch [ev]) b) = ob_failed b + 2"
    and "ob_failed (sink_deliver (CallEmit ev) b) = ob_failed b + 1"
proof -
  have w: "fst (fifo_write_record E data p) = 1" for data p
    using assms(3,4) [of "nl_log p"] by (simp add: fifo_write_record_def hpu_net_send_def split: prod.split) (metis send_result.simps(8) snd_conv)
  let ?w = "fifo_write_record E (take (HPU_FIFO_STAGE_SIZE - 1) (ev_line ev) @ [CHR 0x0A]) (ob_priv b)"
  have "?w = (1, snd ?w)" using w by (metis prod.collapse)
  then obtain p where d: "fifo_deliver E (ev_line ev) (ob_priv b) = (1, p, 1)" by (cases ?w) (simp add: fifo_deliver_def)
  show "ob_failed (sink_deliver (CallBatch [ev]) b) = ob_failed b + 2"
    using assms(2) by (simp add: sink_deliver_def sq_emit_batch_def assms(1) hpu_fifo_sink_ops_def fifo_emit_batch_def d hpu_sink_account_failed_def)
  show "ob_failed (sink_deliver (CallEmit ev) b) = ob_failed b + 1"
    using assms(2) by (simp add: sink_deliver_def assms(1) hpu_fifo_sink_ops_def fifo_emit_def d hpu_sink_account_failed_def)
qed

text \<open>
  The instance counter of the syslog sink: an instance that fails in its configuration gives back what it
  never took, and from then on every instance is refused; one that is refused keeps what it took.
\<close>

lemma syslog_config_error_wraps:
  "hpu_output_create pl (Some (hpu_syslog_sink_ops nm 0)) [(''nosuch'', val)] name sev utc fi bm
     = Inl (HPULOGC_ERR_CONFIG, Some ((so_priv0 (hpu_syslog_sink_ops nm 0))\<lparr>sl_instances := 2 ^ 32 - 1\<rparr>))"
  by (simp add: hpu_output_create_def hpu_syslog_sink_ops_def new_output_def apply_kv_def is_common_key_def syslog_configure_def
      run_destroy_def syslog_destroy_def)

lemma syslog_refused_keeps_count:
  assumes "n \<noteq> 0"
  shows "hpu_output_create pl (Some (hpu_syslog_sink_ops nm n)) [] name sev utc fi bm
     = Inl (HPULOGC_ERR_CONFIG, Some ((so_priv0 (hpu_syslog_sink_ops nm n))\<lparr>sl_instances := (n + 1) mod 2 ^ 32\<rparr>))"
  using assms by (simp add: hpu_output_create_def hpu_syslog_sink_ops_def new_output_def syslog_init_def)

text \<open>Lines end in a newline already; a stream gets a second one.\<close>

lemma blank_line_follows:
  assumes "hpu_net_send E (line @ [CHR 0x0A]) p = (SendOk, p1)" "hpu_net_send E [CHR 0x0A] p1 = (SendOk, p2)"
  shows "gave (fst (stream_emit E (line @ [CHR 0x0A]) p)) = gave p @ line @ [CHR 0x0A, CHR 0x0A]"
  using assms send_spec(3) [OF assms(1)] send_spec(3) [OF assms(2)] by (simp add: stream_emit_def send_frame_def)

end
