(* ===== verification/HttpLaws.thy ===== *)
theory HttpLaws
  imports HttpSink NetSinkLaws RenderLaws
begin

text \<open>
  What the HTTP sink posts: bodies that read back as the lines, requests that fit their buffer, lines that are
  posted at most once and counted when the post was not confirmed; and what a closed connection does.
\<close>

section \<open>The body\<close>

lemma http_escape_char [simp]: "http_json_escape_char = json_esc"
  by (rule ext) (simp add: http_json_escape_char_def json_esc_def u_escape_def)

lemma http_escape [simp]: "http_json_escape s = json_escape s"
  by (simp add: http_json_escape_def json_escape_def)

lemma http_char_len: "http_json_char_len = (\<lambda>c. length (json_esc c))"
  by (rule ext) (simp add: http_json_char_len_def json_esc_def u_escape_def)

lemma http_chars_len: "sum_list (map http_json_char_len s) = length (json_escape s)"
  by (simp add: http_char_len json_escape_def length_concat comp_def)

definition quoted :: "string \<Rightarrow> string" where
  "quoted line = [CHR 0x22] @ json_escape line @ [CHR 0x22]"

text \<open>The lines of a body, as elements with commas or as lines.\<close>

definition http_join :: "bool \<Rightarrow> string list \<Rightarrow> string" where
  "http_join nd ls = (if nd then concat (map (\<lambda>l. if fst l = 0 then quoted (snd l) else '','' @ quoted (snd l)) (enumerate 0 ls)) else concat (map frame ls))"

lemma http_join_nil [simp]: "http_join nd [] = []"
  by (simp add: http_join_def)

lemma http_join_snoc: "http_join nd (ls @ [l]) = http_join nd ls @ (if nd then (if ls = [] then [] else '','') @ quoted l else frame l)"
  by (simp add: http_join_def enumerate_append_eq)

lemma http_join_empty [simp]: "http_join nd ls = [] \<longleftrightarrow> ls = []"
  by (cases ls rule: rev_cases) (simp_all add: http_join_snoc quoted_def frame_def)

definition http_pending :: "string list \<Rightarrow> hpu_http_priv \<Rightarrow> bool" where
  "http_pending ls p \<longleftrightarrow> nl_buf p = http_join (hp_ndjson p) ls \<and> nl_buf_lines p = length ls \<and> http_body_len p \<le> http_budget p"

lemma body_len_gt: "hp_ndjson p \<Longrightarrow> http_body_len p > 1 \<longleftrightarrow> nl_buf p \<noteq> []"
  by (simp add: http_body_len_def)

lemma append_len: "http_body_len (http_append line p) = http_body_len p + http_need p line"
  by (simp add: http_append_def http_need_def http_json_element_len_def http_chars_len http_body_len_def)

lemma append_join:
  "nl_buf p = http_join (hp_ndjson p) ls \<Longrightarrow> nl_buf (http_append line p) = http_join (hp_ndjson p) (ls @ [line])"
  by (cases "hp_ndjson p") (simp_all add: http_append_def http_join_snoc http_body_len_def quoted_def frame_def)

lemma append_keeps [simp]:
  "hp_ndjson (http_append line p) = hp_ndjson p" "net_link.more (http_append line p) = net_link.more p" "gave (http_append line p) = gave p" "talk (http_append line p) = talk p"
  by (simp_all add: http_append_def)

text \<open>A reader of arrays of strings.\<close>

function json_items :: "string \<Rightarrow> string list option" where
  "json_items s =
     (case s of c # r \<Rightarrow>
        if c \<noteq> CHR 0x22 then None
        else (case json_string r of None \<Rightarrow> None
              | Some (t, q) \<Rightarrow> if q = '']'' then Some [t]
                  else if take 1 q = '','' \<and> length q < length s then map_option ((#) t) (json_items (drop 1 q)) else None)
      | [] \<Rightarrow> None)"
  by pat_completeness auto
termination
  by (relation "measure length") auto

declare json_items.simps [simp del]

definition json_array :: "string \<Rightarrow> string list option" where
  "json_array s = (if take 1 s \<noteq> ''['' then None else if drop 1 s = '']'' then Some [] else json_items (drop 1 s))"

fun comma_join :: "string list \<Rightarrow> string" where
  "comma_join [] = []"
| "comma_join [l] = quoted l"
| "comma_join (l # m # ls) = quoted l @ '','' @ comma_join (m # ls)"

lemma comma_join_snoc: "comma_join (ls @ [l]) = comma_join ls @ (if ls = [] then [] else '','') @ quoted l"
  by (induction ls rule: comma_join.induct) auto

lemma http_join_comma: "http_join True ls = comma_join ls"
  by (induction ls rule: rev_induct) (simp_all add: http_join_snoc comma_join_snoc)

lemma items_join: "ls \<noteq> [] \<Longrightarrow> json_items (comma_join ls @ '']'') = Some ls"
proof (induction ls rule: comma_join.induct)
  case (2 l)
  then show ?case by (subst json_items.simps) (simp add: quoted_def json_string_escape)
next
  case (3 l m ls)
  have "json_string (json_escape l @ CHR 0x22 # '','' @ comma_join (m # ls) @ '']'') = Some (l, '','' @ comma_join (m # ls) @ '']'')"
    by (rule json_string_escape)
  then show ?case using 3 by (subst json_items.simps) (simp add: quoted_def)
qed simp

lemma array_join: "json_array (''['' @ http_join True ls @ '']'') = Some ls"
  using items_join [of ls] by (cases ls rule: comma_join.cases) (auto simp: json_array_def http_join_comma quoted_def)

section \<open>The request\<close>

definition http_conf_ok :: "hpu_http_priv \<Rightarrow> bool" where
  "http_conf_ok p \<longleftrightarrow> length (hp_host p) < HPU_HTTP_HOST_MAX \<and> length (hp_path p) < HPU_HTTP_PATH_MAX \<and> hp_port p \<le> 65535
     \<and> length (hp_headers p) \<le> HPU_HTTP_HEADER_MAX
     \<and> (\<forall>h\<in>set (hp_headers p). length (fst h) < HPU_HTTP_HEADER_KEY_MAX \<and> length (snd h) < HPU_HTTP_HEADER_VAL_MAX)"

lemma digits_len: "n < 10 ^ k \<Longrightarrow> 0 < k \<Longrightarrow> length (dec_digits n) \<le> k"
proof (induction k arbitrary: n)
  case 0
  then show ?case by simp
next
  case (Suc k)
  show ?case
  proof (cases "n < 10")
    case True
    then show ?thesis by (subst dec_digits.simps) simp
  next
    case False
    then have "0 < k" using Suc.prems by (cases k) auto
    moreover have "n div 10 < 10 ^ k" using Suc.prems(1) by (simp add: less_mult_imp_div_less mult.commute)
    ultimately show ?thesis using Suc.IH [of "n div 10"] False by (subst dec_digits.simps) simp
  qed
qed

lemma put_headers_all:
  "length out + sum_list (map (\<lambda>h. length (http_header_line h)) hs) < cap \<Longrightarrow> http_put_headers cap hs out = Some (out @ concat (map http_header_line hs))"
  by (induction hs arbitrary: out) auto

lemma headers_len:
  assumes "\<And>h. h \<in> set hs \<Longrightarrow> length (fst h) < HPU_HTTP_HEADER_KEY_MAX \<and> length (snd h) < HPU_HTTP_HEADER_VAL_MAX"
  shows "sum_list (map (\<lambda>h. length (http_header_line h)) hs) \<le> 386 * length hs"
  using assms
proof (induction hs)
  case (Cons h hs)
  have "length (http_header_line h) \<le> 386" using Cons.prems [of h]
    by (simp add: http_header_line_def CRLF_def HPU_HTTP_HEADER_KEY_MAX_def HPU_HTTP_HEADER_VAL_MAX_def)
  moreover have "sum_list (map (\<lambda>h. length (http_header_line h)) hs) \<le> 386 * length hs" using Cons by simp
  ultimately show ?case by simp
qed simp

definition http_head :: "hpu_http_priv \<Rightarrow> nat \<Rightarrow> string" where
  "http_head p n = http_request_head p n @ concat (map http_header_line (hp_headers p)) @ CRLF"

lemma request_head_len:
  assumes "http_conf_ok p" "n \<le> HPU_HTTP_BODY_SIZE"
  shows "length (http_request_head p n) \<le> 880"
proof -
  have "n < 10 ^ 5" using assms(2) by (simp add: HPU_HTTP_BODY_SIZE_def)
  then have "length (dec_digits n) \<le> 5" by (rule digits_len) simp
  moreover have "length (take (HPU_HTTP_HOST_MAX + 7) (http_hostport p)) \<le> 263" by (simp add: HPU_HTTP_HOST_MAX_def)
  moreover have "length (hp_path p) \<le> 511" using assms(1) by (simp add: http_conf_ok_def HPU_HTTP_PATH_MAX_def)
  ultimately show ?thesis by (simp add: http_request_head_def CRLF_def)
qed

lemma request_fits:
  assumes "http_conf_ok p" "n \<le> HPU_HTTP_BODY_SIZE"
  shows "http_build_request p n HPU_HTTP_REQHDR_MAX = Some (http_head p n)" "length (http_head p n) < HPU_HTTP_REQHDR_MAX"
proof -
  have s: "sum_list (map (\<lambda>h. length (http_header_line h)) (hp_headers p)) \<le> 3088"
    using headers_len [of "hp_headers p"] assms(1) by (fastforce simp: http_conf_ok_def HPU_HTTP_HEADER_MAX_def)
  then have "http_put_headers HPU_HTTP_REQHDR_MAX (hp_headers p) (http_request_head p n)
      = Some (http_request_head p n @ concat (map http_header_line (hp_headers p)))"
    using request_head_len [OF assms] by (intro put_headers_all) (simp add: HPU_HTTP_REQHDR_MAX_def)
  then show "http_build_request p n HPU_HTTP_REQHDR_MAX = Some (http_head p n)" "length (http_head p n) < HPU_HTTP_REQHDR_MAX"
    using s request_head_len [OF assms]
    by (simp_all add: http_build_request_def http_head_def length_concat comp_def CRLF_def HPU_HTTP_REQHDR_MAX_def)
qed

lemma hostport_uncut: "http_conf_ok p \<Longrightarrow> take (HPU_HTTP_HOST_MAX + 7) (http_hostport p) = http_hostport p"
  using digits_len [of "hp_port p" 5] by (simp add: http_conf_ok_def http_hostport_def HPU_HTTP_HOST_MAX_def Let_def)

text \<open>What the configuration lets through.\<close>

lemma url_path_ok:
  assumes "http_conf_ok p"
  shows "http_conf_ok (snd (http_url_path p s))"
  using assms by (auto simp: http_url_path_def http_conf_ok_def HPU_HTTP_PATH_MAX_def)

lemma url_port_ok:
  assumes "http_conf_ok p"
  shows "http_conf_ok (snd (http_url_port p s))"
proof -
  have "http_conf_ok (p\<lparr>hp_port := nat n\<rparr>)" if "n \<le> 65535" for n using assms that by (simp add: http_conf_ok_def)
  then show ?thesis using assms by (simp add: http_url_port_def url_path_ok Let_def split: prod.split)
qed

lemma parse_url_ok:
  assumes "http_conf_ok p"
  shows "http_conf_ok (snd (http_parse_url p val))"
proof -
  have a: "http_conf_ok (p\<lparr>hp_is_v6 := x\<rparr>)" for x using assms by (simp add: http_conf_ok_def)
  have c: "http_conf_ok (snd (http_url_port (p\<lparr>hp_is_v6 := x, hp_host := h, hp_port := 80\<rparr>) s))" if "length h < HPU_HTTP_HOST_MAX" for x h s
    using assms that by (intro url_port_ok) (simp add: http_conf_ok_def)
  show ?thesis using a c assms unfolding http_parse_url_def Let_def by (auto split: option.split)
qed

lemma add_header_ok:
  assumes "http_conf_ok p"
  shows "http_conf_ok (snd (http_add_header p val))"
  using assms by (auto simp: http_add_header_def http_conf_ok_def Let_def split: option.split)

lemma conf_ok_upd [simp]:
  "http_conf_ok (p\<lparr>nl_backoff_init_s := n\<rparr>) = http_conf_ok p" "http_conf_ok (p\<lparr>nl_backoff_max_s := n\<rparr>) = http_conf_ok p"
  "http_conf_ok (p\<lparr>hp_timeout_ms := n\<rparr>) = http_conf_ok p" "http_conf_ok (p\<lparr>hp_ndjson := x\<rparr>) = http_conf_ok p"
  "http_conf_ok (p\<lparr>hp_addr := a\<rparr>) = http_conf_ok p" "http_conf_ok (p\<lparr>nl_fd := fd\<rparr>) = http_conf_ok p" "http_conf_ok (p\<lparr>nl_connected := x\<rparr>) = http_conf_ok p"
  "http_conf_ok (p\<lparr>nl_buf := bs\<rparr>) = http_conf_ok p" "http_conf_ok (p\<lparr>nl_buf_lines := n\<rparr>) = http_conf_ok p" "http_conf_ok (p\<lparr>nl_log := l\<rparr>) = http_conf_ok p"
  by (simp_all add: http_conf_ok_def)

lemma configure_ok: "http_conf_ok p \<Longrightarrow> http_conf_ok (snd (http_configure p key val))"
  by (simp add: http_configure_def parse_url_ok add_header_ok set_uint_def configure_backoff_def split: option.split)

section \<open>Replies\<close>

text \<open>
  A reply that confirms a post: it holds the end of a header, it starts with \<^verbatim>\<open>HTTP/\<close>, and the
  first blank is followed by a three-digit status that starts with a 2.
\<close>

definition status_2xx :: "string \<Rightarrow> bool" where
  "status_2xx s \<longleftrightarrow> 12 \<le> length s \<and> (\<exists>v d e rest. s = ''HTTP/'' @ v @ '' 2'' @ [d, e] @ rest \<and> CHR '' '' \<notin> set v \<and> is_digit d \<and> is_digit e)"

definition ok_reply :: "string \<Rightarrow> bool" where
  "ok_reply s \<longleftrightarrow> sublist (CRLF @ CRLF) s \<and> status_2xx s"

lemma take_prefix: "take (length xs) ys = xs \<longleftrightarrow> prefix xs ys"
  by (metis append_eq_conv_conj prefix_def take_is_prefix)

lemma header_end_found: "header_end i s \<noteq> None \<longleftrightarrow> sublist (CRLF @ CRLF) s"
proof (induction s arbitrary: i)
  case Nil
  then show ?case by (simp add: CRLF_def)
next
  case (Cons c s)
  have "length (CRLF @ CRLF) = 4" by (simp add: CRLF_def)
  then have "take 4 (c # s) = CRLF @ CRLF \<longleftrightarrow> prefix (CRLF @ CRLF) (c # s)" using take_prefix [of "CRLF @ CRLF" "c # s"] by simp
  then show ?case using Cons by (simp add: sublist_Cons_right del: take_Suc_Cons)
qed

lemma digit_val: "is_digit c \<longleftrightarrow> 48 \<le> (of_char c :: int) \<and> (of_char c :: int) \<le> 57"
proof -
  have "(of_char c :: int) = int (of_char c)" by (rule of_nat_of_char [symmetric])
  then show ?thesis unfolding is_digit_def by linarith
qed

lemma two_digits:
  fixes x y :: int
  assumes "48 \<le> x \<and> x \<le> 57" "48 \<le> y \<and> y \<le> 57"
  shows "200 \<le> 200 + ((x - 48) * 10 + (y - 48)) \<and> 200 + ((x - 48) * 10 + (y - 48)) \<le> 299"
  using assms by auto

lemma three_digits:
  fixes x y z :: int
  assumes "48 \<le> x \<and> x \<le> 57" "48 \<le> y \<and> y \<le> 57" "48 \<le> z \<and> z \<le> 57"
    "200 \<le> (x - 48) * 100 + (y - 48) * 10 + (z - 48)" "(x - 48) * 100 + (y - 48) * 10 + (z - 48) \<le> 299"
  shows "x = 50"
proof -
  have "48 \<le> y" "y \<le> 57" "48 \<le> z" "z \<le> 57" using assms(2,3) by simp_all
  then have "(x - 48) * 100 < 300 \<and> 100 < (x - 48) * 100" using assms(4,5) by (simp only: ring_distribs) arith
  then have "x < 51 \<and> 49 < x" by arith
  then show ?thesis by simp
qed

lemma first_blank: "CHR '' '' \<notin> set v \<Longrightarrow> takeWhile (\<lambda>c. c \<noteq> CHR '' '') (''HTTP/'' @ v @ CHR '' '' # r) = ''HTTP/'' @ v"
  by (induction v) auto

lemma status_shape:
  "http_status s = Some code \<longleftrightarrow> 12 \<le> length s \<and> (\<exists>v a b c rest. s = ''HTTP/'' @ v @ CHR '' '' # a # b # c # rest
     \<and> CHR '' '' \<notin> set v \<and> is_digit a \<and> is_digit b \<and> is_digit c
     \<and> code = (of_char a - 48) * 100 + (of_char b - 48) * 10 + (of_char c - 48))"
proof
  let ?sp = "length (takeWhile (\<lambda>c. c \<noteq> CHR '' '') s)"
  assume "http_status s = Some code"
  then have s: "12 \<le> length s" "take 5 s = ''HTTP/''" "?sp \<noteq> length s" "?sp + 4 \<le> length s" "is_digit (s ! (?sp + 1))" "is_digit (s ! (?sp + 2))" "is_digit (s ! (?sp + 3))"
    "code = (of_char (s ! (?sp + 1)) - 48) * 100 + (of_char (s ! (?sp + 2)) - 48) * 10 + (of_char (s ! (?sp + 3)) - 48)"
    by (auto simp: http_status_def Let_def split: if_splits)
  define t where "t = drop 5 s"
  have st: "s = ''HTTP/'' @ t" using s(2) by (metis append_take_drop_id t_def)
  let ?v = "takeWhile (\<lambda>c. c \<noteq> CHR '' '') t" and ?d = "dropWhile (\<lambda>c. c \<noteq> CHR '' '') t"
  have sp: "?sp = 5 + length ?v" by (simp add: st)
  have tv: "t = ?v @ ?d" by simp
  have ld: "length t = length ?v + length ?d" by (metis tv length_append)
  then have "4 \<le> length ?d" using s(4) sp st by simp
  then obtain x a b c rest where d: "?d = x # a # b # c # rest" by (auto simp: Suc_le_length_iff numeral_eq_Suc)
  then have "x = CHR '' ''" using hd_dropWhile [of "\<lambda>c. c \<noteq> CHR '' ''" t] by simp
  then have sv: "s = ''HTTP/'' @ ?v @ CHR '' '' # a # b # c # rest" using st tv d by metis
  have n: "s ! (?sp + 1) = a" "s ! (?sp + 2) = b" "s ! (?sp + 3) = c"
    unfolding sp by (subst sv, simp add: nth_append)+
  have "CHR '' '' \<notin> set ?v" using set_takeWhileD [of "CHR '' ''" "\<lambda>c. c \<noteq> CHR '' ''" t] by blast
  then show "12 \<le> length s \<and> (\<exists>v a b c rest. s = ''HTTP/'' @ v @ CHR '' '' # a # b # c # rest
     \<and> CHR '' '' \<notin> set v \<and> is_digit a \<and> is_digit b \<and> is_digit c
     \<and> code = (of_char a - 48) * 100 + (of_char b - 48) * 10 + (of_char c - 48))"
    using s(1,5-8) sv unfolding n
    by (intro conjI exI [of _ ?v] exI [of _ a] exI [of _ b] exI [of _ c] exI [of _ rest]) assumption+
next
  assume "12 \<le> length s \<and> (\<exists>v a b c rest. s = ''HTTP/'' @ v @ CHR '' '' # a # b # c # rest
     \<and> CHR '' '' \<notin> set v \<and> is_digit a \<and> is_digit b \<and> is_digit c
     \<and> code = (of_char a - 48) * 100 + (of_char b - 48) * 10 + (of_char c - 48))"
  then obtain v a b c rest where s: "12 \<le> length s" "s = ''HTTP/'' @ v @ CHR '' '' # a # b # c # rest" "CHR '' '' \<notin> set v"
    "is_digit a" "is_digit b" "is_digit c" "code = (of_char a - 48) * 100 + (of_char b - 48) * 10 + (of_char c - 48)" by blast
  have sp: "length (takeWhile (\<lambda>c. c \<noteq> CHR '' '') s) = 5 + length v" unfolding s(2) first_blank [OF s(3)] by simp
  show "http_status s = Some code"
    unfolding http_status_def Let_def sp using s by (simp add: nth_append)
qed

lemma status_more: "http_status s = Some code \<Longrightarrow> http_status (s @ t) = Some code"
  unfolding status_shape
proof (elim conjE exE)
  fix v a b c rest
  assume "12 \<le> length s" "s = ''HTTP/'' @ v @ CHR '' '' # a # b # c # rest" "CHR '' '' \<notin> set v" "is_digit a" "is_digit b" "is_digit c"
    "code = (of_char a - 48) * 100 + (of_char b - 48) * 10 + (of_char c - 48)"
  then show "12 \<le> length (s @ t) \<and> (\<exists>v a b c rest. s @ t = ''HTTP/'' @ v @ CHR '' '' # a # b # c # rest \<and> CHR '' '' \<notin> set v
     \<and> is_digit a \<and> is_digit b \<and> is_digit c \<and> code = (of_char a - 48) * 100 + (of_char b - 48) * 10 + (of_char c - 48))"
    by (intro conjI exI [of _ v] exI [of _ a] exI [of _ b] exI [of _ c] exI [of _ "rest @ t"]) simp_all
qed

lemma status_2xx_code: "status_2xx s \<longleftrightarrow> (\<exists>code. http_status s = Some code \<and> 200 \<le> code \<and> code \<le> 299)"
proof
  assume "status_2xx s"
  then obtain v d e rest where s: "12 \<le> length s" "s = ''HTTP/'' @ v @ '' 2'' @ [d, e] @ rest" "CHR '' '' \<notin> set v" "is_digit d" "is_digit e"
    by (auto simp: status_2xx_def)
  have "http_status s = Some (200 + ((of_char d - 48) * 10 + (of_char e - 48)))"
    unfolding status_shape using s by (intro conjI exI [of _ v] exI [of _ "CHR ''2''"] exI [of _ d] exI [of _ e] exI [of _ rest]) (simp_all add: is_digit_def)
  then show "\<exists>code. http_status s = Some code \<and> 200 \<le> code \<and> code \<le> 299"
    using two_digits [OF iffD1 [OF digit_val s(4)] iffD1 [OF digit_val s(5)]] by blast
next
  assume "\<exists>code. http_status s = Some code \<and> 200 \<le> code \<and> code \<le> 299"
  then obtain code where c: "http_status s = Some code" "200 \<le> code" "code \<le> 299" by blast
  then obtain v a b d rest where s: "12 \<le> length s" "s = ''HTTP/'' @ v @ CHR '' '' # a # b # d # rest" "CHR '' '' \<notin> set v"
    "is_digit a" "is_digit b" "is_digit d" "code = (of_char a - 48) * 100 + (of_char b - 48) * 10 + (of_char d - 48)"
    unfolding status_shape by blast
  have "(of_char a :: int) = 50" 
    using three_digits [OF iffD1 [OF digit_val s(4)] iffD1 [OF digit_val s(5)] iffD1 [OF digit_val s(6)]] s(7) c(2,3) by simp
  then have "(of_char a :: int) = of_char (CHR ''2'')" by simp
  then have "a = CHR ''2''" by (simp only: of_char_eq_iff)
  then show "status_2xx s" using s unfolding status_2xx_def by auto
qed

section \<open>Posts\<close>

definition http_group :: "hpu_http_priv \<Rightarrow> string list \<Rightarrow> string" where
  "http_group c g = (if hp_ndjson c then ''['' @ http_join True g @ '']'' else http_join False g)"

definition http_post :: "hpu_http_priv \<Rightarrow> string list \<Rightarrow> string" where
  "http_post c g = http_head c (length (http_group c g)) @ http_group c g"

text \<open>
  What was exchanged for a post: the bytes sent and the bytes received. A post is confirmed when all its bytes
  were sent, no receive failed, and the reply confirms it.
\<close>

definition sent :: "net_event list \<Rightarrow> string" where
  "sent seg = concat (map event_bytes seg)"

definition heard :: "net_event list \<Rightarrow> string" where
  "heard seg = concat (map (\<lambda>e. case e of NvRecv fd s \<Rightarrow> s | _ \<Rightarrow> []) seg)"

definition recv_ok :: "net_event list \<Rightarrow> bool" where
  "recv_ok seg \<longleftrightarrow> (\<forall>fd. NvRecv fd [] \<notin> set seg)"

definition confirms :: "hpu_http_priv \<Rightarrow> string list \<Rightarrow> net_event list \<Rightarrow> bool" where
  "confirms c g seg \<longleftrightarrow> sent seg = http_post c g \<and> recv_ok seg \<and> ok_reply (heard seg)"

lemma seg_append [simp]:
  "sent (a @ b) = sent a @ sent b" "heard (a @ b) = heard a @ heard b" "recv_ok (a @ b) \<longleftrightarrow> recv_ok a \<and> recv_ok b"
  by (auto simp: sent_def heard_def recv_ok_def)

lemma seg_simps [simp]:
  "sent [] = []" "heard [] = []" "recv_ok []" "sent [NvRecv fd s] = []" "heard [NvSend fd data k r] = []" "recv_ok [NvSend fd data k r]"
  "heard [NvRecv fd s] = s" "recv_ok [NvRecv fd s] \<longleftrightarrow> s \<noteq> []" "sent [NvSend fd data k r] = take k data"
  by (auto simp: sent_def heard_def recv_ok_def event_bytes_def)

definition post_fates :: "hpu_http_priv \<Rightarrow> net_event list list \<Rightarrow> string list list \<Rightarrow> bool" where
  "post_fates c segs groups \<longleftrightarrow> list_all2 (\<lambda>seg g. g \<noteq> [] \<and> length (http_group c g) \<le> HPU_HTTP_BODY_SIZE
     \<and> prefix (sent seg) (http_post c g)) segs groups"

definition confirmed :: "hpu_http_priv \<Rightarrow> net_event list list \<Rightarrow> string list list \<Rightarrow> nat" where
  "confirmed c segs groups = sum_list (map (\<lambda>(seg, g). if confirms c g seg then length g else 0) (zip segs groups))"

definition posts_tell :: "hpu_http_priv \<Rightarrow> net_event list \<Rightarrow> string list \<Rightarrow> nat \<Rightarrow> bool" where
  "posts_tell c out ls n \<longleftrightarrow> (\<exists>segs groups. post_fates c segs groups \<and> subseq (concat groups) ls
     \<and> out = concat segs \<and> n + confirmed c segs groups = length ls)"

lemma post_fates_nil [simp]: "post_fates c [] []" "confirmed c [] [] = 0"
  by (simp_all add: post_fates_def confirmed_def)

lemma confirmed_le: "confirmed c fs gs \<le> length (concat gs)"
proof (induction fs arbitrary: gs)
  case Nil
  then show ?case by (simp add: confirmed_def)
next
  case (Cons f fs)
  then show ?case using Cons.IH [of "tl gs"] by (cases gs) (auto simp: confirmed_def intro: trans_le_add2)
qed

lemma post_fates_append: "post_fates c fs gs \<Longrightarrow> post_fates c fs2 gs2 \<Longrightarrow> post_fates c (fs @ fs2) (gs @ gs2)"
  by (simp add: post_fates_def list_all2_appendI)

lemma confirmed_append: "post_fates c fs gs \<Longrightarrow> confirmed d (fs @ fs2) (gs @ gs2) = confirmed d fs gs + confirmed d fs2 gs2"
  by (simp add: post_fates_def confirmed_def zip_append list_all2_lengthD)

lemma posts_tell_append: "posts_tell c out ls n \<Longrightarrow> posts_tell c out2 ls2 n2 \<Longrightarrow> posts_tell c (out @ out2) (ls @ ls2) (n + n2)"
  unfolding posts_tell_def
  by (elim exE conjE, rule_tac x = "segs @ segsa" in exI, rule_tac x = "groups @ groupsa" in exI)
    (auto simp: post_fates_append confirmed_append list_emb_append_mono)

lemma same_conf:
  assumes "net_link.more p = net_link.more q"
  shows "hp_ndjson p = hp_ndjson q" "http_head p n = http_head q n" "http_conf_ok p = http_conf_ok q" "http_group p g = http_group q g"
    "http_budget p = http_budget q" "http_post p g = http_post q g" "post_fates p fs gs = post_fates q fs gs"
    "confirmed p fs gs = confirmed q fs gs"
proof -
  show n: "hp_ndjson p = hp_ndjson q" and h: "http_head p n = http_head q n" for n using assms
    by (cases p; cases q; simp add: http_head_def http_request_head_def http_hostport_def)+
  show "http_conf_ok p = http_conf_ok q" using assms by (cases p; cases q; simp add: http_conf_ok_def)
  show g: "http_group p g = http_group q g" for g by (simp add: http_group_def n)
  show "http_budget p = http_budget q" by (simp add: http_budget_def n)
  show po: "http_post p g = http_post q g" for g by (simp add: http_post_def g h)
  show "post_fates p fs gs = post_fates q fs gs" by (simp add: post_fates_def g po)
  show "confirmed p fs gs = confirmed q fs gs" by (simp add: confirmed_def confirms_def po)
qed

text \<open>What a call to send adds, and what reading a reply adds to the exchange.\<close>

lemma send_talk:
  assumes "hpu_net_send E data p = (res, q)"
  shows "\<exists>k. talk q = talk p @ [NvSend (nl_fd p) data k res] \<and> (res = SendOk \<longrightarrow> length data \<le> k)"
  using assms by (auto simp: hpu_net_send_def split: prod.splits)

lemma recv_talk:
  assumes "hpu_net_recv E cap p = (s, q)"
  shows "talk q = talk p @ [NvRecv (nl_fd p) s]" "net_link.more q = net_link.more p"
  using assms by (auto simp: hpu_net_recv_def Let_def)

lemma recv_headers_talk:
  "http_recv_headers E rbuf p = (r, q) \<Longrightarrow> header_end 0 rbuf = None \<Longrightarrow> \<exists>es. talk q = talk p @ es \<and> sent es = [] \<and> net_link.more q = net_link.more p
    \<and> (case r of None \<Rightarrow> \<not> recv_ok es \<or> header_end 0 (rbuf @ heard es) = None
       | Some (rb, e) \<Rightarrow> recv_ok es \<and> rb = rbuf @ heard es \<and> header_end 0 rb = Some e)"
proof (induction E rbuf p rule: http_recv_headers.induct)
  case (1 E rbuf p)
  obtain s p1 where s: "hpu_net_recv E (HPU_HTTP_RESPBUF_MAX - length rbuf) p = (s, p1)" by fastforce
  note t = recv_talk [OF s]
  show ?case
  proof (cases "length rbuf \<ge> HPU_HTTP_RESPBUF_MAX")
    case True
    then have "r = None" "q = p" using 1(2) by (subst (asm) http_recv_headers.simps, simp)+
    then show ?thesis using 1(3) by (intro exI [of _ "[]"]) simp
  next
    case more: False
    show ?thesis
    proof (cases "s = []")
      case True
      then have "r = None" "q = p1" using 1(2) more s by (subst (asm) http_recv_headers.simps, simp)+
      then show ?thesis using t True by (intro exI [of _ "[NvRecv (nl_fd p) s]"]) simp
    next
      case got: False
      show ?thesis
      proof (cases "header_end 0 (rbuf @ s)")
        case (Some e)
        then have "r = Some (rbuf @ s, e)" "q = p1" using 1(2) more s got by (subst (asm) http_recv_headers.simps, simp)+
        then show ?thesis using t got Some by (intro exI [of _ "[NvRecv (nl_fd p) s]"]) simp
      next
        case None
        then have "http_recv_headers E (rbuf @ s) p1 = (r, q)" using 1(2) more s got by (subst (asm) http_recv_headers.simps) simp
        from 1(1) [OF more s [symmetric] got None this None] obtain es where e: "talk q = talk p1 @ es" "sent es = []" "net_link.more q = net_link.more p1"
          "case r of None \<Rightarrow> \<not> recv_ok es \<or> header_end 0 ((rbuf @ s) @ heard es) = None
           | Some (rb, e) \<Rightarrow> recv_ok es \<and> rb = (rbuf @ s) @ heard es \<and> header_end 0 rb = Some e" by blast
        then show ?thesis using t got
          by (intro exI [of _ "[NvRecv (nl_fd p) s] @ es"]) (auto simp del: append.simps split: option.splits)
      qed
    qed
  qed
qed

lemma drain_talk:
  "http_drain E want got p = (ok, q) \<Longrightarrow> \<exists>es. talk q = talk p @ es \<and> sent es = [] \<and> net_link.more q = net_link.more p \<and> recv_ok es = ok"
proof (induction E want got p rule: http_drain.induct)
  case (1 E want got p)
  obtain s p1 where s: "hpu_net_recv E HPU_HTTP_RESPBUF_MAX p = (s, p1)" by fastforce
  note t = recv_talk [OF s]
  show ?case
  proof (cases "got \<ge> want")
    case True
    then have "ok" "q = p" using 1(2) by (subst (asm) http_drain.simps, simp)+
    then show ?thesis by (intro exI [of _ "[]"]) simp
  next
    case more: False
    show ?thesis
    proof (cases "s = []")
      case True
      then have "\<not> ok" "q = p1" using 1(2) more s by (subst (asm) http_drain.simps, simp)+
      then show ?thesis using t True by (intro exI [of _ "[NvRecv (nl_fd p) s]"]) simp
    next
      case got: False
      then have "http_drain E want (got + length s) p1 = (ok, q)" using 1(2) more s by (subst (asm) http_drain.simps) simp
      from 1(1) [OF more s [symmetric] got this] obtain es where "talk q = talk p1 @ es" "sent es = []" "net_link.more q = net_link.more p1" "recv_ok es = ok" by blast
      then show ?thesis using t got by (intro exI [of _ "[NvRecv (nl_fd p) s] @ es"]) (simp del: append.simps)
    qed
  qed
qed

lemma reply_more: "ok_reply s \<Longrightarrow> ok_reply (s @ t)"
  unfolding ok_reply_def status_2xx_code using status_more [of s _ t] by (meson sublist_append_rightI sublist_order.order_trans)

lemma response_talk:
  assumes "http_read_response E p = (r, q)"
  shows "\<exists>es. talk q = talk p @ es \<and> sent es = [] \<and> net_link.more q = net_link.more p
    \<and> (recv_ok es \<and> ok_reply (heard es) \<longleftrightarrow> (\<exists>st re. r = Some (st, re) \<and> 200 \<le> st \<and> st \<le> 299))"
proof -
  obtain r1 p1 where h: "http_recv_headers E [] p = (r1, p1)" by fastforce
  have "header_end 0 [] = None" by simp
  from recv_headers_talk [OF h this, unfolded append_Nil] obtain es where e: "talk p1 = talk p @ es" "sent es = []" "net_link.more p1 = net_link.more p"
    "case r1 of None \<Rightarrow> \<not> recv_ok es \<or> header_end 0 (heard es) = None
     | Some (rb, e) \<Rightarrow> recv_ok es \<and> rb = heard es \<and> header_end 0 rb = Some e" by blast
  show ?thesis
  proof (cases r1)
    case None
    then have "r = None" "q = p1" using assms h by (auto simp: http_read_response_def)
    moreover have "\<not> (recv_ok es \<and> ok_reply (heard es))" using e(4) None header_end_found [of 0 "heard es"] by (auto simp: ok_reply_def)
    ultimately show ?thesis using e by blast
  next
    case (Some x)
    obtain rb k where x: "x = (rb, k)" by (cases x)
    have g: "recv_ok es" "rb = heard es" "header_end 0 rb = Some k" using e(4) Some x by auto
    have fin: "sublist (CRLF @ CRLF) rb" using g(3) header_end_found [of 0 rb] by simp
    show ?thesis
    proof (cases "http_status rb")
      case None
      then have "r = None" "q = p1" using assms h Some x by (auto simp: http_read_response_def)
      moreover have "\<not> ok_reply (heard es)" using None g(2) by (simp add: ok_reply_def status_2xx_code)
      ultimately show ?thesis using e by blast
    next
      case code: (Some code)
      have ok: "ok_reply rb \<longleftrightarrow> 200 \<le> code \<and> code \<le> 299" using code fin by (simp add: ok_reply_def status_2xx_code)
      show ?thesis
      proof (cases "r = Some (code, False) \<and> q = p1")
        case True
        then have "(\<exists>st re. r = Some (st, re) \<and> 200 \<le> st \<and> st \<le> 299) \<longleftrightarrow> ok_reply (heard es)" using ok g(2) by auto
        then show ?thesis using True e(1-3) g(1) by blast
      next
        case False
        then obtain want got fine where d: "http_drain E want got p1 = (fine, q)" "r = (if fine then Some (code, True) else None)" "200 \<le> code" "code \<le> 299"
          using assms h Some x code by (auto simp: http_read_response_def Let_def split: if_splits prod.splits)
        from drain_talk [OF d(1)] obtain es2 where f: "talk q = talk p1 @ es2" "sent es2 = []" "net_link.more q = net_link.more p1" "recv_ok es2 = fine" by blast
        have "ok_reply (heard es @ heard es2)" using ok d(3,4) g(2) reply_more by blast
        then show ?thesis using e(1-3) f d g by (intro exI [of _ "es @ es2"]) auto
      qed
    qed
  qed
qed

lemma http_disconnected [simp]:
  "talk (http_mark_disconnected E p) = talk p" "nl_buf (http_mark_disconnected E p) = []" "nl_buf_lines (http_mark_disconnected E p) = 0"
  "net_link.more (http_mark_disconnected E p) = net_link.more p"
  by (simp_all add: http_mark_disconnected_def http_reset_body_def close_fd_def event_bytes_def)

lemma http_closed [simp]:
  "talk (http_conn_close p) = talk p" "nl_buf (http_conn_close p) = []" "nl_buf_lines (http_conn_close p) = 0"
  "net_link.more (http_conn_close p) = net_link.more p"
  by (simp_all add: http_conn_close_def http_reset_body_def close_fd_def event_bytes_def)

lemma http_reset [simp]:
  "talk (http_reset_body p) = talk p" "nl_buf (http_reset_body p) = []" "nl_buf_lines (http_reset_body p) = 0"
  "net_link.more (http_reset_body p) = net_link.more p"
  by (simp_all add: http_reset_body_def)

lemma pending_none: "nl_buf p = [] \<Longrightarrow> nl_buf_lines p = 0 \<Longrightarrow> http_pending [] p"
  by (simp add: http_pending_def http_body_len_def http_budget_def HPU_HTTP_BODY_SIZE_def)

lemma no_reply: "\<not> ok_reply []"
  by (simp add: ok_reply_def status_2xx_def)

lemma flush_post_spec:
  assumes "http_pending ls p" "http_conf_ok p" "http_flush_post E (m + length ls) p = (rc, n, p')"
  shows "http_pending [] p' \<and> net_link.more p' = net_link.more p \<and> (\<exists>fs gs. post_fates p fs gs \<and> concat gs = ls
    \<and> talk p' = talk p @ concat fs \<and> n = m + confirmed p fs gs \<and> (rc = 0 \<longrightarrow> n = m + length ls) \<and> (rc \<noteq> 0 \<longrightarrow> n = m))"
proof (cases "ls = []")
  case True
  then have "rc = 0" "n = m" "p' = p" using assms by (auto simp: http_flush_post_def http_pending_def)
  then show ?thesis using True assms(1) by (intro conjI exI [of _ "[]"] exI [of _ "[] :: string list list"]) auto
next
  case False
  let ?b = "http_group p ls"
  have b: "http_body p = ?b" "length ?b \<le> HPU_HTTP_BODY_SIZE" "nl_buf_lines p = length ls"
    using assms(1) by (auto simp: http_body_def http_group_def http_pending_def http_body_len_def http_budget_def)
  note h = request_fits(1) [OF assms(2) b(2)]
  have one: ?thesis if "prefix (sent t) (http_post p ls)" "talk p' = talk p @ t" "n = (if confirms p ls t then m + length ls else m)"
    "rc = 0 \<longleftrightarrow> confirms p ls t" "http_pending [] p'" "net_link.more p' = net_link.more p" for t
    using that False b(2) by (intro conjI exI [of _ "[t]"] exI [of _ "[ls]"]) (auto simp: post_fates_def confirmed_def)
  have lost: ?thesis if "rc = - 1 \<and> n = m \<and> p' = http_mark_disconnected E q" "net_link.more q = net_link.more p" "talk q = talk p @ t"
      "prefix (sent t) (http_post p ls)" "\<not> (recv_ok t \<and> ok_reply (heard t))" for q t
    using that by (intro one [of t]) (auto intro!: pending_none simp: confirms_def)
  obtain r1 p1 where s1: "hpu_net_send E (http_head p (length ?b)) p = (r1, p1)" by fastforce
  obtain r2 p2 where s2: "hpu_net_send E ?b p1 = (r2, p2)" by fastforce
  obtain r3 p3 where s3: "http_read_response E p2 = (r3, p3)" by fastforce
  note a1 = send_more [OF s1] and a2 = send_more [OF s2]
  obtain k1 where t1: "talk p1 = talk p @ [NvSend (nl_fd p) (http_head p (length ?b)) k1 r1]" "r1 = SendOk \<longrightarrow> length (http_head p (length ?b)) \<le> k1"
    using send_talk [OF s1] by blast
  obtain k2 where t2: "talk p2 = talk p1 @ [NvSend (nl_fd p1) ?b k2 r2]" "r2 = SendOk \<longrightarrow> length ?b \<le> k2" using send_talk [OF s2] by blast
  obtain es where t3: "talk p3 = talk p2 @ es" "sent es = []" "net_link.more p3 = net_link.more p2"
    "recv_ok es \<and> ok_reply (heard es) \<longleftrightarrow> (\<exists>st re. r3 = Some (st, re) \<and> 200 \<le> st \<and> st \<le> 299)" using response_talk [OF s3] by blast
  let ?e1 = "NvSend (nl_fd p) (http_head p (length ?b)) k1 r1" and ?e2 = "NvSend (nl_fd p1) ?b k2 r2"
  have f: "http_flush_post E (m + length ls) p =
     (let failed = (\<lambda>q. (- 1, m, http_mark_disconnected E q))
      in if r1 \<noteq> SendOk then failed p1 else if r2 \<noteq> SendOk then failed p2
         else case r3 of None \<Rightarrow> failed p3
              | Some (status, reusable) \<Rightarrow>
                  if status < 200 \<or> status > 299 then failed p3
                  else if \<not> reusable then (0, m + length ls, http_conn_close p3) else (0, m + length ls, http_reset_body p3))"
    using False by (simp add: http_flush_post_def b(1,3) h s1 s2 s3 Let_def)
  show ?thesis
  proof (cases "r1 = SendOk")
    case r1: False
    have "prefix (sent [?e1]) (http_post p ls)" by (simp add: http_post_def take_is_prefix prefix_append)
    then show ?thesis using assms(3) f r1 a1 t1(1) no_reply by (intro lost [of p1 "[?e1]"]) (auto simp: Let_def)
  next
    case r1: True
    show ?thesis
    proof (cases "r2 = SendOk")
      case r2: False
      have "prefix (sent ([?e1] @ [?e2])) (http_post p ls)" using t1(2) r1
        by (simp del: append.simps add: http_post_def take_is_prefix)
      moreover have "talk p2 = talk p @ [?e1] @ [?e2]" "\<not> ok_reply (heard ([?e1] @ [?e2]))" using t1(1) t2(1) no_reply by (simp, simp del: append.simps)
      ultimately show ?thesis using assms(3) f r1 r2 a1 a2 by (intro lost [of p2 "[?e1] @ [?e2]"]) (auto simp: Let_def)
    next
      case r2: True
      let ?t = "[?e1] @ [?e2] @ es"
      have g: "talk p3 = talk p @ ?t" "sent ?t = http_post p ls" "recv_ok ?t = recv_ok es" "heard ?t = heard es" "net_link.more p3 = net_link.more p"
        using t1 t2 t3(1-3) a1 a2 r1 r2 by (simp_all del: append.simps add: http_post_def)
      show ?thesis
      proof (cases "\<exists>status reusable. r3 = Some (status, reusable) \<and> 200 \<le> status \<and> status \<le> 299")
        case True
        then have "rc = 0" "n = m + length ls" "p' = http_conn_close p3 \<or> p' = http_reset_body p3"
          using assms(3) f r1 r2 by (auto split: if_splits)
        moreover have "confirms p ls ?t" using True t3(4) g by (simp add: confirms_def)
        ultimately show ?thesis using g by (intro one [of ?t]) (auto intro!: pending_none simp del: append.simps)
      next
        case r3: False
        then have "rc = - 1 \<and> n = m \<and> p' = http_mark_disconnected E p3"
          using assms(3) f r1 r2 by (auto simp: Let_def split: option.splits prod.splits if_splits)
        moreover have "\<not> (recv_ok ?t \<and> ok_reply (heard ?t))" using r3 t3(4) unfolding g(3,4) by blast
        moreover have "prefix (sent ?t) (http_post p ls)" unfolding g(2) by simp
        ultimately show ?thesis using g(1,5) by (intro lost [of p3 ?t])
      qed
    qed
  qed
qed

lemma budget_need:
  assumes "\<not> http_oversized p line" "net_link.more q = net_link.more p" "nl_buf q = []"
  shows "http_body_len q + http_need q line \<le> http_budget q"
  using assms(1,3) same_conf(1,5) [OF assms(2)]
  by (auto simp: http_oversized_def http_need_def http_json_element_len_def http_body_len_def split: if_splits)

lemma pending_append:
  assumes "http_pending ls p" "http_body_len p + http_need p line \<le> http_budget p"
  shows "http_pending (ls @ [line]) ((http_append line p)\<lparr>nl_buf_lines := length ls + 1\<rparr>)"
  using assms append_join [of p ls line] append_len [of line p]
  by (simp add: http_pending_def http_body_len_def http_budget_def)

lemma http_batch_spec:
  assumes "http_pending ls p" "http_conf_ok p" "http_batch E (m + length ls) lines p = (k, p')"
  shows "http_pending [] p' \<and> net_link.more p' = net_link.more p \<and> (\<exists>fs gs n. post_fates p fs gs \<and> subseq (concat gs) (ls @ lines)
    \<and> talk p' = talk p @ concat fs \<and> reports k n \<and> n = m + confirmed p fs gs)"
  using assms
proof (induction lines arbitrary: ls m p)
  case Nil
  obtain rc n p1 where f: "http_flush_post E (m + length ls) p = (rc, n, p1)" by (metis prod_cases3)
  have "p' = p1" "reports k n" using Nil.prems(3) by (auto simp: f split: if_splits)
  with flush_post_spec [OF Nil.prems(1,2) f] show ?case by auto
next
  case (Cons line lines)
  have sub: "subseq xs (ls @ line # lines)" if "subseq xs (ls @ lines)" for xs
    using that by (rule subseq_order.trans) (simp add: list_emb_append_mono list_emb_Cons)
  show ?case
  proof (cases "http_oversized p line")
    case True
    then have "http_batch E (m + length ls) lines p = (k, p')" using Cons.prems(3) by simp
    from Cons.IH [OF Cons.prems(1,2) this] sub show ?thesis by blast
  next
    case fit: False
    show ?thesis
    proof (cases "http_body_len p + http_need p line > http_budget p")
      case room: False
      let ?p = "(http_append line p)\<lparr>nl_buf_lines := length ls + 1\<rparr>"
      have "nl_buf_lines p = length ls" using Cons.prems(1) by (simp add: http_pending_def)
      then have st: "http_batch E (m + length (ls @ [line])) lines ?p = (k, p')" using Cons.prems(3) fit room by simp
      have pe: "http_pending (ls @ [line]) ?p" using pending_append [OF Cons.prems(1)] room by simp
      have mo: "net_link.more ?p = net_link.more p" "talk ?p = talk p" by simp_all
      have "http_conf_ok ?p" using Cons.prems(2) same_conf(3) [OF mo(1)] by simp
      from Cons.IH [OF pe this st] mo same_conf(7,8) [OF mo(1)] show ?thesis by simp
    next
      case full: True
      obtain rc n p1 where f: "http_flush_post E (m + length ls) p = (rc, n, p1)" by (metis prod_cases3)
      obtain fs gs where g: "http_pending [] p1" "net_link.more p1 = net_link.more p" "post_fates p fs gs" "concat gs = ls"
        "talk p1 = talk p @ concat fs" "n = m + confirmed p fs gs" "rc = 0 \<longrightarrow> n = m + length ls"
        using flush_post_spec [OF Cons.prems(1,2) f] by blast
      show ?thesis
      proof (cases "rc = 0")
        case False
        then have "k = batch_result n" "p' = p1" using Cons.prems(3) fit full f by auto
        then show ?thesis using g by (intro conjI exI [of _ fs] exI [of _ gs] exI [of _ n]) auto
      next
        case True
        let ?p = "(http_append line p1)\<lparr>nl_buf_lines := 1\<rparr>"
        have e: "nl_buf p1 = []" "nl_buf_lines p1 = 0" using g(1) by (simp_all add: http_pending_def)
        have st: "http_batch E (n + length ([] @ [line])) lines ?p = (k, p')" using Cons.prems(3) fit full f True e by simp
        have pe: "http_pending ([] @ [line]) ?p" using pending_append [OF g(1) budget_need [OF fit g(2) e(1)]] by simp
        have mo: "net_link.more ?p = net_link.more p" "talk ?p = talk p1" using g(2) by simp_all
        have "http_conf_ok ?p" using Cons.prems(2) same_conf(3) [OF mo(1)] by simp
        from Cons.IH [OF pe this st] obtain fs2 gs2 n2 where h: "http_pending [] p'" "net_link.more p' = net_link.more p" "post_fates p fs2 gs2"
          "subseq (concat gs2) (line # lines)" "talk p' = talk p1 @ concat fs2" "reports k n2" "n2 = n + confirmed p fs2 gs2"
          using mo same_conf(7,8) [OF mo(1)] by auto
        have "subseq (concat (gs @ gs2)) (ls @ line # lines)" using g(4) h(4) by (simp add: list_emb_append_mono)
        then show ?thesis using g h post_fates_append [OF g(3) h(3)] confirmed_append [OF g(3), of p fs2 gs2]
          by (intro conjI exI [of _ "fs @ fs2"] exI [of _ "gs @ gs2"] exI [of _ n2]) auto
      qed
    qed
  qed
qed

lemma connect_frame:
  assumes "http_connect E p = (fd, p')"
  shows "talk p' = talk p \<and> net_link.more p' = net_link.more p \<and> nl_buf p' = nl_buf p \<and> nl_buf_lines p' = nl_buf_lines p"
  using assms by (auto simp: http_connect_def net_open_def event_bytes_def Let_def split: if_splits)

lemma http_gate_frame:
  assumes "(if nl_connected p then (0, p) else http_reconnect E p) = (rc, p')"
  shows "talk p' = talk p" "net_link.more p' = net_link.more p" "nl_buf p' = nl_buf p" "nl_buf_lines p' = nl_buf_lines p"
  using assms by (auto simp: http_reconnect_def hpu_now_ns_def event_bytes_def Let_def dest!: connect_frame split: if_splits prod.splits)

definition http_idle :: "hpu_http_priv \<Rightarrow> hpu_http_priv \<Rightarrow> bool" where
  "http_idle c p \<longleftrightarrow> http_pending [] p \<and> http_conf_ok p \<and> net_link.more p = net_link.more c"

lemma http_idle_moves: "http_idle c p \<Longrightarrow> http_pending [] q \<Longrightarrow> net_link.more q = net_link.more p \<Longrightarrow> http_idle c q"
  using same_conf(3) [of q p] by (simp add: http_idle_def)

lemma http_gate_idle:
  assumes "(if nl_connected p then (0, p) else http_reconnect E p) = (rc, p')" "http_idle c p"
  shows "http_idle c p'" "talk p' = talk p"
proof -
  note f = http_gate_frame [OF assms(1)]
  have "nl_buf p = []" "nl_buf_lines p = 0" using assms(2) by (simp_all add: http_idle_def http_pending_def)
  then have "http_pending [] p'" using f by (intro pending_none) simp_all
  then show "http_idle c p'" using f(2) by (rule http_idle_moves [OF assms(2)])
  show "talk p' = talk p" by (rule f(1))
qed

interpretation http: accounting_sink talk "http_idle c" "posts_tell c" "http_emit E" "http_emit_batch E"
proof
  show "posts_tell c [] [] 0" unfolding posts_tell_def by (intro exI [of _ "[]"] exI [of _ "[] :: string list list"]) simp
next
  fix b ls n b2 ms n2
  assume "posts_tell c b ls n" "posts_tell c b2 ms n2"
  then show "posts_tell c (b @ b2) (ls @ ms) (n + n2)" by (rule posts_tell_append)
next
  fix p p' :: hpu_http_priv and ev :: hpulogc_event and n :: nat
  assume a: "http_idle c p" "http_emit E p ev = (p', n)"
  let ?l = "ev_line ev"
  obtain rc p1 where g: "(if nl_connected p then (0, p) else http_reconnect E p) = (rc, p1)" by fastforce
  note i = http_gate_idle [OF g a(1)]
  have none: "posts_tell c [] [?l] 1" unfolding posts_tell_def by (intro exI [of _ "[]"] exI [of _ "[] :: string list list"]) simp
  show "http_idle c p' \<and> (\<exists>b. talk p' = talk p @ b \<and> posts_tell c b [?l] n)"
  proof (cases "rc \<noteq> 0 \<or> http_body_len p1 + http_need p1 ?l > http_budget p1")
    case True
    then have "p' = p1" "n = 1" using a(2) by (auto simp: http_emit_def g split: if_splits)
    then show ?thesis using i none by auto
  next
    case False
    let ?q = "(http_append ?l p1)\<lparr>nl_buf_lines := 1\<rparr>"
    obtain rc2 d p2 where f: "http_flush_post E (0 + length ([] @ [?l])) ?q = (rc2, d, p2)" by (metis prod_cases3)
    have pe: "http_pending ([] @ [?l]) ?q" using pending_append [of "[]" p1 ?l] i(1) False by (simp add: http_idle_def)
    have mo: "net_link.more ?q = net_link.more p1" "net_link.more ?q = net_link.more c" using i(1) by (simp_all add: http_idle_def)
    have ok: "http_conf_ok ?q" using same_conf(3) [OF mo(1)] i(1) by (simp add: http_idle_def)
    obtain fs gs where h: "http_pending [] p2" "net_link.more p2 = net_link.more ?q" "post_fates ?q fs gs" "concat gs = [?l]"
      "talk p2 = talk ?q @ concat fs" "d = confirmed ?q fs gs" "rc2 = 0 \<longrightarrow> d = 1" "rc2 \<noteq> 0 \<longrightarrow> d = 0"
      using flush_post_spec [OF pe ok f] by auto
    have r: "p' = p2" "n = (if rc2 \<noteq> 0 then 1 else 0)" using a(2) False f by (auto simp: http_emit_def g)
    have "posts_tell c (concat fs) [?l] n"
      using h r(2) same_conf(7,8) [OF mo(2)] unfolding posts_tell_def by (intro exI [of _ fs] exI [of _ gs]) auto
    moreover have "http_idle c p2" using h(1,2) mo(1) by (intro http_idle_moves [OF i(1)]) simp_all
    ultimately show ?thesis using h(5) i(2) r(1) by auto
  qed
next
  fix p p' :: hpu_http_priv and evs :: "hpulogc_event list" and k :: int and n :: nat
  assume a: "http_idle c p" "http_emit_batch E p evs = (k, p', n)"
  obtain rc p1 where g: "(if nl_connected p then (0, p) else http_reconnect E p) = (rc, p1)" by fastforce
  note i = http_gate_idle [OF g a(1)]
  show "http_idle c p' \<and> n = 0 \<and> (\<exists>b m lost. talk p' = talk p @ b \<and> posts_tell c b (map ev_line evs) lost
      \<and> reports k m \<and> m + lost = length evs)"
  proof (cases "rc = 0")
    case False
    then have r: "p' = p1" "n = 0" "k = 0" using a(2) by (auto simp: http_emit_batch_def g)
    have "posts_tell c [] (map ev_line evs) (length evs)"
      unfolding posts_tell_def by (intro exI [of _ "[]"] exI [of _ "[] :: string list list"]) simp
    then show ?thesis using r i by (intro conjI exI [of _ "[]"] exI [of _ 0] exI [of _ "length evs"]) (auto simp: reports_def)
  next
    case True
    then have b: "http_batch E (0 + length []) (map ev_line evs) p1 = (k, p')" "n = 0" using a(2) by (auto simp: http_emit_batch_def g split: prod.splits)
    have p1: "http_pending [] p1" "http_conf_ok p1" "net_link.more p1 = net_link.more c" using i(1) by (simp_all add: http_idle_def)
    obtain fs gs m where h: "http_pending [] p'" "net_link.more p' = net_link.more p1" "post_fates p1 fs gs" "subseq (concat gs) (map ev_line evs)"
      "talk p' = talk p1 @ concat fs" "reports k m" "m = confirmed p1 fs gs"
      using http_batch_spec [OF p1(1,2) b(1)] by auto
    have le: "confirmed p1 fs gs \<le> length (concat gs)" by (rule confirmed_le)
    have "posts_tell c (concat fs) (map ev_line evs) (length evs - m)"
      using h same_conf(7,8) [OF p1(3)] le list_emb_length [OF h(4)] unfolding posts_tell_def by (intro exI [of _ fs] exI [of _ gs]) auto
    moreover have "m \<le> length evs" using h(7) le list_emb_length [OF h(4)] by simp
    ultimately show ?thesis using h i(2) b(2) http_idle_moves [OF i(1) h(1,2)]
      by (intro conjI exI [of _ "concat fs"] exI [of _ m] exI [of _ "length evs - m"]) auto
  qed
qed

section \<open>From the creation on\<close>

lemma fresh_hp [simp]:
  "fresh_link (p\<lparr>hp_host := h\<rparr>) = fresh_link p" "fresh_link (p\<lparr>hp_path := h\<rparr>) = fresh_link p" "fresh_link (p\<lparr>hp_port := n\<rparr>) = fresh_link p"
  "fresh_link (p\<lparr>hp_headers := hs\<rparr>) = fresh_link p" "fresh_link (p\<lparr>hp_ndjson := x\<rparr>) = fresh_link p" "fresh_link (p\<lparr>hp_is_v6 := x\<rparr>) = fresh_link p"
  "fresh_link (p\<lparr>hp_timeout_ms := n\<rparr>) = fresh_link p" "fresh_link (p\<lparr>hp_addr := h\<rparr>) = fresh_link p"
  by (simp_all add: fresh_link_def link_idle_def talk_def)

lemma fresh_url_path: "fresh_link (snd (http_url_path p s)) = fresh_link p"
  by (simp add: http_url_path_def)

lemma fresh_url_port: "fresh_link (snd (http_url_port p s)) = fresh_link p"
  by (simp add: http_url_port_def fresh_url_path Let_def split: prod.split)

lemma fresh_configure: "fresh_link (snd (http_configure p key val)) = fresh_link p"
proof -
  have "fresh_link (snd (http_parse_url p val)) = fresh_link p"
    unfolding http_parse_url_def Let_def by (auto simp: fresh_url_port split: option.split)
  moreover have "fresh_link (snd (http_add_header p val)) = fresh_link p"
    by (simp add: http_add_header_def Let_def split: option.split)
  ultimately show ?thesis by (simp add: http_configure_def set_uint_def split: option.split)
qed

lemma http_created:
  assumes "hpu_output_create pl (Some (hpu_http_sink_ops E async)) kvs name sev utc fi bm = Inr b"
  shows "ob_ops b = hpu_http_sink_ops E async \<and> (fresh_link (ob_priv b) \<and> http_conf_ok (ob_priv b)) \<and> ob_failed b = 0"
proof (rule created_keeps [where I = "\<lambda>p. fresh_link p \<and> http_conf_ok p" and J = "\<lambda>p. fresh_link p \<and> http_conf_ok p", OF assms])
  show "fresh_link (so_priv0 (hpu_http_sink_ops E async)) \<and> http_conf_ok (so_priv0 (hpu_http_sink_ops E async))"
    by (simp add: hpu_http_sink_ops_def http_priv0_def fresh_link_def link_idle_def talk_def link0_def net_link.extend_def
        hpu_http_priv.fields_def http_conf_ok_def HPU_HTTP_HOST_MAX_def HPU_HTTP_PATH_MAX_def)
  show "so_init (hpu_http_sink_ops E async) = Some http_init" "so_start (hpu_http_sink_ops E async) = Some (http_start E)"
    by (simp_all add: hpu_http_sink_ops_def)
  show "so_configure (hpu_http_sink_ops E async) = Some f \<Longrightarrow> fresh_link p \<and> http_conf_ok p
      \<Longrightarrow> fresh_link (snd (f p k v)) \<and> http_conf_ok (snd (f p k v))" for f p k v
    by (auto simp: hpu_http_sink_ops_def fresh_configure configure_ok)
next
  fix p p' :: hpu_http_priv
  assume a: "fresh_link p \<and> http_conf_ok p"
  have "fresh_link (http_reset_body q) = fresh_link q" if "fresh_link q" for q :: hpu_http_priv
    using that by (simp add: fresh_link_def link_idle_def)
  then show "http_init p = (0, p') \<Longrightarrow> fresh_link p' \<and> http_conf_ok p'"
    using a by (auto simp: http_init_def http_reset_body_def fresh_link_def link_idle_def default_backoff_def talk_def Let_def split: if_splits)
  assume st: "http_start E p = (0, p')"
  then obtain addr fd p1 where c: "http_connect E (p\<lparr>hp_addr := addr\<rparr>) = (fd, p1)" "p' = p1\<lparr>nl_fd := fd, nl_connected := True\<rparr>"
    by (auto simp: http_start_def split: option.splits prod.splits if_splits)
  have "fresh_link p1" using a connect_frame [OF c(1)] by (simp add: fresh_link_def link_idle_def talk_def)
  moreover have "http_conf_ok p1" using a connect_frame [OF c(1)] same_conf(3) [of p1 "p\<lparr>hp_addr := addr\<rparr>"] by simp
  ultimately show "fresh_link p' \<and> http_conf_ok p'" using c(2) by simp
qed

text \<open>A sink that gets a reply once, and whose second post is refused.\<close>

definition demo_http :: net_env where
  "demo_http = (demo_net (\<lambda>log fd data. if length log < 5 then (0, SendOk) else (1, SendError)))
     \<lparr>ne_recv := (\<lambda>log fd cap. ''HTTP/1.1 200 OK'' @ CRLF @ ''Content-Length: 0'' @ CRLF @ CRLF)\<rparr>"

definition demo_http_kvs :: "hpu_kv list" where
  "demo_http_kvs = [(''url'', Some ''http://h:81/x''), (''async'', Some ''on''), (''batch mode'', Some ''ndjson'')]"

lemma demo_http_created:
  "\<exists>b. hpu_output_create demo_pl (Some (hpu_http_sink_ops demo_http True)) demo_http_kvs (Some ''w'') 2 True 100 16 = Inr b"
  by (simp add: hpu_output_create_def hpu_http_sink_ops_def demo_http_kvs_def new_output_def apply_kv_def is_common_key_def http_configure_def
      http_parse_url_def http_url_port_def http_url_path_def http_bad_host_char_def HPU_HTTP_HOST_MAX_def HPU_HTTP_PATH_MAX_def scan_number_def
      strtol_def base_digit_def base_val_def isspace_def parse_bool_str_def http_priv0_def link0_def net_link.extend_def hpu_http_priv.fields_def
      http_init_def http_reset_body_def default_backoff_def HPU_NET_BACKOFF_DEFAULT_S_def HPU_NET_BACKOFF_MAX_DEFAULT_S_def http_start_def http_connect_def
      net_open_def demo_http_def demo_net_def net_log_def demo_pl_def hpu_sink_queue_create_def Let_def)

text \<open>
  C13. At most once, and confirmed by the server. Whatever the server and the connection do, after any deliveries
  to a newly created HTTP sink its calls to send and to receive are the exchanges of a sequence of posts, in order:
  each sends the request and the body of its post, or a part of them; the posts carry some of the given lines, each
  of them once and in their order, and no body is larger than the buffer. The failures booked are the
  lines that are not in a confirmed post: one that was sent in full, and whose reply was received without an error,
  with its header complete and a status from 200 to 299.
\<close>

theorem http_at_most_once:
  assumes "hpu_output_create pl (Some (hpu_http_sink_ops E async)) kvs name sev utc fi bm = Inr b"
  shows "\<exists>segs groups. post_fates (ob_priv b) segs groups \<and> subseq (concat groups) (map ev_line (concat (map call_events calls)))
    \<and> talk (ob_priv (fold sink_deliver calls b)) = concat segs
    \<and> ob_failed (fold sink_deliver calls b) + confirmed (ob_priv b) segs groups = length (concat (map call_events calls))"
proof -
  note c = http_created [OF assms]
  have i: "so_emit (ob_ops b) = Some (http_emit E)" "so_emit_batch (ob_ops b) = Some (http_emit_batch E)" "http_idle (ob_priv b) (ob_priv b)"
    using c by (simp_all add: hpu_http_sink_ops_def http_idle_def fresh_link_def link_idle_def pending_none)
  from http.run_told [OF i, of calls] show ?thesis
    using c unfolding posts_tell_def fresh_link_def by auto
qed

theorem http_at_most_once_witness:
  "let calls = [CallBatch [net_line ''one'', net_line ''two''], CallEmit (net_line ''three'')]
   in \<exists>b segs groups. hpu_output_create demo_pl (Some (hpu_http_sink_ops demo_http True)) demo_http_kvs (Some ''w'') 2 True 100 16 = Inr b
     \<and> post_fates (ob_priv b) segs groups \<and> subseq (concat groups) [''one'', ''two'', ''three'']
     \<and> talk (ob_priv (fold sink_deliver calls b)) = concat segs
     \<and> ob_failed (fold sink_deliver calls b) + confirmed (ob_priv b) segs groups = 3"
proof -
  let ?calls = "[CallBatch [net_line ''one'', net_line ''two''], CallEmit (net_line ''three'')]"
  obtain b where b: "hpu_output_create demo_pl (Some (hpu_http_sink_ops demo_http True)) demo_http_kvs (Some ''w'') 2 True 100 16 = Inr b"
    using demo_http_created ..
  have l: "map ev_line (concat (map call_events ?calls)) = [''one'', ''two'', ''three'']" "length (concat (map call_events ?calls)) = 3"
    by (simp_all add: call_events_def net_line_def)
  show ?thesis using http_at_most_once [OF b, of ?calls] b unfolding Let_def l by blast
qed

text \<open>
  C14. The body. Appending lines to an empty ndjson body makes a text that a reader of JSON arrays reads back
  as exactly those lines, whatever bytes they hold, and every append takes exactly the space computed for it.
\<close>

theorem http_body_reads_back:
  assumes "hp_ndjson p" "nl_buf p = []"
  shows "json_array (http_body (fold http_append lines p)) = Some lines
    \<and> http_body_len (fold http_append (lines @ [line]) p)
        = http_body_len (fold http_append lines p) + http_need (fold http_append lines p) line"
proof -
  have "nl_buf (fold http_append lines p) = http_join True lines \<and> hp_ndjson (fold http_append lines p)"
  proof (induction lines rule: rev_induct)
    case Nil
    then show ?case using assms by simp
  next
    case (snoc l ls)
    then show ?case using append_join [of "fold http_append ls p" ls l] by simp
  qed
  then have "json_array (http_body (fold http_append lines p)) = Some lines" using array_join [of lines] by (simp add: http_body_def)
  then show ?thesis by (simp add: append_len)
qed

theorem http_body_reads_back_witness:
  "\<exists>p. json_array (http_body (fold http_append [''a'', [CHR 0x22, CHR 0x0A]] p)) = Some [''a'', [CHR 0x22, CHR 0x0A]]"
  using http_body_reads_back [of "(http_priv0 True)\<lparr>hp_ndjson := True\<rparr>" "[''a'', [CHR 0x22, CHR 0x0A]]" "''b''"]
  by (intro exI [of _ "(http_priv0 True)\<lparr>hp_ndjson := True\<rparr>"]) (simp add: http_priv0_def link0_def net_link.extend_def hpu_http_priv.fields_def)

text \<open>
  C15. The request. For every configuration that is accepted and every body that fits its buffer, the header
  block of the request fits the buffer on the stack, with nothing cut.
\<close>

theorem http_request_fits:
  assumes "hpu_output_create pl (Some (hpu_http_sink_ops E async)) kvs name sev utc fi bm = Inr b" "n \<le> HPU_HTTP_BODY_SIZE"
  shows "http_build_request (ob_priv b) n HPU_HTTP_REQHDR_MAX = Some (http_head (ob_priv b) n)
    \<and> length (http_head (ob_priv b) n) < HPU_HTTP_REQHDR_MAX
    \<and> take (HPU_HTTP_HOST_MAX + 7) (http_hostport (ob_priv b)) = http_hostport (ob_priv b)"
  using http_created [OF assms(1)] request_fits [OF _ assms(2)] hostport_uncut by blast

theorem http_request_fits_witness:
  "\<exists>b. hpu_output_create demo_pl (Some (hpu_http_sink_ops demo_http True)) demo_http_kvs (Some ''w'') 2 True 100 16 = Inr b
    \<and> http_build_request (ob_priv b) 65536 HPU_HTTP_REQHDR_MAX = Some (http_head (ob_priv b) 65536)"
proof -
  obtain b where b: "hpu_output_create demo_pl (Some (hpu_http_sink_ops demo_http True)) demo_http_kvs (Some ''w'') 2 True 100 16 = Inr b"
    using demo_http_created ..
  from http_request_fits [OF b, of 65536] b show ?thesis by (auto simp: HPU_HTTP_BODY_SIZE_def)
qed

section \<open>What goes wrong\<close>

text \<open>
  A connection that the server does not keep is closed in the middle of a batch, but the batch goes on with
  the closed descriptor: the rest is lost, and the backoff is armed although the server answered.
\<close>

lemma rest_of_batch_lost:
  assumes "http_pending [] p" "http_conf_ok p" "nl_fd p = - 1" "\<not> http_oversized p line"
    and "\<And>log data. snd (ne_send E log (- 1) data) = SendError"
  shows "fst (http_batch E d [line] p) = batch_result d"
proof -
  let ?q = "(http_append line p)\<lparr>nl_buf_lines := 1\<rparr>"
  have e: "nl_buf p = []" "nl_buf_lines p = 0" using assms(1) by (simp_all add: http_pending_def)
  have room: "http_body_len p + http_need p line \<le> http_budget p" by (rule budget_need [OF assms(4) refl e(1)])
  have fd: "nl_fd ?q = - 1" using assms(3) by (simp add: http_append_def)
  have send: "hpu_net_send E data ?q = (SendError, snd (hpu_net_send E data ?q))" for data
    using assms(5) fd by (simp add: hpu_net_send_def split: prod.split) (metis snd_conv)
  have "http_build_request ?q (length (http_body ?q)) HPU_HTTP_REQHDR_MAX \<noteq> None"
  proof -
    have "http_conf_ok ?q" using assms(2) same_conf(3) [of ?q p] by simp
    moreover have "length (http_body ?q) \<le> HPU_HTTP_BODY_SIZE"
      using room append_len [of line p] by (auto simp: http_body_def http_body_len_def http_budget_def HPU_HTTP_BODY_SIZE_def split: if_splits)
    ultimately show ?thesis using request_fits(1) by simp
  qed
  then obtain hdr where h: "http_build_request ?q (length (http_body ?q)) HPU_HTTP_REQHDR_MAX = Some hdr" by blast
  have "http_flush_post E (d + 1) ?q = (- 1, d, http_mark_disconnected E (snd (hpu_net_send E hdr ?q)))"
    unfolding http_flush_post_def by (subst send) (simp add: h [unfolded One_nat_def])
  then show ?thesis using assms(4) room e by simp
qed

text \<open>Such a close clears the backoff, and a failing reconnect then doubles zero.\<close>

lemma no_backoff_after_close:
  assumes "nl_backoff_ns p = 0" "http_reconnect E p = (rc, p')" "rc \<noteq> 0"
  shows "nl_backoff_ns p' = 0"
proof -
  have b: "nl_backoff_ns q = nl_backoff_ns p0" if "http_connect E p0 = (fd, q)" for fd q p0
    using that by (auto simp: http_connect_def net_open_def Let_def split: if_splits)
  have "nl_backoff_ns (arm_backoff E q) = 0" if "nl_backoff_ns q = 0" for q :: hpu_http_priv
    using that by (simp add: arm_backoff_def hpu_now_ns_def Let_def)
  then show ?thesis using assms
    by (auto simp: http_reconnect_def hpu_now_ns_def Let_def split: prod.splits if_splits dest!: b)
qed

text \<open>A blank is let through into the request line.\<close>

lemma url_blank_accepted: "fst (http_parse_url p (Some ''http://h/a b'')) = 0 \<and> hp_path (snd (http_parse_url p (Some ''http://h/a b''))) = ''/a b''"
  by (simp add: http_parse_url_def http_url_port_def http_url_path_def http_bad_host_char_def HPU_HTTP_HOST_MAX_def HPU_HTTP_PATH_MAX_def)

text \<open>An empty length is read from the body.\<close>

lemma empty_length_reads_body:
  "let head = ''HTTP/1.1 200 OK'' @ CRLF @ ''Content-Length:'' @ CRLF @ CRLF
   in http_content_length (head @ ''42'') (length head) = 42"
  by code_simp

text \<open>The batch mode that is documented as the default has to be asked for.\<close>

lemma default_mode_is_lines: "http_init (p\<lparr>hp_ndjson := False\<rparr>) = (rc, q) \<Longrightarrow> \<not> hp_ndjson q" "\<not> hp_ndjson (http_priv0 async)"
  by (auto simp: http_init_def http_reset_body_def default_backoff_def http_priv0_def net_link.extend_def hpu_http_priv.fields_def Let_def link0_def split: if_splits)

end
