(* ===== verification/Spec2Isabelle.thy ===== *)
theory Spec2Isabelle
  imports ArchiveLaws ConfParams ConfModelLaws PipelineAsync SinkQueueLaws ConsumerLaws FileSinkLaws ConsoleSink RingLockFreeLaws HttpLaws
begin

text \<open>
  A verification development for hpulogc, a C logging library: a configuration (a file or a structure) is
  parsed and finalized into a snapshot; producers put records into a ring, a consumer takes them out,
  renders each line from a compiled format and hands it to the outputs, which rotate their files.

  \<^bold>\<open>Parts and theories.\<close>
  \<^item> Shared ground. HpuPrelude: C strings, status codes of \<^verbatim>\<open>include/hpulogc.h\<close>, little-endian
    scalars, decimal text, C division.
  \<^item> Line reader, \<^verbatim>\<open>src/conf/ini.c\<close>. IniLexer: the lexer state, both entry points
    (\<^verbatim>\<open>hpu_ini_parse_buffer\<close>, \<^verbatim>\<open>hpu_ini_parse_file\<close>), delivered lines, and the
    locale of a callback with an invariant, which the configuration parser interprets.
  \<^item> Configuration file, \<^verbatim>\<open>src/conf/conf_file.c\<close>. ConfText: value parsers (and
    \<^verbatim>\<open>hpu_parse_size_str\<close>); ConfState: the snapshot of \<^verbatim>\<open>src/conf/conf_model.h\<close>; ConfFile: one
    definition per section parser, the line callback, the pre-scan and \<^verbatim>\<open>hpu_conf_load_file\<close>.
    ConfFileLaws: the well-formedness invariant, kept by every parser, and the section order; ConfStrict:
    strict against lenient parsing; ConfLoad: what a load guarantees; ConfParams: private sink parameters.
  \<^item> Configuration model, \<^verbatim>\<open>src/conf/conf_model.c\<close>. ConfModel: defaults, the code
    configuration, the checks, opening and closing of outputs, finalization and the reload variant.
    ConfModelLaws: references, duplicate paths, handles as a list beside the snapshot, the reuse plan.
  \<^item> Structured fields, \<^verbatim>\<open>src/format/format.c\<close>. WireFields: serialize, iterate, unpack.
  \<^item> Formats, \<^verbatim>\<open>src/format/format.c\<close>. FormatCompile: templates to actions; FormatRender: lines
    from actions, with the time cache; RenderLaws: every append as one put of a text, exact lines, bounds,
    escapes.
  \<^item> Ring, \<^verbatim>\<open>src/ring/ringbuf_locked.c\<close>. QueueContract: the queue contract as locales;
    RingRecord: the byte image of a record; RingLocked: put, get, close; RingLockedLaws: the ring invariant
    and the interpretations of the contract.
  \<^item> Lock-free ring, \<^verbatim>\<open>src/ring/ringbuf_lockfree.c\<close>. RingLockFree: a call as a thread that takes one
    atomic access per step, and the system of all calls; RingLockFreeInv: segments in their phases, markers;
    RingLockFreeLaws: the steps keep the invariant, the ring is a queue, and a forged record.
  \<^item> Paths and rotation. PosixPath: \<^verbatim>\<open>src/platform/posix/posix_path.c\<close>; CivilDate, Rotate and
    RotateFiles: \<^verbatim>\<open>src/output/rotate.c\<close>; ArchiveLaws: names, pruning, renaming.

  \<^item> Second level of the outputs. OutputState: events, the operations table of a sink type, instances;
    OutputCore: \<^verbatim>\<open>src/output/output.c\<close>, creation, delivery, statistics, closing, and the mapping of a
    configuration entry to a type and its keys; SinkFilter: the field filter; SinkQueue:
    \<^verbatim>\<open>src/output/sink_queue.c\<close>, the packed queue and its worker; SinkQueueLaws: what is accepted is
    delivered in order, and when nothing is accepted any more.
  \<^item> Sinks, as operations tables. FileSink: \<^verbatim>\<open>src/output/output_file.c\<close>, with the calls on the file
    system logged; FileSinkLaws: what the file and the buffer hold, batches, size; ConsoleSink:
    \<^verbatim>\<open>src/output/output_console.c\<close> and \<^verbatim>\<open>src/output/sink_null.c\<close>. NetSinks:
    \<^verbatim>\<open>src/output/sink_tcp.c\<close>, \<^verbatim>\<open>sink_unix.c\<close>, \<^verbatim>\<open>sink_udp.c\<close>, \<^verbatim>\<open>sink_fifo.c\<close>,
    \<^verbatim>\<open>sink_syslog.c\<close>, over a log of the calls on sockets and pipes; NetSinkLaws: the locale of a sink whose
    lines leave as bytes, interpreted on the TCP, Unix and UDP sinks, and what goes wrong at the edges. HttpSink:
    \<^verbatim>\<open>src/output/sink_http.c\<close>; HttpLaws: bodies, requests, posts, and the same contract for posts.
  \<^item> Routing. Registry: \<^verbatim>\<open>src/core/registry.c\<close> with the selectors; RegistryLaws: the form of the
    table and the transparency of its cache; Throttle: token buckets and sampling.
  \<^item> Runtime. SavedConfig: the deep copy of a code configuration; Runtime: the global state of
    \<^verbatim>\<open>src/core/core_internal.h\<close>, controls and statistics; Pipeline: \<^verbatim>\<open>src/core/pipeline.c\<close>, the
    producer entry, the delivery of one record and a consumer's turn; PipelineLaws: routing and rendering
    of a record, the accounts of a run; PipelineAsync: the way through the ring does not change a line;
    Lifecycle: initialisation, start, stop; CoreControl: flush, sync, \<^verbatim>\<open>src/core/hotreload.c\<close>, fork.
  \<^item> Consumers: \<^verbatim>\<open>src/core/consumer.c\<close>, the bookkeeping and the threads as a system of steps;
    ConsumerLaws: what a flush and a shutdown guarantee.

  \<^bold>\<open>How the models relate to the code.\<close> A struct is a record with the source's fields, a status code the
  integer the function returns, a buffer the list of its used bytes. A parser returns its context, because
  the return value of each is the error the context holds. The ring's calls return what they do up to the
  next wait. Calls on the file system are returned as a list, in order.

  \<^bold>\<open>Parameters.\<close> What is not in the sources is an argument: \<^verbatim>\<open>localtime\<close>, \<^verbatim>\<open>strftime\<close>
  and the text of a double; \<^verbatim>\<open>strtod\<close>; what exists in the file system and the outcome of calls on
  it; the operations of a sink type, as functions on a private state; the text \<^verbatim>\<open>vsnprintf\<close> makes;
  the rounding of doubles; clocks, thread and process numbers; the flags of the build. The components below
  the output layer take the opening of a backend and the registry of sink types as arguments; the life
  cycle instantiates them.

  \<^bold>\<open>Recursion.\<close> Loops are structural or have a measure (the unread text, the bytes of the ring); the put
  loop of the ring has the fuel of its own record count, and \<open>locked_put_contract\<close> shows it always ends.

  \<^bold>\<open>Not modelled.\<close> Failing allocation, except where a status code or a counter depends on it;
  concurrency inside a critical section, which is one step here; weak memory (the lock-free ring is
  sequentially consistent here, and its theorems are for the discard policy); the creation and joining of threads and the time they wait; the
  platform wrappers and the tools.
\<close>

end
